(* ===== verification/Prelude.thy ===== *)
theory Prelude
  imports Complex_Main
begin

text \<open>
  What the components share: the number model, Python's rounding and truncation, reading
  of optional JSON numbers, ASCII string helpers and stable sorting.

  Prices, share counts, dollars and timestamps are Python floats in the code. They are
  modelled as exact rationals (\<open>rat\<close>): every operation the code writes (comparison, \<open>round\<close>,
  \<open>int\<close>, the tolerances \<open>1e-9\<close>, \<open>1e-4\<close>) is kept, the binary rounding of a float
  operation is not. Share quantities settle on chain with six decimals; the predicate
  \<open>on_grid\<close> says so where a lemma needs it.
\<close>

section \<open>Collections of facts\<close>

named_theorems fifo_simps \<open>equations of the first-in first-out loops\<close>
named_theorems store_simps \<open>look-up laws of the tables\<close>
named_theorems py_simps \<open>Python arithmetic helpers\<close>

section \<open>Python numbers\<close>

text \<open>\<open>float(v or 0)\<close> on a field that may be missing or None.\<close>

definition or0 :: "rat option \<Rightarrow> rat" where
  "or0 v = (case v of None \<Rightarrow> 0 | Some x \<Rightarrow> x)"

text \<open>
  A JSON field read as a number by code that catches the conversion error: absent, None
  or empty (\<open>JNull\<close>), convertible by \<open>float()\<close> (\<open>JNum\<close>), or a value on which
  \<open>float()\<close> raises (\<open>JBad\<close>).
\<close>

datatype jnum = JNull | JNum rat | JBad

text \<open>\<open>int(x)\<close> on a float: truncation towards zero.\<close>

definition int_trunc :: "rat \<Rightarrow> int" where
  "int_trunc x = (if 0 \<le> x then \<lfloor>x\<rfloor> else \<lceil>x\<rceil>)"

text \<open>\<open>round(x)\<close>: to the nearest integer, ties to the even one.\<close>

definition py_round :: "rat \<Rightarrow> int" where
  "py_round x = (let f = \<lfloor>x\<rfloor>; d = x - of_int f in
     if d < 1 / 2 then f else if 1 / 2 < d then f + 1
     else if even f then f else f + 1)"

text \<open>\<open>round(x, n)\<close>.\<close>

definition round_to :: "nat \<Rightarrow> rat \<Rightarrow> rat" where
  "round_to n x = of_int (py_round (x * 10 ^ n)) / 10 ^ n"

lemma or0_simps [simp]: "or0 None = 0" "or0 (Some x) = x"
  by (simp_all add: or0_def)

lemma py_round_of_int [simp]: "py_round (of_int k) = k"
  by (simp add: py_round_def)

lemma py_round_bounds: "\<bar>of_int (py_round x) - x\<bar> \<le> 1 / 2"
proof -
  have "of_int \<lfloor>x\<rfloor> \<le> x" "x < of_int \<lfloor>x\<rfloor> + 1"
    using floor_correct [of x] by simp_all
  then show ?thesis
    by (auto simp: py_round_def Let_def abs_le_iff field_simps)
qed

lemma py_round_mono_lower: "of_int k \<le> x \<Longrightarrow> k \<le> py_round x"
proof -
  assume "of_int k \<le> x"
  then have "k \<le> \<lfloor>x\<rfloor>" by (simp add: le_floor_iff)
  then show ?thesis by (auto simp: py_round_def Let_def)
qed

lemma py_round_mono_upper: "x \<le> of_int k \<Longrightarrow> py_round x \<le> k"
proof -
  assume a: "x \<le> of_int k"
  show ?thesis
  proof (cases "x = of_int k")
    case False
    with a have "\<lfloor>x\<rfloor> < k" by (simp add: floor_less_iff)
    then show ?thesis by (auto simp: py_round_def Let_def)
  qed simp
qed

lemma py_round_pos: "1 / 2 < x \<Longrightarrow> 0 < py_round x"
proof (cases "\<lfloor>x\<rfloor> \<le> 0")
  case True
  assume x: "1 / 2 < x"
  then have "0 \<le> \<lfloor>x\<rfloor>" by (simp add: le_floor_iff)
  with True have "\<lfloor>x\<rfloor> = 0" by (rule order.antisym)
  with x show ?thesis by (simp add: py_round_def)
qed (auto simp: py_round_def Let_def)

lemma round_to_close: "\<bar>round_to n x - x\<bar> \<le> 1 / (2 * 10 ^ n)"
proof -
  let ?p = "10 ^ n :: rat" and ?r = "of_int (py_round (x * 10 ^ n)) :: rat"
  have "round_to n x - x = (?r - x * ?p) / ?p"
    by (simp add: round_to_def diff_divide_distrib)
  then have "\<bar>round_to n x - x\<bar> = \<bar>?r - x * ?p\<bar> / ?p" by (simp add: abs_divide)
  also have "\<dots> \<le> (1 / 2) / ?p"
    using py_round_bounds [of "x * ?p"] by (intro divide_right_mono) simp_all
  finally show ?thesis by simp
qed

lemma round_to_grid [simp]: "round_to n (of_int k / 10 ^ n) = of_int k / 10 ^ n"
  by (simp add: round_to_def)

lemma int_trunc_nonneg: "0 \<le> x \<Longrightarrow> int_trunc x = \<lfloor>x\<rfloor>"
  by (simp add: int_trunc_def)

lemma int_trunc_le: "0 \<le> x \<Longrightarrow> of_int (int_trunc x) \<le> x"
  by (simp add: int_trunc_def)

lemma int_trunc_of_int [simp]: "int_trunc (of_int k) = k"
  by (simp add: int_trunc_def)

text \<open>Evaluation of floors and ceilings of literals.\<close>

lemma floor_rat_lit [simp]:
  "\<lfloor>numeral a / numeral b :: rat\<rfloor> = numeral a div numeral b"
  "\<lfloor>1 / numeral b :: rat\<rfloor> = 1 div numeral b"
  "\<lfloor>- numeral a / numeral b :: rat\<rfloor> = - numeral a div numeral b"
  using floor_divide_of_int_eq [of "numeral a" "numeral b"] floor_divide_of_int_eq [of 1 "numeral b"]
    floor_divide_of_int_eq [of "- numeral a" "numeral b"]
  by (simp_all del: floor_divide_of_int_eq)

lemma ceiling_rat_lit [simp]:
  "\<lceil>numeral a / numeral b :: rat\<rceil> = - (- numeral a div numeral b)"
  using floor_rat_lit(3) [of a b] by (simp add: ceiling_def)

section \<open>Share quantities: six decimals, tolerance 1e-9\<close>

definition eps :: rat where
  "eps = 1 / 10 ^ 9"

definition share_unit :: rat where
  "share_unit = 1 / 10 ^ 6"

definition on_grid :: "rat \<Rightarrow> bool" where
  "on_grid x \<longleftrightarrow> of_int \<lfloor>x * 10 ^ 6\<rfloor> = x * 10 ^ 6"

text \<open>The number of units of a non-negative quantity.\<close>

definition n_units :: "rat \<Rightarrow> nat" where
  "n_units x = nat \<lfloor>x * 10 ^ 6\<rfloor>"

lemma eps_pos [simp]: "0 < eps" "0 \<le> eps" "\<not> eps \<le> 0" "\<not> eps < 0"
  by (simp_all add: eps_def)

lemma on_gridE:
  assumes "on_grid x"
  obtains k :: int where "x = of_int k / 10 ^ 6"
  using assms by (auto simp: on_grid_def field_simps intro: that [of "\<lfloor>x * 10 ^ 6\<rfloor>"])

lemma on_gridI [intro]: "on_grid (of_int k / 10 ^ 6)"
  by (simp add: on_grid_def)

lemma on_grid_0 [simp]: "on_grid 0"
  by (simp add: on_grid_def)

lemma on_grid_diff: "on_grid x \<Longrightarrow> on_grid y \<Longrightarrow> on_grid (x - y)"
proof -
  assume "on_grid x" "on_grid y"
  then obtain j k :: int where "x = of_int j / 10 ^ 6" "y = of_int k / 10 ^ 6"
    by (meson on_gridE)
  then have "x - y = of_int (j - k) / 10 ^ 6" by (simp add: diff_divide_distrib)
  then show ?thesis by (metis on_gridI)
qed

lemma on_grid_add: "on_grid x \<Longrightarrow> on_grid y \<Longrightarrow> on_grid (x + y)"
proof -
  assume "on_grid x" "on_grid y"
  then obtain j k :: int where "x = of_int j / 10 ^ 6" "y = of_int k / 10 ^ 6"
    by (meson on_gridE)
  then have "x + y = of_int (j + k) / 10 ^ 6" by (simp add: add_divide_distrib)
  then show ?thesis by (metis on_gridI)
qed

lemma on_grid_min: "on_grid x \<Longrightarrow> on_grid y \<Longrightarrow> on_grid (min x y)"
  by (simp add: min_def)

lemma on_grid_le_eps:
  assumes "on_grid x"
  shows "x \<le> eps \<longleftrightarrow> x \<le> 0"
proof -
  from assms obtain k :: int where k: "x = of_int k / 10 ^ 6" by (rule on_gridE)
  have "x \<le> eps \<longleftrightarrow> of_int (k * 1000) \<le> (of_int 1 :: rat)"
    by (simp add: k eps_def divide_le_eq mult.commute)
  also have "\<dots> \<longleftrightarrow> k * 1000 \<le> 1" by (simp only: of_int_le_iff)
  also have "\<dots> \<longleftrightarrow> k \<le> 0" by arith
  also have "\<dots> \<longleftrightarrow> x \<le> 0" unfolding k by (simp add: divide_le_eq)
  finally show ?thesis .
qed

lemma n_units_0 [simp]: "n_units 0 = 0"
  by (simp add: n_units_def)

lemma n_units_nonpos: "x \<le> 0 \<Longrightarrow> n_units x = 0"
proof -
  assume "x \<le> 0"
  then have "x * 10 ^ 6 \<le> of_int 0" by (simp add: mult_le_0_iff)
  then have "\<lfloor>x * 10 ^ 6\<rfloor> \<le> 0" by (simp add: floor_le_iff)
  then show ?thesis by (simp add: n_units_def)
qed

lemma of_nat_n_units: "on_grid x \<Longrightarrow> 0 \<le> x \<Longrightarrow> of_nat (n_units x) = x * 10 ^ 6"
  by (simp add: n_units_def on_grid_def of_nat_nat)

lemma n_units_share: "on_grid x \<Longrightarrow> 0 \<le> x \<Longrightarrow> of_nat (n_units x) * share_unit = x"
  by (simp add: of_nat_n_units share_unit_def)

lemma n_units_add:
  "on_grid x \<Longrightarrow> on_grid y \<Longrightarrow> 0 \<le> x \<Longrightarrow> 0 \<le> y \<Longrightarrow> n_units (x + y) = n_units x + n_units y"
proof -
  assume a: "on_grid x" "on_grid y" "0 \<le> x" "0 \<le> y"
  have "of_nat (n_units (x + y)) = (of_nat (n_units x + n_units y) :: rat)"
    using a by (simp add: of_nat_n_units on_grid_add algebra_simps)
  then show ?thesis by (simp only: of_nat_eq_iff)
qed

lemma n_units_diff:
  "on_grid x \<Longrightarrow> on_grid y \<Longrightarrow> 0 \<le> y \<Longrightarrow> y \<le> x \<Longrightarrow> n_units (x - y) = n_units x - n_units y"
  using n_units_add [of "x - y" y] by (simp add: on_grid_diff)

lemma n_units_le_iff:
  "on_grid x \<Longrightarrow> on_grid y \<Longrightarrow> 0 \<le> x \<Longrightarrow> 0 \<le> y \<Longrightarrow> n_units x \<le> n_units y \<longleftrightarrow> x \<le> y"
proof -
  assume a: "on_grid x" "on_grid y" "0 \<le> x" "0 \<le> y"
  have "n_units x \<le> n_units y \<longleftrightarrow> (of_nat (n_units x) :: rat) \<le> of_nat (n_units y)" by simp
  also have "\<dots> \<longleftrightarrow> x \<le> y" using a by (simp add: of_nat_n_units)
  finally show ?thesis .
qed

section \<open>Strings\<close>

text \<open>Python's \<open>lower\<close>, \<open>upper\<close> and \<open>strip\<close> on ASCII text.\<close>

definition lower_char :: "char \<Rightarrow> char" where
  "lower_char c = (let n = of_char c :: nat in if 65 \<le> n \<and> n \<le> 90 then char_of (n + 32) else c)"

definition upper_char :: "char \<Rightarrow> char" where
  "upper_char c = (let n = of_char c :: nat in if 97 \<le> n \<and> n \<le> 122 then char_of (n - 32) else c)"

definition lower :: "string \<Rightarrow> string" where
  "lower s = map lower_char s"

definition upper :: "string \<Rightarrow> string" where
  "upper s = map upper_char s"

definition is_space :: "char \<Rightarrow> bool" where
  "is_space c = (let n = of_char c :: nat in n = 32 \<or> (9 \<le> n \<and> n \<le> 13) \<or> (28 \<le> n \<and> n \<le> 31))"

definition strip :: "string \<Rightarrow> string" where
  "strip s = rev (dropWhile is_space (rev (dropWhile is_space s)))"

definition starts_with :: "string \<Rightarrow> string \<Rightarrow> bool" where
  "starts_with p s = (take (length p) s = p)"

text \<open>\<open>p in s\<close> for strings.\<close>

fun contains :: "string \<Rightarrow> string \<Rightarrow> bool" where
  "contains p [] = (p = [])"
| "contains p (c # s) = (starts_with p (c # s) \<or> contains p s)"

section \<open>Stable sorting\<close>

text \<open>
  Python's \<open>sorted(xs, key=f, reverse=True)\<close> keeps the order of equal keys, so it is a
  stable sort by the negated key.
\<close>

definition sort_desc :: "('a \<Rightarrow> rat) \<Rightarrow> 'a list \<Rightarrow> 'a list" where
  "sort_desc f xs = sort_key (\<lambda>x. - f x) xs"

lemma set_sort_desc [simp]: "set (sort_desc f xs) = set xs"
  by (simp add: sort_desc_def)

lemma length_sort_desc [simp]: "length (sort_desc f xs) = length xs"
  by (simp add: sort_desc_def)

lemma sort_desc_Nil [simp]: "sort_desc f [] = []" "(sort_desc f xs = []) = (xs = [])"
  by (simp_all add: sort_desc_def flip: length_0_conv)

lemma sorted_sort_desc: "sorted (map (\<lambda>x. - f x) (sort_desc f xs))"
  by (simp add: sort_desc_def)

lemma sort_desc_wrt: "sorted_wrt (\<lambda>x y. f y \<le> f x) (sort_desc f xs)"
  using sorted_sort_desc [of f xs] by (simp add: sorted_map)

section \<open>Lists\<close>

lemma sum_list_replicate_rat: "sum_list (replicate n (x :: rat)) = of_nat n * x"
  by (induction n) (auto simp: algebra_simps)

lemma drop_replicate_append:
  "k \<le> n \<Longrightarrow> drop k (replicate n x @ ys) = replicate (n - k) x @ ys"
  by simp

lemma find_SomeD: "find P xs = Some x \<Longrightarrow> x \<in> set xs \<and> P x"
  by (induction xs) (auto split: if_splits)


text \<open>The position of the first element that satisfies a predicate.\<close>

fun find_idx :: "('a \<Rightarrow> bool) \<Rightarrow> 'a list \<Rightarrow> nat option" where
  "find_idx P [] = None"
| "find_idx P (x # xs) = (if P x then Some 0 else map_option Suc (find_idx P xs))"

lemma find_idx_Some:
  "find_idx P xs = Some i \<longleftrightarrow> i < length xs \<and> P (xs ! i) \<and> (\<forall>j < i. \<not> P (xs ! j))"
proof (induction xs arbitrary: i)
  case (Cons x xs)
  then show ?case by (cases i) (auto simp: All_less_Suc2)
qed simp

lemma find_idx_None: "find_idx P xs = None \<longleftrightarrow> (\<forall>x \<in> set xs. \<not> P x)"
  by (induction xs) auto

end
