(* ===== verification/Order_Plan.thy ===== *)
theory Order_Plan
  imports Prelude
begin

text \<open>
  What the two pricing engines share: the number of shares of a buy order
  (\<open>engine/order_sizing.py\<close>), the book levels and the cliff test, and the plan of one
  market, in which both sides draw on one budget and one exposure limit (the loop of
  \<open>compute_market_single_orders\<close> and of \<open>compute_market_legacy_orders\<close>). The locale
  \<open>pricing\<close> states what a pricing engine promises and derives the budget properties once.
\<close>

section \<open>Book levels and sides\<close>

record lvl =
  lv_price :: rat
  lv_size :: rat

record side =
  sd_bids :: "lvl list"
  sd_rmin :: rat
  sd_rmax :: rat
  sd_min_size :: rat
  sd_max_spread :: rat
  sd_tick :: rat

text \<open>\<open>has_cliff_below\<close>; the probe width is None or a number of cents.\<close>

definition supports :: "rat \<Rightarrow> rat \<Rightarrow> lvl \<Rightarrow> bool" where
  "supports lo rmin b \<longleftrightarrow> 0 \<le> round_to 6 ((lv_price b - lo) * 100) \<and> lv_price b < rmin"

definition has_cliff_below :: "lvl list \<Rightarrow> rat \<Rightarrow> rat option \<Rightarrow> bool" where
  "has_cliff_below bids rmin probe =
     (case probe of None \<Rightarrow> False
      | Some n \<Rightarrow> if n \<le> 0 \<or> bids = [] then False
          else let lo = rmin - n / 100 in \<not> list_ex (supports lo rmin) bids)"

section \<open>Order size\<close>

definition compute_order_size :: "string \<Rightarrow> rat \<Rightarrow> rat \<Rightarrow> int \<Rightarrow> rat \<Rightarrow> int option" where
  "compute_order_size mode price balance min_size custom_usd =
     (if price \<le> 0 then None
      else if mode \<noteq> ''custom'' \<and> mode \<noteq> ''balance'' then Some min_size
      else
        let budget = (if mode = ''balance'' then balance else min custom_usd balance);
            sz = int_trunc (budget / price)
        in if sz < min_size then None else Some sz)"

section \<open>Two sides, one budget\<close>

text \<open>One round of the loop: the money and shares spent so far, the priced order of the
side, and what is placed after capping.\<close>

definition cap_order :: "rat \<Rightarrow> int \<Rightarrow> rat \<Rightarrow> rat \<times> int \<Rightarrow> (rat \<times> int) option \<Rightarrow> (rat \<times> int) option" where
  "cap_order budget max_shares min_size spent plan =
     (case plan of None \<Rightarrow> None
      | Some (price, wanted) \<Rightarrow>
          let remaining_usd = budget - fst spent;
              cap_usd = (if 0 < price then int_trunc (remaining_usd / price) else 0);
              cap_shares = max_shares - snd spent;
              placed = min (min wanted cap_usd) cap_shares
          in if of_int placed < min_size then None else Some (price, placed))"

definition spend :: "rat \<times> int \<Rightarrow> (rat \<times> int) option \<Rightarrow> rat \<times> int" where
  "spend spent x = (case x of None \<Rightarrow> spent
     | Some (price, placed) \<Rightarrow> (fst spent + price * of_int placed, snd spent + placed))"

definition plan_market ::
    "(side \<Rightarrow> (rat \<times> int) option) \<Rightarrow> side option \<Rightarrow> side option \<Rightarrow> rat \<Rightarrow> int \<Rightarrow>
     (rat \<times> int) option \<times> (rat \<times> int) option" where
  "plan_market quote side_a side_b budget max_shares =
     (let capped = (\<lambda>spent s. case s of None \<Rightarrow> None
            | Some sd \<Rightarrow> cap_order budget max_shares (sd_min_size sd) spent (quote sd));
          a = capped (0, 0) side_a; b = capped (spend (0, 0) a) side_b
      in (a, b))"

definition order_cost :: "(rat \<times> int) option \<Rightarrow> rat" where
  "order_cost x = (case x of None \<Rightarrow> 0 | Some (p, n) \<Rightarrow> p * of_int n)"

definition order_shares :: "(rat \<times> int) option \<Rightarrow> int" where
  "order_shares x = (case x of None \<Rightarrow> 0 | Some (p, n) \<Rightarrow> n)"


section \<open>The contract of a pricing engine\<close>

lemma cap_order_Some:
  assumes "cap_order budget m k spent plan = Some (p, n)" "0 < k"
  shows "\<exists>w. plan = Some (p, w) \<and> n \<le> w \<and> k \<le> of_int n \<and> 0 < n \<and> 0 < p \<and>
    p * of_int n \<le> budget - fst spent \<and> n \<le> m - snd spent"
proof -
  from assms(1) obtain w where w: "plan = Some (p, w)"
    "n = min (min w (if 0 < p then int_trunc ((budget - fst spent) / p) else 0)) (m - snd spent)"
    "k \<le> of_int n"
    by (auto simp: cap_order_def Let_def split: option.splits if_splits)
  then have n: "0 < n" using assms(2) by (metis less_le_trans of_int_0_less_iff)
  then have p: "0 < p" using w(2) by (auto split: if_splits)
  then have le: "n \<le> int_trunc ((budget - fst spent) / p)" using w(2) by simp
  have pos: "0 \<le> (budget - fst spent) / p"
  proof (rule ccontr)
    assume "\<not> ?thesis"
    then have "int_trunc ((budget - fst spent) / p) \<le> 0" by (simp add: int_trunc_def ceiling_le_zero)
    with le n show False by simp
  qed
  have "(of_int n :: rat) \<le> of_int (int_trunc ((budget - fst spent) / p))" using le by simp
  also have "\<dots> \<le> (budget - fst spent) / p" by (rule int_trunc_le [OF pos])
  finally have "p * of_int n \<le> budget - fst spent" using p by (simp add: field_simps)
  then show ?thesis using w n p by auto
qed

locale pricing =
  fixes quote :: "side \<Rightarrow> (rat \<times> int) option"
  assumes in_range: "quote s = Some (p, n) \<Longrightarrow> sd_rmin s \<le> p \<and> p \<le> sd_rmax s"
    and min_size_pos: "quote s = Some (p, n) \<Longrightarrow> 0 < sd_min_size s"
begin

lemma placed_order:
  assumes "cap_order budget m (sd_min_size s) spent (quote s) = Some (p, n)"
  shows "sd_rmin s \<le> p \<and> p \<le> sd_rmax s \<and> sd_min_size s \<le> of_int n \<and> 0 < p \<and> 0 < n \<and>
    (\<exists>w. quote s = Some (p, w) \<and> n \<le> w) \<and> p * of_int n \<le> budget - fst spent \<and> n \<le> m - snd spent"
proof -
  from assms obtain w where "quote s = Some (p, w)"
    by (cases "quote s") (auto simp: cap_order_def Let_def split: if_splits)
  then show ?thesis using cap_order_Some [OF assms] min_size_pos in_range by auto
qed

lemma plan_sides:
  assumes "plan_market quote sa sb budget m = (a, b)"
  shows "(case a of None \<Rightarrow> True | Some (p, n) \<Rightarrow> (\<exists>s. sa = Some s \<and>
        cap_order budget m (sd_min_size s) (0, 0) (quote s) = Some (p, n)))"
    and "(case b of None \<Rightarrow> True | Some (p, n) \<Rightarrow> (\<exists>s. sb = Some s \<and>
        cap_order budget m (sd_min_size s) (spend (0, 0) a) (quote s) = Some (p, n)))"
  using assms by (auto simp: plan_market_def Let_def split: option.splits)

lemma within_budget:
  assumes "plan_market quote sa sb budget m = (a, b)"
  shows "order_cost a + order_cost b \<le> max 0 budget \<and> order_shares a + order_shares b \<le> max 0 m \<and>
    0 \<le> order_cost a \<and> 0 \<le> order_cost b \<and> 0 \<le> order_shares a \<and> 0 \<le> order_shares b"
proof -
  have a: "a = Some (p, n) \<Longrightarrow> 0 < p \<and> 0 < n \<and> p * of_int n \<le> budget \<and> n \<le> m" for p n
    using plan_sides(1) [OF assms] placed_order [where spent = "(0, 0)"] by fastforce
  have b: "b = Some (p, n) \<Longrightarrow> 0 < p \<and> 0 < n \<and> p * of_int n \<le> budget - order_cost a \<and>
      n \<le> m - order_shares a" for p n
  proof -
    assume "b = Some (p, n)"
    then obtain s where "cap_order budget m (sd_min_size s) (spend (0, 0) a) (quote s) = Some (p, n)"
      using plan_sides(2) [OF assms] by auto
    from placed_order [OF this] show ?thesis
      by (auto simp: spend_def order_cost_def order_shares_def split: option.splits)
  qed
  have ca: "0 \<le> order_cost a \<and> order_cost a \<le> max 0 budget \<and> 0 \<le> order_shares a \<and> order_shares a \<le> max 0 m"
    using a by (cases a) (auto simp: order_cost_def order_shares_def)
  have "0 \<le> order_cost b \<and> 0 \<le> order_shares b \<and>
      (order_cost b \<le> budget - order_cost a \<or> order_cost b = 0) \<and>
      (order_shares b \<le> m - order_shares a \<or> order_shares b = 0)"
    using b by (cases b) (auto simp: order_cost_def order_shares_def)
  with ca show ?thesis by linarith
qed

lemma every_order:
  assumes "plan_market quote sa sb budget m = (a, b)"
  shows "(\<forall>p n. a = Some (p, n) \<longrightarrow> (\<exists>s w. sa = Some s \<and> quote s = Some (p, w) \<and> n \<le> w \<and>
      sd_rmin s \<le> p \<and> p \<le> sd_rmax s \<and> sd_min_size s \<le> of_int n)) \<and>
    (\<forall>p n. b = Some (p, n) \<longrightarrow> (\<exists>s w. sb = Some s \<and> quote s = Some (p, w) \<and> n \<le> w \<and>
      sd_rmin s \<le> p \<and> p \<le> sd_rmax s \<and> sd_min_size s \<le> of_int n))"
proof (intro conjI allI impI)
  fix p n assume "a = Some (p, n)"
  then obtain s where "sa = Some s" "cap_order budget m (sd_min_size s) (0, 0) (quote s) = Some (p, n)"
    using plan_sides(1) [OF assms] by auto
  with placed_order [OF this(2)] show "\<exists>s w. sa = Some s \<and> quote s = Some (p, w) \<and> n \<le> w \<and>
      sd_rmin s \<le> p \<and> p \<le> sd_rmax s \<and> sd_min_size s \<le> of_int n" by blast
next
  fix p n assume "b = Some (p, n)"
  then obtain s where "sb = Some s"
    "cap_order budget m (sd_min_size s) (spend (0, 0) a) (quote s) = Some (p, n)"
    using plan_sides(2) [OF assms] by auto
  with placed_order [OF this(2)] show "\<exists>s w. sb = Some s \<and> quote s = Some (p, w) \<and> n \<le> w \<and>
      sd_rmin s \<le> p \<and> p \<le> sd_rmax s \<and> sd_min_size s \<le> of_int n" by blast
qed

end

section \<open>Properties\<close>

text \<open>The number of shares is never below the minimum when an order is sized at all
(a positive price apart, an unknown mode orders exactly the minimum), in the balance mode
the order never costs more than the balance, in the custom mode never more than the
smaller of the configured amount and the balance, and one more share would not fit.\<close>

theorem compute_order_size_bounds:
  assumes "compute_order_size mode price balance mn usd = Some n" "0 \<le> mn" "0 \<le> balance" "0 \<le> usd"
  shows "0 < price \<and> mn \<le> n \<and>
    (if mode = ''balance'' then price * of_int n \<le> balance \<and> balance < price * of_int (n + 1)
     else if mode = ''custom'' then price * of_int n \<le> min usd balance \<and> min usd balance < price * of_int (n + 1)
     else n = mn)"
proof -
  have fit: "price * of_int (int_trunc (b / price)) \<le> b \<and> b < price * of_int (int_trunc (b / price) + 1)"
    if "0 < price" "0 \<le> b" for b
  proof -
    have "int_trunc (b / price) = \<lfloor>b / price\<rfloor>" using that by (simp add: int_trunc_nonneg)
    moreover have "of_int \<lfloor>b / price\<rfloor> * price \<le> b"
      by (rule pos_le_divide_eq [OF that(1), THEN iffD1, OF of_int_floor_le])
    moreover have "b < (of_int \<lfloor>b / price\<rfloor> + 1) * price"
      by (rule pos_divide_less_eq [OF that(1), THEN iffD1]) linarith
    ultimately show ?thesis by (simp add: mult.commute)
  qed
  from assms(1) have "0 < price" by (simp add: compute_order_size_def split: if_splits)
  with assms fit [of balance] fit [of "min usd balance"] show ?thesis
    by (auto simp: compute_order_size_def Let_def split: if_splits)
qed

lemma compute_order_size_witness:
  "compute_order_size ''custom'' (2/5) 100 50 30 = Some 75 \<and> (2/5) * 75 \<le> min 30 (100::rat)"
proof -
  have e: "compute_order_size ''custom'' (2/5) 100 50 30 = Some 75"
    by (simp add: compute_order_size_def int_trunc_def)
  from compute_order_size_bounds [OF this] e show ?thesis by simp
qed

end
