(* ===== verification/Orders.thy ===== *)
theory Orders
  imports Prelude
begin

text \<open>
  The open orders as \<open>get_orders\<close> returns them, the part the engine reads, and the two
  tolerances by which the engine decides that a resting order is the wanted one
  (\<open>engine/take_profit.py\<close>: \<open>_remaining\<close>, \<open>_price_matches\<close>, \<open>_size_matches\<close>).
\<close>

record order =
  o_id :: "string option"
  o_market :: string
  o_asset :: string
  o_side :: string
  o_price :: "rat option"
  o_original :: "rat option"
  o_size :: "rat option"
  o_matched :: "rat option"

definition remaining :: "order \<Rightarrow> rat" where
  "remaining ord = or0 (o_original ord) - or0 (o_matched ord)"

definition price_matches :: "rat \<Rightarrow> rat \<Rightarrow> rat \<Rightarrow> bool" where
  "price_matches a b tick \<longleftrightarrow> \<bar>a - b\<bar> < tick / 2"

definition size_matches :: "rat \<Rightarrow> rat \<Rightarrow> bool" where
  "size_matches a b \<longleftrightarrow> \<bar>a - b\<bar> \<le> max 1 (b / 100)"

text \<open>A fresh order as the exchange reports it right after it was accepted.\<close>

definition fresh_order :: "string \<Rightarrow> rat \<Rightarrow> rat \<Rightarrow> order" where
  "fresh_order oid p q = \<lparr>o_id = Some oid, o_market = '''', o_asset = '''', o_side = ''SELL'',
     o_price = Some p, o_original = Some q, o_size = None, o_matched = Some 0\<rparr>"

lemma remaining_fresh [simp]: "remaining (fresh_order oid p q) = q"
  by (simp add: remaining_def fresh_order_def)

lemma price_matches_refl [simp]: "0 < tick \<Longrightarrow> price_matches p p tick"
  by (simp add: price_matches_def)

lemma size_matches_refl [simp]: "size_matches q q"
  by (simp add: size_matches_def)

end
