(* ===== verification/Laddering.thy ===== *)
theory Laddering
  imports Order_Plan Orders
begin

text \<open>
  The gap-based pricing engine (\<open>engine/laddering.py\<close>): the value table, the largest gap of
  the whole book and its split point, the classification into three rules, the full
  decision \<open>explain_gap_single_order\<close>, the reason texts (as lists of parts, so that
  formatting a missing number is visible as None), the plan of a market and the
  reconciliation of the resting buy orders.
\<close>

section \<open>Value table and gaps\<close>

text \<open>Rows with a missing or unreadable field are skipped.\<close>

definition table_rows :: "(jnum \<times> jnum) list \<Rightarrow> (rat \<times> rat) list" where
  "table_rows table = concat (map (\<lambda>(u, v).
     case (u, v) of (JNum x, JNum y) \<Rightarrow> [(x, y)] | _ \<Rightarrow> []) table)"

definition amount_value :: "rat \<Rightarrow> (jnum \<times> jnum) list \<Rightarrow> rat option" where
  "amount_value price table =
     map_option snd (find (\<lambda>(upper, v). price \<le> upper) (sort_key fst (table_rows table)))"

definition sorted_levels :: "lvl list \<Rightarrow> lvl list" where
  "sorted_levels bids = sort_desc lv_price bids"

definition gap_between :: "lvl \<Rightarrow> lvl \<Rightarrow> rat" where
  "gap_between a b = round_to 6 ((lv_price a - lv_price b) * 100)"

text \<open>The scan of \<open>_max_gap_and_split\<close>: a later gap replaces the best only if it is larger.\<close>

fun gap_scan :: "nat \<Rightarrow> lvl list \<Rightarrow> rat \<times> nat \<Rightarrow> rat \<times> nat" where
  "gap_scan i (a # b # ls) best =
     (let gap = gap_between a b
      in gap_scan (Suc i) (b # ls) (if fst best < gap then (gap, i) else best))"
| "gap_scan i [a] best = best"
| "gap_scan i [] best = best"

definition max_gap_and_split :: "lvl list \<Rightarrow> rat \<times> nat" where
  "max_gap_and_split levels = gap_scan 0 levels (0, length levels - 1)"

definition max_gap_cents :: "lvl list \<Rightarrow> rat" where
  "max_gap_cents bids = fst (max_gap_and_split (sorted_levels bids))"

section \<open>The decision\<close>

datatype rule = Dense | Middle | Wide

text \<open>\<open>Wide\<close>, \<open>Middle\<close>, \<open>Dense\<close> are the rules 1, 2 and 3 of the code.\<close>

record gap_cfg =
  gc_table :: "(jnum \<times> jnum) list"
  gc_wide :: rat
  gc_mid :: rat
  gc_sum1 :: rat
  gc_sum2 :: rat
  gc_sum3 :: rat
  gc_min1 :: rat
  gc_min2 :: rat
  gc_min3 :: rat
  gc_cliff :: "rat option"
  gc_shares :: "rat option"
  gc_veto :: "rat option"

datatype skip =
    No_book
  | No_level_in_range
  | Cliff rat
  | Gap_veto rat rat
  | Sum_below_gate rule rat rat rat
  | No_coeff rule rat rat

record glevel =
  gl_price :: rat
  gl_size :: rat
  gl_coeff :: rat
  gl_in_range :: bool
  gl_high :: bool
  gl_chosen :: bool

record decision =
  d_place :: bool
  d_rule :: "rule option"
  d_max_gap :: rat
  d_min_coeff :: "rat option"
  d_high_sum :: "rat option"
  d_gate_min :: "rat option"
  d_gate_passed :: bool
  d_levels :: "glevel list"
  d_chosen :: "nat option"
  d_price :: "rat option"
  d_shares :: "int option"
  d_skip :: "skip option"
  d_cliff :: bool

definition no_decision :: decision where
  "no_decision = \<lparr>d_place = False, d_rule = None, d_max_gap = 0, d_min_coeff = None,
     d_high_sum = None, d_gate_min = None, d_gate_passed = False, d_levels = [], d_chosen = None,
     d_price = None, d_shares = None, d_skip = None, d_cliff = False\<rparr>"

definition in_range :: "rat \<Rightarrow> rat \<Rightarrow> lvl \<Rightarrow> bool" where
  "in_range rmin rmax l \<longleftrightarrow> rmin \<le> lv_price l \<and> lv_price l \<le> rmax"

definition level_coeff :: "(jnum \<times> jnum) list \<Rightarrow> rat \<Rightarrow> lvl \<Rightarrow> rat" where
  "level_coeff table min_size l =
     (case amount_value (lv_price l) table of
        None \<Rightarrow> 0
      | Some av \<Rightarrow> if 0 < av then lv_size l / (min_size * av) else 0)"

definition annotate :: "gap_cfg \<Rightarrow> rat \<Rightarrow> rat \<Rightarrow> rat \<Rightarrow> nat \<Rightarrow> lvl list \<Rightarrow> glevel list" where
  "annotate cfg rmin rmax min_size split ls =
     map (\<lambda>(i, l). \<lparr>gl_price = lv_price l, gl_size = lv_size l,
        gl_coeff = level_coeff (gc_table cfg) min_size l, gl_in_range = in_range rmin rmax l,
        gl_high = (i \<le> split), gl_chosen = False\<rparr>) (enumerate 0 ls)"

text \<open>The rule of a gap, with its coefficient threshold and its gate.\<close>

definition classify :: "gap_cfg \<Rightarrow> rat \<Rightarrow> rule \<times> rat \<times> rat" where
  "classify cfg g =
     (if gc_wide cfg < g then (Wide, gc_min1 cfg, gc_sum1 cfg)
      else if gc_mid cfg \<le> g then (Middle, gc_min2 cfg, gc_sum2 cfg)
      else (Dense, gc_min3 cfg, gc_sum3 cfg))"

definition vetoed :: "rat option \<Rightarrow> rat \<Rightarrow> bool" where
  "vetoed veto g = (case veto of None \<Rightarrow> False | Some v \<Rightarrow> 0 < v \<and> v < g)"

definition explain_gap_single_order ::
    "gap_cfg \<Rightarrow> lvl list \<Rightarrow> rat \<Rightarrow> rat \<Rightarrow> rat \<Rightarrow> decision" where
  "explain_gap_single_order cfg bids rmin rmax min_size =
     (if min_size \<le> 0 \<or> bids = [] then no_decision\<lparr>d_skip := Some No_book\<rparr>
      else
      let ls = sorted_levels bids in
      if \<not> list_ex (in_range rmin rmax) ls then no_decision\<lparr>d_skip := Some No_level_in_range\<rparr>
      else if has_cliff_below bids rmin (gc_cliff cfg)
      then no_decision\<lparr>d_cliff := True, d_skip := Some (Cliff (or0 (gc_cliff cfg)))\<rparr>
      else
      let (max_gap, split) = max_gap_and_split ls;
          levels = annotate cfg rmin rmax min_size split ls;
          d1 = no_decision\<lparr>d_max_gap := max_gap, d_levels := levels\<rparr> in
      if vetoed (gc_veto cfg) max_gap
      then d1\<lparr>d_skip := Some (Gap_veto max_gap (or0 (gc_veto cfg)))\<rparr>
      else
      let (rl, min_coeff, gate_min) = classify cfg max_gap;
          high_sum = sum_list (map gl_coeff (take (split + 1) levels));
          d2 = d1\<lparr>d_rule := Some rl, d_min_coeff := Some min_coeff, d_high_sum := Some high_sum,
            d_gate_min := Some gate_min\<rparr> in
      if high_sum < gate_min
      then d2\<lparr>d_skip := Some (Sum_below_gate rl max_gap high_sum gate_min)\<rparr>
      else
      let d3 = d2\<lparr>d_gate_passed := True\<rparr> in
      (case find_idx (\<lambda>l. gl_in_range l \<and> min_coeff < gl_coeff l) levels of
         Some i \<Rightarrow> d3\<lparr>d_place := True, d_levels := levels[i := (levels ! i)\<lparr>gl_chosen := True\<rparr>],
           d_chosen := Some i, d_price := Some (gl_price (levels ! i)),
           d_shares := Some (case gc_shares cfg of Some s \<Rightarrow> int_trunc s | None \<Rightarrow> int_trunc min_size)\<rparr>
       | None \<Rightarrow> d3\<lparr>d_skip := Some (No_coeff rl max_gap min_coeff)\<rparr>))"

definition plan_gap_single_order ::
    "gap_cfg \<Rightarrow> lvl list \<Rightarrow> rat \<Rightarrow> rat \<Rightarrow> rat \<Rightarrow> (rat \<times> int) option" where
  "plan_gap_single_order cfg bids rmin rmax min_size =
     (let d = explain_gap_single_order cfg bids rmin rmax min_size in
      if d_place d then (case (d_price d, d_shares d) of
          (Some p, Some n) \<Rightarrow> Some (p, n) | _ \<Rightarrow> None)
      else None)"

section \<open>Plan of a market and preview\<close>

definition gap_quote :: "gap_cfg \<Rightarrow> side \<Rightarrow> (rat \<times> int) option" where
  "gap_quote cfg s = plan_gap_single_order cfg (sd_bids s) (sd_rmin s) (sd_rmax s) (sd_min_size s)"

definition compute_market_single_orders ::
    "gap_cfg \<Rightarrow> side option \<Rightarrow> side option \<Rightarrow> rat \<Rightarrow> int \<Rightarrow>
     (rat \<times> int) option \<times> (rat \<times> int) option" where
  "compute_market_single_orders cfg side_a side_b budget max_shares =
     plan_market (gap_quote cfg) side_a side_b budget max_shares"

definition preview_gap_single_market ::
    "gap_cfg \<Rightarrow> side option \<Rightarrow> side option \<Rightarrow> decision option \<times> decision option" where
  "preview_gap_single_market cfg side_a side_b =
     (let view = map_option (\<lambda>s. explain_gap_single_order cfg (sd_bids s) (sd_rmin s) (sd_rmax s) (sd_min_size s))
      in (view side_a, view side_b))"

section \<open>Reconciling the resting buy orders\<close>

text \<open>\<open>o.get("original_size", o.get("size", 0)) or 0\<close> minus the matched size.\<close>

definition left_open :: "order \<Rightarrow> rat" where
  "left_open x = (case o_original x of Some q \<Rightarrow> q | None \<Rightarrow> or0 (o_size x)) - or0 (o_matched x)"

definition ladder_target :: "(rat \<times> int) list \<Rightarrow> rat \<Rightarrow> int option" where
  "ladder_target ladder = map_of (rev (map (\<lambda>(p, s). (round_to 4 p, s)) ladder))"

text \<open>The loop: the prices already kept and the orders to cancel.\<close>

fun reconcile_loop ::
    "(rat \<Rightarrow> int option) \<Rightarrow> rat \<Rightarrow> order list \<Rightarrow> rat set \<Rightarrow> string list \<Rightarrow> rat set \<times> string list" where
  "reconcile_loop target tol [] kept cancels = (kept, cancels)"
| "reconcile_loop target tol (x # xs) kept cancels =
     (let op = round_to 4 (or0 (o_price x));
          fits = (case target op of None \<Rightarrow> False
            | Some tgt \<Rightarrow> op \<notin> kept \<and> \<bar>left_open x - of_int tgt\<bar> \<le> max 1 (tol * of_int tgt))
      in if fits then reconcile_loop target tol xs (insert op kept) cancels
         else reconcile_loop target tol xs kept
           (case o_id x of Some i \<Rightarrow> cancels @ [i] | None \<Rightarrow> cancels))"

definition reconcile_buy_orders ::
    "(rat \<times> int) list \<Rightarrow> order list \<Rightarrow> rat \<Rightarrow> string list \<times> (rat \<times> int) list" where
  "reconcile_buy_orders ladder resting tol =
     (let (kept, cancels) = reconcile_loop (ladder_target ladder) tol resting {} []
      in (cancels, filter (\<lambda>(p, s). round_to 4 p \<notin> kept) ladder))"


section \<open>Reason texts\<close>

text \<open>
  A text is a list of parts: fixed text, a formatted number, a position or the skip
  reason. Formatting None with a number format raises TypeError, indexing past the list
  IndexError; both are the result None.
\<close>

datatype part = Lit string | Fmt rat | Pos nat | Why "skip option" | Label "rule option"

definition fmt :: "rat option \<Rightarrow> part option" where
  "fmt v = map_option Fmt v"

fun all_parts :: "part option list \<Rightarrow> part list option" where
  "all_parts [] = Some []"
| "all_parts (None # ps) = None"
| "all_parts (Some p # ps) = map_option ((#) p) (all_parts ps)"

text \<open>\<open>d.get("gate_min") and d.get("high_sum") is not None\<close>.\<close>

definition gate_shown :: "decision \<Rightarrow> bool" where
  "gate_shown d \<longleftrightarrow> or0 (d_gate_min d) \<noteq> 0 \<and> d_high_sum d \<noteq> None"

definition gap_single_reason :: "decision \<Rightarrow> part list option" where
  "gap_single_reason d =
     (case (d_place d, d_chosen d) of
        (True, Some i) \<Rightarrow>
          if length (d_levels d) \<le> i then None
          else all_parts ([Some (Label (d_rule d)), Some (Fmt (d_max_gap d))] @
            (if gate_shown d then [fmt (d_high_sum d)] else []) @
            [Some (Pos (i + 1)), Some (Fmt (gl_price (d_levels d ! i))),
             Some (Fmt (gl_coeff (d_levels d ! i))), fmt (d_min_coeff d)])
      | _ \<Rightarrow> Some [Why (d_skip d)])"

definition gap_single_price_basis :: "decision \<Rightarrow> rat \<Rightarrow> rat \<Rightarrow> part list option" where
  "gap_single_price_basis d rmin rmax =
     (let src = [Some (Fmt rmin), Some (Fmt rmax), Some (Lit ''CLOB get_orderbook'')] in
      case (d_place d, d_chosen d) of
        (True, Some i) \<Rightarrow>
          if length (d_levels d) \<le> i then None
          else let lv = d_levels d ! i in
            all_parts ([Some (Fmt (gl_price lv)), Some (Fmt (gl_coeff lv)), Some (Fmt (gl_size lv)),
              Some (Fmt (d_max_gap d)), Some (Label (d_rule d)), fmt (d_min_coeff d)] @ src)
      | _ \<Rightarrow>
          if d_cliff d then all_parts (Some (Why (d_skip d)) # src)
          else if d_levels d = [] then all_parts src
          else all_parts
            (concat (map (\<lambda>l. [Some (Fmt (gl_price l)), Some (Fmt (gl_size l)), Some (Fmt (gl_coeff l))] @
                (if gl_high l then [Some (Lit ''high'')] else []) @
                (if gl_in_range l then [] else [Some (Lit ''out of range'')])) (d_levels d)) @
             [Some (Fmt (d_max_gap d)), Some (Label (d_rule d))] @
             (if d_rule d = None then [Some (Why (d_skip d))]
              else if \<not> d_gate_passed d then
                map (\<lambda>l. Some (Fmt (gl_coeff l))) (filter gl_high (d_levels d)) @
                [fmt (d_high_sum d), fmt (d_gate_min d)]
              else (if gate_shown d then [fmt (d_high_sum d)] else []) @ [fmt (d_min_coeff d)]) @
             [Some (Lit ''coeff'')] @ src))"

section \<open>Gaps\<close>

lemma set_sorted_levels [simp]: "set (sorted_levels bids) = set bids" "(sorted_levels bids = []) = (bids = [])"
  by (simp_all add: sorted_levels_def)

lemma gap_scan_spec:
  "gap_scan i ls best = (g, s) \<Longrightarrow>
    fst best \<le> g \<and> (\<forall>k. Suc k < length ls \<longrightarrow> gap_between (ls ! k) (ls ! Suc k) \<le> g) \<and>
    ((g, s) = best \<or> (\<exists>k. Suc k < length ls \<and> s = i + k \<and> gap_between (ls ! k) (ls ! Suc k) = g \<and>
      fst best < g \<and> (\<forall>j < k. gap_between (ls ! j) (ls ! Suc j) < g)))"
proof (induction i ls best rule: gap_scan.induct)
  case (1 i a b ls best)
  let ?gap = "gap_between a b" and ?best = "if fst best < gap_between a b then (gap_between a b, i) else best"
  have IH: "fst ?best \<le> g" "\<And>k. Suc k < length (b # ls) \<Longrightarrow> gap_between ((b # ls) ! k) (ls ! k) \<le> g"
    "(g, s) = ?best \<or> (\<exists>k. Suc k < length (b # ls) \<and> s = Suc i + k \<and> gap_between ((b # ls) ! k) (ls ! k) = g \<and>
      fst ?best < g \<and> (\<forall>j < k. gap_between ((b # ls) ! j) (ls ! j) < g))"
    using "1.IH" [OF refl] "1.prems" by (simp_all add: Let_def)
  have le: "?gap \<le> g" "fst best \<le> g" using IH(1) by (auto split: if_splits)
  have all: "gap_between ((a # b # ls) ! k) ((a # b # ls) ! Suc k) \<le> g" if "Suc k < length (a # b # ls)" for k
    using that le(1) IH(2) by (cases k) auto
  from IH(3) consider "(g, s) = ?best" | k where "Suc k < length (b # ls)" "s = Suc i + k"
    "gap_between ((b # ls) ! k) (ls ! k) = g" "fst ?best < g" "\<forall>j < k. gap_between ((b # ls) ! j) (ls ! j) < g"
    by blast
  then have "(g, s) = best \<or> (\<exists>k. Suc k < length (a # b # ls) \<and> s = i + k \<and>
      gap_between ((a # b # ls) ! k) ((a # b # ls) ! Suc k) = g \<and> fst best < g \<and>
      (\<forall>j < k. gap_between ((a # b # ls) ! j) ((a # b # ls) ! Suc j) < g))"
  proof cases
    case 1
    then show ?thesis by (cases "fst best < ?gap") (auto intro!: exI [of _ 0])
  next
    case (2 k)
    have "fst best < g" "?gap < g" using 2(4) by (auto split: if_splits)
    with 2 show ?thesis by (intro disjI2 exI [of _ "Suc k"]) (auto simp: All_less_Suc2)
  qed
  with le all show ?case by blast
qed auto

text \<open>The largest gap of a book is at least every gap between neighbouring levels, and
the split point is the first pair of neighbours that attains it; a book without gaps has
the gap zero and no split, everything counts as the high side.\<close>

theorem max_gap_and_split_spec:
  "case max_gap_and_split ls of (g, s) \<Rightarrow>
     0 \<le> g \<and> (\<forall>k < length ls - 1. gap_between (ls ! k) (ls ! Suc k) \<le> g) \<and>
     (if g = 0 then s = length ls - 1
      else Suc s < length ls \<and> gap_between (ls ! s) (ls ! Suc s) = g \<and>
        (\<forall>j < s. gap_between (ls ! j) (ls ! Suc j) < g))"
proof -
  obtain g s where "max_gap_and_split ls = (g, s)" by fastforce
  with gap_scan_spec [of 0 ls "(0, length ls - 1)" g s] show ?thesis
    by (auto simp: max_gap_and_split_def less_diff_conv)
qed

lemma max_gap_and_split_witness:
  "max_gap_and_split [\<lparr>lv_price = 1/2, lv_size = 1\<rparr>, \<lparr>lv_price = 2/5, lv_size = 1\<rparr>, \<lparr>lv_price = 1/4, lv_size = 1\<rparr>]
    = (15, 1) \<and> gap_between \<lparr>lv_price = 1/2, lv_size = 1\<rparr> \<lparr>lv_price = 2/5, lv_size = 1\<rparr> \<le> 15"
proof -
  let ?ls = "[\<lparr>lv_price = 1/2, lv_size = 1\<rparr>, \<lparr>lv_price = 2/5, lv_size = 1\<rparr>, \<lparr>lv_price = 1/4, lv_size = 1\<rparr>]"
  have e: "max_gap_and_split ?ls = (15, 1)"
    by (simp add: max_gap_and_split_def gap_between_def round_to_def py_round_def)
  from max_gap_and_split_spec [of ?ls] show ?thesis unfolding e by (simp add: less_Suc_eq)
qed


section \<open>What a placed order satisfies\<close>

lemma annotate_nth [simp]:
  "i < length ls \<Longrightarrow> annotate cfg rmin rmax k s ls ! i = \<lparr>gl_price = lv_price (ls ! i), gl_size = lv_size (ls ! i),
     gl_coeff = level_coeff (gc_table cfg) k (ls ! i), gl_in_range = in_range rmin rmax (ls ! i),
     gl_high = (i \<le> s), gl_chosen = False\<rparr>"
  by (simp add: annotate_def nth_enumerate_eq)

lemma length_annotate [simp]: "length (annotate cfg rmin rmax k s ls) = length ls"
  by (simp add: annotate_def)

lemma coeffs_annotate: "map gl_coeff (annotate cfg rmin rmax k s ls) = map (level_coeff (gc_table cfg) k) ls"
  by (rule nth_equalityI) simp_all

definition high_sum :: "gap_cfg \<Rightarrow> rat \<Rightarrow> lvl list \<Rightarrow> rat" where
  "high_sum cfg k bids = sum_list (map (level_coeff (gc_table cfg) k)
     (take (snd (max_gap_and_split (sorted_levels bids)) + 1) (sorted_levels bids)))"

text \<open>The level that is chosen: the first of the sorted levels in range whose coefficient
exceeds the threshold.\<close>

definition qualifies :: "gap_cfg \<Rightarrow> rat \<Rightarrow> rat \<Rightarrow> rat \<Rightarrow> rat \<Rightarrow> lvl \<Rightarrow> bool" where
  "qualifies cfg rmin rmax k min_coeff l \<longleftrightarrow>
     in_range rmin rmax l \<and> min_coeff < level_coeff (gc_table cfg) k l"

definition gap_admits :: "gap_cfg \<Rightarrow> lvl list \<Rightarrow> rat \<Rightarrow> rat \<Rightarrow> bool" where
  "gap_admits cfg bids rmin k \<longleftrightarrow> 0 < k \<and> \<not> has_cliff_below bids rmin (gc_cliff cfg) \<and>
     \<not> vetoed (gc_veto cfg) (max_gap_cents bids) \<and>
     snd (snd (classify cfg (max_gap_cents bids))) \<le> high_sum cfg k bids"

lemma find_annotate:
  "find_idx (\<lambda>l. gl_in_range l \<and> c < gl_coeff l) (annotate cfg rmin rmax k s ls) = find_idx (qualifies cfg rmin rmax k c) ls"
proof -
  have "find_idx (\<lambda>l. gl_in_range l \<and> c < gl_coeff l)
    (map (\<lambda>(i, l). \<lparr>gl_price = lv_price l, gl_size = lv_size l,
        gl_coeff = level_coeff (gc_table cfg) k l, gl_in_range = in_range rmin rmax l,
        gl_high = (i \<le> s), gl_chosen = False\<rparr>) (enumerate n ls)) = find_idx (qualifies cfg rmin rmax k c) ls" for n
    by (induction ls arbitrary: n) (auto simp: qualifies_def)
  then show ?thesis by (simp add: annotate_def)
qed

lemma explain_place:
  assumes "list_ex (in_range rmin rmax) bids" "gap_admits cfg bids rmin k"
    and "classify cfg (max_gap_cents bids) = (rl, c, gate)"
    and "find_idx (qualifies cfg rmin rmax k c) (sorted_levels bids) = Some i"
  shows "plan_gap_single_order cfg bids rmin rmax k =
    Some (lv_price (sorted_levels bids ! i), case gc_shares cfg of Some s \<Rightarrow> int_trunc s | None \<Rightarrow> int_trunc k)"
proof -
  obtain g s where gs: "max_gap_and_split (sorted_levels bids) = (g, s)" by fastforce
  have "i < length (sorted_levels bids)" using assms(4) by (simp add: find_idx_Some)
  moreover have "bids \<noteq> []" "list_ex (in_range rmin rmax) (sorted_levels bids)"
    using assms(1) by (auto simp: list_ex_iff)
  ultimately show ?thesis
    using assms gs unfolding plan_gap_single_order_def explain_gap_single_order_def
    by (simp add: gap_admits_def high_sum_def max_gap_cents_def Let_def find_annotate take_map [symmetric]
      coeffs_annotate not_less)
qed

lemma explain_skip:
  assumes "\<not> (list_ex (in_range rmin rmax) bids \<and> gap_admits cfg bids rmin k \<and>
    find_idx (qualifies cfg rmin rmax k (fst (snd (classify cfg (max_gap_cents bids))))) (sorted_levels bids) \<noteq> None)"
  shows "plan_gap_single_order cfg bids rmin rmax k = None"
proof -
  obtain g s where gs: "max_gap_and_split (sorted_levels bids) = (g, s)" by fastforce
  obtain rl c gate where cl: "classify cfg g = (rl, c, gate)" using prod_cases3 by blast
  have "list_ex (in_range rmin rmax) (sorted_levels bids) = list_ex (in_range rmin rmax) bids"
    by (simp add: list_ex_iff)
  with assms gs cl show ?thesis
    unfolding plan_gap_single_order_def explain_gap_single_order_def
    by (auto simp: gap_admits_def high_sum_def max_gap_cents_def Let_def find_annotate take_map [symmetric]
      coeffs_annotate no_decision_def split: option.splits)
qed

lemma sorted_levels_desc: "i < j \<Longrightarrow> j < length (sorted_levels bids) \<Longrightarrow>
    lv_price (sorted_levels bids ! j) \<le> lv_price (sorted_levels bids ! i)"
  using sorted_wrt_nth_less [OF sort_desc_wrt [of lv_price bids]] by (simp add: sorted_levels_def)

lemma find_sorted_level:
  assumes "find_idx Q (sorted_levels bids) = Some i"
  shows "sorted_levels bids ! i \<in> set bids \<and> Q (sorted_levels bids ! i) \<and>
    (\<forall>l \<in> set bids. lv_price (sorted_levels bids ! i) < lv_price l \<longrightarrow> \<not> Q l)"
proof -
  have i: "i < length (sorted_levels bids)" "Q (sorted_levels bids ! i)" "\<forall>j < i. \<not> Q (sorted_levels bids ! j)"
    using assms by (simp_all add: find_idx_Some)
  have "\<not> Q l" if l: "l \<in> set bids" "lv_price (sorted_levels bids ! i) < lv_price l" for l
  proof -
    from l(1) obtain j where j: "j < length (sorted_levels bids)" "sorted_levels bids ! j = l"
      using in_set_conv_nth [of l "sorted_levels bids"] by auto
    have "\<not> i < j" "i \<noteq> j" using sorted_levels_desc [of i j bids] j l(2) by auto
    then show ?thesis using i(3) j(2) by auto
  qed
  with i show ?thesis using nth_mem [OF i(1)] by simp
qed

lemma plan_gap_single_order_iff:
  "plan_gap_single_order cfg bids rmin rmax k \<noteq> None \<longleftrightarrow> gap_admits cfg bids rmin k \<and>
    (\<exists>l \<in> set bids. qualifies cfg rmin rmax k (fst (snd (classify cfg (max_gap_cents bids)))) l)"
proof -
  obtain rl c gate where cl: "classify cfg (max_gap_cents bids) = (rl, c, gate)" using prod_cases3 by blast
  have found: "find_idx (qualifies cfg rmin rmax k c) (sorted_levels bids) \<noteq> None \<longleftrightarrow>
      (\<exists>l \<in> set bids. qualifies cfg rmin rmax k c l)"
    using find_idx_None [of "qualifies cfg rmin rmax k c" "sorted_levels bids"] by auto
  moreover have "list_ex (in_range rmin rmax) bids" if "\<exists>l \<in> set bids. qualifies cfg rmin rmax k c l"
    using that by (auto simp: list_ex_iff qualifies_def)
  ultimately show ?thesis
    using explain_skip [of rmin rmax bids cfg k] explain_place [OF _ _ cl] by (fastforce simp: cl)
qed

lemma plan_gap_single_order_SomeD:
  assumes "plan_gap_single_order cfg bids rmin rmax k = Some (p, n)"
    and "classify cfg (max_gap_cents bids) = (rl, c, gate)"
  shows "gap_admits cfg bids rmin k \<and> rmin \<le> p \<and> p \<le> rmax \<and>
    n = int_trunc (case gc_shares cfg of Some s \<Rightarrow> s | None \<Rightarrow> k) \<and>
    (\<exists>l \<in> set bids. lv_price l = p \<and> c < level_coeff (gc_table cfg) k l) \<and>
    (\<forall>l \<in> set bids. p < lv_price l \<and> lv_price l \<le> rmax \<longrightarrow> level_coeff (gc_table cfg) k l \<le> c)"
proof -
  have adm: "gap_admits cfg bids rmin k" "list_ex (in_range rmin rmax) bids"
    using explain_skip [of rmin rmax bids cfg k] assms(1) by auto
  obtain i where i: "find_idx (qualifies cfg rmin rmax k c) (sorted_levels bids) = Some i"
    using explain_skip [of rmin rmax bids cfg k] assms
    by (cases "find_idx (qualifies cfg rmin rmax k c) (sorted_levels bids)") simp_all
  from explain_place [OF adm(2,1) assms(2) i] assms(1)
  have p: "p = lv_price (sorted_levels bids ! i)"
    "n = int_trunc (case gc_shares cfg of Some s \<Rightarrow> s | None \<Rightarrow> k)"
    by (auto split: option.splits)
  from find_sorted_level [OF i] adm(1) p show ?thesis
    by (auto simp: qualifies_def in_range_def not_less)
qed


text \<open>C22: the gap engine places an order exactly when the minimum size is positive, no cliff
lies below the reward range, the largest gap of the whole book is not above the veto, the
high side passes the gate of its rule and some bid in the reward range has a coefficient
above the threshold of that rule; the price is then the highest such bid, inside the
reward range, and the shares are the configured ones or the minimum.\<close>

theorem gap_single_order_spec:
  assumes "classify cfg (max_gap_cents bids) = (rl, c, gate)"
  shows "case plan_gap_single_order cfg bids rmin rmax k of
      None \<Rightarrow> k \<le> 0 \<or> has_cliff_below bids rmin (gc_cliff cfg) \<or> vetoed (gc_veto cfg) (max_gap_cents bids) \<or>
        high_sum cfg k bids < gate \<or>
        (\<forall>l \<in> set bids. in_range rmin rmax l \<longrightarrow> level_coeff (gc_table cfg) k l \<le> c)
    | Some (p, n) \<Rightarrow> 0 < k \<and> \<not> has_cliff_below bids rmin (gc_cliff cfg) \<and>
        \<not> vetoed (gc_veto cfg) (max_gap_cents bids) \<and> gate \<le> high_sum cfg k bids \<and>
        rmin \<le> p \<and> p \<le> rmax \<and> n = int_trunc (case gc_shares cfg of Some s \<Rightarrow> s | None \<Rightarrow> k) \<and>
        (\<exists>l \<in> set bids. lv_price l = p \<and> c < level_coeff (gc_table cfg) k l) \<and>
        (\<forall>l \<in> set bids. p < lv_price l \<and> lv_price l \<le> rmax \<longrightarrow> level_coeff (gc_table cfg) k l \<le> c)"
proof (cases "plan_gap_single_order cfg bids rmin rmax k")
  case None
  with plan_gap_single_order_iff [of cfg bids rmin rmax k] assms show ?thesis
    by (auto simp: gap_admits_def qualifies_def not_less not_le)
next
  case (Some r)
  then show ?thesis
    using plan_gap_single_order_SomeD [OF _ assms] by (cases r) (auto simp: gap_admits_def assms)
qed

definition demo_cfg :: gap_cfg where
  "demo_cfg = \<lparr>gc_table = [(JNum 1, JNum 2)], gc_wide = 10, gc_mid = 5, gc_sum1 = 3, gc_sum2 = 0, gc_sum3 = 0,
     gc_min1 = 1, gc_min2 = 1, gc_min3 = 1, gc_cliff = Some 5, gc_shares = None, gc_veto = Some 20\<rparr>"

definition demo_bids :: "lvl list" where
  "demo_bids = [\<lparr>lv_price = 39/100, lv_size = 300\<rparr>, \<lparr>lv_price = 2/5, lv_size = 50\<rparr>, \<lparr>lv_price = 7/20, lv_size = 100\<rparr>]"

lemma demo_plan:
  "2/5 \<le> rmax \<Longrightarrow> plan_gap_single_order demo_cfg demo_bids (19/50) rmax 50 = Some (39/100, 50)"
  "max_gap_cents demo_bids = 4" "classify demo_cfg 4 = (Dense, 1, 0)"
proof -
  have ls: "sorted_levels demo_bids = [\<lparr>lv_price = 2/5, lv_size = 50\<rparr>, \<lparr>lv_price = 39/100, lv_size = 300\<rparr>,
      \<lparr>lv_price = 7/20, lv_size = 100\<rparr>]"
    by (simp add: sorted_levels_def demo_bids_def sort_desc_def sort_key_def)
  have mg: "max_gap_and_split (sorted_levels demo_bids) = (4, 1)"
    unfolding ls by (simp add: max_gap_and_split_def gap_between_def round_to_def py_round_def)
  show g: "max_gap_cents demo_bids = 4" by (simp add: max_gap_cents_def mg)
  show c: "classify demo_cfg 4 = (Dense, 1, 0)" by (simp add: classify_def demo_cfg_def)
  have coeff: "level_coeff (gc_table demo_cfg) 50 l = lv_size l / 100" if "lv_price l \<le> 1" for l
    using that by (simp add: level_coeff_def amount_value_def table_rows_def demo_cfg_def sort_key_def)
  have hs: "high_sum demo_cfg 50 demo_bids = 7/2"
    unfolding high_sum_def mg unfolding ls by (simp add: coeff)
  have adm: "gap_admits demo_cfg demo_bids (19/50) 50"
    unfolding gap_admits_def g c hs
    by (simp add: demo_bids_def demo_cfg_def has_cliff_below_def vetoed_def supports_def round_to_def
      py_round_def)
  have found: "find_idx (qualifies demo_cfg (19/50) rmax 50 1) (sorted_levels demo_bids) = Some 1" if "2/5 \<le> rmax"
    unfolding ls using that by (simp add: qualifies_def in_range_def coeff)
  have some: "list_ex (in_range (19/50) rmax) demo_bids" if "2/5 \<le> rmax"
    using that by (simp add: demo_bids_def in_range_def)
  have cl: "classify demo_cfg (max_gap_cents demo_bids) = (Dense, 1, 0)" by (simp add: g c)
  show "plan_gap_single_order demo_cfg demo_bids (19/50) rmax 50 = Some (39/100, 50)" if "2/5 \<le> rmax"
    unfolding explain_place [OF some [OF that] adm cl found [OF that]] unfolding ls by (simp add: demo_cfg_def int_trunc_def)
qed

lemma gap_single_order_witness:
  "plan_gap_single_order demo_cfg demo_bids (19/50) (21/50) 50 = Some (39/100, 50) \<and>
   19/50 \<le> (39/100::rat) \<and> \<not> has_cliff_below demo_bids (19/50) (gc_cliff demo_cfg)"
proof -
  have "classify demo_cfg (max_gap_cents demo_bids) = (Dense, 1, 0)" by (simp add: demo_plan)
  from gap_single_order_spec [OF this, where rmin = "19/50" and rmax = "21/50" and k = 50] show ?thesis
    by (simp add: demo_plan(1))
qed

text \<open>Rules are ordered by the width of the gap they stand for.\<close>

instantiation rule :: linorder
begin

definition rule_rank :: "rule \<Rightarrow> nat" where
  "rule_rank r = (case r of Dense \<Rightarrow> 0 | Middle \<Rightarrow> 1 | Wide \<Rightarrow> 2)"

definition less_eq_rule :: "rule \<Rightarrow> rule \<Rightarrow> bool" where
  "less_eq_rule a b \<longleftrightarrow> rule_rank a \<le> rule_rank b"

definition less_rule :: "rule \<Rightarrow> rule \<Rightarrow> bool" where
  "less_rule a b \<longleftrightarrow> rule_rank a < rule_rank b"

instance
  by standard (auto simp: less_eq_rule_def less_rule_def rule_rank_def split: rule.splits)

end

lemma classify_mono:
  "gc_mid cfg \<le> gc_wide cfg \<Longrightarrow> mono (\<lambda>g. fst (classify cfg g))"
  by (auto simp: mono_def classify_def less_eq_rule_def rule_rank_def)

text \<open>The gap engine meets the contract of a pricing engine.\<close>

interpretation gap: pricing "gap_quote cfg" for cfg
proof
  fix s :: side and p n
  assume q: "gap_quote cfg s = Some (p, n)"
  obtain rl c gate where cl: "classify cfg (max_gap_cents (sd_bids s)) = (rl, c, gate)"
    using prod_cases3 by blast
  from plan_gap_single_order_SomeD [OF q [unfolded gap_quote_def] cl]
  show "sd_rmin s \<le> p \<and> p \<le> sd_rmax s" "0 < sd_min_size s"
    by (simp_all add: gap_admits_def)
qed

text \<open>The plan of a market never exceeds its budget or its exposure limit over both
sides together, and every order it contains is the priced order of its side, possibly
with fewer shares, inside the reward range and not below the minimum size.\<close>

theorem gap_market_within_budget:
  "case compute_market_single_orders cfg sa sb budget m of (a, b) \<Rightarrow>
     order_cost a + order_cost b \<le> max 0 budget \<and> order_shares a + order_shares b \<le> max 0 m \<and>
     (case a of None \<Rightarrow> True | Some (p, n) \<Rightarrow> \<exists>s w. sa = Some s \<and> gap_quote cfg s = Some (p, w) \<and> n \<le> w \<and>
        sd_rmin s \<le> p \<and> p \<le> sd_rmax s \<and> sd_min_size s \<le> of_int n) \<and>
     (case b of None \<Rightarrow> True | Some (p, n) \<Rightarrow> \<exists>s w. sb = Some s \<and> gap_quote cfg s = Some (p, w) \<and> n \<le> w \<and>
        sd_rmin s \<le> p \<and> p \<le> sd_rmax s \<and> sd_min_size s \<le> of_int n)"
proof -
  obtain a b where ab: "plan_market (gap_quote cfg) sa sb budget m = (a, b)" by fastforce
  from gap.within_budget [OF ab] gap.every_order [OF ab] show ?thesis
    by (simp add: compute_market_single_orders_def ab split: option.split)
qed


section \<open>Reconciliation converges\<close>

definition fits :: "(rat \<Rightarrow> int option) \<Rightarrow> rat \<Rightarrow> rat set \<Rightarrow> order \<Rightarrow> bool" where
  "fits target tol kept x \<longleftrightarrow> (case target (round_to 4 (or0 (o_price x))) of None \<Rightarrow> False
     | Some tgt \<Rightarrow> round_to 4 (or0 (o_price x)) \<notin> kept \<and>
         \<bar>left_open x - of_int tgt\<bar> \<le> max 1 (tol * of_int tgt))"

fun accepted :: "(rat \<Rightarrow> int option) \<Rightarrow> rat \<Rightarrow> order list \<Rightarrow> rat set \<Rightarrow> order list" where
  "accepted target tol [] kept = []"
| "accepted target tol (x # xs) kept =
     (if fits target tol kept x
      then x # accepted target tol xs (insert (round_to 4 (or0 (o_price x))) kept)
      else accepted target tol xs kept)"

definition kept_price :: "order \<Rightarrow> rat" where
  "kept_price x = round_to 4 (or0 (o_price x))"

lemma accepted_subset: "set (accepted target tol xs kept) \<subseteq> set xs"
  by (induction target tol xs kept rule: accepted.induct) auto

lemma reconcile_loop_accepted:
  assumes "list_all (\<lambda>x. o_id x \<noteq> None) xs" "distinct (map o_id xs)"
  shows "reconcile_loop target tol xs kept cs =
    (kept \<union> kept_price ` set (accepted target tol xs kept),
     cs @ map (the \<circ> o_id) (filter (\<lambda>x. x \<notin> set (accepted target tol xs kept)) xs))"
  using assms
proof (induction target tol xs kept cs rule: reconcile_loop.induct)
  case (2 target tol x xs kept cs)
  have x: "x \<notin> set xs" "x \<notin> set (accepted target tol xs k)" for k
    using "2.prems"(2) accepted_subset [of target tol xs k] by auto
  obtain i where i: "o_id x = Some i" using "2.prems"(1) by auto
  have fit: "(case target (round_to 4 (or0 (o_price x))) of None \<Rightarrow> False
     | Some tgt \<Rightarrow> round_to 4 (or0 (o_price x)) \<notin> kept \<and>
         \<bar>left_open x - of_int tgt\<bar> \<le> max 1 (tol * of_int tgt)) = fits target tol kept x"
    by (simp add: fits_def)
  have ne: "y \<noteq> x" if "y \<in> set xs" for y using that x(1) by auto
  have tail: "filter (\<lambda>y. y \<noteq> x \<and> y \<notin> S) xs = filter (\<lambda>y. y \<notin> S) xs" for S
    using ne by (intro filter_cong) auto
  show ?case
    using "2.IH"(1) [OF refl fit [symmetric]] "2.IH"(2) [OF refl fit [symmetric]] "2.prems" i x
    by (cases "fits target tol kept x")
      (simp_all add: fit Let_def kept_price_def tail insert_commute)
qed simp

lemma survivors:
  assumes "list_all (\<lambda>x. o_id x \<noteq> None) xs" "distinct (map o_id xs)"
  shows "filter (\<lambda>x. o_id x \<notin> Some ` set (map (the \<circ> o_id) (filter (\<lambda>x. x \<notin> set (accepted target tol xs kept)) xs))) xs
    = accepted target tol xs kept"
proof -
  let ?acc = "accepted target tol xs kept"
  have inj: "inj_on o_id (set xs)" using assms(2) by (simp add: distinct_map)
  have "o_id x \<in> Some ` set (map (the \<circ> o_id) (filter (\<lambda>x. x \<notin> set ?acc) xs)) \<longleftrightarrow> x \<notin> set ?acc"
    if "x \<in> set xs" for x
  proof -
    have "Some ((the \<circ> o_id) y) = o_id y" if "y \<in> set xs" for y
      using that assms(1) by (auto simp: list_all_iff)
    then have "Some ` set (map (the \<circ> o_id) (filter (\<lambda>x. x \<notin> set ?acc) xs)) = o_id ` {y \<in> set xs. y \<notin> set ?acc}"
      by (auto simp: image_image image_iff)
    then show ?thesis using inj that by (auto simp: inj_on_def)
  qed
  then have "filter (\<lambda>x. o_id x \<notin> Some ` set (map (the \<circ> o_id) (filter (\<lambda>x. x \<notin> set ?acc) xs))) xs
      = filter (\<lambda>x. x \<in> set ?acc) xs" by (intro filter_cong) auto
  also have "\<dots> = ?acc"
  proof -
    have "distinct xs" using assms(2) by (simp add: distinct_map)
    then show ?thesis
    proof (induction xs arbitrary: kept)
      case (Cons x xs)
      have "x \<notin> set (accepted target tol xs k)" for k
        using Cons.prems accepted_subset [of target tol xs k] by auto
      moreover have "filter (\<lambda>y. y = x \<or> y \<in> S) xs = filter (\<lambda>y. y \<in> S) xs" for S
        using Cons.prems by (intro filter_cong) auto
      ultimately show ?case using Cons by simp
    qed simp
  qed
  finally show ?thesis .
qed

lemma accepted_again: "accepted target tol (accepted target tol xs kept) kept = accepted target tol xs kept"
  by (induction target tol xs kept rule: accepted.induct) auto

lemma accepted_append: "accepted target tol (xs @ ys) kept =
    accepted target tol xs kept @ accepted target tol ys (kept \<union> kept_price ` set (accepted target tol xs kept))"
  by (induction target tol xs kept rule: accepted.induct) (auto simp: kept_price_def insert_commute)


lemma length_accepted: "length (accepted target tol xs kept) \<le> length xs"
  by (induction target tol xs kept rule: accepted.induct) auto

lemma loop_all_accepted:
  "accepted target tol xs kept = xs \<Longrightarrow>
   reconcile_loop target tol xs kept cs = (kept \<union> kept_price ` set xs, cs)"
proof (induction xs arbitrary: kept)
  case (Cons x xs)
  have fit: "fits target tol kept x"
  proof (rule ccontr)
    assume "\<not> ?thesis"
    with Cons.prems have "accepted target tol xs kept = x # xs" by simp
    then show False using length_accepted [of target tol xs kept] by simp
  qed
  with Cons have "reconcile_loop target tol xs (insert (kept_price x) kept) cs =
      (insert (kept_price x) kept \<union> kept_price ` set xs, cs)"
    by (simp add: kept_price_def)
  with fit show ?case
    by (cases "target (kept_price x)") (simp_all add: Let_def fits_def kept_price_def)
qed simp

definition ladder_ok :: "(rat \<times> int) list \<Rightarrow> bool" where
  "ladder_ok ladder \<longleftrightarrow> distinct (map (\<lambda>(p, s). round_to 4 p) ladder)"

lemma ladder_target_Some:
  assumes "ladder_ok ladder" "(p, s) \<in> set ladder"
  shows "ladder_target ladder (round_to 4 p) = Some s"
  unfolding ladder_target_def
proof (rule map_of_is_SomeI)
  show "distinct (map fst (rev (map (\<lambda>(p, s). (round_to 4 p, s)) ladder)))"
  proof -
    have "map fst (rev (map (\<lambda>(p, s). (round_to 4 p, s)) ladder)) = rev (map (\<lambda>(p, s). round_to 4 p) ladder)"
      unfolding rev_map map_map by (simp add: comp_def case_prod_beta)
    then show ?thesis using assms(1) by (simp add: ladder_ok_def)
  qed
  show "(round_to 4 p, s) \<in> set (rev (map (\<lambda>(p, s). (round_to 4 p, s)) ladder))"
    using assms(2) by force
qed

lemma accepted_fresh:
  assumes "ladder_ok ladder" "distinct (map (\<lambda>(p, s). round_to 4 p) new)" "set new \<subseteq> set ladder"
    "\<forall>(p, s) \<in> set new. round_to 4 p \<notin> kept"
  shows "accepted (ladder_target ladder) tol (map (\<lambda>(p, s). fresh_order (ids p) p (of_int s)) new) kept
    = map (\<lambda>(p, s). fresh_order (ids p) p (of_int s)) new"
  using assms(2-4)
proof (induction new arbitrary: kept)
  case (Cons a new)
  obtain p s where a: "a = (p, s)" by fastforce
  have "ladder_target ladder (round_to 4 p) = Some s"
    using Cons.prems(2) a by (intro ladder_target_Some [OF assms(1)]) auto
  then have fit: "fits (ladder_target ladder) tol kept (fresh_order (ids p) p (of_int s))"
    using Cons.prems(3) a by (simp add: fits_def fresh_order_def left_open_def)
  have "\<forall>(q, r) \<in> set new. round_to 4 q \<notin> insert (round_to 4 p) kept"
    using Cons.prems(1,3) a by force
  from Cons.IH [OF _ _ this] Cons.prems(1,2) a fit show ?case
    by (simp add: fresh_order_def)
qed simp

definition book_after :: "(rat \<Rightarrow> string) \<Rightarrow> string list \<times> (rat \<times> int) list \<Rightarrow> order list \<Rightarrow> order list" where
  "book_after ids plan resting =
     filter (\<lambda>x. o_id x \<notin> Some ` set (fst plan)) resting @
     map (\<lambda>(p, s). fresh_order (ids p) p (of_int s)) (snd plan)"

text \<open>An order whose price is a price of the ladder and whose open rest is near enough to the size wanted there.\<close>

definition suits :: "(rat \<times> int) list \<Rightarrow> rat \<Rightarrow> order \<Rightarrow> bool" where
  "suits ladder tol x \<longleftrightarrow> (\<exists>p s. (p, s) \<in> set ladder \<and> round_to 4 p = kept_price x \<and>
     \<bar>left_open x - of_int s\<bar> \<le> max 1 (tol * of_int s))"

lemma ladder_target_iff:
  assumes "ladder_ok ladder"
  shows "ladder_target ladder q = Some s \<longleftrightarrow> (\<exists>p. (p, s) \<in> set ladder \<and> round_to 4 p = q)"
proof
  assume "ladder_target ladder q = Some s"
  then have "(q, s) \<in> set (rev (map (\<lambda>(p, s). (round_to 4 p, s)) ladder))"
    unfolding ladder_target_def by (rule map_of_SomeD)
  then show "\<exists>p. (p, s) \<in> set ladder \<and> round_to 4 p = q" by auto
next
  assume "\<exists>p. (p, s) \<in> set ladder \<and> round_to 4 p = q"
  then show "ladder_target ladder q = Some s" using ladder_target_Some [OF assms] by blast
qed

lemma fits_suits: "ladder_ok ladder \<Longrightarrow> fits (ladder_target ladder) tol kept x \<longleftrightarrow> suits ladder tol x \<and> kept_price x \<notin> kept"
proof -
  assume ok: "ladder_ok ladder"
  show ?thesis
  proof (cases "ladder_target ladder (kept_price x)")
    case None
    then have "\<not> suits ladder tol x" using ladder_target_Some [OF ok] unfolding suits_def by force
    with None show ?thesis by (simp add: fits_def kept_price_def)
  next
    case (Some s)
    then have "suits ladder tol x \<longleftrightarrow> \<bar>left_open x - of_int s\<bar> \<le> max 1 (tol * of_int s)"
      using ladder_target_iff [OF ok] unfolding suits_def by (metis option.inject)
    with Some show ?thesis by (auto simp: fits_def kept_price_def)
  qed
qed

lemma accepted_first:
  assumes "ladder_ok ladder" and "distinct (ys @ x # zs)"
  shows "x \<in> set (accepted (ladder_target ladder) tol (ys @ x # zs) kept) \<longleftrightarrow>
    suits ladder tol x \<and> kept_price x \<notin> kept \<and> (\<forall>y \<in> set ys. suits ladder tol y \<longrightarrow> kept_price y \<noteq> kept_price x)"
  using assms(2)
proof (induction ys arbitrary: kept)
  case Nil
  then show ?case
    using accepted_subset [of "ladder_target ladder" tol zs] by (auto simp: fits_suits [OF assms(1)])
next
  case (Cons y ys)
  then show ?case
    by (auto simp: fits_suits [OF assms(1)] kept_price_def [symmetric])
qed

lemma accepted_prices:
  "distinct (map kept_price (accepted target tol xs kept)) \<and> kept_price ` set (accepted target tol xs kept) \<inter> kept = {}"
proof (induction target tol xs kept rule: accepted.induct)
  case (2 target tol x xs kept)
  then show ?case by (auto simp: fits_def kept_price_def split: option.splits)
qed simp

lemma accepted_targets: "ladder_ok ladder \<Longrightarrow>
  kept_price ` set (accepted (ladder_target ladder) tol xs kept) \<subseteq> (\<lambda>(p, s). round_to 4 p) ` set ladder"
proof -
  assume ok: "ladder_ok ladder"
  show ?thesis
  proof (induction xs arbitrary: kept)
    case (Cons x xs)
    then show ?case by (auto simp: fits_suits [OF ok] suits_def kept_price_def) force+
  qed simp
qed

text \<open>C34: Reconciling the resting buy orders does exactly what is needed, and converges in one step. A resting order stays
  exactly when its price is one of the ladder, its open rest differs from the size wanted there by at most one share or
  the tolerance, and no order before it stays at that price; all the others are cancelled. After cancelling
  and placing what it says there is exactly one order at every price of the ladder and none elsewhere, and a second
  reconciliation with the same target has nothing to cancel and nothing to place.\<close>

theorem reconcile_converges:
  fixes tol :: rat
  assumes "list_all (\<lambda>x. o_id x \<noteq> None) resting" "distinct (map o_id resting)" "ladder_ok ladder"
  defines "plan \<equiv> reconcile_buy_orders ladder resting tol"
  shows "(\<forall>earlier x later. resting = earlier @ x # later \<longrightarrow>
      (o_id x \<notin> Some ` set (fst plan) \<longleftrightarrow>
         suits ladder tol x \<and> (\<forall>y \<in> set earlier. suits ladder tol y \<longrightarrow> kept_price y \<noteq> kept_price x))) \<and>
    set (fst plan) \<subseteq> (the \<circ> o_id) ` set resting \<and>
    distinct (map kept_price (book_after ids plan resting)) \<and>
    kept_price ` set (book_after ids plan resting) = (\<lambda>(p, s). round_to 4 p) ` set ladder \<and>
    reconcile_buy_orders ladder (book_after ids plan resting) tol = ([], [])"
proof -
  let ?t = "ladder_target ladder"
  let ?acc = "accepted ?t tol resting {}"
  let ?kept = "kept_price ` set ?acc"
  let ?new = "filter (\<lambda>(p, s). round_to 4 p \<notin> ?kept) ladder"
  let ?fresh = "map (\<lambda>(p, s). fresh_order (ids p) p (of_int s)) ?new"
  have plan: "plan = (map (the \<circ> o_id) (filter (\<lambda>x. x \<notin> set ?acc) resting), ?new)"
    using reconcile_loop_accepted [OF assms(1,2), of ?t tol "{}" "[]"] by (simp add: plan_def reconcile_buy_orders_def)
  have stay: "filter (\<lambda>x. o_id x \<notin> Some ` set (fst plan)) resting = ?acc"
    unfolding plan using survivors [OF assms(1,2), of ?t tol "{}"] by simp
  then have after: "book_after ids plan resting = ?acc @ ?fresh"
    unfolding book_after_def plan by simp
  have first: "o_id x \<notin> Some ` set (fst plan) \<longleftrightarrow>
      suits ladder tol x \<and> (\<forall>y \<in> set earlier. suits ladder tol y \<longrightarrow> kept_price y \<noteq> kept_price x)"
    if x: "resting = earlier @ x # later" for earlier x later
  proof -
    have "x \<in> set ?acc \<longleftrightarrow> o_id x \<notin> Some ` set (fst plan)"
      unfolding stay [symmetric] using x by simp
    moreover have "distinct resting" using assms(2) by (simp add: distinct_map)
    then have "distinct (earlier @ x # later)" unfolding x .
    ultimately show ?thesis using accepted_first [OF assms(3), of earlier x later tol "{}"] x by simp
  qed
  have d: "distinct (map (\<lambda>(p, s). round_to 4 p) ?new)"
    using assms(3) unfolding ladder_ok_def by (rule distinct_map_filter)
  have fresh: "map kept_price ?fresh = map (\<lambda>(p, s). round_to 4 p) ?new"
    by (simp add: kept_price_def fresh_order_def split_beta)
  have "accepted ?t tol ?fresh ?kept = ?fresh"
    by (rule accepted_fresh [OF assms(3) d]) auto
  then have "accepted ?t tol (?acc @ ?fresh) {} = ?acc @ ?fresh"
    by (simp add: accepted_append accepted_again)
  then have loop: "reconcile_loop ?t tol (?acc @ ?fresh) {} [] = (kept_price ` set (?acc @ ?fresh), [])"
    by (simp add: loop_all_accepted)
  have new: "set (map kept_price ?fresh) = (\<lambda>(p, s). round_to 4 p) ` set ladder - ?kept"
    unfolding fresh by force
  then have all: "kept_price ` set (?acc @ ?fresh) = (\<lambda>(p, s). round_to 4 p) ` set ladder"
    using accepted_targets [OF assms(3), of tol resting "{}"] unfolding set_append image_Un set_map [symmetric] by auto
  then have "filter (\<lambda>(p, s). round_to 4 p \<notin> kept_price ` set (?acc @ ?fresh)) ladder = []"
    unfolding filter_empty_conv by force
  then have again: "reconcile_buy_orders ladder (?acc @ ?fresh) tol = ([], [])"
    unfolding reconcile_buy_orders_def loop prod.case Let_def by simp
  have "distinct (map kept_price (?acc @ ?fresh))"
    using accepted_prices [of ?t tol resting "{}"] d unfolding map_append distinct_append fresh [symmetric] new by simp
  moreover have "set (fst plan) \<subseteq> (the \<circ> o_id) ` set resting" unfolding plan by auto
  ultimately show ?thesis using first all again unfolding after by blast
qed

text \<open>Fifty shares wanted at 40 cents: an order of 50 of which 30 are gone and one at another price are cancelled, the
  order of 49 stays, its double goes.\<close>

lemma reconcile_witness:
  "let rest = (\<lambda>i p q m. \<lparr>o_id = Some i, o_market = ''m'', o_asset = ''a'', o_side = ''BUY'', o_price = Some p,
       o_original = Some q, o_size = None, o_matched = Some m\<rparr>);
     book = [rest ''1'' (2/5) 50 30, rest ''2'' (39/100) 50 0, rest ''3'' (2/5) 49 0, rest ''4'' (2/5) 50 0]
   in reconcile_buy_orders [(2/5, 50)] book (1/100) = ([''1'', ''2'', ''4''], []) \<and>
      reconcile_buy_orders [(2/5, 50)] [rest ''3'' (2/5) 49 0] (1/100) = ([], [])"
proof -
  define rest where "rest i p q m = \<lparr>o_id = Some i, o_market = ''m'', o_asset = ''a'', o_side = ''BUY'', o_price = Some p,
       o_original = Some q, o_size = None, o_matched = Some m\<rparr>" for i :: string and p q m :: rat
  let ?book = "[rest ''1'' (2/5) 50 30, rest ''2'' (39/100) 50 0, rest ''3'' (2/5) 49 0, rest ''4'' (2/5) 50 0]"
  have r: "round_to 4 (2/5) = 2/5" "round_to 4 (39/100) = 39/100" by (simp_all add: round_to_def py_round_def)
  have e: "reconcile_buy_orders [(2/5, 50)] ?book (1/100) = ([''1'', ''2'', ''4''], [])"
    by (simp add: reconcile_buy_orders_def ladder_target_def rest_def Let_def left_open_def r)
  have "list_all (\<lambda>x. o_id x \<noteq> None) ?book" "distinct (map o_id ?book)" "ladder_ok [(2/5, 50)]"
    by (simp_all add: rest_def ladder_ok_def)
  from reconcile_converges [OF this, of "1/100" "\<lambda>_. ''5''"] e
  have "reconcile_buy_orders [(2/5, 50)] [rest ''3'' (2/5) 49 0] (1/100) = ([], [])"
    unfolding e by (simp add: book_after_def rest_def)
  with e show ?thesis unfolding Let_def rest_def by blast
qed

section \<open>Formatting never fails\<close>

lemma all_parts_None [simp]: "all_parts ps = None \<longleftrightarrow> None \<in> set ps"
  by (induction ps rule: all_parts.induct) auto

lemma fmt_None [simp]: "fmt v = None \<longleftrightarrow> v = None"
  by (simp add: fmt_def)

lemma fmt_not_None [simp]: "None = fmt v \<longleftrightarrow> v = None"
  by (auto simp: fmt_def)

text \<open>What the formatters rely on.\<close>

definition printable :: "decision \<Rightarrow> bool" where
  "printable d \<longleftrightarrow> (d_place d \<longrightarrow> (\<exists>i. d_chosen d = Some i \<and> i < length (d_levels d)) \<and> d_rule d \<noteq> None) \<and>
     (d_rule d \<noteq> None \<longrightarrow> d_min_coeff d \<noteq> None \<and> d_high_sum d \<noteq> None \<and> d_gate_min d \<noteq> None)"

lemma explain_printable: "printable (explain_gap_single_order cfg bids rmin rmax k)"
proof -
  have idx: "i < length ls" if "find_idx Q ls = Some i" for Q :: "glevel \<Rightarrow> bool" and ls i
    using that by (simp add: find_idx_Some)
  show ?thesis
    unfolding explain_gap_single_order_def Let_def printable_def
    by (auto simp: no_decision_def dest: idx split: option.splits prod.splits)
qed

text \<open>Writing down the reason of a gap decision and its price basis never fails on a
missing number or a position outside the book, whatever way the decision went.\<close>

theorem gap_texts_total:
  "gap_single_reason (explain_gap_single_order cfg bids rmin rmax k) \<noteq> None \<and>
   gap_single_price_basis (explain_gap_single_order cfg bids rmin rmax k) lo hi \<noteq> None"
proof -
  have r: "gap_single_reason d \<noteq> None" if "printable d" for d
    using that by (cases "d_chosen d"; cases "d_rule d")
      (auto simp: fmt_def not_le printable_def gap_single_reason_def gate_shown_def split: bool.split del: not_None_eq)
  have b: "gap_single_price_basis d lo hi \<noteq> None" if "printable d" for d
    using that by (cases "d_place d"; cases "d_chosen d"; cases "d_rule d")
      (simp_all add: printable_def gap_single_price_basis_def gate_shown_def Let_def image_iff del: not_None_eq)
  show ?thesis using r b explain_printable by blast
qed

end
