(* ===== verification/Legacy_Wall.thy ===== *)
theory Legacy_Wall
  imports Laddering
begin

text \<open>
  The older pricing engine (\<open>engine/legacy_wall.py\<close>): find a level of the bids that is thick
  enough and rest one level below it. The pricing function and the explanation scan the
  book separately; that they agree is a theorem here.
\<close>

section \<open>Pricing\<close>

definition target_ok :: "rat \<Rightarrow> rat \<Rightarrow> rat \<Rightarrow> bool" where
  "target_ok rmin rmax p \<longleftrightarrow> rmin \<le> p \<and> p \<le> rmax"

fun cumulative_scan :: "rat \<Rightarrow> rat \<Rightarrow> int \<Rightarrow> int \<Rightarrow> lvl list \<Rightarrow> rat option" where
  "cumulative_scan rmin rmax threshold cum [] = None"
| "cumulative_scan rmin rmax threshold cum (b # bs) =
     (let cum' = cum + int_trunc (lv_size b) in
      if threshold < cum' then
        (case bs of [] \<Rightarrow> None
         | n # _ \<Rightarrow> if target_ok rmin rmax (lv_price n) then Some (lv_price n) else None)
      else cumulative_scan rmin rmax threshold cum' bs)"

definition spread2_coarse :: "lvl list \<Rightarrow> rat \<Rightarrow> rat \<Rightarrow> int \<Rightarrow> rat option" where
  "spread2_coarse bids rmin rmax wall =
     (if int_trunc (lv_size (bids ! 0)) \<le> wall then None
      else if length bids < 2 then None
      else if target_ok rmin rmax (lv_price (bids ! 1)) then Some (lv_price (bids ! 1)) else None)"

fun ge3_scan :: "rat \<Rightarrow> rat \<Rightarrow> rat \<Rightarrow> int \<Rightarrow> lvl list \<Rightarrow> rat option" where
  "ge3_scan min_price rmin rmax wall [] = None"
| "ge3_scan min_price rmin rmax wall (b # bs) =
     (if lv_price b < min_price then None
      else if wall < int_trunc (lv_size b) then
        (case bs of [] \<Rightarrow> None
         | n # _ \<Rightarrow> if min_price \<le> lv_price n \<and> target_ok rmin rmax (lv_price n)
             then Some (lv_price n) else None)
      else ge3_scan min_price rmin rmax wall bs)"

definition spread_ge3_coarse :: "lvl list \<Rightarrow> rat \<Rightarrow> rat \<Rightarrow> rat \<Rightarrow> rat \<Rightarrow> int \<Rightarrow> rat option" where
  "spread_ge3_coarse bids max_spread tick rmin rmax wall =
     ge3_scan (lv_price (bids ! 0) - max_spread * tick) rmin rmax wall bids"

definition fine_tick :: "rat \<Rightarrow> bool" where
  "fine_tick tick \<longleftrightarrow> tick < 1 / 100"

definition determine_order_price ::
    "lvl list \<Rightarrow> rat \<Rightarrow> rat \<Rightarrow> rat \<Rightarrow> rat \<Rightarrow> int \<Rightarrow> int \<Rightarrow> rat option" where
  "determine_order_price bids max_spread tick rmin rmax wall cum_threshold =
     (if bids = [] then None
      else if fine_tick tick then cumulative_scan rmin rmax cum_threshold 0 bids
      else if max_spread = 2 then spread2_coarse bids rmin rmax wall
      else spread_ge3_coarse bids max_spread tick rmin rmax wall)"

section \<open>The explained decision\<close>

datatype wall_rule = Wall | Cumulative

record wlevel =
  wl_price :: rat
  wl_size :: rat
  wl_cum :: int

datatype wall_skip =
    W_no_book
  | W_cliff rat
  | W_none_cumulative int int
  | W_none_wall int int
  | W_next_unfit_cumulative nat int int
  | W_next_unfit_wall nat int int
  | W_too_few rat string int

record wall_decision =
  wd_place :: bool
  wd_rule :: "wall_rule option"
  wd_threshold :: "int option"
  wd_hit :: "nat option"
  wd_hit_size :: "rat option"
  wd_cum :: "int option"
  wd_price :: "rat option"
  wd_shares :: "int option"
  wd_levels :: "wlevel list"
  wd_skip :: "wall_skip option"
  wd_cliff :: bool

definition no_wall_decision :: wall_decision where
  "no_wall_decision = \<lparr>wd_place = False, wd_rule = None, wd_threshold = None, wd_hit = None,
     wd_hit_size = None, wd_cum = None, wd_price = None, wd_shares = None, wd_levels = [],
     wd_skip = None, wd_cliff = False\<rparr>"

record wall_cfg =
  wc_mode :: string
  wc_balance :: rat
  wc_custom_usd :: rat
  wc_wall :: int
  wc_cumulative :: int
  wc_cliff :: "rat option"

fun with_cum :: "int \<Rightarrow> lvl list \<Rightarrow> wlevel list" where
  "with_cum running [] = []"
| "with_cum running (b # bs) =
     (let running' = running + int_trunc (lv_size b)
      in \<lparr>wl_price = lv_price b, wl_size = lv_size b, wl_cum = running'\<rparr> # with_cum running' bs)"

definition scanned_levels :: "rat \<Rightarrow> rat \<Rightarrow> wlevel list \<Rightarrow> wlevel list" where
  "scanned_levels max_spread tick levels =
     (if fine_tick tick then levels
      else if max_spread = 2 then take 1 levels
      else let min_price = wl_price (levels ! 0) - max_spread * tick
        in takeWhile (\<lambda>l. min_price \<le> wl_price l) levels)"

definition wall_hit :: "wall_cfg \<Rightarrow> rat \<Rightarrow> wlevel \<Rightarrow> bool" where
  "wall_hit cfg tick l =
     (if fine_tick tick then wc_cumulative cfg < wl_cum l else wc_wall cfg < int_trunc (wl_size l))"

text \<open>
  The skip reason when no price was found. \<open>max()\<close> of an empty range raises: that is the
  result None. It cannot happen with a non-negative spread and tick (\<open>scanned_nonempty\<close>).
\<close>

definition wall_skip_reason :: "wall_cfg \<Rightarrow> rat \<Rightarrow> wlevel list \<Rightarrow> nat option \<Rightarrow> wall_skip option" where
  "wall_skip_reason cfg tick scanned hit =
     (case hit of
        None \<Rightarrow>
          if scanned = [] then None
          else if fine_tick tick then Some (W_none_cumulative (wc_cumulative cfg) (wl_cum (last scanned)))
          else Some (W_none_wall (wc_wall cfg) (Max (set (map (\<lambda>l. int_trunc (wl_size l)) scanned))))
      | Some i \<Rightarrow>
          if fine_tick tick then Some (W_next_unfit_cumulative (i + 1) (wl_cum (scanned ! i)) (wc_cumulative cfg))
          else Some (W_next_unfit_wall (i + 1) (int_trunc (wl_size (scanned ! i))) (wc_wall cfg)))"

definition explain_legacy_order ::
    "wall_cfg \<Rightarrow> lvl list \<Rightarrow> rat \<Rightarrow> rat \<Rightarrow> rat \<Rightarrow> rat \<Rightarrow> rat \<Rightarrow> wall_decision option" where
  "explain_legacy_order cfg bids max_spread tick rmin rmax min_size =
     (if bids = [] \<or> min_size \<le> 0 then Some (no_wall_decision\<lparr>wd_skip := Some W_no_book\<rparr>)
      else
      let levels = with_cum 0 bids; d1 = no_wall_decision\<lparr>wd_levels := levels\<rparr> in
      if has_cliff_below bids rmin (wc_cliff cfg)
      then Some (d1\<lparr>wd_cliff := True, wd_skip := Some (W_cliff (or0 (wc_cliff cfg)))\<rparr>)
      else
      let d2 = d1\<lparr>wd_rule := Some (if fine_tick tick then Cumulative else Wall),
            wd_threshold := Some (if fine_tick tick then wc_cumulative cfg else wc_wall cfg)\<rparr>;
          price = determine_order_price bids max_spread tick rmin rmax (wc_wall cfg) (wc_cumulative cfg);
          scanned = scanned_levels max_spread tick levels;
          hit = find_idx (wall_hit cfg tick) scanned;
          d3 = (case hit of None \<Rightarrow> d2
            | Some i \<Rightarrow> d2\<lparr>wd_hit := Some i, wd_hit_size := Some (wl_size (scanned ! i)),
                wd_cum := Some (wl_cum (scanned ! i))\<rparr>) in
      (case price of
         None \<Rightarrow> map_option (\<lambda>r. d3\<lparr>wd_skip := Some r\<rparr>) (wall_skip_reason cfg tick scanned hit)
       | Some p \<Rightarrow>
           (case compute_order_size (wc_mode cfg) p (wc_balance cfg) (int_trunc min_size) (wc_custom_usd cfg) of
              None \<Rightarrow> Some (d3\<lparr>wd_skip := Some (W_too_few p (wc_mode cfg) (int_trunc min_size))\<rparr>)
            | Some n \<Rightarrow> Some (d3\<lparr>wd_place := True, wd_price := Some p, wd_shares := Some n\<rparr>))))"

text \<open>The quote of a side: the spread is truncated to an integer first.\<close>

definition legacy_quote :: "wall_cfg \<Rightarrow> side \<Rightarrow> (rat \<times> int) option" where
  "legacy_quote cfg s =
     (case explain_legacy_order cfg (sd_bids s) (of_int (int_trunc (sd_max_spread s))) (sd_tick s)
         (sd_rmin s) (sd_rmax s) (sd_min_size s) of
        None \<Rightarrow> None
      | Some d \<Rightarrow> if wd_place d then (case (wd_price d, wd_shares d) of
            (Some p, Some n) \<Rightarrow> Some (p, n) | _ \<Rightarrow> None) else None)"

definition compute_market_legacy_orders ::
    "wall_cfg \<Rightarrow> side option \<Rightarrow> side option \<Rightarrow> rat \<Rightarrow> int \<Rightarrow>
     (rat \<times> int) option \<times> (rat \<times> int) option" where
  "compute_market_legacy_orders cfg side_a side_b budget max_shares =
     plan_market (legacy_quote cfg) side_a side_b budget max_shares"

section \<open>Texts\<close>

definition fmt_int :: "int option \<Rightarrow> part option" where
  "fmt_int v = map_option (\<lambda>n. Fmt (of_int n)) v"

definition pos_of :: "nat option \<Rightarrow> part option" where
  "pos_of v = map_option (\<lambda>i. Pos (i + 1)) v"

text \<open>A skip reason of this engine is text.\<close>

definition legacy_reason :: "wall_decision \<Rightarrow> part list option" where
  "legacy_reason d =
     (if \<not> wd_place d then Some [Lit ''skip'']
      else if wd_rule d = Some Cumulative then
        all_parts [pos_of (wd_hit d), fmt_int (wd_cum d), fmt_int (wd_threshold d), fmt (wd_price d),
          fmt_int (wd_shares d)]
      else all_parts [pos_of (wd_hit d), fmt (wd_hit_size d), fmt_int (wd_threshold d), fmt (wd_price d),
          fmt_int (wd_shares d)])"

definition legacy_price_basis :: "wall_decision \<Rightarrow> rat \<Rightarrow> rat \<Rightarrow> part list option" where
  "legacy_price_basis d rmin rmax =
     (let src = [Some (Fmt rmin), Some (Fmt rmax), Some (Lit ''CLOB get_orderbook'')] in
      if wd_levels d = [] then all_parts src
      else if wd_place d then
        all_parts ((case wd_hit d of
            Some i \<Rightarrow> if i < length (wd_levels d) then
                [Some (Pos (i + 1)), Some (Fmt (wl_price (wd_levels d ! i))),
                 Some (Fmt (of_int (int_trunc (wl_size (wd_levels d ! i))))),
                 Some (Fmt (of_int (wl_cum (wd_levels d ! i))))]
              else [Some (Lit ''no hit'')]
          | None \<Rightarrow> [Some (Lit ''no hit'')]) @
          [fmt_int (wd_threshold d), fmt (wd_price d), fmt_int (wd_shares d)] @ src)
      else all_parts
        (concat (map (\<lambda>(i, l). [Some (Fmt (wl_price l)), Some (Fmt (of_int (int_trunc (wl_size l)))),
            Some (Fmt (of_int (wl_cum l)))] @ (if Some i = wd_hit d then [Some (Lit ''hit'')] else []))
            (enumerate 0 (wd_levels d))) @
         [if wd_threshold d = None then Some (Lit ''no threshold'') else fmt_int (wd_threshold d),
          Some (Lit ''skip'')] @ src))"

section \<open>The two scans agree\<close>

lemma length_with_cum [simp]: "length (with_cum r bs) = length bs"
  by (induction bs arbitrary: r) (simp_all add: Let_def)

lemma with_cum_nth: "i < length bs \<Longrightarrow>
    wl_price (with_cum r bs ! i) = lv_price (bs ! i) \<and> wl_size (with_cum r bs ! i) = lv_size (bs ! i)"
proof (induction bs arbitrary: r i)
  case (Cons b bs)
  then show ?case by (cases i) (simp_all add: Let_def)
qed simp

text \<open>\<open>below\<close>: the price is that of the level after the hit, in the reward range.\<close>

definition below :: "lvl list \<Rightarrow> rat \<Rightarrow> rat \<Rightarrow> nat \<Rightarrow> rat \<Rightarrow> bool" where
  "below bids rmin rmax i p \<longleftrightarrow> Suc i < length bids \<and> p = lv_price (bids ! Suc i) \<and> rmin \<le> p \<and> p \<le> rmax"

lemma cumulative_hit:
  "cumulative_scan rmin rmax thr c bids = Some p \<Longrightarrow>
   \<exists>i. find_idx (\<lambda>l. thr < wl_cum l) (with_cum c bids) = Some i \<and> below bids rmin rmax i p"
proof (induction rmin rmax thr c bids rule: cumulative_scan.induct)
  case (2 rmin rmax thr c b bs)
  show ?case
  proof (cases "thr < c + int_trunc (lv_size b)")
    case True
    with 2 show ?thesis
      by (auto simp: Let_def below_def target_ok_def split: list.splits if_splits)
  next
    case False
    with 2 obtain i where "find_idx (\<lambda>l. thr < wl_cum l) (with_cum (c + int_trunc (lv_size b)) bs) = Some i"
      "below bs rmin rmax i p" by (auto simp: Let_def)
    with False show ?thesis by (auto simp: Let_def below_def)
  qed
qed simp

lemma ge3_hit:
  "ge3_scan mp rmin rmax wall bids = Some p \<Longrightarrow>
   \<exists>i. find_idx (\<lambda>l. wall < int_trunc (wl_size l)) (takeWhile (\<lambda>l. mp \<le> wl_price l) (with_cum c bids)) = Some i
     \<and> below bids rmin rmax i p \<and> mp \<le> p"
proof (induction mp rmin rmax wall bids arbitrary: c rule: ge3_scan.induct)
  case (2 mp rmin rmax wall b bs)
  show ?case
  proof (cases "wall < int_trunc (lv_size b)")
    case True
    with 2 show ?thesis
      by (auto simp: Let_def below_def target_ok_def split: list.splits if_splits)
  next
    case False
    with 2 obtain i where "find_idx (\<lambda>l. wall < int_trunc (wl_size l))
        (takeWhile (\<lambda>l. mp \<le> wl_price l) (with_cum (c + int_trunc (lv_size b)) bs)) = Some i"
      "below bs rmin rmax i p" "mp \<le> p" "\<not> lv_price b < mp" by (auto split: if_splits)
    with False show ?thesis by (auto simp: Let_def below_def)
  qed
qed simp

lemma price_hit:
  assumes "determine_order_price bids ms tick rmin rmax (wc_wall cfg) (wc_cumulative cfg) = Some p"
  shows "\<exists>i. find_idx (wall_hit cfg tick) (scanned_levels ms tick (with_cum 0 bids)) = Some i \<and>
    below bids rmin rmax i p"
proof -
  have ne: "bids \<noteq> []" using assms by (auto simp: determine_order_price_def)
  then obtain b bs where b: "bids = b # bs" by (cases bids) auto
  have w0: "wl_price (with_cum 0 bids ! 0) = lv_price (bids ! 0)" by (simp add: b Let_def)
  consider "fine_tick tick" | "\<not> fine_tick tick" "ms = 2" | "\<not> fine_tick tick" "ms \<noteq> 2" by blast
  then show ?thesis
  proof cases
    case 1
    then have "wall_hit cfg tick = (\<lambda>l. wc_cumulative cfg < wl_cum l)" by (auto simp: wall_hit_def)
    with 1 ne assms cumulative_hit [of rmin rmax "wc_cumulative cfg" 0 bids p] show ?thesis
      by (simp add: determine_order_price_def scanned_levels_def)
  next
    case 2
    with assms ne show ?thesis
      by (auto simp: determine_order_price_def spread2_coarse_def scanned_levels_def wall_hit_def b Let_def
        below_def target_ok_def split: if_splits)
  next
    case 3
    then have "wall_hit cfg tick = (\<lambda>l. wc_wall cfg < int_trunc (wl_size l))" by (auto simp: wall_hit_def)
    with 3 ne assms ge3_hit [of _ rmin rmax "wc_wall cfg" bids p 0] show ?thesis
      unfolding determine_order_price_def scanned_levels_def spread_ge3_coarse_def Let_def w0 by fastforce
  qed
qed


lemma scanned_nonempty:
  assumes "bids \<noteq> []" "0 \<le> ms * tick"
  shows "scanned_levels ms tick (with_cum 0 bids) \<noteq> []"
  using assms by (cases bids) (auto simp: scanned_levels_def Let_def)

lemma scanned_length: "length (scanned_levels ms tick ls) \<le> length ls"
  by (auto simp: scanned_levels_def Let_def intro: length_takeWhile_le)

text \<open>What every decision satisfies.\<close>

definition wall_decision_ok :: "wall_cfg \<Rightarrow> lvl list \<Rightarrow> rat \<Rightarrow> rat \<Rightarrow> rat \<Rightarrow> rat \<Rightarrow> wall_decision \<Rightarrow> bool" where
  "wall_decision_ok cfg bids tick rmin rmax k d \<longleftrightarrow>
     (wd_place d \<longrightarrow> 0 < k \<and> \<not> has_cliff_below bids rmin (wc_cliff cfg) \<and>
        wd_rule d \<noteq> None \<and> wd_threshold d \<noteq> None \<and>
        (\<exists>i p n. wd_hit d = Some i \<and> wd_hit_size d \<noteq> None \<and> wd_cum d \<noteq> None \<and>
          wd_price d = Some p \<and> wd_shares d = Some n \<and> below bids rmin rmax i p \<and>
          compute_order_size (wc_mode cfg) p (wc_balance cfg) (int_trunc k) (wc_custom_usd cfg) = Some n))"

lemma explain_legacy_ok:
  assumes "explain_legacy_order cfg bids ms tick rmin rmax k = Some d"
  shows "wall_decision_ok cfg bids tick rmin rmax k d"
proof (cases "bids = [] \<or> k \<le> 0 \<or> has_cliff_below bids rmin (wc_cliff cfg)")
  case True
  with assms show ?thesis
    by (auto simp: explain_legacy_order_def no_wall_decision_def wall_decision_ok_def Let_def split: if_splits)
next
  case False
  show ?thesis
  proof (cases "determine_order_price bids ms tick rmin rmax (wc_wall cfg) (wc_cumulative cfg)")
    case None
    with False assms show ?thesis
      by (auto simp: explain_legacy_order_def no_wall_decision_def wall_decision_ok_def Let_def split: option.splits)
  next
    case (Some p)
    from price_hit [OF this] obtain i where
      "find_idx (wall_hit cfg tick) (scanned_levels ms tick (with_cum 0 bids)) = Some i" "below bids rmin rmax i p"
      by blast
    with Some False assms show ?thesis
      by (auto simp: explain_legacy_order_def no_wall_decision_def wall_decision_ok_def Let_def split: option.splits)
  qed
qed

interpretation legacy: pricing "legacy_quote cfg" for cfg
proof
  fix s :: side and p n
  assume "legacy_quote cfg s = Some (p, n)"
  then obtain d where "explain_legacy_order cfg (sd_bids s) (of_int (int_trunc (sd_max_spread s))) (sd_tick s)
      (sd_rmin s) (sd_rmax s) (sd_min_size s) = Some d" "wd_place d" "wd_price d = Some p"
    by (auto simp: legacy_quote_def split: option.splits if_splits)
  with explain_legacy_ok [OF this(1)] show "sd_rmin s \<le> p \<and> p \<le> sd_rmax s" "0 < sd_min_size s"
    by (auto simp: wall_decision_ok_def below_def)
qed

text \<open>The wall engine places an order one level below the first level that is thick enough
within the range it scans: the explanation reports exactly that level as the hit, no
scanned level above it is thick enough, the price is in the reward range, there is no
cliff, and the share count is the one the size mode computes.\<close>

theorem legacy_hit_is_first_wall:
  assumes "explain_legacy_order cfg bids ms tick rmin rmax k = Some d" "wd_place d"
  shows "\<exists>i p n. wd_hit d = Some i \<and> wd_price d = Some p \<and> wd_shares d = Some n \<and>
    Suc i < length bids \<and> p = lv_price (bids ! Suc i) \<and> rmin \<le> p \<and> p \<le> rmax \<and> 0 < k \<and>
    \<not> has_cliff_below bids rmin (wc_cliff cfg) \<and>
    find_idx (wall_hit cfg tick) (scanned_levels ms tick (with_cum 0 bids)) = Some i \<and>
    (\<forall>j < i. \<not> wall_hit cfg tick (with_cum 0 bids ! j)) \<and> wall_hit cfg tick (with_cum 0 bids ! i) \<and>
    compute_order_size (wc_mode cfg) p (wc_balance cfg) (int_trunc k) (wc_custom_usd cfg) = Some n"
proof -
  from explain_legacy_ok [OF assms(1)] assms(2) obtain i p n where d: "0 < k"
    "\<not> has_cliff_below bids rmin (wc_cliff cfg)" "wd_hit d = Some i" "wd_price d = Some p" "wd_shares d = Some n"
    "below bids rmin rmax i p"
    "compute_order_size (wc_mode cfg) p (wc_balance cfg) (int_trunc k) (wc_custom_usd cfg) = Some n"
    by (auto simp: wall_decision_ok_def)
  let ?s = "scanned_levels ms tick (with_cum 0 bids)"
  have hit: "find_idx (wall_hit cfg tick) ?s = Some i"
    using assms d by (auto simp: explain_legacy_order_def no_wall_decision_def Let_def split: option.splits if_splits)
  have pre: "?s ! j = with_cum 0 bids ! j" if "j < length ?s" for j
    using that by (auto simp: scanned_levels_def Let_def takeWhile_nth)
  from hit have i: "i < length ?s" "wall_hit cfg tick (?s ! i)" "\<forall>j < i. \<not> wall_hit cfg tick (?s ! j)"
    by (simp_all add: find_idx_Some)
  have "\<forall>j < i. \<not> wall_hit cfg tick (with_cum 0 bids ! j)" "wall_hit cfg tick (with_cum 0 bids ! i)"
    using i pre by (metis order.strict_trans) (use i pre in metis)
  with hit d show ?thesis unfolding below_def by blast
qed

definition demo_wall :: wall_cfg where
  "demo_wall = \<lparr>wc_mode = ''min'', wc_balance = 100, wc_custom_usd = 0, wc_wall = 2000, wc_cumulative = 6000,
     wc_cliff = None\<rparr>"

lemma legacy_witness:
  "let bids = [\<lparr>lv_price = 2/5, lv_size = 2500\<rparr>, \<lparr>lv_price = 39/100, lv_size = 10\<rparr>]
   in (\<exists>d. explain_legacy_order demo_wall bids 3 (1/100) (37/100) (43/100) 50 = Some d \<and> wd_place d \<and>
     wd_hit d = Some 0 \<and> wd_price d = Some (39/100) \<and> wd_shares d = Some 50)"
proof -
  let ?bids = "[\<lparr>lv_price = 2/5, lv_size = 2500\<rparr>, \<lparr>lv_price = 39/100, lv_size = 10\<rparr>]"
  obtain d where e: "explain_legacy_order demo_wall ?bids 3 (1/100) (37/100) (43/100) 50 = Some d" "wd_place d"
    "wd_hit d = Some 0"
    by (simp add: explain_legacy_order_def demo_wall_def no_wall_decision_def has_cliff_below_def fine_tick_def
      determine_order_price_def spread_ge3_coarse_def target_ok_def scanned_levels_def wall_hit_def Let_def
      compute_order_size_def int_trunc_def)
  from legacy_hit_is_first_wall [OF this(1,2)] e show ?thesis
    unfolding Let_def by (auto simp: demo_wall_def compute_order_size_def int_trunc_def)
qed

text \<open>The wall engine's market plan keeps the same budget as the gap engine's: cost and
shares over both sides stay within the limits and every order is in range and not below
the minimum size.\<close>

theorem legacy_market_within_budget:
  "case compute_market_legacy_orders cfg sa sb budget m of (a, b) \<Rightarrow>
     order_cost a + order_cost b \<le> max 0 budget \<and> order_shares a + order_shares b \<le> max 0 m \<and>
     (case a of None \<Rightarrow> True | Some (p, n) \<Rightarrow> \<exists>s w. sa = Some s \<and> legacy_quote cfg s = Some (p, w) \<and> n \<le> w \<and>
        sd_rmin s \<le> p \<and> p \<le> sd_rmax s \<and> sd_min_size s \<le> of_int n) \<and>
     (case b of None \<Rightarrow> True | Some (p, n) \<Rightarrow> \<exists>s w. sb = Some s \<and> legacy_quote cfg s = Some (p, w) \<and> n \<le> w \<and>
        sd_rmin s \<le> p \<and> p \<le> sd_rmax s \<and> sd_min_size s \<le> of_int n)"
proof -
  obtain a b where ab: "plan_market (legacy_quote cfg) sa sb budget m = (a, b)" by fastforce
  from legacy.within_budget [OF ab] legacy.every_order [OF ab] show ?thesis
    by (simp add: compute_market_legacy_orders_def ab split: option.split)
qed

text \<open>With a non-negative spread and tick the explanation never fails, and its texts never
format a missing number.\<close>

theorem legacy_explain_total:
  assumes "0 \<le> ms" "0 \<le> tick"
  shows "case explain_legacy_order cfg bids ms tick rmin rmax k of
    None \<Rightarrow> False
  | Some d \<Rightarrow> legacy_reason d \<noteq> None \<and> legacy_price_basis d lo hi \<noteq> None"
proof -
  have "explain_legacy_order cfg bids ms tick rmin rmax k \<noteq> None"
    using scanned_nonempty [of bids ms tick] assms
    by (auto simp: explain_legacy_order_def Let_def wall_skip_reason_def split: option.splits)
  moreover have "legacy_reason d \<noteq> None \<and> legacy_price_basis d lo hi \<noteq> None"
    if "wall_decision_ok cfg bids tick rmin rmax k d" for d
    using that
    by (cases "wd_place d")
      (auto simp: wall_decision_ok_def legacy_reason_def legacy_price_basis_def fmt_int_def pos_of_def fmt_def
        Let_def simp del: not_None_eq split: option.splits)
  ultimately show ?thesis using explain_legacy_ok [of cfg bids ms tick rmin rmax k]
    by (auto split: option.splits)
qed

lemma legacy_explain_total_witness:
  "explain_legacy_order demo_wall [\<lparr>lv_price = 2/5, lv_size = 10\<rparr>] 3 (1/100) (37/100) (43/100) 50 \<noteq> None"
  using legacy_explain_total [where ms = 3 and tick = "1/100" and cfg = demo_wall and rmin = "37/100"
    and rmax = "43/100" and k = 50 and bids = "[\<lparr>lv_price = 2/5, lv_size = 10\<rparr>]" and lo = 0 and hi = 1]
  by (simp split: option.splits)

end
