(* ===== verification/Login.thy ===== *)
theory Login
  imports Prelude
begin

text \<open>
  Setting the password, logging in and out, and the limit on failed logins (\<open>web/routes.py\<close>).
  The key derivation and the hash are parameters; the password is the one thing between the network
  and the private keys, so what is proved is how many passwords one address can try.
\<close>

section \<open>Failed logins\<close>

definition login_fail_limit :: nat where
  "login_fail_limit = 5"

definition login_lock_sec :: rat where
  "login_lock_sec = 900"

text \<open>Address to the number of failures in a row and the end of the lock, 0 for no lock.\<close>

type_synonym fails = "string \<rightharpoonup> nat \<times> rat"

definition fails_of :: "string \<Rightarrow> fails \<Rightarrow> nat \<times> rat" where
  "fails_of ip fs = (case fs ip of None \<Rightarrow> (0, 0) | Some x \<Rightarrow> x)"

definition login_lock_remaining :: "string \<Rightarrow> rat \<Rightarrow> fails \<Rightarrow> int \<times> fails" where
  "login_lock_remaining ip now fs =
     (let (count, until) = fails_of ip fs in
      if until \<noteq> 0 \<and> until \<le> now then (0, fs(ip := None)) else (max 0 (int_trunc (until - now)), fs))"

definition record_login_failure :: "string \<Rightarrow> rat \<Rightarrow> fails \<Rightarrow> fails" where
  "record_login_failure ip now fs =
     (let count = fst (fails_of ip fs) + 1 in
      fs(ip \<mapsto> (count, if login_fail_limit \<le> count then now + login_lock_sec else 0)))"

definition clear_login_failures :: "string \<Rightarrow> fails \<Rightarrow> fails" where
  "clear_login_failures ip fs = fs(ip := None)"

lemma fails_of_forgotten [simp]: "fails_of ip (fs(ip := None)) = (0, 0)"
  by (simp add: fails_of_def)

lemma fails_of_recorded [simp]:
  "fails_of ip (record_login_failure ip now fs) =
     (let c = fst (fails_of ip fs) + 1 in (c, if 5 \<le> c then now + 900 else 0))"
  by (simp add: record_login_failure_def fails_of_def login_fail_limit_def login_lock_sec_def Let_def)

section \<open>Pages\<close>

text \<open>
  What the process keeps: the stored hash and salt, the encryption key, whether there is a manager, the
  cached clients, the failures, and whether the session is logged in. \<open>derive\<close> and \<open>digest\<close> are
  \<open>derive_key\<close> and the hash of the key.
\<close>

record ('s, 'k, 'h) web =
  wb_password :: "('h \<times> 's) option"
  wb_key :: "'k option"
  wb_manager :: bool
  wb_cached :: "string set"
  wb_fails :: fails
  wb_session :: bool

datatype page = Redirect_login | Redirect_setup | Redirect_home | Show | Too_short | Differ | Locked int | Wrong

definition min_password_len :: nat where
  "min_password_len = 12"

definition setup_page :: "(string \<Rightarrow> 's \<Rightarrow> 'k) \<Rightarrow> ('k \<Rightarrow> 'h) \<Rightarrow> 's \<Rightarrow> string \<Rightarrow> string \<Rightarrow> ('s, 'k, 'h) web \<Rightarrow> page \<times> ('s, 'k, 'h) web" where
  "setup_page derive digest salt password confirm w =
     (if wb_password w \<noteq> None then (Redirect_login, w)
      else if length password < min_password_len then (Too_short, w)
      else if password \<noteq> confirm then (Differ, w)
      else (let key = derive password salt in
        (Redirect_home, w\<lparr>wb_password := Some (digest key, salt), wb_key := Some key, wb_manager := True, wb_session := True\<rparr>)))"

text \<open>A post to the login page up to the comparison: a page, or the hash and the salt that were read; the lock refuses in server
  mode only. Deriving the key takes long, and nothing is locked meanwhile.\<close>

definition login_enter :: "bool \<Rightarrow> string \<Rightarrow> rat \<Rightarrow> ('s, 'k, 'h) web \<Rightarrow> (page + 'h \<times> 's) \<times> ('s, 'k, 'h) web" where
  "login_enter server ip now w =
     (case wb_password w of
        None \<Rightarrow> (Inl Redirect_setup, w)
      | Some stored \<Rightarrow>
          (let (wait, fs) = login_lock_remaining ip now (wb_fails w); w1 = w\<lparr>wb_fails := fs\<rparr> in
           if server \<and> wait \<noteq> 0 then (Inl (Locked wait), w1) else (Inr stored, w1)))"

text \<open>The comparison and what follows it; \<open>now\<close> is the time at which a failure is recorded.\<close>

definition login_judge :: "(string \<Rightarrow> 's \<Rightarrow> 'k) \<Rightarrow> ('k \<Rightarrow> 'h) \<Rightarrow> string \<Rightarrow> rat \<Rightarrow> string \<Rightarrow> 'h \<times> 's \<Rightarrow> ('s, 'k, 'h) web \<Rightarrow> page \<times> ('s, 'k, 'h) web" where
  "login_judge derive digest ip now password stored w =
     (let (hashed, salt) = stored; key = derive password salt in
      if digest key = hashed
      then (Redirect_home, w\<lparr>wb_fails := clear_login_failures ip (wb_fails w), wb_key := Some key, wb_manager := True, wb_session := True\<rparr>)
      else (Wrong, w\<lparr>wb_fails := record_login_failure ip now (wb_fails w)\<rparr>))"

text \<open>A post that no other one comes between.\<close>

definition login :: "(string \<Rightarrow> 's \<Rightarrow> 'k) \<Rightarrow> ('k \<Rightarrow> 'h) \<Rightarrow> bool \<Rightarrow> string \<Rightarrow> rat \<Rightarrow> string \<Rightarrow> ('s, 'k, 'h) web \<Rightarrow> page \<times> ('s, 'k, 'h) web" where
  "login derive digest server ip now password w =
     (case login_enter server ip now w of
        (Inl p, w1) \<Rightarrow> (p, w1)
      | (Inr stored, w1) \<Rightarrow> login_judge derive digest ip now password stored w1)"

definition logout :: "('s, 'k, 'h) web \<Rightarrow> page \<times> ('s, 'k, 'h) web" where
  "logout w = (Redirect_login, w\<lparr>wb_session := False, wb_key := None, wb_cached := {}\<rparr>)"

text \<open>\<open>login_required\<close>: the page, or the redirection without running it.\<close>

definition login_required :: "(('s, 'k, 'h) web \<Rightarrow> page \<times> ('s, 'k, 'h) web) \<Rightarrow> ('s, 'k, 'h) web \<Rightarrow> page \<times> ('s, 'k, 'h) web" where
  "login_required page w = (if wb_session w then page w else (Redirect_login, w))"

section \<open>Posts at the same time\<close>

text \<open>
  The server runs \<open>n\<close> threads, eight in \<open>app.py\<close>. A post that passed the lock is in flight until its thread has derived the key and
  compares. A step is a post that a free thread takes (with all threads busy it has to wait and is taken later), or the
  end of a post in flight, in any order; each reads the clock.
\<close>

record ('s, 'h) post =
  po_ip :: string
  po_password :: string
  po_stored :: "'h \<times> 's"

datatype web_step = Posted string string | Judged nat

fun serve :: "nat \<Rightarrow> (string \<Rightarrow> 's \<Rightarrow> 'k) \<Rightarrow> ('k \<Rightarrow> 'h) \<Rightarrow> bool \<Rightarrow> rat \<times> web_step \<Rightarrow> ('s, 'k, 'h) web \<times> ('s, 'h) post list \<Rightarrow>
    ('s, 'k, 'h) web \<times> ('s, 'h) post list" where
  "serve n derive digest server (now, Posted ip password) (w, fl) =
     (if length fl < n
      then (case login_enter server ip now w of
          (Inl p, w') \<Rightarrow> (w', fl)
        | (Inr stored, w') \<Rightarrow> (w', fl @ [\<lparr>po_ip = ip, po_password = password, po_stored = stored\<rparr>]))
      else (w, fl))"
| "serve n derive digest server (now, Judged k) (w, fl) =
     (if k < length fl
      then (snd (login_judge derive digest (po_ip (fl ! k)) now (po_password (fl ! k)) (po_stored (fl ! k)) w), take k fl @ drop (Suc k) fl)
      else (w, fl))"

section \<open>How many passwords can be tried\<close>

text \<open>A post of the address that passes the lock: its password will be compared with the stored one.\<close>

definition passes :: "nat \<Rightarrow> bool \<Rightarrow> string \<Rightarrow> rat \<times> web_step \<Rightarrow> ('s, 'k, 'h) web \<times> ('s, 'h) post list \<Rightarrow> bool" where
  "passes n server ip e st =
     (case e of
        (now, Posted ip' password) \<Rightarrow> ip' = ip \<and> length (snd st) < n \<and> (\<exists>stored. fst (login_enter server ip now (fst st)) = Inr stored)
      | (now, Judged k) \<Rightarrow> False)"

fun compared :: "nat \<Rightarrow> (string \<Rightarrow> 's \<Rightarrow> 'k) \<Rightarrow> ('k \<Rightarrow> 'h) \<Rightarrow> string \<Rightarrow> (rat \<times> web_step) list \<Rightarrow> ('s, 'k, 'h) web \<times> ('s, 'h) post list \<Rightarrow> nat" where
  "compared n derive digest ip [] st = 0"
| "compared n derive digest ip (e # es) st =
     (if passes n True ip e st then 1 else 0) + compared n derive digest ip es (serve n derive digest True e st)"

definition wrong_password :: "(string \<Rightarrow> 's \<Rightarrow> 'k) \<Rightarrow> ('k \<Rightarrow> 'h) \<Rightarrow> 'h \<times> 's \<Rightarrow> string \<Rightarrow> bool" where
  "wrong_password derive digest stored password \<longleftrightarrow> digest (derive password (snd stored)) \<noteq> fst stored"

text \<open>Every password the address posts is wrong.\<close>

definition guesses :: "(string \<Rightarrow> 's \<Rightarrow> 'k) \<Rightarrow> ('k \<Rightarrow> 'h) \<Rightarrow> 'h \<times> 's \<Rightarrow> string \<Rightarrow> web_step \<Rightarrow> bool" where
  "guesses derive digest stored ip e =
     (case e of Posted ip' password \<Rightarrow> ip' = ip \<longrightarrow> wrong_password derive digest stored password | Judged k \<Rightarrow> True)"

text \<open>How many more can be compared until the time \<open>till\<close>, by the state of the address at the time \<open>t\<close> and the number of its posts
  in flight.\<close>

definition windows :: "rat \<Rightarrow> rat \<Rightarrow> nat" where
  "windows t till = nat \<lfloor>(till - t) / 899\<rfloor>"

definition in_flight :: "string \<Rightarrow> ('s, 'h) post list \<Rightarrow> nat" where
  "in_flight ip fl = length (filter (\<lambda>q. po_ip q = ip) fl)"

definition allowance :: "nat \<Rightarrow> nat \<times> rat \<Rightarrow> nat \<Rightarrow> rat \<Rightarrow> rat \<Rightarrow> nat" where
  "allowance n st k t till =
     (if snd st = 0 then (4 - fst st) + (n - k) + (n + 4) * windows t till
      else if t < snd st - 1 then (n + 4) * nat \<lfloor>(till - snd st + 900) / 899\<rfloor>
      else (n + 4 - k) + (n + 4) * windows t till)"

definition fails_ok :: "nat \<times> rat \<Rightarrow> rat \<Rightarrow> bool" where
  "fails_ok st t \<longleftrightarrow> (if snd st = 0 then fst st < 5 else 5 \<le> fst st \<and> 0 < snd st \<and> snd st \<le> t + 900)"

lemma fails_ok_later: "fails_ok st t \<Longrightarrow> t \<le> now \<Longrightarrow> fails_ok st now"
  by (auto simp: fails_ok_def)

lemma windows_mono: "t \<le> now \<Longrightarrow> windows now till \<le> windows t till"
  unfolding windows_def by (intro nat_mono floor_mono divide_right_mono) simp_all

lemma one_more_window: "now \<le> till \<Longrightarrow> till - now + 899 \<le> x \<Longrightarrow> windows now till + 1 \<le> nat \<lfloor>x / 899\<rfloor>"
proof -
  assume a: "now \<le> till" "till - now + 899 \<le> x"
  have "\<lfloor>(till - now) / 899 + 1\<rfloor> \<le> \<lfloor>x / 899\<rfloor>"
    using a(2) by (intro floor_mono) (simp add: field_simps)
  moreover have "0 \<le> \<lfloor>(till - now) / 899\<rfloor>"
    using a(1) by simp
  ultimately show ?thesis
    unfolding windows_def by linarith
qed

lemma allowance_mono:
  assumes "t \<le> now" and "now \<le> till"
  shows "allowance n st k now till \<le> allowance n st k t till"
proof (cases "snd st \<noteq> 0 \<and> t < snd st - 1 \<and> \<not> now < snd st - 1")
  case True
  then have "windows now till + 1 \<le> nat \<lfloor>(till - snd st + 900) / 899\<rfloor>"
    using assms(2) by (intro one_more_window) simp_all
  then have "(n + 4) * (windows now till + 1) \<le> (n + 4) * nat \<lfloor>(till - snd st + 900) / 899\<rfloor>" by (rule mult_le_mono2)
  with True show ?thesis by (simp add: allowance_def algebra_simps)
next
  case False
  have "(n + 4) * windows now till \<le> (n + 4) * windows t till" using windows_mono [OF assms(1)] by (rule mult_le_mono2)
  with False assms(1) show ?thesis by (auto simp: allowance_def)
qed

lemma nothing_to_wait: "max 0 (int_trunc x) = 0 \<longleftrightarrow> x < 1"
  unfolding int_trunc_def by (simp add: max_def) linarith

text \<open>What the lock does with a post of the address, and what it costs.\<close>

lemma enter_state:
  assumes "wb_password w = Some stored" and "fails_of ip (wb_fails w) = (c, u)"
  shows "login_enter True ip now w =
    (if u \<noteq> 0 \<and> u \<le> now then (Inr stored, w\<lparr>wb_fails := (wb_fails w)(ip := None)\<rparr>)
     else if u - now < 1 then (Inr stored, w)
     else (Inl (Locked (max 0 (int_trunc (u - now)))), w))"
  using assms nothing_to_wait [of "u - now"] by (auto simp: login_enter_def login_lock_remaining_def)

lemma enter_cost:
  assumes "wb_password w = Some stored" and "fails_ok (fails_of ip (wb_fails w)) now" and "k < n" and "0 \<le> now"
    and "login_enter True ip now w = (r, w')"
  shows "(case r of Inl p \<Rightarrow> w' = w | Inr x \<Rightarrow> x = stored \<and>
      Suc (allowance n (fails_of ip (wb_fails w')) (Suc k) now till) \<le> allowance n (fails_of ip (wb_fails w)) k now till) \<and>
    fails_ok (fails_of ip (wb_fails w')) now \<and> wb_password w' = wb_password w"
proof -
  obtain c u where st: "fails_of ip (wb_fails w) = (c, u)" by fastforce
  note step = assms(5) [unfolded enter_state [OF assms(1) st]]
  consider "u = 0" "c < 5" | "u \<noteq> 0" "u \<le> now" | "u \<noteq> 0" "now < u" "u - now < 1" | "u \<noteq> 0" "now < u" "\<not> u - now < 1"
    using assms(2) st by (fastforce simp: fails_ok_def)
  then show ?thesis
  proof cases
    case 1
    then have "r = Inr stored" "w' = w" using step assms(4) by auto
    with 1 st assms(3) show ?thesis by (simp add: assms(1) allowance_def fails_ok_def)
  next
    case 2
    then have "r = Inr stored" "w' = w\<lparr>wb_fails := (wb_fails w)(ip := None)\<rparr>" using step by auto
    with 2 st assms(3) show ?thesis by (simp add: assms(1) allowance_def fails_ok_def)
  next
    case 3
    then have "r = Inr stored" "w' = w" using step by auto
    with 3 st assms(2,3) show ?thesis by (simp add: assms(1) allowance_def)
  next
    case 4
    then have "r = Inl (Locked (max 0 (int_trunc (u - now))))" "w' = w" using step by auto
    with assms(2) st show ?thesis by (simp add: assms(1))
  qed
qed

text \<open>A failure makes room for one more post in flight, but counts.\<close>

lemma failure_cost:
  assumes "fails_ok (fails_of ip fs) now" and "0 < k" and "k \<le> n" and "0 \<le> now"
  shows "allowance n (fails_of ip (record_login_failure ip now fs)) (k - 1) now till \<le> allowance n (fails_of ip fs) k now till \<and>
    fails_ok (fails_of ip (record_login_failure ip now fs)) now"
proof -
  obtain c u where st: "fails_of ip fs = (c, u)" by fastforce
  have new: "fails_of ip (record_login_failure ip now fs) = (c + 1, if 5 \<le> c + 1 then now + 900 else 0)"
    by (simp add: st)
  consider "u = 0" "c < 4" | "u = 0" "c = 4" | "u \<noteq> 0" "5 \<le> c" "u \<le> now + 900"
    using assms(1) st by (cases "u = 0"; cases "c < 4") (auto simp: fails_ok_def)
  then show ?thesis
  proof cases
    case 1
    then show ?thesis unfolding new st using assms(2,3) by (simp add: allowance_def fails_ok_def)
  next
    case 2
    then show ?thesis unfolding new st using assms(4) by (simp add: allowance_def fails_ok_def windows_def)
  next
    case 3
    have "nat \<lfloor>(till - now) / 899\<rfloor> \<le> nat \<lfloor>(till - u + 900) / 899\<rfloor>"
      using 3(3) by (intro nat_mono floor_mono divide_right_mono) simp_all
    then have "(n + 4) * nat \<lfloor>(till - now) / 899\<rfloor> \<le> (n + 4) * nat \<lfloor>(till - u + 900) / 899\<rfloor>" by (rule mult_le_mono2)
    with 3 show ?thesis unfolding new st using assms(4) by (simp add: allowance_def fails_ok_def windows_def)
  qed
qed

text \<open>Posts of other addresses do not touch the count of this one.\<close>

lemma other_address:
  "ip' \<noteq> ip \<Longrightarrow> fails_of ip (wb_fails (snd (login_enter server ip' now w))) = fails_of ip (wb_fails w)"
  "wb_password (snd (login_enter server ip' now w)) = wb_password w"
  "ip' \<noteq> ip \<Longrightarrow> fails_of ip (wb_fails (snd (login_judge derive digest ip' now password stored w))) = fails_of ip (wb_fails w)"
  "wb_password (snd (login_judge derive digest ip' now password stored w)) = wb_password w"
  by (auto simp: login_enter_def login_judge_def login_lock_remaining_def record_login_failure_def clear_login_failures_def
    fails_of_def Let_def split: option.split prod.split)

lemma in_flight_simps:
  "in_flight ip (fl @ [q]) = in_flight ip fl + (if po_ip q = ip then 1 else 0)" "in_flight ip fl \<le> length fl"
  by (simp_all add: in_flight_def)

lemma in_flight_removed:
  "k < length fl \<Longrightarrow> in_flight ip fl = in_flight ip (take k fl @ drop (Suc k) fl) + (if po_ip (fl ! k) = ip then 1 else 0)"
proof -
  assume "k < length fl"
  then have "fl = take k fl @ fl ! k # drop (Suc k) fl" by (rule id_take_nth_drop)
  then have "in_flight ip fl = in_flight ip (take k fl @ fl ! k # drop (Suc k) fl)" by simp
  then show ?thesis by (simp add: in_flight_def)
qed

text \<open>What is known along a run.\<close>

definition guessing :: "nat \<Rightarrow> (string \<Rightarrow> 's \<Rightarrow> 'k) \<Rightarrow> ('k \<Rightarrow> 'h) \<Rightarrow> 'h \<times> 's \<Rightarrow> string \<Rightarrow> rat \<Rightarrow> ('s, 'k, 'h) web \<times> ('s, 'h) post list \<Rightarrow> bool" where
  "guessing n derive digest stored ip t st \<longleftrightarrow>
     wb_password (fst st) = Some stored \<and> length (snd st) \<le> n \<and> fails_ok (fails_of ip (wb_fails (fst st))) t \<and>
     (\<forall>q \<in> set (snd st). po_ip q = ip \<longrightarrow> po_stored q = stored \<and> wrong_password derive digest stored (po_password q))"

definition open_to :: "nat \<Rightarrow> string \<Rightarrow> rat \<Rightarrow> rat \<Rightarrow> ('s, 'k, 'h) web \<times> ('s, 'h) post list \<Rightarrow> nat" where
  "open_to n ip t till st = allowance n (fails_of ip (wb_fails (fst st))) (in_flight ip (snd st)) t till"

lemma serve_posted:
  assumes "guessing n derive digest stored ip now (w, fl)" and "0 \<le> now" and "guesses derive digest stored ip (Posted ip' password)"
  defines "st' \<equiv> serve n derive digest True (now, Posted ip' password) (w, fl)"
  shows "(if passes n True ip (now, Posted ip' password) (w, fl) then 1 else 0) + open_to n ip now till st' \<le> open_to n ip now till (w, fl) \<and>
    guessing n derive digest stored ip now st'"
proof (cases "length fl < n")
  case False
  then show ?thesis using assms(1) by (simp add: st'_def passes_def)
next
  case True
  note g = assms(1) [unfolded guessing_def fst_conv snd_conv]
  obtain r w' where run: "login_enter True ip' now w = (r, w')" by fastforce
  show ?thesis
  proof (cases "ip' = ip")
    case same: True
    have "in_flight ip fl < n" using in_flight_simps(2) [of ip fl] True by simp
    from enter_cost [OF _ _ this assms(2) run [unfolded same], of stored till] g
    have cost: "case r of Inl p \<Rightarrow> w' = w | Inr x \<Rightarrow> x = stored \<and>
        Suc (allowance n (fails_of ip (wb_fails w')) (Suc (in_flight ip fl)) now till) \<le> allowance n (fails_of ip (wb_fails w)) (in_flight ip fl) now till"
      "fails_ok (fails_of ip (wb_fails w')) now" "wb_password w' = Some stored" by simp_all
    show ?thesis
      using True run same cost g assms(3)
      by (cases r) (auto simp: st'_def passes_def open_to_def guessing_def guesses_def in_flight_simps(1))
  next
    case other: False
    have "fails_of ip (wb_fails w') = fails_of ip (wb_fails w)" "wb_password w' = wb_password w"
      using other_address(1) [OF other, of True now w] other_address(2) [of True ip' now w] run by simp_all
    then show ?thesis
      using True run other g
      by (cases r) (auto simp: st'_def passes_def open_to_def guessing_def in_flight_simps(1))
  qed
qed

lemma serve_judged:
  fixes k :: nat
  assumes "guessing n derive digest stored ip now (w, fl)" and "0 \<le> now"
  defines "st' \<equiv> serve n derive digest True (now, Judged k) (w, fl)"
  shows "open_to n ip now till st' \<le> open_to n ip now till (w, fl) \<and> guessing n derive digest stored ip now st'"
proof (cases "k < length fl")
  case False
  then show ?thesis using assms(1) by (simp add: st'_def)
next
  case True
  note g = assms(1) [unfolded guessing_def fst_conv snd_conv]
  let ?q = "fl ! k" and ?rest = "take k fl @ drop (Suc k) fl"
  let ?w = "snd (login_judge derive digest (po_ip ?q) now (po_password ?q) (po_stored ?q) w)"
  have st': "st' = (?w, ?rest)" using True by (simp add: st'_def)
  have rest: "set ?rest \<subseteq> set fl" "length ?rest \<le> n"
    using g True by (auto dest: in_set_takeD in_set_dropD)
  have pw: "wb_password ?w = Some stored" using g by (simp add: other_address(4))
  show ?thesis
  proof (cases "po_ip ?q = ip")
    case False
    then have "fails_of ip (wb_fails ?w) = fails_of ip (wb_fails w)" by (rule other_address(3))
    with False in_flight_removed [OF True, of ip] g rest pw show ?thesis
      unfolding st' by (auto simp: open_to_def guessing_def)
  next
    case same: True
    have q: "po_stored ?q = stored" "wrong_password derive digest stored (po_password ?q)" using g True same by auto
    have fs: "wb_fails ?w = record_login_failure ip now (wb_fails w)"
      using q same by (auto simp: login_judge_def wrong_password_def Let_def split: prod.split)
    have k: "in_flight ip ?rest = in_flight ip fl - 1" "0 < in_flight ip fl" "in_flight ip fl \<le> n"
      using in_flight_removed [OF True, of ip] same in_flight_simps(2) [of ip fl] g by auto
    from failure_cost [OF _ k(2,3) assms(2), of ip "wb_fails w" till] g rest pw show ?thesis
      unfolding st' by (auto simp: open_to_def guessing_def fs k(1))
  qed
qed

lemma compared_bounded:
  assumes "sorted (t # map fst es)" and "\<forall>x\<in>set es. fst x \<le> till" and "0 \<le> t"
    and "\<forall>x\<in>set es. guesses derive digest stored ip (snd x)" and "guessing n derive digest stored ip t st"
  shows "compared n derive digest ip es st \<le> open_to n ip t till st"
  using assms
proof (induction es arbitrary: t st)
  case (Cons e es)
  obtain now step where e: "e = (now, step)" by fastforce
  obtain w fl where st: "st = (w, fl)" by fastforce
  have now: "t \<le> now" "now \<le> till" "0 \<le> now" using Cons.prems(1-3) e by auto
  have g: "guessing n derive digest stored ip now (w, fl)"
    using Cons.prems(5) now(1) fails_ok_later unfolding st guessing_def by (metis fst_conv)
  have less: "open_to n ip now till (w, fl) \<le> open_to n ip t till (w, fl)"
    unfolding open_to_def by (rule allowance_mono [OF now(1,2)])
  have guess: "guesses derive digest stored ip step" using Cons.prems(4) e by simp
  have step: "(if passes n True ip (now, step) (w, fl) then 1 else 0) + open_to n ip now till (serve n derive digest True (now, step) (w, fl)) \<le>
      open_to n ip now till (w, fl) \<and> guessing n derive digest stored ip now (serve n derive digest True (now, step) (w, fl))"
  proof (cases step)
    case (Posted ip' password)
    with serve_posted [OF g now(3)] guess show ?thesis by simp
  next
    case (Judged k)
    with serve_judged [OF g now(3)] show ?thesis by (simp add: passes_def)
  qed
  have "compared n derive digest ip es (serve n derive digest True (now, step) (w, fl)) \<le>
      open_to n ip now till (serve n derive digest True (now, step) (w, fl))"
    using Cons.prems(1,2,4) e step now(3) by (intro Cons.IH) auto
  with step less show ?case unfolding e st by simp
qed simp

text \<open>So many are reached: four failures one after the other, then a post on every thread.\<close>

definition burst :: "nat \<Rightarrow> string \<Rightarrow> rat \<Rightarrow> string \<Rightarrow> (rat \<times> web_step) list" where
  "burst n ip now password = concat (replicate 4 [(now, Posted ip password), (now, Judged 0)]) @ replicate n (now, Posted ip password)"

lemma burst_end:
  "wb_password w = Some stored \<Longrightarrow> fails_of ip (wb_fails w) = (c, 0) \<Longrightarrow> 0 \<le> now \<Longrightarrow> length fl + m \<le> n \<Longrightarrow>
   compared n derive digest ip (replicate m (now, Posted ip password)) (w, fl) = m"
proof (induction m arbitrary: fl)
  case (Suc m)
  have enter: "login_enter True ip now w = (Inr stored, w)"
    using Suc.prems by (simp add: enter_state)
  with Suc.prems Suc.IH [of "fl @ [\<lparr>po_ip = ip, po_password = password, po_stored = stored\<rparr>]"] show ?case
    by (simp add: passes_def)
qed simp

lemma burst_round:
  assumes "wb_password w = Some stored" and "fails_of ip (wb_fails w) = (c, 0)" and "c < 4" and "0 \<le> now" and "0 < n"
    and "wrong_password derive digest stored password"
  obtains w' where "compared n derive digest ip ((now, Posted ip password) # (now, Judged 0) # es) (w, []) = Suc (compared n derive digest ip es (w', []))"
    "wb_password w' = Some stored" "fails_of ip (wb_fails w') = (c + 1, 0)"
proof
  let ?w = "w\<lparr>wb_fails := record_login_failure ip now (wb_fails w)\<rparr>"
  have enter: "login_enter True ip now w = (Inr stored, w)"
    using assms by (simp add: enter_state)
  have judge: "login_judge derive digest ip now password stored w = (Wrong, ?w)"
    using assms(6) by (auto simp: login_judge_def wrong_password_def Let_def split: prod.split)
  show "compared n derive digest ip ((now, Posted ip password) # (now, Judged 0) # es) (w, []) = Suc (compared n derive digest ip es (?w, []))"
    using enter judge assms(5) by (simp add: passes_def)
  show "wb_password ?w = Some stored" "fails_of ip (wb_fails ?w) = (c + 1, 0)" using assms by simp_all
qed

lemma burst_compared:
  assumes "wb_password w = Some stored" and "fails_of ip (wb_fails w) = (0, 0)" and "0 \<le> now" and "0 < n"
    and "wrong_password derive digest stored password"
  shows "compared n derive digest ip (burst n ip now password) (w, []) = n + 4"
proof -
  let ?p = "(now, Posted ip password)" and ?j = "(now, Judged 0)"
  note round = burst_round [OF _ _ _ assms(3-5)]
  obtain w1 where 1: "compared n derive digest ip (burst n ip now password) (w, []) =
      Suc (compared n derive digest ip (concat (replicate 3 [?p, ?j]) @ replicate n ?p) (w1, []))" "wb_password w1 = Some stored" "fails_of ip (wb_fails w1) = (1, 0)"
    by (rule round [OF assms(1,2), of "concat (replicate 3 [?p, ?j]) @ replicate n ?p"]) (simp_all add: burst_def numeral_eq_Suc)
  obtain w2 where 2: "compared n derive digest ip (concat (replicate 3 [?p, ?j]) @ replicate n ?p) (w1, []) =
      Suc (compared n derive digest ip (concat (replicate 2 [?p, ?j]) @ replicate n ?p) (w2, []))" "wb_password w2 = Some stored" "fails_of ip (wb_fails w2) = (2, 0)"
    by (rule round [OF 1(2,3), of "concat (replicate 2 [?p, ?j]) @ replicate n ?p"]) (simp_all add: numeral_eq_Suc)
  obtain w3 where 3: "compared n derive digest ip (concat (replicate 2 [?p, ?j]) @ replicate n ?p) (w2, []) =
      Suc (compared n derive digest ip (concat (replicate 1 [?p, ?j]) @ replicate n ?p) (w3, []))" "wb_password w3 = Some stored" "fails_of ip (wb_fails w3) = (3, 0)"
    by (rule round [OF 2(2,3), of "concat (replicate 1 [?p, ?j]) @ replicate n ?p"]) (simp_all add: numeral_eq_Suc)
  obtain w4 where 4: "compared n derive digest ip (concat (replicate 1 [?p, ?j]) @ replicate n ?p) (w3, []) =
      Suc (compared n derive digest ip (replicate n ?p) (w4, []))" "wb_password w4 = Some stored" "fails_of ip (wb_fails w4) = (4, 0)"
    by (rule round [OF 3(2,3), of "replicate n ?p"]) (simp_all add: numeral_eq_Suc)
  have "compared n derive digest ip (replicate n ?p) (w4, []) = n"
    using 4(2,3) assms(3) by (intro burst_end) simp_all
  with 1(1) 2(1) 3(1) 4(1) show ?thesis by simp
qed

text \<open>C32: Guessing the password is slow, but not as slow as the limit says. In server mode with \<open>n\<close> threads (eight in the program), whatever
  wrong passwords one address posts between two times, whatever others post meanwhile and in whatever order the
  threads run, at most \<open>n + 4\<close> of its passwords, and \<open>n + 4\<close> more for every full 899 seconds, are compared with the stored one; the
  rest is refused. And \<open>n + 4\<close> are reached at once: after four failures a post on every thread passes the lock before the
  fifth failure is recorded. With one thread it is the five that the limit names. (The lock is 900
  seconds; in its last second, when the remaining whole seconds are 0, posts pass and the lock starts anew.)\<close>

theorem login_attempts_bounded:
  assumes "wb_password w = Some stored" and "wb_fails w ip = None" and "0 \<le> t" and "0 < n"
    and "sorted (t # map fst es)" and "\<forall>x\<in>set es. fst x \<le> till" and "\<forall>x\<in>set es. guesses derive digest stored ip (snd x)"
    and "wrong_password derive digest stored password"
  shows "compared n derive digest ip es (w, []) \<le> (n + 4) * (1 + nat \<lfloor>(till - t) / 899\<rfloor>) \<and>
    compared n derive digest ip (burst n ip t password) (w, []) = n + 4"
proof
  have none: "fails_of ip (wb_fails w) = (0, 0)"
    using assms(2) by (simp add: fails_of_def)
  have "guessing n derive digest stored ip t (w, [])"
    using assms(1) by (simp add: guessing_def none fails_ok_def)
  from compared_bounded [OF assms(5,6,3,7) this]
  show "compared n derive digest ip es (w, []) \<le> (n + 4) * (1 + nat \<lfloor>(till - t) / 899\<rfloor>)"
    by (simp add: open_to_def none allowance_def in_flight_def windows_def algebra_simps)
  show "compared n derive digest ip (burst n ip t password) (w, []) = n + 4"
    by (rule burst_compared [OF assms(1) none assms(3,4,8)])
qed

text \<open>The password set is the password asked for. After the password was set, logging in with it succeeds
  and gives back the same key, also after logging out, which takes the key and the cached clients
  out of memory; logging in with a password of another hash fails; and the password can
  be set only once, with at least twelve characters entered twice alike.\<close>

theorem setup_then_login:
  assumes "setup_page derive digest salt password confirm w = (Redirect_home, w1)"
  shows "12 \<le> length password \<and> confirm = password \<and>
    (wb_fails w1 ip = None \<and> 0 \<le> now \<longrightarrow>
       (\<exists>w2. login derive digest server ip now password (snd (logout w1)) = (Redirect_home, w2) \<and> wb_key w2 = wb_key w1 \<and> wb_session w2)) \<and>
    (digest (derive other salt) \<noteq> digest (derive password salt) \<longrightarrow> fst (login derive digest server ip now other w1) \<noteq> Redirect_home) \<and>
    wb_key (snd (logout w1)) = None \<and> wb_cached (snd (logout w1)) = {} \<and> setup_page derive digest salt' p c w1 = (Redirect_login, w1)"
  using assms
  by (auto simp: setup_page_def login_def login_enter_def login_judge_def logout_def Let_def login_lock_remaining_def fails_of_def min_password_len_def int_trunc_def
      split: if_splits option.splits prod.splits)

section \<open>Witnesses\<close>

definition demo_web :: "(nat, string, string) web" where
  "demo_web = \<lparr>wb_password = Some (''right'', 0), wb_key = None, wb_manager = True, wb_cached = {}, wb_fails = Map.empty, wb_session = False\<rparr>"

text \<open>On eight threads twelve passwords are compared in one second, two of them by these steps.\<close>

lemma login_attempts_witness:
  "compared 8 (\<lambda>p s. p) (\<lambda>k. k) ''ip'' [(10, Posted ''ip'' ''a''), (10, Posted ''other'' ''right''), (11, Judged 0), (11, Posted ''ip'' ''b'')] (demo_web, []) \<le> 12 \<and>
   compared 8 (\<lambda>p s. p) (\<lambda>k. k) ''ip'' (burst 8 ''ip'' 10 ''a'') (demo_web, []) = 12"
proof -
  have "\<lfloor>(11 - 10) / 899 :: rat\<rfloor> = 0" by (simp add: floor_eq_iff)
  moreover have "wb_password demo_web = Some (''right'', 0)" "wb_fails demo_web ''ip'' = None" by (simp_all add: demo_web_def)
  ultimately show ?thesis
    using login_attempts_bounded [of demo_web "(''right'', 0)" "''ip''" 10 8
        "[(10, Posted ''ip'' ''a''), (10, Posted ''other'' ''right''), (11, Judged 0), (11, Posted ''ip'' ''b'')]" 11 "\<lambda>p s. p" "\<lambda>k. k" "''a''"]
    by (simp add: wrong_password_def guesses_def)
qed

definition fresh_web :: "(nat, string, string) web" where
  "fresh_web = demo_web\<lparr>wb_password := None\<rparr>"

lemma setup_then_login_witness:
  "\<exists>w1 w2. setup_page (\<lambda>p s. p) (\<lambda>k. k) 0 ''twelve-bytes'' ''twelve-bytes'' fresh_web = (Redirect_home, w1) \<and>
     login (\<lambda>p s. p) (\<lambda>k. k) True ''ip'' 5 ''twelve-bytes'' (snd (logout w1)) = (Redirect_home, w2)"
proof -
  define w1 where "w1 = fresh_web\<lparr>wb_password := Some (''twelve-bytes'', 0), wb_key := Some ''twelve-bytes'', wb_manager := True, wb_session := True\<rparr>"
  have s: "setup_page (\<lambda>p s. p) (\<lambda>k. k) 0 ''twelve-bytes'' ''twelve-bytes'' fresh_web = (Redirect_home, w1)"
    unfolding w1_def setup_page_def min_password_len_def by (simp add: fresh_web_def demo_web_def Let_def)
  moreover have "wb_fails w1 ''ip'' = None"
    by (simp add: w1_def fresh_web_def demo_web_def)
  ultimately show ?thesis
    using setup_then_login [OF s, of "''ip''" 5 True] by fastforce
qed

end
