(* ===== verification/Holdings.thy ===== *)
theory Holdings
  imports Prelude
begin

text \<open>
  Positions as the data API reports them, what the placement reads off them
  (\<open>engine/positions.py\<close>), and the test for a resolution in progress
  (\<open>engine/resolution.py\<close>).
\<close>

record holding =
  hd_asset :: string
  hd_cid :: string
  hd_size :: "rat option"
  hd_cur :: "rat option"

definition held :: "holding \<Rightarrow> bool" where
  "held h \<longleftrightarrow> 0 < or0 (hd_size h)"

text \<open>One round of the loop of \<open>held_side_info\<close>: tokens held, and per market the value at the
current price and the shares.\<close>

definition held_step ::
    "holding \<Rightarrow> string set \<times> (string \<Rightarrow> rat option) \<times> (string \<Rightarrow> rat option) \<Rightarrow>
     string set \<times> (string \<Rightarrow> rat option) \<times> (string \<Rightarrow> rat option)" where
  "held_step h acc =
     (let (assets, val, shares) = acc; sz = or0 (hd_size h); cid = hd_cid h in
      if sz \<le> 0 then acc
      else
        let assets' = (if hd_asset h = '''' then assets else insert (hd_asset h) assets)
        in if cid = '''' then (assets', val, shares)
           else (assets', val(cid \<mapsto> or0 (val cid) + sz * or0 (hd_cur h)), shares(cid \<mapsto> or0 (shares cid) + sz)))"

definition held_side_info ::
    "holding list \<Rightarrow> string set \<times> (string \<Rightarrow> rat option) \<times> (string \<Rightarrow> rat option)" where
  "held_side_info ps = fold held_step ps ({}, Map.empty, Map.empty)"

text \<open>A non-empty status that is not only blanks.\<close>

definition in_resolution :: "string option \<Rightarrow> bool" where
  "in_resolution s = (case s of None \<Rightarrow> False | Some v \<Rightarrow> v \<noteq> '''' \<and> strip v \<noteq> '''')"

section \<open>Lemmas\<close>

lemma held_fold:
  "fold held_step ps (A, V, S) = (A', V', S') \<Longrightarrow>
   A' = A \<union> hd_asset ` set (filter (\<lambda>h. held h \<and> hd_asset h \<noteq> '''') ps) \<and>
   (c \<noteq> '''' \<longrightarrow> or0 (V' c) = or0 (V c) + sum_list (map (\<lambda>h. or0 (hd_size h) * or0 (hd_cur h)) (filter (\<lambda>h. held h \<and> hd_cid h = c) ps)) \<and>
    or0 (S' c) = or0 (S c) + sum_list (map (\<lambda>h. or0 (hd_size h)) (filter (\<lambda>h. held h \<and> hd_cid h = c) ps)))"
proof (induction ps arbitrary: A V S)
  case (Cons h ps)
  obtain A1 V1 S1 where step: "held_step h (A, V, S) = (A1, V1, S1)" using prod_cases3 by blast
  with Cons.prems have "fold held_step ps (A1, V1, S1) = (A', V', S')" by simp
  note ih = Cons.IH [OF this]
  show ?case
    using step ih by (auto simp: held_step_def held_def Let_def split: if_splits)
qed simp

text \<open>The fold as sums over the positions of a market.\<close>

lemma held_side_info_eq:
  assumes "held_side_info ps = (assets, val, shares)"
  shows "assets = hd_asset ` set (filter (\<lambda>h. held h \<and> hd_asset h \<noteq> '''') ps)"
    "c \<noteq> '''' \<Longrightarrow> or0 (val c) = sum_list (map (\<lambda>h. or0 (hd_size h) * or0 (hd_cur h)) (filter (\<lambda>h. held h \<and> hd_cid h = c) ps))"
    "c \<noteq> '''' \<Longrightarrow> or0 (shares c) = sum_list (map (\<lambda>h. or0 (hd_size h)) (filter (\<lambda>h. held h \<and> hd_cid h = c) ps))"
  using held_fold [of ps "{}" Map.empty Map.empty assets val shares] assms by (simp_all add: held_side_info_def)

end
