(* ===== verification/Json.thy ===== *)
theory Json
  imports Prelude
begin

text \<open>
  JSON values as Python sees them after \<open>json.loads\<close>, and the conversions \<open>int()\<close>,
  \<open>float()\<close> and \<open>bool()\<close> the engine applies to them, with the exception each one raises.
  Finite floats are exact rationals; the three special floats are kept because comparisons
  with them decide differently. Strings are ASCII; objects have distinct keys.
\<close>

section \<open>Values\<close>

datatype flt = Fin rat | PInf | NInf | NotANum

datatype json =
    J_null
  | J_bool bool
  | J_int int
  | J_float flt
  | J_str string
  | J_list "json list"
  | J_obj "(string \<times> json) list"

datatype pyerr = Type_error | Value_error | Overflow_error | Attribute_error

fun truthy :: "json \<Rightarrow> bool" where
  "truthy J_null = False"
| "truthy (J_bool b) = b"
| "truthy (J_int n) = (n \<noteq> 0)"
| "truthy (J_float x) = (x \<noteq> Fin 0)"
| "truthy (J_str s) = (s \<noteq> [])"
| "truthy (J_list xs) = (xs \<noteq> [])"
| "truthy (J_obj kvs) = (kvs \<noteq> [])"

text \<open>\<open>a or b\<close>.\<close>

definition or_else :: "json \<Rightarrow> json \<Rightarrow> json" where
  "or_else a b = (if truthy a then a else b)"

text \<open>\<open>d.get(k, default)\<close>; a value that is not a dict has no \<open>get\<close>.\<close>

fun get :: "json \<Rightarrow> string \<Rightarrow> json \<Rightarrow> pyerr + json" where
  "get (J_obj kvs) k d = Inr (case map_of kvs k of None \<Rightarrow> d | Some v \<Rightarrow> v)"
| "get _ k d = Inl Attribute_error"

definition bind :: "pyerr + 'a \<Rightarrow> ('a \<Rightarrow> pyerr + 'b) \<Rightarrow> pyerr + 'b" where
  "bind m f = (case m of Inl e \<Rightarrow> Inl e | Inr x \<Rightarrow> f x)"

lemma bind_simps [simp]: "bind (Inl e) f = Inl e" "bind (Inr x) f = f x"
  by (simp_all add: bind_def)

lemma bind_Inr_iff: "bind m f = Inr y \<longleftrightarrow> (\<exists>x. m = Inr x \<and> f x = Inr y)"
  by (cases m) simp_all

lemma bind_Inl_iff: "bind m f = Inl e \<longleftrightarrow> m = Inl e \<or> (\<exists>x. m = Inr x \<and> f x = Inl e)"
  by (cases m) simp_all

section \<open>Numerals in strings\<close>

definition digit :: "char \<Rightarrow> nat option" where
  "digit c = (let n = of_char c :: nat in if 48 \<le> n \<and> n \<le> 57 then Some (n - 48) else None)"

text \<open>Digits with single underscores between them: the value and the number of digits.\<close>

fun digits_from :: "nat \<Rightarrow> nat \<Rightarrow> bool \<Rightarrow> string \<Rightarrow> (nat \<times> nat) option" where
  "digits_from v n after [] = (if after then Some (v, n) else None)"
| "digits_from v n after (c # cs) =
     (case digit c of
        Some d \<Rightarrow> digits_from (10 * v + d) (n + 1) True cs
      | None \<Rightarrow> if c = CHR ''_'' \<and> after then digits_from v n False cs else None)"

definition digits :: "string \<Rightarrow> (nat \<times> nat) option" where
  "digits s = digits_from 0 0 False s"

definition signed :: "string \<Rightarrow> int \<times> string" where
  "signed s = (case s of [] \<Rightarrow> (1, s)
     | c # cs \<Rightarrow> if c = CHR ''-'' then (-1, cs) else if c = CHR ''+'' then (1, cs) else (1, s))"

definition parse_int :: "string \<Rightarrow> int option" where
  "parse_int s = (let (sg, t) = signed (strip s) in map_option (\<lambda>(v, n). sg * int v) (digits t))"

text \<open>The part before and, if there is one, the part after the first character that satisfies \<open>P\<close>.\<close>

definition cut :: "(char \<Rightarrow> bool) \<Rightarrow> string \<Rightarrow> string \<times> string option" where
  "cut P s = (let a = takeWhile (\<lambda>c. \<not> P c) s in
     (a, case drop (length a) s of [] \<Rightarrow> None | c # cs \<Rightarrow> Some cs))"

definition mantissa :: "string \<Rightarrow> rat option" where
  "mantissa s =
     (case cut (\<lambda>c. c = CHR ''.'') s of
        (a, None) \<Rightarrow> map_option (\<lambda>(v, n). of_nat v) (digits a)
      | (a, Some b) \<Rightarrow>
          if a = [] \<and> b = [] then None
          else (case (if a = [] then Some (0, 0) else digits a, if b = [] then Some (0, 0) else digits b) of
              (Some (v, n), Some (w, m)) \<Rightarrow> Some (of_nat v + of_nat w / 10 ^ m)
            | _ \<Rightarrow> None))"

definition exponent :: "string option \<Rightarrow> int option" where
  "exponent e = (case e of None \<Rightarrow> Some 0
     | Some t \<Rightarrow> (let (sg, u) = signed t in map_option (\<lambda>(v, n). sg * int v) (digits u)))"

text \<open>Values that round beyond the largest double.\<close>

definition too_large :: "rat \<Rightarrow> bool" where
  "too_large x \<longleftrightarrow> 2 ^ 1024 - 2 ^ 970 \<le> \<bar>x\<bar>"

definition to_flt :: "rat \<Rightarrow> flt" where
  "to_flt x = (if too_large x then if 0 < x then PInf else NInf else Fin x)"

definition parse_float :: "string \<Rightarrow> flt option" where
  "parse_float s =
     (let (sg, t) = signed (strip s) in
      if lower t \<in> {''inf'', ''infinity''} then Some (if sg = 1 then PInf else NInf)
      else if lower t = ''nan'' then Some NotANum
      else
        let (m, e) = cut (\<lambda>c. c = CHR ''e'' \<or> c = CHR ''E'') t in
        case (mantissa m, exponent e) of
          (Some x, Some k) \<Rightarrow>
            Some (to_flt (of_int sg * x * (if 0 \<le> k then 10 ^ nat k else 1 / 10 ^ nat (- k))))
        | _ \<Rightarrow> None)"

section \<open>Conversions\<close>

fun py_int :: "json \<Rightarrow> pyerr + int" where
  "py_int (J_bool b) = Inr (if b then 1 else 0)"
| "py_int (J_int n) = Inr n"
| "py_int (J_float (Fin x)) = Inr (int_trunc x)"
| "py_int (J_float NotANum) = Inl Value_error"
| "py_int (J_float _) = Inl Overflow_error"
| "py_int (J_str s) = (case parse_int s of None \<Rightarrow> Inl Value_error | Some n \<Rightarrow> Inr n)"
| "py_int _ = Inl Type_error"

fun py_float :: "json \<Rightarrow> pyerr + flt" where
  "py_float (J_bool b) = Inr (Fin (if b then 1 else 0))"
| "py_float (J_int n) = (if too_large (of_int n) then Inl Overflow_error else Inr (Fin (of_int n)))"
| "py_float (J_float (Fin x)) = Inr (to_flt x)"
| "py_float (J_float x) = Inr x"
| "py_float (J_str s) = (case parse_float s of None \<Rightarrow> Inl Value_error | Some x \<Rightarrow> Inr x)"
| "py_float _ = Inl Type_error"

text \<open>\<open>x < 0\<close>: false for NaN.\<close>

fun negative :: "flt \<Rightarrow> bool" where
  "negative (Fin x) = (x < 0)"
| "negative NInf = True"
| "negative _ = False"

lemma py_int_total_on_numbers: "py_int (J_int n) = Inr n" "py_int (J_bool b) = Inr (of_bool b)"
  by simp_all

definition normal_flt :: "flt \<Rightarrow> bool" where
  "normal_flt x = (case x of Fin y \<Rightarrow> \<not> too_large y | _ \<Rightarrow> True)"

lemma normal_to_flt [simp]: "normal_flt (to_flt x)"
  by (simp add: normal_flt_def to_flt_def)

lemma parse_float_normal: "parse_float s = Some x \<Longrightarrow> normal_flt x"
  by (auto simp: parse_float_def split_beta normal_flt_def split: if_splits option.splits)
    (auto simp: to_flt_def split: if_splits)

lemma py_float_normal: "py_float v = Inr x \<Longrightarrow> normal_flt x"
  by (cases v rule: py_float.cases)
    (auto simp: normal_flt_def too_large_def dest: parse_float_normal split: if_splits option.splits flt.splits,
     auto simp: to_flt_def too_large_def normal_flt_def dest: parse_float_normal split: if_splits)

lemma py_float_again [simp]: "normal_flt x \<Longrightarrow> py_float (J_float x) = Inr x"
  by (cases x) (simp_all add: normal_flt_def to_flt_def)

lemma py_float_overflow: "py_float v = Inl Overflow_error \<longleftrightarrow> (\<exists>n. v = J_int n \<and> too_large (of_int n))"
  by (cases v rule: py_float.cases) (auto split: option.split)

lemma to_flt_small [simp]: "\<not> too_large x \<Longrightarrow> to_flt x = Fin x"
  by (simp add: to_flt_def)

end
