(* ===== verification/Tiers.thy ===== *)
theory Tiers
  imports Json
begin

text \<open>
  The size modules of a template (\<open>engine/tiers.py\<close>): which sizes are enabled, the module
  of a market, and the validation of the list the settings page sends. A conversion error
  the code does not catch is the outcome \<open>Raised\<close>.
\<close>

section \<open>Look-up\<close>

text \<open>Errors the loops of \<open>enabled_sizes\<close> and \<open>tier_for\<close> skip over.\<close>

definition caught :: "pyerr \<Rightarrow> bool" where
  "caught e \<longleftrightarrow> e \<noteq> Overflow_error"

definition enabled_size :: "json \<Rightarrow> pyerr + int option" where
  "enabled_size t = bind (get t ''enabled'' (J_bool False)) (\<lambda>on.
     if truthy on then bind (get t ''size'' J_null) (\<lambda>v. map_sum id Some (py_int v)) else Inr None)"

fun enabled_sizes :: "json list \<Rightarrow> pyerr + int set" where
  "enabled_sizes [] = Inr {}"
| "enabled_sizes (t # ts) =
     (case enabled_size t of
        Inl e \<Rightarrow> if caught e then enabled_sizes ts else Inl e
      | Inr None \<Rightarrow> enabled_sizes ts
      | Inr (Some n) \<Rightarrow> map_sum id (insert n) (enabled_sizes ts))"

definition tier_matches :: "int \<Rightarrow> json \<Rightarrow> pyerr + bool" where
  "tier_matches ms t = bind (get t ''enabled'' (J_bool False)) (\<lambda>on.
     if truthy on then bind (get t ''size'' (J_int (-1))) (\<lambda>v. map_sum id (\<lambda>n. n = ms) (py_int v))
     else Inr False)"

fun first_tier :: "int \<Rightarrow> json list \<Rightarrow> pyerr + json option" where
  "first_tier ms [] = Inr None"
| "first_tier ms (t # ts) =
     (case tier_matches ms t of
        Inl e \<Rightarrow> if caught e then first_tier ms ts else Inl e
      | Inr True \<Rightarrow> Inr (Some t)
      | Inr False \<Rightarrow> first_tier ms ts)"

definition tier_for :: "json list \<Rightarrow> json \<Rightarrow> pyerr + json option" where
  "tier_for ts min_size =
     (case py_int min_size of
        Inl e \<Rightarrow> if e = Overflow_error then Inl e else Inr None
      | Inr ms \<Rightarrow> first_tier ms ts)"

section \<open>Validation\<close>

definition coeff_keys :: "string list" where
  "coeff_keys = [''rule1_min_coeff'', ''rule2_min_coeff'', ''rule3_min_coeff'', ''gap_high_coeff_sum_min'',
     ''rule2_high_coeff_sum_min'', ''rule3_high_coeff_sum_min'']"

text \<open>What the messages say; positions count from 1.\<close>

datatype tier_error =
    Not_a_list
  | Not_an_object nat
  | Not_whole nat
  | Not_positive nat
  | Repeated int
  | Too_few_shares int int
  | Bad_coeff int string
  | Negative_coeff int string
  | Bad_table int

datatype 'a outcome = Raised pyerr | Refused tier_error | Accepted 'a

text \<open>Reading \<open>size\<close> and \<open>shares\<close>: every conversion error here is caught.\<close>

definition whole :: "json \<Rightarrow> pyerr + int option" where
  "whole v = bind (py_int v) (\<lambda>n. bind (py_float v) (\<lambda>x. Inr (if x = Fin (of_int n) then Some n else None)))"

definition size_and_shares :: "(string \<times> json) list \<Rightarrow> (int \<times> int) option" where
  "size_and_shares t =
     (let field = (\<lambda>k. case map_of t k of None \<Rightarrow> J_null | Some v \<Rightarrow> v) in
      case (whole (field ''size''), whole (field ''shares'')) of
        (Inr (Some s), Inr (Some n)) \<Rightarrow> Some (s, n)
      | _ \<Rightarrow> None)"

fun coefficients :: "int \<Rightarrow> (string \<times> json) list \<Rightarrow> string list \<Rightarrow> (string \<times> json) list outcome" where
  "coefficients sz t [] = Accepted []"
| "coefficients sz t (k # ks) =
     (case py_float (or_else (case map_of t k of None \<Rightarrow> J_int 0 | Some v \<Rightarrow> v) (J_int 0)) of
        Inl e \<Rightarrow> if e = Overflow_error then Raised e else Refused (Bad_coeff sz k)
      | Inr x \<Rightarrow>
          if negative x then Refused (Negative_coeff sz k)
          else (case coefficients sz t ks of Accepted kvs \<Rightarrow> Accepted ((k, J_float x) # kvs) | bad \<Rightarrow> bad))"

definition normal_tier :: "nat \<Rightarrow> int set \<Rightarrow> json \<Rightarrow> (int \<times> json) outcome" where
  "normal_tier i seen t =
     (case t of
        J_obj kvs \<Rightarrow>
          (case size_and_shares kvs of
             None \<Rightarrow> Refused (Not_whole i)
           | Some (sz, shares) \<Rightarrow>
               if sz \<le> 0 then Refused (Not_positive i)
               else if sz \<in> seen then Refused (Repeated sz)
               else if shares < sz then Refused (Too_few_shares sz shares)
               else
                 let enabled = truthy (case map_of kvs ''enabled'' of None \<Rightarrow> J_bool True | Some v \<Rightarrow> v) in
                 (case coefficients sz kvs coeff_keys of
                    Accepted cs \<Rightarrow>
                      (case or_else (case map_of kvs ''amount_value_table'' of None \<Rightarrow> J_null | Some v \<Rightarrow> v) (J_list []) of
                         J_list rows \<Rightarrow> Accepted (sz, J_obj ([(''size'', J_int sz), (''enabled'', J_bool enabled),
                           (''shares'', J_int shares)] @ cs @ [(''amount_value_table'', J_list rows)]))
                       | _ \<Rightarrow> Refused (Bad_table sz))
                  | Refused e \<Rightarrow> Refused e
                  | Raised e \<Rightarrow> Raised e))
      | _ \<Rightarrow> Refused (Not_an_object i))"

fun normal_tiers :: "nat \<Rightarrow> int set \<Rightarrow> json list \<Rightarrow> json list outcome" where
  "normal_tiers i seen [] = Accepted []"
| "normal_tiers i seen (t # ts) =
     (case normal_tier i seen t of
        Accepted (sz, u) \<Rightarrow>
          (case normal_tiers (i + 1) (insert sz seen) ts of Accepted us \<Rightarrow> Accepted (u # us) | bad \<Rightarrow> bad)
      | Refused e \<Rightarrow> Refused e
      | Raised e \<Rightarrow> Raised e)"

definition validate_size_tiers :: "json \<Rightarrow> json list outcome" where
  "validate_size_tiers raw =
     (case raw of J_list ts \<Rightarrow> normal_tiers 1 {} ts | _ \<Rightarrow> Refused Not_a_list)"

section \<open>Scanner and placement agree on the sizes\<close>

lemma tier_matches_enabled_size:
  assumes "0 \<le> ms" "\<forall>e. enabled_size t = Inl e \<longrightarrow> caught e"
  shows "case tier_matches ms t of Inl e \<Rightarrow> caught e \<and> enabled_size t \<noteq> Inr (Some ms)
    | Inr b \<Rightarrow> b \<longleftrightarrow> enabled_size t = Inr (Some ms)"
proof (cases "get t ''enabled'' (J_bool False)")
  case (Inl e)
  then show ?thesis using assms(2) by (auto simp: enabled_size_def tier_matches_def)
next
  case (Inr on)
  then obtain kvs where t: "t = J_obj kvs" by (cases t) auto
  show ?thesis
  proof (cases "truthy on")
    case True
    then show ?thesis using assms Inr unfolding t
      by (cases "map_of kvs ''size''"; cases "py_int (the (map_of kvs ''size''))")
        (auto simp: enabled_size_def tier_matches_def)
  qed (use Inr in \<open>simp add: enabled_size_def tier_matches_def\<close>)
qed

lemma tier_for_enabled:
  assumes "enabled_sizes ts = Inr S" "0 \<le> ms"
  shows "\<exists>r. first_tier ms ts = Inr r \<and> (r \<noteq> None \<longleftrightarrow> ms \<in> S)"
  using assms(1)
proof (induction ts arbitrary: S)
  case (Cons t ts)
  have caught: "\<forall>e. enabled_size t = Inl e \<longrightarrow> caught e" using Cons.prems by (auto split: if_splits)
  note m = tier_matches_enabled_size [OF assms(2) caught]
  consider (err) e where "enabled_size t = Inl e" | (off) "enabled_size t = Inr None" | (on) n where "enabled_size t = Inr (Some n)"
    by (cases "enabled_size t") auto
  then show ?case
  proof cases
    case err
    with Cons.prems caught have "enabled_sizes ts = Inr S" by simp
    from Cons.IH [OF this] err m show ?thesis by (auto split: sum.splits)
  next
    case off
    with Cons.prems have "enabled_sizes ts = Inr S" by simp
    from Cons.IH [OF this] off m show ?thesis by (auto split: sum.splits)
  next
    case on
    with Cons.prems obtain S' where S': "enabled_sizes ts = Inr S'" "S = insert n S'"
      by (cases "enabled_sizes ts") auto
    from Cons.IH [OF S'(1)] on m S'(2) show ?thesis by (auto split: sum.splits bool.split)
  qed
qed simp

text \<open>The scanner filters markets by \<open>enabled_sizes\<close>, the placement looks the module up again with
\<open>tier_for\<close>. On every stored list, malformed entries included, the two agree: a market whose
minimal size is a non-negative integer has a module exactly when its size is in the set,
and the look-up does not raise when the set could be computed.\<close>

theorem tier_for_agrees_with_enabled_sizes:
  assumes "enabled_sizes ts = Inr S" "0 \<le> ms"
  shows "\<exists>r. tier_for ts (J_int ms) = Inr r \<and> (r \<noteq> None \<longleftrightarrow> ms \<in> S)"
  using tier_for_enabled [OF assms] by (simp add: tier_for_def)

text \<open>A number as text, a missing size and an entry that is not an object.\<close>

definition demo_tiers :: "json list" where
  "demo_tiers = [J_obj [(''enabled'', J_bool True)], J_int 3,
     J_obj [(''enabled'', J_bool True), (''size'', J_str '' 5_0 ''), (''shares'', J_int 60)],
     J_obj [(''enabled'', J_bool False), (''size'', J_int 20)]]"

lemma demo_tiers_sizes: "enabled_sizes demo_tiers = Inr {50}"
  by code_simp

lemma tier_for_witness: "\<exists>r. tier_for demo_tiers (J_int 50) = Inr r \<and> r \<noteq> None"
  using tier_for_agrees_with_enabled_sizes [OF demo_tiers_sizes, of 50] by auto

section \<open>Validated lists\<close>

text \<open>What a validated module looks like.\<close>

definition good_coeff :: "(string \<times> json) list \<Rightarrow> string \<Rightarrow> bool" where
  "good_coeff kvs k \<longleftrightarrow> (\<exists>x. map_of kvs k = Some (J_float x) \<and> \<not> negative x \<and> normal_flt x)"

definition good_tier :: "int \<Rightarrow> json \<Rightarrow> bool" where
  "good_tier sz t \<longleftrightarrow> (\<exists>on shares cs rows. t = J_obj ([(''size'', J_int sz), (''enabled'', J_bool on),
       (''shares'', J_int shares)] @ cs @ [(''amount_value_table'', J_list rows)]) \<and>
     map fst cs = coeff_keys \<and> list_all (good_coeff cs) coeff_keys \<and> 0 < sz \<and> sz \<le> shares \<and>
     \<not> too_large (of_int sz) \<and> \<not> too_large (of_int shares))"

lemma coefficients_Accepted:
  "coefficients sz t ks = Accepted cs \<Longrightarrow> distinct ks \<Longrightarrow> map fst cs = ks \<and> list_all (good_coeff cs) ks"
proof (induction ks arbitrary: cs)
  case (Cons k ks)
  from Cons.prems obtain x kvs where x: "cs = (k, J_float x) # kvs" "\<not> negative x" "normal_flt x"
    "coefficients sz t ks = Accepted kvs"
    by (auto split: sum.splits if_splits outcome.splits dest: py_float_normal)
  with Cons show ?case by (auto simp: good_coeff_def list_all_iff)
qed simp

lemma whole_Some: "whole v = Inr (Some n) \<Longrightarrow> \<not> too_large (of_int n)"
  using py_float_normal [of v "Fin (of_int n)"]
  by (auto simp: whole_def bind_Inr_iff normal_flt_def split: if_splits)

lemma normal_tier_good:
  assumes "normal_tier i seen t = Accepted (sz, u)"
  shows "good_tier sz u \<and> sz \<notin> seen"
proof -
  from assms obtain kvs shares on cs rows where u: "size_and_shares kvs = Some (sz, shares)" "0 < sz" "sz \<notin> seen" "sz \<le> shares"
    "coefficients sz kvs coeff_keys = Accepted cs" "u = J_obj ([(''size'', J_int sz), (''enabled'', J_bool on),
       (''shares'', J_int shares)] @ cs @ [(''amount_value_table'', J_list rows)])"
    by (auto simp: normal_tier_def Let_def not_less not_le split: json.splits option.splits if_splits outcome.splits)
  from u(1) have "\<not> too_large (of_int sz)" "\<not> too_large (of_int shares)"
    by (auto simp: size_and_shares_def Let_def dest: whole_Some split: sum.splits option.splits)
  with u coefficients_Accepted [OF u(5)] show ?thesis by (auto simp: good_tier_def coeff_keys_def)
qed

lemma normal_tiers_good:
  "normal_tiers i seen ts = Accepted us \<Longrightarrow> \<exists>szs. list_all2 good_tier szs us \<and> distinct szs \<and> set szs \<inter> seen = {}"
proof (induction ts arbitrary: i seen us)
  case (Cons t ts)
  then obtain sz u vs where u: "normal_tier i seen t = Accepted (sz, u)" "us = u # vs"
    "normal_tiers (i + 1) (insert sz seen) ts = Accepted vs"
    by (auto split: outcome.splits)
  from Cons.IH [OF u(3)] normal_tier_good [OF u(1)] u(2) obtain szs
    where "list_all2 good_tier (sz # szs) us" "distinct (sz # szs)" "set (sz # szs) \<inter> seen = {}" by auto
  then show ?case by blast
qed simp

lemma coefficients_again:
  assumes "list_all (good_coeff kvs) ks"
  shows "coefficients sz kvs ks = Accepted (map (\<lambda>k. (k, the (map_of kvs k))) ks)"
  using assms
proof (induction ks)
  case (Cons k ks)
  then obtain x where x: "map_of kvs k = Some (J_float x)" "\<not> negative x" "normal_flt x" by (auto simp: good_coeff_def)
  then show ?case using Cons by (cases "x = Fin 0") (auto simp: or_else_def too_large_def)
qed simp

lemma map_of_keys: "distinct (map fst cs) \<Longrightarrow> map (\<lambda>k. (k, the (map_of cs k))) (map fst cs) = cs"
proof -
  assume d: "distinct (map fst cs)"
  have "(fst kv, the (map_of cs (fst kv))) = kv" if "kv \<in> set cs" for kv
    using map_of_is_SomeI [OF d, of "fst kv" "snd kv"] that by simp
  then show ?thesis by (simp add: map_idI)
qed

lemma whole_again: "\<not> too_large (of_int n) \<Longrightarrow> whole (J_int n) = Inr (Some n)"
  by (simp add: whole_def)

lemma normal_tier_again:
  assumes "good_tier sz u" "sz \<notin> seen"
  shows "normal_tier i seen u = Accepted (sz, u)"
proof -
  from assms(1) obtain on shares cs rows where u: "u = J_obj ([(''size'', J_int sz), (''enabled'', J_bool on),
       (''shares'', J_int shares)] @ cs @ [(''amount_value_table'', J_list rows)])"
    and cs: "map fst cs = coeff_keys" "list_all (good_coeff cs) coeff_keys"
    and sz: "0 < sz" "sz \<le> shares" "\<not> too_large (of_int sz)" "\<not> too_large (of_int shares)"
    by (auto simp: good_tier_def)
  let ?kvs = "[(''size'', J_int sz), (''enabled'', J_bool on), (''shares'', J_int shares)] @ cs @ [(''amount_value_table'', J_list rows)]"
  have look: "map_of ?kvs k = map_of cs k" if "k \<in> set coeff_keys" for k
  proof -
    from that cs(1) have "k \<in> fst ` set cs" by (metis set_map)
    then obtain v where "map_of cs k = Some v" by (metis map_of_eq_None_iff not_None_eq)
    with that show ?thesis by (auto simp: coeff_keys_def map_add_def)
  qed
  have "list_all (good_coeff ?kvs) coeff_keys" using cs(2) look by (simp add: list_all_iff good_coeff_def)
  then have "coefficients sz ?kvs coeff_keys = Accepted (map (\<lambda>k. (k, the (map_of ?kvs k))) coeff_keys)"
    by (rule coefficients_again)
  also have "map (\<lambda>k. (k, the (map_of ?kvs k))) coeff_keys = map (\<lambda>k. (k, the (map_of cs k))) coeff_keys"
    using look by (intro map_cong) simp_all
  also have "\<dots> = cs" using map_of_keys [of cs] cs(1) by (simp add: coeff_keys_def)
  finally have c: "coefficients sz ?kvs coeff_keys = Accepted cs" .
  have "map_of cs ''amount_value_table'' = None" "map_of cs ''size'' = None"
    using cs(1) by (simp_all add: map_of_eq_None_iff coeff_keys_def flip: set_map)
  then have t: "map_of ?kvs ''amount_value_table'' = Some (J_list rows)" by (simp add: map_add_def)
  have s: "size_and_shares ?kvs = Some (sz, shares)"
    using sz by (simp add: size_and_shares_def whole_again)
  show ?thesis
    unfolding normal_tier_def u json.case s option.case t c outcome.case Let_def prod.case
    using assms(2) sz by (cases rows) (simp_all add: or_else_def)
qed

lemma normal_tiers_again:
  "list_all2 good_tier szs us \<Longrightarrow> distinct szs \<Longrightarrow> set szs \<inter> seen = {} \<Longrightarrow> normal_tiers i seen us = Accepted us"
proof (induction szs us arbitrary: i seen rule: list_all2_induct)
  case (Cons sz szs u us)
  then show ?case using normal_tier_again [of sz u seen i] by simp
qed simp

text \<open>Validation normalises: when it accepts a list, every module of the result has a positive size
of its own, at least that many shares, and all six coefficients, none of them negative; and
validating the stored list again returns it unchanged.\<close>

theorem validate_size_tiers_normalises:
  assumes "validate_size_tiers raw = Accepted us"
  shows "(\<exists>szs. list_all2 good_tier szs us \<and> distinct szs) \<and> validate_size_tiers (J_list us) = Accepted us"
proof -
  from assms obtain ts where "normal_tiers 1 {} ts = Accepted us"
    by (auto simp: validate_size_tiers_def split: json.splits)
  from normal_tiers_good [OF this] obtain szs where "list_all2 good_tier szs us" "distinct szs" by blast
  with normal_tiers_again [of szs us "{}" 1] show ?thesis by (auto simp: validate_size_tiers_def)
qed

definition demo_raw :: json where
  "demo_raw = J_list [J_obj [(''shares'', J_str ''60''), (''size'', J_float (Fin 50)), (''rule1_min_coeff'', J_str ''1.5e1'')]]"

definition demo_stored :: "json list" where
  "demo_stored = [J_obj [(''size'', J_int 50), (''enabled'', J_bool True), (''shares'', J_int 60),
     (''rule1_min_coeff'', J_float (Fin 15)), (''rule2_min_coeff'', J_float (Fin 0)), (''rule3_min_coeff'', J_float (Fin 0)),
     (''gap_high_coeff_sum_min'', J_float (Fin 0)), (''rule2_high_coeff_sum_min'', J_float (Fin 0)),
     (''rule3_high_coeff_sum_min'', J_float (Fin 0)), (''amount_value_table'', J_list [])]]"

lemma demo_numerals: "parse_int ''60'' = Some 60" "parse_float ''60'' = Some (Fin 60)" "parse_float ''1.5e1'' = Some (Fin 15)"
  by (simp_all add: parse_int_def parse_float_def signed_def strip_def is_space_def digits_def digit_def lower_def
      lower_char_def cut_def mantissa_def exponent_def to_flt_def too_large_def)

lemma validate_witness:
  "validate_size_tiers demo_raw = Accepted demo_stored \<and> validate_size_tiers (J_list demo_stored) = Accepted demo_stored"
proof -
  have "validate_size_tiers demo_raw = Accepted demo_stored"
    by (simp add: validate_size_tiers_def demo_raw_def demo_stored_def normal_tier_def size_and_shares_def whole_def
        coeff_keys_def or_else_def to_flt_def too_large_def demo_numerals int_trunc_def)
  with validate_size_tiers_normalises [OF this] show ?thesis by simp
qed

section \<open>When validation raises\<close>

lemma coefficients_Raised:
  "coefficients sz t ks = Raised e \<Longrightarrow>
   e = Overflow_error \<and> (\<exists>k \<in> set ks. \<exists>n. map_of t k = Some (J_int n) \<and> too_large (of_int n))"
proof (induction ks)
  case (Cons k ks)
  let ?v = "or_else (case map_of t k of None \<Rightarrow> J_int 0 | Some v \<Rightarrow> v) (J_int 0)"
  show ?case
  proof (cases "py_float ?v")
    case (Inl e')
    with Cons.prems have e: "e' = Overflow_error" "e = Overflow_error" by (simp_all split: if_splits)
    with Inl py_float_overflow [of ?v] obtain n where "?v = J_int n" "too_large (of_int n)" by auto
    then have "map_of t k = Some (J_int n)"
      by (auto simp: or_else_def too_large_def split: option.splits if_splits)
    with e \<open>too_large (of_int n)\<close> show ?thesis by auto
  next
    case (Inr x)
    with Cons show ?thesis by (auto split: if_splits outcome.splits)
  qed
qed simp

lemma normal_tiers_Raised:
  "normal_tiers i seen ts = Raised e \<Longrightarrow> e = Overflow_error \<and> (\<exists>kvs k n. J_obj kvs \<in> set ts \<and> k \<in> set coeff_keys \<and>
     map_of kvs k = Some (J_int n) \<and> too_large (of_int n))"
proof (induction ts arbitrary: i seen)
  case (Cons t ts)
  show ?case
  proof (cases "normal_tier i seen t")
    case (Raised e')
    with Cons.prems obtain kvs sz where "t = J_obj kvs" "coefficients sz kvs coeff_keys = Raised e"
      by (auto simp: normal_tier_def Let_def split: json.splits option.splits if_splits outcome.splits)
    with coefficients_Raised [OF this(2)] show ?thesis by auto
  next
    case (Accepted r)
    then obtain sz u where r: "normal_tier i seen t = Accepted (sz, u)" by (cases r) auto
    with Cons.prems have "normal_tiers (i + 1) (insert sz seen) ts = Raised e" by (simp split: outcome.splits)
    from Cons.IH [OF this] show ?thesis by auto
  qed (use Cons.prems in simp)
qed simp

text \<open>Validation answers every JSON value with a list or an error text, except that a coefficient which
is an integer beyond the range of a float raises: \<open>OverflowError\<close> is caught for size and
shares and not for the coefficients.\<close>

theorem validate_raises_only_on_huge_coefficients:
  "case validate_size_tiers raw of
     Raised e \<Rightarrow> e = Overflow_error \<and> (\<exists>ts kvs k n. raw = J_list ts \<and> J_obj kvs \<in> set ts \<and> k \<in> set coeff_keys \<and>
       map_of kvs k = Some (J_int n) \<and> too_large (of_int n))
   | _ \<Rightarrow> True"
proof (cases "validate_size_tiers raw")
  case (Raised e)
  then obtain ts where "raw = J_list ts" "normal_tiers 1 {} ts = Raised e"
    by (auto simp: validate_size_tiers_def split: json.splits)
  with normal_tiers_Raised [OF this(2)] Raised show ?thesis by auto
qed simp_all

lemma huge_coefficient_raises:
  "validate_size_tiers (J_list [J_obj [(''shares'', J_int 60), (''size'', J_int 50), (''rule1_min_coeff'', J_int (10 ^ 400))]])
   = Raised Overflow_error"
  by (simp add: validate_size_tiers_def normal_tier_def size_and_shares_def whole_def
        coeff_keys_def or_else_def to_flt_def too_large_def)

end
