(* ===== verification/Compliance.thy ===== *)
theory Compliance
  imports Laddering
begin

text \<open>
  Step 3 of the order monitor (\<open>engine/monitor.py\<close>): every resting buy order is checked
  against the blacklist, the spread, the daily reward, the price band, the reward band, the
  cliff and the largest gap, in this order, and cancelled at the first check it fails. The
  rewards come through a cache with a time to live. Also here: \<open>engine/eligibility.py\<close>,
  \<open>engine/rewards.py\<close>, \<open>engine/strategy.py\<close>. Numbers of an order are read when they are
  numbers or missing; the texts of status rows are constructors.
\<close>

section \<open>Rewards of a market\<close>

text \<open>One item of the rewards response (None when it is not an object): its
\<open>rewards_max_spread\<close> and the \<open>rate_per_day\<close> of its \<open>rewards_config\<close> entries.\<close>

record reward_item =
  ri_max_spread :: jnum
  ri_rates :: "jnum option list"

fun extract_max_spread :: "reward_item option list \<Rightarrow> rat option" where
  "extract_max_spread [] = None"
| "extract_max_spread (None # its) = extract_max_spread its"
| "extract_max_spread (Some it # its) =
     (case ri_max_spread it of JNum v \<Rightarrow> Some v | _ \<Rightarrow> extract_max_spread its)"

text \<open>The accumulators are \<open>total\<close> and \<open>found\<close>.\<close>

fun add_rates :: "jnum option list \<Rightarrow> rat \<times> bool \<Rightarrow> rat \<times> bool" where
  "add_rates [] acc = acc"
| "add_rates (Some (JNum v) # rs) acc = add_rates rs (fst acc + v, True)"
| "add_rates (_ # rs) acc = add_rates rs acc"

definition extract_daily_rate :: "reward_item option list \<Rightarrow> rat option" where
  "extract_daily_rate its =
     (let (sum, found) = fold (\<lambda>it acc. case it of None \<Rightarrow> acc | Some i \<Rightarrow> add_rates (ri_rates i) acc) its (0, False)
      in if found then Some sum else None)"

text \<open>What is known of a market: its maximal spread in cents and its daily reward.\<close>

type_synonym reward_pair = "rat option \<times> rat option"
type_synonym reward_cache = "string \<Rightarrow> (reward_pair \<times> rat) option"

text \<open>\<open>_market_rewards\<close>; the response is None when fetching or parsing raised.\<close>

definition market_rewards ::
    "rat \<Rightarrow> rat \<Rightarrow> (string \<Rightarrow> reward_item option list option) \<Rightarrow> string \<Rightarrow> reward_cache \<Rightarrow>
     reward_pair \<times> reward_cache" where
  "market_rewards now ttl response cid cache =
     (if cid = '''' then ((None, None), cache)
      else
        let fetch = (case response cid of
              None \<Rightarrow> ((None, None), cache)
            | Some items \<Rightarrow>
                let pair = (extract_max_spread items, extract_daily_rate items)
                in if fst pair = None then (pair, cache) else (pair, cache(cid \<mapsto> (pair, now))))
        in case cache cid of
             None \<Rightarrow> fetch
           | Some (pair, t) \<Rightarrow> if now - t < ttl then (pair, cache) else fetch)"

section \<open>Books, settings and the record of what was done\<close>

record book =
  bk_bids :: "lvl list"
  bk_asks :: "lvl list"

text \<open>The settings of the template; a missing key is None, and \<open>pl_cliff\<close> tells a missing key
from a stored null.\<close>

record policy =
  pl_max_spread :: "rat option"
  pl_min_reward :: "rat option"
  pl_min_price :: "rat option"
  pl_max_price :: "rat option"
  pl_cliff :: "rat option option"
  pl_gap_veto :: "rat option"

datatype act =
    A_blacklist | A_spread | A_reward | A_price_band | A_out_of_band | A_cliff | A_gap

datatype stage =
    S_cancelled act | S_empty_book | S_no_max_spread | S_keep | S_sell | S_partial

datatype cevent =
    Cancelled "string option"
  | Cancel_failed "string option"
  | Recorded string act int
  | Status string stage
  | Reward_written string rat

definition order_size :: "order \<Rightarrow> int" where
  "order_size x = int_trunc (or0 (o_original x))"

text \<open>Cancel the order; when that fails nothing is recorded, otherwise the action and a status
row are written.\<close>

definition cancel_and_record :: "(string option \<Rightarrow> bool) \<Rightarrow> order \<Rightarrow> act \<Rightarrow> cevent list \<Rightarrow> cevent list" where
  "cancel_and_record ok x a extra =
     (if ok (o_id x)
      then [Cancelled (o_id x), Recorded (o_market x) a (order_size x), Status (o_market x) (S_cancelled a)] @ extra
      else [Cancel_failed (o_id x)])"

section \<open>The checks\<close>

definition recheck_resting_buy :: "rat option \<Rightarrow> policy \<Rightarrow> bool" where
  "recheck_resting_buy spread pl =
     (case (spread, pl_max_spread pl) of (Some s, Some m) \<Rightarrow> m \<le> s | _ \<Rightarrow> False)"

definition reward_price_range :: "rat \<Rightarrow> rat \<Rightarrow> rat \<times> rat" where
  "reward_price_range midpoint max_spread_cents =
     (let d = max_spread_cents / 100 in (midpoint - d, midpoint + d))"

definition best_bid :: "book \<Rightarrow> rat option" where
  "best_bid b = (case sort_desc lv_price (bk_bids b) of [] \<Rightarrow> None | l # ls \<Rightarrow> Some (lv_price l))"

definition best_ask :: "book \<Rightarrow> rat option" where
  "best_ask b = (case sort_key lv_price (bk_asks b) of [] \<Rightarrow> None | l # ls \<Rightarrow> Some (lv_price l))"

definition spread_cents :: "book \<Rightarrow> rat option" where
  "spread_cents b = (case (best_bid b, best_ask b) of (Some x, Some y) \<Rightarrow> Some ((y - x) * 100) | _ \<Rightarrow> None)"

definition reward_low :: "rat option \<Rightarrow> policy \<Rightarrow> bool" where
  "reward_low rate pl = (case rate of None \<Rightarrow> False | Some r \<Rightarrow> r < or0 (pl_min_reward pl))"

definition price_band_hit :: "policy \<Rightarrow> rat \<Rightarrow> bool" where
  "price_band_hit pl p \<longleftrightarrow>
     p * 100 < (case pl_min_price pl of None \<Rightarrow> 0 | Some c \<Rightarrow> c) \<or>
     (case pl_max_price pl of None \<Rightarrow> 100 | Some c \<Rightarrow> c) < p * 100"

definition cliff_cents :: "policy \<Rightarrow> rat" where
  "cliff_cents pl = (case pl_cliff pl of None \<Rightarrow> 2 | Some v \<Rightarrow> or0 v)"

definition gap_hit :: "policy \<Rightarrow> lvl list \<Rightarrow> bool" where
  "gap_hit pl bids \<longleftrightarrow> (let veto = or0 (pl_gap_veto pl);
      mg = (if 0 < veto then max_gap_cents bids else 0) in 0 < veto \<and> veto < mg)"

text \<open>The checks that need a complete book and the width of the reward band: None keeps the
order.\<close>

definition band_verdict :: "policy \<Rightarrow> lvl list \<Rightarrow> rat \<Rightarrow> rat \<Rightarrow> rat \<Rightarrow> act option" where
  "band_verdict pl bids midpoint max_spread p =
     (let (rmin, rmax) = reward_price_range midpoint max_spread in
      if price_band_hit pl p then Some A_price_band
      else if \<not> (rmin \<le> p \<and> p \<le> rmax) then Some A_out_of_band
      else if has_cliff_below bids rmin (Some (cliff_cents pl)) then Some A_cliff
      else if gap_hit pl bids then Some A_gap
      else None)"

section \<open>One resting buy order\<close>

definition blacklist_stage :: "(string option \<Rightarrow> bool) \<Rightarrow> string set \<Rightarrow> order \<Rightarrow> cevent list option" where
  "blacklist_stage ok blacklist x =
     (if o_market x \<in> blacklist then Some (cancel_and_record ok x A_blacklist []) else None)"

definition spread_stage :: "(string option \<Rightarrow> bool) \<Rightarrow> policy \<Rightarrow> book \<Rightarrow> order \<Rightarrow> cevent list option" where
  "spread_stage ok pl b x =
     (if recheck_resting_buy (spread_cents b) pl then Some (cancel_and_record ok x A_spread []) else None)"

definition reward_stage ::
    "(string option \<Rightarrow> bool) \<Rightarrow> policy \<Rightarrow> rat option \<Rightarrow> order \<Rightarrow> cevent list option" where
  "reward_stage ok pl rate x =
     (if reward_low rate pl
      then Some (cancel_and_record ok x A_reward [Reward_written (o_market x) (or0 rate)]) else None)"

definition band_stage ::
    "(string option \<Rightarrow> bool) \<Rightarrow> policy \<Rightarrow> book \<Rightarrow> rat option \<Rightarrow> order \<Rightarrow> cevent list" where
  "band_stage ok pl b max_spread x =
     (case (best_bid b, best_ask b) of
        (Some bid, Some ask) \<Rightarrow>
          (case max_spread of
             None \<Rightarrow> [Status (o_market x) S_no_max_spread]
           | Some ms \<Rightarrow>
               (case band_verdict pl (sort_desc lv_price (bk_bids b)) ((bid + ask) / 2) ms (or0 (o_price x)) of
                  Some a \<Rightarrow> cancel_and_record ok x a []
                | None \<Rightarrow> [Status (o_market x) S_keep]))
      | _ \<Rightarrow> [Status (o_market x) S_empty_book])"

definition check_compliance ::
    "(string option \<Rightarrow> bool) \<Rightarrow> string set \<Rightarrow> policy \<Rightarrow> (string \<Rightarrow> book option) \<Rightarrow>
     (string \<Rightarrow> reward_pair option) \<Rightarrow> order \<Rightarrow> cevent list" where
  "check_compliance ok blacklist pl books rewards x =
     (case blacklist_stage ok blacklist x of
        Some tr \<Rightarrow> tr
      | None \<Rightarrow>
      (case books (o_asset x) of
        None \<Rightarrow> []
      | Some b \<Rightarrow>
      (case spread_stage ok pl b x of
        Some tr \<Rightarrow> tr
      | None \<Rightarrow>
        let (max_spread, rate) = (case rewards (o_market x) of None \<Rightarrow> (None, None) | Some pr \<Rightarrow> pr) in
        (case reward_stage ok pl rate x of
          Some tr \<Rightarrow> tr
        | None \<Rightarrow> band_stage ok pl b max_spread x))))"

section \<open>The whole step\<close>

text \<open>Which orders are checked: buys without a fill.\<close>

definition is_buy :: "order \<Rightarrow> bool" where
  "is_buy x \<longleftrightarrow> o_side x = ''BUY''"

definition check_order ::
    "(string option \<Rightarrow> bool) \<Rightarrow> string set \<Rightarrow> policy \<Rightarrow> (string \<Rightarrow> book option) \<Rightarrow>
     (string \<Rightarrow> reward_pair option) \<Rightarrow> order \<Rightarrow> cevent list" where
  "check_order ok blacklist pl books rewards x =
     (if \<not> is_buy x then [Status (o_market x) S_sell]
      else if 0 < or0 (o_matched x) then [Status (o_market x) S_partial]
      else check_compliance ok blacklist pl books rewards x)"

text \<open>\<open>_prefetch\<close>: the markets and tokens that are asked for, rewards first. The order in
which a Python set is visited is not specified; the answer does not depend on it.\<close>

definition pending_orders :: "string set \<Rightarrow> order list \<Rightarrow> order list" where
  "pending_orders blacklist orders =
     filter (\<lambda>x. is_buy x \<and> or0 (o_matched x) \<le> 0 \<and> o_market x \<notin> blacklist) orders"

fun fetch_rewards ::
    "rat \<Rightarrow> rat \<Rightarrow> (string \<Rightarrow> reward_item option list option) \<Rightarrow> string list \<Rightarrow> reward_cache \<Rightarrow>
     (string \<Rightarrow> reward_pair option) \<times> reward_cache" where
  "fetch_rewards now ttl response [] cache = (Map.empty, cache)"
| "fetch_rewards now ttl response (c # cs) cache =
     (let (pair, cache1) = market_rewards now ttl response c cache;
          (m, cache2) = fetch_rewards now ttl response cs cache1
      in (m(c \<mapsto> pair), cache2))"

definition prefetch ::
    "rat \<Rightarrow> rat \<Rightarrow> (string \<Rightarrow> reward_item option list option) \<Rightarrow> (string list \<Rightarrow> string \<Rightarrow> book option) \<Rightarrow>
     string set \<Rightarrow> order list \<Rightarrow> reward_cache \<Rightarrow>
     (string \<Rightarrow> book option) \<times> (string \<Rightarrow> reward_pair option) \<times> reward_cache" where
  "prefetch now ttl response orderbooks blacklist orders cache =
     (let pending = pending_orders blacklist orders;
          tokens = filter (\<lambda>t. t \<noteq> '''') (remdups (map o_asset pending));
          cids = filter (\<lambda>c. c \<noteq> '''') (remdups (map o_market pending));
          (rewards, cache') = fetch_rewards now ttl response cids cache
      in (\<lambda>t. if t \<in> set tokens then orderbooks tokens t else None, rewards, cache'))"

definition check_sell_orders ::
    "(string option \<Rightarrow> bool) \<Rightarrow> rat \<Rightarrow> rat \<Rightarrow> (string \<Rightarrow> reward_item option list option) \<Rightarrow>
     (string list \<Rightarrow> string \<Rightarrow> book option) \<Rightarrow> string set \<Rightarrow> policy \<Rightarrow> order list option \<Rightarrow> reward_cache \<Rightarrow>
     cevent list \<times> reward_cache" where
  "check_sell_orders ok now ttl response orderbooks blacklist pl open_orders cache =
     (case open_orders of
        None \<Rightarrow> ([], cache)
      | Some orders \<Rightarrow>
          let (books, rewards, cache') = prefetch now ttl response orderbooks blacklist orders cache
          in (concat (map (check_order ok blacklist pl books rewards) orders), cache'))"

section \<open>Lemmas\<close>

lemma has_cliff_sorted [simp]: "has_cliff_below (sort_desc lv_price bids) rmin n = has_cliff_below bids rmin n"
  by (simp add: has_cliff_below_def list_ex_iff split: option.split)

lemma sort_desc_idem [simp]: "sort_desc f (sort_desc f xs) = sort_desc f xs"
  using sorted_sort_desc [of f xs] by (simp add: sort_desc_def sorted_sort_id sort_key_id_if_sorted)

lemma max_gap_sorted [simp]: "max_gap_cents (sort_desc lv_price bids) = max_gap_cents bids"
  by (simp add: max_gap_cents_def sorted_levels_def)

lemma gap_hit_iff: "gap_hit pl bids \<longleftrightarrow> 0 < or0 (pl_gap_veto pl) \<and> or0 (pl_gap_veto pl) < max_gap_cents bids"
  by (simp add: gap_hit_def Let_def)

lemma cancelled_in_record [simp]:
  "ok (o_id x) \<Longrightarrow> Cancelled i \<in> set (cancel_and_record ok x a e) \<longleftrightarrow> i = o_id x \<or> Cancelled i \<in> set e"
  "\<not> ok (o_id x) \<Longrightarrow> Cancelled i \<notin> set (cancel_and_record ok x a e)"
  by (auto simp: cancel_and_record_def)

definition clean :: "order \<Rightarrow> cevent list \<Rightarrow> bool" where
  "clean x tr \<longleftrightarrow> tr = [] \<or> tr = [Cancel_failed (o_id x)] \<or> (\<exists>s. tr = [Status (o_market x) s] \<and> (\<forall>a. s \<noteq> S_cancelled a)) \<or>
     (\<exists>a e. tr = [Cancelled (o_id x), Recorded (o_market x) a (order_size x), Status (o_market x) (S_cancelled a)] @ e \<and>
        (\<forall>v \<in> set e. \<exists>r. v = Reward_written (o_market x) r))"

lemma clean_intros:
  "clean x []" "(\<And>a. s \<noteq> S_cancelled a) \<Longrightarrow> clean x [Status (o_market x) s]"
  "clean x (cancel_and_record ok x a [])" "clean x (cancel_and_record ok x a [Reward_written (o_market x) r])"
  by (auto simp: clean_def cancel_and_record_def)

lemma check_compliance_clean: "clean x (check_compliance ok bl pl books rewards x)"
  unfolding check_compliance_def blacklist_stage_def spread_stage_def reward_stage_def band_stage_def
  by (auto split: option.split prod.split intro!: clean_intros)

section \<open>Properties\<close>

text \<open>C31: exactly when a resting buy order is cancelled (the cancellation itself succeeding): its
market is blacklisted, or its book is known and either the spread reached the threshold, or
the known daily reward is below the minimum, or with both sides of the book and the width
of the band known the price is outside the configured cents or further from the midpoint
than the band, or no bid supports the band from below, or the largest gap exceeds the veto.
What is not known never cancels. The order is cancelled at most once, no other one is, and
nothing is recorded unless the cancellation succeeded.\<close>

theorem compliance_decision:
  "(ok (o_id x) \<longrightarrow> (Cancelled (o_id x) \<in> set (check_compliance ok bl pl books rewards x) \<longleftrightarrow>
     o_market x \<in> bl \<or>
     (\<exists>b. books (o_asset x) = Some b \<and>
       ((\<exists>s m. spread_cents b = Some s \<and> pl_max_spread pl = Some m \<and> m \<le> s) \<or>
        (\<exists>ms r. rewards (o_market x) = Some (ms, Some r) \<and> r < or0 (pl_min_reward pl)) \<or>
        (\<exists>bid ask ms r. best_bid b = Some bid \<and> best_ask b = Some ask \<and> rewards (o_market x) = Some (Some ms, r) \<and>
          (price_band_hit pl (or0 (o_price x)) \<or>
           ms / 100 < \<bar>or0 (o_price x) - (bid + ask) / 2\<bar> \<or>
           has_cliff_below (bk_bids b) ((bid + ask) / 2 - ms / 100) (Some (cliff_cents pl)) \<or>
           0 < or0 (pl_gap_veto pl) \<and> or0 (pl_gap_veto pl) < max_gap_cents (bk_bids b))))))) \<and>
   clean x (check_compliance ok bl pl books rewards x)"
proof (rule conjI [OF _ check_compliance_clean], rule impI)
  assume ok: "ok (o_id x)"
  have range: "\<not> (m - d \<le> p \<and> p \<le> m + d) \<longleftrightarrow> d < \<bar>p - m\<bar>" for m d p :: rat by linarith
  have band: "band_verdict pl (sort_desc lv_price bids) m ms p \<noteq> None \<longleftrightarrow>
      price_band_hit pl p \<or> ms / 100 < \<bar>p - m\<bar> \<or> has_cliff_below bids (m - ms / 100) (Some (cliff_cents pl)) \<or>
      0 < or0 (pl_gap_veto pl) \<and> or0 (pl_gap_veto pl) < max_gap_cents bids" for bids m ms p
    unfolding band_verdict_def reward_price_range_def Let_def prod.case range by (simp add: gap_hit_iff)
  have stage: "Cancelled (o_id x) \<in> set (band_stage ok pl b ms x) \<longleftrightarrow>
      (\<exists>bid ask s. best_bid b = Some bid \<and> best_ask b = Some ask \<and> ms = Some s \<and>
        band_verdict pl (sort_desc lv_price (bk_bids b)) ((bid + ask) / 2) s (or0 (o_price x)) \<noteq> None)" for b ms
    using ok by (auto simp: band_stage_def split: option.split)
  have spread: "recheck_resting_buy s pl \<longleftrightarrow> (\<exists>v m. s = Some v \<and> pl_max_spread pl = Some m \<and> m \<le> v)" for s
    by (auto simp: recheck_resting_buy_def split: option.split)
  have low: "reward_low r pl \<longleftrightarrow> (\<exists>v. r = Some v \<and> v < or0 (pl_min_reward pl))" for r
    by (auto simp: reward_low_def split: option.split)
  show "Cancelled (o_id x) \<in> set (check_compliance ok bl pl books rewards x) \<longleftrightarrow>
     o_market x \<in> bl \<or>
     (\<exists>b. books (o_asset x) = Some b \<and>
       ((\<exists>s m. spread_cents b = Some s \<and> pl_max_spread pl = Some m \<and> m \<le> s) \<or>
        (\<exists>ms r. rewards (o_market x) = Some (ms, Some r) \<and> r < or0 (pl_min_reward pl)) \<or>
        (\<exists>bid ask ms r. best_bid b = Some bid \<and> best_ask b = Some ask \<and> rewards (o_market x) = Some (Some ms, r) \<and>
          (price_band_hit pl (or0 (o_price x)) \<or>
           ms / 100 < \<bar>or0 (o_price x) - (bid + ask) / 2\<bar> \<or>
           has_cliff_below (bk_bids b) ((bid + ask) / 2 - ms / 100) (Some (cliff_cents pl)) \<or>
           0 < or0 (pl_gap_veto pl) \<and> or0 (pl_gap_veto pl) < max_gap_cents (bk_bids b)))))"
    using ok unfolding check_compliance_def blacklist_stage_def spread_stage_def reward_stage_def spread band [symmetric]
    by (cases "o_market x \<in> bl"; cases "books (o_asset x)"; cases "rewards (o_market x)")
      (auto simp: low stage simp del: not_None_eq)
qed

text \<open>One dollar of daily reward against a minimum of five: cancelled; and an order of a market
whose book could not be fetched: left alone.\<close>

definition demo_policy :: policy where
  "demo_policy = \<lparr>pl_max_spread = Some 10, pl_min_reward = Some 5, pl_min_price = None, pl_max_price = None,
     pl_cliff = Some (Some 5), pl_gap_veto = Some 20\<rparr>"

definition demo_buy :: order where
  "demo_buy = \<lparr>o_id = Some ''o1'', o_market = ''m'', o_asset = ''t'', o_side = ''BUY'', o_price = Some (2/5),
     o_original = Some 60, o_size = None, o_matched = None\<rparr>"

definition demo_book :: book where
  "demo_book = \<lparr>bk_bids = demo_bids, bk_asks = [\<lparr>lv_price = 43/100, lv_size = 10\<rparr>]\<rparr>"

lemma demo_prices: "best_bid demo_book = Some (2/5)" "best_ask demo_book = Some (43/100)" "spread_cents demo_book = Some 3"
  by (simp_all add: best_bid_def best_ask_def spread_cents_def demo_book_def demo_bids_def sort_desc_def)

lemma compliance_witness:
  "Cancelled (Some ''o1'') \<in> set (check_compliance (\<lambda>_. True) {} demo_policy (\<lambda>_. Some demo_book) (\<lambda>_. Some (None, Some 1)) demo_buy)"
  using compliance_decision [of "\<lambda>_. True" demo_buy "{}" demo_policy "\<lambda>_. Some demo_book" "\<lambda>_. Some (None, Some 1)"]
  by (simp add: demo_policy_def demo_buy_def)

text \<open>C33: The engine does not fight itself over the book, only over the configured cents. What the compliance check
does with an order that the gap engine prices on the same book and band, with the same cliff and veto: it is never cancelled
for the reward band, the cliff or the gap. It is kept unless the market is blacklisted, the spread reached its threshold, the
reward is known to be too low, or, which the gap engine does not look at, its price lies outside the configured cents; then
it is cancelled for that, the first of the four deciding.\<close>

theorem gap_order_survives_compliance:
  assumes "plan_gap_single_order cfg (bk_bids b) (fst (reward_price_range ((bid + ask) / 2) ms))
      (snd (reward_price_range ((bid + ask) / 2) ms)) k = Some (p, n)"
    and "gc_cliff cfg = Some (cliff_cents pl)" "gc_veto cfg = pl_gap_veto pl"
    and "best_bid b = Some bid" "best_ask b = Some ask"
    and "o_price x = Some p" "books (o_asset x) = Some b" "rewards (o_market x) = Some (Some ms, rate)"
  shows "check_compliance ok bl pl books rewards x =
    (if o_market x \<in> bl then cancel_and_record ok x A_blacklist []
     else if recheck_resting_buy (Some ((ask - bid) * 100)) pl then cancel_and_record ok x A_spread []
     else if reward_low rate pl then cancel_and_record ok x A_reward [Reward_written (o_market x) (or0 rate)]
     else if price_band_hit pl p then cancel_and_record ok x A_price_band []
     else [Status (o_market x) S_keep])"
proof -
  obtain rmin rmax where r: "reward_price_range ((bid + ask) / 2) ms = (rmin, rmax)" by fastforce
  obtain rl c gate where cl: "classify cfg (max_gap_cents (bk_bids b)) = (rl, c, gate)" using prod_cases3 by blast
  have "gap_admits cfg (bk_bids b) rmin k \<and> rmin \<le> p \<and> p \<le> rmax"
    using plan_gap_single_order_SomeD [OF _ cl, of rmin rmax k p n] assms(1) r by simp
  then have "band_verdict pl (sort_desc lv_price (bk_bids b)) ((bid + ask) / 2) ms p =
      (if price_band_hit pl p then Some A_price_band else None)"
    using r assms(2,3) by (auto simp: band_verdict_def gap_admits_def gap_hit_iff vetoed_def split: option.splits)
  moreover have "spread_cents b = Some ((ask - bid) * 100)" using assms(4,5) by (simp add: spread_cents_def)
  ultimately show ?thesis
    using assms(4-8) by (simp add: check_compliance_def blacklist_stage_def spread_stage_def reward_stage_def band_stage_def)
qed

lemma gap_survives_witness:
  "check_compliance (\<lambda>_. True) {} demo_policy (\<lambda>_. Some demo_book) (\<lambda>_. Some (Some (7/2), None))
     (demo_buy\<lparr>o_price := Some (39/100)\<rparr>) = [Status ''m'' S_keep]"
proof -
  have "reward_price_range ((2/5 + 43/100) / 2) (7/2) = (19/50, 9/20)"
    by (simp add: reward_price_range_def)
  then show ?thesis
    using gap_order_survives_compliance [where cfg = demo_cfg and b = demo_book and bid = "2/5" and ask = "43/100"
        and ms = "7/2" and k = 50 and p = "39/100" and n = 50 and pl = demo_policy
        and x = "demo_buy\<lparr>o_price := Some (39/100)\<rparr>" and books = "\<lambda>_. Some demo_book"
        and rewards = "\<lambda>_. Some (Some (7/2), None)" and rate = None and bl = "{}" and ok = "\<lambda>_. True"]
      demo_plan(1) [of "9/20"] demo_prices
    by (simp add: demo_policy_def demo_buy_def demo_book_def demo_cfg_def cliff_cents_def recheck_resting_buy_def reward_low_def
      price_band_hit_def del: One_nat_def)
qed

lemma cancelled_ok: "\<not> ok (o_id x) \<Longrightarrow> Cancelled i \<notin> set (check_compliance ok bl pl books rewards x)"
  unfolding check_compliance_def blacklist_stage_def spread_stage_def reward_stage_def band_stage_def
  by (auto split: option.split prod.split)

lemma unknown_book: "o_market x \<notin> bl \<Longrightarrow> books (o_asset x) = None \<Longrightarrow> check_compliance ok bl pl books rewards x = []"
  by (simp add: check_compliance_def blacklist_stage_def)

lemma cancelled_id: "Cancelled i \<in> set (check_compliance ok bl pl books rewards x) \<Longrightarrow> i = o_id x"
  using check_compliance_clean [of x ok bl pl books rewards] by (auto simp: clean_def)

text \<open>A whole round cancels only listed buy orders without a fill, and each of them only
because its market is blacklisted or after its book was fetched in this round.\<close>

theorem step3_cancels_unfilled_buys_only:
  "Cancelled i \<in> set (fst (check_sell_orders ok now ttl response orderbooks bl pl orders cache)) \<Longrightarrow>
   (\<exists>xs x. orders = Some xs \<and> x \<in> set xs \<and> o_id x = i \<and> o_side x = ''BUY'' \<and> or0 (o_matched x) \<le> 0 \<and> ok i \<and>
     (o_market x \<in> bl \<or> o_asset x \<noteq> '''' \<and>
        orderbooks (filter (\<lambda>t. t \<noteq> '''') (remdups (map o_asset (pending_orders bl xs)))) (o_asset x) \<noteq> None))"
proof -
  assume a: "Cancelled i \<in> set (fst (check_sell_orders ok now ttl response orderbooks bl pl orders cache))"
  then obtain xs where xs: "orders = Some xs" by (cases orders) (auto simp: check_sell_orders_def)
  obtain books rewards cache' where pre: "prefetch now ttl response orderbooks bl xs cache = (books, rewards, cache')"
    using prod_cases3 by blast
  with a xs obtain x where x: "x \<in> set xs" "Cancelled i \<in> set (check_order ok bl pl books rewards x)"
    by (auto simp: check_sell_orders_def)
  then have buy: "is_buy x" "or0 (o_matched x) \<le> 0" and c: "Cancelled i \<in> set (check_compliance ok bl pl books rewards x)"
    by (auto simp: check_order_def split: if_splits)
  have "i = o_id x" "ok i" using cancelled_id [OF c] cancelled_ok c by blast+
  moreover have "o_market x \<in> bl \<or> books (o_asset x) \<noteq> None"
    using c unknown_book [of x bl books ok pl rewards]
    by (cases "o_market x \<in> bl"; cases "books (o_asset x)") auto
  moreover have "books t \<noteq> None \<Longrightarrow> t \<noteq> '''' \<and>
      orderbooks (filter (\<lambda>t. t \<noteq> '''') (remdups (map o_asset (pending_orders bl xs)))) t \<noteq> None" for t
    using pre by (auto simp: prefetch_def Let_def split: prod.splits if_splits)
  ultimately show ?thesis using xs x(1) buy unfolding is_buy_def by blast
qed

lemma step3_witness:
  "\<exists>x. x \<in> set [demo_buy] \<and> o_id x = Some ''o1'' \<and> o_side x = ''BUY'' \<and> o_market x \<in> {''m''}"
proof -
  have "Cancelled (Some ''o1'') \<in> set (fst (check_sell_orders (\<lambda>_. True) 0 60 (\<lambda>_. None) (\<lambda>_ _. None) {''m''}
      demo_policy (Some [demo_buy]) Map.empty))"
    by (simp add: check_sell_orders_def prefetch_def pending_orders_def check_order_def check_compliance_def
      blacklist_stage_def cancel_and_record_def demo_buy_def is_buy_def)
  from step3_cancels_unfilled_buys_only [OF this] show ?thesis by auto
qed

end
