(* ===== verification/Placement.thy ===== *)
theory Placement
  imports Holdings Tiers Legacy_Wall Compliance "HOL-Library.Sublist"
begin

text \<open>
  The placement round of a wallet (\<open>WalletWorker.place_orders\<close> in \<open>engine/manager.py\<close>):
  withdraw the buys of markets that dropped out, then for every market in turn price both
  sides with the strategy of the template, reconcile the resting buys with the plan, place
  what is missing and record why. The exchange, the data API, Gamma and the database answer
  through the record \<open>venue\<close>; what the round does is its log. A template number that is not
  finite is outside the model and read as an exception.
\<close>

section \<open>Data\<close>

record entry =
  en_market :: string
  en_token :: string
  en_spread :: rat
  en_min_size :: int

record quote_book = book +
  qb_tick :: rat

datatype why = Gap_why "skip option" | Wall_why "wall_skip option"

record venue =
  vn_orders :: "order list option"
  vn_positions :: "holding list option"
  vn_blacklist :: "string set"
  vn_cooldown :: "string \<Rightarrow> bool"
  vn_resolution :: "string \<Rightarrow> string option"
  vn_book :: "string \<Rightarrow> quote_book option"
  vn_balance :: "string \<Rightarrow> rat option"
  vn_cancel :: "string list \<Rightarrow> bool"
  vn_buy :: "string \<Rightarrow> rat \<Rightarrow> int \<Rightarrow> bool"
  vn_text :: "why \<Rightarrow> string"

record template =
  tm_tiers :: "json list"
  tm_wide :: jnum
  tm_mid :: jnum
  tm_cliff :: jnum
  tm_veto :: jnum
  tm_max_usd :: jnum
  tm_max_shares :: jnum
  tm_max_markets :: jnum
  tm_mode :: string
  tm_wall :: jnum
  tm_cumulative :: jnum
  tm_size_mode :: string
  tm_custom_usd :: jnum

text \<open>\<open>_tmpl_num\<close>: a missing, null or unreadable number is the default, 0 is kept.\<close>

definition tmpl_num :: "jnum \<Rightarrow> rat \<Rightarrow> rat" where
  "tmpl_num v d = (case v of JNum x \<Rightarrow> x | _ \<Rightarrow> d)"

datatype pevent =
    P_cancel "string list" bool
  | P_buy string string rat int bool
  | P_dropout string
  | P_replaced string string
  | P_placed string string "part list option" "part list option"
  | P_skip string string "part list option"

text \<open>The state of a round; \<open>rd_skips\<close> is \<open>_last_gap_skip\<close> of the worker and outlives it.\<close>

record round_state =
  rd_placed :: nat
  rd_open :: "string set"
  rd_skips :: "string \<Rightarrow> string option"
  rd_log :: "pevent list"

definition note_ev :: "pevent list \<Rightarrow> round_state \<Rightarrow> round_state" where
  "note_ev es r = r\<lparr>rd_log := rd_log r @ es\<rparr>"

section \<open>Parameters of a market\<close>

text \<open>\<open>float(tier.get(key, d))\<close>, None when it raises or is not finite.\<close>

definition tier_num :: "json \<Rightarrow> string \<Rightarrow> int \<Rightarrow> rat option" where
  "tier_num t k d =
     (case bind (get t k (J_int d)) py_float of Inr (Fin x) \<Rightarrow> Some x | _ \<Rightarrow> None)"

definition field_num :: "json \<Rightarrow> string \<Rightarrow> jnum" where
  "field_num row k = (case row of
     J_obj kvs \<Rightarrow> (case map_of kvs k of None \<Rightarrow> JBad
       | Some v \<Rightarrow> (case py_float v of Inr (Fin x) \<Rightarrow> JNum x | _ \<Rightarrow> JBad))
   | _ \<Rightarrow> JBad)"

text \<open>\<open>tier.get("amount_value_table") or None\<close>, each row as \<open>amount_value\<close> reads it.\<close>

definition tier_table :: "json \<Rightarrow> (jnum \<times> jnum) list" where
  "tier_table t = (case get t ''amount_value_table'' J_null of
     Inr (J_list rows) \<Rightarrow> map (\<lambda>r. (field_num r ''upper'', field_num r ''value'')) rows
   | _ \<Rightarrow> [])"

text \<open>\<open>int(tier.get("shares", 0) or 0) or None\<close>.\<close>

definition tier_shares :: "json \<Rightarrow> rat option option" where
  "tier_shares t =
     (case bind (get t ''shares'' (J_int 0)) (\<lambda>v. py_int (or_else v (J_int 0))) of
        Inl e \<Rightarrow> None
      | Inr n \<Rightarrow> Some (if n = 0 then None else Some (of_int n)))"

definition gap_config :: "template \<Rightarrow> json \<Rightarrow> gap_cfg option" where
  "gap_config tm t =
     (case (tier_num t ''gap_high_coeff_sum_min'' 20, tier_num t ''rule1_min_coeff'' 0, tier_num t ''rule2_min_coeff'' 0,
            tier_num t ''rule3_min_coeff'' 0, tier_num t ''rule2_high_coeff_sum_min'' 0,
            tier_num t ''rule3_high_coeff_sum_min'' 0, tier_shares t) of
        (Some s1, Some m1, Some m2, Some m3, Some s2, Some s3, Some n) \<Rightarrow>
          Some \<lparr>gc_table = tier_table t, gc_wide = tmpl_num (tm_wide tm) 10, gc_mid = tmpl_num (tm_mid tm) 5,
            gc_sum1 = s1, gc_sum2 = s2, gc_sum3 = s3, gc_min1 = m1, gc_min2 = m2, gc_min3 = m3,
            gc_cliff = Some (tmpl_num (tm_cliff tm) 2), gc_shares = n, gc_veto = Some (tmpl_num (tm_veto tm) 0)\<rparr>
      | _ \<Rightarrow> None)"

definition wall_config :: "template \<Rightarrow> rat \<Rightarrow> wall_cfg" where
  "wall_config tm balance =
     \<lparr>wc_mode = tm_size_mode tm, wc_balance = balance, wc_custom_usd = tmpl_num (tm_custom_usd tm) 0,
      wc_wall = int_trunc (tmpl_num (tm_wall tm) 2000), wc_cumulative = int_trunc (tmpl_num (tm_cumulative tm) 6000),
      wc_cliff = Some (tmpl_num (tm_cliff tm) 2)\<rparr>"

section \<open>Sides\<close>

text \<open>A side that can be priced: its book is there and has bids and asks.\<close>

definition build_side :: "venue \<Rightarrow> entry \<Rightarrow> (string \<times> side) option" where
  "build_side v e =
     (case vn_book v (en_token e) of
        None \<Rightarrow> None
      | Some b \<Rightarrow>
          (case (sort_desc lv_price (bk_bids b), sort_key lv_price (bk_asks b)) of
             (bid # bids, ask # asks) \<Rightarrow>
               let (rmin, rmax) = reward_price_range ((lv_price bid + lv_price ask) / 2) (en_spread e)
               in Some (en_token e, \<lparr>sd_bids = bid # bids, sd_rmin = rmin, sd_rmax = rmax,
                    sd_min_size = of_int (en_min_size e), sd_max_spread = en_spread e, sd_tick = qb_tick b\<rparr>)
           | _ \<Rightarrow> None))"

datatype explained = By_gap decision | By_wall wall_decision

text \<open>The plan of both sides and the full decision of each active one; None when the legacy engine raises.\<close>

definition legacy_explained :: "wall_cfg \<Rightarrow> side option \<Rightarrow> explained option option" where
  "legacy_explained cfg s =
     (case s of None \<Rightarrow> Some None
      | Some sd \<Rightarrow> map_option (\<lambda>d. Some (By_wall d))
          (explain_legacy_order cfg (sd_bids sd) (of_int (int_trunc (sd_max_spread sd))) (sd_tick sd)
             (sd_rmin sd) (sd_rmax sd) (sd_min_size sd)))"

definition gap_explained :: "gap_cfg \<Rightarrow> side option \<Rightarrow> explained option" where
  "gap_explained cfg s = map_option (\<lambda>sd. By_gap
     (explain_gap_single_order cfg (sd_bids sd) (sd_rmin sd) (sd_rmax sd) (sd_min_size sd))) s"

type_synonym priced = "(rat \<times> int) option \<times> explained option"

definition price_sides ::
    "template \<Rightarrow> gap_cfg \<Rightarrow> rat \<Rightarrow> side option \<Rightarrow> side option \<Rightarrow> rat \<Rightarrow> int \<Rightarrow> (priced \<times> priced) option" where
  "price_sides tm cfg balance ca cb budget shares =
     (if tm_mode tm = ''legacy_wall'' then
        let w = wall_config tm balance; (a, b) = compute_market_legacy_orders w ca cb budget shares
        in (case (legacy_explained w ca, legacy_explained w cb) of
             (Some ea, Some eb) \<Rightarrow> Some ((a, ea), (b, eb)) | _ \<Rightarrow> None)
      else
        let (a, b) = compute_market_single_orders cfg ca cb budget shares
        in Some ((a, gap_explained cfg ca), (b, gap_explained cfg cb)))"

section \<open>Placing and recording\<close>

text \<open>The texts of a placed order with the shares really placed; None when formatting raises.\<close>

definition place_texts :: "side \<Rightarrow> int \<Rightarrow> explained \<Rightarrow> (part list \<times> part list) option" where
  "place_texts sd n x =
     (case (case x of By_gap d \<Rightarrow> (gap_single_reason (d\<lparr>d_shares := Some n\<rparr>),
               gap_single_price_basis (d\<lparr>d_shares := Some n\<rparr>) (sd_rmin sd) (sd_rmax sd))
           | By_wall d \<Rightarrow> (legacy_reason (d\<lparr>wd_shares := Some n\<rparr>),
               legacy_price_basis (d\<lparr>wd_shares := Some n\<rparr>) (sd_rmin sd) (sd_rmax sd))) of
        (Some t, Some u) \<Rightarrow> Some (t, u) | _ \<Rightarrow> None)"

definition places :: "explained option \<Rightarrow> bool" where
  "places x = (case x of Some (By_gap d) \<Rightarrow> d_place d | Some (By_wall d) \<Rightarrow> wd_place d | None \<Rightarrow> False)"

definition reached :: "nat option \<Rightarrow> round_state \<Rightarrow> bool" where
  "reached cap r = (case cap of None \<Rightarrow> False | Some n \<Rightarrow> n \<le> rd_placed r)"

text \<open>Recording an accepted buy. When formatting the texts raises, the handler of the loop skips the
record and the test of the limit: the first component is then False.\<close>

definition record_place ::
    "string \<Rightarrow> string \<Rightarrow> side \<Rightarrow> explained option \<Rightarrow> int \<Rightarrow> round_state \<Rightarrow> bool \<times> round_state" where
  "record_place mid token sd x n r =
     (if places x then
        (case place_texts sd n (the x) of
           None \<Rightarrow> (False, r)
         | Some (t, u) \<Rightarrow> (True, (note_ev [P_placed mid token (Some t) (Some u)] r)\<lparr>rd_skips := (rd_skips r)(token := None)\<rparr>))
      else (True, note_ev [P_placed mid token None None] r))"

definition count_buy :: "string \<Rightarrow> string \<Rightarrow> rat \<Rightarrow> int \<Rightarrow> round_state \<Rightarrow> round_state" where
  "count_buy mid token price n r =
     (note_ev [P_buy mid token price n True] r)\<lparr>rd_placed := rd_placed r + 1, rd_open := insert mid (rd_open r)\<rparr>"

text \<open>The loop over \<open>to_place\<close>; True when the limit was reached.\<close>

fun place_all ::
    "venue \<Rightarrow> nat option \<Rightarrow> string \<Rightarrow> string \<Rightarrow> side \<Rightarrow> explained option \<Rightarrow> (rat \<times> int) list \<Rightarrow> round_state \<Rightarrow>
     bool \<times> round_state" where
  "place_all v cap mid token sd x [] r = (False, r)"
| "place_all v cap mid token sd x ((price, n) # rest) r =
     (if \<not> vn_buy v token price n
      then place_all v cap mid token sd x rest (note_ev [P_buy mid token price n False] r)
      else
        let (checked, r2) = record_place mid token sd x n (count_buy mid token price n r)
        in if checked \<and> reached cap r2 then (True, r2) else place_all v cap mid token sd x rest r2)"

text \<open>\<open>_maybe_record_gap_skip\<close>: the reason is stored before the record is written.\<close>

definition skip_text :: "venue \<Rightarrow> explained \<Rightarrow> string" where
  "skip_text v x = vn_text v (case x of By_gap d \<Rightarrow> Gap_why (d_skip d) | By_wall d \<Rightarrow> Wall_why (wd_skip d))"

definition record_skip ::
    "venue \<Rightarrow> string \<Rightarrow> string \<Rightarrow> side \<Rightarrow> explained option \<Rightarrow> round_state \<Rightarrow> round_state" where
  "record_skip v mid token sd x r =
     (case x of
        None \<Rightarrow> r
      | Some e \<Rightarrow>
          if places x then r
          else if rd_skips r token = Some (skip_text v e) then r
          else
            let r1 = r\<lparr>rd_skips := (rd_skips r)(token \<mapsto> skip_text v e)\<rparr>;
                basis = (case e of By_gap d \<Rightarrow> gap_single_price_basis d (sd_rmin sd) (sd_rmax sd)
                  | By_wall d \<Rightarrow> legacy_price_basis d (sd_rmin sd) (sd_rmax sd))
            in if basis = None then r1 else note_ev [P_skip mid token basis] r1)"

section \<open>One side\<close>

definition buys_of_token :: "order list \<Rightarrow> string \<Rightarrow> order list" where
  "buys_of_token orders token = filter (\<lambda>x. o_side x = ''BUY'' \<and> o_asset x = token) orders"

definition tolerance :: "template \<Rightarrow> rat" where
  "tolerance tm = (if tm_mode tm = ''legacy_wall'' \<and> tm_size_mode tm \<in> {''balance'', ''custom''} then 1 / 10 else 1 / 100)"

definition cancel_ids :: "venue \<Rightarrow> string \<Rightarrow> string \<Rightarrow> string list \<Rightarrow> round_state \<Rightarrow> round_state" where
  "cancel_ids v mid kind ids r =
     (if ids = [] then r
      else if vn_cancel v ids then note_ev [P_cancel ids True, P_replaced mid kind] r
      else note_ev [P_cancel ids False] r)"

definition as_list :: "'a option \<Rightarrow> 'a list" where
  "as_list x = (case x of None \<Rightarrow> [] | Some y \<Rightarrow> [y])"

definition side_step ::
    "venue \<Rightarrow> nat option \<Rightarrow> template \<Rightarrow> string set \<Rightarrow> bool \<Rightarrow> string \<Rightarrow> (string \<times> side) option \<Rightarrow> priced \<Rightarrow> order list \<Rightarrow>
     round_state \<Rightarrow> bool \<times> round_state" where
  "side_step v cap tm helds budget_ok mid s p orders r =
     (case s of
        None \<Rightarrow> (False, r)
      | Some (token, sd) \<Rightarrow>
          let resting = buys_of_token orders token in
          if token \<in> helds then
            let (ids, to_place) = reconcile_buy_orders [] resting (1 / 100);
                (stop, r1) = place_all v cap mid token sd (snd p) to_place (cancel_ids v mid ''side_pause_cancel'' ids r)
            in if stop then (True, r1) else (False, record_skip v mid token sd (snd p) r1)
          else if budget_ok then
            let (ids, to_place) = reconcile_buy_orders (as_list (fst p)) resting (tolerance tm);
                (stop, r1) = place_all v cap mid token sd (snd p) to_place (cancel_ids v mid ''buy_reconcile_cancel'' ids r)
            in if stop then (True, r1) else (False, record_skip v mid token sd (snd p) r1)
          else (False, r))"

section \<open>One market\<close>

datatype flow = Go | Stop | Crash

text \<open>The money and the shares a market may still take.\<close>

definition market_budget :: "template \<Rightarrow> rat \<Rightarrow> (string \<Rightarrow> rat option) \<Rightarrow> string \<Rightarrow> rat" where
  "market_budget tm balance val mid = max 0 (min balance (tmpl_num (tm_max_usd tm) 250) - or0 (val mid))"

definition market_shares :: "template \<Rightarrow> (string \<Rightarrow> rat option) \<Rightarrow> string \<Rightarrow> int" where
  "market_shares tm shares mid = max 0 (int_trunc (tmpl_num (tm_max_shares tm) 500) - int_trunc (or0 (shares mid)))"

definition max_concurrent :: "template \<Rightarrow> int" where
  "max_concurrent tm = int_trunc (tmpl_num (tm_max_markets tm) 10)"

text \<open>The side handed to the pricing engine: none when its token is held.\<close>

definition active :: "string set \<Rightarrow> (string \<times> side) option \<Rightarrow> side option" where
  "active helds s = (case s of None \<Rightarrow> None | Some (token, sd) \<Rightarrow> if token \<in> helds then None else Some sd)"

definition both_sides ::
    "venue \<Rightarrow> nat option \<Rightarrow> template \<Rightarrow> string set \<Rightarrow> bool \<Rightarrow> string \<Rightarrow> (string \<times> side) option \<Rightarrow> (string \<times> side) option \<Rightarrow>
     priced \<times> priced \<Rightarrow> order list \<Rightarrow> round_state \<Rightarrow> flow \<times> round_state" where
  "both_sides v cap tm helds budget_ok mid a b ps orders r =
     (let (stop, r1) = side_step v cap tm helds budget_ok mid a (fst ps) orders r in
      if stop then (Stop, r1)
      else let (stop, r2) = side_step v cap tm helds budget_ok mid b (snd ps) orders r1
        in (if stop then Stop else Go, r2))"

definition market_trade ::
    "venue \<Rightarrow> nat option \<Rightarrow> template \<Rightarrow> string set \<times> (string \<Rightarrow> rat option) \<times> (string \<Rightarrow> rat option) \<Rightarrow> order list \<Rightarrow>
     gap_cfg \<Rightarrow> string \<Rightarrow> (string \<times> side) list \<Rightarrow> round_state \<Rightarrow> flow \<times> round_state" where
  "market_trade v cap tm hold orders cfg mid sides r =
     (case sides of
        [] \<Rightarrow> (Go, r)
      | a # others \<Rightarrow>
          let b = (case others of [] \<Rightarrow> None | s # ss \<Rightarrow> Some s); (helds, val, shares) = hold in
          (case vn_balance v mid of
             None \<Rightarrow> (Go, r)
           | Some balance \<Rightarrow>
               let budget = market_budget tm balance val mid; left = market_shares tm shares mid;
                   ok = (0 < budget \<and> 0 < left)
               in (case (if ok then price_sides tm cfg balance (active helds (Some a)) (active helds b) budget left
                     else Some ((None, None), (None, None))) of
                     None \<Rightarrow> (Crash, r)
                   | Some ps \<Rightarrow> both_sides v cap tm helds ok mid (Some a) b ps orders r)))"

definition may_open :: "template \<Rightarrow> string \<Rightarrow> round_state \<Rightarrow> bool" where
  "may_open tm mid r \<longleftrightarrow> mid \<in> rd_open r \<or> int (card (rd_open r)) < max_concurrent tm"

definition market_step ::
    "venue \<Rightarrow> nat option \<Rightarrow> template \<Rightarrow> string set \<times> (string \<Rightarrow> rat option) \<times> (string \<Rightarrow> rat option) \<Rightarrow> order list \<Rightarrow>
     entry list \<Rightarrow> string \<Rightarrow> round_state \<Rightarrow> flow \<times> round_state" where
  "market_step v cap tm hold orders es mid r =
     (let group = filter (\<lambda>e. en_market e = mid) es in
      if mid \<in> vn_blacklist v \<or> in_resolution (vn_resolution v mid) \<or> vn_cooldown v mid then (Go, r)
      else case tier_for (tm_tiers tm) (J_int (en_min_size (hd group))) of
        Inl e \<Rightarrow> (Crash, r)
      | Inr None \<Rightarrow> (Go, r)
      | Inr (Some t) \<Rightarrow>
          (case gap_config tm t of
             None \<Rightarrow> (Crash, r)
           | Some cfg \<Rightarrow>
               if \<not> may_open tm mid r then (Go, r)
               else market_trade v cap tm hold orders cfg mid (List.map_filter (build_side v) group) r))"

fun market_loop ::
    "venue \<Rightarrow> nat option \<Rightarrow> template \<Rightarrow> string set \<times> (string \<Rightarrow> rat option) \<times> (string \<Rightarrow> rat option) \<Rightarrow> order list \<Rightarrow>
     entry list \<Rightarrow> string list \<Rightarrow> round_state \<Rightarrow> flow \<times> round_state" where
  "market_loop v cap tm hold orders es [] r = (Go, r)"
| "market_loop v cap tm hold orders es (mid # mids) r =
     (let (f, r1) = market_step v cap tm hold orders es mid r in
      if f = Go then market_loop v cap tm hold orders es mids r1 else (f, r1))"

section \<open>The round\<close>

definition open_markets :: "order list \<Rightarrow> string set" where
  "open_markets orders = set (filter (\<lambda>c. c \<noteq> '''') (map o_market (filter (\<lambda>x. o_side x = ''BUY'') orders)))"

definition market_order :: "entry list \<Rightarrow> string list" where
  "market_order es = rev (remdups (rev (map en_market es)))"

text \<open>Markets with resting buys that are not eligible any more and not in their cooldown.\<close>

definition dropped :: "venue \<Rightarrow> entry list \<Rightarrow> order list \<Rightarrow> order \<Rightarrow> bool" where
  "dropped v es orders x \<longleftrightarrow> o_side x = ''BUY'' \<and> o_market x \<noteq> '''' \<and> o_market x \<notin> set (market_order es) \<and>
     \<not> vn_cooldown v (o_market x)"

definition cancel_dropped :: "venue \<Rightarrow> entry list \<Rightarrow> order list \<Rightarrow> round_state \<Rightarrow> round_state" where
  "cancel_dropped v es orders r =
     (let out = filter (dropped v es orders) orders;
          ids = concat (map (\<lambda>x. case o_id x of Some i \<Rightarrow> if i = '''' then [] else [i] | None \<Rightarrow> []) out)
      in if ids = [] then r
         else if vn_cancel v ids
         then note_ev (P_cancel ids True # map P_dropout (remdups (map o_market out)))
           (r\<lparr>rd_open := rd_open r - set (map o_market out)\<rparr>)
         else note_ev [P_cancel ids False] r)"

definition place_orders ::
    "venue \<Rightarrow> template \<Rightarrow> entry list \<Rightarrow> nat option \<Rightarrow> bool \<Rightarrow> (string \<Rightarrow> string option) \<Rightarrow> flow \<times> round_state" where
  "place_orders v tm es cap cancel_dropouts skips =
     (let start = \<lparr>rd_placed = 0, rd_open = {}, rd_skips = skips, rd_log = []\<rparr> in
      case (vn_orders v, vn_positions v) of
        (Some orders, Some positions) \<Rightarrow>
          let r = start\<lparr>rd_open := open_markets orders\<rparr>
          in market_loop v cap tm (held_side_info positions) orders es (market_order es)
               (if cancel_dropouts then cancel_dropped v es orders r else r)
      | _ \<Rightarrow> (Go, start))"

section \<open>What a round buys\<close>

fun bought :: "pevent list \<Rightarrow> (string \<times> string \<times> rat \<times> int) list" where
  "bought [] = []"
| "bought (P_buy mid token p n True # es) = (mid, token, p, n) # bought es"
| "bought (_ # es) = bought es"

lemma bought_append [simp]: "bought (xs @ ys) = bought xs @ bought ys"
  by (induction xs rule: bought.induct) simp_all

lemma bought_other [simp]:
  "bought (map P_dropout ms) = []"
  by (induction ms) simp_all

text \<open>What a step adds: the log grows, the counter counts the accepted buys, and only their market is opened.\<close>

definition extends :: "(string \<times> string \<times> rat \<times> int) list \<Rightarrow> round_state \<Rightarrow> round_state \<Rightarrow> bool" where
  "extends bs r r' \<longleftrightarrow> (\<exists>new. rd_log r' = rd_log r @ new \<and> bought new = bs) \<and>
     rd_placed r' = rd_placed r + length bs \<and> rd_open r' = rd_open r \<union> fst ` set bs"

lemma extends_refl [simp]: "extends [] r r"
  by (simp add: extends_def)

lemma extends_trans: "extends as r r1 \<Longrightarrow> extends bs r1 r2 \<Longrightarrow> extends (as @ bs) r r2"
proof -
  assume a: "extends as r r1" "extends bs r1 r2"
  then obtain x y where "rd_log r1 = rd_log r @ x" "bought x = as" "rd_log r2 = rd_log r1 @ y" "bought y = bs"
    by (auto simp: extends_def)
  then have log: "rd_log r2 = rd_log r @ (x @ y)" "bought (x @ y) = as @ bs" by simp_all
  have "rd_placed r2 = rd_placed r + length (as @ bs)" "rd_open r2 = rd_open r \<union> fst ` set (as @ bs)"
    using a by (simp_all add: extends_def image_Un Un_assoc)
  with log show ?thesis unfolding extends_def by blast
qed

lemma extends_note: "bought es = [] \<Longrightarrow> extends [] r (note_ev es r)"
  by (simp add: extends_def note_ev_def)

lemma extends_skips [simp]:
  "extends bs r (r'\<lparr>rd_skips := s\<rparr>) = extends bs r r'" "extends bs (r\<lparr>rd_skips := s\<rparr>) r' = extends bs r r'"
  by (simp_all add: extends_def)

lemma extends_place:
  "extends [(mid, token, price, n)] r (snd (record_place mid token sd x n (count_buy mid token price n r)))"
  by (auto simp: extends_def note_ev_def record_place_def count_buy_def split: option.split)

lemma place_all_extends:
  "place_all v cap mid token sd x xs r = (stop, r') \<Longrightarrow>
   \<exists>ys. subseq ys xs \<and> extends (map (\<lambda>q. (mid, token, q)) ys) r r'"
proof (induction xs arbitrary: r)
  case Nil
  then show ?case by (auto intro: exI [of _ "[]"])
next
  case (Cons q xs)
  obtain price n where q: "q = (price, n)" by fastforce
  show ?case
  proof (cases "vn_buy v token price n")
    case False
    let ?r0 = "note_ev [P_buy mid token price n False] r"
    from Cons.prems False q have "place_all v cap mid token sd x xs ?r0 = (stop, r')" by simp
    from Cons.IH [OF this] obtain ys where ys: "subseq ys xs" "extends (map (\<lambda>q. (mid, token, q)) ys) ?r0 r'" by blast
    have "extends [] r ?r0" by (rule extends_note) simp
    from extends_trans [OF this ys(2)] ys(1) show ?thesis by (intro exI [of _ ys]) (simp add: list_emb_Cons)
  next
    case True
    obtain checked r2 where r2: "record_place mid token sd x n (count_buy mid token price n r) = (checked, r2)" by fastforce
    have one: "extends [(mid, token, price, n)] r r2" using extends_place [of mid token price n r sd x] r2 by simp
    show ?thesis
    proof (cases "checked \<and> reached cap r2")
      case True
      with Cons.prems \<open>vn_buy v token price n\<close> q r2 have "r' = r2" by simp
      with one q show ?thesis by (intro exI [of _ "[q]"]) simp
    next
      case False
      with Cons.prems \<open>vn_buy v token price n\<close> q r2 have "place_all v cap mid token sd x xs r2 = (stop, r')" by auto
      from Cons.IH [OF this] obtain ys where "subseq ys xs" "extends (map (\<lambda>q. (mid, token, q)) ys) r2 r'" by blast
      with extends_trans [OF one this(2)] q show ?thesis by (intro exI [of _ "q # ys"]) simp
    qed
  qed
qed

lemma note_skips [simp]: "note_ev es (r\<lparr>rd_skips := s\<rparr>) = (note_ev es r)\<lparr>rd_skips := s\<rparr>"
  by (simp add: note_ev_def)

lemma extends_cancel: "extends [] r (cancel_ids v mid kind ids r)"
  by (simp add: cancel_ids_def extends_note)

lemma extends_skip: "extends [] r (record_skip v mid token sd x r)"
  by (cases x) (auto simp: record_skip_def Let_def extends_note)

lemma reconcile_subseq: "subseq (snd (reconcile_buy_orders ladder resting tol)) ladder"
  by (simp add: reconcile_buy_orders_def split_beta Let_def)

lemma subseq_as_list: "subseq ys (as_list x) \<Longrightarrow> ys = [] \<or> (\<exists>q. x = Some q \<and> ys = [q])"
  by (cases x; cases ys) (auto simp: as_list_def dest: list_emb_Nil2 split: if_splits)

text \<open>A side buys at most the order planned for it, and nothing when its token is held.\<close>

lemma side_step_extends:
  assumes "side_step v cap tm helds budget_ok mid s pr orders r = (stop, r')"
  shows "\<exists>bs. extends bs r r' \<and> (bs = [] \<or> (\<exists>token sd p n. s = Some (token, sd) \<and> token \<notin> helds \<and> budget_ok \<and>
    fst pr = Some (p, n) \<and> bs = [(mid, token, p, n)]))"
proof (cases s)
  case None
  then show ?thesis using assms by (auto simp: side_step_def intro: exI [of _ "[]"])
next
  case (Some a)
  then obtain token sd where s: "s = Some (token, sd)" by (cases a) auto
  have core: "\<exists>ys. subseq ys ladder \<and> extends (map (\<lambda>q. (mid, token, q)) ys) r r'"
    if "place_all v cap mid token sd (snd pr) (snd (reconcile_buy_orders ladder resting tol))
          (cancel_ids v mid kind (fst (reconcile_buy_orders ladder resting tol)) r) = (st, r1)"
      "r' = r1 \<or> r' = record_skip v mid token sd (snd pr) r1" for ladder resting tol kind st r1
  proof -
    from place_all_extends [OF that(1)] obtain ys where ys: "subseq ys (snd (reconcile_buy_orders ladder resting tol))"
      "extends (map (\<lambda>q. (mid, token, q)) ys) (cancel_ids v mid kind (fst (reconcile_buy_orders ladder resting tol)) r) r1" by blast
    from extends_trans [OF extends_cancel ys(2)] have "extends (map (\<lambda>q. (mid, token, q)) ys) r r1" by simp
    moreover from extends_trans [OF this extends_skip] have "extends (map (\<lambda>q. (mid, token, q)) ys) r (record_skip v mid token sd (snd pr) r1)" by simp
    moreover have "subseq ys ladder" using ys(1) reconcile_subseq subseq_order.order_trans by blast
    ultimately show ?thesis using that(2) by blast
  qed
  consider "token \<in> helds" | "token \<notin> helds" "budget_ok" | "token \<notin> helds" "\<not> budget_ok" by blast
  then show ?thesis
  proof cases
    case 1
    with assms s obtain st r1 where "place_all v cap mid token sd (snd pr) (snd (reconcile_buy_orders [] (buys_of_token orders token) (1 / 100)))
          (cancel_ids v mid ''side_pause_cancel'' (fst (reconcile_buy_orders [] (buys_of_token orders token) (1 / 100))) r) = (st, r1)"
      "r' = r1 \<or> r' = record_skip v mid token sd (snd pr) r1"
      by (auto simp: side_step_def Let_def split_beta split: if_splits) (metis prod.collapse)+
    from core [OF this] show ?thesis by auto
  next
    case 2
    with assms s obtain st r1 where "place_all v cap mid token sd (snd pr)
          (snd (reconcile_buy_orders (as_list (fst pr)) (buys_of_token orders token) (tolerance tm)))
          (cancel_ids v mid ''buy_reconcile_cancel'' (fst (reconcile_buy_orders (as_list (fst pr)) (buys_of_token orders token) (tolerance tm))) r) = (st, r1)"
      "r' = r1 \<or> r' = record_skip v mid token sd (snd pr) r1"
      by (auto simp: side_step_def Let_def split_beta split: if_splits) (metis prod.collapse)+
    from core [OF this] obtain ys where "subseq ys (as_list (fst pr))" "extends (map (\<lambda>q. (mid, token, q)) ys) r r'" by blast
    with subseq_as_list [OF this(1)] 2 s show ?thesis by force
  next
    case 3
    with assms s show ?thesis by (auto simp: side_step_def intro: exI [of _ "[]"])
  qed
qed

section \<open>Prices and amounts of a market\<close>

definition fits_side :: "side \<Rightarrow> rat \<Rightarrow> int \<Rightarrow> bool" where
  "fits_side s p n \<longleftrightarrow> sd_rmin s \<le> p \<and> p \<le> sd_rmax s \<and> sd_min_size s \<le> of_int n"

definition sound_plan :: "side option \<Rightarrow> side option \<Rightarrow> rat \<Rightarrow> int \<Rightarrow> (rat \<times> int) option \<Rightarrow> (rat \<times> int) option \<Rightarrow> bool" where
  "sound_plan ca cb budget left a b \<longleftrightarrow>
     order_cost a + order_cost b \<le> max 0 budget \<and> order_shares a + order_shares b \<le> max 0 left \<and>
     0 \<le> order_cost a \<and> 0 \<le> order_cost b \<and> 0 \<le> order_shares a \<and> 0 \<le> order_shares b \<and>
     (\<forall>p n. a = Some (p, n) \<longrightarrow> (\<exists>s. ca = Some s \<and> fits_side s p n)) \<and>
     (\<forall>p n. b = Some (p, n) \<longrightarrow> (\<exists>s. cb = Some s \<and> fits_side s p n))"

lemma sound_planI:
  assumes "order_cost a + order_cost b \<le> max 0 budget \<and> order_shares a + order_shares b \<le> max 0 left \<and>
      0 \<le> order_cost a \<and> 0 \<le> order_cost b \<and> 0 \<le> order_shares a \<and> 0 \<le> order_shares b"
    and "(\<forall>p n. a = Some (p, n) \<longrightarrow> (\<exists>s w. ca = Some s \<and> quote s = Some (p, w) \<and> n \<le> w \<and>
        sd_rmin s \<le> p \<and> p \<le> sd_rmax s \<and> sd_min_size s \<le> of_int n)) \<and>
      (\<forall>p n. b = Some (p, n) \<longrightarrow> (\<exists>s w. cb = Some s \<and> quote s = Some (p, w) \<and> n \<le> w \<and>
        sd_rmin s \<le> p \<and> p \<le> sd_rmax s \<and> sd_min_size s \<le> of_int n))"
  shows "sound_plan ca cb budget left a b"
proof -
  have "\<exists>s. ca = Some s \<and> fits_side s p n" if "a = Some (p, n)" for p n
    using that assms(2) unfolding fits_side_def by metis
  moreover have "\<exists>s. cb = Some s \<and> fits_side s p n" if "b = Some (p, n)" for p n
    using that assms(2) unfolding fits_side_def by metis
  ultimately show ?thesis using assms(1) unfolding sound_plan_def by simp
qed

text \<open>Both pricing engines keep the contract of the locale, so the plan is sound whichever is chosen.\<close>

lemma price_sides_sound:
  assumes "price_sides tm cfg balance ca cb budget left = Some (pa, pb)"
  shows "sound_plan ca cb budget left (fst pa) (fst pb)"
proof (cases "tm_mode tm = ''legacy_wall''")
  case True
  obtain a b where ab: "plan_market (legacy_quote (wall_config tm balance)) ca cb budget left = (a, b)" by fastforce
  with True assms have "fst pa = a" "fst pb = b"
    by (auto simp: price_sides_def Let_def compute_market_legacy_orders_def split: option.splits)
  moreover have "sound_plan ca cb budget left a b"
    using legacy.within_budget [OF ab] legacy.every_order [OF ab] by (rule sound_planI)
  ultimately show ?thesis by simp
next
  case False
  obtain a b where ab: "plan_market (gap_quote cfg) ca cb budget left = (a, b)" by fastforce
  with False assms have "fst pa = a" "fst pb = b"
    by (auto simp: price_sides_def Let_def compute_market_single_orders_def)
  moreover have "sound_plan ca cb budget left a b"
    using gap.within_budget [OF ab] gap.every_order [OF ab] by (rule sound_planI)
  ultimately show ?thesis by simp
qed

definition buy_cost :: "(string \<times> string \<times> rat \<times> int) list \<Rightarrow> rat" where
  "buy_cost bs = sum_list (map (\<lambda>(m, t, p, n). p * of_int n) bs)"

definition buy_shares :: "(string \<times> string \<times> rat \<times> int) list \<Rightarrow> int" where
  "buy_shares bs = sum_list (map (\<lambda>(m, t, p, n). n) bs)"

lemma buy_sums [simp]:
  "buy_cost [] = 0" "buy_shares [] = 0" "buy_cost ((m, t, p, n) # bs) = p * of_int n + buy_cost bs"
  "buy_shares ((m, t, p, n) # bs) = n + buy_shares bs" "buy_cost (as @ bs) = buy_cost as + buy_cost bs"
  "buy_shares (as @ bs) = buy_shares as + buy_shares bs"
  by (simp_all add: buy_cost_def buy_shares_def)

text \<open>The buys of one market: of tokens that are not held, inside the reward range of the book, not below the
minimum, and together within what the balance and both exposure limits leave.\<close>

definition sound_buys ::
    "venue \<Rightarrow> template \<Rightarrow> string set \<times> (string \<Rightarrow> rat option) \<times> (string \<Rightarrow> rat option) \<Rightarrow> (string \<times> side) list \<Rightarrow> string \<Rightarrow>
     (string \<times> string \<times> rat \<times> int) list \<Rightarrow> bool" where
  "sound_buys v tm hold sides mid bs \<longleftrightarrow>
     (\<forall>m t p n. (m, t, p, n) \<in> set bs \<longrightarrow> m = mid \<and> t \<notin> fst hold \<and> (\<exists>sd. (t, sd) \<in> set sides \<and> fits_side sd p n)) \<and>
     (bs \<noteq> [] \<longrightarrow> (\<exists>balance. vn_balance v mid = Some balance \<and>
        buy_cost bs \<le> market_budget tm balance (fst (snd hold)) mid)) \<and>
     buy_shares bs \<le> market_shares tm (snd (snd hold)) mid"

lemma sound_buys_Nil [simp]: "sound_buys v tm hold sides mid []"
  by (simp add: sound_buys_def market_shares_def)

lemma market_trade_sound:
  assumes "market_trade v cap tm hold orders cfg mid sides r = (f, r')"
  shows "\<exists>bs. extends bs r r' \<and> sound_buys v tm hold sides mid bs"
proof -
  obtain helds val shares where hold: "hold = (helds, val, shares)" using prod_cases3 by blast
  show ?thesis
  proof (cases "\<exists>a others balance. sides = a # others \<and> vn_balance v mid = Some balance")
    case False
    then have "r' = r" using assms hold by (auto simp: market_trade_def Let_def split: list.splits option.splits)
    then show ?thesis by (intro exI [of _ "[]"]) simp
  next
    case True
    then obtain a others balance where sides: "sides = a # others" and balance: "vn_balance v mid = Some balance" by blast
    let ?b = "case others of [] \<Rightarrow> None | s # ss \<Rightarrow> Some s"
    let ?budget = "market_budget tm balance val mid" and ?left = "market_shares tm shares mid"
    let ?ok = "0 < ?budget \<and> 0 < ?left"
    have b: "?b = Some x \<Longrightarrow> x \<in> set sides" for x using sides by (auto split: list.splits)
    show ?thesis
    proof (cases "if ?ok then price_sides tm cfg balance (active helds (Some a)) (active helds ?b) ?budget ?left
        else Some ((None, None), (None, None))")
      case None
      then have "r' = r" using assms hold sides balance by (simp add: market_trade_def Let_def)
      then show ?thesis by (intro exI [of _ "[]"]) simp
    next
      case (Some ps)
      obtain pa pb where ps: "ps = (pa, pb)" using prod.exhaust by blast
      have run: "both_sides v cap tm helds ?ok mid (Some a) ?b ps orders r = (f, r')"
        using assms hold sides balance Some by (simp add: market_trade_def Let_def)
      have plan: "sound_plan (active helds (Some a)) (active helds ?b) ?budget ?left (fst pa) (fst pb)" if ?ok
        using Some ps that by (intro price_sides_sound) (simp split: if_splits)
      obtain stop r1 where one: "side_step v cap tm helds ?ok mid (Some a) pa orders r = (stop, r1)" by fastforce
      from side_step_extends [OF one] obtain bs1 where bs1: "extends bs1 r r1"
        "bs1 = [] \<or> (\<exists>token sd p n. Some a = Some (token, sd) \<and> token \<notin> helds \<and> ?ok \<and> fst pa = Some (p, n) \<and> bs1 = [(mid, token, p, n)])"
        by blast
      obtain bs2 where bs2: "extends bs2 r1 r'"
        "bs2 = [] \<or> (\<exists>token sd p n. ?b = Some (token, sd) \<and> token \<notin> helds \<and> ?ok \<and> fst pb = Some (p, n) \<and> bs2 = [(mid, token, p, n)])"
      proof (cases stop)
        case True
        then have "r' = r1" using run one ps by (simp add: both_sides_def)
        then show ?thesis by (intro that [of "[]"]) simp_all
      next
        case False
        obtain st where "side_step v cap tm helds ?ok mid ?b pb orders r1 = (st, r')"
          using run one ps False by (auto simp: both_sides_def Let_def split: prod.splits)
        from side_step_extends [OF this] show ?thesis using that by blast
      qed
      have "sound_buys v tm hold sides mid (bs1 @ bs2)"
      proof (cases ?ok)
        case False
        then show ?thesis using bs1(2) bs2(2) by auto
      next
        case True
        note p = plan [OF True, unfolded sound_plan_def]
        have c1: "buy_cost bs1 \<le> order_cost (fst pa)" "buy_shares bs1 \<le> order_shares (fst pa)"
          using bs1(2) p by (auto simp: order_cost_def order_shares_def)
        have c2: "buy_cost bs2 \<le> order_cost (fst pb)" "buy_shares bs2 \<le> order_shares (fst pb)"
          using bs2(2) p by (auto simp: order_cost_def order_shares_def)
        have m1: "m = mid \<and> t \<notin> helds \<and> (\<exists>sd. (t, sd) \<in> set sides \<and> fits_side sd p' n)" if "(m, t, p', n) \<in> set bs1" for m t p' n
          using that bs1(2) p sides by (auto simp: active_def)
        have m2: "m = mid \<and> t \<notin> helds \<and> (\<exists>sd. (t, sd) \<in> set sides \<and> fits_side sd p' n)" if "(m, t, p', n) \<in> set bs2" for m t p' n
          using that bs2(2) p b by (fastforce simp: active_def)
        have "buy_cost (bs1 @ bs2) \<le> ?budget" "buy_shares (bs1 @ bs2) \<le> ?left"
          using c1 c2 p True by simp_all
        with m1 m2 balance show ?thesis unfolding sound_buys_def hold fst_conv snd_conv by auto
      qed
      with extends_trans [OF bs1(1) bs2(1)] show ?thesis by blast
    qed
  qed
qed

section \<open>The whole round\<close>

definition allowed :: "venue \<Rightarrow> string \<Rightarrow> bool" where
  "allowed v mid \<longleftrightarrow> mid \<notin> vn_blacklist v \<and> \<not> in_resolution (vn_resolution v mid) \<and> \<not> vn_cooldown v mid"

abbreviation sides_of :: "venue \<Rightarrow> entry list \<Rightarrow> string \<Rightarrow> (string \<times> side) list" where
  "sides_of v es mid \<equiv> List.map_filter (build_side v) (filter (\<lambda>e. en_market e = mid) es)"

lemma market_step_sound:
  assumes "market_step v cap tm hold orders es mid r = (f, r')"
  shows "\<exists>bs. extends bs r r' \<and> sound_buys v tm hold (sides_of v es mid) mid bs \<and>
    (bs \<noteq> [] \<longrightarrow> allowed v mid \<and> may_open tm mid r)"
proof (cases "r' = r")
  case True
  then show ?thesis by (intro exI [of _ "[]"]) simp
next
  case False
  with assms obtain cfg where "allowed v mid" "may_open tm mid r"
    "market_trade v cap tm hold orders cfg mid (sides_of v es mid) r = (f, r')"
    by (auto simp: market_step_def allowed_def Let_def split: if_splits sum.splits option.splits)
  with market_trade_sound [OF this(3)] show ?thesis by blast
qed

definition of_market :: "string \<Rightarrow> (string \<times> string \<times> rat \<times> int) list \<Rightarrow> (string \<times> string \<times> rat \<times> int) list" where
  "of_market mid bs = filter (\<lambda>b. fst b = mid) bs"

lemma of_market_append [simp]: "of_market mid (as @ bs) = of_market mid as @ of_market mid bs" "of_market mid [] = []"
  by (simp_all add: of_market_def)

lemma sound_buys_market: "sound_buys v tm hold sides mid bs \<Longrightarrow> of_market m bs = (if m = mid then bs else [])"
  unfolding sound_buys_def of_market_def by (auto simp: filter_empty_conv filter_id_conv)

lemma market_loop_sound:
  "market_loop v cap tm hold orders es mids r = (f, r') \<Longrightarrow> distinct mids \<Longrightarrow> finite (rd_open r) \<Longrightarrow>
   \<exists>bs. extends bs r r' \<and> (\<forall>m. sound_buys v tm hold (sides_of v es m) m (of_market m bs)) \<and>
     (\<forall>b \<in> set bs. fst b \<in> set mids \<and> allowed v (fst b)) \<and>
     int (card (rd_open r')) \<le> max (int (card (rd_open r))) (max_concurrent tm)"
proof (induction mids arbitrary: r)
  case Nil
  then show ?case by (auto intro!: exI [of _ "[]"])
next
  case (Cons mid mids)
  obtain f1 r1 where one: "market_step v cap tm hold orders es mid r = (f1, r1)" by fastforce
  from market_step_sound [OF one] obtain as where as: "extends as r r1" "sound_buys v tm hold (sides_of v es mid) mid as"
    "as \<noteq> [] \<longrightarrow> allowed v mid \<and> may_open tm mid r" by blast
  have mids: "\<forall>b \<in> set as. fst b = mid" using as(2) by (auto simp: sound_buys_def)
  have open1: "rd_open r1 = (if as = [] then rd_open r else insert mid (rd_open r))"
    using as(1) mids by (cases as) (auto simp: extends_def)
  have fin: "finite (rd_open r1)" using open1 Cons.prems(3) by simp
  have card1: "int (card (rd_open r1)) \<le> max (int (card (rd_open r))) (max_concurrent tm)"
    using open1 as(3) Cons.prems(3) by (cases "mid \<in> rd_open r") (auto simp: may_open_def insert_absorb)
  have sound1: "sound_buys v tm hold (sides_of v es m) m (of_market m as)" for m
    using as(2) sound_buys_market [OF as(2), of m] by simp
  show ?case
  proof (cases "f1 = Go")
    case False
    with Cons.prems one have "r' = r1" by auto
    with as sound1 card1 mids show ?thesis by (intro exI [of _ as]) auto
  next
    case True
    with Cons.prems one have "market_loop v cap tm hold orders es mids r1 = (f, r')" by simp
    from Cons.IH [OF this _ fin] Cons.prems(2) obtain bs where bs: "extends bs r1 r'"
      "\<forall>m. sound_buys v tm hold (sides_of v es m) m (of_market m bs)" "\<forall>b \<in> set bs. fst b \<in> set mids \<and> allowed v (fst b)"
      "int (card (rd_open r')) \<le> max (int (card (rd_open r1))) (max_concurrent tm)" by auto
    have "sound_buys v tm hold (sides_of v es m) m (of_market m (as @ bs))" for m
    proof (cases "m = mid")
      case True
      then have "of_market m bs = []" using bs(3) Cons.prems(2) by (auto simp: of_market_def filter_empty_conv)
      then show ?thesis using sound1 by simp
    next
      case False
      then show ?thesis using bs(2) sound_buys_market [OF as(2), of m] by simp
    qed
    moreover have "\<forall>b \<in> set (as @ bs). fst b \<in> set (mid # mids) \<and> allowed v (fst b)"
      using bs(3) as(3) mids by auto
    moreover have "int (card (rd_open r')) \<le> max (int (card (rd_open r))) (max_concurrent tm)"
      using bs(4) card1 by linarith
    ultimately show ?thesis using extends_trans [OF as(1) bs(1)] by blast
  qed
qed

lemma market_order [simp]: "set (market_order es) = en_market ` set es" "distinct (market_order es)"
  by (simp_all add: market_order_def)

lemma finite_open [simp]: "finite (open_markets orders)"
  by (simp add: open_markets_def)

lemma cancel_dropped_open:
  "rd_open (cancel_dropped v es orders r) \<subseteq> rd_open r" "rd_placed (cancel_dropped v es orders r) = rd_placed r"
  "bought (rd_log r) = [] \<Longrightarrow> bought (rd_log (cancel_dropped v es orders r)) = []"
  by (auto simp: cancel_dropped_def Let_def note_ev_def)

text \<open>The round as a whole, for its properties below.\<close>

lemma place_orders_sound:
  assumes "place_orders v tm es cap cd skips = (f, r)" "vn_orders v = Some orders" "vn_positions v = Some ps"
  shows "\<forall>m. sound_buys v tm (held_side_info ps) (sides_of v es m) m (of_market m (bought (rd_log r)))"
    "\<forall>b \<in> set (bought (rd_log r)). allowed v (fst b) \<and> fst b \<in> rd_open r"
    "rd_placed r = length (bought (rd_log r))"
    "int (card (rd_open r)) \<le> max (int (card (open_markets orders))) (max_concurrent tm)"
proof -
  let ?r = "\<lparr>rd_placed = 0, rd_open = open_markets orders, rd_skips = skips, rd_log = []\<rparr>"
  let ?start = "if cd then cancel_dropped v es orders ?r else ?r"
  have loop: "market_loop v cap tm (held_side_info ps) orders es (market_order es) ?start = (f, r)"
    using assms by (cases cd) (simp_all add: place_orders_def Let_def)
  have r0: "rd_open ?start \<subseteq> open_markets orders" "rd_placed ?start = 0" "bought (rd_log ?start) = []"
    using cancel_dropped_open [where v = v and es = es and orders = orders and r = ?r] by auto
  have fin: "finite (rd_open ?start)" using r0(1) finite_open by (rule finite_subset)
  from market_loop_sound [OF loop market_order(2) fin] obtain bs where bs: "extends bs ?start r"
    "\<forall>m. sound_buys v tm (held_side_info ps) (sides_of v es m) m (of_market m bs)" "\<forall>b \<in> set bs. allowed v (fst b)"
    "int (card (rd_open r)) \<le> max (int (card (rd_open ?start))) (max_concurrent tm)" by blast
  have log: "bought (rd_log r) = bs" using bs(1) r0(3) by (auto simp: extends_def)
  show "\<forall>m. sound_buys v tm (held_side_info ps) (sides_of v es m) m (of_market m (bought (rd_log r)))"
    using bs(2) log by simp
  show "\<forall>b \<in> set (bought (rd_log r)). allowed v (fst b) \<and> fst b \<in> rd_open r"
    using bs(1,3) log by (auto simp: extends_def)
  show "rd_placed r = length (bought (rd_log r))" using bs(1) r0(2) log by (simp add: extends_def)
  have "card (rd_open ?start) \<le> card (open_markets orders)" using r0(1) by (intro card_mono) simp_all
  with bs(4) show "int (card (rd_open r)) \<le> max (int (card (open_markets orders))) (max_concurrent tm)" by linarith
qed

section \<open>The limit of a round\<close>

text \<open>Texts of a decision that places: formatting never fails, so the limit is always tested.\<close>

definition printable_place :: "side \<Rightarrow> explained option \<Rightarrow> bool" where
  "printable_place sd x \<longleftrightarrow> (places x \<longrightarrow> (\<forall>n. place_texts sd n (the x) \<noteq> None))"

lemma same_texts:
  "gap_single_reason (d\<lparr>d_shares := n\<rparr>) = gap_single_reason d"
  "gap_single_price_basis (d\<lparr>d_shares := n\<rparr>) lo hi = gap_single_price_basis d lo hi"
  by (simp_all add: gap_single_reason_def gap_single_price_basis_def gate_shown_def Let_def
      cong: option.case_cong bool.case_cong if_cong)

lemma place_texts_total:
  assumes "\<And>d n. x = By_gap d \<Longrightarrow> gap_single_reason (d\<lparr>d_shares := Some n\<rparr>) \<noteq> None \<and>
      gap_single_price_basis (d\<lparr>d_shares := Some n\<rparr>) (sd_rmin sd) (sd_rmax sd) \<noteq> None"
    and "\<And>d n. x = By_wall d \<Longrightarrow> wd_place d \<Longrightarrow> legacy_reason (d\<lparr>wd_shares := Some n\<rparr>) \<noteq> None \<and>
      legacy_price_basis (d\<lparr>wd_shares := Some n\<rparr>) (sd_rmin sd) (sd_rmax sd) \<noteq> None"
  shows "printable_place sd (Some x)"
proof (cases x)
  case (By_gap d)
  show ?thesis unfolding printable_place_def place_texts_def By_gap option.sel explained.case
    using assms(1) [OF By_gap] by (simp del: not_None_eq split: option.split)
next
  case (By_wall d)
  show ?thesis unfolding printable_place_def place_texts_def By_wall option.sel explained.case
    using assms(2) [OF By_wall] by (simp add: places_def del: not_None_eq split: option.split)
qed

lemma gap_printable: "printable_place sd (gap_explained cfg (Some s))"
proof -
  let ?d = "explain_gap_single_order cfg (sd_bids s) (sd_rmin s) (sd_rmax s) (sd_min_size s)"
  have "gap_single_reason (?d\<lparr>d_shares := Some n\<rparr>) = gap_single_reason ?d"
    "gap_single_price_basis (?d\<lparr>d_shares := Some n\<rparr>) lo hi = gap_single_price_basis ?d lo hi" for n lo hi
    by (simp_all add: same_texts)
  with gap_texts_total [of cfg "sd_bids s" "sd_rmin s" "sd_rmax s" "sd_min_size s" "sd_rmin sd" "sd_rmax sd"]
  show ?thesis unfolding gap_explained_def option.map
    by (intro place_texts_total) (simp_all add: same_texts del: not_None_eq)
qed

lemma legacy_printable:
  assumes "legacy_explained cfg (Some s) = Some x" "0 \<le> sd_tick s" "0 \<le> sd_max_spread s"
  shows "printable_place sd x"
proof -
  from assms(1) obtain d where d: "x = Some (By_wall d)"
    "explain_legacy_order cfg (sd_bids s) (of_int (int_trunc (sd_max_spread s))) (sd_tick s) (sd_rmin s) (sd_rmax s) (sd_min_size s) = Some d"
    by (auto simp: legacy_explained_def)
  then have ok: "wall_decision_ok cfg (sd_bids s) (sd_tick s) (sd_rmin s) (sd_rmax s) (sd_min_size s) d"
    using explain_legacy_ok by blast
  have "legacy_reason (d\<lparr>wd_shares := Some n\<rparr>) \<noteq> None \<and> legacy_price_basis (d\<lparr>wd_shares := Some n\<rparr>) lo hi \<noteq> None"
    if "wd_place d" for n lo hi
    using that ok
    by (auto simp: wall_decision_ok_def legacy_reason_def legacy_price_basis_def fmt_int_def pos_of_def fmt_def
        Let_def simp del: not_None_eq split: option.splits)
  then show ?thesis unfolding d(1) by (intro place_texts_total) simp_all
qed

definition capped :: "nat \<Rightarrow> flow \<times> round_state \<Rightarrow> bool" where
  "capped N fr \<longleftrightarrow> rd_placed (snd fr) \<le> N \<and> (fst fr = Go \<longrightarrow> rd_placed (snd fr) < N)"

lemma place_all_capped:
  assumes "place_all v (Some k) mid token sd x xs r = (stop, r')" "printable_place sd x" "rd_placed r < max 1 k"
  shows "rd_placed r' \<le> max 1 k \<and> (\<not> stop \<longrightarrow> rd_placed r' < max 1 k)"
  using assms(1,3)
proof (induction xs arbitrary: r)
  case (Cons q xs)
  obtain price n where q: "q = (price, n)" by fastforce
  show ?case
  proof (cases "vn_buy v token price n")
    case False
    with Cons.prems q Cons.IH [of "note_ev [P_buy mid token price n False] r"] show ?thesis by (simp add: note_ev_def)
  next
    case True
    obtain checked r2 where r2: "record_place mid token sd x n (count_buy mid token price n r) = (checked, r2)" by fastforce
    have "checked" using assms(2) r2
      by (auto simp: record_place_def printable_place_def simp del: not_None_eq split: if_splits option.splits)
    moreover have "rd_placed r2 = rd_placed r + 1"
      using extends_place [of mid token price n r sd x] r2 by (simp add: extends_def)
    ultimately show ?thesis using Cons.prems True q r2 Cons.IH [of r2]
      by (cases "reached (Some k) r2") (auto simp: reached_def)
  qed
qed simp

lemma placed_same [simp]:
  "rd_placed (cancel_ids v mid kind ids r) = rd_placed r" "rd_placed (record_skip v mid token sd x r) = rd_placed r"
  using extends_cancel [of r v mid kind ids] extends_skip [of r v mid token sd x] by (simp_all add: extends_def)

lemma side_step_capped:
  assumes "side_step v (Some k) tm helds ok mid s pr orders r = (stop, r')" "rd_placed r < max 1 k"
    "\<And>token sd. s = Some (token, sd) \<Longrightarrow> printable_place sd (snd pr)"
  shows "rd_placed r' \<le> max 1 k \<and> (\<not> stop \<longrightarrow> rd_placed r' < max 1 k)"
proof (cases s)
  case (Some a)
  obtain token sd where s: "s = Some (token, sd)" using Some by (cases a) auto
  have go: "rd_placed r1 \<le> max 1 k \<and> (\<not> st \<longrightarrow> rd_placed r1 < max 1 k)"
    if "place_all v (Some k) mid token sd (snd pr) xs (cancel_ids v mid kind ids r) = (st, r1)" for xs kind ids st r1
    using place_all_capped [OF that assms(3) [OF s]] assms(2) by simp
  show ?thesis
    using assms(1,2) s by (auto simp: side_step_def Let_def split: if_splits prod.splits dest: go)
qed (use assms in \<open>simp add: side_step_def\<close>)

definition proper_side :: "side \<Rightarrow> bool" where
  "proper_side sd \<longleftrightarrow> 0 \<le> sd_tick sd \<and> 0 \<le> sd_max_spread sd"

lemma price_sides_printable:
  assumes "price_sides tm cfg balance ca cb budget left = Some (pa, pb)"
    "\<And>s. ca = Some s \<Longrightarrow> proper_side s" "\<And>s. cb = Some s \<Longrightarrow> proper_side s"
  shows "printable_place sd (snd pa)" "printable_place sd (snd pb)"
proof -
  have none: "printable_place sd None" by (simp add: printable_place_def places_def)
  have g: "printable_place sd (gap_explained cfg s)" for s
    using none gap_printable by (cases s) (simp_all add: gap_explained_def)
  have l: "printable_place sd x" if "legacy_explained w s = Some x" "\<And>s'. s = Some s' \<Longrightarrow> proper_side s'" for w s x
    using none that legacy_printable [of w _ x sd]
    by (cases s) (auto simp: legacy_explained_def proper_side_def)
  show "printable_place sd (snd pa)" "printable_place sd (snd pb)"
    using assms g l by (auto simp: price_sides_def Let_def split: if_splits prod.splits option.splits)
qed

lemma both_sides_capped:
  assumes "rd_placed r < max 1 k" "\<And>sd. printable_place sd (snd (fst ps))" "\<And>sd. printable_place sd (snd (snd ps))"
  shows "capped (max 1 k) (both_sides v (Some k) tm helds ok mid a b ps orders r)"
proof -
  obtain st r1 where one: "side_step v (Some k) tm helds ok mid a (fst ps) orders r = (st, r1)" by fastforce
  obtain st2 r2 where two: "side_step v (Some k) tm helds ok mid b (snd ps) orders r1 = (st2, r2)" by fastforce
  have c1: "rd_placed r1 \<le> max 1 k \<and> (\<not> st \<longrightarrow> rd_placed r1 < max 1 k)"
    using side_step_capped [OF one assms(1)] assms(2) by blast
  have c2: "rd_placed r2 \<le> max 1 k \<and> (\<not> st2 \<longrightarrow> rd_placed r2 < max 1 k)" if "\<not> st"
    using side_step_capped [OF two] c1 that assms(3) by blast
  show ?thesis using c1 c2 one two by (simp add: both_sides_def capped_def)
qed

lemma market_trade_capped:
  assumes "rd_placed r < max 1 k" "\<And>t sd. (t, sd) \<in> set sides \<Longrightarrow> proper_side sd"
  shows "capped (max 1 k) (market_trade v (Some k) tm hold orders cfg mid sides r)"
proof -
  obtain helds val shares where hold: "hold = (helds, val, shares)" using prod_cases3 by blast
  have stay: "capped (max 1 k) (f, r)" for f using assms(1) by (simp add: capped_def)
  show ?thesis
  proof (cases "\<exists>a others balance. sides = a # others \<and> vn_balance v mid = Some balance")
    case False
    then show ?thesis using stay hold by (auto simp: market_trade_def Let_def split: list.split option.split)
  next
    case True
    then obtain a others balance where sides: "sides = a # others" and balance: "vn_balance v mid = Some balance" by blast
    let ?b = "case others of [] \<Rightarrow> None | s # ss \<Rightarrow> Some s"
    have proper: "active helds (Some a) = Some s \<Longrightarrow> proper_side s" "active helds ?b = Some s \<Longrightarrow> proper_side s" for s
      using assms(2) sides by (cases a; force simp: active_def split: list.splits if_splits)+
    let ?plan = "\<lambda>budget left. if 0 < budget \<and> 0 < left
      then price_sides tm cfg balance (active helds (Some a)) (active helds ?b) budget left else Some ((None, None), (None, None))"
    have pr: "printable_place sd (snd (fst ps)) \<and> printable_place sd (snd (snd ps))" if "?plan budget left = Some ps" for budget left ps sd
    proof (cases "0 < budget \<and> 0 < left")
      case True
      then show ?thesis
        using that price_sides_printable [where pa = "fst ps" and pb = "snd ps", OF _ proper(1) proper(2)] by simp
    next
      case False
      then show ?thesis using that by (auto simp: printable_place_def places_def)
    qed
    let ?budget = "market_budget tm balance val mid" and ?left = "market_shares tm shares mid"
    show ?thesis
    proof (cases "?plan ?budget ?left")
      case None
      then show ?thesis using stay hold sides balance by (simp add: market_trade_def Let_def)
    next
      case (Some ps)
      have "capped (max 1 k) (both_sides v (Some k) tm helds (0 < ?budget \<and> 0 < ?left) mid (Some a) ?b ps orders r)"
        using both_sides_capped [OF assms(1)] pr [OF Some] by blast
      then show ?thesis using hold sides balance Some by (simp add: market_trade_def Let_def)
    qed
  qed
qed

definition proper_venue :: "venue \<Rightarrow> entry list \<Rightarrow> bool" where
  "proper_venue v es \<longleftrightarrow> list_all (\<lambda>e. 0 \<le> en_spread e \<and>
     (case vn_book v (en_token e) of None \<Rightarrow> True | Some b \<Rightarrow> 0 \<le> qb_tick b)) es"

lemma sides_of_proper:
  assumes "proper_venue v es" "(t, sd) \<in> set (sides_of v es mid)"
  shows "proper_side sd"
proof -
  from assms(2) obtain e where "e \<in> set es" "build_side v e = Some (t, sd)"
    by (auto simp: map_filter_def)
  moreover from this assms(1) have "0 \<le> en_spread e" "case vn_book v (en_token e) of None \<Rightarrow> True | Some b \<Rightarrow> 0 \<le> qb_tick b"
    by (auto simp: proper_venue_def list_all_iff)
  ultimately show ?thesis
    by (auto simp: build_side_def proper_side_def Let_def split_beta split: option.splits list.splits)
qed

lemma market_loop_capped:
  assumes "proper_venue v es"
  shows "rd_placed r < max 1 k \<Longrightarrow> capped (max 1 k) (market_loop v (Some k) tm hold orders es mids r)"
proof (induction mids arbitrary: r)
  case Nil
  then show ?case by (simp add: capped_def)
next
  case (Cons mid mids)
  have "capped (max 1 k) (market_step v (Some k) tm hold orders es mid r)"
    using market_trade_capped [OF Cons.prems sides_of_proper [OF assms]] Cons.prems
    by (auto simp: market_step_def Let_def capped_def split: sum.split option.split)
  with Cons.IH show ?case by (auto simp: capped_def split: prod.split)
qed

section \<open>Properties\<close>

text \<open>C13: in a placement round, every accepted buy is in a market that is not blacklisted, not in UMA
resolution and not in its cooldown, on a token the wallet does not hold, at a price inside
the reward range of that token's current book and with at least the market's minimal size;
and its market is counted as open.\<close>

theorem placement_guards:
  assumes "place_orders v tm es cap cd skips = (f, r)" "vn_orders v = Some orders" "vn_positions v = Some ps"
    and "(mid, token, p, n) \<in> set (bought (rd_log r))"
  shows "mid \<notin> vn_blacklist v \<and> \<not> in_resolution (vn_resolution v mid) \<and> \<not> vn_cooldown v mid \<and> mid \<in> rd_open r \<and>
    \<not> (\<exists>h \<in> set ps. held h \<and> hd_asset h = token \<and> token \<noteq> '''') \<and>
    (\<exists>e \<in> set es. en_market e = mid \<and> en_token e = token \<and> of_int (en_min_size e) \<le> (of_int n :: rat) \<and>
      (\<exists>sd. build_side v e = Some (token, sd) \<and> sd_rmin sd \<le> p \<and> p \<le> sd_rmax sd))"
proof -
  obtain helds val shares where hold: "held_side_info ps = (helds, val, shares)" using prod_cases3 by blast
  note s = place_orders_sound [OF assms(1-3)]
  have "allowed v mid" "mid \<in> rd_open r" using s(2) assms(4) by force+
  moreover have "(mid, token, p, n) \<in> set (of_market mid (bought (rd_log r)))" using assms(4) by (simp add: of_market_def)
  with s(1) have t: "token \<notin> helds" "\<exists>sd. (token, sd) \<in> set (sides_of v es mid) \<and> fits_side sd p n"
    unfolding sound_buys_def hold fst_conv by blast+
  moreover have "\<not> (\<exists>h \<in> set ps. held h \<and> hd_asset h = token \<and> token \<noteq> '''')"
    using t(1) held_side_info_eq(1) [OF hold] by auto
  moreover from t(2) obtain sd e where e: "e \<in> set es" "en_market e = mid" "build_side v e = Some (token, sd)" "fits_side sd p n"
    by (auto simp: map_filter_def)
  moreover from e(3) have "en_token e = token" "sd_min_size sd = of_int (en_min_size e)"
    by (auto simp: build_side_def Let_def split_beta split: option.splits list.splits)
  ultimately show ?thesis unfolding allowed_def fits_side_def by metis
qed

text \<open>C14: the exposure limits hold: what a round buys in one market costs no more than the balance read for that market
and than what the exposure limit leaves after the positions already held there, and stays
within the limit of shares; and the round never opens a market beyond the maximal number
of concurrent markets.\<close>

theorem placement_within_limits:
  assumes "place_orders v tm es cap cd skips = (f, r)" "vn_orders v = Some orders" "vn_positions v = Some ps" "mid \<noteq> ''''"
  shows "buy_shares (of_market mid (bought (rd_log r))) \<le> max 0 (int_trunc (tmpl_num (tm_max_shares tm) 500) -
      int_trunc (sum_list (map (\<lambda>h. or0 (hd_size h)) (filter (\<lambda>h. held h \<and> hd_cid h = mid) ps)))) \<and>
    (of_market mid (bought (rd_log r)) = [] \<or> (\<exists>balance. vn_balance v mid = Some balance \<and>
      buy_cost (of_market mid (bought (rd_log r))) \<le> max 0 (min balance (tmpl_num (tm_max_usd tm) 250) -
        sum_list (map (\<lambda>h. or0 (hd_size h) * or0 (hd_cur h)) (filter (\<lambda>h. held h \<and> hd_cid h = mid) ps))))) \<and>
    int (card (rd_open r)) \<le> max (int (card (open_markets orders))) (max_concurrent tm)"
proof -
  obtain helds val shares where hold: "held_side_info ps = (helds, val, shares)" using prod_cases3 by blast
  note s = place_orders_sound [OF assms(1-3)]
  show ?thesis
    using s(1) [rule_format, of mid, unfolded sound_buys_def hold fst_conv snd_conv market_budget_def market_shares_def]
      held_side_info_eq(2,3) [OF hold assms(4)] s(4) by auto
qed

text \<open>A round with a limit counts its accepted buys and stops: it never places more than the limit (at least
one), whatever the texts of the records look like.\<close>

theorem placement_stops_at_limit:
  assumes "place_orders v tm es (Some k) cd skips = (f, r)" "proper_venue v es"
  shows "rd_placed r \<le> max 1 k \<and> rd_placed r = length (bought (rd_log r))"
proof (cases "\<exists>orders ps. vn_orders v = Some orders \<and> vn_positions v = Some ps")
  case False
  with assms(1) have "rd_placed r = 0 \<and> rd_log r = []" by (auto simp: place_orders_def Let_def split: option.splits)
  then show ?thesis by simp
next
  case True
  then obtain orders ps where a: "vn_orders v = Some orders" "vn_positions v = Some ps" by blast
  let ?r = "\<lparr>rd_placed = 0, rd_open = open_markets orders, rd_skips = skips, rd_log = []\<rparr>"
  let ?start = "if cd then cancel_dropped v es orders ?r else ?r"
  have loop: "market_loop v (Some k) tm (held_side_info ps) orders es (market_order es) ?start = (f, r)"
    using assms(1) a by (cases cd) (simp_all add: place_orders_def Let_def)
  have "rd_placed ?start < max 1 k" using cancel_dropped_open(2) [of v es orders ?r] by simp
  from market_loop_capped [OF assms(2) this] loop have "rd_placed r \<le> max 1 k" by (metis capped_def snd_conv)
  with place_orders_sound(3) [OF assms(1) a] show ?thesis by simp
qed

section \<open>A round that buys once\<close>

text \<open>One market with two tokens, of which the second is held; nothing rests.\<close>

definition demo_tier :: json where
  "demo_tier = J_obj [(''size'', J_int 20), (''enabled'', J_bool True), (''shares'', J_int 60),
     (''gap_high_coeff_sum_min'', J_int 0),
     (''amount_value_table'', J_list [J_obj [(''upper'', J_int 1), (''value'', J_int 2)]])]"

definition demo_template :: template where
  "demo_template = \<lparr>tm_tiers = [demo_tier], tm_wide = JNull, tm_mid = JNull, tm_cliff = JNum 0, tm_veto = JNum 20,
     tm_max_usd = JNum 20, tm_max_shares = JNull, tm_max_markets = JNum 1, tm_mode = ''gap_single'', tm_wall = JNull,
     tm_cumulative = JNull, tm_size_mode = ''min'', tm_custom_usd = JNull\<rparr>"

definition demo_quotes :: quote_book where
  "demo_quotes = \<lparr>bk_bids = [\<lparr>lv_price = 2/5, lv_size = 300\<rparr>],
     bk_asks = [\<lparr>lv_price = 21/50, lv_size = 10\<rparr>], qb_tick = 1/100\<rparr>"

definition demo_venue :: venue where
  "demo_venue = \<lparr>vn_orders = Some [], vn_positions = Some [\<lparr>hd_asset = ''n'', hd_cid = ''m'', hd_size = Some 10, hd_cur = Some (1/2)\<rparr>],
     vn_blacklist = {}, vn_cooldown = (\<lambda>_. False), vn_resolution = (\<lambda>_. None), vn_book = (\<lambda>_. Some demo_quotes),
     vn_balance = (\<lambda>_. Some 18), vn_cancel = (\<lambda>_. True), vn_buy = (\<lambda>_ _ _. True), vn_text = (\<lambda>_. ''skip'')\<rparr>"

definition demo_entries :: "entry list" where
  "demo_entries = [\<lparr>en_market = ''m'', en_token = ''y'', en_spread = 3, en_min_size = 20\<rparr>,
     \<lparr>en_market = ''m'', en_token = ''n'', en_spread = 3, en_min_size = 20\<rparr>]"

definition demo_gap :: gap_cfg where
  "demo_gap = \<lparr>gc_table = [(JNum 1, JNum 2)], gc_wide = 10, gc_mid = 5, gc_sum1 = 0, gc_sum2 = 0, gc_sum3 = 0,
     gc_min1 = 0, gc_min2 = 0, gc_min3 = 0, gc_cliff = Some 0, gc_shares = Some 60, gc_veto = Some 20\<rparr>"

definition demo_side :: side where
  "demo_side = \<lparr>sd_bids = [\<lparr>lv_price = 2/5, lv_size = 300\<rparr>], sd_rmin = 19/50, sd_rmax = 11/25, sd_min_size = 20,
     sd_max_spread = 3, sd_tick = 1/100\<rparr>"

lemma demo_gap_config: "gap_config demo_template demo_tier = Some demo_gap"
  by (simp add: gap_config_def demo_template_def demo_tier_def demo_gap_def tier_num_def tier_table_def tier_shares_def field_num_def tmpl_num_def or_else_def to_flt_def too_large_def)

lemma demo_sides: "sides_of demo_venue demo_entries ''m'' = [(''y'', demo_side), (''n'', demo_side)]"
  by (simp add: map_filter_simps demo_entries_def build_side_def demo_venue_def demo_quotes_def sort_desc_def reward_price_range_def demo_side_def)

lemma demo_tier_for: "tier_for [demo_tier] (J_int 20) = Inr (Some demo_tier)"
  by (simp add: tier_for_def tier_matches_def demo_tier_def)

lemma demo_gap_quote: "gap_quote demo_gap demo_side = Some (2/5, 60)"
  by (simp add: gap_quote_def plan_gap_single_order_def explain_gap_single_order_def demo_side_def demo_gap_def sorted_levels_def sort_desc_def max_gap_and_split_def Let_def
   in_range_def has_cliff_below_def vetoed_def classify_def annotate_def level_coeff_def amount_value_def table_rows_def int_trunc_def)

lemma demo_places: "d_place (explain_gap_single_order demo_gap (sd_bids demo_side) (sd_rmin demo_side) (sd_rmax demo_side) (sd_min_size demo_side))"
  using demo_gap_quote by (simp add: gap_quote_def plan_gap_single_order_def Let_def split: if_splits)

lemma demo_held: "held_side_info [\<lparr>hd_asset = ''n'', hd_cid = ''m'', hd_size = Some 10, hd_cur = Some (1/2)\<rparr>] = ({''n''}, [''m'' \<mapsto> 5], [''m'' \<mapsto> 10])"
  by (simp add: held_side_info_def held_step_def Let_def)

lemma demo_min_size: "sd_min_size demo_side = 20" by (simp add: demo_side_def)

lemma demo_price: "price_sides demo_template demo_gap 18 (Some demo_side) None 13 490 = Some ((Some (2/5, 32), gap_explained demo_gap (Some demo_side)), (None, None))"
proof -
  have "compute_market_single_orders demo_gap (Some demo_side) None 13 490 = (Some (2/5, 32), None)"
    by (simp add: compute_market_single_orders_def plan_market_def demo_gap_quote cap_order_def int_trunc_def Let_def demo_min_size)
  then show ?thesis by (simp add: price_sides_def demo_template_def gap_explained_def)
qed

lemma demo_budget: "market_budget demo_template 18 [''m'' \<mapsto> 5] ''m'' = 13"  "market_shares demo_template [''m'' \<mapsto> 10] ''m'' = 490"
  "vn_balance demo_venue ''m'' = Some 18"
  by (simp_all add: market_budget_def market_shares_def demo_template_def demo_venue_def tmpl_num_def int_trunc_def)

lemma demo_trade:
  assumes "sides = [(''y'', demo_side)] \<and> b = None \<or> sides = [(''y'', demo_side), (''n'', demo_side)] \<and> b = Some (''n'', demo_side)"
  shows "market_trade demo_venue cap demo_template ({''n''}, [''m'' \<mapsto> 5], [''m'' \<mapsto> 10]) [] demo_gap ''m'' sides r =
    both_sides demo_venue cap demo_template {''n''} True ''m'' (Some (''y'', demo_side)) b
      ((Some (2/5, 32), gap_explained demo_gap (Some demo_side)), (None, None)) [] r"
  using assms by (auto simp: market_trade_def active_def demo_price demo_budget Let_def)

lemma record_skip_placed [simp]: "places x \<Longrightarrow> record_skip v mid token sd x r = r" "record_skip v mid token sd None r = r"
  by (cases x; simp add: record_skip_def) (simp add: record_skip_def)

definition demo_logged :: "pevent list \<Rightarrow> bool" where
  "demo_logged l \<longleftrightarrow> (\<exists>rest. l = P_buy ''m'' ''y'' (2/5) 32 True # rest \<and> (\<forall>e \<in> set rest. \<exists>a b c d. e = P_placed a b c d))"

lemma demo_both:
  assumes "b = None \<or> b = Some (''n'', demo_side)" "cap = None \<or> cap = Some 3"
  shows "\<exists>r'. both_sides demo_venue cap demo_template {''n''} True ''m'' (Some (''y'', demo_side)) b
      ((Some (2/5, 32), gap_explained demo_gap (Some demo_side)), (None, None)) []
      \<lparr>rd_placed = 0, rd_open = {}, rd_skips = Map.empty, rd_log = []\<rparr> = (Go, r') \<and> bought (rd_log r') = [(''m'', ''y'', 2/5, 32)] \<and> demo_logged (rd_log r')"
proof -
  let ?r = "\<lparr>rd_placed = 0, rd_open = {}, rd_skips = Map.empty, rd_log = []\<rparr>"
  have y: "vn_buy demo_venue a b c" for a b c by (simp add: demo_venue_def)
  have pl: "places (gap_explained demo_gap (Some demo_side))" using demo_places by (simp add: places_def gap_explained_def)
  obtain ch r2 where rp: "record_place ''m'' ''y'' demo_side (gap_explained demo_gap (Some demo_side)) 32 (count_buy ''m'' ''y'' (2/5) 32 ?r) = (ch, r2)" by fastforce
  have r2: "extends [(''m'', ''y'', 2/5, 32)] ?r r2"
    using extends_place [of "''m''" "''y''" "2/5" 32 ?r demo_side "gap_explained demo_gap (Some demo_side)"] rp by simp
  have lg: "demo_logged (rd_log r2)"
    using rp pl by (auto simp: demo_logged_def record_place_def count_buy_def note_ev_def split: option.splits)
  from r2 have "rd_placed r2 = 1" by (simp add: extends_def)
  then have lim: "reached cap r2 = False" using assms(2) by (elim disjE) (simp_all add: reached_def)
  show ?thesis using assms(1)
    by (elim disjE; use r2 lg in \<open>simp add: lim pl rp y both_sides_def side_step_def buys_of_token_def reconcile_buy_orders_def as_list_def cancel_ids_def extends_def Let_def\<close>)
qed

lemma demo_round_log:
  assumes "es = demo_entries \<and> b = Some (''n'', demo_side) \<or> es = [hd demo_entries] \<and> b = None" "cap = None \<or> cap = Some 3"
  shows "\<exists>r. place_orders demo_venue demo_template es cap True Map.empty = (Go, r) \<and> bought (rd_log r) = [(''m'', ''y'', 2/5, 32)] \<and>
    demo_logged (rd_log r)"
proof -
  let ?start = "\<lparr>rd_placed = 0, rd_open = {}, rd_skips = Map.empty, rd_log = []\<rparr>"
  have tm: "tm_tiers demo_template = [demo_tier]" "max_concurrent demo_template = 1"
    by (simp_all add: demo_template_def max_concurrent_def tmpl_num_def int_trunc_def)
  have v: "vn_orders demo_venue = Some []" "''m'' \<notin> vn_blacklist demo_venue" "vn_resolution demo_venue ''m'' = None"
    "\<not> vn_cooldown demo_venue ''m''" by (simp_all add: demo_venue_def)
  have p: "vn_positions demo_venue = Some [\<lparr>hd_asset = ''n'', hd_cid = ''m'', hd_size = Some 10, hd_cur = Some (1/2)\<rparr>]"
    by (simp add: demo_venue_def)
  have es: "market_order es = [''m'']" "en_min_size (hd (filter (\<lambda>e. en_market e = ''m'') es)) = 20"
    using assms(1) by (auto simp: market_order_def demo_entries_def)
  have sides: "sides_of demo_venue es ''m'' = [(''y'', demo_side)] \<and> b = None \<or>
      sides_of demo_venue es ''m'' = [(''y'', demo_side), (''n'', demo_side)] \<and> b = Some (''n'', demo_side)"
    using assms(1) demo_sides
    by (elim disjE conjE) (simp_all add: map_filter_simps demo_entries_def build_side_def demo_venue_def demo_quotes_def sort_desc_def
      reward_price_range_def demo_side_def)
  have "market_step demo_venue cap demo_template ({''n''}, [''m'' \<mapsto> 5], [''m'' \<mapsto> 10]) [] es ''m'' ?start =
      both_sides demo_venue cap demo_template {''n''} True ''m'' (Some (''y'', demo_side)) b
        ((Some (2/5, 32), gap_explained demo_gap (Some demo_side)), (None, None)) [] ?start"
    by (simp add: market_step_def v tm es demo_tier_for demo_gap_config may_open_def in_resolution_def demo_trade [OF sides] Let_def)
  moreover have "b = None \<or> b = Some (''n'', demo_side)" using assms(1) by blast
  ultimately show ?thesis using demo_both [of b cap] assms(2)
    by (auto simp: place_orders_def v(1) p es demo_held cancel_dropped_def open_markets_def Let_def)
qed

lemma demo_round_of:
  assumes "es = demo_entries \<and> b = Some (''n'', demo_side) \<or> es = [hd demo_entries] \<and> b = None" "cap = None \<or> cap = Some 3"
  shows "\<exists>r. place_orders demo_venue demo_template es cap True Map.empty = (Go, r) \<and> bought (rd_log r) = [(''m'', ''y'', 2/5, 32)]"
  using demo_round_log [OF assms] by blast

lemma demo_round:
  "\<exists>r. place_orders demo_venue demo_template demo_entries (Some 3) True Map.empty = (Go, r) \<and>
     bought (rd_log r) = [(''m'', ''y'', 2/5, 32)]"
  by (rule demo_round_of [of _ "Some (''n'', demo_side)"]) simp_all

lemma placement_guards_witness:
  "''y'' \<noteq> ''n'' \<and> (\<exists>r :: round_state. bought (rd_log r) = [(''m'', ''y'', 2/5, 32)] \<and> ''m'' \<in> rd_open r \<and> ''m'' \<notin> vn_blacklist demo_venue)"
proof -
  obtain r where r: "place_orders demo_venue demo_template demo_entries (Some 3) True Map.empty = (Go, r)"
    "bought (rd_log r) = [(''m'', ''y'', 2/5, 32)]" using demo_round by blast
  have v: "vn_orders demo_venue = Some []"
    "vn_positions demo_venue = Some [\<lparr>hd_asset = ''n'', hd_cid = ''m'', hd_size = Some 10, hd_cur = Some (1/2)\<rparr>]"
    by (simp_all add: demo_venue_def)
  from placement_guards [OF r(1) v, of "''m''" "''y''" "2/5" 32] r(2) show ?thesis by (intro conjI exI [of _ r]) auto
qed

lemma placement_limits_witness:
  "buy_cost [(''m'', ''y'', 2/5, 32)] \<le> (13 :: rat) \<and>
   (\<exists>r :: round_state. bought (rd_log r) = [(''m'', ''y'', 2/5, 32)] \<and> int (card (rd_open r)) \<le> 1)"
proof -
  obtain r where r: "place_orders demo_venue demo_template demo_entries (Some 3) True Map.empty = (Go, r)"
    "bought (rd_log r) = [(''m'', ''y'', 2/5, 32)]" using demo_round by blast
  have v: "vn_orders demo_venue = Some []"
    "vn_positions demo_venue = Some [\<lparr>hd_asset = ''n'', hd_cid = ''m'', hd_size = Some 10, hd_cur = Some (1/2)\<rparr>]"
    by (simp_all add: demo_venue_def)
  from placement_within_limits [OF r(1) v, of "''m''"] r(2) demo_budget(3) show ?thesis
    by (intro conjI exI [of _ r])
      (auto simp: of_market_def held_def demo_template_def tmpl_num_def max_concurrent_def open_markets_def int_trunc_def)
qed

lemma placement_limit_witness:
  "\<exists>r. place_orders demo_venue demo_template demo_entries (Some 3) True Map.empty = (Go, r) \<and> rd_placed r = 1"
proof -
  obtain r where r: "place_orders demo_venue demo_template demo_entries (Some 3) True Map.empty = (Go, r)"
    "bought (rd_log r) = [(''m'', ''y'', 2/5, 32)]" using demo_round by blast
  have "proper_venue demo_venue demo_entries" by (simp add: proper_venue_def demo_entries_def demo_venue_def demo_quotes_def)
  from placement_stops_at_limit [OF r(1) this] r show ?thesis by auto
qed

end
