(* ===== verification/Dates.thy ===== *)
theory Dates
  imports Json
begin

text \<open>
  Calendar dates and the two date parsers of the scanner (\<open>_parse_end_date\<close> and
  \<open>market_age_hours\<close> in \<open>engine/scanner.py\<close>). An end date is read as local wall-clock time and
  only its calendar day is used, so it is modelled by the day number and the second of the
  day; a creation time is UTC. Day 1 is 1 January of the year 1, as in Python's
  \<open>toordinal\<close>.
\<close>

section \<open>Calendar\<close>

definition leap :: "int \<Rightarrow> bool" where
  "leap y \<longleftrightarrow> y mod 4 = 0 \<and> (y mod 100 \<noteq> 0 \<or> y mod 400 = 0)"

definition month_days :: "int \<Rightarrow> int \<Rightarrow> int" where
  "month_days y m = (if m = 2 then if leap y then 29 else 28 else if m \<in> {4, 6, 9, 11} then 30 else 31)"

definition days_before_month :: "int \<Rightarrow> int \<Rightarrow> int" where
  "days_before_month y m = sum_list (map (month_days y) [1..m - 1])"

definition days_before_year :: "int \<Rightarrow> int" where
  "days_before_year y = (let n = y - 1 in n * 365 + n div 4 - n div 100 + n div 400)"

definition ordinal :: "int \<Rightarrow> int \<Rightarrow> int \<Rightarrow> int" where
  "ordinal y m d = days_before_year y + days_before_month y m + d"

definition valid_date :: "int \<Rightarrow> int \<Rightarrow> int \<Rightarrow> bool" where
  "valid_date y m d \<longleftrightarrow> 1 \<le> y \<and> y \<le> 9999 \<and> 1 \<le> m \<and> m \<le> 12 \<and> 1 \<le> d \<and> d \<le> month_days y m"

definition valid_time :: "int \<Rightarrow> int \<Rightarrow> int \<Rightarrow> bool" where
  "valid_time h mi s \<longleftrightarrow> 0 \<le> h \<and> h \<le> 23 \<and> 0 \<le> mi \<and> mi \<le> 59 \<and> 0 \<le> s \<and> s \<le> 59"

text \<open>1 January 1970.\<close>

definition epoch_day :: int where
  "epoch_day = 719163"

section \<open>Reading fields\<close>

text \<open>A number of at least \<open>lo\<close> and at most \<open>hi\<close> digits, as many as there are.\<close>

definition read_num :: "nat \<Rightarrow> nat \<Rightarrow> string \<Rightarrow> (int \<times> string) option" where
  "read_num lo hi s =
     (let ds = takeWhile (\<lambda>c. digit c \<noteq> None) (take hi s) in
      if length ds < lo then None
      else Some (foldl (\<lambda>v c. 10 * v + int (the (digit c))) 0 ds, drop (length ds) s))"

fun read_char :: "char list \<Rightarrow> string \<Rightarrow> string option" where
  "read_char cs [] = None"
| "read_char cs (c # s) = (if c \<in> set cs then Some s else None)"

text \<open>Numbers between separators; the first list gives the widths, the second the separators.\<close>

fun read_fields :: "(nat \<times> nat) list \<Rightarrow> char list list \<Rightarrow> string \<Rightarrow> (int list \<times> string) option" where
  "read_fields [] seps s = Some ([], s)"
| "read_fields ((lo, hi) # ws) seps s =
     (case read_num lo hi s of None \<Rightarrow> None
      | Some (v, s1) \<Rightarrow>
          (case (seps, ws) of
             (cs # css, w # ws') \<Rightarrow>
               (case read_char cs s1 of None \<Rightarrow> None
                | Some s2 \<Rightarrow> map_option (\<lambda>(vs, r). (v # vs, r)) (read_fields ws css s2))
           | _ \<Rightarrow> Some ([v], s1)))"

section \<open>End dates\<close>

text \<open>
  The three formats of \<open>strptime\<close>: a date alone, or a date and a time separated by white space
  or by a T. Month, day and the parts of the time may have one digit. Nothing may follow.
\<close>

definition one_or_two :: "nat \<times> nat" where
  "one_or_two = (1, 2)"

definition date_fields :: "string \<Rightarrow> (int list \<times> string) option" where
  "date_fields s = read_fields [(4, 4), one_or_two, one_or_two] [''-'', ''-''] s"

definition after_blank :: "string \<Rightarrow> string option" where
  "after_blank s = (case s of [] \<Rightarrow> None
     | c # t \<Rightarrow> if is_space c then Some (dropWhile is_space t) else if c \<in> set ''Tt'' then Some t else None)"

definition time_fields :: "string \<Rightarrow> (int list \<times> string) option" where
  "time_fields s = read_fields [one_or_two, one_or_two, one_or_two] ['':'', '':''] s"

definition strptime :: "string \<Rightarrow> (int \<times> int) option" where
  "strptime s =
     (case date_fields s of
        Some ([y, m, d], rest) \<Rightarrow>
          if \<not> valid_date y m d then None
          else if rest = [] then Some (ordinal y m d, 0)
          else (case after_blank rest of None \<Rightarrow> None
            | Some t \<Rightarrow>
                (case time_fields t of
                   Some ([h, mi, sec], []) \<Rightarrow> if valid_time h mi sec then Some (ordinal y m d, h * 3600 + mi * 60 + sec) else None
                 | _ \<Rightarrow> None))
      | _ \<Rightarrow> None)"

text \<open>\<open>hh:mm:ss\<close> at the head of a string, followed by an offset \<open>+hh\<close>, \<open>+hh:mm\<close> or \<open>+hhmm\<close> that ends it.\<close>

definition offset_tail :: "string \<Rightarrow> bool" where
  "offset_tail s =
     (case read_char ''+-'' s of None \<Rightarrow> False
      | Some t \<Rightarrow>
          (case read_num 2 2 t of None \<Rightarrow> False
           | Some (v, u) \<Rightarrow>
               (let w = (case u of [] \<Rightarrow> [] | c # cs \<Rightarrow> if c = CHR '':'' then cs else u) in
                length w \<le> 2 \<and> list_all (\<lambda>c. digit c \<noteq> None) w)))"

definition clock_then_offset :: "string \<Rightarrow> bool" where
  "clock_then_offset s =
     (case read_fields [(2, 2), (2, 2), (2, 2)] ['':'', '':''] s of None \<Rightarrow> False | Some (vs, r) \<Rightarrow> offset_tail r)"

fun cut_offset :: "string \<Rightarrow> string" where
  "cut_offset [] = []"
| "cut_offset (c # s) = (if clock_then_offset (c # s) then take 8 (c # s) else c # cut_offset s)"

text \<open>\<open>_parse_end_date\<close>: None when there is nothing to parse or no format fits.\<close>

definition parse_end_date :: "string \<Rightarrow> (int \<times> int) option" where
  "parse_end_date str =
     (if str = [] then None
      else
        let s = strip str in
        strptime (if s \<noteq> [] \<and> last s = CHR ''Z'' then butlast s else cut_offset s))"

definition settlement_days_until :: "int \<Rightarrow> int \<times> int \<Rightarrow> int" where
  "settlement_days_until today end = fst end - today"

definition in_settlement_window :: "int \<Rightarrow> int \<times> int \<Rightarrow> rat option \<Rightarrow> rat option \<Rightarrow> bool" where
  "in_settlement_window today end min_days max_days =
     (let d = of_int (settlement_days_until today end) in
      (case min_days of None \<Rightarrow> True | Some n \<Rightarrow> n \<le> d) \<and> (case max_days of None \<Rightarrow> True | Some n \<Rightarrow> d \<le> n))"

section \<open>Age of a market\<close>

definition market_age_hours :: "string \<Rightarrow> rat \<Rightarrow> rat option" where
  "market_age_hours created now =
     (case read_fields [(4, 4), (2, 2), (2, 2), (2, 2), (2, 2), (2, 2)] [''-'', ''-'', ''T '', '':'', '':''] (strip created) of
        Some ([y, m, d, h, mi, s], rest) \<Rightarrow>
          if valid_date y m d \<and> valid_time h mi s
          then Some ((now - of_int ((ordinal y m d - epoch_day) * 86400 + h * 3600 + mi * 60 + s)) / 3600)
          else None
      | _ \<Rightarrow> None)"

lemma epoch_day_value: "epoch_day = ordinal 1970 1 1"
  by (simp add: epoch_day_def ordinal_def days_before_year_def days_before_month_def)

text \<open>An offset is dropped, not applied.\<close>

lemma parse_end_date_example:
  "parse_end_date ''2026-07-22T23:10:03+08:00'' = Some (739819, 83403)" "parse_end_date ''2026-7-22Z'' = Some (739819, 0)"
  "parse_end_date ''2026-07-22T23:10:03.5Z'' = None"
  by code_simp+

lemma market_age_example: "market_age_hours ''1970-01-02T01:00:00.5Z'' 97200 = Some 2"
  by code_simp

end
