(* ===== verification/Scanner.thy ===== *)
theory Scanner
  imports Placement Dates
begin

text \<open>
  The market scanner (\<open>engine/scanner.py\<close>, \<open>engine/categories.py\<close>): the shared discovery of
  candidates, which depends on all active templates at once, and the filters of one
  template. The reward end points, the order books and the database answer through the
  record \<open>feed\<close> and function arguments. A Python set is iterated in an unknown order:
  \<open>fd_order\<close> gives it. The workers of a thread pool are modelled in submission order.
\<close>

section \<open>Data\<close>

record token =
  tk_id :: string
  tk_price :: "rat option"

record snapshot = book +
  sn_tick :: rat
  sn_spread :: rat

record market =
  mk_cid :: string
  mk_rates :: "rat list"
  mk_reward :: "rat option"
  mk_end :: string
  mk_created :: string
  mk_min_size :: int
  mk_max_spread :: rat
  mk_competition :: rat
  mk_tokens :: "token list"
  mk_tags :: "string list"
  mk_books :: "string \<Rightarrow> snapshot option"

text \<open>The scanning part of a template. \<open>cr_sizes\<close> is \<open>enabled_sizes\<close> of its modules.\<close>

record criteria =
  cr_included :: "string list"
  cr_other :: bool
  cr_min_reward :: rat
  cr_min_price :: rat
  cr_max_price :: rat
  cr_max_spread :: rat
  cr_min_days :: "rat option"
  cr_max_days :: "rat option"
  cr_sizes :: "int set"
  cr_skip_new :: bool
  cr_hours :: jnum
  cr_skip_cats :: "string list"
  cr_skip_other :: bool

record clock =
  ck_now :: rat
  ck_today :: int

record feed =
  fd_slug :: "string \<Rightarrow> market list option"
  fd_full :: "market list option"
  fd_precise :: "string \<Rightarrow> rat list list option"
  fd_order :: "string list \<Rightarrow> string list"
  fd_blacklist :: "string set"
  fd_clock :: clock

section \<open>Categories\<close>

definition included_union :: "criteria list \<Rightarrow> string set" where
  "included_union crs = \<Union> (set (map (\<lambda>c. set (cr_included c)) crs))"

definition any_include_other :: "criteria list \<Rightarrow> bool" where
  "any_include_other crs = list_ex cr_other crs"

definition tag_pool :: "(string \<Rightarrow> string set) \<Rightarrow> string list \<Rightarrow> market list \<Rightarrow> market list" where
  "tag_pool ids slugs ms = map (\<lambda>m. m\<lparr>mk_tags := filter (\<lambda>s. mk_cid m \<in> ids s) slugs\<rparr>) ms"

definition market_in_categories :: "string list \<Rightarrow> string set \<Rightarrow> bool \<Rightarrow> bool" where
  "market_in_categories tags slugs untagged = (slugs \<inter> set tags \<noteq> {} \<or> untagged \<and> tags = [])"

definition market_wanted :: "string list \<Rightarrow> string set \<Rightarrow> bool \<Rightarrow> bool" where
  "market_wanted tags included other = market_in_categories tags included other"

definition count_by_category :: "string set \<Rightarrow> (string \<Rightarrow> string set) \<Rightarrow> string list \<Rightarrow> (string \<Rightarrow> nat) \<times> nat" where
  "count_by_category full ids slugs =
     (\<lambda>s. if s \<in> set slugs then card (ids s) else 0, card (full - \<Union> (set (map ids slugs))))"

section \<open>Thresholds\<close>

definition book_spread :: "lvl list \<Rightarrow> lvl list \<Rightarrow> rat" where
  "book_spread bids asks =
     (if bids = [] \<or> asks = [] then -1
      else max 0 (round_to 4 (Min (set (map lv_price asks)) - Max (set (map lv_price bids)))))"

definition batch_rate :: "market \<Rightarrow> rat" where
  "batch_rate m = sum_list (mk_rates m)"

definition price_cents :: "token \<Rightarrow> rat" where
  "price_cents t = or0 (tk_price t) * 100"

definition in_band :: "criteria \<Rightarrow> token \<Rightarrow> bool" where
  "in_band c t \<longleftrightarrow> cr_min_price c \<le> price_cents t \<and> price_cents t \<le> cr_max_price c"

definition tokens_in_price_band :: "criteria \<Rightarrow> market \<Rightarrow> bool" where
  "tokens_in_price_band c m = list_ex (in_band c) (mk_tokens m)"

definition new_market_hours :: "criteria \<Rightarrow> rat" where
  "new_market_hours c = (case cr_hours c of JNum x \<Rightarrow> max 0 x | _ \<Rightarrow> 0)"

text \<open>The template's own protection of new markets applies to a market with these tags.\<close>

definition protects :: "criteria \<Rightarrow> string list \<Rightarrow> bool" where
  "protects c tags = market_in_categories tags (set (cr_skip_cats c) \<inter> set (cr_included c)) (cr_skip_other c \<and> cr_other c)"

fun loosest_hours :: "criteria list \<Rightarrow> string list \<Rightarrow> rat list option" where
  "loosest_hours [] tags = Some []"
| "loosest_hours (c # cs) tags =
     (if \<not> cr_skip_new c then None else if \<not> protects c tags then None
      else map_option ((#) (new_market_hours c)) (loosest_hours cs tags))"

definition loosest_new_market_hours :: "criteria list \<Rightarrow> string list \<Rightarrow> rat" where
  "loosest_new_market_hours crs tags =
     (case loosest_hours crs tags of None \<Rightarrow> 0 | Some [] \<Rightarrow> 0 | Some (h # hs) \<Rightarrow> Min (set (h # hs)))"

definition too_new :: "clock \<Rightarrow> market \<Rightarrow> rat \<Rightarrow> bool" where
  "too_new ck m hours = (case market_age_hours (mk_created m) (ck_now ck) of None \<Rightarrow> False | Some a \<Rightarrow> a < hours)"

definition in_window :: "clock \<Rightarrow> market \<Rightarrow> criteria \<Rightarrow> bool" where
  "in_window ck m c =
     (case parse_end_date (mk_end m) of None \<Rightarrow> True
      | Some e \<Rightarrow> in_settlement_window (ck_today ck) e (cr_min_days c) (cr_max_days c))"

section \<open>The filters of one template\<close>

definition prefilter :: "clock \<Rightarrow> (string \<Rightarrow> bool) \<Rightarrow> criteria \<Rightarrow> market \<Rightarrow> bool" where
  "prefilter ck cooling c m \<longleftrightarrow>
     market_wanted (mk_tags m) (set (cr_included c)) (cr_other c) \<and>
     \<not> (batch_rate m < cr_min_reward c \<or>
        (case mk_reward m of None \<Rightarrow> batch_rate m | Some r \<Rightarrow> r) < cr_min_reward c) \<and>
     in_window ck m c \<and>
     \<not> (cr_skip_new c \<and> new_market_hours c \<noteq> 0 \<and> protects c (mk_tags m) \<and> too_new ck m (new_market_hours c)) \<and>
     \<not> cooling (mk_cid m) \<and> mk_min_size m \<in> cr_sizes c \<and> tokens_in_price_band c m"

definition prefilter_for_template :: "clock \<Rightarrow> (string \<Rightarrow> bool) \<Rightarrow> criteria \<Rightarrow> market list \<Rightarrow> market list" where
  "prefilter_for_template ck cooling c pool = filter (prefilter ck cooling c) pool"

record eligible = entry +
  el_daily :: rat
  el_competition :: rat
  el_rmin :: rat
  el_rmax :: rat
  el_spread_cents :: rat

definition eligible_token :: "criteria \<Rightarrow> market \<Rightarrow> token \<Rightarrow> eligible option" where
  "eligible_token c m t =
     (if \<not> in_band c t then None
      else case mk_books m (tk_id t) of
        None \<Rightarrow> None
      | Some b \<Rightarrow>
          if sn_spread b < 0 \<or> cr_max_spread c \<le> sn_spread b * 100 then None
          else (case (sort_desc lv_price (bk_bids b), sort_key lv_price (bk_asks b)) of
             (bid # bids, ask # asks) \<Rightarrow>
               if lv_price bid * 100 < cr_min_price c \<or> cr_max_price c < lv_price bid * 100 then None
               else
                 let (rmin, rmax) = reward_price_range ((lv_price bid + lv_price ask) / 2) (mk_max_spread m)
                 in Some \<lparr>en_market = mk_cid m, en_token = tk_id t, en_spread = mk_max_spread m, en_min_size = mk_min_size m,
                      el_daily = (case mk_reward m of None \<Rightarrow> batch_rate m | Some r \<Rightarrow> r), el_competition = mk_competition m,
                      el_rmin = rmin, el_rmax = rmax, el_spread_cents = sn_spread b * 100\<rparr>
           | _ \<Rightarrow> None))"

definition book_eligible :: "criteria \<Rightarrow> market \<Rightarrow> eligible list" where
  "book_eligible c m = List.map_filter (eligible_token c m) (mk_tokens m)"

definition filter_for_template :: "clock \<Rightarrow> (string \<Rightarrow> bool) \<Rightarrow> criteria \<Rightarrow> market list \<Rightarrow> eligible list" where
  "filter_for_template ck cooling c pool = concat (map (book_eligible c) (prefilter_for_template ck cooling c pool))"

section \<open>Order books\<close>

text \<open>A token of the market without an identifier or without a book has no snapshot.\<close>

definition build_orderbooks :: "market \<Rightarrow> (string \<Rightarrow> quote_book option) \<Rightarrow> string \<Rightarrow> snapshot option" where
  "build_orderbooks m books t =
     (if t = '''' \<or> t \<notin> tk_id ` set (mk_tokens m) then None
      else map_option (\<lambda>b. \<lparr>bk_bids = bk_bids b, bk_asks = bk_asks b, sn_tick = qb_tick b,
        sn_spread = book_spread (bk_bids b) (bk_asks b)\<rparr>) (books t))"

text \<open>The tokens of a pool, and one batch request for all of them; when it fails every book is empty.\<close>

definition pool_tokens :: "market list \<Rightarrow> string set" where
  "pool_tokens pool = \<Union> (set (map (\<lambda>m. tk_id ` set (mk_tokens m)) pool)) - {''''}"

definition refresh_orderbooks ::
    "(string set \<Rightarrow> (string \<Rightarrow> quote_book option) option) \<Rightarrow> market list \<Rightarrow> market list" where
  "refresh_orderbooks fetch pool =
     (let books = (case fetch (pool_tokens pool) of None \<Rightarrow> (\<lambda>_. None) | Some bs \<Rightarrow> bs)
      in map (\<lambda>m. m\<lparr>mk_books := build_orderbooks m books\<rparr>) pool)"

section \<open>Discovery\<close>

definition needed_slugs :: "string list \<Rightarrow> criteria list \<Rightarrow> string list" where
  "needed_slugs catalog crs =
     (if any_include_other crs then catalog else filter (\<lambda>s. s \<in> included_union crs) catalog)"

definition slug_rows :: "feed \<Rightarrow> string \<Rightarrow> market list" where
  "slug_rows fd s = (case fd_slug fd s of None \<Rightarrow> [] | Some ms \<Rightarrow> ms)"

definition category_ids :: "feed \<Rightarrow> string \<Rightarrow> string set" where
  "category_ids fd s = mk_cid ` set (slug_rows fd s)"

fun first_by_cid :: "string set \<Rightarrow> market list \<Rightarrow> market list" where
  "first_by_cid seen [] = []"
| "first_by_cid seen (m # ms) =
     (if mk_cid m = '''' \<or> mk_cid m \<in> seen then first_by_cid seen ms
      else m # first_by_cid (insert (mk_cid m) seen) ms)"

definition catalog_payload :: "feed \<Rightarrow> string list \<Rightarrow> market list \<Rightarrow> (string \<Rightarrow> nat) \<times> nat" where
  "catalog_payload fd catalog full =
     (let full_ids = mk_cid ` set full - {''''}
      in count_by_category full_ids (\<lambda>s. category_ids fd s \<inter> full_ids) catalog)"

text \<open>Whether the exact reward of a market is worth a request.\<close>

definition should_price :: "clock \<Rightarrow> criteria list \<Rightarrow> market \<Rightarrow> bool" where
  "should_price ck crs m \<longleftrightarrow>
     (let sizes = \<Union> (set (map cr_sizes crs)) in sizes = {} \<or> mk_min_size m \<in> sizes) \<and>
     (parse_end_date (mk_end m) = None \<or> list_ex (in_window ck m) crs)"

definition min_floor :: "criteria list \<Rightarrow> rat" where
  "min_floor crs = (case map cr_min_reward crs of [] \<Rightarrow> 0 | r # rs \<Rightarrow> Min (set (r # rs)))"

text \<open>Markets that enter the pool: wanted by some template, above the lowest reward floor and not too new for
every template.\<close>

definition discovered :: "feed \<Rightarrow> criteria list \<Rightarrow> market \<Rightarrow> bool" where
  "discovered fd crs m \<longleftrightarrow>
     mk_cid m \<notin> fd_blacklist fd \<and>
     market_wanted (mk_tags m) (included_union crs) (any_include_other crs) \<and>
     \<not> batch_rate m < min_floor crs \<and>
     \<not> (loosest_new_market_hours crs (mk_tags m) \<noteq> 0 \<and>
        too_new (fd_clock fd) m (loosest_new_market_hours crs (mk_tags m)))"

definition precise_reward :: "feed \<Rightarrow> market \<Rightarrow> rat" where
  "precise_reward fd m =
     (case fd_precise fd (mk_cid m) of
        Some (r # rs) \<Rightarrow> sum_list (concat (r # rs))
      | _ \<Rightarrow> batch_rate m)"

definition finalize :: "rat \<Rightarrow> market \<Rightarrow> market" where
  "finalize r m = m\<lparr>mk_reward := Some r\<rparr>"

definition tagged_pool :: "feed \<Rightarrow> string list \<Rightarrow> criteria list \<Rightarrow> market list \<Rightarrow> market list" where
  "tagged_pool fd catalog crs full =
     (let slugs = fd_order fd (needed_slugs catalog crs)
      in tag_pool (category_ids fd) slugs (first_by_cid {} (concat (map (slug_rows fd) slugs) @ full)))"

datatype scan_end = Complete | Failed | Superseded

text \<open>\<open>cancel k\<close> is the answer at the k-th checkpoint: one for every market of the pool, then one
before every market that is reported. The result is what was reported and how the run ended.\<close>

definition discover_candidates ::
    "feed \<Rightarrow> string list \<Rightarrow> criteria list \<Rightarrow> (nat \<Rightarrow> bool) \<Rightarrow> market list \<times> scan_end" where
  "discover_candidates fd catalog crs cancel =
     (case (if any_include_other crs then fd_full fd else Some []) of
        None \<Rightarrow> ([], Failed)
      | Some full \<Rightarrow>
          let pool = tagged_pool fd catalog crs full;
              kept = filter (discovered fd crs) pool;
              priced = should_price (fd_clock fd) crs;
              out = map (\<lambda>m. finalize (batch_rate m) m) (filter (\<lambda>m. \<not> priced m) kept) @
                map (\<lambda>m. finalize (precise_reward fd m) m) (filter priced kept)
          in case find_idx cancel [0..<length pool + length out] of
               None \<Rightarrow> (out, Complete)
             | Some k \<Rightarrow> (take (k - length pool) out, Superseded))"

text \<open>\<open>cancel_books\<close> is the answer at the last checkpoint, before the books are fetched.\<close>

definition fetch_candidates ::
    "feed \<Rightarrow> (string set \<Rightarrow> (string \<Rightarrow> quote_book option) option) \<Rightarrow> bool \<Rightarrow> string list \<Rightarrow> criteria list \<Rightarrow> (nat \<Rightarrow> bool) \<Rightarrow>
     bool \<Rightarrow> market list \<times> scan_end" where
  "fetch_candidates fd fetch skip_books catalog crs cancel cancel_books =
     (let (pool, e) = discover_candidates fd catalog crs cancel in
      if e \<noteq> Complete \<or> skip_books then (pool, e)
      else if cancel_books then (pool, Superseded)
      else (refresh_orderbooks fetch pool, Complete))"

section \<open>What discovery keeps\<close>

lemma protects_categories: "loosest_hours crs tags = Some hs \<Longrightarrow> c \<in> set crs \<Longrightarrow>
   cr_skip_new c \<and> protects c tags \<and> new_market_hours c \<in> set hs"
  by (induction crs arbitrary: hs) (auto split: if_splits)

lemma loosest_bound:
  assumes "loosest_new_market_hours crs tags \<noteq> 0" "c \<in> set crs"
  shows "cr_skip_new c \<and> protects c tags \<and> 0 < loosest_new_market_hours crs tags \<and>
    loosest_new_market_hours crs tags \<le> new_market_hours c"
proof -
  from assms(1) obtain h hs where h: "loosest_hours crs tags = Some (h # hs)"
    "loosest_new_market_hours crs tags = Min (set (h # hs))"
    by (auto simp: loosest_new_market_hours_def split: option.splits list.splits)
  have pos: "0 \<le> x" if "x \<in> set (h # hs)" for x
  proof -
    have "loosest_hours cs tags = Some ys \<Longrightarrow> set ys \<subseteq> new_market_hours ` set cs" for cs ys
      by (induction cs arbitrary: ys) (auto split: if_splits)
    with h(1) that obtain c' where "x = new_market_hours c'" by blast
    then show ?thesis by (simp add: new_market_hours_def split: jnum.split)
  qed
  have "Min (set (h # hs)) \<in> set (h # hs)" by (rule Min_in) simp_all
  with pos have "0 \<le> Min (set (h # hs))" by blast
  moreover have "Min (set (h # hs)) \<le> new_market_hours c"
    using protects_categories [OF h(1) assms(2)] by (intro Min_le) simp_all
  ultimately have "0 < loosest_new_market_hours crs tags" "loosest_new_market_hours crs tags \<le> new_market_hours c"
    using assms(1) unfolding h(2) by (simp_all only: less_le not_False_eq_True) auto
  then show ?thesis using protects_categories [OF h(1) assms(2)] by blast
qed

lemma wanted_union:
  "c \<in> set crs \<Longrightarrow> market_wanted tags (set (cr_included c)) (cr_other c) \<Longrightarrow>
   market_wanted tags (included_union crs) (any_include_other crs)"
  by (auto simp: market_wanted_def market_in_categories_def included_union_def any_include_other_def list_ex_iff)

lemma min_floor_le: "c \<in> set crs \<Longrightarrow> min_floor crs \<le> cr_min_reward c"
proof -
  assume c: "c \<in> set crs"
  then obtain r rs where m: "map cr_min_reward crs = r # rs" by (cases crs) auto
  have "cr_min_reward c \<in> set (r # rs)" using c by (simp flip: m)
  then have "Min (set (r # rs)) \<le> cr_min_reward c" by (intro Min_le) simp_all
  then show ?thesis by (simp add: min_floor_def m)
qed

text \<open>What a template's prefilter lets through, discovery had kept and priced exactly.\<close>

lemma prefilter_discovered:
  assumes "c \<in> set crs" "prefilter (fd_clock fd) cooling c (finalize r m)" "mk_cid m \<notin> fd_blacklist fd"
  shows "discovered fd crs m \<and> should_price (fd_clock fd) crs m"
proof -
  let ?ck = "fd_clock fd" and ?h = "loosest_new_market_hours crs (mk_tags m)"
  have f: "mk_tags (finalize r m) = mk_tags m" "batch_rate (finalize r m) = batch_rate m" "in_window ?ck (finalize r m) = in_window ?ck m"
    "too_new ?ck (finalize r m) = too_new ?ck m" "mk_min_size (finalize r m) = mk_min_size m"
    by (simp_all add: finalize_def batch_rate_def in_window_def too_new_def fun_eq_iff)
  note p = assms(2) [unfolded prefilter_def f]
  have "\<not> batch_rate m < min_floor crs" using p min_floor_le [OF assms(1)] by auto
  moreover have "\<not> (?h \<noteq> 0 \<and> too_new ?ck m ?h)"
  proof
    assume h: "?h \<noteq> 0 \<and> too_new ?ck m ?h"
    note b = loosest_bound [OF conjunct1 [OF h] assms(1)]
    from h b have "too_new ?ck m (new_market_hours c)" by (auto simp: too_new_def split: option.splits)
    with b p show False by auto
  qed
  moreover have "market_wanted (mk_tags m) (included_union crs) (any_include_other crs)"
    using wanted_union [OF assms(1)] p by blast
  moreover have "mk_min_size m \<in> \<Union> (set (map cr_sizes crs))" using p assms(1) by auto
  moreover have "list_ex (in_window ?ck m) crs" using p assms(1) by (auto simp: list_ex_iff)
  ultimately show ?thesis using assms(3) by (simp add: discovered_def should_price_def Let_def)
qed

lemma first_by_cid_cids:
  "set (map mk_cid (first_by_cid seen ms)) = set (map mk_cid ms) - {''''} - seen" "distinct (map mk_cid (first_by_cid seen ms))"
  by (induction ms arbitrary: seen) auto

lemma tagged_pool_cids: "distinct (map mk_cid (tagged_pool fd catalog crs full))" "'''' \<notin> mk_cid ` set (tagged_pool fd catalog crs full)"
proof -
  have e: "map mk_cid (tag_pool ids slugs ms) = map mk_cid ms" for ids slugs ms by (simp add: tag_pool_def)
  show "distinct (map mk_cid (tagged_pool fd catalog crs full))"
    by (simp add: tagged_pool_def Let_def e first_by_cid_cids)
  have "'''' \<notin> set (map mk_cid (tagged_pool fd catalog crs full))"
    by (simp only: tagged_pool_def Let_def e first_by_cid_cids) simp
  then show "'''' \<notin> mk_cid ` set (tagged_pool fd catalog crs full)" by simp
qed

text \<open>Discovery loses nothing a template could trade: a market found by the queries, not blacklisted, that the
filter of some active template lets through (whatever the cooldowns and whatever reward is
found) is in the result of a completed discovery at the same time, with its exact reward
fetched; and the result has every market once.\<close>

theorem discovery_keeps_wanted_markets:
  assumes "discover_candidates fd catalog crs cancel = (out, Complete)"
    and "(if any_include_other crs then fd_full fd else Some []) = Some full"
    and "m \<in> set (tagged_pool fd catalog crs full)" "mk_cid m \<notin> fd_blacklist fd"
    and "c \<in> set crs" "prefilter (fd_clock fd) cooling c (finalize r m)"
  shows "finalize (precise_reward fd m) m \<in> set out \<and> distinct (map mk_cid out)"
proof -
  let ?pool = "tagged_pool fd catalog crs full"
  let ?kept = "filter (discovered fd crs) ?pool" and ?priced = "should_price (fd_clock fd) crs"
  have out: "out = map (\<lambda>m. finalize (batch_rate m) m) (filter (\<lambda>m. \<not> ?priced m) ?kept) @
      map (\<lambda>m. finalize (precise_reward fd m) m) (filter ?priced ?kept)"
    using assms(1,2) by (auto simp: discover_candidates_def Let_def split: option.splits)
  have "m \<in> set (filter ?priced ?kept)" using prefilter_discovered [OF assms(5,6,4)] assms(3) by simp
  then have "finalize (precise_reward fd m) m \<in> set out" unfolding out by simp
  moreover have cid: "mk_cid (finalize x y) = mk_cid y" for x y by (simp add: finalize_def)
  have "distinct (map mk_cid out)"
  proof -
    have d: "distinct (map mk_cid ?kept)" using tagged_pool_cids(1) by (rule distinct_map_filter)
    have "mk_cid ` set (filter (\<lambda>m. \<not> ?priced m) ?kept) \<inter> mk_cid ` set (filter ?priced ?kept) = {}"
      using d by (auto simp: distinct_map inj_on_def)
    then show ?thesis unfolding out by (simp add: cid comp_def distinct_map_filter [OF d] del: filter_filter)
  qed
  ultimately show ?thesis by blast
qed

text \<open>Tagging with the slugs some template includes is as good as tagging with the whole catalog: every
active template decides both memberships, what it trades and which new markets it
protects, as it would with complete tags.\<close>

theorem reduced_tags_decide_alike:
  assumes "c \<in> set crs" "set (fd_order fd (needed_slugs catalog crs)) = set (needed_slugs catalog crs)"
  shows "let tags = (\<lambda>slugs. filter (\<lambda>s. cid \<in> category_ids fd s) slugs); some = tags (fd_order fd (needed_slugs catalog crs))
    in market_wanted some (set (cr_included c)) (cr_other c) = market_wanted (tags catalog) (set (cr_included c)) (cr_other c) \<and>
       protects c some = protects c (tags catalog)"
proof (cases "any_include_other crs")
  case True
  then have "set (fd_order fd (needed_slugs catalog crs)) = set catalog" using assms(2) by (simp add: needed_slugs_def)
  then show ?thesis
    by (auto simp: market_wanted_def market_in_categories_def protects_def Let_def filter_empty_conv)
next
  case False
  then have no: "\<not> cr_other c" using assms(1) by (auto simp: any_include_other_def list_ex_iff)
  have "set (fd_order fd (needed_slugs catalog crs)) = set catalog \<inter> included_union crs"
    using assms(2) False by (auto simp: needed_slugs_def)
  moreover have "set (cr_included c) \<subseteq> included_union crs" using assms(1) by (auto simp: included_union_def)
  ultimately show ?thesis using no
    by (auto simp: market_wanted_def market_in_categories_def protects_def Let_def)
qed

section \<open>A small discovery\<close>

definition demo_market :: market where
  "demo_market = \<lparr>mk_cid = ''m'', mk_rates = [120], mk_reward = None, mk_end = [], mk_created = [], mk_min_size = 20,
     mk_max_spread = 3, mk_competition = 1, mk_tokens = [\<lparr>tk_id = ''y'', tk_price = Some (2/5)\<rparr>, \<lparr>tk_id = ''n'', tk_price = Some (3/5)\<rparr>],
     mk_tags = [], mk_books = (\<lambda>_. None)\<rparr>"

definition demo_criteria :: criteria where
  "demo_criteria = \<lparr>cr_included = [''ai''], cr_other = False, cr_min_reward = 100, cr_min_price = 10, cr_max_price = 50,
     cr_max_spread = 3, cr_min_days = Some 4, cr_max_days = None, cr_sizes = {20}, cr_skip_new = True, cr_hours = JNum 24,
     cr_skip_cats = [''ai''], cr_skip_other = False\<rparr>"

definition demo_feed :: feed where
  "demo_feed = \<lparr>fd_slug = (\<lambda>s. if s = ''ai'' then Some [demo_market] else None), fd_full = None,
     fd_precise = (\<lambda>_. Some [[130]]), fd_order = rev, fd_blacklist = {}, fd_clock = \<lparr>ck_now = 0, ck_today = 740000\<rparr>\<rparr>"

lemma demo_needed: "needed_slugs [''ai'', ''weather''] [demo_criteria] = [''ai'']" "any_include_other [demo_criteria] = False"
  by (simp_all add: needed_slugs_def any_include_other_def included_union_def demo_criteria_def)

lemma demo_tagged: "tagged_pool demo_feed [''ai'', ''weather''] [demo_criteria] [] = [demo_market\<lparr>mk_tags := [''ai'']\<rparr>]"
  by (simp add: tagged_pool_def demo_needed demo_feed_def slug_rows_def tag_pool_def category_ids_def demo_market_def)

lemma demo_prefilter: "prefilter (fd_clock demo_feed) (\<lambda>_. False) demo_criteria (finalize r (demo_market\<lparr>mk_tags := [''ai'']\<rparr>)) \<longleftrightarrow> 100 \<le> r"
  by (auto simp: prefilter_def demo_criteria_def demo_market_def finalize_def market_wanted_def market_in_categories_def batch_rate_def
      in_window_def parse_end_date_def too_new_def market_age_hours_def strip_def read_num_def tokens_in_price_band_def in_band_def
      price_cents_def)

lemma discovery_witness:
  "finalize 130 (demo_market\<lparr>mk_tags := [''ai'']\<rparr>) \<in> set (fst (discover_candidates demo_feed [''ai'', ''weather''] [demo_criteria] (\<lambda>_. False)))"
proof -
  let ?m = "demo_market\<lparr>mk_tags := [''ai'']\<rparr>"
  obtain out where out: "discover_candidates demo_feed [''ai'', ''weather''] [demo_criteria] (\<lambda>_. False) = (out, Complete)"
    by (simp add: discover_candidates_def demo_needed Let_def find_idx_None split: option.split)
  have "mk_cid ?m \<notin> fd_blacklist demo_feed" "precise_reward demo_feed ?m = 130"
    by (simp_all add: demo_feed_def precise_reward_def)
  with discovery_keeps_wanted_markets [OF out, of "[]" ?m demo_criteria "\<lambda>_. False" 100] demo_tagged demo_prefilter
  show ?thesis by (simp add: demo_needed out)
qed

lemma reduced_tags_witness:
  "market_wanted (filter (\<lambda>s. ''m'' \<in> category_ids demo_feed s) [''ai'']) {''ai''} False =
   market_wanted (filter (\<lambda>s. ''m'' \<in> category_ids demo_feed s) [''ai'', ''weather'']) {''ai''} False"
proof -
  have o: "fd_order demo_feed [''ai''] = [''ai'']" by (simp add: demo_feed_def)
  have c: "set (cr_included demo_criteria) = {''ai''}" "cr_other demo_criteria = False"
    by (simp_all add: demo_criteria_def)
  from reduced_tags_decide_alike [where c = demo_criteria and crs = "[demo_criteria]" and catalog = "[''ai'', ''weather'']"
      and fd = demo_feed and cid = "''m''", unfolded demo_needed o c Let_def] show ?thesis by simp
qed

section \<open>Counts per category\<close>

text \<open>\<open>category_counts\<close>, the manual refresh: a failed query counts as empty, a failed full query raises.\<close>

definition category_counts :: "feed \<Rightarrow> string list \<Rightarrow> ((string \<Rightarrow> nat) \<times> nat) option" where
  "category_counts fd catalog = map_option (catalog_payload fd catalog) (fd_full fd)"

text \<open>Every market of the full list is counted in some category or in the rest, never in both.\<close>

lemma catalog_counts_partition:
  assumes "catalog_payload fd catalog full = (counts, other)"
  shows "other + card (\<Union>s \<in> set catalog. category_ids fd s \<inter> (mk_cid ` set full - {''''})) = card (mk_cid ` set full - {''''})"
proof -
  let ?full = "mk_cid ` set full - {''''}" and ?some = "\<Union>s \<in> set catalog. category_ids fd s \<inter> (mk_cid ` set full - {''''})"
  have "other = card (?full - ?some)" using assms by (simp add: catalog_payload_def count_by_category_def)
  moreover have "card (?full - ?some) + card ?some = card ?full"
    by (subst card_Diff_subset) (auto intro: card_mono le_add_diff_inverse2 finite_subset [of _ ?full])
  ultimately show ?thesis by simp
qed

end
