(* ===== verification/Scan_Progress.thy ===== *)
theory Scan_Progress
  imports Scanner "HOL-Library.Multiset"
begin

text \<open>
  The last part of a discovery, as it is seen from outside (\<open>discover_candidates\<close> in \<open>engine/scanner.py\<close>): markets with their
  batch reward are shown at once, the precise rewards of the others are asked for by a pool of
  threads and shown in the order in which the answers come. Before each market shown the scan looks whether a newer
  one has taken over. The order of the answers is an argument.
\<close>

section \<open>Showing the candidates\<close>

text \<open>The markets without a question to the network: those shown, the checkpoints passed, whether the scan gave way.\<close>

fun show_extra :: "(nat \<Rightarrow> bool) \<Rightarrow> nat \<Rightarrow> market list \<Rightarrow> market list \<times> nat \<times> bool" where
  "show_extra cancel k [] = ([], k, False)"
| "show_extra cancel k (m # ms) =
     (if cancel k then ([], k, True)
      else let (shown, k', over) = show_extra cancel (k + 1) ms in (finalize (batch_rate m) m # shown, k', over))"

text \<open>The answered markets: shown, the progress reported after each, whether the scan gave way.\<close>

fun show_priced :: "feed \<Rightarrow> (nat \<Rightarrow> bool) \<Rightarrow> nat \<Rightarrow> nat \<Rightarrow> nat \<Rightarrow> market list \<Rightarrow> market list \<times> (nat \<times> nat) list \<times> bool" where
  "show_priced fd cancel k seen tot [] = ([], [], False)"
| "show_priced fd cancel k seen tot (m # ms) =
     (if cancel k then ([], [], True)
      else let (shown, progress, over) = show_priced fd cancel (k + 1) (seen + 1) tot ms
        in (finalize (precise_reward fd m) m # shown, (seen + 1, tot) # progress, over))"

record reported =
  rp_shown :: "market list"
  rp_progress :: "(nat \<times> nat) list"
  rp_asked :: "string list"
  rp_over :: bool

text \<open>
  All questions are handed to the pool before the first answer is awaited, and leaving its \<open>with\<close> block waits for all of them, also
  when the scan gives way: \<open>rp_asked\<close> are the markets whose precise reward is asked for before this part ends.
\<close>

definition show_candidates :: "feed \<Rightarrow> (nat \<Rightarrow> bool) \<Rightarrow> nat \<Rightarrow> market list \<Rightarrow> market list \<Rightarrow> market list \<Rightarrow> reported" where
  "show_candidates fd cancel k extra priced answered =
     (let (first, k', over) = show_extra cancel k extra in
      if over then \<lparr>rp_shown = first, rp_progress = [], rp_asked = [], rp_over = True\<rparr>
      else let (rest, progress, over) = show_priced fd cancel k' 0 (length priced) answered
        in \<lparr>rp_shown = first @ rest, rp_progress = (0, length priced) # progress, rp_asked = map mk_cid priced, rp_over = over\<rparr>)"

section \<open>What is shown\<close>

lemma show_extra_spec:
  "show_extra cancel k ms = (shown, k', over) \<Longrightarrow>
     shown = map (\<lambda>m. finalize (batch_rate m) m) (take (k' - k) ms) \<and> k \<le> k' \<and> k' \<le> k + length ms \<and>
     (over \<longleftrightarrow> k' < k + length ms) \<and> (over \<longrightarrow> cancel k') \<and> (\<forall>j. k \<le> j \<and> j < k' \<longrightarrow> \<not> cancel j)"
proof (induction cancel k ms arbitrary: shown k' over rule: show_extra.induct)
  case (2 cancel k m ms)
  show ?case
  proof (cases "cancel k")
    case True
    with 2 show ?thesis by auto
  next
    case False
    obtain s j ov where rec: "show_extra cancel (k + 1) ms = (s, j, ov)" by (metis prod_cases3)
    have IH: "s = map (\<lambda>m. finalize (batch_rate m) m) (take (j - (k + 1)) ms)" "k + 1 \<le> j" "j \<le> k + 1 + length ms"
      "ov \<longleftrightarrow> j < k + 1 + length ms" "ov \<longrightarrow> cancel j" "\<forall>i. k + 1 \<le> i \<and> i < j \<longrightarrow> \<not> cancel i"
      using 2(1) [OF False rec] by blast+
    have eq: "shown = finalize (batch_rate m) m # s" "k' = j" "over = ov" using 2(2) False rec by simp_all
    have "j - k = Suc (j - (k + 1))" using IH(2) by simp
    then have "shown = map (\<lambda>m. finalize (batch_rate m) m) (take (k' - k) (m # ms))" by (simp add: eq IH(1))
    moreover have "\<not> cancel i" if "k \<le> i" "i < k'" for i
      using IH(6) False that eq(2) by (cases "i = k") auto
    ultimately show ?thesis using IH(2-5) eq by auto
  qed
qed auto

lemma show_priced_spec:
  "show_priced fd cancel k seen tot ms = (shown, progress, over) \<Longrightarrow>
     shown = map (\<lambda>m. finalize (precise_reward fd m) m) (take (length shown) ms) \<and> length shown \<le> length ms \<and>
     progress = map (\<lambda>i. (i, tot)) [seen + 1..<seen + 1 + length shown] \<and> (over \<longleftrightarrow> length shown < length ms) \<and>
     (over \<longrightarrow> cancel (k + length shown)) \<and> (\<forall>j < length shown. \<not> cancel (k + j))"
proof (induction fd cancel k seen tot ms arbitrary: shown progress over rule: show_priced.induct)
  case (2 fd cancel k seen tot m ms)
  show ?case
  proof (cases "cancel k")
    case True
    with 2 show ?thesis by auto
  next
    case False
    obtain s p ov where rec: "show_priced fd cancel (k + 1) (seen + 1) tot ms = (s, p, ov)" by (metis prod_cases3)
    have IH: "s = map (\<lambda>m. finalize (precise_reward fd m) m) (take (length s) ms)" "length s \<le> length ms"
      "p = map (\<lambda>i. (i, tot)) [seen + 1 + 1..<seen + 1 + 1 + length s]" "ov \<longleftrightarrow> length s < length ms"
      "ov \<longrightarrow> cancel (k + 1 + length s)" "\<forall>j < length s. \<not> cancel (k + 1 + j)"
      using 2(1) [OF False rec] by blast+
    have eq: "shown = finalize (precise_reward fd m) m # s" "progress = (seen + 1, tot) # p" "over = ov"
      using 2(2) False rec by simp_all
    have "progress = map (\<lambda>i. (i, tot)) [seen + 1..<seen + 1 + length shown]"
      by (simp add: eq IH(3) upt_conv_Cons del: upt_Suc)
    moreover have "\<not> cancel (k + j)" if "j < length shown" for j
      using IH(6) False that eq(1) by (cases j) auto
    moreover have "shown = map (\<lambda>m. finalize (precise_reward fd m) m) (take (length shown) (m # ms))"
      using IH(1) by (simp add: eq(1))
    ultimately show ?thesis using IH(2,4,5) eq by auto
  qed
qed auto

lemma show_candidates_spec:
  assumes "mset answered = mset priced" and "r = show_candidates fd cancel k extra priced answered"
  defines "out \<equiv> map (\<lambda>m. finalize (batch_rate m) m) extra @ map (\<lambda>m. finalize (precise_reward fd m) m) answered"
  shows "rp_shown r = take (length (rp_shown r)) out" "(rp_over r \<longleftrightarrow> length (rp_shown r) < length out)"
    "rp_over r \<longrightarrow> cancel (k + length (rp_shown r))" "\<forall>j < length (rp_shown r). \<not> cancel (k + j)"
    "rp_asked r = (if rp_progress r = [] then [] else map mk_cid priced)"
    "rp_progress r = [] \<longrightarrow> length (rp_shown r) < length extra"
    "rp_progress r \<noteq> [] \<longrightarrow> rp_progress r = map (\<lambda>i. (i, length priced)) [0..<Suc (length (rp_shown r) - length extra)]"
proof -
  obtain first k' over where x: "show_extra cancel k extra = (first, k', over)" by (metis prod_cases3)
  note e = show_extra_spec [OF x]
  have len: "length answered = length priced" using assms(1) mset_eq_length by blast
  have bounds: "k \<le> k'" "k' \<le> k + length extra" using e by blast+
  have "first = map (\<lambda>m. finalize (batch_rate m) m) (take (k' - k) extra)" using e by blast
  then have first: "length first = k' - k" using bounds by simp
  have "rp_shown r = take (length (rp_shown r)) out \<and> (rp_over r \<longleftrightarrow> length (rp_shown r) < length out) \<and>
    (rp_over r \<longrightarrow> cancel (k + length (rp_shown r))) \<and> (\<forall>j < length (rp_shown r). \<not> cancel (k + j)) \<and>
    rp_asked r = (if rp_progress r = [] then [] else map mk_cid priced) \<and>
    (rp_progress r = [] \<longrightarrow> length (rp_shown r) < length extra) \<and>
    (rp_progress r \<noteq> [] \<longrightarrow> rp_progress r = map (\<lambda>i. (i, length priced)) [0..<Suc (length (rp_shown r) - length extra)])"
  proof (cases over)
    case True
    then have r: "r = \<lparr>rp_shown = first, rp_progress = [], rp_asked = [], rp_over = True\<rparr>"
      by (simp add: assms(2) show_candidates_def x)
    have "k + length first = k'" "length first < length extra" using e True first by auto
    with e True first show ?thesis by (auto simp: r out_def take_map)
  next
    case False
    obtain rest progress over' where y: "show_priced fd cancel k' 0 (length priced) answered = (rest, progress, over')" by (metis prod_cases3)
    note p = show_priced_spec [OF y]
    have r: "r = \<lparr>rp_shown = first @ rest, rp_progress = (0, length priced) # progress, rp_asked = map mk_cid priced, rp_over = over'\<rparr>"
      using False by (simp add: assms(2) show_candidates_def x y)
    have k': "k' = k + length extra" using e False by auto
    then have f: "first = map (\<lambda>m. finalize (batch_rate m) m) extra" "length first = length extra" using e by simp_all
    have "\<not> cancel (k + j)" if "j < length (first @ rest)" for j
    proof (cases "j < length extra")
      case True
      then show ?thesis using e k' by auto
    next
      case False
      then have "j - length extra < length rest" "k + j = k' + (j - length extra)" using that f(2) k' by auto
      then show ?thesis using p by metis
    qed
    moreover have "first @ rest = take (length (first @ rest)) out"
    proof -
      have "rest = take (length rest) (map (\<lambda>m. finalize (precise_reward fd m) m) answered)" using p by (simp add: take_map)
      then show ?thesis using f by (simp add: out_def)
    qed
    moreover have "(0, length priced) # progress = map (\<lambda>i. (i, length priced)) [0..<Suc (length rest)]"
      using p by (simp add: upt_conv_Cons del: upt_Suc)
    moreover have "over' \<longrightarrow> cancel (k + length (first @ rest))"
    proof -
      have "k + length (first @ rest) = k' + length rest" using k' f(2) by simp
      then show ?thesis using p by metis
    qed
    moreover have "over' \<longleftrightarrow> length (first @ rest) < length out"
      using p f(2) len by (simp add: out_def)
    moreover have "length (first @ rest) - length extra = length rest" using f(2) by simp
    ultimately show ?thesis by (simp add: r del: upt_Suc length_append append_assoc take_append)
  qed
  then show "rp_shown r = take (length (rp_shown r)) out" "(rp_over r \<longleftrightarrow> length (rp_shown r) < length out)"
    "rp_over r \<longrightarrow> cancel (k + length (rp_shown r))" "\<forall>j < length (rp_shown r). \<not> cancel (k + j)"
    "rp_asked r = (if rp_progress r = [] then [] else map mk_cid priced)"
    "rp_progress r = [] \<longrightarrow> length (rp_shown r) < length extra"
    "rp_progress r \<noteq> [] \<longrightarrow> rp_progress r = map (\<lambda>i. (i, length priced)) [0..<Suc (length (rp_shown r) - length extra)]"
    by blast+
qed

section \<open>The whole discovery\<close>

text \<open>\<open>order\<close> is the order in which the answers come. None: the query without category failed.\<close>

definition discovery :: "feed \<Rightarrow> string list \<Rightarrow> criteria list \<Rightarrow> (nat \<Rightarrow> bool) \<Rightarrow> (market list \<Rightarrow> market list) \<Rightarrow> reported option" where
  "discovery fd catalog crs cancel order =
     (case (if any_include_other crs then fd_full fd else Some []) of
        None \<Rightarrow> None
      | Some full \<Rightarrow>
          let pool = tagged_pool fd catalog crs full;
              kept = filter (discovered fd crs) pool;
              priced = filter (should_price (fd_clock fd) crs) kept
          in if list_ex cancel [0..<length pool] then Some \<lparr>rp_shown = [], rp_progress = [], rp_asked = [], rp_over = True\<rparr>
             else Some (show_candidates fd cancel (length pool) (filter (\<lambda>m. \<not> should_price (fd_clock fd) crs m) kept) priced (order priced)))"

lemma taken_length: "xs = take n ys \<Longrightarrow> length xs \<le> length ys"
  by simp

lemma first_checkpoint:
  assumes "i < n" and "P i" and "\<forall>j < i. \<not> P j"
  shows "find_idx P [0..<n] = Some i"
  using assms by (simp add: find_idx_Some)

text \<open>C21: What a scan shows while it runs. Whatever the order of the answers, a discovery that is not taken over shows exactly the
  candidates it returns, with the same rewards; its progress counts the answers one by one up to their number. One
  that is taken over ends like the same discovery with answers in order, having shown equally many markets, each of
  them one that the complete run would show. But when it is taken over after the questions were handed to the threads,
  it gives way only after all of them are asked: the checkpoints do not shorten it.\<close>

theorem scan_shows_its_result:
  assumes "\<And>ms :: market list. mset (order ms) = mset ms" and "discovery fd catalog crs cancel order = Some r"
    and "discover_candidates fd catalog crs cancel = (pool, e)" and "discover_candidates fd catalog crs (\<lambda>k. False) = (every, e')"
  shows "e = (if rp_over r then Superseded else Complete) \<and> length (rp_shown r) = length pool \<and>
    set (rp_shown r) \<subseteq> set every \<and>
    (\<not> rp_over r \<longrightarrow> mset (rp_shown r) = mset pool \<and> (\<exists>n. rp_progress r = map (\<lambda>i. (i, n)) [0..<Suc n])) \<and>
    (rp_progress r \<noteq> [] \<longrightarrow> length (rp_asked r) = snd (hd (rp_progress r)))"
proof -
  obtain full where full: "(if any_include_other crs then fd_full fd else Some []) = Some full"
    using assms(2) by (auto simp: discovery_def split: option.splits)
  define p where "p = length (tagged_pool fd catalog crs full)"
  define kept where "kept = filter (discovered fd crs) (tagged_pool fd catalog crs full)"
  define priced where "priced = filter (should_price (fd_clock fd) crs) kept"
  define extra where "extra = filter (\<lambda>m. \<not> should_price (fd_clock fd) crs m) kept"
  define res where "res = (\<lambda>ms. map (\<lambda>m. finalize (batch_rate m) m) extra @ map (\<lambda>m. finalize (precise_reward fd m) m) ms)"
  have d: "discover_candidates fd catalog crs c =
      (case find_idx c [0..<p + length (res priced)] of None \<Rightarrow> (res priced, Complete) | Some i \<Rightarrow> (take (i - p) (res priced), Superseded))" for c
    unfolding discover_candidates_def full Let_def p_def res_def extra_def priced_def kept_def by (simp only: option.case)
  have every: "every = res priced" using assms(4) unfolding d by (auto split: option.splits simp: find_idx_Some)
  have r: "r = (if list_ex cancel [0..<p] then \<lparr>rp_shown = [], rp_progress = [], rp_asked = [], rp_over = True\<rparr>
      else show_candidates fd cancel p extra priced (order priced))"
    using assms(2) by (auto simp: discovery_def full Let_def p_def extra_def priced_def kept_def)
  have m: "mset (res (order priced)) = mset (res priced)" "length (res (order priced)) = length (res priced)" "set (res (order priced)) = set (res priced)"
    using assms(1) [of priced] mset_eq_length [OF assms(1) [of priced]] mset_eq_setD [OF assms(1) [of priced]]
    by (simp_all add: res_def)
  show ?thesis
  proof (cases "list_ex cancel [0..<p]")
    case True
    then have r: "r = \<lparr>rp_shown = [], rp_progress = [], rp_asked = [], rp_over = True\<rparr>" using r by simp
    obtain x where x: "x < p" "cancel x" using True by (auto simp: list_ex_iff)
    then have "find_idx cancel [0..<p + length (res priced)] \<noteq> None" by (auto simp: find_idx_None)
    then obtain i where i: "find_idx cancel [0..<p + length (res priced)] = Some i" by blast
    then have "i \<le> x" using x by (force simp: find_idx_Some not_le dest: spec [of _ x])
    then show ?thesis using assms(3) x(1) unfolding d i by (auto simp: r)
  next
    case False
    then have r': "r = show_candidates fd cancel p extra priced (order priced)" using r by simp
    note s = show_candidates_spec [OF assms(1) r', folded res_def]
    have before: "\<not> cancel j" if "j < p" for j using False that by (auto simp: list_ex_iff)
    have none: "\<not> cancel j" if "j < p + length (rp_shown r)" for j
      using before [of j] s(4) that by (cases "j < p") (auto dest: spec [of _ "j - p"])
    have out: "rp_shown r = take (length (rp_shown r)) (res (order priced))" "rp_over r \<longleftrightarrow> length (rp_shown r) < length (res priced)"
      using s(1,2) m(2) by (simp_all add: res_def)
    have sub: "set (rp_shown r) \<subseteq> set every"
      using out(1) m(3) every set_take_subset by metis
    have asked: "rp_progress r \<noteq> [] \<longrightarrow> length (rp_asked r) = snd (hd (rp_progress r))"
    proof
      assume ne: "rp_progress r \<noteq> []"
      then have "rp_progress r = map (\<lambda>i. (i, length priced)) [0..<Suc (length (rp_shown r) - length extra)]" using s(7) by blast
      then have "hd (rp_progress r) = (0, length priced)" by (simp add: upt_conv_Cons del: upt_Suc)
      then show "length (rp_asked r) = snd (hd (rp_progress r))" using s(5) ne by simp
    qed
    show ?thesis
    proof (cases "rp_over r")
      case True
      then have c: "find_idx cancel [0..<p + length (res priced)] = Some (p + length (rp_shown r))"
        using s(3) none out(2) by (intro first_checkpoint) auto
      then have "pool = take (length (rp_shown r)) (res priced)" "e = Superseded"
        using assms(3) unfolding d by simp_all
      with True out(2) sub asked show ?thesis by simp
    next
      case False
      have "length (rp_shown r) \<le> length (res priced)" using taken_length [OF out(1)] m(2) by simp
      then have all: "length (rp_shown r) = length (res priced)" using out(2) False by simp
      then have "find_idx cancel [0..<p + length (res priced)] = None" using none by (auto simp: find_idx_None)
      then have e: "pool = res priced" "e = Complete" using assms(3) unfolding d by simp_all
      have "rp_shown r = res (order priced)" using out(1) all m(2) by simp
      moreover have "rp_progress r \<noteq> []"
        using s(6) all by (auto simp: res_def)
      moreover have "length (rp_shown r) - length extra = length priced"
        using all by (simp add: res_def)
      ultimately have "rp_progress r = map (\<lambda>i. (i, length priced)) [0..<Suc (length priced)]" "mset (rp_shown r) = mset pool"
        using s(7) m(1) e(1) by simp_all
      with False e all sub asked show ?thesis by (simp del: upt_Suc) blast
    qed
  qed
qed

section \<open>A discovery\<close>

lemma scan_shows_witness:
  "\<exists>r pool. discovery demo_feed [''ai'', ''weather''] [demo_criteria] (\<lambda>_. False) rev = Some r \<and>
     discover_candidates demo_feed [''ai'', ''weather''] [demo_criteria] (\<lambda>_. False) = (pool, Complete) \<and> \<not> rp_over r \<and>
     mset (rp_shown r) = mset pool"
proof -
  obtain pool where pool: "discover_candidates demo_feed [''ai'', ''weather''] [demo_criteria] (\<lambda>_. False) = (pool, Complete)"
    by (simp add: discover_candidates_def demo_needed Let_def find_idx_None split: option.split)
  obtain r where r: "discovery demo_feed [''ai'', ''weather''] [demo_criteria] (\<lambda>_. False) rev = Some r"
    by (simp add: discovery_def demo_needed Let_def list_ex_iff)
  have "\<And>ms :: market list. mset (rev ms) = mset ms" by simp
  from scan_shows_its_result [OF this r pool pool] have "\<not> rp_over r" "\<not> rp_over r \<longrightarrow> mset (rp_shown r) = mset pool"
    by (auto split: if_splits)
  with r pool show ?thesis by blast
qed

end
