(* ===== verification/Store.thy ===== *)
theory Store
  imports Tiers
begin

text \<open>
  Settings, templates and wallets in the database (\<open>models/database.py\<close>, with the defaults of
  \<open>config.py\<close>) and the pages that edit them (\<open>web/routes.py\<close>). A value is kept as the JSON value
  that \<open>json.dumps\<close> and \<open>json.loads\<close> carry over; a table is a list of rows in the order of insertion
  or a map from its primary key. A failing uniqueness constraint is the result None. Texts are bytes.
\<close>

section \<open>Defaults\<close>

definition catalog_slugs :: "string list" where
  "catalog_slugs = [''politics'', ''geopolitics'', ''world'', ''elections'', ''economy'', ''finance'', ''crypto'',
     ''sports'', ''esports'', ''games'', ''weather'', ''ai'', ''tech'', ''culture'']"

definition default_included_categories :: "string list" where
  "default_included_categories = filter (\<lambda>s. s \<notin> {''sports'', ''esports'', ''weather''}) catalog_slugs"

definition engine_defaults :: "(string \<times> json) list" where
  "engine_defaults =
    [(''scan_interval_sec'', J_int 30), (''fill_check_interval_sec'', J_int 5), (''cooldown_minutes'', J_int 20),
     (''rewards_cache_ttl_sec'', J_int 0), (''discovery_interval_sec'', J_int 14400), (''reward_scan_max_pages'', J_int 20)]"

definition template_defaults :: "(string \<times> json) list" where
  "template_defaults =
    [(''min_reward_usd'', J_float (Fin 100)), (''max_spread_cents'', J_float (Fin 3)), (''min_price_cents'', J_float (Fin 10)),
     (''max_price_cents'', J_float (Fin 50)), (''min_settlement_days'', J_int 4), (''max_settlement_days'', J_null),
     (''skip_new_markets'', J_bool False), (''new_market_hours'', J_float (Fin 24)),
     (''skip_new_categories'', J_list (map J_str catalog_slugs)), (''skip_new_other'', J_bool True),
     (''theta_loss_cents'', J_int 2), (''stop_loss_mode'', J_str ''percent''), (''stop_loss_percent'', J_int 20),
     (''theta_stop_cents'', J_int 5), (''case_a_mode'', J_str ''ask''), (''gap_wide_cents'', J_int 10), (''gap_mid_cents'', J_int 5),
     (''cliff_probe_cents'', J_int 2), (''gap_veto_cents'', J_int 0), (''take_profit_mode'', J_str ''maker''),
     (''exit_maker_wait_sec'', J_int 60), (''merge_enabled'', J_bool False), (''merge_min_shares'', J_int 1),
     (''merge_min_advantage_usd'', J_float (Fin (1 / 100))), (''merge_confirm_timeout_sec'', J_int 120),
     (''included_categories'', J_list (map J_str default_included_categories)), (''include_other'', J_bool True),
     (''max_exposure_usd'', J_int 250), (''max_exposure_shares'', J_int 500), (''max_concurrent_markets'', J_int 10),
     (''low_balance_threshold_usd'', J_float (Fin 4)), (''low_reward_threshold_usd'', J_float (Fin 30)),
     (''small_position_shares'', J_float (Fin 20)), (''liquidate_target_mode'', J_str ''balance''),
     (''liquidate_target_usd'', J_float (Fin 4)), (''placement_mode'', J_str ''gap_single''),
     (''legacy_wall_threshold'', J_int 2000), (''legacy_cumulative_threshold'', J_int 6000), (''order_size_mode'', J_str ''min''),
     (''order_size_custom_usd'', J_int 0), (''size_tiers'', J_list [])]"

definition engine_keys :: "string set" where
  "engine_keys = set (map fst engine_defaults)"

definition template_keys :: "string set" where
  "template_keys = set (map fst template_defaults)"

text \<open>The bytes of the name of the default template.\<close>

definition default_name :: string where
  "default_name = [CHR 0xE9, CHR 0xBB, CHR 0x98, CHR 0xE8, CHR 0xAE, CHR 0xA4]"

section \<open>Tables\<close>

record wallet_row =
  wa_address :: string
  wa_key :: string
  wa_funder :: string
  wa_sig :: int
  wa_proxy :: string
  wa_remark :: string
  wa_enabled :: bool
  wa_active :: rat
  wa_template :: "nat option"

record db =
  db_settings :: "string \<rightharpoonup> json"
  db_templates :: "(nat \<times> string) list"
  db_next_template :: nat
  db_values :: "nat \<Rightarrow> string \<rightharpoonup> json"
  db_wallets :: "wallet_row list"

section \<open>Settings\<close>

definition restrict_keys :: "string set \<Rightarrow> (string \<rightharpoonup> json) \<Rightarrow> (string \<rightharpoonup> json)" where
  "restrict_keys ks m = (\<lambda>k. if k \<in> ks then m k else None)"

definition get_settings :: "db \<Rightarrow> string \<rightharpoonup> json" where
  "get_settings d = map_of engine_defaults ++ restrict_keys engine_keys (db_settings d)"

definition save_settings :: "(string \<times> json) list \<Rightarrow> db \<Rightarrow> db" where
  "save_settings kvs d = d\<lparr>db_settings := db_settings d ++ map_of kvs\<rparr>"

definition save_category_catalog :: "json \<Rightarrow> db \<Rightarrow> db" where
  "save_category_catalog payload d = d\<lparr>db_settings := (db_settings d)(''category_catalog'' \<mapsto> payload)\<rparr>"

definition get_category_catalog :: "db \<Rightarrow> json option" where
  "get_category_catalog d = db_settings d ''category_catalog''"

section \<open>Templates\<close>

definition template_id_of :: "string \<Rightarrow> db \<Rightarrow> nat option" where
  "template_id_of name d = map_option fst (find (\<lambda>(i, n). n = name) (db_templates d))"

definition create_template :: "string \<Rightarrow> db \<Rightarrow> (nat \<times> db) option" where
  "create_template name d =
     (if template_id_of name d \<noteq> None then None
      else Some (db_next_template d, d\<lparr>db_templates := db_templates d @ [(db_next_template d, name)],
                                       db_next_template := db_next_template d + 1\<rparr>))"

definition list_templates :: "db \<Rightarrow> (nat \<times> string) list" where
  "list_templates d = sort_key fst (db_templates d)"

text \<open>The default template is the one that bears the name; without one it is created.\<close>

definition get_default_template_id :: "db \<Rightarrow> nat \<times> db" where
  "get_default_template_id d =
     (case template_id_of default_name d of
        Some i \<Rightarrow> (i, d)
      | None \<Rightarrow> the (create_template default_name d))"

definition get_template :: "nat \<Rightarrow> db \<Rightarrow> string \<rightharpoonup> json" where
  "get_template i d = map_of template_defaults ++ db_values d i"

definition save_template :: "nat \<Rightarrow> (string \<times> json) list \<Rightarrow> db \<Rightarrow> db" where
  "save_template i kvs d = d\<lparr>db_values := (db_values d)(i := db_values d i ++ map_of kvs)\<rparr>"

definition rename_template :: "nat \<Rightarrow> string \<Rightarrow> db \<Rightarrow> db option" where
  "rename_template i name d =
     (if \<exists>(j, n)\<in>set (db_templates d). n = name \<and> j \<noteq> i \<and> i \<in> fst ` set (db_templates d) then None
      else Some (d\<lparr>db_templates := map (\<lambda>(j, n). (j, if j = i then name else n)) (db_templates d)\<rparr>))"

section \<open>Wallets\<close>

definition update_wallet :: "string \<Rightarrow> (wallet_row \<Rightarrow> wallet_row) \<Rightarrow> db \<Rightarrow> db" where
  "update_wallet a f d = d\<lparr>db_wallets := map (\<lambda>w. if wa_address w = a then f w else w) (db_wallets d)\<rparr>"

definition add_wallet :: "string \<Rightarrow> string \<Rightarrow> string \<Rightarrow> int \<Rightarrow> string \<Rightarrow> string \<Rightarrow> db \<Rightarrow> db option" where
  "add_wallet a key funder sig proxy remark d =
     (if a \<in> wa_address ` set (db_wallets d) then None
      else Some (d\<lparr>db_wallets := db_wallets d @ [\<lparr>wa_address = a, wa_key = key, wa_funder = funder, wa_sig = sig, wa_proxy = proxy,
        wa_remark = remark, wa_enabled = True, wa_active = 0, wa_template = None\<rparr>]\<rparr>))"

definition set_wallet_proxy :: "string \<Rightarrow> string \<Rightarrow> db \<Rightarrow> db" where
  "set_wallet_proxy a proxy = update_wallet a (\<lambda>w. w\<lparr>wa_proxy := proxy\<rparr>)"

definition set_wallet_remark :: "string \<Rightarrow> string \<Rightarrow> db \<Rightarrow> db" where
  "set_wallet_remark a remark = update_wallet a (\<lambda>w. w\<lparr>wa_remark := remark\<rparr>)"

definition touch_wallet_active :: "rat \<Rightarrow> string \<Rightarrow> db \<Rightarrow> db" where
  "touch_wallet_active now a = update_wallet a (\<lambda>w. w\<lparr>wa_active := now\<rparr>)"

definition remove_wallet :: "string \<Rightarrow> db \<Rightarrow> db" where
  "remove_wallet a d = d\<lparr>db_wallets := filter (\<lambda>w. wa_address w \<noteq> a) (db_wallets d)\<rparr>"

definition toggle_wallet :: "string \<Rightarrow> bool \<Rightarrow> db \<Rightarrow> db" where
  "toggle_wallet a on = update_wallet a (\<lambda>w. w\<lparr>wa_enabled := on\<rparr>)"

definition set_wallet_template :: "string \<Rightarrow> nat \<Rightarrow> db \<Rightarrow> db" where
  "set_wallet_template a i = update_wallet a (\<lambda>w. w\<lparr>wa_template := Some i\<rparr>)"

definition find_wallet :: "string \<Rightarrow> db \<Rightarrow> wallet_row option" where
  "find_wallet a d = find (\<lambda>w. wa_address w = a) (db_wallets d)"

text \<open>\<open>get_template_for\<close> reads, and may create, the default template for a wallet without a binding.\<close>

definition template_of_wallet :: "string \<Rightarrow> db \<Rightarrow> nat \<times> db" where
  "template_of_wallet a d =
     (case find_wallet a d of
        Some w \<Rightarrow> (case wa_template w of Some i \<Rightarrow> (i, d) | None \<Rightarrow> get_default_template_id d)
      | None \<Rightarrow> get_default_template_id d)"

definition get_template_for :: "string \<Rightarrow> db \<Rightarrow> (string \<rightharpoonup> json) \<times> db" where
  "get_template_for a d = (let (i, d') = template_of_wallet a d in (get_template i d', d'))"

text \<open>\<open>delete_template\<close>; None is the refusal to delete the default template.\<close>

definition delete_template :: "nat \<Rightarrow> db \<Rightarrow> db option" where
  "delete_template i d =
     (let (def, d) = get_default_template_id d in
      if i = def then None
      else Some (d\<lparr>db_wallets := map (\<lambda>w. if wa_template w = Some i then w\<lparr>wa_template := None\<rparr> else w) (db_wallets d),
                   db_values := (db_values d)(i := Map.empty),
                   db_templates := filter (\<lambda>(j, n). j \<noteq> i) (db_templates d)\<rparr>))"

section \<open>Migration\<close>

definition superseded :: "string list" where
  "superseded = [''rule1_min_coeff'', ''rule2_min_coeff'', ''rule3_min_coeff'', ''gap_high_coeff_sum_min'', ''amount_value_table'',
     ''rewards_min_size_min'', ''rewards_min_size_max'']"

definition drop_keys :: "string set \<Rightarrow> (string \<rightharpoonup> json) \<Rightarrow> (string \<rightharpoonup> json)" where
  "drop_keys ks m = (\<lambda>k. if k \<in> ks then None else m k)"

text \<open>The first template takes over the strategy values of the settings table.\<close>

definition move_settings :: "db \<Rightarrow> db" where
  "move_settings d =
     (if db_templates d = [] then
        (let i = db_next_template d in
         d\<lparr>db_templates := [(i, default_name)], db_next_template := i + 1,
           db_values := (db_values d)(i := db_values d i ++ restrict_keys template_keys (db_settings d)),
           db_settings := drop_keys template_keys (db_settings d)\<rparr>)
      else d)"

definition drop_superseded :: "db \<Rightarrow> db" where
  "drop_superseded d = d\<lparr>db_values := (\<lambda>i. drop_keys (set superseded) (db_values d i)),
     db_settings := drop_keys (set superseded) (db_settings d)\<rparr>"

definition migrate :: "db \<Rightarrow> db" where
  "migrate d = drop_superseded (move_settings d)"

text \<open>The columns the migration adds to the tables of an older version; an absent table has no columns.\<close>

definition add_missing :: "string list \<Rightarrow> string list \<Rightarrow> string list" where
  "add_missing wanted cols = cols @ filter (\<lambda>c. c \<notin> set cols) wanted"

definition migrate_columns :: "string list \<times> string list \<times> string list \<Rightarrow> string list \<times> string list \<times> string list" where
  "migrate_columns = (\<lambda>(wallets, eligible, pnl).
     (add_missing [''funder'', ''signature_type'', ''proxy'', ''remark'', ''last_active_at'', ''template_id''] wallets,
      if eligible = [] then [] else add_missing [''min_cost'', ''tags'', ''spread_cents''] eligible,
      if pnl = [] then [] else add_missing [''merge_pnl''] pnl))"

section \<open>Pages\<close>

text \<open>The settings page edits the engine values and the default template as one list of values.\<close>

definition api_get_settings :: "db \<Rightarrow> (string \<rightharpoonup> json) \<times> db" where
  "api_get_settings d = (let (i, d') = get_default_template_id d in (get_settings d ++ get_template i d', d'))"

definition pick_keys :: "string set \<Rightarrow> (string \<times> json) list \<Rightarrow> (string \<times> json) list" where
  "pick_keys ks data = filter (\<lambda>(k, v). k \<in> ks) data"

text \<open>The strategy values of a request with validated size modules.\<close>

definition checked_strategy :: "(string \<times> json) list \<Rightarrow> (string \<times> json) list outcome" where
  "checked_strategy data =
     (let strategy = pick_keys template_keys data in
      case map_of strategy ''size_tiers'' of
        None \<Rightarrow> Accepted strategy
      | Some raw \<Rightarrow>
          (case validate_size_tiers raw of
             Accepted tiers \<Rightarrow> Accepted (map (\<lambda>(k, v). (k, if k = ''size_tiers'' then J_list tiers else v)) strategy)
           | Refused e \<Rightarrow> Refused e
           | Raised e \<Rightarrow> Raised e))"

definition api_save_settings :: "(string \<times> json) list \<Rightarrow> db \<Rightarrow> db outcome" where
  "api_save_settings data d =
     (case checked_strategy data of
        Accepted strategy \<Rightarrow>
          (let engine = pick_keys engine_keys data;
               d1 = (if engine = [] then d else save_settings engine d)
           in Accepted (if strategy = [] then d1 else (let (i, d2) = get_default_template_id d1 in save_template i strategy d2)))
      | Refused e \<Rightarrow> Refused e
      | Raised e \<Rightarrow> Raised e)"

definition api_save_template :: "nat \<Rightarrow> (string \<times> json) list \<Rightarrow> db \<Rightarrow> db outcome" where
  "api_save_template i data d =
     (case checked_strategy data of
        Accepted strategy \<Rightarrow> Accepted (save_template i strategy d)
      | Refused e \<Rightarrow> Refused e
      | Raised e \<Rightarrow> Raised e)"

text \<open>Names are stripped; None is the answer 400.\<close>

definition api_create_template :: "string \<Rightarrow> db \<Rightarrow> (nat \<times> db) option" where
  "api_create_template name d = (if strip name = [] then None else create_template (strip name) d)"

definition api_rename_template :: "nat \<Rightarrow> string \<Rightarrow> db \<Rightarrow> db option" where
  "api_rename_template i name d = (if strip name = [] then None else rename_template i (strip name) d)"

definition api_list_templates :: "db \<Rightarrow> (nat \<times> string \<times> bool) list \<times> db" where
  "api_list_templates d = (let (def, d') = get_default_template_id d in (map (\<lambda>(i, n). (i, n, i = def)) (list_templates d'), d'))"

section \<open>Key sets\<close>

lemma key_sets_disjoint: "engine_keys \<inter> template_keys = {}" "set superseded \<inter> template_keys = {}"
  "set superseded \<inter> engine_keys = {}"
proof -
  have "list_all (\<lambda>k. k \<notin> set (map fst template_defaults)) (map fst engine_defaults)"
    by code_simp
  then show "engine_keys \<inter> template_keys = {}"
    unfolding engine_keys_def template_keys_def list_all_iff by blast
  have "list_all (\<lambda>k. k \<notin> set (map fst template_defaults) \<and> k \<notin> set (map fst engine_defaults)) superseded"
    by code_simp
  then show "set superseded \<inter> template_keys = {}" "set superseded \<inter> engine_keys = {}"
    unfolding engine_keys_def template_keys_def list_all_iff by blast+
qed

lemma engine_default_None: "k \<notin> engine_keys \<Longrightarrow> map_of engine_defaults k = None"
  and template_default_None: "k \<notin> template_keys \<Longrightarrow> map_of template_defaults k = None"
  by (simp_all add: engine_keys_def template_keys_def map_of_eq_None_iff)

lemma template_default_Some: "k \<in> template_keys \<Longrightarrow> \<exists>v. map_of template_defaults k = Some v"
  using map_of_eq_None_iff [of template_defaults k] by (auto simp: template_keys_def)

lemma get_settings_simp: "get_settings d k = (if k \<in> engine_keys then
    (case db_settings d k of Some v \<Rightarrow> Some v | None \<Rightarrow> map_of engine_defaults k) else None)"
  by (auto simp: get_settings_def map_add_def restrict_keys_def engine_default_None split: option.split)

lemma get_template_simp: "get_template i d k = (case db_values d i k of Some v \<Rightarrow> Some v | None \<Rightarrow> map_of template_defaults k)"
  by (simp add: get_template_def map_add_def split: option.split)

section \<open>Migration keeps what is in force\<close>

text \<open>Migrating an old database keeps the values in force. With no template yet, the default template
  then reads every strategy value as the settings table had it, or its default, the engine values read as
  before, the superseded values are gone, and the template found as the default is the new one;
  migrating again changes nothing.\<close>

theorem migrate_keeps_values:
  assumes "db_templates d = []" and "db_values d (db_next_template d) = Map.empty"
  shows "fst (get_default_template_id (migrate d)) = db_next_template d \<and>
    (k \<in> template_keys \<longrightarrow>
       get_template (db_next_template d) (migrate d) k =
         (case db_settings d k of Some v \<Rightarrow> Some v | None \<Rightarrow> map_of template_defaults k)) \<and>
    get_settings (migrate d) = get_settings d \<and>
    (k \<in> set superseded \<longrightarrow> get_template i (migrate d) k = None \<and> db_settings (migrate d) k = None) \<and>
    migrate (migrate d) = migrate d"
proof (intro conjI impI)
  let ?i = "db_next_template d"
  show "fst (get_default_template_id (migrate d)) = ?i"
    by (simp add: get_default_template_id_def template_id_of_def migrate_def drop_superseded_def move_settings_def assms Let_def)
  show "get_template ?i (migrate d) k = (case db_settings d k of Some v \<Rightarrow> Some v | None \<Rightarrow> map_of template_defaults k)"
    if "k \<in> template_keys"
    using that key_sets_disjoint(2) assms
    by (auto simp: get_template_simp migrate_def drop_superseded_def move_settings_def Let_def drop_keys_def restrict_keys_def
        split: option.split)
  show "get_settings (migrate d) = get_settings d"
    using key_sets_disjoint(1,3) assms
    by (auto simp: fun_eq_iff get_settings_simp migrate_def drop_superseded_def move_settings_def Let_def drop_keys_def split: option.split)
  show "get_template i (migrate d) k = None" "db_settings (migrate d) k = None" if "k \<in> set superseded"
    using that key_sets_disjoint(2) template_default_None [of k]
    by (auto simp: get_template_simp migrate_def drop_superseded_def drop_keys_def split: option.split)
  show "migrate (migrate d) = migrate d"
    using assms by (simp add: migrate_def drop_superseded_def move_settings_def Let_def drop_keys_def fun_eq_iff)
qed

section \<open>The tables stay well formed\<close>

definition tids :: "db \<Rightarrow> nat list" where
  "tids d = map fst (db_templates d)"

definition tnames :: "db \<Rightarrow> string list" where
  "tnames d = map snd (db_templates d)"

definition addresses :: "db \<Rightarrow> string list" where
  "addresses d = map wa_address (db_wallets d)"

text \<open>The wallets bound to a template that is not there, with its id.\<close>

definition dangling :: "db \<Rightarrow> (string \<times> nat) set" where
  "dangling d = {(a, i). i \<notin> set (tids d) \<and> (\<exists>w \<in> set (db_wallets d). wa_address w = a \<and> wa_template w = Some i)}"

definition store_inv :: "db \<Rightarrow> bool" where
  "store_inv d \<longleftrightarrow> distinct (tids d) \<and> distinct (tnames d) \<and> (\<forall>i\<in>set (tids d). i < db_next_template d) \<and> distinct (addresses d)"

lemmas view_defs = tids_def tnames_def addresses_def

datatype store_op =
    Save_settings "(string \<times> json) list"
  | Create string
  | Rename nat string
  | Delete nat
  | Save_template nat "(string \<times> json) list"
  | Look_up_default
  | Add string string string int string string
  | Remove string
  | Toggle string bool
  | Set_proxy string string
  | Set_remark string string
  | Touch rat string
  | Bind string nat
  | Migrate

fun store_step :: "store_op \<Rightarrow> db \<Rightarrow> db option" where
  "store_step (Save_settings kvs) d = Some (save_settings kvs d)"
| "store_step (Create name) d = map_option snd (create_template name d)"
| "store_step (Rename i name) d = rename_template i name d"
| "store_step (Delete i) d = delete_template i d"
| "store_step (Save_template i kvs) d = Some (save_template i kvs d)"
| "store_step Look_up_default d = Some (snd (get_default_template_id d))"
| "store_step (Add a key funder sig proxy remark) d = add_wallet a key funder sig proxy remark d"
| "store_step (Remove a) d = Some (remove_wallet a d)"
| "store_step (Toggle a on) d = Some (toggle_wallet a on d)"
| "store_step (Set_proxy a proxy) d = Some (set_wallet_proxy a proxy d)"
| "store_step (Set_remark a remark) d = Some (set_wallet_remark a remark d)"
| "store_step (Touch now a) d = Some (touch_wallet_active now a d)"
| "store_step (Bind a i) d = Some (set_wallet_template a i d)"
| "store_step Migrate d = Some (migrate d)"

text \<open>An operation that fails leaves the tables as they are.\<close>

definition store_do :: "store_op \<Rightarrow> db \<Rightarrow> db" where
  "store_do op d = (case store_step op d of None \<Rightarrow> d | Some d' \<Rightarrow> d')"

definition store_run :: "store_op list \<Rightarrow> db \<Rightarrow> db" where
  "store_run ops d = fold store_do ops d"

lemma template_id_of_iff: "template_id_of name d = None \<longleftrightarrow> name \<notin> set (tnames d)"
  by (force simp: template_id_of_def tnames_def find_None_iff)

lemma store_inv_same:
  assumes "store_inv d" and "tids d' = tids d" and "tnames d' = tnames d" and "db_next_template d' = db_next_template d"
    and "addresses d' = addresses d"
  shows "store_inv d'"
  using assms by (auto simp: store_inv_def)

lemma store_inv_create:
  assumes "store_inv d" and "create_template name d = Some (i, d')"
  shows "store_inv d'"
proof -
  have d': "d' = d\<lparr>db_templates := db_templates d @ [(db_next_template d, name)], db_next_template := db_next_template d + 1\<rparr>"
    and new: "name \<notin> set (tnames d)"
    using assms(2) by (auto simp: create_template_def template_id_of_iff split: if_splits)
  have "tids d' = tids d @ [db_next_template d]" "tnames d' = tnames d @ [name]" "addresses d' = addresses d"
    "db_next_template d' = db_next_template d + 1"
    by (simp_all add: d' view_defs)
  with assms(1) new show ?thesis
    by (fastforce simp: store_inv_def)
qed

lemma store_inv_default: "store_inv d \<Longrightarrow> store_inv (snd (get_default_template_id d))"
  by (auto simp: get_default_template_id_def create_template_def intro: store_inv_create split: option.split)

lemma store_inv_update:
  assumes "store_inv d" and "\<And>w. wa_address (f w) = wa_address w"
  shows "store_inv (update_wallet a f d)"
  by (rule store_inv_same [OF assms(1)]) (simp_all add: view_defs update_wallet_def assms(2))

lemma distinct_renamed:
  assumes "distinct (map fst ts)" and "distinct (map snd ts)" and "\<And>j. (j, name) \<in> set ts \<Longrightarrow> j \<noteq> i \<Longrightarrow> i \<notin> fst ` set ts"
  shows "distinct (map (\<lambda>t. if fst t = i then name else snd t) ts)"
  using assms
proof (induction ts)
  case (Cons t ts)
  have IH: "distinct (map (\<lambda>t. if fst t = i then name else snd t) ts)"
    using Cons.prems Cons.IH by (cases t) (simp, blast)
  have "(if fst t = i then name else snd t) \<noteq> (if fst u = i then name else snd u)" if "u \<in> set ts" for u
  proof -
    have "fst t \<noteq> fst u" "snd t \<noteq> snd u"
      using that Cons.prems(1,2) by auto
    moreover have "snd u \<noteq> name" if "i = fst t"
      using that Cons.prems(3) [of "fst u"] \<open>u \<in> set ts\<close> \<open>fst t \<noteq> fst u\<close> by (cases u) auto
    moreover have "snd t \<noteq> name" if "i = fst u"
      using that Cons.prems(3) [of "fst t"] \<open>u \<in> set ts\<close> \<open>fst t \<noteq> fst u\<close> by (cases t) force
    ultimately show ?thesis by auto
  qed
  with IH show ?case by fastforce
qed simp

lemma store_inv_rename:
  assumes "store_inv d" and "rename_template i name d = Some d'"
  shows "store_inv d'"
proof -
  have d': "d' = d\<lparr>db_templates := map (\<lambda>(j, n). (j, if j = i then name else n)) (db_templates d)\<rparr>"
    and free: "\<And>j. (j, name) \<in> set (db_templates d) \<Longrightarrow> j \<noteq> i \<Longrightarrow> i \<notin> fst ` set (db_templates d)"
    using assms(2) by (auto simp: rename_template_def split: if_splits)
  have "tids d' = tids d"
    by (simp add: d' tids_def split_beta)
  moreover have "distinct (tnames d')"
    using distinct_renamed [of "db_templates d" name i] free assms(1)
    by (auto simp: d' tnames_def store_inv_def tids_def split_beta o_def cong: if_cong)
  ultimately show ?thesis
    using assms(1) by (simp add: store_inv_def d' addresses_def)
qed

lemma store_inv_delete:
  assumes "store_inv d" and "delete_template i d = Some d'"
  shows "store_inv d'"
proof -
  obtain def e where e: "get_default_template_id d = (def, e)" by fastforce
  with assms(1) have inv: "store_inv e" using store_inv_default [of d] by simp
  have d': "d' = e\<lparr>db_wallets := map (\<lambda>w. if wa_template w = Some i then w\<lparr>wa_template := None\<rparr> else w) (db_wallets e),
      db_values := (db_values e)(i := Map.empty), db_templates := filter (\<lambda>(j, n). j \<noteq> i) (db_templates e)\<rparr>"
    using assms(2) by (auto simp: delete_template_def e split: if_splits)
  have "distinct (tids d')" "distinct (tnames d')" "set (tids d') = set (tids e) - {i}"
    using inv by (auto simp: d' store_inv_def tids_def tnames_def distinct_map_filter)
  moreover have "addresses d' = addresses e"
    by (simp add: d' addresses_def)
  ultimately show ?thesis
    using inv by (auto simp: store_inv_def d')
qed

lemma store_inv_migrate: "store_inv d \<Longrightarrow> store_inv (migrate d)"
  by (auto simp: store_inv_def migrate_def drop_superseded_def move_settings_def view_defs Let_def)

lemma store_inv_add:
  assumes "store_inv d" and "add_wallet a key funder sig proxy remark d = Some d'"
  shows "store_inv d'"
proof -
  have "a \<notin> set (addresses d)" "addresses d' = addresses d @ [a]" "tids d' = tids d" "tnames d' = tnames d"
    "db_next_template d' = db_next_template d"
    using assms(2) by (auto simp: add_wallet_def view_defs split: if_splits)
  with assms(1) show ?thesis by (simp add: store_inv_def)
qed

lemma store_inv_remove: "store_inv d \<Longrightarrow> store_inv (remove_wallet a d)"
  by (auto simp: store_inv_def remove_wallet_def view_defs distinct_map_filter)

lemmas wallet_updates = toggle_wallet_def set_wallet_proxy_def set_wallet_remark_def touch_wallet_active_def set_wallet_template_def

lemma store_step_inv:
  assumes "store_inv d" and "store_step op d = Some d'"
  shows "store_inv d'"
proof (cases op)
  case (Save_settings kvs)
  with assms show ?thesis by (auto intro: store_inv_same simp: save_settings_def view_defs)
next
  case (Save_template i kvs)
  with assms show ?thesis by (auto intro: store_inv_same simp: save_template_def view_defs)
next
  case (Create name)
  with assms show ?thesis by (auto dest: store_inv_create)
next
  case (Rename i name)
  with assms show ?thesis by (auto dest: store_inv_rename)
next
  case (Delete i)
  with assms show ?thesis by (auto dest: store_inv_delete)
next
  case (Add a key funder sig proxy remark)
  with assms show ?thesis by (auto dest: store_inv_add)
qed (use assms in \<open>auto simp: store_inv_default store_inv_remove store_inv_migrate wallet_updates intro!: store_inv_update\<close>)

text \<open>What an operation does to the bindings.\<close>

lemma tids_default: "set (tids d) \<subseteq> set (tids (snd (get_default_template_id d)))"
  "db_wallets (snd (get_default_template_id d)) = db_wallets d"
  by (auto simp: get_default_template_id_def create_template_def tids_def split: option.split)

lemma dangling_same:
  assumes "\<And>w i. w \<in> set (db_wallets d') \<Longrightarrow> wa_template w = Some i \<Longrightarrow>
      \<exists>v \<in> set (db_wallets d). wa_address v = wa_address w \<and> wa_template v = Some i"
    and "set (tids d) \<subseteq> set (tids d')"
  shows "dangling d' \<subseteq> dangling d"
  using assms unfolding dangling_def by blast

lemma dangling_update:
  assumes "\<And>w. wa_address (f w) = wa_address w" and "\<And>w. wa_template (f w) = wa_template w"
  shows "dangling (update_wallet a f d) \<subseteq> dangling d"
  by (rule dangling_same) (use assms in \<open>auto simp: update_wallet_def tids_def\<close>)

lemma dangling_delete:
  assumes "delete_template i d = Some d'"
  shows "dangling d' \<subseteq> dangling d"
proof -
  obtain def e where e: "get_default_template_id d = (def, e)" by fastforce
  have d': "d' = e\<lparr>db_wallets := map (\<lambda>w. if wa_template w = Some i then w\<lparr>wa_template := None\<rparr> else w) (db_wallets e),
      db_values := (db_values e)(i := Map.empty), db_templates := filter (\<lambda>(j, n). j \<noteq> i) (db_templates e)\<rparr>"
    using assms by (auto simp: delete_template_def e split: if_splits)
  have ids: "set (tids d') = set (tids e) - {i}" by (force simp: d' tids_def)
  have "dangling d' \<subseteq> dangling e"
  proof clarify
    fix a j assume "(a, j) \<in> dangling d'"
    then obtain w where w: "w \<in> set (db_wallets d')" "wa_address w = a" "wa_template w = Some j" and j: "j \<notin> set (tids d')"
      unfolding dangling_def by blast
    from w obtain v where "v \<in> set (db_wallets e)" "wa_address v = a" "wa_template v = Some j" "j \<noteq> i"
      unfolding d' by (fastforce split: if_splits)
    with j ids show "(a, j) \<in> dangling e" unfolding dangling_def by blast
  qed
  also have "\<dots> \<subseteq> dangling d" using tids_default [of d] e by (intro dangling_same) auto
  finally show ?thesis .
qed

lemma dangling_step:
  assumes "store_step op d = Some d'"
  shows "dangling d' \<subseteq> dangling d \<union> (case op of Bind a i \<Rightarrow> if i \<in> set (tids d) then {} else {(a, i)} | _ \<Rightarrow> {})"
proof (cases op)
  case (Delete i)
  with assms dangling_delete show ?thesis by simp
next
  case (Bind a i)
  then have d': "d' = set_wallet_template a i d" using assms by simp
  have "tids d' = tids d" by (simp add: d' set_wallet_template_def update_wallet_def tids_def)
  then show ?thesis unfolding Bind dangling_def
    by (auto simp: d' set_wallet_template_def update_wallet_def split: if_splits)
next
  case (Create name)
  with assms have "dangling d' \<subseteq> dangling d"
    by (intro dangling_same) (auto simp: create_template_def tids_def split: if_splits)
  then show ?thesis using Create by simp
next
  case (Rename i name)
  with assms have "dangling d' \<subseteq> dangling d"
    by (intro dangling_same) (force simp: rename_template_def tids_def split_beta split: if_splits)+
  then show ?thesis using Rename by simp
next
  case Look_up_default
  with assms tids_default [of d] have "dangling d' \<subseteq> dangling d" by (intro dangling_same) auto
  then show ?thesis using Look_up_default by simp
next
  case (Add a key funder sig proxy remark)
  with assms have "dangling d' \<subseteq> dangling d"
    by (intro dangling_same) (auto simp: add_wallet_def tids_def split: if_splits)
  then show ?thesis using Add by simp
next
  case (Remove a)
  with assms have "dangling d' \<subseteq> dangling d"
    by (intro dangling_same) (auto simp: remove_wallet_def tids_def)
  then show ?thesis using Remove by simp
next
  case Migrate
  have "db_wallets (migrate d) = db_wallets d" "set (tids d) \<subseteq> set (tids (migrate d))"
    by (simp_all add: migrate_def drop_superseded_def move_settings_def tids_def Let_def)
  with Migrate assms have "dangling d' \<subseteq> dangling d" by (intro dangling_same) auto
  then show ?thesis using Migrate by simp
next
  case (Save_settings kvs)
  with assms have "dangling d' \<subseteq> dangling d" by (intro dangling_same) (auto simp: save_settings_def tids_def)
  then show ?thesis using Save_settings by simp
next
  case (Save_template i kvs)
  with assms have "dangling d' \<subseteq> dangling d" by (intro dangling_same) (auto simp: save_template_def tids_def)
  then show ?thesis using Save_template by simp
next
  case (Toggle a on)
  with assms show ?thesis using dangling_update [of "\<lambda>w. w\<lparr>wa_enabled := on\<rparr>" a d] by (simp add: toggle_wallet_def)
next
  case (Set_proxy a proxy)
  with assms show ?thesis using dangling_update [of "\<lambda>w. w\<lparr>wa_proxy := proxy\<rparr>" a d] by (simp add: set_wallet_proxy_def)
next
  case (Set_remark a remark)
  with assms show ?thesis using dangling_update [of "\<lambda>w. w\<lparr>wa_remark := remark\<rparr>" a d] by (simp add: set_wallet_remark_def)
next
  case (Touch now a)
  with assms show ?thesis using dangling_update [of "\<lambda>w. w\<lparr>wa_active := now\<rparr>" a d] by (simp add: touch_wallet_active_def)
qed

text \<open>C29: The tables of templates and wallets stay well formed, and only the page that binds wallets can leave one without its
  template. Starting from well-formed tables, any run of operations, the failing ones included, keeps
  the ids and names of templates and the addresses of wallets distinct and the next id above all of them. A wallet that is
  bound to a template that is not there after the run was so at the beginning, or the run bound it to this id at a moment when there was no
  such template, which the page does not check: deleting a template never leaves a wallet behind.\<close>

theorem store_stays_well_formed:
  assumes "store_inv d"
  shows "store_inv (store_run ops d) \<and>
    (\<forall>(a, i) \<in> dangling (store_run ops d). (a, i) \<in> dangling d \<or>
      (\<exists>k < length ops. ops ! k = Bind a i \<and> i \<notin> set (tids (store_run (take k ops) d))))"
proof (induction ops rule: rev_induct)
  case Nil
  then show ?case using assms by (auto simp: store_run_def)
next
  case (snoc op ops)
  let ?d = "store_run ops d"
  have run: "store_run (ops @ [op]) d = store_do op ?d" by (simp add: store_run_def)
  have inv: "store_inv (store_do op ?d)"
    using snoc store_step_inv [of ?d op] by (auto simp: store_do_def split: option.split)
  have step: "dangling (store_do op ?d) \<subseteq> dangling ?d \<union> (case op of Bind a i \<Rightarrow> if i \<in> set (tids ?d) then {} else {(a, i)} | _ \<Rightarrow> {})"
    using dangling_step [of op ?d] by (auto simp: store_do_def split: option.split)
  have "(a, i) \<in> dangling d \<or>
      (\<exists>k < length (ops @ [op]). (ops @ [op]) ! k = Bind a i \<and> i \<notin> set (tids (store_run (take k (ops @ [op])) d)))"
    if "(a, i) \<in> dangling (store_do op ?d)" for a i
  proof -
    from step that consider "(a, i) \<in> dangling ?d" | "op = Bind a i" "i \<notin> set (tids ?d)"
      by (cases op) (auto split: if_splits)
    then show ?thesis
    proof cases
      case 1
      with snoc consider "(a, i) \<in> dangling d"
        | k where "k < length ops" "ops ! k = Bind a i" "i \<notin> set (tids (store_run (take k ops) d))" by blast
      then show ?thesis
      proof cases
        case 2
        then show ?thesis by (intro disjI2 exI [of _ k]) (simp add: nth_append)
      qed simp
    next
      case 2
      then show ?thesis by (intro disjI2 exI [of _ "length ops"]) simp
    qed
  qed
  with inv show ?case unfolding run by blast
qed

section \<open>The settings page\<close>

lemma map_of_pick: "map_of (pick_keys ks data) k = (if k \<in> ks then map_of data k else None)"
  unfolding pick_keys_def by (induction data) auto

lemma map_of_retouched:
  "map_of (map (\<lambda>(k, v). (k, if k = key then f v else v)) kvs) k = (if k = key then map_option f (map_of kvs k) else map_of kvs k)"
  by (induction kvs) auto

lemma checked_strategy_values:
  assumes "checked_strategy data = Accepted strategy"
  shows "map_of strategy k = (if k \<in> template_keys then
    (if k = ''size_tiers'' then map_option (\<lambda>raw. case validate_size_tiers raw of Accepted ts \<Rightarrow> J_list ts | _ \<Rightarrow> raw) (map_of data k)
     else map_of data k) else None)"
proof (cases "map_of (pick_keys template_keys data) ''size_tiers''")
  case None
  with assms show ?thesis
    by (auto simp: checked_strategy_def Let_def map_of_pick split: if_splits)
next
  case (Some raw)
  with assms obtain ts where ts: "validate_size_tiers raw = Accepted ts"
    and st: "strategy = map (\<lambda>(k, v). (k, if k = ''size_tiers'' then J_list ts else v)) (pick_keys template_keys data)"
    by (auto simp: checked_strategy_def Let_def split: outcome.splits)
  have "map_of strategy k = (if k = ''size_tiers'' then map_option (\<lambda>v. J_list ts) (map_of (pick_keys template_keys data) k)
      else map_of (pick_keys template_keys data) k)"
    unfolding st by (rule map_of_retouched)
  with Some ts show ?thesis by (auto simp: map_of_pick split: if_splits)
qed

lemma find_snoc: "find P (xs @ [x]) = (case find P xs of None \<Rightarrow> if P x then Some x else None | r \<Rightarrow> r)"
  by (induction xs) auto

lemma default_id_stable: "get_default_template_id d = (i, d') \<Longrightarrow> get_default_template_id d' = (i, d')"
  by (auto simp: get_default_template_id_def create_template_def template_id_of_def find_snoc split: option.splits if_splits)

lemma default_id_frame:
  assumes "get_default_template_id d = (i, d')"
  shows "db_settings d' = db_settings d" and "db_values d' = db_values d" and "db_wallets d' = db_wallets d"
  using assms by (auto simp: get_default_template_id_def create_template_def template_id_of_def split: option.splits if_splits)

lemma default_id_save_settings:
  "get_default_template_id (save_settings kvs d) = (let (i, d') = get_default_template_id d in (i, save_settings kvs d'))"
  by (auto simp: get_default_template_id_def create_template_def template_id_of_def save_settings_def split: option.split)

lemma default_id_save_template:
  "get_default_template_id (save_template j kvs d) = (let (i, d') = get_default_template_id d in (i, save_template j kvs d'))"
  by (auto simp: get_default_template_id_def create_template_def template_id_of_def save_template_def split: option.split)

text \<open>What a save leaves: the accepted strategy in the default template, the engine settings in the settings.\<close>

lemma settings_saved:
  assumes "api_save_settings data d = Accepted d'"
  obtains strategy i e where "checked_strategy data = Accepted strategy" and "get_default_template_id d = (i, e)"
    and "get_default_template_id d' = (i, save_template i strategy (save_settings (pick_keys engine_keys data) e))"
proof -
  obtain strategy where st: "checked_strategy data = Accepted strategy"
    using assms by (auto simp: api_save_settings_def split: outcome.splits)
  define engine where "engine = pick_keys engine_keys data"
  obtain i e where e: "get_default_template_id d = (i, e)" by fastforce
  define f where "f = save_template i strategy (save_settings engine e)"
  have unchanged: "save_settings [] x = x" "save_template i [] x = x" for x
    by (simp_all add: save_settings_def save_template_def)
  have d1: "get_default_template_id (save_settings engine d) = (i, save_settings engine e)"
    by (simp add: default_id_save_settings e)
  have d': "d' = (if strategy = [] then save_settings engine d else f)"
    using assms st e d1 by (cases "engine = []"; cases "strategy = []")
      (simp_all add: api_save_settings_def engine_def [symmetric] Let_def f_def unchanged)
  have "get_default_template_id d' = (i, f)"
  proof (cases "strategy = []")
    case True
    with d1 show ?thesis by (simp add: d' f_def unchanged)
  next
    case False
    have "get_default_template_id (save_settings engine e) = (i, save_settings engine e)"
      using default_id_stable [OF d1] .
    with False show ?thesis by (simp add: d' f_def default_id_save_template)
  qed
  with st e show ?thesis
    unfolding f_def engine_def by (rule that)
qed

text \<open>C30: The settings page shows what was saved on it. After an accepted save every known parameter that was
  sent reads back with the value sent (the size modules in their validated form), every other parameter
  reads as before, and an unknown key is never stored. (The page reads an engine value from the
  settings only while the default template does not hold the same key.)\<close>

theorem settings_page_roundtrip:
  assumes "api_save_settings data d = Accepted d'" and "k \<in> engine_keys \<Longrightarrow> db_values d (fst (get_default_template_id d)) k = None"
  shows "fst (api_get_settings d') k =
    (case map_of data k of
       None \<Rightarrow> fst (api_get_settings d) k
     | Some v \<Rightarrow>
         if k = ''size_tiers'' then (case validate_size_tiers v of Accepted ts \<Rightarrow> Some (J_list ts) | _ \<Rightarrow> fst (api_get_settings d) k)
         else if k \<in> engine_keys \<union> template_keys then Some v else fst (api_get_settings d) k)"
proof -
  obtain strategy i e where st: "checked_strategy data = Accepted strategy" and e: "get_default_template_id d = (i, e)"
    and saved: "get_default_template_id d' = (i, save_template i strategy (save_settings (pick_keys engine_keys data) e))"
    by (rule settings_saved [OF assms(1)])
  define engine where "engine = pick_keys engine_keys data"
  define f where "f = save_template i strategy (save_settings engine e)"
  from saved have "get_default_template_id d' = (i, f)"
    by (simp add: f_def engine_def)
  then have new: "fst (api_get_settings d') = get_settings f ++ get_template i f"
    using default_id_frame(1) [of d' i f] by (simp add: api_get_settings_def get_settings_def)
  have old: "fst (api_get_settings d) = get_settings e ++ get_template i e"
    using default_id_frame(1) [OF e] by (simp add: api_get_settings_def get_settings_def e)
  have vals: "db_settings f = db_settings e ++ map_of engine" "db_values f i = db_values e i ++ map_of strategy"
    by (simp_all add: f_def save_settings_def save_template_def)
  have size_key: "''size_tiers'' \<in> template_keys"
    unfolding template_keys_def by code_simp
  have accepted: "\<exists>ts. validate_size_tiers v = Accepted ts" if "map_of data ''size_tiers'' = Some v" for v
    using st that size_key by (auto simp: checked_strategy_def map_of_pick Let_def split: outcome.splits)
  have sent: "map_of engine k = (if k \<in> engine_keys then map_of data k else None)"
    by (simp add: engine_def map_of_pick)
  note strategy = checked_strategy_values [OF st, of k]
  consider (engine) "k \<in> engine_keys" "k \<notin> template_keys" | (size) "k = ''size_tiers''" "k \<in> template_keys" "k \<notin> engine_keys"
    | (template) "k \<in> template_keys" "k \<notin> engine_keys" "k \<noteq> ''size_tiers''" | (other) "k \<notin> engine_keys" "k \<notin> template_keys"
    using key_sets_disjoint(1) size_key by blast
  then show ?thesis
  proof cases
    case engine
    then have "db_values e i k = None" and "map_of template_defaults k = None"
      using assms(2) default_id_frame(2) [OF e] e by (simp_all add: template_default_None)
    with engine show ?thesis
      unfolding new old map_add_def get_template_simp get_settings_simp vals using size_key sent strategy
      by (auto simp: map_add_def split: option.split)
  next
    case size
    then show ?thesis
      unfolding new old map_add_def get_template_simp get_settings_simp vals using sent strategy accepted
      by (cases "map_of data k") (auto simp: map_add_def split: option.split)
  next
    case template
    then show ?thesis
      unfolding new old map_add_def get_template_simp get_settings_simp vals using sent strategy
      by (cases "map_of data k") (auto simp: map_add_def split: option.split)
  next
    case other
    then show ?thesis
      unfolding new old map_add_def get_template_simp get_settings_simp vals using size_key sent strategy
      by (cases "map_of data k") (auto simp: map_add_def split: option.split)
  qed
qed

section \<open>Renaming the default template\<close>

text \<open>The default template is found by its name, and its values can be lost by renaming it. The page refuses
  to delete it, but it accepts a new name; from then on a wallet without a binding reads a newly
  created template, that is the built-in defaults, whatever the old default template holds and
  although that template is still there.\<close>

theorem renamed_default_is_lost:
  assumes "store_inv d" and "template_id_of default_name d = Some i" and "db_values d (db_next_template d) = Map.empty"
    and "api_rename_template i name d = Some d'" and "strip name \<noteq> default_name"
    and "find_wallet a d = Some w" and "wa_template w = None"
  shows "fst (get_template_for a d) = get_template i d \<and> api_save_template i [] d' = Accepted d' \<and>
    delete_template i d = None \<and> fst (get_template_for a d') = map_of template_defaults \<and> get_template i d' = get_template i d"
proof -
  have ren: "rename_template i (strip name) d = Some d'"
    using assms(4) by (auto simp: api_rename_template_def split: if_splits)
  have d': "d' = d\<lparr>db_templates := map (\<lambda>(j, n). (j, if j = i then strip name else n)) (db_templates d)\<rparr>"
    using ren by (auto simp: rename_template_def split: if_splits)
  obtain k where k: "k < length (db_templates d)" "db_templates d ! k = (i, default_name)"
    using assms(2) by (auto simp: template_id_of_def find_Some_iff)
  have only: "n \<noteq> default_name" if "(j, n) \<in> set (db_templates d)" "j \<noteq> i" for j n
  proof
    assume "n = default_name"
    with that k assms(1) show False
      by (auto simp: store_inv_def tnames_def distinct_conv_nth in_set_conv_nth) (metis snd_conv fst_conv)
  qed
  have gone: "template_id_of default_name d' = None"
    unfolding template_id_of_iff tnames_def d' using assms(5) by (auto split: if_splits dest: only)
  have now: "get_default_template_id d' = (db_next_template d, d'\<lparr>db_templates := db_templates d' @ [(db_next_template d, default_name)],
      db_next_template := db_next_template d + 1\<rparr>)"
    using gone by (simp add: get_default_template_id_def create_template_def) (simp add: d')
  have "find_wallet a d' = Some w"
    using assms(6) by (simp add: find_wallet_def d')
  with now assms(3,7) have "fst (get_template_for a d') = map_of template_defaults"
    by (simp add: get_template_for_def template_of_wallet_def get_template_def d')
  moreover have "fst (get_template_for a d) = get_template i d"
    using assms(2,6,7) by (simp add: get_template_for_def template_of_wallet_def get_default_template_id_def)
  moreover have "delete_template i d = None"
    using assms(2) by (simp add: delete_template_def get_default_template_id_def)
  ultimately show ?thesis
    by (simp add: get_template_def d' api_save_template_def checked_strategy_def pick_keys_def save_template_def)
qed

section \<open>Witnesses\<close>

definition old_db :: db where
  "old_db = \<lparr>db_settings = [''min_reward_usd'' \<mapsto> J_int 7], db_templates = [], db_next_template = 1, db_values = (\<lambda>i. Map.empty), db_wallets = []\<rparr>"

lemma migrate_witness:
  "db_templates old_db = [] \<and> fst (get_default_template_id (migrate old_db)) = 1 \<and> migrate (migrate old_db) = migrate old_db"
  using migrate_keeps_values [of old_db] by (simp add: old_db_def)

definition one_wallet :: wallet_row where
  "one_wallet = \<lparr>wa_address = ''a'', wa_key = [], wa_funder = [], wa_sig = 2, wa_proxy = [], wa_remark = [], wa_enabled = True,
     wa_active = 0, wa_template = None\<rparr>"

definition new_db :: db where
  "new_db = \<lparr>db_settings = Map.empty, db_templates = [(1, default_name)], db_next_template = 2,
     db_values = (\<lambda>i. if i = 1 then [''max_exposure_usd'' \<mapsto> J_int 7] else Map.empty), db_wallets = [one_wallet]\<rparr>"

lemma new_db_inv: "store_inv new_db"
  by (simp add: store_inv_def view_defs new_db_def one_wallet_def)

text \<open>Bound to a template that is deleted: free again. Bound to a template that never was: it trades with the built-in values.\<close>

lemma well_formed_witness:
  "store_inv (store_run [Create ''x'', Bind ''a'' 2, Delete 2] new_db) \<and> dangling (store_run [Create ''x'', Bind ''a'' 2, Delete 2] new_db) = {}"
proof -
  let ?ops = "[Create ''x'', Bind ''a'' 2, Delete 2]"
  have none: "dangling new_db = {}" by (simp add: dangling_def new_db_def one_wallet_def)
  have "set (tids (store_run [Create ''x''] new_db)) = {1, 2}"
    by (auto simp: store_run_def store_do_def new_db_def create_template_def template_id_of_def default_name_def tids_def)
  then have "\<not> (k < length ?ops \<and> ?ops ! k = Bind a i \<and> i \<notin> set (tids (store_run (take k ?ops) new_db)))" for k a i
    by (cases "k = 0"; cases "k = 1"; cases "k = 2") auto
  then show ?thesis
    using store_stays_well_formed [OF new_db_inv, of ?ops] unfolding none by fast
qed

lemma unknown_binding_uses_defaults:
  "dangling (set_wallet_template ''a'' 9 new_db) = {(''a'', 9)} \<and>
   fst (get_template_for ''a'' (set_wallet_template ''a'' 9 new_db)) = map_of template_defaults"
proof -
  let ?d = "set_wallet_template ''a'' 9 new_db"
  have d: "db_wallets ?d = [one_wallet\<lparr>wa_template := Some 9\<rparr>]" "tids ?d = [1]" "db_values ?d 9 = Map.empty"
    by (simp_all add: set_wallet_template_def update_wallet_def new_db_def one_wallet_def tids_def)
  have "template_of_wallet ''a'' ?d = (9, ?d)"
    by (simp add: template_of_wallet_def find_wallet_def d one_wallet_def)
  then have "fst (get_template_for ''a'' ?d) = map_of template_defaults"
    by (simp add: get_template_for_def get_template_def d(3))
  moreover have "dangling ?d = {(''a'', 9)}" by (auto simp: dangling_def d(1,2) one_wallet_def)
  ultimately show ?thesis by blast
qed

lemma settings_page_witness:
  "\<exists>d'. api_save_settings [(''max_exposure_usd'', J_int 9)] new_db = Accepted d' \<and> fst (api_get_settings d') ''max_exposure_usd'' = Some (J_int 9)"
proof -
  have key: "''max_exposure_usd'' \<in> template_keys"
    unfolding template_keys_def by code_simp
  obtain d' where run: "api_save_settings [(''max_exposure_usd'', J_int 9)] new_db = Accepted d'"
    using key by (simp add: api_save_settings_def checked_strategy_def pick_keys_def Let_def)
  have "''max_exposure_usd'' \<notin> engine_keys"
    using key key_sets_disjoint(1) by blast
  with settings_page_roundtrip [OF run, of "''max_exposure_usd''"] run key show ?thesis by simp
qed

lemma renamed_default_witness:
  "\<exists>d'. api_rename_template 1 ''old'' new_db = Some d' \<and> fst (get_template_for ''a'' d') = map_of template_defaults"
proof -
  obtain d' where ren: "api_rename_template 1 ''old'' new_db = Some d'"
    by (simp add: api_rename_template_def rename_template_def new_db_def strip_def is_space_def)
  from renamed_default_is_lost [OF new_db_inv _ _ ren, of "''a''" one_wallet] ren show ?thesis
    by (simp add: template_id_of_def new_db_def find_wallet_def one_wallet_def strip_def is_space_def default_name_def)
qed

end
