(* ===== verification/Proxy.thy ===== *)
theory Proxy
  imports Json
begin

text \<open>
  The proxy of a wallet (\<open>api/proxy.py\<close>): reading the string the user typed, probing which
  protocol the proxy speaks, the retry of calls that could not connect, and the choice of the
  way out of the machine by the "current proxy" of the calling context. A string is the list
  of its bytes; lower-casing and stripping know ASCII only. What the network answers is a
  parameter.
\<close>

section \<open>Text helpers\<close>

text \<open>\<open>s.split(c, n)\<close> and the text after the first occurrence of \<open>p\<close>.\<close>

fun split_max :: "nat \<Rightarrow> char \<Rightarrow> string \<Rightarrow> string list" where
  "split_max 0 c s = [s]"
| "split_max (Suc n) c s = (case cut (\<lambda>x. x = c) s of (a, None) \<Rightarrow> [a] | (a, Some b) \<Rightarrow> a # split_max n c b)"

fun after_first :: "string \<Rightarrow> string \<Rightarrow> string option" where
  "after_first p [] = (if p = [] then Some [] else None)"
| "after_first p (c # s) = (if starts_with p (c # s) then Some (drop (length p) (c # s)) else after_first p s)"

text \<open>\<open>urllib.parse.quote(s, safe="")\<close>.\<close>

definition unreserved :: "char \<Rightarrow> bool" where
  "unreserved c = (let n = of_char c :: nat in
     (48 \<le> n \<and> n \<le> 57) \<or> (65 \<le> n \<and> n \<le> 90) \<or> (97 \<le> n \<and> n \<le> 122) \<or> c \<in> set ''_.-~'')"

definition upper_hex :: "nat \<Rightarrow> char" where
  "upper_hex n = ''0123456789ABCDEF'' ! n"

definition percent_code :: "char \<Rightarrow> string" where
  "percent_code c = (let n = of_char c :: nat in [CHR ''%'', upper_hex (n div 16), upper_hex (n mod 16)])"

definition url_quote :: "string \<Rightarrow> string" where
  "url_quote s = concat (map (\<lambda>c. if unreserved c then [c] else percent_code c) s)"

section \<open>Reading a proxy string\<close>

definition socks_prefix :: "string \<Rightarrow> string option" where
  "socks_prefix low = (if starts_with ''socks5h:'' low then Some ''socks5h:''
     else if starts_with ''socks5:'' low then Some ''socks5:'' else None)"

definition proxy_url :: "string \<Rightarrow> string \<Rightarrow> string option" where
  "proxy_url scheme s =
     (case split_max 3 (CHR '':'') s of
        host # port # more \<Rightarrow>
          if host = [] \<or> port = [] then None
          else Some (scheme @ ''://'' @
            (case more of
               [] \<Rightarrow> []
             | user # pws \<Rightarrow> url_quote user @ (if pws = [] \<or> hd pws = [] then [] else '':'' @ url_quote (hd pws)) @ ''@'') @
            host @ '':'' @ port)
      | _ \<Rightarrow> None)"

definition parse_proxy :: "string \<Rightarrow> string option" where
  "parse_proxy raw =
     (let s = strip raw; low = lower s in
      if s = [] then None
      else if starts_with ''http://'' low \<or> starts_with ''https://'' low then Some s
      else if starts_with ''socks5://'' low \<or> starts_with ''socks5h://'' low
        then map_option (\<lambda>r. ''socks5h://'' @ r) (after_first ''://'' s)
      else case socks_prefix low of
        Some p \<Rightarrow> proxy_url ''socks5h'' (drop (length p) s)
      | None \<Rightarrow> proxy_url ''http'' s)"

section \<open>Probing\<close>

datatype probe_error = Bad_format | Unreachable

fun probe_from :: "(string \<Rightarrow> bool) \<Rightarrow> (string \<Rightarrow> string option) \<Rightarrow> string list \<Rightarrow> probe_error + string \<times> string option" where
  "probe_from reach ip [] = Inl Unreachable"
| "probe_from reach ip (c # cs) =
     (case parse_proxy c of
        None \<Rightarrow> Inl Bad_format
      | Some u \<Rightarrow> if reach u then Inr (c, ip u) else probe_from reach ip cs)"

definition explicit_scheme :: "string \<Rightarrow> bool" where
  "explicit_scheme low = list_ex (\<lambda>p. starts_with p low) [''http://'', ''https://'', ''socks5://'', ''socks5h:'', ''socks5:'']"

definition probe_proxy :: "(string \<Rightarrow> bool) \<Rightarrow> (string \<Rightarrow> string option) \<Rightarrow> string \<Rightarrow> probe_error + string \<times> string option" where
  "probe_proxy reach ip raw =
     (let s = strip raw in
      if s = [] then Inr ([], None)
      else probe_from reach ip (if explicit_scheme (lower s) then [s] else [s, ''socks5:'' @ s]))"

text \<open>The protocol shown for a stored string (\<open>_proxy_protocol\<close> in \<open>web/routes.py\<close>).\<close>

definition proxy_protocol :: "string \<Rightarrow> string" where
  "proxy_protocol s =
     (if s = [] then []
      else if starts_with ''socks5:'' (lower s) \<or> starts_with ''socks5h:'' (lower s) then ''SOCKS5'' else ''HTTP'')"

section \<open>Retrying\<close>

text \<open>
  What one call does: it answers, raises one of the connection errors (\<open>_CONNECT_ERRORS\<close>), or
  fails otherwise.
  \<open>retry_connect fn n i\<close> makes up to \<open>n\<close> calls, numbered from \<open>i\<close>, and returns the last outcome,
  the number of calls made and the number of pauses between them.
\<close>

datatype 'a attempt = Reply 'a | No_connection | Failure

fun retry_connect :: "(nat \<Rightarrow> 'a attempt) \<Rightarrow> nat \<Rightarrow> nat \<Rightarrow> 'a attempt \<times> nat \<times> nat" where
  "retry_connect fn 0 i = (No_connection, 0, 0)"
| "retry_connect fn (Suc n) i =
     (case fn i of
        No_connection \<Rightarrow>
          (let (r, calls, pauses) = retry_connect fn n (i + 1) in (r, calls + 1, if n = 0 then 0 else pauses + 1))
      | r \<Rightarrow> (r, 1, 0))"

section \<open>The current proxy\<close>

text \<open>
  A network action, run with the current proxy of its context, yields a result and the requests
  it sent: the way out (None is a direct connection) and what was asked. \<open>answer via q i\<close> is what the
  \<open>i\<close>-th try of the request \<open>q\<close> does.
\<close>

type_synonym ('q, 'a) net = "string option \<Rightarrow> 'a \<times> (string option \<times> 'q) list"

definition ret :: "'a \<Rightarrow> ('q, 'a) net" where
  "ret x = (\<lambda>p. (x, []))"

definition chain :: "('q, 'a) net \<Rightarrow> ('a \<Rightarrow> ('q, 'b) net) \<Rightarrow> ('q, 'b) net" where
  "chain m f = (\<lambda>p. let (x, sent) = m p; (y, sent') = f x p in (y, sent @ sent'))"

definition use_proxy :: "string option \<Rightarrow> ('q, 'a) net \<Rightarrow> ('q, 'a) net" where
  "use_proxy url m = (\<lambda>p. m url)"

definition http_request :: "(string option \<Rightarrow> 'q \<Rightarrow> nat \<Rightarrow> 'a attempt) \<Rightarrow> 'q \<Rightarrow> ('q, 'a attempt) net" where
  "http_request answer target =
     (\<lambda>p. let (r, calls, pauses) = retry_connect (answer p target) 3 0 in (r, replicate calls (p, target)))"

text \<open>\<open>parallel_map\<close>: a worker thread starts without a proxy and sets the one of the caller.\<close>

definition parallel_map :: "('a \<Rightarrow> ('q, 'b) net) \<Rightarrow> 'a list \<Rightarrow> ('q, 'b list) net" where
  "parallel_map f items =
     (\<lambda>p. if items = [] then ([], [])
          else let rs = map (\<lambda>x. use_proxy p (f x) None) items in (map fst rs, concat (map snd rs)))"

text \<open>
  The dispatcher put in the place of the client of the exchange library: one client per proxy,
  made on first use.
\<close>

datatype client = Default_client | Client_for string

type_synonym clients = "string option \<Rightarrow> client option"

definition new_dispatcher :: clients where
  "new_dispatcher = [None \<mapsto> Default_client]"

definition client_for :: "string option \<Rightarrow> clients \<Rightarrow> client \<times> clients" where
  "client_for p cs =
     (case cs p of
        Some c \<Rightarrow> (c, cs)
      | None \<Rightarrow> (let c = (case p of None \<Rightarrow> Default_client | Some u \<Rightarrow> Client_for u) in (c, cs(p \<mapsto> c))))"

fun client_way :: "client \<Rightarrow> string option" where
  "client_way Default_client = None"
| "client_way (Client_for u) = Some u"

text \<open>The ways out a sequence of requests takes, each made under its own current proxy.\<close>

fun dispatch :: "string option list \<Rightarrow> clients \<Rightarrow> string option list" where
  "dispatch [] cs = []"
| "dispatch (p # ps) cs = (let (c, cs') = client_for p cs in client_way c # dispatch ps cs')"


section \<open>Retries: only what never connected is repeated\<close>

text \<open>A call is repeated only while it could not connect. There are at most \<open>n\<close> calls; every call but
  the last failed with a connection error; what is returned is what the last call did; and the
  loop gives up with a failure to connect only after all \<open>n\<close> calls. A call that answered or failed in
  any other way is never made again.\<close>

theorem retry_connect_spec:
  "retry_connect fn n i = (r, calls, pauses) \<Longrightarrow> 0 < n \<Longrightarrow>
     0 < calls \<and> calls \<le> n \<and> pauses = calls - 1 \<and> r = fn (i + calls - 1) \<and>
     (\<forall>k < calls - 1. fn (i + k) = No_connection) \<and> (r = No_connection \<longrightarrow> calls = n)"
proof (induction n arbitrary: i r calls pauses)
  case (Suc n)
  show ?case
  proof (cases "fn i = No_connection \<and> 0 < n")
    case True
    obtain r' c' p' where rec: "retry_connect fn n (i + 1) = (r', c', p')"
      by (metis prod_cases3)
    have IH: "0 < c'" "c' \<le> n" "p' = c' - 1" "r' = fn (i + c')"
      "\<forall>k < c' - 1. fn (i + 1 + k) = No_connection" "r' = No_connection \<longrightarrow> c' = n"
      using Suc.IH [OF rec] True by simp_all
    have last: "r = r'" "calls = c' + 1" "pauses = p' + 1"
      using Suc.prems(1) rec True by simp_all
    have before: "fn (i + k) = No_connection" if "k < c'" for k
    proof (cases k)
      case (Suc j)
      then show ?thesis using that IH(5) by (simp add: less_diff_conv)
    qed (use True in simp)
    show ?thesis
    proof (intro conjI allI impI)
      show "0 < calls" "calls \<le> Suc n" "pauses = calls - 1" "r = fn (i + calls - 1)"
        using IH(1-4) last by simp_all
      show "fn (i + k) = No_connection" if "k < calls - 1" for k
        using before [of k] that last(2) by simp
      show "calls = Suc n" if "r = No_connection"
        using IH(6) last that by simp
    qed
  next
    case False
    with Suc.prems show ?thesis by (cases n) (auto split: attempt.splits)
  qed
qed simp

section \<open>Ways out\<close>

definition ambient :: "('q, 'a) net \<Rightarrow> bool" where
  "ambient m \<longleftrightarrow> (\<forall>p. \<forall>x\<in>set (snd (m p)). fst x = p)"

lemma ambientI [intro]: "(\<And>p x. x \<in> set (snd (m p)) \<Longrightarrow> fst x = p) \<Longrightarrow> ambient m"
  by (simp add: ambient_def)

lemma ambientD [dest]: "ambient m \<Longrightarrow> x \<in> set (snd (m p)) \<Longrightarrow> fst x = p"
  by (simp add: ambient_def)

lemma ambient_ret [simp, intro]: "ambient (ret x)"
  by (simp add: ambient_def ret_def)

lemma ambient_chain [intro]: "ambient m \<Longrightarrow> (\<And>x. ambient (f x)) \<Longrightarrow> ambient (chain m f)"
  by (fastforce simp: ambient_def chain_def split_beta)

lemma ambient_http_request [simp, intro]: "ambient (http_request answer target)"
  by (auto simp: ambient_def http_request_def split_beta split: if_splits)

lemma ambient_parallel_map [intro]: "(\<And>x. ambient (f x)) \<Longrightarrow> ambient (parallel_map f items)"
  by (fastforce simp: ambient_def parallel_map_def use_proxy_def)

lemma use_proxy_sends: "ambient m \<Longrightarrow> x \<in> set (snd (use_proxy q m p)) \<Longrightarrow> fst x = q"
  by (auto simp: use_proxy_def)

definition cache_ok :: "clients \<Rightarrow> bool" where
  "cache_ok cs \<longleftrightarrow> (\<forall>p c. cs p = Some c \<longrightarrow> client_way c = p)"

lemma client_for_ok:
  assumes "cache_ok cs"
  shows "client_way (fst (client_for p cs)) = p" and "cache_ok (snd (client_for p cs))"
  using assms by (auto simp: client_for_def cache_ok_def Let_def split: option.splits if_splits)

lemma dispatch_follows: "cache_ok cs \<Longrightarrow> dispatch ps cs = ps"
  by (induction ps arbitrary: cs) (simp_all add: split_beta client_for_ok)

lemma dispatcher_follows [simp]: "dispatch ps new_dispatcher = ps"
  by (rule dispatch_follows) (auto simp: cache_ok_def new_dispatcher_def split: if_splits)

section \<open>Reading a proxy URL back\<close>

text \<open>
  What a client reads from the URL (\<open>urllib.parse\<close>): the host part ends at the first of \<open>/?#\<close>, the
  user information is what stands before its last \<open>@\<close>, the password what stands there after the first
  \<open>:\<close>, both with the percent codes undone.
\<close>

definition hex_value :: "char \<Rightarrow> nat" where
  "hex_value c = (let n = of_char c :: nat in if n < 65 then n - 48 else n - 55)"

fun unquote :: "string \<Rightarrow> string" where
  "unquote (c # h # l # s) =
     (if c = CHR ''%'' then char_of (16 * hex_value h + hex_value l) # unquote s else c # unquote (h # l # s))"
| "unquote s = s"

fun cut_last :: "char \<Rightarrow> string \<Rightarrow> (string \<times> string) option" where
  "cut_last c s = (case cut (\<lambda>x. x = c) (rev s) of (a, None) \<Rightarrow> None | (a, Some b) \<Rightarrow> Some (rev b, rev a))"

definition url_authority :: "string \<Rightarrow> string" where
  "url_authority url = (case after_first ''://'' url of None \<Rightarrow> [] | Some r \<Rightarrow> takeWhile (\<lambda>c. c \<notin> set ''/?#'') r)"

definition url_login :: "string \<Rightarrow> (string \<times> string option) option" where
  "url_login url = (case cut_last (CHR ''@'') (url_authority url) of
     None \<Rightarrow> None
   | Some (info, h) \<Rightarrow> (let (u, p) = cut (\<lambda>x. x = CHR '':'') info in Some (unquote u, map_option unquote p)))"

definition url_host :: "string \<Rightarrow> string" where
  "url_host url = (case cut_last (CHR ''@'') (url_authority url) of None \<Rightarrow> url_authority url | Some (i, h) \<Rightarrow> h)"

lemma hex_value_digit: "n < 16 \<Longrightarrow> hex_value (upper_hex n) = n"
proof -
  have "list_all (\<lambda>n. hex_value (upper_hex n) = n) [0..<16]" by code_simp
  then show "n < 16 \<Longrightarrow> hex_value (upper_hex n) = n" by (simp add: list_all_iff)
qed

lemma unquote_percent: "unquote (percent_code c @ s) = c # unquote s"
proof -
  have "of_char c div 16 < (16::nat)"
    using nat_of_char_less_256 [of c] by linarith
  then show ?thesis
    by (simp add: percent_code_def Let_def hex_value_digit)
qed

lemma unquote_plain: "c \<noteq> CHR ''%'' \<Longrightarrow> unquote (c # s) = c # unquote s"
  by (cases s rule: unquote.cases) simp_all

lemma unquote_quote [simp]: "unquote (url_quote s) = s"
proof (induction s)
  case (Cons c s)
  have q: "url_quote (c # s) = (if unreserved c then [c] else percent_code c) @ url_quote s"
    by (simp add: url_quote_def)
  have "\<not> unreserved (CHR ''%'')" by (simp add: unreserved_def)
  then show ?case
    using Cons unfolding q by (cases "c = CHR ''%''") (auto simp: unquote_percent unquote_plain)
qed (simp add: url_quote_def)

lemma hex_digit_range: "n < 16 \<Longrightarrow> upper_hex n \<in> set ''0123456789ABCDEF''"
  unfolding upper_hex_def by (rule nth_mem) simp

lemma quote_chars: "set (url_quote s) \<subseteq> {c. unreserved c} \<union> {CHR ''%''}"
proof -
  have "unreserved d" if "d \<in> set ''0123456789ABCDEF''" for d
    using that by (auto simp: unreserved_def)
  then have "upper_hex n \<in> {c. unreserved c}" if "n < 16" for n
    using hex_digit_range [OF that] by blast
  moreover have "of_char c div 16 < (16::nat)" for c
    using nat_of_char_less_256 [of c] by linarith
  ultimately show ?thesis
    by (auto simp: url_quote_def percent_code_def Let_def)
qed

lemma quote_no_delimiters [simp]:
  "c \<in> set '':@/?#'' \<Longrightarrow> c \<notin> set (url_quote s)"
  using quote_chars [of s] by (auto simp: unreserved_def)

lemma cut_append [simp]:
  "c \<notin> set a \<Longrightarrow> cut (\<lambda>x. x = c) (a @ c # b) = (a, Some b)"
  "c \<notin> set a \<Longrightarrow> cut (\<lambda>x. x = c) a = (a, None)"
proof -
  assume c: "c \<notin> set a"
  then have "takeWhile (\<lambda>x. x \<noteq> c) (a @ c # b) = a"
    by (induction a) auto
  then show "cut (\<lambda>x. x = c) (a @ c # b) = (a, Some b)"
    by (simp add: cut_def Let_def)
  have "takeWhile (\<lambda>x. x \<noteq> c) a = a"
    using c by (induction a) auto
  then show "cut (\<lambda>x. x = c) a = (a, None)"
    unfolding cut_def Let_def by (simp only: drop_all order.refl list.case)
qed

lemma cut_last_append [simp]: "c \<notin> set b \<Longrightarrow> cut_last c (a @ c # b) = Some (a, b)"
  using cut_append(1) [of c "rev b" "rev a"] by simp

lemma after_first_scheme:
  "scheme \<in> {''http'', ''socks5h''} \<Longrightarrow> after_first ''://'' (scheme @ ''://'' @ s) = Some s"
  by (auto simp: starts_with_def)

definition plain_part :: "string \<Rightarrow> bool" where
  "plain_part s \<longleftrightarrow> s \<noteq> [] \<and> (\<forall>c\<in>set s. c \<notin> set '':@/?#'' \<and> \<not> is_space c)"

lemma authority_login:
  assumes "scheme \<in> {''http'', ''socks5h''}" and "plain_part host" and "plain_part port"
    and "url = scheme @ ''://'' @ url_quote user @ (if pw = [] then [] else '':'' @ url_quote pw) @ ''@'' @ host @ '':'' @ port"
  shows "url_login url = Some (user, if pw = [] then None else Some pw)" and "url_host url = host @ '':'' @ port"
proof -
  let ?info = "url_quote user @ (if pw = [] then [] else '':'' @ url_quote pw)"
  let ?auth = "?info @ ''@'' @ host @ '':'' @ port"
  have no: "c \<notin> set host" "c \<notin> set port" if "c \<in> set '':@/?#''" for c
    using assms(2,3) that unfolding plain_part_def by blast+
  have no_end: "d \<notin> set ?auth" if "d \<in> set ''/?#''" for d
  proof -
    have "d \<in> set '':@/?#''" and "d \<noteq> CHR '':''" and "d \<noteq> CHR ''@''"
      using that by auto
    with no [of d] quote_no_delimiters [of d] show ?thesis
      by simp
  qed
  then have "takeWhile (\<lambda>c. c \<notin> set ''/?#'') ?auth = ?auth"
    unfolding takeWhile_eq_all_conv by blast
  then have auth: "url_authority url = ?auth"
    using after_first_scheme [OF assms(1), of ?auth] by (simp only: url_authority_def assms(4) append_assoc option.case)
  have last: "cut_last (CHR ''@'') ?auth = Some (?info, host @ '':'' @ port)"
    using cut_last_append [of "CHR ''@''" "host @ '':'' @ port" ?info] no by simp
  show "url_host url = host @ '':'' @ port"
    unfolding url_host_def auth last by simp
  show "url_login url = Some (user, if pw = [] then None else Some pw)"
    unfolding url_login_def auth last
    using cut_append(1) [of "CHR '':''" "url_quote user" "url_quote pw"] cut_append(2) [of "CHR '':''" "url_quote user"] by simp
qed

section \<open>What the user typed is what the proxy is told\<close>

lemma strip_id: "\<not> is_space (hd s) \<Longrightarrow> \<not> is_space (last s) \<Longrightarrow> s \<noteq> [] \<Longrightarrow> strip s = s"
  by (simp add: strip_def dropWhile_eq_self_iff [THEN iffD2] hd_rev)

lemma lower_char_delimiter: "lower_char c = d \<Longrightarrow> d = CHR '':'' \<or> d = CHR ''/'' \<Longrightarrow> c = d"
proof -
  assume a: "lower_char c = d" "d = CHR '':'' \<or> d = CHR ''/''"
  have "(of_char (lower_char c) :: nat) = (let n = of_char c in if 65 \<le> n \<and> n \<le> 90 then n + 32 else n)"
    by (simp add: lower_char_def Let_def)
  with a have "\<not> (65 \<le> (of_char c :: nat) \<and> (of_char c :: nat) \<le> 90)"
    by (auto simp: Let_def split: if_splits)
  with a show ?thesis
    by (auto simp: lower_char_def Let_def)
qed

lemma lower_append [simp]: "lower (s @ t) = lower s @ lower t" "lower (c # s) = lower_char c # lower s" "lower [] = []"
  by (simp_all add: lower_def)

lemma colon_not_in_lower [simp]: "CHR '':'' \<notin> set s \<Longrightarrow> CHR '':'' \<notin> set (lower s)"
  unfolding lower_def using lower_char_delimiter by fastforce

lemma starts_with_append: "starts_with p s \<longleftrightarrow> (\<exists>t. s = p @ t)"
  unfolding starts_with_def by (metis append_eq_conv_conj append_take_drop_id)

lemma starts_with_field:
  assumes "CHR '':'' \<notin> set w" and "CHR '':'' \<notin> set h"
  shows "starts_with (w @ CHR '':'' # v) (h @ CHR '':'' # r) \<longleftrightarrow> w = h \<and> starts_with v r"
proof -
  have "h @ CHR '':'' # r = w @ CHR '':'' # v @ t \<longleftrightarrow> w = h \<and> r = v @ t" for t
    using cut_append(1) [OF assms(1), of "v @ t"] cut_append(1) [OF assms(2), of r] by auto
  then show ?thesis
    by (auto simp: starts_with_append)
qed

lemma no_slashes: "h \<noteq> [] \<Longrightarrow> CHR ''/'' \<notin> set h \<Longrightarrow> \<not> starts_with ''//'' (lower h @ r)"
  using lower_char_delimiter [of _ "CHR ''/''"] by (cases h) (auto simp: starts_with_def)

definition known_prefixes :: "(string \<times> string) list" where
  "known_prefixes = [([], ''http''), (''socks5:'', ''socks5h''), (''socks5h:'', ''socks5h'')]"

lemma parse_fields:
  assumes "(pre, scheme) \<in> set known_prefixes" and "plain_part host" and "plain_part port"
    and "lower host \<notin> {''socks5'', ''socks5h''}" and "rest \<noteq> [] \<Longrightarrow> \<not> is_space (last rest)"
  shows "parse_proxy (pre @ host @ '':'' @ port @ rest) = proxy_url scheme (host @ '':'' @ port @ rest)"
proof -
  let ?s = "pre @ host @ '':'' @ port @ rest"
  have h: "host \<noteq> []" "port \<noteq> []" "CHR '':'' \<notin> set host" "CHR ''/'' \<notin> set host" "CHR ''/'' \<notin> set port"
    using assms(2,3) by (auto simp: plain_part_def)
  have "\<not> is_space (hd ?s)"
  proof (cases "pre = []")
    case True
    with h(1) assms(2) show ?thesis by (cases host) (auto simp: plain_part_def)
  next
    case False
    with assms(1) show ?thesis by (auto simp: known_prefixes_def is_space_def)
  qed
  moreover have "\<not> is_space (last ?s)"
    using assms(3,5) h(2) by (cases port rule: rev_cases) (auto simp: plain_part_def)
  ultimately have s: "strip ?s = ?s"
    using h(1) by (intro strip_id) auto
  define tail where "tail = lower port @ lower rest"
  have low: "lower ?s = lower pre @ lower host @ CHR '':'' # tail"
    by (simp add: tail_def lower_char_def)
  have field: "starts_with (w @ CHR '':'' # v) (lower host @ CHR '':'' # tail) \<longleftrightarrow> w = lower host \<and> starts_with v tail"
    if "CHR '':'' \<notin> set w" for w v
    using that h(3) by (intro starts_with_field) simp_all
  have slashes: "\<not> starts_with ''//'' tail" "\<not> starts_with ''//'' (lower host @ CHR '':'' # tail)"
    unfolding tail_def using h by (simp_all add: no_slashes)
  consider "pre = []" "scheme = ''http''" | "pre = ''socks5:''" "scheme = ''socks5h''" | "pre = ''socks5h:''" "scheme = ''socks5h''"
    using assms(1) by (auto simp: known_prefixes_def)
  then show ?thesis
  proof cases
    case 1
    have "\<not> starts_with ''http://'' (lower ?s)" "\<not> starts_with ''https://'' (lower ?s)" "\<not> starts_with ''socks5://'' (lower ?s)"
      "\<not> starts_with ''socks5h://'' (lower ?s)" "\<not> starts_with ''socks5:'' (lower ?s)" "\<not> starts_with ''socks5h:'' (lower ?s)"
      using field [of "''http''" "''//''"] field [of "''https''" "''//''"] field [of "''socks5''" "''//''"]
        field [of "''socks5h''" "''//''"] field [of "''socks5''" "[]"] field [of "''socks5h''" "[]"] slashes assms(4) 1
      unfolding low by auto
    with 1 s h(1) show ?thesis
      by (simp add: parse_proxy_def Let_def socks_prefix_def)
  next
    case 2
    have low2: "lower ?s = ''socks5'' @ CHR '':'' # lower host @ CHR '':'' # tail"
      unfolding 2 by (simp add: lower_char_def tail_def)
    have "\<not> starts_with ''http://'' (lower ?s)" "\<not> starts_with ''https://'' (lower ?s)" "\<not> starts_with ''socks5://'' (lower ?s)"
      "\<not> starts_with ''socks5h://'' (lower ?s)" "starts_with ''socks5:'' (lower ?s)" "\<not> starts_with ''socks5h:'' (lower ?s)"
      using slashes(2) unfolding low2 by (auto simp: starts_with_def)
    with 2 s show ?thesis
      by (simp add: parse_proxy_def Let_def socks_prefix_def)
  next
    case 3
    have low3: "lower ?s = ''socks5h'' @ CHR '':'' # lower host @ CHR '':'' # tail"
      unfolding 3 by (simp add: lower_char_def tail_def)
    have "\<not> starts_with ''http://'' (lower ?s)" "\<not> starts_with ''https://'' (lower ?s)" "\<not> starts_with ''socks5://'' (lower ?s)"
      "\<not> starts_with ''socks5h://'' (lower ?s)" "starts_with ''socks5h:'' (lower ?s)"
      using slashes(2) unfolding low3 by (auto simp: starts_with_def)
    with 3 s show ?thesis
      by (simp add: parse_proxy_def Let_def socks_prefix_def)
  qed
qed

lemma fields_to_url:
  assumes "plain_part host" and "plain_part port" and "CHR '':'' \<notin> set user"
  shows "proxy_url scheme (host @ '':'' @ port @ '':'' @ user @ '':'' @ pw) =
    Some (scheme @ ''://'' @ url_quote user @ (if pw = [] then [] else '':'' @ url_quote pw) @ ''@'' @ host @ '':'' @ port)"
proof -
  have "CHR '':'' \<notin> set host" "CHR '':'' \<notin> set port" "host \<noteq> []" "port \<noteq> []"
    using assms(1,2) by (auto simp: plain_part_def)
  with assms(3) show ?thesis
    by (simp add: proxy_url_def eval_nat_numeral)
qed

text \<open>What the user typed is what the proxy is told. For \<open>host:port:user:password\<close>, with or without the
  prefix \<open>socks5:\<close>, whatever bytes the password is made of (colons, at-signs, slashes), the URL
  built names the right scheme, and a client that reads it back gets exactly this host, port, user and
  password.\<close>

theorem parse_proxy_credentials:
  assumes "(pre, scheme) \<in> set known_prefixes" and "plain_part host" and "plain_part port"
    and "lower host \<notin> {''socks5'', ''socks5h''}" and "CHR '':'' \<notin> set user" and "pw \<noteq> []" and "\<not> is_space (last pw)"
  shows "\<exists>url. parse_proxy (pre @ host @ '':'' @ port @ '':'' @ user @ '':'' @ pw) = Some url \<and>
    starts_with (scheme @ ''://'') url \<and> url_login url = Some (user, Some pw) \<and> url_host url = host @ '':'' @ port"
proof -
  let ?url = "scheme @ ''://'' @ url_quote user @ (if pw = [] then [] else '':'' @ url_quote pw) @ ''@'' @ host @ '':'' @ port"
  have "scheme \<in> {''http'', ''socks5h''}"
    using assms(1) by (auto simp: known_prefixes_def)
  note read = authority_login [OF this assms(2,3) refl, of user pw]
  have "parse_proxy (pre @ host @ '':'' @ port @ '':'' @ user @ '':'' @ pw) = Some ?url"
    using parse_fields [OF assms(1-4), of "'':'' @ user @ '':'' @ pw"] fields_to_url [OF assms(2,3,5), of scheme pw] assms(6,7)
    by simp
  moreover have "starts_with (scheme @ ''://'') ?url"
    by (simp add: starts_with_append)
  ultimately show ?thesis
    using read assms(6) by auto
qed

section \<open>Probed strings\<close>

lemma strip_strip [simp]: "strip (strip s) = strip s"
proof (cases "strip s = []")
  case False
  let ?u = "dropWhile is_space s"
  have "?u \<noteq> []"
    using False unfolding strip_def by (rule contrapos_nn) (simp only: rev.simps dropWhile.simps)
  then have u: "?u \<noteq> []" "\<not> is_space (hd ?u)"
    using hd_dropWhile by blast+
  let ?v = "dropWhile is_space (rev ?u)"
  have "?v \<noteq> []"
    using False unfolding strip_def by (rule contrapos_nn) (simp only: rev.simps)
  then have v: "?v \<noteq> []" "\<not> is_space (hd ?v)"
    using hd_dropWhile by blast+
  have "\<exists>w. rev ?u = w @ ?v"
    by (metis takeWhile_dropWhile_id)
  then obtain w where "?u = rev ?v @ rev w"
    by (metis rev_append rev_rev_ident)
  then have "hd (rev ?v) = hd ?u"
    using v(1) by (metis hd_append2 rev_is_Nil_conv)
  with u v have "\<not> is_space (hd (strip s))" "\<not> is_space (last (strip s))"
    by (simp_all add: strip_def last_rev)
  with False show ?thesis by (intro strip_id)
qed (simp only: strip_def dropWhile.simps rev.simps)

lemma probe_from_sound:
  "probe_from reach ip cs = Inr (c, x) \<Longrightarrow> c \<in> set cs \<and> (\<exists>u. parse_proxy c = Some u \<and> reach u \<and> x = ip u)"
  by (induction cs) (auto split: option.splits if_splits)

lemma scheme_url_starts: "proxy_url scheme s = Some u \<Longrightarrow> starts_with (scheme @ ''://'') u"
  by (auto simp: proxy_url_def starts_with_append split: list.splits if_splits)

lemma lower_literals [simp]:
  "lower ''http://'' = ''http://''" "lower ''socks5h://'' = ''socks5h://''"
  by (simp_all add: lower_char_def)

lemma lower_url: "starts_with ''socks5h://'' u \<Longrightarrow> starts_with ''socks5h://'' (lower u)"
  "starts_with ''http://'' u \<Longrightarrow> \<not> starts_with ''socks5h://'' (lower u)"
  by (auto simp: starts_with_append lower_char_def)

lemma not_socks:
  "starts_with ''http://'' low \<or> starts_with ''https://'' low \<Longrightarrow>
     \<not> starts_with ''socks5:'' low \<and> \<not> starts_with ''socks5h:'' low \<and> \<not> starts_with ''socks5h://'' low"
  by (auto simp: starts_with_append)

lemma is_socks:
  "starts_with ''socks5://'' low \<Longrightarrow> starts_with ''socks5:'' low"
  "starts_with ''socks5h://'' low \<Longrightarrow> starts_with ''socks5h:'' low"
  by (auto simp: starts_with_append)

lemma parse_scheme:
  assumes "parse_proxy s = Some u" and "strip s = s"
  shows "proxy_protocol s = (if starts_with ''socks5h://'' (lower u) then ''SOCKS5'' else ''HTTP'')"
proof -
  let ?low = "lower s"
  have s: "s \<noteq> []" and parse: "parse_proxy s = Some u"
    using assms by (auto simp: parse_proxy_def)
  consider (http) "starts_with ''http://'' ?low \<or> starts_with ''https://'' ?low" "u = s"
    | (socks) "starts_with ''socks5:'' ?low \<or> starts_with ''socks5h:'' ?low" "starts_with ''socks5h://'' u"
    | (plain) "\<not> starts_with ''socks5:'' ?low" "\<not> starts_with ''socks5h:'' ?low" "starts_with ''http://'' u"
    using parse s is_socks [of ?low] scheme_url_starts [of "''socks5h''" _ u] scheme_url_starts [of "''http''" _ u]
    by (auto simp: parse_proxy_def Let_def assms(2) socks_prefix_def starts_with_append split: if_splits)
  then show ?thesis
    using s not_socks [of ?low] lower_url [of u] by cases (auto simp: proxy_protocol_def)
qed

lemma probed_string:
  assumes "probe_proxy reach ip raw = Inr (s, x)" and "s \<noteq> []"
  shows "strip s = s \<and> (\<exists>u. parse_proxy s = Some u \<and> reach u \<and> x = ip u)"
proof -
  let ?c = "strip raw"
  have c: "?c \<noteq> []" and "probe_from reach ip (if explicit_scheme (lower ?c) then [?c] else [?c, ''socks5:'' @ ?c]) = Inr (s, x)"
    using assms by (auto simp: probe_proxy_def Let_def split: if_splits)
  from probe_from_sound [OF this(2)] have "s = ?c \<or> s = ''socks5:'' @ ?c" and "\<exists>u. parse_proxy s = Some u \<and> reach u \<and> x = ip u"
    by (auto split: if_splits)
  moreover have "strip (''socks5:'' @ ?c) = ''socks5:'' @ ?c"
  proof -
    have "\<not> is_space (last ?c)"
      using c hd_dropWhile [of is_space "rev (dropWhile is_space raw)"] by (simp add: strip_def last_rev)
    with c show ?thesis by (intro strip_id) (auto simp: is_space_def)
  qed
  ultimately show ?thesis by auto
qed

lemma probed_nothing:
  assumes "probe_proxy reach ip raw = Inr ([], x)"
  shows "strip raw = [] \<and> x = None \<and> parse_proxy [] = None"
proof -
  have none: "parse_proxy [] = None" by (simp add: parse_proxy_def strip_def)
  then have never: "probe_from reach ip cs \<noteq> Inr ([], y)" for cs y
    using probe_from_sound by fastforce
  have "strip raw = []"
  proof (rule ccontr)
    assume "strip raw \<noteq> []"
    with assms never show False
      unfolding probe_proxy_def Let_def by (simp only: if_False)
  qed
  with assms none show ?thesis
    by (simp add: probe_proxy_def)
qed

text \<open>C25: A stored proxy is really used, and through it the exchange was reached. When probing accepts
  what the user typed, either nothing was typed, or the stored string parses to the URL that reached
  the exchange, so the wallet never goes out directly, and the protocol shown is the one of
  this URL.\<close>

theorem stored_proxy_is_used:
  assumes "probe_proxy reach ip raw = Inr (s, x)"
  shows "strip raw = [] \<and> s = [] \<and> parse_proxy s = None \<and> x = None \<or>
    (\<exists>u. parse_proxy s = Some u \<and> reach u \<and> x = ip u \<and>
      proxy_protocol s = (if starts_with ''socks5h://'' (lower u) then ''SOCKS5'' else ''HTTP''))"
proof (cases "s = []")
  case True
  with assms probed_nothing show ?thesis by fastforce
next
  case False
  with probed_string [OF assms] parse_scheme show ?thesis by blast
qed

section \<open>Witnesses\<close>

definition demo_fn :: "nat \<Rightarrow> nat attempt" where
  "demo_fn i = (if i < 1 then No_connection else Reply i)"

lemma retry_connect_witness: "retry_connect demo_fn 3 0 = (Reply 1, 2, 1) \<and> demo_fn 0 = No_connection"
proof -
  have run: "retry_connect demo_fn 3 0 = (Reply 1, 2, 1)"
    by (simp add: demo_fn_def eval_nat_numeral)
  with retry_connect_spec [OF run] show ?thesis
    by simp
qed

lemma parse_proxy_witness:
  "\<exists>url. parse_proxy ''socks5:h:1:u:p@:/ x'' = Some url \<and> url_login url = Some (''u'', Some ''p@:/ x'')"
  using parse_proxy_credentials [of "''socks5:''" "''socks5h''" "''h''" "''1''" "''u''" "''p@:/ x''"]
  by (auto simp: known_prefixes_def plain_part_def is_space_def lower_char_def)

lemma stored_proxy_witness:
  "probe_proxy (\<lambda>u. starts_with ''socks5h'' u) (\<lambda>u. None) '' h:1 '' = Inr (''socks5:h:1'', None) \<and> parse_proxy ''socks5:h:1'' = Some ''socks5h://h:1''"
proof -
  have p: "probe_proxy (\<lambda>u. starts_with ''socks5h'' u) (\<lambda>u. None) '' h:1 '' = Inr (''socks5:h:1'', None)"
    by code_simp
  have "parse_proxy ''socks5:h:1'' = Some ''socks5h://h:1''"
    by code_simp
  with p stored_proxy_is_used [OF p] show ?thesis by simp
qed

end
