(* ===== verification/Fifo.thy ===== *)
theory Fifo
  imports Prelude
begin

text \<open>
  The first-in first-out inventory of the bot: replaying our own fills to rebuild the
  cost of a position (\<open>engine/take_profit.py\<close>, \<open>position_cost_with_lots\<close>), consuming
  lots for a confirmed merge (\<open>engine/merge_accounting.py\<close>) and realising the profit of
  sales (\<open>engine/pnl.py\<close>, \<open>realized_pnl_by_day\<close>). The three loops share one contract,
  the locale \<open>fifo_queue\<close>: read as a list of single share units, oldest first, taking
  \<open>q\<close> shares drops the first \<open>q\<close> units.
\<close>

section \<open>Lots and fills\<close>

text \<open>
  One bought lot: \<open>lot_qty\<close> is \<open>remaining\<close> while the fills are replayed and \<open>take\<close> in the
  returned lots.
\<close>

record lot =
  lot_price :: rat
  lot_qty :: rat
  lot_ts :: rat
  lot_tid :: string

text \<open>One of our own fills, as \<open>extract_fills\<close> returns it.\<close>

record fill =
  fill_side :: string
  fill_price :: rat
  fill_size :: rat
  fill_ts :: rat
  fill_tid :: string
  fill_fee_bps :: rat

definition lot_of_fill :: "fill \<Rightarrow> lot" where
  "lot_of_fill f = \<lparr>lot_price = fill_price f, lot_qty = fill_size f,
     lot_ts = fill_ts f, lot_tid = fill_tid f\<rparr>"

definition stock :: "lot list \<Rightarrow> rat" where
  "stock ls = sum_list (map lot_qty ls)"

definition stock_value :: "lot list \<Rightarrow> rat" where
  "stock_value ls = sum_list (map (\<lambda>l. lot_price l * lot_qty l) ls)"

section \<open>The consuming loops\<close>

text \<open>
  \<open>while qty > 1e-9 and lots\<close>: take from the oldest lot, pop it once it is used up. The
  loop ends because every round pops a lot or brings \<open>qty\<close> to zero.
\<close>

function drain :: "rat \<Rightarrow> lot list \<Rightarrow> lot list" where
  "drain qty [] = []"
| "drain qty (l # ls) =
     (if eps < qty then
        let take = min (lot_qty l) qty;
            l' = l\<lparr>lot_qty := lot_qty l - take\<rparr>;
            qty' = qty - take
        in if lot_qty l' \<le> eps then drain qty' ls else drain qty' (l' # ls)
      else l # ls)"
  by pat_completeness auto
termination
  by (relation "measure (\<lambda>(qty, ls). length ls + (if eps < qty then 1 else 0))")
    (auto simp: min_def)

text \<open>
  The same loop with the realised profit of a sale at \<open>price\<close> accumulated
  (\<open>realized_pnl_by_day\<close>): the second component is \<open>realized\<close>.
\<close>

function drain_pnl :: "rat \<Rightarrow> rat \<Rightarrow> lot list \<Rightarrow> rat \<Rightarrow> lot list \<times> rat" where
  "drain_pnl price qty [] r = ([], r)"
| "drain_pnl price qty (l # ls) r =
     (if eps < qty then
        let take = min (lot_qty l) qty;
            r' = r + (price - lot_price l) * take;
            l' = l\<lparr>lot_qty := lot_qty l - take\<rparr>;
            qty' = qty - take
        in if lot_qty l' \<le> eps then drain_pnl price qty' ls r'
           else drain_pnl price qty' (l' # ls) r'
      else (l # ls, r))"
  by pat_completeness auto
termination
  by (relation "measure (\<lambda>(price, qty, ls, r). length ls + (if eps < qty then 1 else 0))")
    (auto simp: min_def)

text \<open>
  The \<open>for lot in remaining\<close> loop of \<open>consume_fifo_cost\<close>: lots without quantity are
  passed over, the loop breaks once the need is met.
\<close>

fun consume_loop :: "rat \<Rightarrow> lot list \<Rightarrow> rat \<Rightarrow> lot list \<times> rat" where
  "consume_loop need [] cost = ([], cost)"
| "consume_loop need (l # ls) cost =
     (if lot_qty l \<le> 0 then
        (let (ls', c) = consume_loop need ls cost in (l # ls', c))
      else
        let used = min (lot_qty l) need;
            cost' = cost + lot_price l * used;
            l' = l\<lparr>lot_qty := lot_qty l - used\<rparr>;
            need' = need - used
        in if need' \<le> eps then (l' # ls, cost')
           else (let (ls', c) = consume_loop need' ls cost' in (l' # ls', c)))"

text \<open>
  \<open>consume_fifo_cost\<close>: the cost of the oldest \<open>qty\<close> shares and the lots that are left.
  A shortage is \<open>(None, lots)\<close>. (The Python mutates the dictionaries of the caller's list
  in place; the model returns them.)
\<close>

definition consume_fifo_cost :: "lot list \<Rightarrow> rat option \<Rightarrow> rat option \<times> lot list" where
  "consume_fifo_cost lots q =
     (let qty = or0 q in
      if qty \<le> 0 then (Some 0, lots)
      else if stock lots + eps < qty then (None, lots)
      else let (ls, cost) = consume_loop qty lots 0
           in (Some cost, filter (\<lambda>l. eps < lot_qty l) ls))"

section \<open>Rebuilding the cost of a position\<close>

definition replay_fill :: "lot list \<Rightarrow> fill \<Rightarrow> lot list" where
  "replay_fill lots f =
     (if fill_size f \<le> 0 then lots
      else if upper (fill_side f) = ''BUY'' then lots @ [lot_of_fill f]
      else if upper (fill_side f) = ''SELL'' then drain (fill_size f) lots
      else lots)"

text \<open>The merge events carry the \<open>amount\<close> of confirmed merges, oldest first.\<close>

definition replay_position :: "fill list \<Rightarrow> rat list \<Rightarrow> lot list" where
  "replay_position fills merges =
     foldl (\<lambda>ls q. drain q ls) (foldl replay_fill [] (sort_key fill_ts fills)) merges"

definition position_cost_with_lots ::
    "fill list \<Rightarrow> rat \<Rightarrow> rat list \<Rightarrow> rat option \<times> lot list" where
  "position_cost_with_lots fills sz merges =
     (if sz \<le> 0 \<or> fills = [] then (None, [])
      else let lots = replay_position fills merges; recon = stock lots in
        if recon \<le> 0 then (None, [])
        else if max 1 (sz / 100) < \<bar>recon - sz\<bar> then (None, [])
        else (Some (stock_value lots / recon), lots))"

section \<open>The queue as share units\<close>

text \<open>
  The abstraction: the prices of the single units held, oldest first. A good queue holds
  positive quantities of whole units.
\<close>

definition lot_units :: "lot \<Rightarrow> rat list" where
  "lot_units l = replicate (n_units (lot_qty l)) (lot_price l)"

definition units :: "lot list \<Rightarrow> rat list" where
  "units ls = concat (map lot_units ls)"

definition good_lot :: "lot \<Rightarrow> bool" where
  "good_lot l \<longleftrightarrow> 0 < lot_qty l \<and> on_grid (lot_qty l)"

definition good_lots :: "lot list \<Rightarrow> bool" where
  "good_lots ls \<longleftrightarrow> list_all good_lot ls"

definition good_qty :: "rat \<Rightarrow> bool" where
  "good_qty q \<longleftrightarrow> 0 \<le> q \<and> on_grid q"

text \<open>The contract of a loop that takes a quantity from the front of the queue.\<close>

locale fifo_queue =
  fixes take_front :: "rat \<Rightarrow> 'q \<Rightarrow> 'q"
    and held :: "'q \<Rightarrow> rat list"
    and good :: "'q \<Rightarrow> bool"
  assumes held_take: "good s \<Longrightarrow> good_qty q \<Longrightarrow> held (take_front q s) = drop (n_units q) (held s)"
    and good_take: "good s \<Longrightarrow> good_qty q \<Longrightarrow> good (take_front q s)"
begin

lemma held_take_twice:
  "good s \<Longrightarrow> good_qty a \<Longrightarrow> good_qty b \<Longrightarrow>
   held (take_front b (take_front a s)) = held (take_front (a + b) s)"
  by (simp add: held_take good_take good_qty_def on_grid_add n_units_add add.commute)

lemma held_take_commute:
  "good s \<Longrightarrow> good_qty a \<Longrightarrow> good_qty b \<Longrightarrow>
   held (take_front b (take_front a s)) = held (take_front a (take_front b s))"
  by (simp add: held_take good_take add.commute)

lemma take_many:
  assumes "list_all good_qty qs" "good s"
  shows "good (foldl (\<lambda>s q. take_front q s) s qs) \<and>
    held (foldl (\<lambda>s q. take_front q s) s qs) = drop (sum_list (map n_units qs)) (held s)"
  using assms by (induction qs arbitrary: s) (auto simp: held_take good_take add.commute)

end


section \<open>The loops implement the contract\<close>

declare drain.simps [simp del] drain_pnl.simps [simp del] consume_loop.simps [simp del]

lemma drain_Nil [simp]: "drain q [] = []"
  by (simp add: drain.simps)

lemma drain_idle [simp]: "q \<le> eps \<Longrightarrow> drain q ls = ls"
  by (cases ls) (simp_all add: drain.simps)

lemma good_qty_simps: "good_qty q \<Longrightarrow> (eps < q \<longleftrightarrow> 0 < q)"
  using on_grid_le_eps [of q] by (auto simp: good_qty_def)

lemma good_lot_rest:
  assumes "good_lot l" "good_qty q"
  shows "lot_qty l - min (lot_qty l) q \<le> eps \<longleftrightarrow> lot_qty l \<le> q"
  using assms on_grid_le_eps [of "lot_qty l - min (lot_qty l) q"]
  by (auto simp: good_lot_def good_qty_def on_grid_diff on_grid_min min_def)

text \<open>On good queues a round either pops the oldest lot or stops inside it.\<close>

lemma drain_Cons:
  assumes "good_lot l" "good_qty q"
  shows "drain q (l # ls) =
    (if q \<le> 0 then l # ls
     else if lot_qty l \<le> q then drain (q - lot_qty l) ls
     else l\<lparr>lot_qty := lot_qty l - q\<rparr> # ls)"
  using assms good_lot_rest [OF assms] good_qty_simps [OF assms(2)]
  by (subst drain.simps) (auto simp: Let_def min_def)

lemma consume_loop_Cons:
  assumes "good_lot l" "good_qty q" "0 < q"
  shows "consume_loop q (l # ls) c =
    (if q \<le> lot_qty l then (l\<lparr>lot_qty := lot_qty l - q\<rparr> # ls, c + lot_price l * q)
     else (let (ls', c') = consume_loop (q - lot_qty l) ls (c + lot_price l * lot_qty l)
           in (l\<lparr>lot_qty := 0\<rparr> # ls', c')))"
proof -
  have "q - min (lot_qty l) q \<le> eps \<longleftrightarrow> q \<le> lot_qty l"
    using assms on_grid_le_eps [of "q - min (lot_qty l) q"]
    by (auto simp: good_lot_def good_qty_def on_grid_diff on_grid_min min_def)
  with assms show ?thesis
    by (subst consume_loop.simps) (auto simp: Let_def min_def good_lot_def)
qed

lemma good_qty_minus: "good_qty q \<Longrightarrow> good_lot l \<Longrightarrow> lot_qty l \<le> q \<Longrightarrow> good_qty (q - lot_qty l)"
  by (simp add: good_qty_def good_lot_def on_grid_diff)

lemma good_lot_minus:
  "good_lot l \<Longrightarrow> good_qty q \<Longrightarrow> q < lot_qty l \<Longrightarrow> good_lot (l\<lparr>lot_qty := lot_qty l - q\<rparr>)"
  by (simp add: good_qty_def good_lot_def on_grid_diff)

lemma units_simps [simp]: "units [] = []" "units (l # ls) = lot_units l @ units ls"
    "units (ls @ ls') = units ls @ units ls'"
  by (simp_all add: units_def)

lemma good_lots_simps [simp]: "good_lots []" "good_lots (l # ls) \<longleftrightarrow> good_lot l \<and> good_lots ls"
    "good_lots (ls @ ls') \<longleftrightarrow> good_lots ls \<and> good_lots ls'"
  by (simp_all add: good_lots_def)

lemma length_lot_units [simp]: "length (lot_units l) = n_units (lot_qty l)"
  by (simp add: lot_units_def)

lemma lot_units_part:
  assumes "good_lot l" "good_qty q" "q \<le> lot_qty l"
  shows "lot_units (l\<lparr>lot_qty := lot_qty l - q\<rparr>) = drop (n_units q) (lot_units l)"
    and "take (n_units q) (lot_units l) = replicate (n_units q) (lot_price l)"
    and "n_units q \<le> n_units (lot_qty l)"
proof -
  show le: "n_units q \<le> n_units (lot_qty l)"
    using assms by (simp add: n_units_le_iff good_lot_def good_qty_def)
  show "lot_units (l\<lparr>lot_qty := lot_qty l - q\<rparr>) = drop (n_units q) (lot_units l)"
    using assms by (simp add: lot_units_def n_units_diff good_lot_def good_qty_def)
  show "take (n_units q) (lot_units l) = replicate (n_units q) (lot_price l)"
    using le by (simp add: lot_units_def min_def)
qed

lemma n_units_split:
  assumes "good_lot l" "good_qty q" "lot_qty l \<le> q"
  shows "n_units q = n_units (lot_qty l) + n_units (q - lot_qty l)"
  using assms n_units_add [of "lot_qty l" "q - lot_qty l"]
  by (simp add: good_lot_def good_qty_def on_grid_diff)

lemma drain_contract:
  "good_lots ls \<Longrightarrow> good_qty q \<Longrightarrow>
   units (drain q ls) = drop (n_units q) (units ls) \<and> good_lots (drain q ls)"
proof (induction ls arbitrary: q)
  case (Cons l ls)
  then have l: "good_lot l" "good_lots ls" by simp_all
  consider "q \<le> 0" | "0 < q" "lot_qty l \<le> q" | "0 < q" "q < lot_qty l" by linarith
  then show ?case
  proof cases
    case 1
    with Cons.prems show ?thesis by (simp add: drain_Cons n_units_nonpos)
  next
    case 2
    with Cons.IH [OF l(2) good_qty_minus [OF Cons.prems(2) l(1)]] l Cons.prems(2) show ?thesis
      by (simp add: drain_Cons n_units_split [OF l(1) Cons.prems(2)])
  next
    case 3
    with l Cons.prems(2) lot_units_part [OF l(1) Cons.prems(2)] show ?thesis
      by (simp add: drain_Cons good_lot_minus)
  qed
qed simp

interpretation drain_q: fifo_queue drain units good_lots
  by unfold_locales (simp_all add: drain_contract)

text \<open>The accumulating loop walks the same queue.\<close>

lemma drain_pnl_fst: "fst (drain_pnl p q ls r) = drain q ls"
  by (induction p q ls r rule: drain_pnl.induct)
    (simp_all add: drain.simps drain_pnl.simps Let_def)

interpretation drain_pnl_q: fifo_queue "\<lambda>q ls. fst (drain_pnl p q ls r)" units good_lots
  by unfold_locales (simp_all add: drain_pnl_fst drain_contract)

section \<open>What the loops pay out\<close>

lemma stock_simps [simp]: "stock [] = 0" "stock (l # ls) = lot_qty l + stock ls"
    "stock (ls @ ls') = stock ls + stock ls'"
  by (simp_all add: stock_def)

lemma stock_value_simps [simp]: "stock_value [] = 0"
    "stock_value (l # ls) = lot_price l * lot_qty l + stock_value ls"
    "stock_value (ls @ ls') = stock_value ls + stock_value ls'"
  by (simp_all add: stock_value_def)

lemma sum_lot_units: "good_lot l \<Longrightarrow> sum_list (lot_units l) * share_unit = lot_price l * lot_qty l"
  using n_units_share [of "lot_qty l"]
  by (simp add: lot_units_def sum_list_replicate_rat good_lot_def algebra_simps)

lemma stock_units: "good_lots ls \<Longrightarrow> stock ls = of_nat (length (units ls)) * share_unit"
  by (induction ls) (auto simp: distrib_right n_units_share good_lot_def)

lemma stock_value_units: "good_lots ls \<Longrightarrow> stock_value ls = sum_list (units ls) * share_unit"
  by (induction ls) (auto simp: distrib_right sum_lot_units)

lemma stock_nonneg: "good_lots ls \<Longrightarrow> 0 \<le> stock ls"
  by (induction ls) (auto simp: good_lot_def)

lemma n_units_stock: "good_lots ls \<Longrightarrow> on_grid (stock ls) \<and> n_units (stock ls) = length (units ls)"
  by (induction ls) (auto simp: good_lot_def on_grid_add n_units_add stock_nonneg)

lemma sum_take_units:
  assumes "good_lot l" "good_qty q" "lot_qty l \<le> q"
  shows "sum_list (take (n_units q) (units (l # ls))) * share_unit
    = lot_price l * lot_qty l + sum_list (take (n_units (q - lot_qty l)) (units ls)) * share_unit"
  using assms by (simp add: n_units_split [OF assms] sum_lot_units distrib_right)

lemma sum_take_part:
  assumes "good_lot l" "good_qty q" "q \<le> lot_qty l"
  shows "sum_list (take (n_units q) (units (l # ls))) * share_unit = lot_price l * q"
proof -
  have "of_nat (n_units q) * share_unit = q"
    using assms by (simp add: good_qty_def n_units_share)
  then show ?thesis
    using lot_units_part [OF assms] by (simp add: sum_list_replicate_rat algebra_simps)
qed

lemma consume_loop_units:
  assumes "good_lots ls" "good_qty q" "0 < q" "q \<le> stock ls"
  shows "snd (consume_loop q ls c) = c + sum_list (take (n_units q) (units ls)) * share_unit \<and>
    good_lots (filter (\<lambda>l. eps < lot_qty l) (fst (consume_loop q ls c))) \<and>
    units (filter (\<lambda>l. eps < lot_qty l) (fst (consume_loop q ls c))) = drop (n_units q) (units ls)"
  using assms
proof (induction ls arbitrary: q c)
  case (Cons l ls)
  then have l: "good_lot l" "good_lots ls" and q: "good_qty q" "0 < q" by simp_all
  have keep: "filter (\<lambda>l. eps < lot_qty l) ls = ls"
    using l(2) on_grid_le_eps by (induction ls) (force simp: good_lot_def)+
  show ?case
  proof (cases "q \<le> lot_qty l")
    case True
    have rest: "eps < lot_qty l - q \<longleftrightarrow> q < lot_qty l"
      using l(1) q on_grid_le_eps [of "lot_qty l - q"]
      by (auto simp: good_lot_def good_qty_def on_grid_diff)
    show ?thesis
      using True l q rest keep lot_units_part [OF l(1) q(1) True] sum_take_part [OF l(1) q(1) True]
      by (cases "q = lot_qty l")
        (simp_all add: consume_loop_Cons good_lot_minus del: units_simps(2), simp_all)
  next
    case False
    then have le: "lot_qty l \<le> q" by simp
    have IH: "good_qty (q - lot_qty l)" "0 < q - lot_qty l" "q - lot_qty l \<le> stock ls"
      using False Cons.prems good_qty_minus [OF q(1) l(1) le] by simp_all
    show ?thesis
      using False l q Cons.IH [OF l(2) IH, of "c + lot_price l * lot_qty l"]
        sum_take_units [OF l(1) q(1) le, of ls] n_units_split [OF l(1) q(1) le]
      by (cases "consume_loop (q - lot_qty l) ls (c + lot_price l * lot_qty l)")
        (simp add: consume_loop_Cons add.commute)
  qed
qed simp


section \<open>Replay of fills and merges\<close>

text \<open>The specification: a queue of single units, to which a purchase appends and from
which a sale or a merge drops.\<close>

definition spec_fill :: "rat list \<Rightarrow> fill \<Rightarrow> rat list" where
  "spec_fill us f =
     (if upper (fill_side f) = ''BUY'' then us @ replicate (n_units (fill_size f)) (fill_price f)
      else if upper (fill_side f) = ''SELL'' then drop (n_units (fill_size f)) us
      else us)"

definition grid_fill :: "fill \<Rightarrow> bool" where
  "grid_fill f \<longleftrightarrow> on_grid (fill_size f)"

lemma good_lot_of_fill:
  "grid_fill f \<Longrightarrow> 0 < fill_size f \<Longrightarrow> good_lot (lot_of_fill f) \<and>
   lot_units (lot_of_fill f) = replicate (n_units (fill_size f)) (fill_price f)"
  by (simp add: good_lot_def lot_of_fill_def lot_units_def grid_fill_def)

lemma replay_fill_step:
  assumes "grid_fill f" "good_lots ls"
  shows "units (replay_fill ls f) = spec_fill (units ls) f \<and> good_lots (replay_fill ls f)"
proof (cases "fill_size f \<le> 0")
  case True
  then show ?thesis using assms by (simp add: replay_fill_def spec_fill_def n_units_nonpos)
next
  case False
  then have "good_qty (fill_size f)" using assms by (simp add: good_qty_def grid_fill_def)
  then show ?thesis using False assms good_lot_of_fill [of f] drain_contract [of ls "fill_size f"]
    by (simp add: replay_fill_def spec_fill_def)
qed

lemma replay_fills:
  "list_all grid_fill fs \<Longrightarrow> good_lots ls \<Longrightarrow>
   units (foldl replay_fill ls fs) = foldl spec_fill (units ls) fs \<and> good_lots (foldl replay_fill ls fs)"
  by (induction fs arbitrary: ls) (simp_all add: replay_fill_step)

lemma list_all_sort_key [simp]: "list_all P (sort_key f xs) = list_all P xs"
  by (simp add: list_all_iff)

lemma replay_contract:
  assumes "list_all grid_fill fills" "list_all good_qty merges"
  shows "good_lots (replay_position fills merges) \<and>
    units (replay_position fills merges) =
      drop (sum_list (map n_units merges)) (foldl spec_fill [] (sort_key fill_ts fills))"
  using assms replay_fills [of "sort_key fill_ts fills" "[]"]
    drain_q.take_many [of merges "foldl replay_fill [] (sort_key fill_ts fills)"]
  by (simp add: replay_position_def)

text \<open>
  A history in the order of the events: fills, and merges at the moment of their
  confirmation. \<open>never_short\<close> says that no sale or merge takes more than is held.
\<close>

datatype event = Trade fill | Burn rat

fun spec_event :: "rat list \<Rightarrow> event \<Rightarrow> rat list" where
  "spec_event us (Trade f) = spec_fill us f"
| "spec_event us (Burn q) = drop (n_units q) us"

fun never_short :: "rat list \<Rightarrow> event list \<Rightarrow> bool" where
  "never_short us [] = True"
| "never_short us (Trade f # es) =
     ((upper (fill_side f) = ''SELL'' \<longrightarrow> n_units (fill_size f) \<le> length us) \<and>
      never_short (spec_fill us f) es)"
| "never_short us (Burn q # es) = (n_units q \<le> length us \<and> never_short (drop (n_units q) us) es)"

fun trades_of :: "event list \<Rightarrow> fill list" where
  "trades_of [] = []"
| "trades_of (Trade f # es) = f # trades_of es"
| "trades_of (Burn q # es) = trades_of es"

fun burns_of :: "event list \<Rightarrow> rat list" where
  "burns_of [] = []"
| "burns_of (Trade f # es) = burns_of es"
| "burns_of (Burn q # es) = q # burns_of es"

lemma interleaving:
  assumes "B \<le> length us" "never_short (drop B us) es"
  shows "foldl spec_event (drop B us) es
    = drop (B + sum_list (map n_units (burns_of es))) (foldl spec_fill us (trades_of es))"
  using assms
proof (induction es arbitrary: B us rule: trades_of.induct)
  case (2 f es)
  consider "upper (fill_side f) = ''BUY''" | "upper (fill_side f) = ''SELL''"
    | "upper (fill_side f) \<noteq> ''BUY''" "upper (fill_side f) \<noteq> ''SELL''" by blast
  then show ?case
  proof cases
    case 1
    with "2.prems" "2.IH" [of B "us @ replicate (n_units (fill_size f)) (fill_price f)"]
    show ?thesis by (simp add: spec_fill_def)
  next
    case 2
    with "2.prems" have le: "n_units (fill_size f) \<le> length us - B" by simp
    with "2.prems"(1) have "B \<le> length (drop (n_units (fill_size f)) us)" by simp
    with 2 "2.prems" le "2.IH" [of B "drop (n_units (fill_size f)) us"]
    show ?thesis by (simp add: spec_fill_def [of _ f] add.commute)
  next
    case 3
    with "2.prems" "2.IH" [of B us] show ?thesis by (simp add: spec_fill_def)
  qed
next
  case (3 q es)
  then have "B + n_units q \<le> length us" by (simp add: le_diff_conv2 add.commute)
  moreover have "never_short (drop (B + n_units q) us) es" using 3 by (simp add: add.commute)
  ultimately have "foldl spec_event (drop (B + n_units q) us) es
    = drop (B + n_units q + sum_list (map n_units (burns_of es))) (foldl spec_fill us (trades_of es))"
    by (rule "3.IH")
  then show ?case by (simp add: ac_simps)
qed simp


lemma units_mean:
  assumes "good_lots ls" "ls \<noteq> []"
  shows "stock_value ls / stock ls * of_nat (length (units ls)) = sum_list (units ls)"
    and "0 < stock ls"
proof -
  show pos: "0 < stock ls"
    using assms by (cases ls) (auto simp: good_lot_def add_pos_nonneg stock_nonneg)
  then show "stock_value ls / stock ls * of_nat (length (units ls)) = sum_list (units ls)"
    using assms by (simp add: stock_units stock_value_units share_unit_def)
qed

lemma drain_pnl_idle [simp]: "q \<le> eps \<Longrightarrow> drain_pnl p q ls r = (ls, r)"
  by (cases ls) (simp_all add: drain_pnl.simps)

lemma drain_pnl_units:
  "good_lots ls \<Longrightarrow> good_qty q \<Longrightarrow>
   snd (drain_pnl p q ls r) = r + sum_list (map (\<lambda>c. p - c) (take (n_units q) (units ls))) * share_unit"
proof (induction ls arbitrary: q r)
  case (Cons l ls)
  then have l: "good_lot l" "good_lots ls" and q: "good_qty q" by simp_all
  have step: "drain_pnl p q (l # ls) r =
      (if q \<le> 0 then (l # ls, r)
       else if lot_qty l \<le> q then drain_pnl p (q - lot_qty l) ls (r + (p - lot_price l) * lot_qty l)
       else (l\<lparr>lot_qty := lot_qty l - q\<rparr> # ls, r + (p - lot_price l) * q))"
    using good_lot_rest [OF l(1) q] good_qty_simps [OF q]
    by (subst drain_pnl.simps) (auto simp: Let_def min_def)
  have margin: "of_nat (n_units x) * (p - lot_price l) * share_unit = (p - lot_price l) * x"
    if "on_grid x" "0 \<le> x" for x
  proof -
    have "of_nat (n_units x) * (p - lot_price l) * share_unit
      = (p - lot_price l) * (of_nat (n_units x) * share_unit)" by simp
    then show ?thesis by (simp only: n_units_share [OF that])
  qed
  consider "q \<le> 0" | "0 < q" "lot_qty l \<le> q" | "0 < q" "q < lot_qty l" by linarith
  then show ?case
  proof cases
    case 1
    then show ?thesis by (simp add: step n_units_nonpos)
  next
    case 2
    then show ?thesis
      using Cons.IH [OF l(2) good_qty_minus [OF q l(1) 2(2)]] n_units_split [OF l(1) q 2(2)] l(1)
        margin [of "lot_qty l"]
      by (auto simp: step lot_units_def map_replicate sum_list_replicate_rat distrib_right good_lot_def)
  next
    case 3
    then have le: "q \<le> lot_qty l" by simp
    show ?thesis
      using 3 lot_units_part [OF l(1) q le] q margin [of q]
      by (auto simp: step map_replicate sum_list_replicate_rat good_qty_def)
  qed
qed (simp add: drain_pnl.simps)

section \<open>Properties\<close>

text \<open>C39: rebuilding the inventory replays every fill in time order and subtracts the
confirmed merges afterwards; whatever order the API returned the fills in, the result is
the inventory of the true history, in which each merge happened at its own moment, as
long as that history never sold or merged more than was held.\<close>

theorem replay_is_history:
  assumes "list_all grid_fill fills" "list_all good_qty (burns_of es)"
    and "trades_of es = sort_key fill_ts fills" "never_short [] es"
  shows "units (replay_position fills (burns_of es)) = foldl spec_event [] es"
  using assms replay_contract [of fills "burns_of es"] interleaving [of 0 "[]" es] by simp

definition demo_fill :: "string \<Rightarrow> rat \<Rightarrow> rat \<Rightarrow> rat \<Rightarrow> fill" where
  "demo_fill side p q ts = \<lparr>fill_side = side, fill_price = p, fill_size = q, fill_ts = ts,
     fill_tid = ''t'', fill_fee_bps = 0\<rparr>"

lemma replay_is_history_witness:
  "let b = demo_fill ''BUY'' (2/5) (3/1000000) 1; c = demo_fill ''BUY'' (1/2) (2/1000000) 5;
       s = demo_fill ''SELL'' (3/5) (1/1000000) 3
   in units (replay_position [s, c, b] (burns_of [Trade b, Trade s, Burn (1/1000000), Trade c]))
     = [2/5, 1/2, 1/2]"
proof -
  define b c s where bcs: "b = demo_fill ''BUY'' (2/5) (3/1000000) 1"
    "c = demo_fill ''BUY'' (1/2) (2/1000000) 5" "s = demo_fill ''SELL'' (3/5) (1/1000000) 3"
  have "units (replay_position [s, c, b] (burns_of [Trade b, Trade s, Burn (1/1000000), Trade c]))
    = foldl spec_event [] [Trade b, Trade s, Burn (1/1000000), Trade c]"
    by (rule replay_is_history)
      (simp_all add: bcs demo_fill_def grid_fill_def on_grid_def good_qty_def sort_key_def
        n_units_def spec_fill_def upper_def upper_char_def)
  then show ?thesis
    unfolding Let_def
    by (simp add: bcs demo_fill_def spec_fill_def n_units_def upper_def upper_char_def numeral_2_eq_2)
qed

text \<open>When \<open>position_cost_with_lots\<close> returns a cost, it is exactly the average price
of the units the replay leaves in the queue, the reconstructed quantity differs from the
reported position by at most one share or one percent, and every returned lot is
positive; it returns no cost for an empty history or position.\<close>

theorem position_cost_is_mean:
  assumes "list_all grid_fill fills" "list_all good_qty merges"
  shows "case position_cost_with_lots fills sz merges of
      (Some c, ls) \<Rightarrow> 0 < sz \<and> ls = replay_position fills merges \<and> good_lots ls \<and>
        c * of_nat (length (units ls)) = sum_list (units ls) \<and> units ls \<noteq> [] \<and>
        \<bar>of_nat (length (units ls)) * share_unit - sz\<bar> \<le> max 1 (sz / 100)
    | (None, ls) \<Rightarrow> ls = [] \<and> (sz \<le> 0 \<or> fills = [] \<or> units (replay_position fills merges) = [] \<or>
        max 1 (sz / 100) < \<bar>of_nat (length (units (replay_position fills merges))) * share_unit - sz\<bar>)"
proof -
  let ?ls = "replay_position fills merges"
  have good: "good_lots ?ls" using replay_contract [OF assms] by simp
  have recon: "stock ?ls = of_nat (length (units ?ls)) * share_unit" by (rule stock_units [OF good])
  have pos: "0 < stock ?ls \<longleftrightarrow> units ?ls \<noteq> []"
    unfolding recon by (simp add: share_unit_def)
  then have "?ls \<noteq> []" if "0 < stock ?ls" using that by auto
  with good pos show ?thesis
    using units_mean(1) [OF good]
    by (auto simp: position_cost_with_lots_def Let_def recon [symmetric] not_le not_less le_max_iff_disj)
qed


lemma position_cost_witness:
  "position_cost_with_lots [demo_fill ''BUY'' (2/5) 30 1, demo_fill ''BUY'' (1/2) 20 2] 40 [10]
    = (Some (9/20), [\<lparr>lot_price = 2/5, lot_qty = 20, lot_ts = 1, lot_tid = ''t''\<rparr>,
        \<lparr>lot_price = 1/2, lot_qty = 20, lot_ts = 2, lot_tid = ''t''\<rparr>]) \<and>
   9/20 * of_nat (n_units 20 + n_units 20) = sum_list (replicate (n_units 20) (2/5 :: rat) @
     replicate (n_units 20) (1/2))"
proof -
  let ?fs = "[demo_fill ''BUY'' (2/5) 30 1, demo_fill ''BUY'' (1/2) 20 2]"
  have e: "position_cost_with_lots ?fs 40 [10]
    = (Some (9/20), [\<lparr>lot_price = 2/5, lot_qty = 20, lot_ts = 1, lot_tid = ''t''\<rparr>,
        \<lparr>lot_price = 1/2, lot_qty = 20, lot_ts = 2, lot_tid = ''t''\<rparr>])"
    by (simp add: position_cost_with_lots_def replay_position_def replay_fill_def demo_fill_def
      sort_key_def upper_def upper_char_def lot_of_fill_def drain.simps stock_def stock_value_def
      eps_def)
  have "list_all grid_fill ?fs" "list_all good_qty [10]"
    by (simp_all add: grid_fill_def demo_fill_def on_grid_def good_qty_def)
  from position_cost_is_mean [OF this, of 40] show ?thesis
    unfolding e by (simp add: lot_units_def)
qed

lemma consume_cost_exact_aux:
  assumes "good_lots ls" "good_qty (or0 q)"
  shows "if length (units ls) < n_units (or0 q) then consume_fifo_cost ls q = (None, ls)
    else fst (consume_fifo_cost ls q) = Some (sum_list (take (n_units (or0 q)) (units ls)) * share_unit) \<and>
      good_lots (snd (consume_fifo_cost ls q)) \<and>
      units (snd (consume_fifo_cost ls q)) = drop (n_units (or0 q)) (units ls)"
proof -
  let ?q = "or0 q"
  have g: "on_grid (stock ls)" "n_units (stock ls) = length (units ls)"
    using n_units_stock [OF assms(1)] by simp_all
  have le: "n_units ?q \<le> length (units ls) \<longleftrightarrow> ?q \<le> stock ls"
    using n_units_le_iff [of ?q "stock ls"] g assms stock_nonneg by (simp add: good_qty_def)
  have "?q - stock ls \<le> eps \<longleftrightarrow> ?q \<le> stock ls"
    using on_grid_le_eps [of "?q - stock ls"] assms g by (simp add: good_qty_def on_grid_diff)
  then have short: "stock ls + eps < ?q \<longleftrightarrow> length (units ls) < n_units ?q"
    using le by linarith
  have "n_units ?q = 0" if "?q \<le> 0" using that by (rule n_units_nonpos)
  with short le consume_loop_units [OF assms, of 0] assms(1) show ?thesis
    by (auto simp: consume_fifo_cost_def Let_def split: prod.splits)
qed

text \<open>\<open>consume_fifo_cost\<close> answers None, with the lots unchanged, exactly when fewer units
are held than asked for; otherwise the cost is the sum of the prices of the oldest \<open>q\<close>
units, and the remaining lots are exactly the younger units.\<close>

theorem consume_cost_exact:
  assumes "good_lots ls" "good_qty (or0 q)"
  shows "if length (units ls) < n_units (or0 q) then consume_fifo_cost ls q = (None, ls)
    else fst (consume_fifo_cost ls q) = Some (sum_list (take (n_units (or0 q)) (units ls)) * share_unit) \<and>
      good_lots (snd (consume_fifo_cost ls q)) \<and>
      units (snd (consume_fifo_cost ls q)) = drop (n_units (or0 q)) (units ls)"
  using consume_cost_exact_aux [OF assms] .

lemma consume_cost_witness:
  "let l = \<lparr>lot_price = 2/5, lot_qty = 30, lot_ts = 1, lot_tid = ''t''\<rparr>;
       m = \<lparr>lot_price = 1/2, lot_qty = 20, lot_ts = 2, lot_tid = ''t''\<rparr>
   in good_lots [l, m] \<and> good_qty (or0 (Some 40)) \<and> n_units 40 \<le> length (units [l, m]) \<and>
      consume_fifo_cost [l, m] (Some 40) = (Some 17, [m\<lparr>lot_qty := 10\<rparr>]) \<and>
      17 = sum_list (take (n_units 40) (units [l, m])) * share_unit"
proof -
  define l m where lm: "l = \<lparr>lot_price = 2/5, lot_qty = 30, lot_ts = 1, lot_tid = ''t''\<rparr>"
    "m = \<lparr>lot_price = 1/2, lot_qty = 20, lot_ts = 2, lot_tid = ''t''\<rparr>"
  have g: "good_lots [l, m]" "good_qty (or0 (Some 40))" "n_units 40 \<le> length (units [l, m])"
    by (simp_all add: lm good_lot_def good_qty_def on_grid_def n_units_def)
  have e: "consume_fifo_cost [l, m] (Some 40) = (Some 17, [m\<lparr>lot_qty := 10\<rparr>])"
    by (simp add: lm consume_fifo_cost_def stock_def consume_loop.simps eps_def)
  from consume_cost_exact [OF g(1,2)] g e
  show ?thesis unfolding Let_def lm [symmetric] by (simp add: lm [symmetric] del: units_simps)
qed

end
