(* ===== verification/Merge.thy ===== *)
theory Merge
  imports Fifo
begin

text \<open>
  Merging complete YES/NO pairs back into collateral: the transactions sent to the
  collateral adapters (\<open>engine/merge.py\<close>) and the profit booked for a confirmed merge
  (\<open>engine/merge_accounting.py\<close>). The ABI encoder (\<open>eth_abi.encode\<close>) is not part of the
  repository and is a parameter.
\<close>

section \<open>Transactions\<close>

definition ctf_address :: string where
  "ctf_address = ''0x4D97DCd97eC945f40cF65F87097ACe5EA0476045''"

definition ctf_collateral_adapter :: string where
  "ctf_collateral_adapter = ''0xAdA100Db00Ca00073811820692005400218FcE1f''"

definition neg_risk_collateral_adapter :: string where
  "neg_risk_collateral_adapter = ''0xadA2005600Dec949baf300f4C6120000bDB6eAab''"

definition pusd_address :: string where
  "pusd_address = ''0xC011a7E12a19f7B1f670d46F03B03f3342E82DFB''"

text \<open>\<open>bytes.fromhex\<close>: pairs of hexadecimal digits, with white space between the pairs.\<close>

definition hex_digit :: "char \<Rightarrow> nat option" where
  "hex_digit c = (let n = of_char c :: nat in
     if 48 \<le> n \<and> n \<le> 57 then Some (n - 48)
     else if 97 \<le> n \<and> n \<le> 102 then Some (n - 87)
     else if 65 \<le> n \<and> n \<le> 70 then Some (n - 55) else None)"

fun fromhex :: "string \<Rightarrow> nat list option" where
  "fromhex [] = Some []"
| "fromhex [c] = (if is_space c then Some [] else None)"
| "fromhex (c # d # s) =
     (if is_space c then fromhex (d # s)
      else case (hex_digit c, hex_digit d) of
        (Some h, Some l) \<Rightarrow> map_option (\<lambda>bs. (16 * h + l) # bs) (fromhex s)
      | _ \<Rightarrow> None)"

definition drop_0x :: "string \<Rightarrow> string" where
  "drop_0x s = (if starts_with ''0x'' s then drop 2 s else s)"

text \<open>\<open>_bytes32\<close>; None stands for the ValueError.\<close>

definition bytes32 :: "string \<Rightarrow> nat list option" where
  "bytes32 v = (case fromhex (drop_0x v) of
     None \<Rightarrow> None
   | Some raw \<Rightarrow> if 32 < length raw then None else Some (replicate (32 - length raw) 0 @ raw))"

definition merge_adapter_address :: "bool \<Rightarrow> string" where
  "merge_adapter_address neg_risk =
     (if neg_risk then neg_risk_collateral_adapter else ctf_collateral_adapter)"

text \<open>The arguments handed to the encoder.\<close>

datatype abi_args =
    Merge_args string "nat list" "nat list" "nat list" int
  | Approval_args string bool
  | Approved_args string string

record tx =
  tx_to :: string
  tx_data :: string

definition build_merge_transaction ::
    "(abi_args \<Rightarrow> string) \<Rightarrow> string \<Rightarrow> rat option \<Rightarrow> bool \<Rightarrow> tx option" where
  "build_merge_transaction abi cid amount neg_risk =
     (let q = or0 amount in
      if q \<le> 0 then None
      else case bytes32 cid of None \<Rightarrow> None
        | Some c \<Rightarrow> Some \<lparr>tx_to = merge_adapter_address neg_risk,
            tx_data = ''0x9e7212ad'' @
              abi (Merge_args pusd_address (replicate 32 0) c [1, 2] (py_round (q * 10 ^ 6)))\<rparr>)"

definition build_adapter_approval_transaction :: "(abi_args \<Rightarrow> string) \<Rightarrow> bool \<Rightarrow> tx" where
  "build_adapter_approval_transaction abi neg_risk =
     \<lparr>tx_to = ctf_address,
      tx_data = ''0xa22cb465'' @ abi (Approval_args (merge_adapter_address neg_risk) True)\<rparr>"

definition is_approved_for_all_calldata :: "(abi_args \<Rightarrow> string) \<Rightarrow> string \<Rightarrow> bool \<Rightarrow> string" where
  "is_approved_for_all_calldata abi owner neg_risk =
     ''0xe985e9c5'' @ abi (Approved_args owner (merge_adapter_address neg_risk))"

definition parse_is_approved_result :: "string \<Rightarrow> bool" where
  "parse_is_approved_result r =
     (case fromhex (drop_0x r) of
        None \<Rightarrow> False
      | Some raw \<Rightarrow> if 32 \<le> length raw then last raw = 1 else False)"

section \<open>Profit of a merge\<close>

definition merge_recovery_usd :: "rat option \<Rightarrow> rat" where
  "merge_recovery_usd amount = or0 amount"

definition merge_realized_pnl ::
    "rat option \<Rightarrow> rat option \<Rightarrow> rat option \<Rightarrow> rat option \<Rightarrow> rat" where
  "merge_realized_pnl amount yes_cost no_cost fees =
     merge_recovery_usd amount - or0 yes_cost - or0 no_cost - or0 fees"

text \<open>\<open>(realized_pnl, yes_cost, no_cost, ok)\<close>.\<close>

definition merge_event_pnl_from_lots ::
    "rat option \<Rightarrow> lot list \<Rightarrow> lot list \<Rightarrow> rat option \<Rightarrow> rat \<times> rat \<times> rat \<times> bool" where
  "merge_event_pnl_from_lots amount yes_lots no_lots fees =
     (case (fst (consume_fifo_cost yes_lots amount), fst (consume_fifo_cost no_lots amount)) of
        (Some y, Some n) \<Rightarrow> (merge_realized_pnl amount (Some y) (Some n) fees, y, n, True)
      | _ \<Rightarrow> (0, 0, 0, False))"

text \<open>Events as (confirmed_at, realized_pnl); the dictionary is a map from days.\<close>

definition merge_pnl_by_day ::
    "(rat option \<times> rat option) list \<Rightarrow> (rat \<Rightarrow> int) \<Rightarrow> int \<Rightarrow> rat option" where
  "merge_pnl_by_day events day =
     foldl (\<lambda>out (tm, pnl). let d = day (or0 tm) in
       out (d \<mapsto> (case out d of Some x \<Rightarrow> x | None \<Rightarrow> 0) + or0 pnl)) Map.empty events"

definition pair_amount :: "rat option \<Rightarrow> rat option \<Rightarrow> rat" where
  "pair_amount yes no = max 0 (min (or0 yes) (or0 no))"

section \<open>Properties\<close>

lemma fromhex_bytes: "fromhex s = Some bs \<Longrightarrow> b \<in> set bs \<Longrightarrow> b < 256"
proof (induction s arbitrary: bs rule: fromhex.induct)
  case (3 c d s)
  have dig: "hex_digit x = Some n \<Longrightarrow> n < 16" for x n
    by (auto simp: hex_digit_def Let_def split: if_splits)
  show ?case
  proof (cases "is_space c")
    case True
    with 3 show ?thesis by simp
  next
    case False
    with 3(3) obtain h l cs where "hex_digit c = Some h" "hex_digit d = Some l"
      "fromhex s = Some cs" "bs = (16 * h + l) # cs"
      by (auto split: option.splits)
    moreover have "b \<in> set cs \<Longrightarrow> b < 256"
      using "3.IH"(2) [OF False refl \<open>hex_digit c = Some h\<close> \<open>hex_digit d = Some l\<close>] calculation by simp
    ultimately show ?thesis using 3(4) dig [of c h] dig [of d l] by auto
  qed
qed (auto split: if_splits)

lemma bytes32_bytes: "bytes32 v = Some bs \<Longrightarrow> length bs = 32 \<and> (\<forall>b \<in> set bs. b < 256)"
  using fromhex_bytes by (fastforce simp: bytes32_def split: option.splits if_splits)

text \<open>A merge transaction is built exactly for a positive amount and a well-formed
condition id; it goes to the adapter of the market's kind, the condition id is 32 bytes,
and a six-decimal amount is scaled to exactly its number of share units, which is
positive.\<close>

theorem build_merge_transaction_spec:
  "case build_merge_transaction abi cid amount neg_risk of
     None \<Rightarrow> or0 amount \<le> 0 \<or> bytes32 cid = None
   | Some t \<Rightarrow> 0 < or0 amount \<and>
       tx_to t = (if neg_risk then neg_risk_collateral_adapter else ctf_collateral_adapter) \<and>
       (\<exists>c raw. bytes32 cid = Some c \<and> length c = 32 \<and> (\<forall>b \<in> set c. b < 256) \<and>
          tx_data t = ''0x9e7212ad'' @ abi (Merge_args pusd_address (replicate 32 0) c [1, 2] raw) \<and>
          (on_grid (or0 amount) \<longrightarrow> raw = int (n_units (or0 amount)) \<and> 0 < raw))"
proof (cases "or0 amount \<le> 0 \<or> bytes32 cid = None")
  case True
  then show ?thesis by (auto simp: build_merge_transaction_def Let_def)
next
  case False
  then obtain c where c: "bytes32 cid = Some c" and q: "0 < or0 amount" by auto
  have "py_round (or0 amount * 10 ^ 6) = int (n_units (or0 amount)) \<and> 0 < py_round (or0 amount * 10 ^ 6)"
    if "on_grid (or0 amount)"
  proof -
    have "or0 amount * 10 ^ 6 = of_int (int (n_units (or0 amount)))"
      using that q by (simp add: of_nat_n_units)
    then have "py_round (or0 amount * 10 ^ 6) = int (n_units (or0 amount))"
      by (metis py_round_of_int)
    moreover have "0 < (of_nat (n_units (or0 amount)) :: rat)"
      using that q by (simp add: of_nat_n_units)
    ultimately show ?thesis by simp
  qed
  with c q bytes32_bytes [OF c] show ?thesis
    by (auto simp: build_merge_transaction_def Let_def merge_adapter_address_def)
qed

lemma build_merge_transaction_witness:
  "(\<exists>t. build_merge_transaction (\<lambda>_. ''ff'') ''0x0a'' (Some 10) True = Some t \<and>
     tx_to t = neg_risk_collateral_adapter) \<and> on_grid 10 \<and> n_units 10 = 10000000"
proof -
  have e: "build_merge_transaction (\<lambda>_. ''ff'') ''0x0a'' (Some 10) True
    = Some \<lparr>tx_to = neg_risk_collateral_adapter, tx_data = ''0x9e7212adff''\<rparr>"
    by (simp add: build_merge_transaction_def bytes32_def drop_0x_def starts_with_def is_space_def
      hex_digit_def merge_adapter_address_def)
  have "on_grid 10" "n_units 10 = 10000000" by (simp_all add: on_grid_def n_units_def)
  with build_merge_transaction_spec [where abi = "\<lambda>_. ''ff''" and cid = "''0x0a''" and amount = "Some 10"
      and neg_risk = True] show ?thesis
    unfolding e by simp
qed

text \<open>A confirmed merge books, for each merged unit, one dollar per share minus what the
oldest YES unit and the oldest NO unit cost, minus the fees; a shortage on either side
books nothing and says so.\<close>

theorem merge_event_pnl_unitwise:
  assumes "good_lots ys" "good_lots ns" "good_qty (or0 amount)"
  shows "merge_event_pnl_from_lots amount ys ns fees =
    (let n = n_units (or0 amount); yc = take n (units ys); nc = take n (units ns) in
     if n \<le> length (units ys) \<and> n \<le> length (units ns)
     then (sum_list (map2 (\<lambda>y n. 1 - y - n) yc nc) * share_unit - or0 fees,
           sum_list yc * share_unit, sum_list nc * share_unit, True)
     else (0, 0, 0, False))"
proof -
  let ?n = "n_units (or0 amount)"
  have pairs: "sum_list (map2 (\<lambda>y n. 1 - y - n) yc nc) = of_nat (length yc) - sum_list yc - sum_list nc"
    if "length yc = length nc" for yc nc :: "rat list"
    using that by (induction yc nc rule: list_induct2) simp_all
  have "of_nat ?n * share_unit = or0 amount"
    using assms(3) by (simp add: good_qty_def n_units_share)
  then have "or0 amount - sum_list yc * share_unit - sum_list nc * share_unit
      = sum_list (map2 (\<lambda>y n. 1 - y - n) yc nc) * share_unit"
    if "length yc = ?n" "length nc = ?n" for yc nc
    using pairs [of yc nc] that by (simp add: left_diff_distrib)
  with consume_cost_exact_aux [OF assms(1,3)] consume_cost_exact_aux [OF assms(2,3)]
  show ?thesis
    by (auto simp: merge_event_pnl_from_lots_def merge_realized_pnl_def merge_recovery_usd_def
      Let_def not_le split: option.splits)
qed

lemma merge_event_pnl_witness:
  "let y = \<lparr>lot_price = 2/5, lot_qty = 2/1000000, lot_ts = 1, lot_tid = ''t''\<rparr>;
       n = \<lparr>lot_price = 1/2, lot_qty = 2/1000000, lot_ts = 2, lot_tid = ''u''\<rparr>
   in fst (merge_event_pnl_from_lots (Some (2/1000000)) [y] [n] None) = 2 * (1 - 2/5 - 1/2) / 10 ^ 6"
proof -
  define y n where yn: "y = \<lparr>lot_price = 2/5, lot_qty = 2/1000000, lot_ts = 1, lot_tid = ''t''\<rparr>"
    "n = \<lparr>lot_price = 1/2, lot_qty = 2/1000000, lot_ts = 2, lot_tid = ''u''\<rparr>"
  have g: "good_lots [y]" "good_lots [n]" "good_qty (or0 (Some (2/1000000)))"
    by (simp_all add: yn good_lot_def good_qty_def on_grid_def)
  have u: "units [y] = [2/5, 2/5]" "units [n] = [1/2, 1/2]" "n_units (2/1000000) = 2"
    by (simp_all add: yn lot_units_def n_units_def numeral_2_eq_2)
  have "fst (merge_event_pnl_from_lots (Some (2/1000000)) [y] [n] None) = 2 * (1 - 2/5 - 1/2) / 10 ^ 6"
    unfolding merge_event_pnl_unitwise [OF g] Let_def or0_simps u
    by (simp add: share_unit_def)
  then show ?thesis unfolding Let_def yn .
qed

lemma merge_pnl_by_day_aux:
  "merge_pnl_by_day events day d =
     (let here = filter (\<lambda>(tm, pnl). day (or0 tm) = d) events in
      if here = [] then None else Some (sum_list (map (\<lambda>(tm, pnl). or0 pnl) here)))"
  by (induction events rule: rev_induct) (auto simp: merge_pnl_by_day_def Let_def)

end
