(* ===== verification/Client.thy ===== *)
theory Client
  imports Proxy Merge
begin

text \<open>
  The client of the exchange and of the public data services (\<open>api/polymarket_api.py\<close>): reading
  of order and cancel responses, the account type, batches of order books, pages of
  activity and rewards, the requests behind each order and merge. The exchange library, the
  services and the relayer are parameters: \<open>answer via q i\<close> is what the \<open>i\<close>-th try of the request
  \<open>q\<close> does when it leaves through \<open>via\<close>, \<open>Reply\<close> being a response with a good status.
\<close>

section \<open>Responses\<close>

definition field :: "(string \<times> json) list \<Rightarrow> string \<Rightarrow> json" where
  "field kvs k = (case map_of kvs k of None \<Rightarrow> J_null | Some v \<Rightarrow> v)"

text \<open>
  The test of the status lower-cases \<open>str(status)\<close>; only a string can give one of the three words.
  False is the exception \<open>OrderRejected\<close>.
\<close>

fun status_ok :: "json \<Rightarrow> bool" where
  "status_ok J_null = True"
| "status_ok (J_str s) = (lower s \<in> {''live'', ''matched'', ''delayed''})"
| "status_ok _ = False"

fun check_order_resp :: "json \<Rightarrow> bool" where
  "check_order_resp (J_obj kvs) = (field kvs ''success'' \<noteq> J_bool False \<and> status_ok (field kvs ''status''))"
| "check_order_resp _ = True"

text \<open>\<open>_check_cancel_resp\<close>: whether a warning is written.\<close>

fun check_cancel_resp :: "json \<Rightarrow> bool" where
  "check_cancel_resp (J_obj kvs) = (field kvs ''success'' = J_bool False \<or> truthy (field kvs ''not_canceled''))"
| "check_cancel_resp _ = False"

section \<open>Account types\<close>

definition resolve_signature_type :: "string \<Rightarrow> string \<Rightarrow> int" where
  "resolve_signature_type derived funder = (if funder \<noteq> [] \<and> lower funder \<noteq> lower derived then 1 else 2)"

text \<open>\<open>pick_funded_sig_type\<close>: a type error or a value error of \<open>int()\<close> skips the entry.\<close>

fun pick_from :: "(int \<times> json) list \<Rightarrow> int option \<Rightarrow> int \<Rightarrow> pyerr + int option" where
  "pick_from [] best bal = Inr best"
| "pick_from ((st, v) # rest) best bal =
     (case py_int v of
        Inl e \<Rightarrow> if e = Type_error \<or> e = Value_error then pick_from rest best bal else Inl e
      | Inr n \<Rightarrow> if bal < n then pick_from rest (Some st) n else pick_from rest best bal)"

definition pick_funded_sig_type :: "(int \<times> json) list \<Rightarrow> pyerr + int option" where
  "pick_funded_sig_type by_sig = pick_from by_sig None 0"

text \<open>
  \<open>balance_by_sig_types\<close>: the signature type of the shared order builder is set for each question
  and put back at the end, also after a failed one. \<open>ask st\<close> is what the exchange answers under the
  type \<open>st\<close>, or the text of the exception; \<open>str_of\<close> is Python's \<open>str\<close> on a value that is not a dict.
  The state is the type the builder has.
\<close>

fun ask_types :: "(json \<Rightarrow> string) \<Rightarrow> (int \<Rightarrow> string + json) \<Rightarrow> int list \<Rightarrow> int \<Rightarrow> (int \<times> json) list \<times> int" where
  "ask_types str_of ask [] builder = ([], builder)"
| "ask_types str_of ask (st # sts) builder =
     (let builder = st;
          v = (case ask builder of
                 Inl e \<Rightarrow> J_str (''ERR '' @ e)
               | Inr (J_obj kvs) \<Rightarrow> field kvs ''balance''
               | Inr w \<Rightarrow> J_str (str_of w));
          (out, b) = ask_types str_of ask sts builder
      in ((st, v) # out, b))"

definition balance_by_sig_types :: "(json \<Rightarrow> string) \<Rightarrow> (int \<Rightarrow> string + json) \<Rightarrow> int \<Rightarrow> (int \<times> json) list \<times> int" where
  "balance_by_sig_types str_of ask builder =
     (let orig = builder; (out, b) = ask_types str_of ask [0, 1, 2, 3] builder in (out, orig))"

section \<open>Orders\<close>

datatype order_kind = GTC | FAK | FOK

datatype order_side = Buy | Sell

record order_req =
  or_token :: string
  or_side :: order_side
  or_price :: "rat option"
  or_size :: rat
  or_kind :: order_kind
  or_post_only :: bool
  or_tick :: string
  or_neg_risk :: "bool option"

definition limit_order :: "order_side \<Rightarrow> string \<Rightarrow> rat \<Rightarrow> int \<Rightarrow> string \<Rightarrow> bool option \<Rightarrow> order_kind \<Rightarrow> bool \<Rightarrow> order_req" where
  "limit_order side token price n tick neg kind post =
     \<lparr>or_token = token, or_side = side, or_price = Some price, or_size = of_int n, or_kind = kind,
      or_post_only = post, or_tick = tick, or_neg_risk = neg\<rparr>"

text \<open>Sending an order: the answer of the exchange library (None is an exception), then the test.\<close>

definition send_order :: "(order_req \<Rightarrow> json option) \<Rightarrow> order_req \<Rightarrow> json option" where
  "send_order post req = (case post req of None \<Rightarrow> None | Some res \<Rightarrow> if check_order_resp res then Some res else None)"

definition place_limit_buy where
  "place_limit_buy post token price n tick neg = send_order post (limit_order Buy token price n tick neg GTC False)"

definition place_limit_sell where
  "place_limit_sell post token price n tick neg kind post_only =
     send_order post (limit_order Sell token price n tick neg kind post_only)"

definition place_market_sell where
  "place_market_sell post token n tick neg =
     send_order post ((limit_order Sell token 0 n tick neg FAK False)\<lparr>or_price := None\<rparr>)"

definition place_marketable_limit_sell where
  "place_marketable_limit_sell post token price n tick neg =
     send_order post (limit_order Sell token price n tick neg FAK False)"

definition place_fok_buy where
  "place_fok_buy post token price n tick neg = send_order post (limit_order Buy token price n tick neg FOK False)"

section \<open>Order books in batches\<close>

fun batches :: "nat \<Rightarrow> 'a list \<Rightarrow> 'a list list" where
  "batches n xs = (if n = 0 \<or> xs = [] then [] else take n xs # batches n (drop n xs))"

declare batches.simps [simp del]

definition books_batch_size :: nat where
  "books_batch_size = 100"

text \<open>
  One batch: the books of the answer by their \<open>asset_id\<close>, a later one in the place of an earlier one,
  looked up for each token asked for. \<open>None\<close> is the token without a book.
\<close>

definition batch_books :: "(string \<times> 'b) list \<Rightarrow> string list \<Rightarrow> (string \<rightharpoonup> 'b option) \<Rightarrow> (string \<rightharpoonup> 'b option)" where
  "batch_books resp tokens out = out ++ (\<lambda>t. if t \<in> set tokens then Some (map_of (rev resp) t) else None)"

fun books_from :: "(string option \<Rightarrow> string list \<Rightarrow> nat \<Rightarrow> (string \<times> 'b) list attempt) \<Rightarrow> string list list \<Rightarrow>
    (string \<rightharpoonup> 'b option) \<Rightarrow> (string list, string \<rightharpoonup> 'b option) net" where
  "books_from answer [] out = ret out"
| "books_from answer (c # cs) out =
     chain (http_request answer c) (\<lambda>r. books_from answer cs (case r of Reply resp \<Rightarrow> batch_books resp c out | _ \<Rightarrow> out))"

definition get_orderbooks :: "(string option \<Rightarrow> string list \<Rightarrow> nat \<Rightarrow> (string \<times> 'b) list attempt) \<Rightarrow> string list \<Rightarrow>
    (string list, string \<rightharpoonup> 'b option) net" where
  "get_orderbooks answer tokens =
     books_from answer (batches books_batch_size tokens) (\<lambda>t. if t \<in> set tokens then Some None else None)"

section \<open>Pages\<close>

text \<open>
  \<open>get_activity\<close>: pages of 500 rows by offset. \<open>Inl\<close> in a page is a body that is not a list; the
  result None is an exception of a request.
\<close>

function activity_from :: "(string option \<Rightarrow> nat \<Rightarrow> nat \<Rightarrow> 'r list option attempt) \<Rightarrow> nat \<Rightarrow> 'r list \<Rightarrow> (nat, 'r list option) net" where
  "activity_from answer offset out =
     chain (http_request answer offset) (\<lambda>r.
       case r of
         Reply (Some page) \<Rightarrow>
           if page = [] then ret (Some out)
           else if length page < 500 \<or> 10000 \<le> offset + 500 then ret (Some (out @ page))
           else activity_from answer (offset + 500) (out @ page)
       | Reply None \<Rightarrow> ret (Some out)
       | _ \<Rightarrow> ret None)"
  by pat_completeness auto
termination
  by (relation "measure (\<lambda>(a, offset, out). 10000 - offset)") auto

declare activity_from.simps [simp del]

definition get_activity :: "(string option \<Rightarrow> nat \<Rightarrow> nat \<Rightarrow> 'r list option attempt) \<Rightarrow> (nat, 'r list option) net" where
  "get_activity answer = activity_from answer 0 []"

text \<open>A page of rewards: the items and \<open>next_cursor\<close>, \<open>LTE=\<close> when the field is missing.\<close>

record 'm rpage =
  rp_items :: "'m list"
  rp_next :: string

definition last_cursor :: string where
  "last_cursor = ''LTE=''"

definition last_page :: "'m rpage \<Rightarrow> bool" where
  "last_page pg \<longleftrightarrow> rp_next pg = last_cursor \<or> rp_items pg = []"

text \<open>\<open>get_rewards_markets\<close>: each page is tried three times; a request is the cursor and the number of the try.\<close>

fun page_tries :: "(string option \<Rightarrow> string \<times> nat \<Rightarrow> nat \<Rightarrow> 'p attempt) \<Rightarrow> string \<Rightarrow> nat \<Rightarrow> nat \<Rightarrow> (string \<times> nat, 'p option) net" where
  "page_tries answer cursor k 0 = ret None"
| "page_tries answer cursor k (Suc n) =
     chain (http_request answer (cursor, k)) (\<lambda>r. case r of Reply pg \<Rightarrow> ret (Some pg) | _ \<Rightarrow> page_tries answer cursor (k + 1) n)"

function markets_from :: "(string option \<Rightarrow> string \<times> nat \<Rightarrow> nat \<Rightarrow> 'm rpage attempt) \<Rightarrow> int \<Rightarrow> int \<Rightarrow> string \<Rightarrow> 'm list \<Rightarrow>
    (string \<times> nat, 'm list) net" where
  "markets_from answer max_pages page cursor out =
     chain (page_tries answer cursor 0 3) (\<lambda>r.
       case r of
         None \<Rightarrow> ret out
       | Some pg \<Rightarrow>
           if last_page pg \<or> max_pages \<le> page then ret (out @ rp_items pg)
           else markets_from answer max_pages (page + 1) (rp_next pg) (out @ rp_items pg))"
  by pat_completeness auto
termination
  by (relation "measure (\<lambda>(a, m, page, c, out). nat (m - page))") auto

declare markets_from.simps [simp del]

definition get_rewards_markets :: "(string option \<Rightarrow> string \<times> nat \<Rightarrow> nat \<Rightarrow> 'm rpage attempt) \<Rightarrow> int \<Rightarrow> (string \<times> nat, 'm list) net" where
  "get_rewards_markets answer max_pages = markets_from answer max_pages 1 [] []"

text \<open>
  \<open>get_rewards_current\<close> and \<open>get_rewards_for_market\<close> follow the cursors without a bound: the loop
  returns only when the service ends the chain. \<open>fetch cursor k\<close> is the outcome of the \<open>k\<close>-th
  request; after a failed one the first keeps what it has, the second returns nothing.
\<close>

partial_function (option) pages_from :: "bool \<Rightarrow> (string \<Rightarrow> nat \<Rightarrow> 'm rpage option) \<Rightarrow> string \<Rightarrow> nat \<Rightarrow> 'm list \<Rightarrow> 'm list option" where
  "pages_from keep fetch cursor k out =
     (case fetch cursor k of
        None \<Rightarrow> Some (if keep then out else [])
      | Some pg \<Rightarrow>
          if last_page pg then Some (out @ rp_items pg)
          else pages_from keep fetch (rp_next pg) (k + 1) (out @ rp_items pg))"

definition get_rewards_current :: "(string \<Rightarrow> nat \<Rightarrow> 'm rpage option) \<Rightarrow> 'm list option" where
  "get_rewards_current fetch = pages_from True fetch [] 0 []"

definition get_rewards_for_market :: "(string \<Rightarrow> nat \<Rightarrow> 'm rpage option) \<Rightarrow> 'm list option" where
  "get_rewards_for_market fetch = pages_from False fetch [] 0 []"

section \<open>Single requests\<close>

text \<open>\<open>get_user_positions\<close>: a body that is not a list counts as no positions; None is an exception.\<close>

definition get_user_positions :: "(string option \<Rightarrow> string \<Rightarrow> nat \<Rightarrow> 'r list option attempt) \<Rightarrow> string \<Rightarrow> (string, 'r list option) net" where
  "get_user_positions answer user =
     chain (http_request answer user) (\<lambda>r. ret (case r of Reply (Some rows) \<Rightarrow> Some rows | Reply None \<Rightarrow> Some [] | _ \<Rightarrow> None))"

definition get_balance :: "json option \<Rightarrow> (pyerr + flt) option" where
  "get_balance ans = (case ans of
     None \<Rightarrow> None
   | Some (J_obj kvs) \<Rightarrow> Some (case py_float (case map_of kvs ''balance'' of None \<Rightarrow> J_int 0 | Some v \<Rightarrow> v) of
       Inr (Fin x) \<Rightarrow> Inr (Fin (x / 10 ^ 6)) | r \<Rightarrow> r)
   | Some _ \<Rightarrow> Some (Inr (Fin 0)))"

definition are_orders_scoring :: "(string list \<Rightarrow> (string \<rightharpoonup> bool) option) \<Rightarrow> string list \<Rightarrow> (string \<rightharpoonup> bool) option" where
  "are_orders_scoring ask ids = (if ids = [] then Some Map.empty else ask ids)"

text \<open>Withdrawals: the answer of the exchange is returned as it is, also one that says nothing was withdrawn; the second component
  is whether a warning is logged. None is an exception.\<close>

datatype cancel_call = Cancel_one string | Cancel_these "string list" | Cancel_everything

definition send_cancel :: "(cancel_call \<Rightarrow> json option) \<Rightarrow> cancel_call \<Rightarrow> (json \<times> bool) option" where
  "send_cancel post c = map_option (\<lambda>r. (r, check_cancel_resp r)) (post c)"

definition cancel_order :: "(cancel_call \<Rightarrow> json option) \<Rightarrow> string \<Rightarrow> (json \<times> bool) option" where
  "cancel_order post i = send_cancel post (Cancel_one i)"

definition cancel_orders :: "(cancel_call \<Rightarrow> json option) \<Rightarrow> string list \<Rightarrow> (json \<times> bool) option" where
  "cancel_orders post ids = send_cancel post (Cancel_these ids)"

definition cancel_all_orders :: "(cancel_call \<Rightarrow> json option) \<Rightarrow> (json \<times> bool) option" where
  "cancel_all_orders post = send_cancel post Cancel_everything"

definition get_neg_risk :: "json option \<Rightarrow> bool option" where
  "get_neg_risk ans = map_option truthy ans"

text \<open>The condition ids asked for: once each, in order, without the empty one.\<close>

fun unique_ids :: "string set \<Rightarrow> string list \<Rightarrow> string list" where
  "unique_ids seen [] = []"
| "unique_ids seen (c # cs) = (if c = [] \<or> c \<in> seen then unique_ids seen cs else c # unique_ids (insert c seen) cs)"

record gamma_market =
  gm_cid :: string
  gm_name :: string
  gm_slug :: string
  gm_event_slugs :: "string list"
  gm_uma :: "string option"

text \<open>
  A request that fails gives no statuses at all (\<open>ask\<close> yields None); a response whose body is not JSON
  (\<open>Some None\<close>) raises, the result None.
\<close>

definition gamma_resolution_status :: "(string list \<Rightarrow> gamma_market list option option) \<Rightarrow> string list \<Rightarrow> (string \<rightharpoonup> string option) option" where
  "gamma_resolution_status ask cids =
     (let ids = unique_ids {} cids in
      if ids = [] then Some Map.empty
      else case ask ids of
        None \<Rightarrow> Some Map.empty
      | Some None \<Rightarrow> None
      | Some (Some rows) \<Rightarrow> Some (map_of (rev (map (\<lambda>m. (gm_cid m, gm_uma m)) (filter (\<lambda>m. gm_cid m \<noteq> []) rows)))))"

text \<open>Names and slugs; None is an exception for the caller to handle.\<close>

definition gamma_markets_by_condition ::
    "(string list \<Rightarrow> gamma_market list option) \<Rightarrow> string list \<Rightarrow> (string \<rightharpoonup> string \<times> string \<times> string) option" where
  "gamma_markets_by_condition ask cids =
     (let ids = unique_ids {} cids in
      if ids = [] then Some Map.empty
      else case ask ids of
        None \<Rightarrow> None
      | Some rows \<Rightarrow> Some (map_of (rev (map (\<lambda>m. (gm_cid m, gm_name m, gm_slug m, case gm_event_slugs m of [] \<Rightarrow> [] | s # ss \<Rightarrow> s))
          (filter (\<lambda>m. gm_cid m \<noteq> []) rows)))))"

section \<open>Merging\<close>

text \<open>
  The transactions of one merge go to the relayer as one batch, the approval before the merge.
  \<open>encode\<close> is the ABI encoder; None is an exception, from building the merge or from the relayer.
\<close>

definition merge_transactions :: "(abi_args \<Rightarrow> string) \<Rightarrow> string \<Rightarrow> rat option \<Rightarrow> bool \<Rightarrow> bool \<Rightarrow> tx list option" where
  "merge_transactions encode cid amount neg_risk approval =
     (case build_merge_transaction encode cid amount neg_risk of
        None \<Rightarrow> None
      | Some m \<Rightarrow> Some ((if approval then [build_adapter_approval_transaction encode neg_risk] else []) @ [m]))"

definition merge_positions :: "(abi_args \<Rightarrow> string) \<Rightarrow> (tx list \<Rightarrow> 'r option) \<Rightarrow> bool \<Rightarrow> string \<Rightarrow> rat option \<Rightarrow> bool \<Rightarrow> bool \<Rightarrow> 'r option" where
  "merge_positions encode execute configured cid amount neg_risk approval =
     (case merge_transactions encode cid amount neg_risk approval of
        None \<Rightarrow> None
      | Some txs \<Rightarrow> if configured then execute txs else None)"

section \<open>Account type\<close>

definition readable_below :: "(int \<times> json) list \<Rightarrow> int \<Rightarrow> bool" where
  "readable_below by_sig n \<longleftrightarrow> (\<forall>(st, v)\<in>set by_sig. \<forall>k. py_int v = Inr k \<longrightarrow> k \<le> n)"

lemma readable_below_simps [simp]:
  "readable_below [] n"
  "readable_below ((st, v) # by_sig) n \<longleftrightarrow> (\<forall>k. py_int v = Inr k \<longrightarrow> k \<le> n) \<and> readable_below by_sig n"
  by (simp_all add: readable_below_def)

lemma pick_from_spec:
  "pick_from by_sig best bal = Inr res \<Longrightarrow>
     (res = best \<and> readable_below by_sig bal) \<or>
     (\<exists>st v n. (st, v) \<in> set by_sig \<and> res = Some st \<and> py_int v = Inr n \<and> bal < n \<and> readable_below by_sig n)"
proof (induction by_sig best bal rule: pick_from.induct)
  case (2 st v rest best bal)
  show ?case
  proof (cases "py_int v")
    case (Inl e)
    with 2(4) have "e = Type_error \<or> e = Value_error" and "pick_from rest best bal = Inr res"
      by (simp_all split: if_splits)
    from 2(1) [OF Inl this] show ?thesis
      using Inl by auto
  next
    case (Inr n)
    show ?thesis
    proof (cases "bal < n")
      case True
      with Inr 2(4) have "pick_from rest (Some st) n = Inr res" by simp
      from 2(2) [OF Inr True this] show ?thesis
      proof
        assume "res = Some st \<and> readable_below rest n"
        with Inr True show ?thesis
          by (intro disjI2 exI [of _ st] exI [of _ v] exI [of _ n]) simp
      next
        assume "\<exists>st' v' n'. (st', v') \<in> set rest \<and> res = Some st' \<and> py_int v' = Inr n' \<and> n < n' \<and> readable_below rest n'"
        then obtain st' v' n' where "(st', v') \<in> set rest" "res = Some st'" "py_int v' = Inr n'" "n < n'" "readable_below rest n'"
          by blast
        with Inr True show ?thesis
          by (intro disjI2 exI [of _ st'] exI [of _ v'] exI [of _ n']) simp
      qed
    next
      case False
      with Inr 2(4) have "pick_from rest best bal = Inr res" by simp
      from 2(3) [OF Inr False this] show ?thesis
      proof
        assume "res = best \<and> readable_below rest bal"
        with Inr False show ?thesis by simp
      next
        assume "\<exists>st' v' n'. (st', v') \<in> set rest \<and> res = Some st' \<and> py_int v' = Inr n' \<and> bal < n' \<and> readable_below rest n'"
        then obtain st' v' n' where "(st', v') \<in> set rest" "res = Some st'" "py_int v' = Inr n'" "bal < n'" "readable_below rest n'"
          by blast
        with Inr False show ?thesis
          by (intro disjI2 exI [of _ st'] exI [of _ v'] exI [of _ n']) simp
      qed
    qed
  qed
qed simp

text \<open>The account type chosen on import is the one that holds the most collateral. It is none only when
  no balance that can be read is positive; balances that cannot be read never decide.\<close>

theorem pick_funded_max:
  assumes "pick_funded_sig_type by_sig = Inr res"
  shows "case res of
      None \<Rightarrow> (\<forall>(st, v)\<in>set by_sig. \<forall>n. py_int v = Inr n \<longrightarrow> n \<le> 0)
    | Some st \<Rightarrow> (\<exists>v n. (st, v) \<in> set by_sig \<and> py_int v = Inr n \<and> 0 < n \<and>
        (\<forall>(st', v')\<in>set by_sig. \<forall>n'. py_int v' = Inr n' \<longrightarrow> n' \<le> n))"
  using pick_from_spec [of by_sig None 0 res] assms
  unfolding pick_funded_sig_type_def readable_below_def by (cases res) auto

section \<open>Order books\<close>

lemma batches_facts: "0 < n \<Longrightarrow> concat (batches n xs) = xs \<and> (\<forall>c\<in>set (batches n xs). c \<noteq> [] \<and> length c \<le> n)"
proof (induction n xs rule: batches.induct)
  case (1 n xs)
  then show ?case
    by (cases "xs = []") (simp_all add: batches.simps [of n xs] batches.simps [of n "[]"])
qed

definition outcome_of :: "(string option \<Rightarrow> 'q \<Rightarrow> nat \<Rightarrow> 'a attempt) \<Rightarrow> string option \<Rightarrow> 'q \<Rightarrow> 'a attempt" where
  "outcome_of answer p q = fst (retry_connect (answer p q) 3 0)"

lemma http_request_fst [simp]: "fst (http_request answer q p) = outcome_of answer p q"
  by (simp add: http_request_def outcome_of_def split_beta)

lemma chain_fst [simp]: "fst (chain m f p) = fst (f (fst (m p)) p)"
  by (simp add: chain_def split_beta)

lemma ret_fst [simp]: "fst (ret x p) = x"
  by (simp add: ret_def)

lemma batch_books_dom: "set c \<subseteq> dom out \<Longrightarrow> dom (batch_books resp c out) = dom out"
  by (auto simp: batch_books_def dom_def map_add_def)

lemma books_from_dom: "set (concat cs) \<subseteq> dom out \<Longrightarrow> dom (fst (books_from answer cs out p)) = dom out"
proof (induction cs arbitrary: out)
  case (Cons c cs)
  let ?out = "case outcome_of answer p c of Reply resp \<Rightarrow> batch_books resp c out | _ \<Rightarrow> out"
  have "dom ?out = dom out"
    using Cons.prems by (cases "outcome_of answer p c") (simp_all add: batch_books_dom)
  with Cons show ?case by simp
qed simp

lemma books_from_found:
  "fst (books_from answer cs out p) t = Some (Some b) \<Longrightarrow> out t \<noteq> Some (Some b) \<Longrightarrow>
     \<exists>c\<in>set cs. t \<in> set c \<and> (\<exists>resp. outcome_of answer p c = Reply resp \<and> map_of (rev resp) t = Some b)"
proof (induction cs arbitrary: out)
  case (Cons c cs)
  let ?out = "case outcome_of answer p c of Reply resp \<Rightarrow> batch_books resp c out | _ \<Rightarrow> out"
  show ?case
  proof (cases "?out t = Some (Some b)")
    case True
    with Cons.prems(2) show ?thesis
      by (auto simp: batch_books_def map_add_def split: attempt.splits if_splits)
  next
    case False
    with Cons.IH [of ?out] Cons.prems(1) show ?thesis by auto
  qed
qed simp

lemma books_from_kept: "t \<notin> set (concat cs) \<Longrightarrow> fst (books_from answer cs out p) t = out t"
  by (induction cs arbitrary: out) (auto simp: batch_books_def map_add_def split: attempt.splits)

lemma books_from_batch:
  "distinct (concat cs) \<Longrightarrow> c \<in> set cs \<Longrightarrow> t \<in> set c \<Longrightarrow>
     fst (books_from answer cs out p) t =
       (case outcome_of answer p c of Reply resp \<Rightarrow> Some (map_of (rev resp) t) | _ \<Rightarrow> out t)"
proof (induction cs arbitrary: out)
  case (Cons d cs)
  show ?case
  proof (cases "t \<in> set d")
    case True
    with Cons.prems have "t \<notin> set (concat cs)" and "c = d"
      by auto
    with True show ?thesis
      by (auto simp: books_from_kept batch_books_def map_add_def split: attempt.split)
  next
    case False
    with Cons.prems have "c \<in> set cs" by auto
    with Cons False show ?thesis
      by (auto simp: batch_books_def map_add_def split: attempt.split)
  qed
qed simp

text \<open>Every order book is filed under the token it belongs to. The result has exactly the tokens asked for; a
  book found under a token came with this very token in the answer to a batch that asked for it,
  whatever the answer left out; and, for distinct tokens, a batch that failed loses the books of its
  own tokens only.\<close>

theorem get_orderbooks_aligned:
  fixes answer :: "string option \<Rightarrow> string list \<Rightarrow> nat \<Rightarrow> (string \<times> 'b) list attempt"
  defines "res \<equiv> \<lambda>tokens p. fst (get_orderbooks answer tokens p)"
  shows "dom (res tokens p) = set tokens \<and>
    (res tokens p t = Some (Some b) \<longrightarrow>
       (\<exists>c\<in>set (batches books_batch_size tokens). t \<in> set c \<and> (\<exists>resp. outcome_of answer p c = Reply resp \<and> (t, b) \<in> set resp))) \<and>
    (distinct tokens \<and> c \<in> set (batches books_batch_size tokens) \<and> t \<in> set c \<longrightarrow>
       res tokens p t = (case outcome_of answer p c of Reply resp \<Rightarrow> Some (map_of (rev resp) t) | _ \<Rightarrow> Some None))"
proof (intro conjI impI)
  let ?cs = "batches books_batch_size tokens" and ?none = "\<lambda>t. if t \<in> set tokens then Some None else None"
  have all: "concat ?cs = tokens"
    using batches_facts [of books_batch_size tokens] by (simp add: books_batch_size_def)
  have dom: "dom ?none = set tokens" by (auto split: if_splits)
  show "dom (res tokens p) = set tokens"
    unfolding res_def get_orderbooks_def using books_from_dom [of ?cs ?none answer p] unfolding dom all by simp
  show "\<exists>c\<in>set ?cs. t \<in> set c \<and> (\<exists>resp. outcome_of answer p c = Reply resp \<and> (t, b) \<in> set resp)"
    if "res tokens p t = Some (Some b)"
  proof -
    have "?none t \<noteq> Some (Some b)" by simp
    from books_from_found [OF that [unfolded res_def get_orderbooks_def] this] show ?thesis
      by (auto dest!: map_of_SomeD)
  qed
  show "res tokens p t = (case outcome_of answer p c of Reply resp \<Rightarrow> Some (map_of (rev resp) t) | _ \<Rightarrow> Some None)"
    if "distinct tokens \<and> c \<in> set ?cs \<and> t \<in> set c"
  proof -
    have "t \<in> set tokens"
      using that arg_cong [OF all, of set] by auto
    moreover have "distinct (concat ?cs)" and "c \<in> set ?cs" and "t \<in> set c"
      using that all by simp_all
    from books_from_batch [OF this, of answer ?none p] show ?thesis
      using calculation unfolding res_def get_orderbooks_def by (simp split: attempt.split)
  qed
qed

section \<open>Activity\<close>

lemma activity_slices:
  assumes "\<And>off. outcome_of answer p off = Reply (Some (take 500 (drop off rows)))"
  shows "500 dvd off \<Longrightarrow> off \<le> 9500 \<Longrightarrow>
    fst (activity_from answer off out p) = Some (out @ take (10000 - off) (drop off rows))"
proof (induction "10000 - off" arbitrary: off out rule: less_induct)
  case less
  let ?page = "take 500 (drop off rows)"
  have step: "fst (activity_from answer off out p) =
      (if ?page = [] then Some out
       else if length ?page < 500 \<or> 10000 \<le> off + 500 then Some (out @ ?page)
       else fst (activity_from answer (off + 500) (out @ ?page) p))"
    by (subst activity_from.simps) (simp add: assms)
  consider (none) "?page = []" | (short) "?page \<noteq> []" "length ?page < 500" | (bound) "?page \<noteq> []" "off = 9500"
    | (more) "?page \<noteq> []" "\<not> length ?page < 500" "off \<noteq> 9500"
    by blast
  then show ?case
  proof cases
    case none
    then show ?thesis unfolding step by auto
  next
    case short
    then have "length (drop off rows) < 500" by auto
    with short show ?thesis unfolding step using less.prems(2) by simp
  next
    case bound
    then show ?thesis unfolding step by simp
  next
    case more
    have ahead: "500 dvd off + 500" "off + 500 \<le> 9500"
      using less.prems more(3) by (auto elim!: dvdE)
    have "fst (activity_from answer (off + 500) (out @ ?page) p) =
        Some ((out @ ?page) @ take (10000 - (off + 500)) (drop (off + 500) rows))"
      using less.hyps [OF _ ahead] less.prems ahead by simp
    moreover have "take (10000 - off) (drop off rows) = ?page @ take (10000 - (off + 500)) (drop (off + 500) rows)"
      using ahead take_add [of 500 "10000 - (off + 500)" "drop off rows"] by (simp add: add.commute)
    ultimately show ?thesis
      unfolding step using more ahead by simp
  qed
qed

text \<open>The activity of a wallet is read completely. When the service answers every offset with its slice of
  the rows, all pages together are the rows, in order, up to the ten thousand the service
  can be asked for.\<close>

theorem get_activity_complete:
  assumes "\<And>off. outcome_of answer p off = Reply (Some (take 500 (drop off rows)))"
  shows "fst (get_activity answer p) = Some (take 10000 rows)"
  unfolding get_activity_def using activity_slices [OF assms, of 0 "[]"] by simp

section \<open>Rewards\<close>

text \<open>The rows of a chain of pages that the service ends itself.\<close>

inductive whole_chain :: "(string \<Rightarrow> nat \<Rightarrow> 'm rpage option) \<Rightarrow> string \<Rightarrow> nat \<Rightarrow> 'm list \<Rightarrow> bool" for fetch where
  ends: "fetch cursor k = Some pg \<Longrightarrow> last_page pg \<Longrightarrow> whole_chain fetch cursor k (rp_items pg)"
| goes_on: "fetch cursor k = Some pg \<Longrightarrow> \<not> last_page pg \<Longrightarrow> whole_chain fetch (rp_next pg) (k + 1) rows \<Longrightarrow>
    whole_chain fetch cursor k (rp_items pg @ rows)"

inductive broken_chain :: "(string \<Rightarrow> nat \<Rightarrow> 'm rpage option) \<Rightarrow> string \<Rightarrow> nat \<Rightarrow> bool" for fetch where
  fails: "fetch cursor k = None \<Longrightarrow> broken_chain fetch cursor k"
| later: "fetch cursor k = Some pg \<Longrightarrow> \<not> last_page pg \<Longrightarrow> broken_chain fetch (rp_next pg) (k + 1) \<Longrightarrow> broken_chain fetch cursor k"

lemma pages_from_whole: "whole_chain fetch cursor k rows \<Longrightarrow> pages_from keep fetch cursor k out = Some (out @ rows)"
proof (induction arbitrary: out rule: whole_chain.induct)
  case (ends cursor k pg)
  then show ?case by (subst pages_from.simps) simp
next
  case (goes_on cursor k pg rows)
  then show ?case by (subst pages_from.simps) simp
qed

lemma pages_from_broken: "broken_chain fetch cursor k \<Longrightarrow> pages_from False fetch cursor k out = Some []"
proof (induction arbitrary: out rule: broken_chain.induct)
  case (fails cursor k)
  then show ?case by (subst pages_from.simps) simp
next
  case (later cursor k pg)
  then show ?case by (subst pages_from.simps) simp
qed

lemma pages_from_result:
  assumes "pages_from keep fetch cursor k out = Some res"
  shows "\<not> keep \<longrightarrow> res = [] \<and> broken_chain fetch cursor k \<or> (\<exists>rows. whole_chain fetch cursor k rows \<and> res = out @ rows)"
proof (rule pages_from.raw_induct [where P = "\<lambda>keep fetch cursor k out res. \<not> keep \<longrightarrow>
      res = [] \<and> broken_chain fetch cursor k \<or> (\<exists>rows. whole_chain fetch cursor k rows \<and> res = out @ rows)", OF _ assms], goal_cases)
  case (1 rec keep fetch cursor k out res)
  show ?case
  proof (cases "fetch cursor k")
    case None
    with 1(2) show ?thesis by (auto intro: fails)
  next
    case (Some pg)
    show ?thesis
    proof (cases "last_page pg")
      case True
      with Some 1(2) show ?thesis by (auto intro: ends)
    next
      case False
      with Some 1(2) have "rec keep fetch (rp_next pg) (k + 1) (out @ rp_items pg) = Some res" by simp
      note IH = 1(1) [OF this]
      show ?thesis
      proof
        assume "\<not> keep"
        with IH consider "res = []" "broken_chain fetch (rp_next pg) (k + 1)"
          | rows where "whole_chain fetch (rp_next pg) (k + 1) rows" "res = (out @ rp_items pg) @ rows"
          by blast
        then show "res = [] \<and> broken_chain fetch cursor k \<or> (\<exists>rows. whole_chain fetch cursor k rows \<and> res = out @ rows)"
        proof cases
          case 1
          with later [of fetch cursor k pg] Some False show ?thesis by blast
        next
          case (2 rows)
          from goes_on [of fetch cursor k pg rows] Some False 2 show ?thesis
            by (intro disjI2 exI [of _ "rp_items pg @ rows"]) simp
        qed
      qed
    qed
  qed
qed

text \<open>The rewards of a market are read whole or not at all. When the service ends the chain of pages, the
  loop returns with all its rows; when a request fails on any page, it returns with nothing, never
  with the pages it already has; and these are the only ways it returns.\<close>

theorem rewards_whole_or_nothing:
  "(whole_chain fetch [] 0 rows \<longrightarrow> get_rewards_for_market fetch = Some rows) \<and>
   (broken_chain fetch [] 0 \<longrightarrow> get_rewards_for_market fetch = Some []) \<and>
   (get_rewards_for_market fetch = Some res \<longrightarrow> res = [] \<or> whole_chain fetch [] 0 res)"
  using pages_from_whole [of fetch "[]" 0 rows False "[]"] pages_from_broken [of fetch "[]" 0 "[]"]
    pages_from_result [of False fetch "[]" 0 "[]" res]
  by (auto simp: get_rewards_for_market_def)

section \<open>The way out of a wallet's requests\<close>

lemma books_ambient [intro]: "ambient (books_from answer cs out)"
  by (induction cs arbitrary: out) auto

lemma activity_ambient [intro]: "ambient (activity_from answer off out)"
proof (induction answer off out rule: activity_from.induct)
  case (1 answer off out)
  show ?case
    by (subst activity_from.simps) (auto intro!: ambient_chain 1 split: attempt.split option.split)
qed

lemma page_tries_ambient [intro]: "ambient (page_tries answer cursor k n)"
  by (induction n arbitrary: k) (auto split: attempt.split)

lemma markets_ambient [intro]: "ambient (markets_from answer m page cursor out)"
proof (induction answer m page cursor out rule: markets_from.induct)
  case (1 answer m page cursor out)
  show ?case
    by (subst markets_from.simps) (auto intro!: ambient_chain 1 split: option.split)
qed

text \<open>The requests of a wallet leave through the wallet's proxy, from whatever context they are made:
  order books, positions and activity, with all their batches, pages and retries, and the
  reward lists fetched by worker threads during a scan; and over any sequence of calls the exchange
  library is given, for each one, a client made for the proxy current at that call.\<close>

theorem wallet_traffic_on_its_proxy:
  "(x \<in> set (snd (use_proxy q (get_orderbooks books tokens) p)) \<longrightarrow> fst x = q) \<and>
   (y \<in> set (snd (use_proxy q (get_activity acts) p)) \<longrightarrow> fst y = q) \<and>
   (z \<in> set (snd (use_proxy q (get_user_positions held user) p)) \<longrightarrow> fst z = q) \<and>
   (w \<in> set (snd (use_proxy q (parallel_map (\<lambda>slug. get_rewards_markets (rewards slug) n) slugs) p)) \<longrightarrow> fst w = q) \<and>
   dispatch ps new_dispatcher = ps"
proof (intro conjI impI)
  show "fst x = q" if "x \<in> set (snd (use_proxy q (get_orderbooks books tokens) p))"
    by (rule use_proxy_sends [OF _ that]) (auto simp: get_orderbooks_def)
  show "fst y = q" if "y \<in> set (snd (use_proxy q (get_activity acts) p))"
    by (rule use_proxy_sends [OF _ that]) (auto simp: get_activity_def)
  show "fst z = q" if "z \<in> set (snd (use_proxy q (get_user_positions held user) p))"
    by (rule use_proxy_sends [OF _ that]) (auto simp: get_user_positions_def)
  show "fst w = q" if "w \<in> set (snd (use_proxy q (parallel_map (\<lambda>slug. get_rewards_markets (rewards slug) n) slugs) p))"
    by (rule use_proxy_sends [OF _ that]) (auto simp: get_rewards_markets_def)
qed simp

section \<open>Witnesses\<close>

lemma outcome_first: "answer p q 0 = Reply x \<Longrightarrow> outcome_of answer p q = Reply x"
  by (simp add: outcome_of_def numeral_3_eq_3)

lemma pick_funded_max_witness:
  "pick_funded_sig_type [(0, J_str ''7''), (1, J_str ''x''), (2, J_int 9), (3, J_null)] = Inr (Some 2) \<and> (2, J_int 9) \<in> set [(2::int, J_int 9)]"
proof -
  have p: "pick_funded_sig_type [(0, J_str ''7''), (1, J_str ''x''), (2, J_int 9), (3, J_null)] = Inr (Some 2)"
    by code_simp
  from pick_funded_max [OF p] have "\<exists>v n. (2::int, v) \<in> set [(0, J_str ''7''), (1, J_str ''x''), (2, J_int 9), (3, J_null)] \<and> py_int v = Inr n \<and> 0 < n"
    by (simp only: option.case) blast
  with p show ?thesis by simp
qed

definition demo_books :: "string option \<Rightarrow> string list \<Rightarrow> nat \<Rightarrow> (string \<times> nat) list attempt" where
  "demo_books via tokens i = (if i = 0 then No_connection else Reply [(''c'', 3), (''a'', 1)])"

lemma get_orderbooks_witness:
  "distinct [''a'', ''b'', ''c''] \<and> [''a'', ''b'', ''c''] \<in> set (batches books_batch_size [''a'', ''b'', ''c'']) \<and>
   fst (get_orderbooks demo_books [''a'', ''b'', ''c''] None) ''c'' = Some (Some 3) \<and>
   fst (get_orderbooks demo_books [''a'', ''b'', ''c''] None) ''b'' = Some None"
proof -
  have b: "batches books_batch_size [''a'', ''b'', ''c''] = [[''a'', ''b'', ''c'']]"
    by (simp add: batches.simps books_batch_size_def)
  have "outcome_of demo_books None [''a'', ''b'', ''c''] = Reply [(''c'', 3), (''a'', 1)]"
    by (simp add: outcome_of_def demo_books_def numeral_3_eq_3)
  then have ans: "outcome_of demo_books None [''a'', ''b'', ''c''] = Reply [(''c'', 3), (''a'', 1)]" .
  have "fst (get_orderbooks demo_books [''a'', ''b'', ''c''] None) t = Some (map_of (rev [(''c'', 3), (''a'', 1)]) t)"
    if "t \<in> set [''a'', ''b'', ''c'']" for t
    using get_orderbooks_aligned [of demo_books "[''a'', ''b'', ''c'']" None t _ "[''a'', ''b'', ''c'']"] that b ans by force
  from this [of "''c''"] this [of "''b''"] b show ?thesis by simp
qed

definition demo_activity :: "string option \<Rightarrow> nat \<Rightarrow> nat \<Rightarrow> nat list option attempt" where
  "demo_activity via off i = Reply (Some (take 500 (drop off [0..<700])))"

lemma get_activity_witness: "fst (get_activity demo_activity None) = Some [0..<700]"
proof -
  have "outcome_of demo_activity None off = Reply (Some (take 500 (drop off [0..<700])))" for off
    by (rule outcome_first) (simp add: demo_activity_def)
  from get_activity_complete [of demo_activity None, OF this] show ?thesis by (simp only: take_all length_upt)
qed

definition demo_pages :: "string \<Rightarrow> nat \<Rightarrow> nat rpage option" where
  "demo_pages cursor k = (if cursor = [] then Some \<lparr>rp_items = [1], rp_next = ''x''\<rparr>
     else Some \<lparr>rp_items = [2], rp_next = last_cursor\<rparr>)"

definition broken_pages :: "string \<Rightarrow> nat \<Rightarrow> nat rpage option" where
  "broken_pages cursor k = (if cursor = [] then Some \<lparr>rp_items = [1], rp_next = ''x''\<rparr> else None)"

lemma rewards_witness:
  "get_rewards_for_market demo_pages = Some [1, 2] \<and> get_rewards_for_market broken_pages = Some []"
proof -
  have "whole_chain demo_pages [] 0 ([1] @ [2])"
    using goes_on [of demo_pages "[]" 0 "\<lparr>rp_items = [1], rp_next = ''x''\<rparr>" "[2]"] ends [of demo_pages "''x''" 1 "\<lparr>rp_items = [2], rp_next = last_cursor\<rparr>"]
    by (simp add: demo_pages_def last_page_def last_cursor_def)
  moreover have "broken_chain broken_pages [] 0"
    using later [of broken_pages "[]" 0 "\<lparr>rp_items = [1], rp_next = ''x''\<rparr>"] fails [of broken_pages "''x''" 1]
    by (simp add: broken_pages_def last_page_def last_cursor_def)
  ultimately show ?thesis
    using rewards_whole_or_nothing [of demo_pages "[1, 2]"] rewards_whole_or_nothing [of broken_pages] by simp
qed

lemma wallet_traffic_witness:
  "(Some ''u'', [''a'']) \<in> set (snd (use_proxy (Some ''u'') (get_orderbooks demo_books [''a'']) None)) \<and> fst (Some ''u'', [''a'']) = Some ''u''"
proof -
  have m: "(Some ''u'', [''a'']) \<in> set (snd (use_proxy (Some ''u'') (get_orderbooks demo_books [''a'']) None))"
    by (simp add: use_proxy_def get_orderbooks_def batches.simps books_batch_size_def chain_def http_request_def demo_books_def numeral_3_eq_3 ret_def)
  then show ?thesis
    using wallet_traffic_on_its_proxy by blast
qed

section \<open>Paging ends\<close>

lemma retry_calls: "fst (snd (retry_connect fn n i)) \<le> n"
proof (induction n arbitrary: i)
  case (Suc n)
  from Suc [of "i + 1"] show ?case
    by (auto split: attempt.split prod.splits)
qed simp

lemma http_request_calls: "length (snd (http_request answer q p)) \<le> 3"
  using retry_calls [of "answer p q" 3 0] by (auto simp: http_request_def split: prod.split)

lemma chain_calls: "length (snd (chain m f p)) = length (snd (m p)) + length (snd (f (fst (m p)) p))"
  by (simp add: chain_def split: prod.split)

lemma ret_calls [simp]: "snd (ret x p) = []"
  by (simp add: ret_def)

lemma activity_calls: "offset + 500 * n = 10000 \<Longrightarrow> 0 < n \<Longrightarrow> length (snd (activity_from answer offset out p)) \<le> 3 * n"
proof (induction answer offset out arbitrary: n rule: activity_from.induct)
  case (1 answer offset out)
  show ?case
  proof (cases "\<exists>page. fst (http_request answer offset p) = Reply (Some page) \<and> page \<noteq> [] \<and> \<not> (length page < 500 \<or> 10000 \<le> offset + 500)")
    case True
    then obtain page where page: "fst (http_request answer offset p) = Reply (Some page)" "page \<noteq> []" "\<not> (length page < 500 \<or> 10000 \<le> offset + 500)"
      by blast
    have "length (snd (activity_from answer (offset + 500) (out @ page) p)) \<le> 3 * (n - 1)"
      using 1 page by (intro 1(1)) auto
    with page 1(3) http_request_calls [of answer offset p] show ?thesis
      by (subst activity_from.simps) (auto simp: chain_calls)
  next
    case False
    with 1(3) http_request_calls [of answer offset p] show ?thesis
      by (subst activity_from.simps) (auto simp: chain_calls split: attempt.split option.split)
  qed
qed

lemma page_tries_calls: "length (snd (page_tries answer cursor k n p)) \<le> 3 * n"
proof (induction n arbitrary: k)
  case (Suc n)
  from Suc [of "k + 1"] http_request_calls [of answer "(cursor, k)" p] show ?case
    by (auto simp: chain_calls split: attempt.split)
qed simp

lemma markets_calls: "length (snd (markets_from answer m page cursor out p)) \<le> 9 * (1 + nat (m - page))"
proof (induction answer m page cursor out rule: markets_from.induct)
  case (1 answer m page cursor out)
  note tries = page_tries_calls [of answer cursor 0 3 p]
  show ?case
  proof (cases "\<exists>pg. fst (page_tries answer cursor 0 3 p) = Some pg \<and> \<not> (last_page pg \<or> m \<le> page)")
    case True
    then obtain pg where pg: "fst (page_tries answer cursor 0 3 p) = Some pg" "\<not> (last_page pg \<or> m \<le> page)" by blast
    have "length (snd (markets_from answer m (page + 1) (rp_next pg) (out @ rp_items pg) p)) \<le> 9 * (1 + nat (m - (page + 1)))"
      using pg by (intro 1) auto
    with pg tries show ?thesis
      by (subst markets_from.simps) (auto simp: chain_calls)
  next
    case False
    with tries show ?thesis
      by (subst markets_from.simps) (auto simp: chain_calls split: option.split)
  qed
qed

lemma pages_from_ends:
  assumes "pages_from keep fetch cursor k out = Some r"
  shows "\<exists>c i. case fetch c i of None \<Rightarrow> True | Some pg \<Rightarrow> last_page pg"
proof (rule pages_from.raw_induct [where P = "\<lambda>keep fetch cursor k out res. \<exists>c i. case fetch c i of None \<Rightarrow> True | Some pg \<Rightarrow> last_page pg", OF _ assms], goal_cases)
  case (1 pages keep fetch cursor k out r)
  show ?case
  proof (cases "case fetch cursor k of None \<Rightarrow> True | Some pg \<Rightarrow> last_page pg")
    case True
    then show ?thesis by blast
  next
    case False
    then obtain pg where "fetch cursor k = Some pg" "\<not> last_page pg" by (auto split: option.splits)
    with 1 show ?thesis by auto
  qed
qed

text \<open>C35: Which paged reads end. The activity of a wallet takes at most 60 requests and a reward list
  at most nine for each allowed page, whatever the services answer. The two reward reads without a limit of pages
  return nothing more once the service neither fails nor ends the chain of cursors: then they
  run for ever, and whenever they return, the service has done one of the two.\<close>

theorem paging_ends:
  "length (snd (get_activity acts p)) \<le> 60 \<and>
   length (snd (get_rewards_markets answer m p)) \<le> 9 * max 1 (nat m) \<and>
   ((\<nexists>c i. case fetch c i of None \<Rightarrow> True | Some pg \<Rightarrow> last_page pg) \<longrightarrow>
     get_rewards_current fetch = None \<and> get_rewards_for_market fetch = None)"
proof (intro conjI impI)
  show "length (snd (get_activity acts p)) \<le> 60"
    using activity_calls [of 0 20] by (simp add: get_activity_def)
  show "length (snd (get_rewards_markets answer m p)) \<le> 9 * max 1 (nat m)"
    using markets_calls [of answer m 1 "[]" "[]" p] by (simp add: get_rewards_markets_def max_def split: if_splits) linarith
next
  assume never: "\<nexists>c i. case fetch c i of None \<Rightarrow> True | Some pg \<Rightarrow> last_page pg"
  show "get_rewards_current fetch = None"
    using never pages_from_ends [of True fetch "[]" 0 "[]"] unfolding get_rewards_current_def by fastforce
  show "get_rewards_for_market fetch = None"
    using never pages_from_ends [of False fetch "[]" 0 "[]"] unfolding get_rewards_for_market_def by fastforce
qed

definition endless_pages :: "string \<Rightarrow> nat \<Rightarrow> nat rpage option" where
  "endless_pages c i = Some \<lparr>rp_items = [i], rp_next = ''MTAw''\<rparr>"

lemma paging_ends_witness: "get_rewards_current endless_pages = None"
proof -
  have "\<nexists>c i. case endless_pages c i of None \<Rightarrow> True | Some pg \<Rightarrow> last_page pg"
    by (simp add: endless_pages_def last_page_def last_cursor_def)
  with paging_ends [of undefined None undefined 1 endless_pages] show ?thesis by blast
qed

end
