(* ===== verification/Accounts.thy ===== *)
theory Accounts
  imports Store Client
begin

text \<open>
  The accounts of the wallets (\<open>web/routes.py\<close> and the constructor of \<open>PolymarketAPI\<close> in
  \<open>api/polymarket_api.py\<close>): cleaning what the user pasted, opening the account of a wallet, and the
  import that finds out the type of an account and stores it. Key arithmetic, the exchange, the
  proxies and the cipher are the fields of the record \<open>services\<close>. Texts are bytes.
\<close>

section \<open>What the user pasted\<close>

definition is_hex :: "char \<Rightarrow> bool" where
  "is_hex c = (let n = of_char c :: nat in (48 \<le> n \<and> n \<le> 57) \<or> (65 \<le> n \<and> n \<le> 70) \<or> (97 \<le> n \<and> n \<le> 102))"

definition hex_or_x :: "string \<Rightarrow> string" where
  "hex_or_x s = filter (\<lambda>c. is_hex c \<or> c = CHR ''x'') s"

text \<open>The key with its prefix, or the number of digits found. A capital X is gone before the test of the prefix.\<close>

definition clean_private_key :: "string \<Rightarrow> nat + string" where
  "clean_private_key raw =
     (let pk = hex_or_x raw;
          pk = (if starts_with ''0x'' pk \<or> starts_with ''0X'' pk then drop 2 pk else pk);
          pk = filter is_hex pk
      in if pk = [] \<or> length pk \<noteq> 64 then Inl (length pk) else Inr (''0x'' @ pk))"

definition clean_funder :: "string \<Rightarrow> string option" where
  "clean_funder raw =
     (let f = hex_or_x (strip raw);
          f = (if f \<noteq> [] \<and> \<not> starts_with ''0x'' f then ''0x'' @ f else f)
      in if f \<noteq> [] \<and> length f \<noteq> 42 then None else Some f)"

text \<open>The first code points of a text in UTF-8; bytes from 128 to 191 continue a code point.\<close>

definition continues :: "char \<Rightarrow> bool" where
  "continues c = (let n = of_char c :: nat in 128 \<le> n \<and> n < 192)"

fun take_points :: "nat \<Rightarrow> string \<Rightarrow> string" where
  "take_points n [] = []"
| "take_points n (c # s) =
     (if continues c then c # take_points n s else case n of 0 \<Rightarrow> [] | Suc m \<Rightarrow> c # take_points m s)"

definition clean_remark :: "string \<Rightarrow> string" where
  "clean_remark raw = take_points 40 (strip raw)"

section \<open>The account of a wallet\<close>

text \<open>
  \<open>sv_eoa\<close> is the address of a key (None: no key of the curve), \<open>sv_safe\<close> the Safe derived from an address,
  \<open>sv_creds\<close> whether the exchange, asked through a way out, gives the credentials of a key,
  \<open>sv_ask\<close> its answer to the question for the balance under a signature type, \<open>sv_str\<close> is \<open>str\<close> on JSON
  values, \<open>sv_reach\<close> and \<open>sv_ip\<close> tell what probing a proxy meets.
\<close>

record services =
  sv_eoa :: "string \<Rightarrow> string option"
  sv_safe :: "string \<Rightarrow> string"
  sv_creds :: "string option \<Rightarrow> string \<Rightarrow> bool"
  sv_ask :: "string option \<Rightarrow> string \<Rightarrow> int \<Rightarrow> string + json"
  sv_str :: "json \<Rightarrow> string"
  sv_reach :: "string \<Rightarrow> bool"
  sv_ip :: "string \<Rightarrow> string option"
  sv_encrypt :: "string \<Rightarrow> string"
  sv_decrypt :: "string \<Rightarrow> string option"

record api =
  ap_key :: string
  ap_address :: string
  ap_sig :: int
  ap_funder :: string
  ap_proxy :: "string option"

text \<open>The constructor; an empty funder or proxy is none.\<close>

definition new_api :: "services \<Rightarrow> string \<Rightarrow> int \<Rightarrow> string \<Rightarrow> string \<Rightarrow> api option" where
  "new_api sv key sig funder proxy =
     (let via = parse_proxy proxy in
      if \<not> sv_creds sv via key then None
      else (case sv_eoa sv key of
          None \<Rightarrow> None
        | Some eoa \<Rightarrow> Some \<lparr>ap_key = key, ap_address = eoa, ap_sig = sig,
            ap_funder = (if funder = [] then sv_safe sv eoa else funder), ap_proxy = via\<rparr>))"

text \<open>The account of a stored wallet.\<close>

definition open_wallet :: "services \<Rightarrow> wallet_row \<Rightarrow> api option" where
  "open_wallet sv w =
     (case sv_decrypt sv (wa_key w) of
        None \<Rightarrow> None
      | Some key \<Rightarrow> new_api sv key (wa_sig w) (wa_funder w) (wa_proxy w))"

text \<open>The type of the account that holds money, by the exchange.\<close>

definition funded_type :: "services \<Rightarrow> api \<Rightarrow> pyerr + int option" where
  "funded_type sv a = pick_funded_sig_type (fst (balance_by_sig_types (sv_str sv) (sv_ask sv (ap_proxy a) (ap_key a)) (ap_sig a)))"

section \<open>Importing\<close>

datatype import_error = Bad_key nat | Bad_funder | Bad_proxy probe_error | Invalid_key | Wallet_exists

record imported =
  im_address :: string
  im_funder :: string
  im_sig :: int
  im_remark :: string
  im_protocol :: string
  im_exit_ip :: "string option"

text \<open>The clients kept for balance queries, by address.\<close>

type_synonym api_cache = "string \<rightharpoonup> api"

text \<open>Opening the account for the first time and finding its type: address, funder and type.\<close>

definition probe_account :: "services \<Rightarrow> string \<Rightarrow> string \<Rightarrow> string \<Rightarrow> (string \<times> string \<times> int) option" where
  "probe_account sv key funder proxy =
     (case sv_eoa sv key of
        None \<Rightarrow> None
      | Some eoa \<Rightarrow>
          let provisional = resolve_signature_type (sv_safe sv eoa) funder in
          case new_api sv key provisional funder proxy of
            None \<Rightarrow> None
          | Some a \<Rightarrow>
              (case funded_type sv a of
                 Inl e \<Rightarrow> None
               | Inr detected \<Rightarrow> Some (ap_address a, ap_funder a, case detected of None \<Rightarrow> provisional | Some t \<Rightarrow> t)))"

definition import_wallet ::
    "services \<Rightarrow> string \<Rightarrow> string \<Rightarrow> string \<Rightarrow> string \<Rightarrow> db \<times> api_cache \<Rightarrow> (import_error + imported) \<times> db \<times> api_cache" where
  "import_wallet sv raw_key raw_funder raw_proxy raw_remark st =
     (case clean_private_key raw_key of
        Inl n \<Rightarrow> (Inl (Bad_key n), st)
      | Inr key \<Rightarrow>
      (case clean_funder raw_funder of
        None \<Rightarrow> (Inl Bad_funder, st)
      | Some funder \<Rightarrow>
      (case probe_proxy (sv_reach sv) (sv_ip sv) (strip raw_proxy) of
        Inl e \<Rightarrow> (Inl (Bad_proxy e), st)
      | Inr (proxy, exit_ip) \<Rightarrow>
      (case probe_account sv key funder proxy of
        None \<Rightarrow> (Inl Invalid_key, st)
      | Some (address, funder, sig) \<Rightarrow>
          let (d, cache) = st; remark = clean_remark raw_remark in
          case add_wallet address (sv_encrypt sv key) funder sig proxy remark d of
            None \<Rightarrow> (Inl Wallet_exists, st)
          | Some d' \<Rightarrow>
              (Inr \<lparr>im_address = address, im_funder = funder, im_sig = sig, im_remark = remark,
                 im_protocol = proxy_protocol proxy, im_exit_ip = exit_ip\<rparr>, d', cache(address := None))))))"

text \<open>\<open>api_preview_wallet\<close>: the address and the derived Safe, without storing; None is an error message.\<close>

definition api_preview_wallet :: "services \<Rightarrow> string \<Rightarrow> (string \<times> string) option" where
  "api_preview_wallet sv raw_key =
     (case clean_private_key raw_key of
        Inl n \<Rightarrow> None
      | Inr key \<Rightarrow> map_option (\<lambda>eoa. (eoa, sv_safe sv eoa)) (sv_eoa sv key))"

section \<open>Lemmas\<close>

lemma hex_or_x_prefix: "hex_or_x (''0X'' @ h) = CHR ''0'' # hex_or_x h"
  by (simp add: hex_or_x_def is_hex_def)

lemma hex_digits: "\<forall>c\<in>set h. is_hex c \<Longrightarrow> hex_or_x h = h \<and> filter is_hex h = h"
  by (auto simp: hex_or_x_def intro: filter_True)

lemma no_hex_x: "\<not> is_hex (CHR ''x'')" "\<not> is_hex (CHR ''X'')"
  by (simp_all add: is_hex_def)

lemma no_prefix: "\<forall>c\<in>set h. is_hex c \<Longrightarrow> \<not> starts_with ''0x'' h \<and> \<not> starts_with ''0X'' h"
  using no_hex_x by (auto simp: starts_with_append)

lemma clean_result:
  assumes "clean_private_key raw = Inr key"
  obtains h where "key = ''0x'' @ h" "length h = 64" "\<forall>c\<in>set h. is_hex c"
proof -
  obtain pk where "clean_private_key raw = (if filter is_hex pk = [] \<or> length (filter is_hex pk) \<noteq> 64
      then Inl (length (filter is_hex pk)) else Inr (''0x'' @ filter is_hex pk))"
    unfolding clean_private_key_def Let_def by blast
  with assms have "key = ''0x'' @ filter is_hex pk" "length (filter is_hex pk) = 64"
    by (simp_all only: sum.simps de_Morgan_disj not_not split: if_split_asm)
  then show thesis by (rule that) simp
qed

lemma clean_digits:
  assumes "length h = 64" and "\<forall>c\<in>set h. is_hex c" and "hex_or_x raw \<in> {h, ''0x'' @ h}"
  shows "clean_private_key raw = Inr (''0x'' @ h)"
  using assms no_prefix [OF assms(2)] hex_digits [OF assms(2)] by (auto simp: clean_private_key_def Let_def starts_with_def)

lemma clean_again: "clean_private_key raw = Inr key \<Longrightarrow> clean_private_key key = Inr key"
proof (elim clean_result)
  fix h assume h: "key = ''0x'' @ h" "length h = 64" "\<forall>c\<in>set h. is_hex c"
  then have "hex_or_x key = ''0x'' @ h"
    using hex_digits [of h] by (simp add: hex_or_x_def is_hex_def)
  with h show ?thesis by (simp add: clean_digits)
qed

lemma probe_account_result:
  assumes "probe_account sv key funder proxy = Some (address, f, sig)"
  shows "sv_eoa sv key = Some address \<and> f = (if funder = [] then sv_safe sv address else funder) \<and> sv_creds sv (parse_proxy proxy) key"
  using assms by (auto simp: probe_account_def new_api_def Let_def split: option.splits sum.splits if_splits)

lemma import_result:
  assumes "import_wallet sv raw_key raw_funder raw_proxy raw_remark (d, cache) = (Inr res, d', cache')"
  obtains key funder proxy where "clean_private_key raw_key = Inr key" and "clean_funder raw_funder = Some funder"
    and "probe_proxy (sv_reach sv) (sv_ip sv) (strip raw_proxy) = Inr (proxy, im_exit_ip res)"
    and "probe_account sv key funder proxy = Some (im_address res, im_funder res, im_sig res)"
    and "add_wallet (im_address res) (sv_encrypt sv key) (im_funder res) (im_sig res) proxy (im_remark res) d = Some d'"
    and "cache' = cache(im_address res := None)"
  using assms by (auto simp: import_wallet_def Let_def split: sum.splits option.splits prod.splits if_splits)

lemma import_failed:
  assumes "import_wallet sv raw_key raw_funder raw_proxy raw_remark st = (Inl e, st')"
  shows "st' = st"
  using assms by (auto simp: import_wallet_def Let_def split: sum.splits option.splits prod.splits if_splits)

lemma probe_accepts:
  assumes "probe_proxy reach ip (strip raw) = Inr (s, x)"
  shows "strip raw = [] \<and> parse_proxy s = None \<or> (\<exists>u. parse_proxy s = Some u \<and> reach u)"
proof (cases "s = []")
  case True
  with assms probed_nothing show ?thesis by fastforce
next
  case False
  with probed_string [OF assms] show ?thesis by blast
qed

section \<open>Properties\<close>

text \<open>What cleaning a private key accepts. Whatever else the user pasted with them (blanks, quotes, dashes),
  64 hexadecimal digits with or without the prefix 0x are accepted, give the digits with
  the prefix, and cleaning the result again changes nothing; but with the prefix 0X, for which the code
  has a test of its own, the same digits are refused as 65, since the X is filtered out before that test.\<close>

theorem private_key_cleaning:
  assumes "length h = 64" and "\<forall>c\<in>set h. is_hex c"
  shows "(hex_or_x raw \<in> {h, ''0x'' @ h} \<longrightarrow>
      clean_private_key raw = Inr (''0x'' @ h) \<and> clean_private_key (''0x'' @ h) = Inr (''0x'' @ h)) \<and>
    clean_private_key (''0X'' @ h) = Inl 65"
proof (intro conjI impI)
  assume "hex_or_x raw \<in> {h, ''0x'' @ h}"
  with assms show "clean_private_key raw = Inr (''0x'' @ h)" by (rule clean_digits)
  then show "clean_private_key (''0x'' @ h) = Inr (''0x'' @ h)" by (rule clean_again)
next
  have "\<not> starts_with ''0x'' (CHR ''0'' # h)" "\<not> starts_with ''0X'' (CHR ''0'' # h)" "is_hex (CHR ''0'')"
    using assms(2) no_prefix [of "CHR ''0'' # h"] by (auto simp: is_hex_def)
  with assms hex_digits [OF assms(2)] show "clean_private_key (''0X'' @ h) = Inl 65"
    unfolding clean_private_key_def hex_or_x_prefix Let_def by simp
qed

text \<open>C20: An imported wallet is the account that will trade. A failed import changes nothing. After a successful one
  the table has exactly one more row, enabled and without a template binding, at an address that was not there;
  and opening the wallet from this row, with a cipher that decrypts what it encrypted, succeeds
  and gives the account of the pasted key, with the address, funder and type reported to the user, on a proxy
  that was probed to reach the exchange, or directly when no proxy was typed.\<close>

theorem imported_wallet_reopens:
  assumes "\<And>k. sv_decrypt sv (sv_encrypt sv k) = Some k"
    and "import_wallet sv raw_key raw_funder raw_proxy raw_remark (d, cache) = (r, d', cache')"
  shows "(\<forall>e. r = Inl e \<longrightarrow> d' = d \<and> cache' = cache) \<and>
    (\<forall>res. r = Inr res \<longrightarrow> (\<exists>row a key.
       db_wallets d' = db_wallets d @ [row] \<and> wa_address row \<notin> wa_address ` set (db_wallets d) \<and> d'\<lparr>db_wallets := db_wallets d\<rparr> = d \<and>
       wa_enabled row \<and> wa_template row = None \<and> clean_private_key raw_key = Inr key \<and>
       open_wallet sv row = Some a \<and> ap_key a = key \<and> ap_address a = wa_address row \<and>
       (wa_address row, ap_funder a, ap_sig a) = (im_address res, im_funder res, im_sig res) \<and>
       (strip raw_proxy = [] \<and> ap_proxy a = None \<or> (\<exists>u. ap_proxy a = Some u \<and> sv_reach sv u)) \<and> cache' (wa_address row) = None))"
proof (intro conjI allI impI)
  fix e assume "r = Inl e"
  with assms(2) import_failed show "d' = d" "cache' = cache" by blast+
next
  fix res assume "r = Inr res"
  with assms(2) obtain key funder proxy where i: "clean_private_key raw_key = Inr key"
      "probe_proxy (sv_reach sv) (sv_ip sv) (strip raw_proxy) = Inr (proxy, im_exit_ip res)"
      "probe_account sv key funder proxy = Some (im_address res, im_funder res, im_sig res)"
      "add_wallet (im_address res) (sv_encrypt sv key) (im_funder res) (im_sig res) proxy (im_remark res) d = Some d'"
      "cache' = cache(im_address res := None)"
    by (metis import_result)
  define row where "row = \<lparr>wa_address = im_address res, wa_key = sv_encrypt sv key, wa_funder = im_funder res, wa_sig = im_sig res,
    wa_proxy = proxy, wa_remark = im_remark res, wa_enabled = True, wa_active = 0, wa_template = None\<rparr>"
  have added: "im_address res \<notin> wa_address ` set (db_wallets d)" "d' = d\<lparr>db_wallets := db_wallets d @ [row]\<rparr>"
    using i(4) by (auto simp: add_wallet_def row_def split: if_splits)
  have acc: "sv_eoa sv key = Some (im_address res)" "sv_creds sv (parse_proxy proxy) key"
      "im_funder res = (if funder = [] then sv_safe sv (im_address res) else funder)"
    using probe_account_result [OF i(3)] by blast+
  let ?a = "\<lparr>ap_key = key, ap_address = im_address res, ap_sig = im_sig res, ap_funder = im_funder res, ap_proxy = parse_proxy proxy\<rparr>"
  have "open_wallet sv row = Some ?a"
    using acc by (auto simp: open_wallet_def row_def assms(1) new_api_def)
  moreover have "strip raw_proxy = [] \<and> ap_proxy ?a = None \<or> (\<exists>u. ap_proxy ?a = Some u \<and> sv_reach sv u)"
    using probe_accepts [OF i(2)] by auto
  ultimately show "\<exists>row a key.
       db_wallets d' = db_wallets d @ [row] \<and> wa_address row \<notin> wa_address ` set (db_wallets d) \<and> d'\<lparr>db_wallets := db_wallets d\<rparr> = d \<and>
       wa_enabled row \<and> wa_template row = None \<and> clean_private_key raw_key = Inr key \<and>
       open_wallet sv row = Some a \<and> ap_key a = key \<and> ap_address a = wa_address row \<and>
       (wa_address row, ap_funder a, ap_sig a) = (im_address res, im_funder res, im_sig res) \<and>
       (strip raw_proxy = [] \<and> ap_proxy a = None \<or> (\<exists>u. ap_proxy a = Some u \<and> sv_reach sv u)) \<and> cache' (wa_address row) = None"
    using added i(1,5) by (intro exI [of _ row] exI [of _ ?a] exI [of _ key]) (simp add: row_def)
qed

text \<open>What the import decides about an account. The type is the one the exchange reports as holding the most money,
  and only for an account without money does it come from the funder (1 for a funder that is not
  the derived Safe, else 2); but the address of the funds is never decided again: it is the typed one or else the derived Safe,
  also for an account found to be of a type whose funds are elsewhere.\<close>

theorem import_account_type:
  assumes "import_wallet sv raw_key raw_funder raw_proxy raw_remark (d, cache) = (Inr res, d', cache')"
    and "clean_funder raw_funder = Some funder"
  shows "im_funder res = (if funder = [] then sv_safe sv (im_address res) else funder) \<and>
    (\<exists>a. ap_address a = im_address res \<and> ap_funder a = im_funder res \<and> clean_private_key raw_key = Inr (ap_key a) \<and>
       (funded_type sv a = Inr (Some (im_sig res)) \<or>
        funded_type sv a = Inr None \<and> im_sig res = (if funder \<noteq> [] \<and> lower funder \<noteq> lower (sv_safe sv (im_address res)) then 1 else 2)))"
proof -
  obtain key f proxy where k: "clean_private_key raw_key = Inr key" "clean_funder raw_funder = Some f"
      "probe_account sv key f proxy = Some (im_address res, im_funder res, im_sig res)"
    using assms(1) by (rule import_result)
  with assms(2) have i: "clean_private_key raw_key = Inr key"
      "probe_account sv key funder proxy = Some (im_address res, im_funder res, im_sig res)"
    by simp_all
  have eoa: "sv_eoa sv key = Some (im_address res)" and f: "im_funder res = (if funder = [] then sv_safe sv (im_address res) else funder)"
    using probe_account_result [OF i(2)] by blast+
  obtain a where a: "new_api sv key (resolve_signature_type (sv_safe sv (im_address res)) funder) funder proxy = Some a"
    and t: "funded_type sv a = Inr (Some (im_sig res)) \<or>
      funded_type sv a = Inr None \<and> im_sig res = resolve_signature_type (sv_safe sv (im_address res)) funder"
    using i(2) eoa by (auto simp: probe_account_def Let_def split: option.splits sum.splits)
  have "ap_address a = im_address res" "ap_funder a = im_funder res" "ap_key a = key"
    using a eoa f by (auto simp: new_api_def Let_def split: if_splits)
  with t i(1) f show ?thesis
    unfolding resolve_signature_type_def by blast
qed

section \<open>Witnesses\<close>

definition demo_key :: string where
  "demo_key = replicate 64 (CHR ''a'')"

lemma private_key_witness:
  "clean_private_key (''0x'' @ demo_key) = Inr (''0x'' @ demo_key) \<and> clean_private_key (''0X'' @ demo_key) = Inl 65"
proof -
  have h: "length demo_key = 64" "\<forall>c\<in>set demo_key. is_hex c"
    by (simp_all add: demo_key_def is_hex_def)
  have "hex_or_x (''0x'' @ demo_key) = ''0x'' @ demo_key"
    using hex_digits [OF h(2)] by (simp add: hex_or_x_def is_hex_def)
  with private_key_cleaning [OF h, of "''0x'' @ demo_key"] show ?thesis by simp
qed

text \<open>An account whose money lies under type 1, the type of wallets made by mail address.\<close>

definition demo_services :: services where
  "demo_services = \<lparr>sv_eoa = (\<lambda>k. Some ''0xeoa''), sv_safe = (\<lambda>a. ''0xsafe''), sv_creds = (\<lambda>v k. True),
     sv_ask = (\<lambda>v k t. Inr (J_obj [(''balance'', J_str (if t = 1 then ''5'' else ''0''))])), sv_str = (\<lambda>v. []),
     sv_reach = (\<lambda>u. True), sv_ip = (\<lambda>u. None), sv_encrypt = (\<lambda>k. k), sv_decrypt = Some\<rparr>"

definition demo_empty :: db where
  "demo_empty = \<lparr>db_settings = Map.empty, db_templates = [], db_next_template = 1, db_values = (\<lambda>i. Map.empty), db_wallets = []\<rparr>"

definition demo_imported :: imported where
  "demo_imported = \<lparr>im_address = ''0xeoa'', im_funder = ''0xsafe'', im_sig = 1, im_remark = [], im_protocol = [], im_exit_ip = None\<rparr>"

lemma demo_import:
  "\<exists>d' c'. import_wallet demo_services demo_key [] [] [] (demo_empty, Map.empty) = (Inr demo_imported, d', c')"
proof -
  have "length demo_key = 64" "\<forall>c\<in>set demo_key. is_hex c"
    by (simp_all add: demo_key_def is_hex_def)
  then have "clean_private_key demo_key = Inr (''0x'' @ demo_key)"
    using hex_digits [of demo_key] by (intro clean_digits) simp_all
  moreover have "clean_funder [] = Some []" "probe_proxy (sv_reach demo_services) (sv_ip demo_services) (strip []) = Inr ([], None)"
    "parse_proxy [] = None" "clean_remark [] = []" "proxy_protocol [] = []"
    by (simp_all add: clean_funder_def hex_or_x_def strip_def probe_proxy_def parse_proxy_def clean_remark_def proxy_protocol_def)
  moreover have "funded_type demo_services a = Inr (Some 1)" for a
    unfolding funded_type_def balance_by_sig_types_def demo_services_def by (simp add: field_def pick_funded_sig_type_def) code_simp
  ultimately show ?thesis
    by (simp add: import_wallet_def probe_account_def new_api_def demo_services_def add_wallet_def demo_empty_def demo_imported_def)
qed

lemma imported_wallet_witness:
  "\<exists>r d' c'. import_wallet demo_services demo_key [] [] [] (demo_empty, Map.empty) = (Inr r, d', c') \<and> length (db_wallets d') = 1"
proof -
  obtain d' c' where i: "import_wallet demo_services demo_key [] [] [] (demo_empty, Map.empty) = (Inr demo_imported, d', c')"
    using demo_import by blast
  have "sv_decrypt demo_services (sv_encrypt demo_services k) = Some k" for k
    by (simp add: demo_services_def)
  from imported_wallet_reopens [OF this i] i show ?thesis
    by (auto simp: demo_empty_def)
qed

lemma import_account_type_witness:
  "\<exists>r d' c'. import_wallet demo_services demo_key [] [] [] (demo_empty, Map.empty) = (Inr r, d', c') \<and> im_sig r = 1 \<and> im_funder r = ''0xsafe''"
proof -
  obtain d' c' where i: "import_wallet demo_services demo_key [] [] [] (demo_empty, Map.empty) = (Inr demo_imported, d', c')"
    using demo_import by blast
  have "clean_funder [] = Some []"
    by (simp add: clean_funder_def hex_or_x_def strip_def)
  from import_account_type [OF i this] have "im_funder demo_imported = ''0xsafe''"
    by (simp add: demo_services_def)
  with i show ?thesis
    by (auto simp: demo_imported_def)
qed

end
