(* ===== verification/Fills.thy ===== *)
theory Fills
  imports Fifo
begin

text \<open>
  Reading our own fills out of \<open>get_trades\<close> (\<open>engine/fills.py\<close>, and \<open>our_traded_assets\<close> of
  \<open>engine/pnl.py\<close>). A trade has a taker view at the top level and the maker orders below;
  we are one of the makers, or the taker, never both.
\<close>

record maker_order =
  mo_address :: string
  mo_order_id :: string
  mo_asset :: string
  mo_side :: string
  mo_price :: "rat option"
  mo_matched :: "rat option"
  mo_fee :: "rat option"

record trade =
  tr_id :: string
  tr_market :: string
  tr_time :: "rat option"
  tr_makers :: "maker_order list"
  tr_trader_side :: string
  tr_asset :: string
  tr_side :: string
  tr_price :: "rat option"
  tr_size :: "rat option"
  tr_fee :: "rat option"

record buy_event =
  be_trade :: string
  be_order :: string
  be_asset :: string
  be_price :: rat
  be_size :: rat
  be_market :: string
  be_ts :: rat

definition ours :: "string \<Rightarrow> maker_order \<Rightarrow> bool" where
  "ours funder mo \<longleftrightarrow> lower (mo_address mo) = lower funder"

definition buy_event_of :: "trade \<Rightarrow> maker_order \<Rightarrow> buy_event" where
  "buy_event_of tr mo = \<lparr>be_trade = tr_id tr, be_order = mo_order_id mo, be_asset = mo_asset mo,
     be_price = or0 (mo_price mo), be_size = or0 (mo_matched mo), be_market = tr_market tr,
     be_ts = or0 (tr_time tr)\<rparr>"

definition select_new_buy_fills ::
    "trade list \<Rightarrow> string \<Rightarrow> (string \<times> string) set \<Rightarrow> buy_event list" where
  "select_new_buy_fills trades funder seen =
     sort_key be_ts
       (concat (map (\<lambda>tr. map (buy_event_of tr)
          (filter (\<lambda>mo. ours funder mo \<and> upper (mo_side mo) = ''BUY'' \<and>
             (tr_id tr, mo_order_id mo) \<notin> seen) (tr_makers tr))) trades))"

definition maker_fill :: "trade \<Rightarrow> maker_order \<Rightarrow> fill" where
  "maker_fill tr mo = \<lparr>fill_side = upper (mo_side mo), fill_price = or0 (mo_price mo),
     fill_size = or0 (mo_matched mo), fill_ts = or0 (tr_time tr), fill_tid = tr_id tr,
     fill_fee_bps = or0 (mo_fee mo)\<rparr>"

definition taker_fill :: "trade \<Rightarrow> fill" where
  "taker_fill tr = \<lparr>fill_side = upper (tr_side tr), fill_price = or0 (tr_price tr),
     fill_size = or0 (tr_size tr), fill_ts = or0 (tr_time tr), fill_tid = tr_id tr,
     fill_fee_bps = or0 (tr_fee tr)\<rparr>"

definition we_are_maker :: "string \<Rightarrow> trade \<Rightarrow> bool" where
  "we_are_maker funder tr \<longleftrightarrow> list_ex (ours funder) (tr_makers tr)"

definition trade_fills :: "string \<Rightarrow> string \<Rightarrow> trade \<Rightarrow> fill list" where
  "trade_fills funder asset tr =
     map (maker_fill tr) (filter (\<lambda>mo. ours funder mo \<and> mo_asset mo = asset) (tr_makers tr)) @
     (if \<not> we_are_maker funder tr \<and> upper (tr_trader_side tr) = ''TAKER'' \<and> tr_asset tr = asset
      then [taker_fill tr] else [])"

definition extract_fills :: "trade list \<Rightarrow> string \<Rightarrow> string \<Rightarrow> fill list" where
  "extract_fills trades funder asset = concat (map (trade_fills funder asset) trades)"

text \<open>The BUY view, as (price, size, ts, trade_id).\<close>

definition extract_buy_fills :: "trade list \<Rightarrow> string \<Rightarrow> string \<Rightarrow> (rat \<times> rat \<times> rat \<times> string) list" where
  "extract_buy_fills trades funder asset =
     map (\<lambda>f. (fill_price f, fill_size f, fill_ts f, fill_tid f))
       (filter (\<lambda>f. fill_side f = ''BUY'') (extract_fills trades funder asset))"

text \<open>\<open>our_traded_assets\<close>: the set, as a list without duplicates.\<close>

definition our_traded_assets :: "trade list \<Rightarrow> string \<Rightarrow> string list" where
  "our_traded_assets trades funder =
     remdups (filter (\<lambda>a. a \<noteq> '''')
       (concat (map (\<lambda>tr. map mo_asset (filter (ours funder) (tr_makers tr)) @
          (if \<not> we_are_maker funder tr \<and> upper (tr_trader_side tr) = ''TAKER''
           then [tr_asset tr] else [])) trades)))"

definition event_key :: "buy_event \<Rightarrow> string \<times> string" where
  "event_key e = (be_trade e, be_order e)"

section \<open>Properties\<close>

text \<open>\<open>select_new_buy_fills\<close> reports, oldest first, exactly our BUY maker entries whose
(trade, order) key was not seen; once the reported keys are marked as seen, the same
trades report nothing again, and marking more keys never brings an event back.\<close>

theorem select_new_buy_fills_spec:
  "set (select_new_buy_fills trades funder seen) =
     {buy_event_of tr mo | tr mo. tr \<in> set trades \<and> mo \<in> set (tr_makers tr) \<and>
        lower (mo_address mo) = lower funder \<and> upper (mo_side mo) = ''BUY'' \<and>
        (tr_id tr, mo_order_id mo) \<notin> seen} \<and>
   sorted (map be_ts (select_new_buy_fills trades funder seen)) \<and>
   select_new_buy_fills trades funder
     (seen \<union> event_key ` set (select_new_buy_fills trades funder seen)) = [] \<and>
   set (select_new_buy_fills trades funder (seen \<union> extra)) \<subseteq> set (select_new_buy_fills trades funder seen)"
proof -
  have member: "e \<in> set (select_new_buy_fills trades funder s) \<longleftrightarrow>
      (\<exists>tr mo. e = buy_event_of tr mo \<and> tr \<in> set trades \<and> mo \<in> set (tr_makers tr) \<and>
        lower (mo_address mo) = lower funder \<and> upper (mo_side mo) = ''BUY'' \<and>
        (tr_id tr, mo_order_id mo) \<notin> s)" for e s
    by (auto simp: select_new_buy_fills_def ours_def)
  have key: "event_key (buy_event_of tr mo) = (tr_id tr, mo_order_id mo)" for tr mo
    by (simp add: event_key_def buy_event_of_def)
  have "e \<notin> set (select_new_buy_fills trades funder
     (seen \<union> event_key ` set (select_new_buy_fills trades funder seen)))" for e
  proof
    assume "e \<in> set (select_new_buy_fills trades funder
      (seen \<union> event_key ` set (select_new_buy_fills trades funder seen)))"
    then obtain tr mo where e: "e = buy_event_of tr mo"
      "(tr_id tr, mo_order_id mo) \<notin> event_key ` set (select_new_buy_fills trades funder seen)"
      "e \<in> set (select_new_buy_fills trades funder seen)"
      unfolding member by blast
    then show False using key [of tr mo] by (metis image_eqI)
  qed
  then have "set (select_new_buy_fills trades funder
     (seen \<union> event_key ` set (select_new_buy_fills trades funder seen))) = {}"
    using all_not_in_conv by metis
  then have "select_new_buy_fills trades funder
     (seen \<union> event_key ` set (select_new_buy_fills trades funder seen)) = []" by simp
  moreover have "sorted (map be_ts (select_new_buy_fills trades funder seen))"
    by (simp add: select_new_buy_fills_def)
  ultimately show ?thesis unfolding set_eq_iff subset_iff member by blast
qed

text \<open>A trade contributes our maker entries of the asset or our taker fill of it, never
both; every extracted fill of an asset belongs to an asset \<open>our_traded_assets\<close> lists, and
an asset it lists has a fill (assets with an empty id apart).\<close>

theorem extract_fills_complete:
  "(we_are_maker funder tr \<longrightarrow> set (trade_fills funder asset tr) \<subseteq> maker_fill tr ` set (tr_makers tr)) \<and>
   length (trade_fills funder asset tr) =
     (if we_are_maker funder tr then length (filter (\<lambda>mo. ours funder mo \<and> mo_asset mo = asset) (tr_makers tr))
      else if upper (tr_trader_side tr) = ''TAKER'' \<and> tr_asset tr = asset then 1 else 0) \<and>
   (extract_fills trades funder asset \<noteq> [] \<and> asset \<noteq> '''' \<longleftrightarrow> asset \<in> set (our_traded_assets trades funder))"
proof -
  have none: "filter (\<lambda>mo. ours funder mo \<and> mo_asset mo = asset) (tr_makers t) = []"
    if "\<not> we_are_maker funder t" for t
    using that by (auto simp: we_are_maker_def list_ex_iff filter_empty_conv)
  have "(trade_fills funder asset t \<noteq> []) \<longleftrightarrow> asset \<in> set (map mo_asset (filter (ours funder) (tr_makers t)) @
      (if \<not> we_are_maker funder t \<and> upper (tr_trader_side t) = ''TAKER'' then [tr_asset t] else []))" for t
    by (auto simp: trade_fills_def filter_empty_conv)
  then have "extract_fills trades funder asset \<noteq> [] \<and> asset \<noteq> '''' \<longleftrightarrow> asset \<in> set (our_traded_assets trades funder)"
    unfolding extract_fills_def our_traded_assets_def by (auto simp del: not_None_eq)
  moreover have "set (trade_fills funder asset tr) \<subseteq> maker_fill tr ` set (tr_makers tr)"
    if "we_are_maker funder tr"
    using that by (auto simp: trade_fills_def)
  ultimately show ?thesis using none [of tr] by (simp add: trade_fills_def)
qed

lemma extract_fills_witness:
  "let tr = \<lparr>tr_id = ''t'', tr_market = ''m'', tr_time = Some 5, tr_makers = [], tr_trader_side = ''TAKER'',
      tr_asset = ''a'', tr_side = ''SELL'', tr_price = Some (1/2), tr_size = Some 3, tr_fee = None\<rparr>
   in length (trade_fills ''0xA'' ''a'' tr) = 1 \<and> ''a'' \<in> set (our_traded_assets [tr] ''0xA'')"
proof -
  define tr where "tr = \<lparr>tr_id = ''t'', tr_market = ''m'', tr_time = Some (5::rat), tr_makers = [],
      tr_trader_side = ''TAKER'', tr_asset = ''a'', tr_side = ''SELL'', tr_price = Some (1/2), tr_size = Some 3,
      tr_fee = None\<rparr>"
  have "\<not> we_are_maker ''0xA'' tr" "upper (tr_trader_side tr) = ''TAKER''" "tr_asset tr = ''a''"
    by (simp_all add: tr_def we_are_maker_def upper_def upper_char_def)
  moreover from this have "extract_fills [tr] ''0xA'' ''a'' \<noteq> []"
    by (simp add: extract_fills_def trade_fills_def)
  ultimately show ?thesis
    using extract_fills_complete [of "''0xA''" tr "''a''" "[tr]"] unfolding Let_def tr_def by simp
qed

end
