(* ===== verification/Scripts.thy ===== *)
theory Scripts
  imports Accounts Fills Holdings Client
begin

text \<open>
  The scripts run by hand (\<open>dump_trades.py\<close>, \<open>probe_pnl.py\<close>, \<open>diagnose_deposit_wallet.py\<close>,
  \<open>debug/check_reward_equivalence.py\<close>). They read and print; modelled is what they compute and which way their requests
  take. What the services answer is an argument, None is a failed request.
\<close>

section \<open>The password\<close>

datatype refusal = No_password | Wrong_password

text \<open>The derived key is compared by its digest with the stored one.\<close>

definition unlock :: "(string \<Rightarrow> 's \<Rightarrow> 'k) \<Rightarrow> ('k \<Rightarrow> 'h) \<Rightarrow> ('h \<times> 's) option \<Rightarrow> string \<Rightarrow> refusal + 'k" where
  "unlock derive digest stored password =
     (case stored of
        None \<Rightarrow> Inl No_password
      | Some (h, salt) \<Rightarrow> (let key = derive password salt in if digest key = h then Inr key else Inl Wrong_password))"

text \<open>\<open>_get_password\<close> of the probe: the environment first, then what is typed (None: no terminal); None skips the part.\<close>

definition get_password :: "(string \<Rightarrow> 's \<Rightarrow> 'k) \<Rightarrow> ('k \<Rightarrow> 'h) \<Rightarrow> ('h \<times> 's) option \<Rightarrow> string option \<Rightarrow> string option \<Rightarrow> 'k option" where
  "get_password derive digest stored env typed =
     (if stored = None then None
      else let pw = (case env of Some e \<Rightarrow> if e = [] then (case typed of None \<Rightarrow> [] | Some t \<Rightarrow> strip t) else e
             | None \<Rightarrow> (case typed of None \<Rightarrow> [] | Some t \<Rightarrow> strip t))
        in if pw = [] then None else case unlock derive digest stored pw of Inl e \<Rightarrow> None | Inr key \<Rightarrow> Some key)"

text \<open>\<open>load_private_key\<close> of the diagnosis: the key of the first wallet, with its prefix; Inl is the exit of the script.\<close>

datatype key_error = Refused refusal | No_wallets | Not_decrypted

definition load_private_key :: "(string \<Rightarrow> 's \<Rightarrow> 'k) \<Rightarrow> ('k \<Rightarrow> 'h) \<Rightarrow> ('k \<Rightarrow> string \<Rightarrow> string option) \<Rightarrow> ('h \<times> 's) option \<Rightarrow> string \<Rightarrow>
    wallet_row list \<Rightarrow> key_error + string" where
  "load_private_key derive digest dec stored password ws =
     (case unlock derive digest stored password of
        Inl e \<Rightarrow> Inl (Refused e)
      | Inr key \<Rightarrow>
          (case ws of
             [] \<Rightarrow> Inl No_wallets
           | w # rest \<Rightarrow>
               (case dec key (wa_key w) of
                  None \<Rightarrow> Inl Not_decrypted
                | Some pk \<Rightarrow> Inr (if starts_with ''0x'' pk then pk else ''0x'' @ pk))))"

text \<open>\<open>build_builder_config\<close>: all three variables, or none.\<close>

definition build_builder_config :: "string option \<Rightarrow> string option \<Rightarrow> string option \<Rightarrow> (string \<times> string \<times> string) option" where
  "build_builder_config k s p =
     (case (k, s, p) of
        (Some a, Some b, Some c) \<Rightarrow> if a \<noteq> [] \<and> b \<noteq> [] \<and> c \<noteq> [] then Some (a, b, c) else None
      | _ \<Rightarrow> None)"

text \<open>The diagnosis asks for the deployment also when the wallet is deployed; the answer to it is printed, an error too.\<close>

definition deploy_trial :: "bool option \<Rightarrow> 'r option \<Rightarrow> (bool \<times> 'r option) option" where
  "deploy_trial deployed answer = map_option (\<lambda>d. (d, answer)) deployed"

section \<open>Fills that cannot be found\<close>

definition maker_of :: "string \<Rightarrow> trade \<Rightarrow> bool" where
  "maker_of a tr \<longleftrightarrow> list_ex (\<lambda>mo. lower (mo_address mo) = lower a) (tr_makers tr)"

definition summarize :: "trade list \<Rightarrow> string \<Rightarrow> string \<Rightarrow> string \<Rightarrow> nat \<times> nat \<times> nat" where
  "summarize trades funder eoa asset =
     (length (filter (maker_of funder) trades), length (filter (maker_of eoa) trades),
      length (filter (\<lambda>tr. upper (tr_trader_side tr) = ''TAKER'' \<and> tr_asset tr = asset) trades))"

text \<open>How often a market and, among our maker orders, a token occurs.\<close>

definition market_inventory :: "trade list \<Rightarrow> string \<Rightarrow> nat" where
  "market_inventory trades cid = length (filter (\<lambda>tr. tr_market tr = cid) trades)"

definition asset_inventory :: "trade list \<Rightarrow> string \<Rightarrow> string \<Rightarrow> nat" where
  "asset_inventory trades funder asset =
     length (filter (\<lambda>mo. ours funder mo \<and> mo_asset mo = asset) (concat (map tr_makers trades)))"

datatype query = Everything | Of_maker string | Of_market string

record position_report =
  pp_asset :: string
  pp_seen :: nat
  pp_market :: nat
  pp_fills :: nat
  pp_cost :: "rat option"
  pp_rebuilt :: rat
  pp_by_market :: "nat option"

definition report_position :: "(query \<Rightarrow> trade list option) \<Rightarrow> trade list \<Rightarrow> string \<Rightarrow> holding \<Rightarrow> position_report" where
  "report_position ask trades funder h =
     (let fills = extract_fills trades funder (hd_asset h); (cost, lots) = position_cost_with_lots fills (or0 (hd_size h)) []
      in \<lparr>pp_asset = hd_asset h, pp_seen = asset_inventory trades funder (hd_asset h), pp_market = market_inventory trades (hd_cid h),
          pp_fills = length fills, pp_cost = cost, pp_rebuilt = sum_list (map lot_qty lots),
          pp_by_market = map_option length (ask (Of_market (hd_cid h)))\<rparr>)"

record dump =
  dm_account :: api
  dm_counts :: "nat option list"
  dm_reports :: "position_report list"
  dm_written :: "trade list"

datatype dump_end = Dump_refused refusal | Dump_fails | Nothing_held | Dumped dump

text \<open>\<open>main\<close> of \<open>dump_trades.py\<close> on the first wallet: the account is made of its key, type and funder.\<close>

definition dump_trades ::
    "services \<Rightarrow> (string \<Rightarrow> 's \<Rightarrow> 'k) \<Rightarrow> ('k \<Rightarrow> 'h) \<Rightarrow> ('h \<times> 's) option \<Rightarrow> string \<Rightarrow> wallet_row list \<Rightarrow> (api \<Rightarrow> query \<Rightarrow> trade list option) \<Rightarrow>
     (api \<Rightarrow> holding list option) \<Rightarrow> dump_end" where
  "dump_trades sv derive digest stored password ws ask positions =
     (case unlock derive digest stored password of
        Inl e \<Rightarrow> Dump_refused e
      | Inr key \<Rightarrow>
          (case ws of
             [] \<Rightarrow> Dump_fails
           | w # rest \<Rightarrow>
               (case open_wallet sv (w\<lparr>wa_proxy := []\<rparr>) of
                  None \<Rightarrow> Dump_fails
                | Some a \<Rightarrow>
                    (case positions a of
                       None \<Rightarrow> Dump_fails
                     | Some hs \<Rightarrow>
                         (case filter held hs of
                            [] \<Rightarrow> Nothing_held
                          | held_ones \<Rightarrow>
                              (case ask a (Of_maker (ap_funder a)) of
                                 None \<Rightarrow> Dump_fails
                               | Some trades \<Rightarrow> Dumped
                                   \<lparr>dm_account = a,
                                    dm_counts = map (\<lambda>q. map_option length (ask a q)) [Everything, Of_maker (ap_address a), Of_maker (ap_funder a)],
                                    dm_reports = map (report_position (ask a) trades (ap_funder a)) held_ones, dm_written = trades\<rparr>))))))"

section \<open>The probe of the profit ledger\<close>

text \<open>Rows by type, the types in the order of their first row; a row without a type counts as \<open>?\<close>.\<close>

definition by_type :: "(string option \<times> 'r) list \<Rightarrow> (string \<times> 'r list) list" where
  "by_type rs = (let named = map (\<lambda>(t, r). (case t of None \<Rightarrow> ''?'' | Some x \<Rightarrow> x, r)) rs
     in map (\<lambda>t. (t, map snd (filter (\<lambda>p. fst p = t) named))) (rev (remdups (rev (map fst named)))))"

text \<open>The rewards of the last four days, and the first of the last three whose rewards by market are not empty; \<open>date n\<close> is the
  day before \<open>n\<close> days.\<close>

definition rewards_total :: "(nat \<Rightarrow> string) \<Rightarrow> (string \<Rightarrow> 'r option) \<Rightarrow> (string \<times> 'r) list" where
  "rewards_total date ask = List.map_filter (\<lambda>n. map_option (Pair (date n)) (ask (date n))) [1, 2, 3, 4]"

fun rewards_by_market :: "(string \<Rightarrow> 'r list option) \<Rightarrow> string list \<Rightarrow> (string \<times> 'r list) list" where
  "rewards_by_market ask [] = []"
| "rewards_by_market ask (d # ds) =
     (case ask d of
        None \<Rightarrow> rewards_by_market ask ds
      | Some [] \<Rightarrow> (d, []) # rewards_by_market ask ds
      | Some rs \<Rightarrow> [(d, rs)])"

text \<open>The way of the public request, and of the account made when the password is known.\<close>

definition probe_ways :: "services \<Rightarrow> wallet_row \<Rightarrow> string option \<times> api option" where
  "probe_ways sv w = (parse_proxy (wa_proxy w), open_wallet sv w)"

section \<open>Batch rewards against precise ones\<close>

definition sample :: nat where
  "sample = 80"

text \<open>\<open>_precise_rate\<close>; the reader of the client has turned a failed request into no rows already.\<close>

definition precise_rate :: "rat list list \<Rightarrow> rat option" where
  "precise_rate raw = (if raw = [] then None else Some (sum_list (concat raw)))"

record comparison =
  cm_checked :: nat
  cm_empty :: nat
  cm_differ :: "(string \<times> rat \<times> rat) list"

definition compare_rewards :: "(string \<Rightarrow> rat list list) \<Rightarrow> (string \<times> rat list) list \<Rightarrow> comparison" where
  "compare_rewards precise markets =
     (let ms = filter (\<lambda>(c, rates). c \<noteq> []) (take sample markets);
          known = List.map_filter (\<lambda>(c, rates). map_option (\<lambda>p. (c, sum_list rates, p)) (precise_rate (precise c))) ms
      in \<lparr>cm_checked = length ms, cm_empty = length (filter (\<lambda>(c, rates). precise_rate (precise c) = None) ms),
          cm_differ = filter (\<lambda>(c, b, p). 1 / 10 ^ 6 < \<bar>b - p\<bar>) known\<rparr>)"

text \<open>What is printed at the end: all the same, the precise requests can go.\<close>

definition all_same :: "comparison \<Rightarrow> bool" where
  "all_same c \<longleftrightarrow> cm_differ c = []"

section \<open>What the scripts show\<close>

lemma new_api_proxy: "new_api sv key sig funder proxy = Some a \<Longrightarrow> ap_proxy a = parse_proxy proxy"
  by (auto simp: new_api_def Let_def split: if_splits option.splits)

text \<open>The dump of trades asks everything past the proxy of the wallet, also when the account of the same wallet anywhere else in
  the program, the probe included, would use it.\<close>

lemma dump_leaves_the_proxy:
  assumes "dump_trades sv derive digest stored password (w # ws) ask positions = Dumped d"
    and "parse_proxy (wa_proxy w) = Some p" and "open_wallet sv w = Some own"
  shows "ap_proxy (dm_account d) = None" and "ap_proxy own = Some p" and "probe_ways sv w = (Some p, Some own)"
proof -
  obtain a where "open_wallet sv (w\<lparr>wa_proxy := []\<rparr>) = Some a" "dm_account d = a"
    using assms(1) by (auto simp: dump_trades_def split: sum.splits option.splits list.splits)
  then show "ap_proxy (dm_account d) = None"
    by (auto simp: open_wallet_def parse_proxy_def strip_def dest!: new_api_proxy split: option.splits)
  show "ap_proxy own = Some p" using assms(2,3) by (auto simp: open_wallet_def dest!: new_api_proxy split: option.splits)
  show "probe_ways sv w = (Some p, Some own)" by (simp add: probe_ways_def assms)
qed

text \<open>When the comparison finds no difference, every sampled market with a precise reward has the same batch reward up to a
  millionth; markets without one say nothing, and if no precise request succeeds the verdict is the same.\<close>

lemma same_rewards:
  assumes "all_same (compare_rewards precise markets)" and "(c, rates) \<in> set (take sample markets)" and "c \<noteq> []" and "precise c \<noteq> []"
  shows "\<bar>sum_list rates - sum_list (concat (precise c))\<bar> \<le> 1 / 10 ^ 6"
proof (rule ccontr)
  assume "\<not> ?thesis"
  then have "(c, sum_list rates, sum_list (concat (precise c))) \<in> set (cm_differ (compare_rewards precise markets))"
    using assms(2-4) by (auto simp: compare_rewards_def Let_def precise_rate_def map_filter_def image_iff intro!: bexI [of _ "(c, rates)"])
  then show False using assms(1) by (auto simp: all_same_def)
qed

lemma same_without_evidence: "all_same (compare_rewards (\<lambda>_. []) markets)"
  by (auto simp: all_same_def compare_rewards_def Let_def precise_rate_def map_filter_def filter_empty_conv)

text \<open>The counts of a dumped position agree with what the monitor would read: a token that occurs in no maker order of ours has
  only fills as taker.\<close>

lemma unseen_asset_fills:
  assumes "asset_inventory trades funder asset = 0"
  shows "extract_fills trades funder asset = map taker_fill (filter (\<lambda>tr. \<not> we_are_maker funder tr \<and> upper (tr_trader_side tr) = ''TAKER'' \<and> tr_asset tr = asset) trades)"
proof -
  have none: "filter (\<lambda>mo. ours funder mo \<and> mo_asset mo = asset) (tr_makers tr) = []" if "tr \<in> set trades" for tr
    using assms that by (auto simp: asset_inventory_def filter_empty_conv)
  have "trade_fills funder asset tr = (if \<not> we_are_maker funder tr \<and> upper (tr_trader_side tr) = ''TAKER'' \<and> tr_asset tr = asset then [taker_fill tr] else [])"
    if "tr \<in> set trades" for tr
    by (simp add: trade_fills_def none [OF that])
  then show ?thesis
    unfolding extract_fills_def by (induction trades) auto
qed

end
