(* ===== verification/Merge_Store.thy ===== *)
theory Merge_Store
  imports Prelude "HOL-Library.Option_ord"
begin

text \<open>
  The table of merge operations (\<open>models/database.py\<close>): creation guarded by the partial
  unique index on active rows, update of white-listed fields, look-ups and listings. The
  locale \<open>event_log\<close> states what a client may rely on; every sequence of operations keeps
  at most one active row per wallet and market.
\<close>

datatype route = PAIR | FOK_MERGE

datatype status = READY | SUBMITTED | CONFIRMED | FAILED

record mevent =
  me_id :: int
  me_wallet :: string
  me_cid :: string
  me_yes :: string
  me_no :: string
  me_route :: route
  me_amount :: rat
  me_yes_cost :: rat
  me_no_cost :: rat
  me_order :: string
  me_cstatus :: string
  me_recovered :: rat
  me_pnl :: rat
  me_tx :: string
  me_status :: status
  me_error :: string
  me_created :: rat
  me_updated :: rat
  me_confirmed :: "rat option"

text \<open>The rows in the order of their ids, and the next AUTOINCREMENT id.\<close>

record mstore =
  ms_rows :: "mevent list"
  ms_next :: int

definition is_active :: "mevent \<Rightarrow> bool" where
  "is_active e \<longleftrightarrow> me_status e = READY \<or> me_status e = SUBMITTED"

definition active_for :: "string \<Rightarrow> string \<Rightarrow> mevent \<Rightarrow> bool" where
  "active_for wallet cid e \<longleftrightarrow> me_wallet e = wallet \<and> me_cid e = cid \<and> is_active e"

text \<open>The partial unique index \<open>idx_merge_events_active\<close>.\<close>

definition index_ok :: "mevent list \<Rightarrow> bool" where
  "index_ok rows \<longleftrightarrow> (\<forall>e \<in> set rows. \<forall>f \<in> set rows.
     is_active e \<and> is_active f \<and> me_wallet e = me_wallet f \<and> me_cid e = me_cid f \<longrightarrow> me_id e = me_id f)"

definition new_event ::
    "rat \<Rightarrow> int \<Rightarrow> string \<Rightarrow> string \<Rightarrow> route \<Rightarrow> rat \<Rightarrow> string \<Rightarrow> string \<Rightarrow> rat \<Rightarrow> rat \<Rightarrow> string \<Rightarrow> mevent" where
  "new_event now i wallet cid rt amount yes no yes_cost no_cost ord =
     \<lparr>me_id = i, me_wallet = wallet, me_cid = cid, me_yes = yes, me_no = no, me_route = rt,
      me_amount = amount, me_yes_cost = yes_cost, me_no_cost = no_cost, me_order = ord,
      me_cstatus = '''', me_recovered = 0, me_pnl = 0, me_tx = '''', me_status = READY,
      me_error = '''', me_created = of_int \<lfloor>now\<rfloor>, me_updated = of_int \<lfloor>now\<rfloor>,
      me_confirmed = None\<rparr>"

text \<open>None is the IntegrityError of the index.\<close>

definition create_merge_event ::
    "rat \<Rightarrow> string \<Rightarrow> string \<Rightarrow> route \<Rightarrow> rat \<Rightarrow> string \<Rightarrow> string \<Rightarrow> rat \<Rightarrow> rat \<Rightarrow> string \<Rightarrow> mstore \<Rightarrow>
     (int \<times> mstore) option" where
  "create_merge_event now wallet cid rt amount yes no yes_cost no_cost ord st =
     (if list_ex (active_for wallet cid) (ms_rows st) then None
      else Some (ms_next st,
        \<lparr>ms_rows = ms_rows st @ [new_event now (ms_next st) wallet cid rt amount yes no yes_cost no_cost ord],
         ms_next = ms_next st + 1\<rparr>))"

definition get_active_merge_event :: "string \<Rightarrow> string \<Rightarrow> mstore \<Rightarrow> mevent option" where
  "get_active_merge_event wallet cid st = find (active_for wallet cid) (rev (ms_rows st))"

definition get_merge_event :: "int \<Rightarrow> mstore \<Rightarrow> mevent option" where
  "get_merge_event i st = find (\<lambda>e. me_id e = i) (ms_rows st)"

text \<open>The fields an update may set; any other name is a ValueError.\<close>

datatype mfield =
    Set_yes string | Set_no string | Set_route route | Set_amount rat | Set_yes_cost rat
  | Set_no_cost rat | Set_order string | Set_cstatus string | Set_recovered rat | Set_pnl rat
  | Set_tx string | Set_status status | Set_error string | Set_confirmed "rat option" | Set_other string

fun set_field :: "mfield \<Rightarrow> mevent \<Rightarrow> mevent" where
  "set_field (Set_yes v) e = e\<lparr>me_yes := v\<rparr>"
| "set_field (Set_no v) e = e\<lparr>me_no := v\<rparr>"
| "set_field (Set_route v) e = e\<lparr>me_route := v\<rparr>"
| "set_field (Set_amount v) e = e\<lparr>me_amount := v\<rparr>"
| "set_field (Set_yes_cost v) e = e\<lparr>me_yes_cost := v\<rparr>"
| "set_field (Set_no_cost v) e = e\<lparr>me_no_cost := v\<rparr>"
| "set_field (Set_order v) e = e\<lparr>me_order := v\<rparr>"
| "set_field (Set_cstatus v) e = e\<lparr>me_cstatus := v\<rparr>"
| "set_field (Set_recovered v) e = e\<lparr>me_recovered := v\<rparr>"
| "set_field (Set_pnl v) e = e\<lparr>me_pnl := v\<rparr>"
| "set_field (Set_tx v) e = e\<lparr>me_tx := v\<rparr>"
| "set_field (Set_status v) e = e\<lparr>me_status := v\<rparr>"
| "set_field (Set_error v) e = e\<lparr>me_error := v\<rparr>"
| "set_field (Set_confirmed v) e = e\<lparr>me_confirmed := v\<rparr>"
| "set_field (Set_other v) e = e"

definition allowed :: "mfield \<Rightarrow> bool" where
  "allowed f = (case f of Set_other _ \<Rightarrow> False | _ \<Rightarrow> True)"

definition apply_fields :: "rat \<Rightarrow> mfield list \<Rightarrow> mevent \<Rightarrow> mevent" where
  "apply_fields now fs e = (fold set_field fs e)\<lparr>me_updated := of_int \<lfloor>now\<rfloor>\<rparr>"

text \<open>\<open>update_merge_event\<close>: None is a ValueError for a field that is not allowed or the
IntegrityError of the index; the number is the row count.\<close>

definition update_merge_event :: "rat \<Rightarrow> int \<Rightarrow> mfield list \<Rightarrow> mstore \<Rightarrow> (nat \<times> mstore) option" where
  "update_merge_event now i fs st =
     (if \<not> list_all allowed fs then None
      else if fs = [] then Some (0, st)
      else
        let rows = map (\<lambda>e. if me_id e = i then apply_fields now fs e else e) (ms_rows st)
        in if index_ok rows then
             Some (length (filter (\<lambda>e. me_id e = i) (ms_rows st)), st\<lparr>ms_rows := rows\<rparr>)
           else None)"

definition list_filter ::
    "string \<Rightarrow> status list \<Rightarrow> rat option \<Rightarrow> rat option \<Rightarrow> mevent \<Rightarrow> bool" where
  "list_filter wallet statuses from_t to_t e \<longleftrightarrow>
     (wallet \<noteq> '''' \<longrightarrow> me_wallet e = wallet) \<and> (statuses \<noteq> [] \<longrightarrow> me_status e \<in> set statuses) \<and>
     (or0 from_t \<noteq> 0 \<longrightarrow> or0 from_t \<le> me_created e) \<and> (or0 to_t \<noteq> 0 \<longrightarrow> me_created e \<le> or0 to_t)"

definition list_merge_events ::
    "string \<Rightarrow> status list \<Rightarrow> rat option \<Rightarrow> rat option \<Rightarrow> nat \<Rightarrow> nat \<Rightarrow> mstore \<Rightarrow> mevent list \<times> nat" where
  "list_merge_events wallet statuses from_t to_t limit offset st =
     (let hits = filter (list_filter wallet statuses from_t to_t) (ms_rows st)
      in (take limit (drop offset (sort_desc me_created (rev hits))), length hits))"

definition get_confirmed_merge_events ::
    "rat option \<Rightarrow> rat option \<Rightarrow> string \<Rightarrow> mstore \<Rightarrow> mevent list" where
  "get_confirmed_merge_events from_ts to_ts wallet st =
     sort_key me_confirmed (filter (\<lambda>e. me_status e = CONFIRMED \<and> (wallet \<noteq> '''' \<longrightarrow> me_wallet e = wallet) \<and>
       (case from_ts of None \<Rightarrow> True | Some t \<Rightarrow> (case me_confirmed e of Some c \<Rightarrow> t \<le> c | None \<Rightarrow> False)) \<and>
       (case to_ts of None \<Rightarrow> True | Some t \<Rightarrow> (case me_confirmed e of Some c \<Rightarrow> c \<le> t | None \<Rightarrow> False)))
       (ms_rows st))"

definition count_active_merge_events :: "string \<Rightarrow> mstore \<Rightarrow> nat" where
  "count_active_merge_events wallet st =
     length (filter (\<lambda>e. is_active e \<and> (wallet \<noteq> '''' \<longrightarrow> me_wallet e = wallet)) (ms_rows st))"

section \<open>The invariant of the table\<close>

text \<open>Ids are distinct and below the next id, and the index holds.\<close>

definition store_inv :: "mstore \<Rightarrow> bool" where
  "store_inv st \<longleftrightarrow> distinct (map me_id (ms_rows st)) \<and> (\<forall>e \<in> set (ms_rows st). me_id e < ms_next st) \<and>
     index_ok (ms_rows st)"

lemma store_inv_empty: "store_inv \<lparr>ms_rows = [], ms_next = n\<rparr>"
  by (simp add: store_inv_def index_ok_def)

lemma set_field_keys [simp]:
  "me_id (set_field f e) = me_id e" "me_wallet (set_field f e) = me_wallet e" "me_cid (set_field f e) = me_cid e"
  "me_created (set_field f e) = me_created e"
  by (cases f; simp)+

lemma fold_field_keys [simp]:
  "me_id (fold set_field fs e) = me_id e" "me_wallet (fold set_field fs e) = me_wallet e"
  "me_cid (fold set_field fs e) = me_cid e" "me_created (fold set_field fs e) = me_created e"
  by (induction fs arbitrary: e) simp_all

lemma apply_fields_keys [simp]:
  "me_id (apply_fields now fs e) = me_id e" "me_wallet (apply_fields now fs e) = me_wallet e"
  "me_cid (apply_fields now fs e) = me_cid e"
  by (simp_all add: apply_fields_def)

lemma new_event_simps [simp]:
  "me_id (new_event now i w c rt q yes no yc nc ord) = i"
  "me_wallet (new_event now i w c rt q yes no yc nc ord) = w"
  "me_cid (new_event now i w c rt q yes no yc nc ord) = c"
  "me_status (new_event now i w c rt q yes no yc nc ord) = READY"
  by (simp_all add: new_event_def)

lemma create_Some:
  assumes "create_merge_event now w c rt q yes no yc nc ord st = Some (i, st')"
  shows "i = ms_next st" "\<not> list_ex (active_for w c) (ms_rows st)"
    "ms_rows st' = ms_rows st @ [new_event now i w c rt q yes no yc nc ord]" "ms_next st' = i + 1"
  using assms by (auto simp: create_merge_event_def split: if_splits)

lemma index_ok_snoc:
  assumes "index_ok rows" "\<not> list_ex (active_for (me_wallet e) (me_cid e)) rows"
  shows "index_ok (rows @ [e])"
proof -
  have new: "is_active f \<Longrightarrow> me_wallet f = me_wallet e \<Longrightarrow> me_cid f \<noteq> me_cid e" if "f \<in> set rows" for f
    using assms(2) that by (simp add: list_ex_iff active_for_def) metis
  show ?thesis unfolding index_ok_def
  proof (intro ballI impI)
    fix f g
    assume in_rows: "f \<in> set (rows @ [e])" "g \<in> set (rows @ [e])"
      and act: "is_active f \<and> is_active g \<and> me_wallet f = me_wallet g \<and> me_cid f = me_cid g"
    show "me_id f = me_id g"
    proof (cases "f = e \<or> g = e")
      case True
      then consider "f = e" "g = e" | "f = e" "g \<in> set rows" | "g = e" "f \<in> set rows"
        using in_rows by auto
      then show ?thesis
      proof cases
        case 2
        then show ?thesis using new [OF 2(2)] act by metis
      next
        case 3
        then show ?thesis using new [OF 3(2)] act by metis
      qed simp
    next
      case False
      then have "f \<in> set rows" "g \<in> set rows" using in_rows by auto
      then show ?thesis using assms(1) act unfolding index_ok_def by blast
    qed
  qed
qed

lemma create_inv:
  assumes "create_merge_event now w c rt q yes no yc nc ord st = Some (i, st')" "store_inv st"
  shows "store_inv st'"
proof -
  note new = create_Some [OF assms(1)]
  have "index_ok (ms_rows st')"
    unfolding new(3) by (rule index_ok_snoc) (use assms(2) new(2) in \<open>simp_all add: store_inv_def\<close>)
  moreover have lt: "\<forall>e \<in> set (ms_rows st). me_id e < i"
    using assms(2) new(1) by (simp add: store_inv_def)
  then have "distinct (map me_id (ms_rows st'))" "\<forall>e \<in> set (ms_rows st'). me_id e < ms_next st'"
    using assms(2) unfolding new(3,4) by (auto simp: store_inv_def)
  ultimately show ?thesis by (simp add: store_inv_def)
qed

lemma map_id_update:
  "map me_id (map (\<lambda>e. if me_id e = i then apply_fields now fs e else e) rows) = map me_id rows"
  by (induction rows) auto

lemma update_inv:
  assumes "update_merge_event now i fs st = Some (n, st')" "store_inv st"
  shows "store_inv st'"
proof -
  from assms(1) consider "st' = st"
    | "st' = st\<lparr>ms_rows := map (\<lambda>e. if me_id e = i then apply_fields now fs e else e) (ms_rows st)\<rparr>"
      "index_ok (ms_rows st')"
    by (auto simp: update_merge_event_def Let_def split: if_splits)
  then show ?thesis
  proof cases
    case 2
    then show ?thesis using assms(2) map_id_update [of i now fs "ms_rows st"]
      by (auto simp: store_inv_def simp del: map_map)
  qed (use assms(2) in simp)
qed

lemma get_active_iff:
  "get_active_merge_event w c st = None \<longleftrightarrow> \<not> list_ex (active_for w c) (ms_rows st)"
  by (auto simp: get_active_merge_event_def find_None_iff list_ex_iff)

lemma get_event_Some:
  assumes "store_inv st" "e \<in> set (ms_rows st)"
  shows "get_merge_event (me_id e) st = Some e"
proof (cases "get_merge_event (me_id e) st")
  case None
  with assms show ?thesis by (auto simp: get_merge_event_def find_None_iff)
next
  case (Some f)
  then have "f \<in> set (ms_rows st)" "me_id f = me_id e"
    unfolding get_merge_event_def by (auto dest: find_SomeD)
  with assms Some show ?thesis by (auto simp: store_inv_def distinct_map inj_on_def)
qed

section \<open>The contract of the table\<close>

text \<open>Operations are abstract here: the arguments of a creation apart from its key, and the
arguments of an update, are of type \<open>'a\<close> and \<open>'b\<close>.\<close>

locale event_log =
  fixes rows :: "'s \<Rightarrow> mevent list"
    and inv :: "'s \<Rightarrow> bool"
    and create :: "string \<Rightarrow> string \<Rightarrow> 'a \<Rightarrow> 's \<Rightarrow> 's option"
    and update :: "'b \<Rightarrow> 's \<Rightarrow> 's option"
    and active :: "string \<Rightarrow> string \<Rightarrow> 's \<Rightarrow> mevent option"
  assumes inv_index: "inv s \<Longrightarrow> index_ok (rows s) \<and> distinct (map me_id (rows s))"
    and create_keeps: "create w c a s = Some s' \<Longrightarrow> inv s \<Longrightarrow> inv s'"
    and update_keeps: "update b s = Some s' \<Longrightarrow> inv s \<Longrightarrow> inv s'"
    and create_active: "create w c a s = Some s' \<Longrightarrow> active w c s = None \<and> active w c s' \<noteq> None"
    and active_row: "active w c s = None \<longleftrightarrow> \<not> list_ex (active_for w c) (rows s)"
    and create_free: "active w c s = None \<Longrightarrow> create w c a s \<noteq> None"
begin

lemma second_create_fails: "create w c a s = Some s' \<Longrightarrow> create w c b s' = None"
  using create_active [of w c a s s'] create_active [of w c b s'] by (cases "create w c b s'") auto

lemma one_active:
  assumes "inv s"
  shows "length (filter (active_for w c) (rows s)) \<le> 1"
proof (rule ccontr)
  let ?h = "filter (active_for w c) (rows s)"
  assume "\<not> ?thesis"
  then have "0 < length ?h" "1 < length ?h" by linarith+
  then have m: "?h ! 0 \<in> set ?h" "?h ! 1 \<in> set ?h" by (simp_all only: nth_mem)
  then have "me_id (?h ! 0) = me_id (?h ! 1)"
    using inv_index [OF assms] by (auto simp: index_ok_def active_for_def)
  moreover have "distinct (map me_id ?h)"
    using inv_index [OF assms] by (simp add: distinct_map_filter)
  ultimately show False using \<open>0 < length ?h\<close> \<open>1 < length ?h\<close> nth_eq_iff_index_eq [of "map me_id ?h" 0 1] by simp
qed

end

interpretation merge_log: event_log ms_rows store_inv
  "\<lambda>w c (now, rt, q, yes, no, yc, nc, ord) st. map_option snd (create_merge_event now w c rt q yes no yc nc ord st)"
  "\<lambda>(now, i, fs) st. map_option snd (update_merge_event now i fs st)"
  get_active_merge_event
proof (unfold_locales, goal_cases)
  case (1 s)
  then show ?case by (simp add: store_inv_def)
next
  case (2 w c a s s')
  then show ?case by (cases a) (auto dest: create_inv)
next
  case (3 b s s')
  then show ?case by (cases b) (auto dest: update_inv)
next
  case (4 w c a s s')
  then show ?case
    by (cases a) (auto simp: get_active_iff create_merge_event_def active_for_def is_active_def list_ex_iff split: if_splits)
next
  case (5 w c s)
  then show ?case by (rule get_active_iff)
next
  case (6 w c s a)
  then show ?case by (simp add: get_active_iff create_merge_event_def split: prod.splits)
qed

section \<open>Properties\<close>

inductive store_reach :: "mstore \<Rightarrow> bool" where
  empty: "store_reach \<lparr>ms_rows = [], ms_next = 1\<rparr>"
| create: "store_reach st \<Longrightarrow> create_merge_event now w c rt q yes no yc nc ord st = Some (i, st') \<Longrightarrow> store_reach st'"
| update: "store_reach st \<Longrightarrow> update_merge_event now i fs st = Some (n, st') \<Longrightarrow> store_reach st'"

lemma store_reach_inv: "store_reach st \<Longrightarrow> store_inv st"
  by (induction rule: store_reach.induct) (auto simp: store_inv_empty dest: create_inv update_inv)

text \<open>However the table is reached from an empty one by creations and updates, a wallet has
at most one active merge operation per market, a second creation for a key that is active
is refused, and creation succeeds when nothing is active.\<close>

theorem store_one_active:
  assumes "store_reach st"
  shows "length (filter (active_for w c) (ms_rows st)) \<le> 1 \<and>
    (create_merge_event now w c rt q yes no yc nc ord st = None \<longleftrightarrow> get_active_merge_event w c st \<noteq> None) \<and>
    (case create_merge_event now w c rt q yes no yc nc ord st of None \<Rightarrow> True
     | Some (i, st') \<Rightarrow> (\<exists>e. get_active_merge_event w c st' = Some e \<and> me_id e = i \<and> me_status e = READY) \<and>
         create_merge_event now' w c rt' q' yes' no' yc' nc' ord' st' = None)"
proof -
  have inv: "store_inv st" using assms by (rule store_reach_inv)
  have act: "active_for w c (new_event now i w c rt q yes no yc nc ord)" for i
    by (simp add: active_for_def is_active_def)
  show ?thesis
    using merge_log.one_active [OF inv, of w c] act
    unfolding get_active_iff [of w c st] create_merge_event_def
    by (simp add: get_active_merge_event_def)
qed

lemma store_one_active_witness:
  "\<exists>i st'. create_merge_event 5 ''w'' ''m'' PAIR 10 ''y'' ''n'' 4 5 '''' \<lparr>ms_rows = [], ms_next = 1\<rparr> = Some (i, st') \<and>
    create_merge_event 6 ''w'' ''m'' FOK_MERGE 3 ''y'' ''n'' 1 0 '''' st' = None"
  using store_one_active [OF store_reach.empty, where w = "''w''" and c = "''m''" and now = 5 and rt = PAIR and q = 10
      and yes = "''y''" and no = "''n''" and yc = 4 and nc = 5 and ord = "[]" and now' = 6 and rt' = FOK_MERGE
      and q' = 3 and yes' = "''y''" and no' = "''n''" and yc' = 1 and nc' = 0 and ord' = "[]"]
  by (simp add: create_merge_event_def)

text \<open>The confirmed events used for the books are exactly the wallet's CONFIRMED rows of
the window, in order of confirmation; the paged listing returns the newest rows first,
at most as many as asked for, with the total of the whole selection, and the number of
active operations counts the READY and SUBMITTED rows.\<close>

theorem merge_listings:
  "set (get_confirmed_merge_events (Some a) (Some b) w st) =
     {e \<in> set (ms_rows st). me_status e = CONFIRMED \<and> (w = '''' \<or> me_wallet e = w) \<and>
        (\<exists>t. me_confirmed e = Some t \<and> a \<le> t \<and> t \<le> b)} \<and>
   sorted (map me_confirmed (get_confirmed_merge_events (Some a) (Some b) w st)) \<and>
   (case list_merge_events w ss f u n k st of (rows, cnt) \<Rightarrow>
      length rows \<le> n \<and> cnt = length (filter (list_filter w ss f u) (ms_rows st)) \<and>
      set rows \<subseteq> {e \<in> set (ms_rows st). list_filter w ss f u e} \<and>
      sorted_wrt (\<lambda>x y. me_created y \<le> me_created x) rows) \<and>
   count_active_merge_events w st = length (filter (\<lambda>e. list_filter w [READY, SUBMITTED] None None e) (ms_rows st))"
proof -
  have "sorted_wrt P (take n (drop m xs))" if "sorted_wrt P xs" for P :: "mevent \<Rightarrow> mevent \<Rightarrow> bool" and n m xs
    using that by (metis append_take_drop_id sorted_wrt_append)
  then have "sorted_wrt (\<lambda>x y. me_created y \<le> me_created x) (take n (drop k (sort_desc me_created xs)))" for xs :: "mevent list"
    by this (rule sort_desc_wrt)
  moreover have "set (take n (drop k (sort_desc me_created (rev (filter (list_filter w ss f u) (ms_rows st))))))
      \<subseteq> {e \<in> set (ms_rows st). list_filter w ss f u e}"
    by (auto dest!: in_set_takeD in_set_dropD)
  ultimately have listed: "case list_merge_events w ss f u n k st of (rows, cnt) \<Rightarrow>
      length rows \<le> n \<and> cnt = length (filter (list_filter w ss f u) (ms_rows st)) \<and>
      set rows \<subseteq> {e \<in> set (ms_rows st). list_filter w ss f u e} \<and>
      sorted_wrt (\<lambda>x y. me_created y \<le> me_created x) rows"
    by (simp add: list_merge_events_def Let_def)
  have confirmed: "set (get_confirmed_merge_events (Some a) (Some b) w st) =
     {e \<in> set (ms_rows st). me_status e = CONFIRMED \<and> (w = '''' \<or> me_wallet e = w) \<and>
        (\<exists>t. me_confirmed e = Some t \<and> a \<le> t \<and> t \<le> b)}"
    by (auto simp: get_confirmed_merge_events_def split: option.splits)
  have "(\<lambda>e. is_active e \<and> (w \<noteq> '''' \<longrightarrow> me_wallet e = w)) = list_filter w [READY, SUBMITTED] None None"
    by (auto simp: fun_eq_iff is_active_def list_filter_def)
  then have "count_active_merge_events w st = length (filter (list_filter w [READY, SUBMITTED] None None) (ms_rows st))"
    by (simp add: count_active_merge_events_def)
  moreover have "sorted (map me_confirmed (get_confirmed_merge_events (Some a) (Some b) w st))"
    by (simp add: get_confirmed_merge_events_def)
  ultimately show ?thesis using listed confirmed by blast
qed

end
