(* ===== verification/Exit_Status.thy ===== *)
theory Exit_Status
  imports Merge_Store
begin

text \<open>
  The in-process status snapshot of the quick exit and its texts
  (\<open>engine/exit_status.py\<close>). The texts of the code are Chinese; each is a constructor here,
  with the number it shows.
\<close>

datatype xnote =
    N_pair_ready | N_pair_below_min | N_no_relayer | N_merge_active | N_fok_merge | N_fok
  | N_no_book | N_no_bids | N_fak_rejected | N_fak_failed | N_fak_full | N_fak_partial

datatype exit_text =
    X_dash | X_maker | X_maker_left int | X_maker_due | X_maker_no_ask | X_maker_book_moved
  | X_maker_failed | X_note xnote | X_pair_ready | X_submitted | X_confirmed | X_merge_failed
  | X_fok_delayed | X_fok_matched | X_fok

definition maker_wait_text :: "rat option \<Rightarrow> exit_text" where
  "maker_wait_text v = (case v of None \<Rightarrow> X_maker
     | Some sec \<Rightarrow> let r = int_trunc sec in if 0 < r then X_maker_left (max 0 r) else X_maker_due)"

definition merge_status_text :: "route \<Rightarrow> status \<Rightarrow> string \<Rightarrow> exit_text" where
  "merge_status_text rt s cstatus =
     (case rt of
        PAIR \<Rightarrow> (case s of READY \<Rightarrow> X_pair_ready | SUBMITTED \<Rightarrow> X_submitted
          | CONFIRMED \<Rightarrow> X_confirmed | FAILED \<Rightarrow> X_merge_failed)
      | FOK_MERGE \<Rightarrow> (case s of
            READY \<Rightarrow> if cstatus = ''delayed'' \<or> cstatus = ''pending'' then X_fok_delayed
              else if cstatus = ''matched'' \<or> cstatus = ''filled'' then X_fok_matched else X_fok
          | SUBMITTED \<Rightarrow> X_submitted | CONFIRMED \<Rightarrow> X_confirmed | FAILED \<Rightarrow> X_merge_failed))"

record snapshot =
  sn_assets :: "string \<Rightarrow> exit_text option"
  sn_conditions :: "string \<Rightarrow> exit_text option"
  sn_active :: nat
  sn_ts :: rat

text \<open>The dictionary of snapshots, in insertion order.\<close>

type_synonym snapshots = "(string \<times> snapshot) list"

fun set_snapshot :: "string \<Rightarrow> snapshot \<Rightarrow> snapshots \<Rightarrow> snapshots" where
  "set_snapshot wallet sn [] = [(wallet, sn)]"
| "set_snapshot wallet sn ((v, x) # xs) =
     (if v = wallet then (wallet, sn) # xs else (v, x) # set_snapshot wallet sn xs)"

fun get_status :: "string \<Rightarrow> string \<Rightarrow> snapshots \<Rightarrow> exit_text" where
  "get_status asset cid [] = X_dash"
| "get_status asset cid ((v, x) # xs) =
     (case (if asset \<noteq> '''' then sn_assets x asset else None) of
        Some t \<Rightarrow> t
      | None \<Rightarrow> (case (if cid \<noteq> '''' then sn_conditions x cid else None) of
          Some t \<Rightarrow> t | None \<Rightarrow> get_status asset cid xs))"

definition count_active :: "snapshots \<Rightarrow> nat" where
  "count_active xs = sum_list (map (\<lambda>(v, x). sn_active x) xs)"

end
