(* ===== verification/Take_Profit.thy ===== *)
theory Take_Profit
  imports Fifo Orders
begin

text \<open>
  Exit planning (\<open>engine/take_profit.py\<close>): tick rounding, the reconciliation of the sell
  orders of one position, the stop threshold, the price booked for a market sale and the
  two-stage exit decision \<open>plan_exit\<close>.
\<close>

section \<open>Tick rounding\<close>

definition ceil_to_tick :: "rat \<Rightarrow> rat \<Rightarrow> rat" where
  "ceil_to_tick price tick =
     (if tick \<le> 0 then price
      else let units = price / tick; nearest = py_round units in
        if \<bar>units - of_int nearest\<bar> < 1 / 10000 then round_to 10 (of_int nearest * tick)
        else round_to 10 (of_int \<lceil>units\<rceil> * tick))"

section \<open>One resting sell order per position\<close>

datatype tp_action = TP_noop | TP_keep | TP_replace

record tp_plan =
  tp_action :: tp_action
  tp_price :: "rat option"
  tp_size :: rat
  tp_cancel :: "string option list"

definition plan_take_profit :: "rat \<Rightarrow> rat option \<Rightarrow> rat \<Rightarrow> order list \<Rightarrow> tp_plan" where
  "plan_take_profit sz want_price tick sells =
     (case want_price of
        None \<Rightarrow> \<lparr>tp_action = TP_noop, tp_price = None, tp_size = 0, tp_cancel = []\<rparr>
      | Some want \<Rightarrow>
          if sz \<le> 0 \<or> want \<le> 0 \<or> tick \<le> 0
          then \<lparr>tp_action = TP_noop, tp_price = None, tp_size = 0, tp_cancel = []\<rparr>
          else if length sells = 1 \<and> price_matches (or0 (o_price (hd sells))) want tick \<and>
            size_matches (sum_list (map remaining sells)) sz
          then \<lparr>tp_action = TP_keep, tp_price = Some want, tp_size = sz, tp_cancel = []\<rparr>
          else \<lparr>tp_action = TP_replace, tp_price = Some want, tp_size = sz,
                tp_cancel = map o_id sells\<rparr>)"

section \<open>Stop threshold and market fill price\<close>

text \<open>\<open>float(v)\<close> raises on None and on a value that is not a number.\<close>

definition py_float :: "jnum \<Rightarrow> rat option" where
  "py_float v = (case v of JNum x \<Rightarrow> Some x | JNull \<Rightarrow> None | JBad \<Rightarrow> None)"

definition fixed_theta :: "jnum \<Rightarrow> rat option" where
  "fixed_theta cents = map_option (\<lambda>c. max 0 (c / 100)) (py_float cents)"

definition effective_theta_stop :: "jnum \<Rightarrow> string \<Rightarrow> jnum \<Rightarrow> jnum \<Rightarrow> rat option" where
  "effective_theta_stop cost mode percent cents =
     (if mode = ''off'' then None
      else
        let wanted = if mode = ''fixed'' then fixed_theta cents
          else (case (py_float cost, py_float percent) of
                  (Some c, Some p) \<Rightarrow> Some (max 0 (c * p / 100)) | _ \<Rightarrow> None)
        in case wanted of
          Some t \<Rightarrow> Some t
        | None \<Rightarrow> (case fixed_theta cents of Some t \<Rightarrow> Some t | None \<Rightarrow> Some (5 / 100)))"

text \<open>The response of a market order, when it is a dictionary: \<open>makingAmount\<close> and
\<open>takingAmount\<close>, read by \<open>float(v or 0)\<close>.\<close>

definition py_float_or0 :: "jnum \<Rightarrow> rat option" where
  "py_float_or0 v = (case v of JNum x \<Rightarrow> Some x | JNull \<Rightarrow> Some 0 | JBad \<Rightarrow> None)"

definition response_price :: "(jnum \<times> jnum) option \<Rightarrow> rat option" where
  "response_price resp =
     (case resp of None \<Rightarrow> None
      | Some (mk, tk) \<Rightarrow>
          (case (py_float_or0 mk, py_float_or0 tk) of
             (Some making, Some taking) \<Rightarrow>
               if 0 < making \<and> 0 < taking then
                 let p = taking / making in if 0 < p \<and> p \<le> 1 then Some p else None
               else None
           | _ \<Rightarrow> None))"

definition market_fill_price :: "(jnum \<times> jnum) option \<Rightarrow> rat option \<Rightarrow> rat \<Rightarrow> rat" where
  "market_fill_price resp best_bid cur =
     (case response_price resp of Some p \<Rightarrow> p
      | None \<Rightarrow> (case best_bid of Some b \<Rightarrow> if 0 < b then b else cur | None \<Rightarrow> cur))"

section \<open>The exit decision\<close>

datatype tier = Tier_A | Tier_A_market | Tier_B0 | Tier_B_park | Tier_none

datatype exit_action = Rest rat | Market | Exit_noop

record exit_plan =
  ep_tier :: tier
  ep_action :: exit_action
  ep_size :: rat

definition no_book :: "rat option \<Rightarrow> rat option \<Rightarrow> bool" where
  "no_book bid ask \<longleftrightarrow> bid = None \<and> (case ask of None \<Rightarrow> True | Some a \<Rightarrow> a \<le> 0)"

text \<open>\<open>theta_stop is not None and best_bid is not None and cost - best_bid >= theta_stop\<close>.\<close>

definition stop_hit :: "rat \<Rightarrow> rat option \<Rightarrow> rat option \<Rightarrow> bool" where
  "stop_hit cost bid theta =
     (case (theta, bid) of (Some t, Some b) \<Rightarrow> t \<le> cost - b | _ \<Rightarrow> False)"

text \<open>The unused parameters \<open>theta_loss\<close> and \<open>case_a_mode\<close> of the Python are left out.\<close>

definition plan_exit ::
    "rat \<Rightarrow> rat option \<Rightarrow> rat option \<Rightarrow> rat \<Rightarrow> rat option \<Rightarrow> rat \<Rightarrow> string \<Rightarrow> exit_plan" where
  "plan_exit cost bid ask tick theta sz mode =
     (let cost_floor = ceil_to_tick cost tick in
      if mode = ''market'' then
        if (case bid of Some b \<Rightarrow> cost < b | None \<Rightarrow> False)
        then \<lparr>ep_tier = Tier_A_market, ep_action = Market, ep_size = sz\<rparr>
        else if stop_hit cost bid theta
        then \<lparr>ep_tier = Tier_B0, ep_action = Market, ep_size = sz\<rparr>
        else if no_book bid ask
        then \<lparr>ep_tier = Tier_none, ep_action = Exit_noop, ep_size = 0\<rparr>
        else \<lparr>ep_tier = Tier_B_park, ep_action = Rest cost_floor, ep_size = sz\<rparr>
      else if (case bid of Some b \<Rightarrow> cost \<le> b | None \<Rightarrow> False) then
        let price = (case ask of Some a \<Rightarrow> if 0 < a then max a cost_floor else cost_floor
                     | None \<Rightarrow> cost_floor)
        in \<lparr>ep_tier = Tier_A, ep_action = Rest price, ep_size = sz\<rparr>
      else if stop_hit cost bid theta
      then \<lparr>ep_tier = Tier_B0, ep_action = Market, ep_size = sz\<rparr>
      else if no_book bid ask
      then \<lparr>ep_tier = Tier_none, ep_action = Exit_noop, ep_size = 0\<rparr>
      else \<lparr>ep_tier = Tier_B_park, ep_action = Rest cost_floor, ep_size = sz\<rparr>)"

section \<open>Properties\<close>

lemma round_to_tick:
  assumes "tick = of_int m / 10 ^ 10"
  shows "round_to 10 (of_int k * tick) = of_int k * tick"
  using round_to_grid [of 10 "k * m"] by (simp add: assms)

text \<open>On a tick that has at most ten decimals, \<open>ceil_to_tick\<close> returns a whole number of
ticks, less than one tick above the price, and never more than a ten-thousandth of a
tick below it; it is below the price only when the price was that close to a tick.\<close>

theorem ceil_to_tick_bounds:
  assumes "tick = of_int m / 10 ^ 10" "0 < m"
  shows "(\<exists>k. ceil_to_tick price tick = of_int k * tick) \<and>
    ceil_to_tick price tick < price + tick \<and> price - tick / 10000 < ceil_to_tick price tick \<and>
    (ceil_to_tick price tick < price \<longrightarrow> \<bar>price / tick - of_int (py_round (price / tick))\<bar> < 1 / 10000)"
proof -
  have tick: "0 < tick" using assms by simp
  define u n where "u = price / tick" and "n = py_round u"
  have price: "price = u * tick" using tick by (simp add: u_def)
  have cases: "ceil_to_tick price tick
    = (if \<bar>u - of_int n\<bar> < 1 / 10000 then of_int n * tick else of_int \<lceil>u\<rceil> * tick)"
    using tick by (simp add: ceil_to_tick_def Let_def u_def n_def round_to_tick [OF assms(1)])
  have scale: "a < b \<Longrightarrow> a * tick < b * tick" for a b :: rat
    using tick by simp
  show ?thesis
  proof (cases "\<bar>u - of_int n\<bar> < 1 / 10000")
    case True
    then have "of_int n < u + 1" "u - 1 / 10000 < of_int n" by linarith+
    from this [THEN scale] True cases have b: "ceil_to_tick price tick < price + tick"
      "price - tick / 10000 < ceil_to_tick price tick" by (simp_all add: price algebra_simps)
    from True cases have "\<exists>k. ceil_to_tick price tick = of_int k * tick" by auto
    with b True show ?thesis by (simp only: u_def n_def) simp
  next
    case False
    have "of_int \<lceil>u\<rceil> < u + 1" "u \<le> of_int \<lceil>u\<rceil>" "u - 1 / 10000 < of_int \<lceil>u\<rceil>"
      using ceiling_correct [of u] by linarith+
    then have "\<not> ceil_to_tick price tick < price"
      using False cases tick by (simp add: price not_less)
    with \<open>of_int \<lceil>u\<rceil> < u + 1\<close> \<open>u - 1 / 10000 < of_int \<lceil>u\<rceil>\<close>
      False cases scale [of "of_int \<lceil>u\<rceil>" "u + 1"] scale [of "u - 1 / 10000" "of_int \<lceil>u\<rceil>"] tick
    show ?thesis by (auto simp: price algebra_simps)
  qed
qed


lemma ceil_to_tick_witness:
  "(1/100 :: rat) = of_int 100000000 / 10 ^ 10 \<and> (0::int) < 100000000 \<and>
   ceil_to_tick (305/1000) (1/100) = 31/100 \<and> 305/1000 - (1/100) / 10000 < (31/100 :: rat)"
proof -
  have "ceil_to_tick (305/1000) (1/100) = (31/100 :: rat)"
    by (simp add: ceil_to_tick_def py_round_def Let_def round_to_def)
  with ceil_to_tick_bounds [of "1/100" 100000000 "305/1000"] show ?thesis by simp
qed

text \<open>C12: \<open>plan_exit\<close> never gives shares away: a resting price is never below the
tick-rounded cost, a market order is placed only into a bid above cost (market mode) or
when a stop threshold is configured and the loss to the bid has reached it; nothing is
done exactly when the book has neither a bid nor an ask, and every order covers the
whole position.\<close>

theorem plan_exit_safe:
  "let pl = plan_exit cost bid ask tick theta sz mode in
     (case ep_action pl of
        Rest p \<Rightarrow> ceil_to_tick cost tick \<le> p \<and> ep_tier pl \<in> {Tier_A, Tier_B_park} \<and> ep_size pl = sz
      | Market \<Rightarrow> ep_size pl = sz \<and> (\<exists>b. bid = Some b \<and>
          (if ep_tier pl = Tier_A_market then mode = ''market'' \<and> cost < b
           else ep_tier pl = Tier_B0 \<and> (\<exists>t. theta = Some t \<and> t \<le> cost - b)))
      | Exit_noop \<Rightarrow> ep_tier pl = Tier_none \<and> ep_size pl = 0) \<and>
     (ep_action pl = Exit_noop \<longleftrightarrow> no_book bid ask)"
  by (cases bid; cases ask; cases theta)
    (simp_all add: plan_exit_def Let_def stop_hit_def no_book_def)

text \<open>With the stop switched off (threshold None) and a mode other than market,
\<open>plan_exit\<close> never sends a market order; in market mode it sends one only above cost. A
position in profit in maker mode rests at the ask, never under cost.\<close>

theorem plan_exit_no_stop:
  "(ep_action (plan_exit cost bid ask tick None sz mode) = Market \<longleftrightarrow>
      mode = ''market'' \<and> (\<exists>b. bid = Some b \<and> cost < b)) \<and>
   (mode \<noteq> ''market'' \<longrightarrow> bid = Some b \<longrightarrow> cost \<le> b \<longrightarrow> ask = Some a \<longrightarrow> 0 < a \<longrightarrow>
      ep_action (plan_exit cost bid ask tick theta sz mode) = Rest (max a (ceil_to_tick cost tick)))"
  by (cases bid; cases ask)
    (auto simp: plan_exit_def Let_def stop_hit_def no_book_def)

lemma plan_exit_no_stop_witness:
  "ep_action (plan_exit (2/5) (Some (9/20)) (Some (1/2)) (1/100) (Some (1/20)) 100 ''maker'')
    = Rest (1/2)"
proof -
  have "ceil_to_tick (2/5) (1/100) = (2/5 :: rat)"
    by (simp add: ceil_to_tick_def py_round_def Let_def round_to_def)
  with plan_exit_no_stop [of "2/5" "Some (9/20)" "Some (1/2)" "1/100" 100 "''maker''" "9/20" "1/2"
      "Some (1/20)"]
  show ?thesis by simp
qed

text \<open>The reconciliation of sell orders converges: after a replace (all old orders
cancelled, one order of the planned size placed at the planned price) the next round
keeps the order; a keep cancels nothing, a replace cancels every old order and plans the
whole position, and orders are touched only for a positive size, price and tick.\<close>

theorem plan_take_profit_converges:
  "let pl = plan_take_profit sz w tick sells in
     (tp_action pl = TP_noop \<longleftrightarrow> sz \<le> 0 \<or> tick \<le> 0 \<or> (case w of None \<Rightarrow> True | Some p \<Rightarrow> p \<le> 0)) \<and>
     (tp_action pl \<noteq> TP_noop \<longrightarrow> tp_price pl = w \<and> tp_size pl = sz) \<and>
     (tp_action pl = TP_replace \<longrightarrow> tp_cancel pl = map o_id sells \<and>
        tp_action (plan_take_profit sz w tick [fresh_order oid (the (tp_price pl)) (tp_size pl)]) = TP_keep) \<and>
     (tp_action pl = TP_keep \<longrightarrow> length sells = 1 \<and> tp_cancel pl = [])"
proof (cases w)
  case None
  then show ?thesis by (simp add: plan_take_profit_def)
next
  case (Some p)
  have "or0 (o_price (fresh_order oid p sz)) = p" by (simp add: fresh_order_def)
  with Some show ?thesis by (simp add: plan_take_profit_def Let_def)
qed

lemma plan_take_profit_witness:
  "tp_action (plan_take_profit 100 (Some (1/2)) (1/100) [fresh_order ''old'' (2/5) 100]) = TP_replace \<and>
   tp_action (plan_take_profit 100 (Some (1/2)) (1/100) [fresh_order ''new'' (1/2) 100]) = TP_keep"
proof -
  let ?pl = "plan_take_profit 100 (Some (1/2)) (1/100) [fresh_order ''old'' (2/5) 100]"
  have r: "tp_action ?pl = TP_replace" "tp_price ?pl = Some (1/2)" "tp_size ?pl = 100"
    by (simp_all add: plan_take_profit_def fresh_order_def price_matches_def)
  with plan_take_profit_converges [of 100 "Some (1/2)" "1/100" "[fresh_order ''old'' (2/5) 100]" "''new''"]
  show ?thesis by (simp only: Let_def option.sel)
qed

text \<open>The effective stop threshold is None exactly when the mode is off, is never
negative, equals cents/100 in fixed mode and cost times percent in percent mode, and
falls back to the fixed cents, then to five cents, on unreadable parameters. It is zero
when the readable percentage is not positive, and then any bid below cost is sold into at
the market.\<close>

theorem effective_theta_stop_spec:
  "(effective_theta_stop cost mode percent cents = None \<longleftrightarrow> mode = ''off'') \<and>
   (\<forall>t. effective_theta_stop cost mode percent cents = Some t \<longrightarrow> 0 \<le> t) \<and>
   effective_theta_stop cost ''fixed'' percent (JNum c) = Some (max 0 (c / 100)) \<and>
   effective_theta_stop (JNum k) ''percent'' (JNum p) cents = Some (max 0 (k * p / 100)) \<and>
   effective_theta_stop cost ''percent'' JBad (JNum c) = Some (max 0 (c / 100)) \<and>
   effective_theta_stop cost ''fixed'' percent JBad = Some (1 / 20) \<and>
   (k * p \<le> 0 \<longrightarrow> b < k \<longrightarrow> ep_tier (plan_exit k (Some b) ask tick
      (effective_theta_stop (JNum k) ''percent'' (JNum p) cents) sz ''maker'') = Tier_B0)"
proof -
  have "ep_tier (plan_exit k (Some b) ask tick (Some (max 0 (k * p / 100))) sz ''maker'') = Tier_B0"
    if "k * p \<le> 0" "b < k"
  proof -
    have "max 0 (k * p / 100) = 0" using that(1) by (simp add: max_absorb1 divide_nonpos_nonneg)
    then show ?thesis using that(2) by (simp add: plan_exit_def stop_hit_def)
  qed
  moreover have "effective_theta_stop (JNum k) ''percent'' (JNum p) cents = Some (max 0 (k * p / 100))"
    by (simp add: effective_theta_stop_def py_float_def)
  ultimately show ?thesis
    by (auto simp: effective_theta_stop_def fixed_theta_def py_float_def Let_def
      simp del: not_None_eq split: jnum.splits option.splits)
qed

lemma effective_theta_stop_witness:
  "effective_theta_stop (JNum (2/5)) ''percent'' (JNum 20) JNull = Some (2/25) \<and> (0::rat) \<le> 2/25 \<and>
   ep_tier (plan_exit (2/5) (Some (39/100)) None (1/100)
      (effective_theta_stop (JNum (2/5)) ''percent'' (JNum 0) JNull) 10 ''maker'') = Tier_B0"
proof -
  have "effective_theta_stop (JNum (2/5)) ''percent'' (JNum 20) JNull = Some (2/25)"
    by (simp add: effective_theta_stop_def py_float_def)
  moreover have "ep_tier (plan_exit (2/5) (Some (39/100)) None (1/100)
      (effective_theta_stop (JNum (2/5)) ''percent'' (JNum 0) JNull) 10 ''maker'') = Tier_B0"
    by (rule effective_theta_stop_spec [of JNull "[]" JNull JNull 0 "2/5" 0 "39/100" None "1/100" 10,
      THEN conjunct2, THEN conjunct2, THEN conjunct2, THEN conjunct2, THEN conjunct2, THEN conjunct2,
      rule_format]) simp_all
  ultimately show ?thesis by simp
qed

text \<open>The price booked for a market sale is a price the response itself implies, inside
(0,1], or else the positive best bid; the Data API price is used only when the response
is unusable and there is no positive bid.\<close>

theorem market_fill_price_source:
  "(case response_price resp of
      Some p \<Rightarrow> 0 < p \<and> p \<le> 1 \<and> market_fill_price resp bid cur = p \<and>
        (\<exists>m t. resp = Some (JNum m, JNum t) \<and> 0 < m \<and> p * m = t)
    | None \<Rightarrow> market_fill_price resp bid cur =
        (if \<exists>b. bid = Some b \<and> 0 < b then the bid else cur))"
  by (auto simp: market_fill_price_def response_price_def py_float_or0_def Let_def
    split: option.splits prod.splits jnum.splits if_splits)

end
