(* ===== verification/Protected_Exit.thy ===== *)
theory Protected_Exit
  imports Merge
begin

text \<open>
  The quotes of the quick exit (\<open>engine/protected_exit.py\<close>): walking the bids for a
  protected fill-and-kill sale, the maker price, and the route that buys the complement
  and merges. The two depth walks of the code are shown to implement one specification,
  \<open>taken\<close>: the list of (price, quantity) pairs taken from the acceptable levels until the
  size is met.
\<close>

section \<open>The walks of the code\<close>

record row =
  row_price :: jnum
  row_size :: jnum

text \<open>\<open>_num(v, default)\<close>.\<close>

definition num_default :: "jnum \<Rightarrow> rat \<Rightarrow> rat" where
  "num_default v d = (case v of JNull \<Rightarrow> 0 | JNum x \<Rightarrow> x | JBad \<Rightarrow> d)"

abbreviation num :: "jnum \<Rightarrow> rat" where
  "num v \<equiv> num_default v 0"

record walk =
  w_levels :: "(rat \<times> rat) list"
  w_executable :: rat
  w_worst :: "rat option"

text \<open>The loop of \<open>bid_walk\<close>: \<open>rm\<close> is \<open>remaining\<close>, \<open>lv\<close>, \<open>ex\<close>, \<open>w\<close> the accumulators.\<close>

fun bid_loop :: "row list \<Rightarrow> rat \<Rightarrow> (rat \<times> rat) list \<Rightarrow> rat \<Rightarrow> rat option \<Rightarrow> walk" where
  "bid_loop [] rm lv ex w = \<lparr>w_levels = lv, w_executable = ex, w_worst = w\<rparr>"
| "bid_loop (b # bs) rm lv ex w =
     (let price = num (row_price b); qty = num (row_size b) in
      if price \<le> 0 \<or> qty \<le> 0 then bid_loop bs rm lv ex w
      else
        let take = min qty rm; lv' = lv @ [(price, take)]; ex' = ex + take; rm' = rm - take
        in if rm' \<le> eps then \<lparr>w_levels = lv', w_executable = ex', w_worst = Some price\<rparr>
           else bid_loop bs rm' lv' ex' (Some price))"

definition bid_walk :: "row list \<Rightarrow> rat \<Rightarrow> walk" where
  "bid_walk bids sz =
     (if sz \<le> 0 then \<lparr>w_levels = [], w_executable = 0, w_worst = None\<rparr>
      else
        let w = bid_loop bids sz [] 0 None in
        if w_levels w = [] then \<lparr>w_levels = [], w_executable = 0, w_worst = None\<rparr> else w)"

record fak_plan =
  fak_worst :: rat
  fak_executable :: rat
  fak_recovery :: rat
  fak_levels :: "(rat \<times> rat) list"
  fak_full :: bool

definition protected_fak_plan :: "row list \<Rightarrow> rat \<Rightarrow> fak_plan option" where
  "protected_fak_plan bids sz =
     (let w = bid_walk bids sz in
      case w_worst w of None \<Rightarrow> None
      | Some p \<Rightarrow> Some \<lparr>fak_worst = p, fak_executable = w_executable w,
          fak_recovery = sum_list (map (\<lambda>(p, t). p * t) (w_levels w)),
          fak_levels = w_levels w, fak_full = (sz - eps \<le> w_executable w)\<rparr>)"

definition quote_direct_exit :: "row list \<Rightarrow> rat \<Rightarrow> fak_plan option" where
  "quote_direct_exit bids sz = protected_fak_plan bids sz"

definition maker_sell_price :: "row list \<Rightarrow> rat option \<Rightarrow> rat option" where
  "maker_sell_price asks best_bid =
     (case find (\<lambda>p. 0 < p \<and> p < 1) (map (\<lambda>a. num (row_price a)) asks) of
        Some p \<Rightarrow> Some p
      | None \<Rightarrow> (case best_bid of Some b \<Rightarrow> if 0 < b then Some b else None | None \<Rightarrow> None))"

section \<open>The route over the complement\<close>

datatype merge_reason =
    MR_no_size
  | MR_below_min rat
  | MR_direct_better rat
  | MR_no_depth rat rat rat
  | MR_ok rat rat rat

record merge_quote =
  mq_feasible :: bool
  mq_worst :: "rat option"
  mq_cost :: rat
  mq_recovery :: rat
  mq_reason :: merge_reason

text \<open>The result is None when the code raises: with a size within the tolerance and no
acceptable ask, the message formats a missing price (TypeError).

The loop over the complement asks; the result is (cost, worst, remaining).\<close>

fun ask_loop :: "rat \<Rightarrow> row list \<Rightarrow> rat \<Rightarrow> rat \<Rightarrow> rat option \<Rightarrow> rat \<times> rat option \<times> rat" where
  "ask_loop bound [] rm cost w = (cost, w, rm)"
| "ask_loop bound (a # as) rm cost w =
     (let price = num (row_price a); qty = num (row_size a) in
      if price \<le> 0 \<or> qty \<le> 0 \<or> bound < price then ask_loop bound as rm cost w
      else
        let take = min qty rm; cost' = cost + price * take; rm' = rm - take
        in if rm' \<le> eps then (cost', Some price, rm')
           else ask_loop bound as rm' cost' (Some price))"

definition infeasible :: "merge_reason \<Rightarrow> merge_quote" where
  "infeasible r = \<lparr>mq_feasible = False, mq_worst = None, mq_cost = 0, mq_recovery = 0, mq_reason = r\<rparr>"

definition quote_merge_route ::
    "row list \<Rightarrow> rat option \<Rightarrow> rat option \<Rightarrow> rat option \<Rightarrow> rat option \<Rightarrow> merge_quote option" where
  "quote_merge_route asks size_in direct_in adv_in min_in =
     (let sz = or0 size_in; adv = or0 adv_in; min_shares = or0 min_in in
      if sz \<le> 0 then Some (infeasible MR_no_size)
      else if sz < min_shares then Some (infeasible (MR_below_min min_shares))
      else
        let direct = or0 direct_in; bound = 1 - (direct + adv) / sz in
        if bound \<le> 0 then Some (infeasible (MR_direct_better bound))
        else
          let (cost, worst, rm) = ask_loop bound asks sz 0 None in
          if eps < rm then Some (infeasible (MR_no_depth bound (sz - rm) sz))
          else (case worst of None \<Rightarrow> None
            | Some p \<Rightarrow> Some \<lparr>mq_feasible = True, mq_worst = Some p, mq_cost = cost,
                mq_recovery = merge_recovery_usd (Some sz), mq_reason = MR_ok p bound cost\<rparr>))"

section \<open>The specification of both walks\<close>

fun taken :: "(rat \<Rightarrow> bool) \<Rightarrow> row list \<Rightarrow> rat \<Rightarrow> (rat \<times> rat) list" where
  "taken ok [] rm = []"
| "taken ok (b # bs) rm =
     (let p = num (row_price b); q = num (row_size b) in
      if p \<le> 0 \<or> q \<le> 0 \<or> \<not> ok p then taken ok bs rm
      else (p, min q rm) # (if rm - min q rm \<le> eps then [] else taken ok bs (rm - min q rm)))"

definition quantity :: "(rat \<times> rat) list \<Rightarrow> rat" where
  "quantity ls = sum_list (map snd ls)"

definition proceeds :: "(rat \<times> rat) list \<Rightarrow> rat" where
  "proceeds ls = sum_list (map (\<lambda>(p, t). p * t) ls)"

text \<open>The quantity offered at acceptable prices.\<close>

definition depth :: "(rat \<Rightarrow> bool) \<Rightarrow> row list \<Rightarrow> rat" where
  "depth ok rows = sum_list (map (\<lambda>b. num (row_size b))
     (filter (\<lambda>b. 0 < num (row_price b) \<and> 0 < num (row_size b) \<and> ok (num (row_price b))) rows))"

definition last_price :: "rat option \<Rightarrow> (rat \<times> rat) list \<Rightarrow> rat option" where
  "last_price w ls = (if ls = [] then w else Some (fst (last ls)))"

lemma acc_simps [simp]: "quantity [] = 0" "quantity (x # ls) = snd x + quantity ls"
    "proceeds [] = 0" "proceeds (x # ls) = fst x * snd x + proceeds ls"
    "depth ok [] = 0" "last_price w [] = w" "last_price w (x # ls) = last_price (Some (fst x)) ls"
  by (simp_all add: quantity_def proceeds_def depth_def last_price_def case_prod_beta)

lemma bid_loop_taken:
  "bid_loop bids rm lv ex w =
     (let t = taken (\<lambda>_. True) bids rm
      in \<lparr>w_levels = lv @ t, w_executable = ex + quantity t, w_worst = last_price w t\<rparr>)"
  by (induction bids rm lv ex w rule: bid_loop.induct) (auto simp: Let_def)

lemma ask_loop_taken:
  "0 < rm \<Longrightarrow> ask_loop bound asks rm cost w =
     (let t = taken (\<lambda>p. p \<le> bound) asks rm
      in (cost + proceeds t, last_price w t, rm - quantity t))"
  by (induction bound asks rm cost w rule: ask_loop.induct)
    (auto simp: Let_def not_le add.assoc diff_diff_eq eps_def)

lemma depth_nonneg: "0 \<le> depth ok rows"
  unfolding depth_def by (intro sum_list_nonneg) auto

lemma depth_Cons: "depth ok (b # bs) =
    (if num (row_price b) \<le> 0 \<or> num (row_size b) \<le> 0 \<or> \<not> ok (num (row_price b))
     then depth ok bs else num (row_size b) + depth ok bs)"
  by (auto simp: depth_def)

text \<open>One step of the walk, on a positive remaining size.\<close>

definition skipped :: "(rat \<Rightarrow> bool) \<Rightarrow> row \<Rightarrow> bool" where
  "skipped ok b \<longleftrightarrow> num (row_price b) \<le> 0 \<or> num (row_size b) \<le> 0 \<or> \<not> ok (num (row_price b))"

lemma depth_step: "depth ok (b # bs) =
    (if skipped ok b then depth ok bs else num (row_size b) + depth ok bs)"
  by (simp add: depth_Cons skipped_def)

lemma taken_step:
  "0 < rm \<Longrightarrow> taken ok (b # bs) rm =
     (if skipped ok b then taken ok bs rm
      else if rm - num (row_size b) \<le> eps then [(num (row_price b), min (num (row_size b)) rm)]
      else (num (row_price b), num (row_size b)) # taken ok bs (rm - num (row_size b)))"
  by (auto simp: skipped_def Let_def min_def eps_def)

declare taken.simps(2) [simp del]

lemma taken_range:
  "0 < rm \<Longrightarrow> (p, t) \<in> set (taken ok rows rm) \<Longrightarrow> 0 < p \<and> ok p \<and> 0 < t"
proof (induction rows arbitrary: rm)
  case (Cons b bs)
  show ?case
  proof (cases "skipped ok b \<or> rm - num (row_size b) \<le> eps")
    case True
    with Cons show ?thesis by (auto simp: taken_step skipped_def split: if_splits)
  next
    case False
    then have "0 < rm - num (row_size b)" using eps_pos(1) by linarith
    from Cons.IH [OF this] False Cons.prems show ?thesis by (auto simp: taken_step skipped_def)
  qed
qed simp

text \<open>The walk meets the size up to the tolerance, or exhausts the depth.\<close>

lemma taken_quantity:
  "0 < rm \<Longrightarrow> quantity (taken ok rows rm) \<le> rm \<and>
    (rm - eps \<le> quantity (taken ok rows rm) \<or> quantity (taken ok rows rm) = depth ok rows) \<and>
    quantity (taken ok rows rm) \<le> depth ok rows"
proof (induction rows arbitrary: rm)
  case (Cons b bs)
  have d: "0 \<le> depth ok bs" by (rule depth_nonneg)
  consider "skipped ok b" | "\<not> skipped ok b" "rm - num (row_size b) \<le> eps"
    | "\<not> skipped ok b" "eps < rm - num (row_size b)" by linarith
  then show ?case
  proof cases
    case 1
    with Cons show ?thesis by (simp add: taken_step depth_step)
  next
    case 2
    with d Cons.prems show ?thesis by (auto simp: taken_step depth_step min_def)
  next
    case 3
    then have "0 < rm - num (row_size b)" using eps_pos(1) by linarith
    from Cons.IH [OF this] 3 Cons.prems show ?thesis by (auto simp: taken_step depth_step)
  qed
qed simp

lemma proceeds_le:
  assumes "0 < rm" "\<And>p. ok p \<Longrightarrow> p \<le> k"
  shows "proceeds (taken ok rows rm) \<le> k * quantity (taken ok rows rm)"
proof -
  have "proceeds ls \<le> k * quantity ls" if "\<forall>(p, t) \<in> set ls. p \<le> k \<and> 0 < t" for ls
    using that by (induction ls) (auto simp: distrib_left intro!: add_mono mult_right_mono)
  moreover have "\<forall>(p, t) \<in> set (taken ok rows rm). p \<le> k \<and> 0 < t"
    using taken_range [OF assms(1)] assms(2) by fastforce
  ultimately show ?thesis by blast
qed

lemma taken_Nil_iff: "0 < rm \<Longrightarrow> taken ok rows rm = [] \<longleftrightarrow> depth ok rows = 0"
proof (induction rows arbitrary: rm)
  case (Cons b bs)
  have "0 \<le> depth ok bs" by (rule depth_nonneg)
  with Cons show ?case by (auto simp: taken_step depth_step skipped_def)
qed simp

text \<open>On bids in descending order the last level taken has the lowest price.\<close>

lemma taken_worst:
  assumes "0 < rm" "sorted_wrt (\<lambda>a b. num (row_price b) \<le> num (row_price a)) rows"
    and "(p, t) \<in> set (taken ok rows rm)"
  shows "fst (last (taken ok rows rm)) \<le> p"
  using assms
proof (induction rows arbitrary: rm)
  case (Cons b bs)
  have sub: "set (map fst (taken ok bs r)) \<subseteq> (\<lambda>b. num (row_price b)) ` set bs" if "0 < r" for r
    using that
  proof (induction bs arbitrary: r)
    case (Cons c cs)
    show ?case
    proof (cases "skipped ok c \<or> r - num (row_size c) \<le> eps")
      case True
      with Cons.IH [OF Cons.prems] Cons.prems show ?thesis by (auto simp: taken_step)
    next
      case False
      then have "0 < r - num (row_size c)" using eps_pos(1) by linarith
      from Cons.IH [OF this] False Cons.prems show ?thesis by (auto simp: taken_step)
    qed
  qed simp
  consider "skipped ok b" | "\<not> skipped ok b" "rm - num (row_size b) \<le> eps"
    | "\<not> skipped ok b" "eps < rm - num (row_size b)" by linarith
  then show ?case
  proof cases
    case 3
    then have pos: "0 < rm - num (row_size b)" using eps_pos(1) by linarith
    let ?t = "taken ok bs (rm - num (row_size b))"
    show ?thesis
    proof (cases "?t = []")
      case False
      then have "fst (last ?t) \<in> (\<lambda>b. num (row_price b)) ` set bs" using sub [OF pos] by auto
      with 3 False Cons.prems Cons.IH [OF pos] show ?thesis by (auto simp: taken_step)
    qed (use 3 Cons.prems in \<open>auto simp: taken_step\<close>)
  qed (use Cons in \<open>auto simp: taken_step\<close>)
qed simp


section \<open>Properties\<close>

lemma bid_walk_taken:
  "0 < sz \<Longrightarrow> bid_walk bids sz =
    (let t = taken (\<lambda>_. True) bids sz
     in \<lparr>w_levels = t, w_executable = quantity t, w_worst = last_price None t\<rparr>)"
  by (auto simp: bid_walk_def bid_loop_taken Let_def)

text \<open>The protected fill-and-kill plan. There is none exactly when the size is not
positive or no bid has a positive price and size; otherwise it never asks for more than
the size or the depth, it takes the whole size up to 1e-9 or the whole depth, every
quantity is positive, and with bids in descending order no share is sold below the
protection price, so the recovery is at least that price times the quantity.\<close>

theorem protected_fak_plan_spec:
  "case protected_fak_plan bids sz of
     None \<Rightarrow> sz \<le> 0 \<or> depth (\<lambda>_. True) bids = 0
   | Some pl \<Rightarrow> 0 < sz \<and> fak_levels pl \<noteq> [] \<and> fak_executable pl = quantity (fak_levels pl) \<and>
       fak_executable pl \<le> sz \<and> fak_executable pl \<le> depth (\<lambda>_. True) bids \<and>
       (fak_full pl \<or> fak_executable pl = depth (\<lambda>_. True) bids) \<and>
       (fak_full pl \<longleftrightarrow> sz - eps \<le> fak_executable pl) \<and>
       (\<forall>(p, t) \<in> set (fak_levels pl). 0 < p \<and> 0 < t) \<and>
       (sorted_wrt (\<lambda>a b. num (row_price b) \<le> num (row_price a)) bids \<longrightarrow>
          (\<forall>(p, t) \<in> set (fak_levels pl). fak_worst pl \<le> p) \<and>
          fak_worst pl * fak_executable pl \<le> fak_recovery pl)"
proof (cases "0 < sz \<and> taken (\<lambda>_. True) bids sz \<noteq> []")
  case False
  show ?thesis
  proof (cases "0 < sz")
    case True
    with False taken_Nil_iff [OF True, of "\<lambda>_. True" bids] show ?thesis
      by (simp add: protected_fak_plan_def bid_walk_taken)
  qed (simp add: protected_fak_plan_def bid_walk_def)
next
  case True
  let ?t = "taken (\<lambda>_. True) bids sz"
  from True have sz: "0 < sz" by simp
  have rec: "k * quantity ls \<le> proceeds ls" if "\<forall>(p, t) \<in> set ls. k \<le> p \<and> 0 < t" for k ls
    using that by (induction ls) (auto simp: distrib_left intro!: add_mono mult_right_mono)
  have pos: "\<forall>(p, t) \<in> set ?t. 0 < p \<and> 0 < t" using taken_range [OF sz] by fastforce
  have worst: "\<forall>(p, t) \<in> set ?t. fst (last ?t) \<le> p"
    if "sorted_wrt (\<lambda>a b. num (row_price b) \<le> num (row_price a)) bids"
    using taken_worst [OF sz that, where ok = "\<lambda>_. True"] by fastforce
  have "fst (last ?t) * quantity ?t \<le> proceeds ?t"
    if "sorted_wrt (\<lambda>a b. num (row_price b) \<le> num (row_price a)) bids"
    using pos worst [OF that] by (intro rec) fastforce
  with True pos worst taken_quantity [OF sz, of "\<lambda>_. True" bids] show ?thesis
    by (auto simp: protected_fak_plan_def bid_walk_taken last_price_def proceeds_def [symmetric] Let_def)
qed

lemma protected_fak_plan_witness:
  "let bids = [\<lparr>row_price = JNum (1/2), row_size = JNum 10\<rparr>, \<lparr>row_price = JNum (2/5), row_size = JNum 30\<rparr>]
   in sorted_wrt (\<lambda>a b. num (row_price b) \<le> num (row_price a)) bids \<and>
      (\<exists>pl. protected_fak_plan bids 20 = Some pl \<and> fak_worst pl = 2/5 \<and> fak_recovery pl = 9 \<and>
        fak_worst pl * fak_executable pl \<le> fak_recovery pl)"
proof -
  let ?bids = "[\<lparr>row_price = JNum (1/2), row_size = JNum 10\<rparr>, \<lparr>row_price = JNum (2/5), row_size = JNum 30\<rparr>]"
  have e: "protected_fak_plan ?bids 20 = Some \<lparr>fak_worst = 2/5, fak_executable = 20, fak_recovery = 9,
      fak_levels = [(1/2, 10), (2/5, 10)], fak_full = True\<rparr>"
    by (simp add: protected_fak_plan_def bid_walk_def num_default_def eps_def Let_def)
  from protected_fak_plan_spec [where bids = ?bids and sz = 20] show ?thesis
    unfolding Let_def e by (simp add: num_default_def)
qed

text \<open>A feasible merge route really is better than the direct exit: the complement
purchase covers the whole size up to 1e-9, its cost is at most the size times the bound,
so recovery minus cost is at least the direct recovery plus the configured advantage, and
the fill-or-kill price does not exceed the bound. It is infeasible exactly when the size
is too small, the bound is not positive or the acceptable depth is short; the code raises
only for a size within the tolerance and no acceptable ask.\<close>

theorem quote_merge_route_sound:
  assumes "sz = or0 size_in" "bound = 1 - (or0 direct + or0 adv) / sz"
  shows "case quote_merge_route asks size_in direct adv mn of
      Some q \<Rightarrow>
       (if mq_feasible q then
         0 < sz \<and> or0 mn \<le> sz \<and> 0 < bound \<and> mq_recovery q = sz \<and>
         or0 direct + or0 adv \<le> mq_recovery q - mq_cost q \<and>
         (\<exists>p. mq_worst q = Some p \<and> 0 < p \<and> p \<le> bound) \<and>
         sz - eps \<le> depth (\<lambda>p. p \<le> bound) asks
       else mq_worst q = None \<and> mq_cost q = 0 \<and>
         (sz \<le> 0 \<or> sz < or0 mn \<or> bound \<le> 0 \<or> depth (\<lambda>p. p \<le> bound) asks < sz - eps))
    | None \<Rightarrow> 0 < sz \<and> sz \<le> eps \<and> depth (\<lambda>p. p \<le> bound) asks = 0"
proof (cases "0 < sz \<and> or0 mn \<le> sz \<and> 0 < bound")
  case False
  then have "\<exists>r. quote_merge_route asks size_in direct adv mn = Some (infeasible r)"
    unfolding quote_merge_route_def Let_def assms(1)[symmetric] assms(2)[symmetric]
    by (auto simp: not_less)
  with False show ?thesis by (auto simp: infeasible_def not_less)
next
  case True
  let ?t = "taken (\<lambda>p. p \<le> bound) asks sz" and ?d = "depth (\<lambda>p. p \<le> bound) asks"
  from True have sz: "0 < sz" by simp
  have q: "quantity ?t \<le> sz" "sz - eps \<le> quantity ?t \<or> quantity ?t = ?d" "quantity ?t \<le> ?d"
    using taken_quantity [OF sz] by blast+
  have "proceeds ?t \<le> bound * quantity ?t" by (rule proceeds_le [OF sz])
  also have "\<dots> \<le> bound * sz" using q(1) True by (simp add: mult_left_mono)
  also have "bound * sz = sz - (or0 direct + or0 adv)"
    using sz by (simp add: assms(2) left_diff_distrib)
  finally have cost: "or0 direct + or0 adv \<le> sz - proceeds ?t" by simp
  have loop: "ask_loop bound asks sz 0 None = (proceeds ?t, last_price None ?t, sz - quantity ?t)"
    using sz by (simp add: ask_loop_taken Let_def)
  have route: "quote_merge_route asks size_in direct adv mn =
      (if eps < sz - quantity ?t then Some (infeasible (MR_no_depth bound (quantity ?t) sz))
       else (case last_price None ?t of None \<Rightarrow> None
         | Some p \<Rightarrow> Some \<lparr>mq_feasible = True, mq_worst = Some p, mq_cost = proceeds ?t,
             mq_recovery = sz, mq_reason = MR_ok p bound (proceeds ?t)\<rparr>))"
    using True loop unfolding quote_merge_route_def Let_def assms(1)[symmetric] assms(2)[symmetric]
      merge_recovery_usd_def or0_simps by simp
  consider "eps < sz - quantity ?t" | "sz - quantity ?t \<le> eps" "?t = []"
    | "sz - quantity ?t \<le> eps" "?t \<noteq> []" by linarith
  then show ?thesis
  proof cases
    case 1
    then have "?d < sz - eps" using q by linarith
    with 1 route show ?thesis by (simp add: infeasible_def)
  next
    case 2
    then have "?d = 0" "sz \<le> eps" using taken_Nil_iff [OF sz, of "\<lambda>p. p \<le> bound" asks] by simp_all
    moreover have "quote_merge_route asks size_in direct adv mn = None"
      using 2 by (simp add: route last_price_def)
    ultimately show ?thesis using sz by simp
  next
    case 3
    then have "sz - eps \<le> ?d" using q by linarith
    moreover have "fst (last ?t) \<le> bound \<and> 0 < fst (last ?t)"
      using taken_range [OF sz, where ok = "\<lambda>p. p \<le> bound"] 3(2) by (metis last_in_set prod.collapse)
    ultimately show ?thesis using 3 True cost by (auto simp: route last_price_def)
  qed
qed

lemma quote_merge_route_witness:
  "let asks = [\<lparr>row_price = JNum (2/5), row_size = JNum 200\<rparr>];
       q = the (quote_merge_route asks (Some 100) (Some 50) (Some 1) (Some 10))
   in mq_feasible q \<and> mq_cost q = 40 \<and> 50 + 1 \<le> mq_recovery q - mq_cost q"
proof -
  let ?asks = "[\<lparr>row_price = JNum (2/5), row_size = JNum 200\<rparr>]"
  have e: "quote_merge_route ?asks (Some 100) (Some 50) (Some 1) (Some 10)
    = Some \<lparr>mq_feasible = True, mq_worst = Some (2/5), mq_cost = 40, mq_recovery = 100,
        mq_reason = MR_ok (2/5) (49/100) 40\<rparr>"
    by (simp add: quote_merge_route_def num_default_def eps_def Let_def merge_recovery_usd_def)
  from quote_merge_route_sound [of 100 "Some 100" "49/100" "Some 50" "Some 1" ?asks "Some 10"]
  show ?thesis unfolding Let_def e by simp
qed

end
