(* ===== verification/Exit_Router.thy ===== *)
theory Exit_Router
  imports Exit_Status Take_Profit Protected_Exit "HOL-Library.AList"
begin

text \<open>
  The quick-exit router (\<open>engine/exit_router.py\<close>), one instance per wallet. Its methods are
  programs over the router's state that may raise: \<open>'a rm\<close> maps a state to a result, None
  for a raised exception, and the state at that moment. Everything outside the process
  (exchange, relayer, clock, environment variables) answers through the record \<open>world\<close>;
  what the router does to it is logged as a list of effects. The clock is read once per
  call of a public method. Database failures other than the unique index are not
  modelled. Reasons stored or shown as Chinese text are short ASCII strings here.
\<close>

section \<open>State and environment\<close>

record position =
  ps_asset :: string
  ps_cid :: string
  ps_size :: jnum

record managed =
  mg_order :: string
  mg_price :: rat
  mg_size :: rat
  mg_placed :: rat

record tmpl =
  tm_exit_wait :: "jnum option"
  tm_merge_enabled :: bool
  tm_merge_min_shares :: "jnum option"
  tm_merge_min_adv :: "jnum option"
  tm_confirm_timeout :: "jnum option"
  tm_stop_mode :: string
  tm_stop_percent :: "jnum option"
  tm_theta_cents :: "jnum option"

datatype effect =
    Act string string rat rat
  | Cancel "string list"
  | Limit_sell string rat rat
  | Fok_buy string string rat rat
  | Fak_sell string rat rat
  | Merge_tx string rat bool bool

record router =
  r_store :: mstore
  r_managed :: "(string \<times> managed) list"
  r_last :: "(string \<times> rat) list"
  r_poll :: "int \<Rightarrow> rat option"
  r_positions :: "position list"
  r_open :: "order list"
  r_tick :: rat
  r_assets :: "string \<Rightarrow> exit_text option"
  r_conditions :: "string \<Rightarrow> exit_text option"
  r_published :: "snapshot option"
  r_log :: "effect list"

datatype placed = Rejected | Raised | Placed string string

record world =
  w_now :: rat
  w_wallet :: string
  w_tmpl :: tmpl
  w_cost_lots :: "string \<Rightarrow> rat \<Rightarrow> string \<Rightarrow> (rat option \<times> lot list) option"
  w_sell_book :: "string \<Rightarrow> (rat \<times> string \<times> rat option \<times> rat option) option"
  w_orderbook :: "string \<Rightarrow> (row list \<times> row list) option"
  w_cancel :: "string list \<Rightarrow> bool"
  w_limit_sell :: "string \<Rightarrow> rat \<Rightarrow> rat \<Rightarrow> placed"
  w_fok_buy :: "string \<Rightarrow> rat \<Rightarrow> rat \<Rightarrow> placed"
  w_fak_sell :: "string \<Rightarrow> rat \<Rightarrow> rat \<Rightarrow> placed"
  w_order :: "string \<Rightarrow> (string \<times> jnum) option"
  w_neg_risk :: "string \<Rightarrow> bool option"
  w_approved :: "bool \<Rightarrow> bool option"
  w_merge :: "string \<Rightarrow> rat \<Rightarrow> bool \<Rightarrow> bool \<Rightarrow> string + string"
  w_tx_state :: "string \<Rightarrow> string option"
  w_eligible :: "(string \<times> string) list option"
  w_relayer_env :: bool

section \<open>Programs that may raise\<close>

type_synonym 'a rm = "router \<Rightarrow> 'a option \<times> router"

definition ret :: "'a \<Rightarrow> 'a rm" where
  "ret x s = (Some x, s)"

definition throw :: "'a rm" where
  "throw s = (None, s)"

definition andthen :: "'a rm \<Rightarrow> ('a \<Rightarrow> 'b rm) \<Rightarrow> 'b rm" where
  "andthen m f s = (case m s of (None, t) \<Rightarrow> (None, t) | (Some x, t) \<Rightarrow> f x t)"

definition seq :: "'a rm \<Rightarrow> 'b rm \<Rightarrow> 'b rm" where
  "seq m n = andthen m (\<lambda>_. n)"

text \<open>\<open>try: m except Exception: h\<close>.\<close>

definition catch :: "'a rm \<Rightarrow> 'a rm \<Rightarrow> 'a rm" where
  "catch m h s = (case m s of (None, t) \<Rightarrow> h t | (Some x, t) \<Rightarrow> (Some x, t))"

definition gets :: "(router \<Rightarrow> 'a) \<Rightarrow> 'a rm" where
  "gets f s = (Some (f s), s)"

definition change :: "(router \<Rightarrow> router) \<Rightarrow> unit rm" where
  "change f s = (Some (), f s)"

definition emit :: "effect \<Rightarrow> unit rm" where
  "emit e = change (\<lambda>s. s\<lparr>r_log := r_log s @ [e]\<rparr>)"

definition db_update :: "world \<Rightarrow> int \<Rightarrow> mfield list \<Rightarrow> unit rm" where
  "db_update w i fs s = (case update_merge_event (w_now w) i fs (r_store s) of
     None \<Rightarrow> (None, s) | Some (n, st) \<Rightarrow> (Some (), s\<lparr>r_store := st\<rparr>))"

definition set_poll :: "int \<Rightarrow> rat option \<Rightarrow> unit rm" where
  "set_poll i v = change (\<lambda>s. s\<lparr>r_poll := (r_poll s)(i := v)\<rparr>)"

fun for_each :: "'a list \<Rightarrow> ('a \<Rightarrow> unit rm) \<Rightarrow> unit rm" where
  "for_each [] f = ret ()"
| "for_each (x # xs) f = seq (f x) (for_each xs f)"

section \<open>Helpers\<close>

definition poll_interval :: rat where "poll_interval = 30"
definition poll_fail_backoff :: rat where "poll_fail_backoff = 120"
definition poll_stall_backoff :: rat where "poll_stall_backoff = 300"

definition tx_done :: "string \<Rightarrow> bool" where
  "tx_done s \<longleftrightarrow> s = ''STATE_EXECUTED'' \<or> s = ''STATE_MINED'' \<or> s = ''STATE_CONFIRMED''"

definition tx_failed :: "string \<Rightarrow> bool" where
  "tx_failed s \<longleftrightarrow> s = ''STATE_FAILED''"

text \<open>\<open>_num(tmpl.get(key, d), d)\<close>: absent key, None, number or bad value.\<close>

definition tmpl_num :: "jnum option \<Rightarrow> rat \<Rightarrow> rat" where
  "tmpl_num v d = (case v of None \<Rightarrow> num_default (JNum d) d | Some j \<Rightarrow> num_default j d)"

definition stop_hit_now :: "world \<Rightarrow> rat \<Rightarrow> rat option \<Rightarrow> bool" where
  "stop_hit_now w cost bid =
     (let t = w_tmpl w; get = (\<lambda>v d. case v of None \<Rightarrow> JNum d | Some j \<Rightarrow> j)
      in stop_hit cost bid (effective_theta_stop (JNum cost) (tm_stop_mode t)
           (get (tm_stop_percent t) 20) (get (tm_theta_cents t) 5)))"

definition oldest_lot_ts :: "lot list \<Rightarrow> rat option" where
  "oldest_lot_ts lots = fold (\<lambda>l best.
     if 0 < lot_ts l \<and> (case best of None \<Rightarrow> True | Some b \<Rightarrow> lot_ts l < b) then Some (lot_ts l) else best) lots None"

definition pair_for :: "string \<Rightarrow> string \<Rightarrow> router \<Rightarrow> (string \<times> rat) option" where
  "pair_for cid asset s =
     map_option (\<lambda>p. (ps_asset p, num (ps_size p)))
       (find (\<lambda>p. ps_asset p \<noteq> asset \<and> 0 < num (ps_size p))
         (filter (\<lambda>p. ps_cid p = cid \<and> 0 < num (ps_size p)) (r_positions s)))"

definition mark_asset :: "string \<Rightarrow> string \<Rightarrow> exit_text \<Rightarrow> unit rm" where
  "mark_asset asset cid t = change (\<lambda>s. s\<lparr>r_assets := (r_assets s)(asset \<mapsto> t),
     r_conditions := (if cid \<noteq> '''' then (r_conditions s)(cid \<mapsto> t) else r_conditions s)\<rparr>)"

definition mark_note :: "string \<Rightarrow> string \<Rightarrow> xnote \<Rightarrow> unit rm" where
  "mark_note asset cid n = mark_asset asset cid (X_note n)"

definition order_open :: "string \<Rightarrow> router \<Rightarrow> bool" where
  "order_open i s \<longleftrightarrow> list_ex (\<lambda>x. o_id x = Some i) (r_open s)"

definition is_sell_of :: "string \<Rightarrow> order \<Rightarrow> bool" where
  "is_sell_of asset x \<longleftrightarrow> o_asset x = asset \<and> o_side x = ''SELL''"

definition sell_ids :: "string \<Rightarrow> router \<Rightarrow> string list" where
  "sell_ids asset s = concat (map (\<lambda>x. case o_id x of
     Some i \<Rightarrow> if is_sell_of asset x \<and> i \<noteq> '''' then [i] else [] | None \<Rightarrow> []) (r_open s))"

definition cancel_sells :: "world \<Rightarrow> string \<Rightarrow> string \<Rightarrow> rat \<Rightarrow> unit rm" where
  "cancel_sells w asset cid sz = andthen (gets (sell_ids asset)) (\<lambda>ids.
     if ids = [] then ret ()
     else seq (emit (Cancel ids))
       (seq (if w_cancel w ids then emit (Act ''exit_cancel_sell'' cid (-1) sz) else ret ())
         (change (\<lambda>s. s\<lparr>r_open := filter (\<lambda>x. \<not> is_sell_of asset x) (r_open s),
            r_managed := AList.delete asset (r_managed s)\<rparr>))))"

definition fifo_cost :: "lot list \<Rightarrow> rat \<Rightarrow> rat" where
  "fifo_cost lots q = (case fst (consume_fifo_cost lots (Some q)) of Some c \<Rightarrow> c | None \<Rightarrow> 0)"

definition position_size :: "string \<Rightarrow> string \<Rightarrow> router \<Rightarrow> rat" where
  "position_size cid asset s =
     fold (\<lambda>p acc. if ps_cid p = cid \<and> ps_asset p = asset then num (ps_size p) else acc) (r_positions s) 0"

text \<open>\<open>_pair_balance_ok\<close>; the two tokens of an event are different.\<close>

definition pair_balance_ok :: "mevent \<Rightarrow> router \<Rightarrow> bool" where
  "pair_balance_ok e s \<longleftrightarrow> me_yes e \<noteq> '''' \<and> me_no e \<noteq> '''' \<and>
     me_amount e - eps \<le> pair_amount (Some (position_size (me_cid e) (me_yes e) s))
       (Some (if me_no e = me_yes e then 0 else position_size (me_cid e) (me_no e) s))"

section \<open>Failing, confirming and submitting an operation\<close>

definition fail_event :: "world \<Rightarrow> int \<Rightarrow> string \<Rightarrow> unit rm" where
  "fail_event w i reason = andthen (gets (\<lambda>s. get_merge_event i (r_store s))) (\<lambda>cur.
     case cur of None \<Rightarrow> ret ()
     | Some e \<Rightarrow>
         if me_status e = FAILED then ret ()
         else seq (db_update w i [Set_status FAILED, Set_error (take 300 reason)])
           (seq (emit (Act ''merge_failed'' (me_cid e) (-1) (me_amount e))) (set_poll i None)))"

definition finalize_confirmed :: "world \<Rightarrow> int \<Rightarrow> unit rm" where
  "finalize_confirmed w i = andthen (gets (\<lambda>s. get_merge_event i (r_store s))) (\<lambda>cur.
     case cur of None \<Rightarrow> ret ()
     | Some e \<Rightarrow>
         if me_status e = CONFIRMED then ret ()
         else
           let amount = me_amount e; recovered = merge_recovery_usd (Some amount);
               pnl = merge_realized_pnl (Some amount) (Some (me_yes_cost e)) (Some (me_no_cost e)) (Some 0)
           in seq (db_update w i [Set_status CONFIRMED, Set_recovered recovered, Set_pnl pnl,
                Set_confirmed (Some (w_now w)), Set_error ''''])
             (emit (Act ''merge_confirmed'' (me_cid e) (-1) amount)))"

definition submit_merge :: "world \<Rightarrow> int \<Rightarrow> string \<Rightarrow> string \<Rightarrow> string \<Rightarrow> rat \<Rightarrow> unit rm" where
  "submit_merge w i cid yes no amount =
     seq (cancel_sells w yes cid amount)
     (seq (cancel_sells w no cid amount)
     (let neg = (case w_neg_risk w (if yes \<noteq> '''' then yes else no) of Some b \<Rightarrow> b | None \<Rightarrow> False);
          approved = (case w_approved w neg of Some b \<Rightarrow> b | None \<Rightarrow> False)
      in seq (emit (Merge_tx cid amount neg (\<not> approved)))
        (case w_merge w cid amount neg (\<not> approved) of
           Inl err \<Rightarrow>
             seq (db_update w i [Set_error (take 300 err), Set_cstatus ''submit-failed''])
             (seq (set_poll i (Some (w_now w + poll_fail_backoff)))
               (emit (Act ''merge_failed'' cid (-1) amount)))
         | Inr tx \<Rightarrow>
             if tx = '''' then fail_event w i ''no transaction_id''
             else seq (db_update w i [Set_status SUBMITTED, Set_tx tx, Set_cstatus ''merged-submitted''])
               (seq (set_poll i (Some (w_now w + poll_interval)))
                 (emit (Act ''merge_submit'' cid (-1) amount))))))"

definition submit_event :: "world \<Rightarrow> mevent \<Rightarrow> unit rm" where
  "submit_event w e = submit_merge w (me_id e) (me_cid e) (me_yes e) (me_no e) (me_amount e)"


section \<open>Reconciling the operations of the table\<close>

text \<open>\<open>self._now() < self._poll_after.get(eid, 0)\<close>.\<close>

definition backing_off :: "world \<Rightarrow> int \<Rightarrow> router \<Rightarrow> bool" where
  "backing_off w i s \<longleftrightarrow> w_now w < (case r_poll s i of Some t \<Rightarrow> t | None \<Rightarrow> 0)"

definition order_dead :: "string \<Rightarrow> bool" where
  "order_dead s \<longleftrightarrow> contains ''cancel'' s \<or> contains ''unmatch'' s \<or> contains ''expire'' s"

definition order_traded :: "string \<Rightarrow> bool" where
  "order_traded s \<longleftrightarrow> contains ''match'' s \<or> contains ''fill'' s"

definition reconcile_fok_order :: "world \<Rightarrow> mevent \<Rightarrow> unit rm" where
  "reconcile_fok_order w e =
     (let i = me_id e in
      if me_order e = '''' then ret ()
      else andthen (gets (backing_off w i)) (\<lambda>wait.
        if wait then ret ()
        else seq (set_poll i (Some (w_now w + poll_interval)))
          (case w_order w (me_order e) of
             None \<Rightarrow> ret ()
           | Some (st, mt) \<Rightarrow>
               let ostatus = lower st; filled = (me_amount e - eps \<le> num mt)
               in andthen (gets (pair_balance_ok e)) (\<lambda>paired.
                 if (filled \<or> order_traded ostatus) \<and> (filled \<or> paired) then
                   seq (db_update w i [Set_cstatus ''matched''])
                   (seq (emit (Act ''merge_fok_matched'' (me_cid e) (-1) (me_amount e))) (submit_event w e))
                 else if order_dead ostatus then
                   if paired then
                     seq (emit (Act ''merge_fok_matched'' (me_cid e) (-1) (me_amount e))) (submit_event w e)
                   else fail_event w i ''fok order cancelled''
                 else db_update w i [Set_cstatus ''delayed'']))))"

definition poll_merge :: "world \<Rightarrow> mevent \<Rightarrow> unit rm" where
  "poll_merge w e =
     (let i = me_id e; now = w_now w in
      andthen (gets (backing_off w i)) (\<lambda>wait.
        if wait then ret ()
        else if me_tx e = '''' then set_poll i (Some (now + poll_interval))
        else (case w_tx_state w (me_tx e) of
          None \<Rightarrow> set_poll i (Some (now + poll_fail_backoff))
        | Some state \<Rightarrow>
            andthen (gets (pair_balance_ok e)) (\<lambda>paired.
              if tx_done state then finalize_confirmed w i
              else if tx_failed state then
                if paired then fail_event w i ''relayer transaction failed'' else finalize_confirmed w i
              else if tmpl_num (tm_confirm_timeout (w_tmpl w)) 120 < now - me_updated e then
                if \<not> paired then finalize_confirmed w i
                else set_poll i (Some (now + poll_stall_backoff))
              else set_poll i (Some (now + poll_interval))))))"

definition reconcile_event :: "world \<Rightarrow> mevent \<Rightarrow> unit rm" where
  "reconcile_event w e =
     (case (me_status e, me_route e) of
        (READY, FOK_MERGE) \<Rightarrow>
          if me_order e = '''' then
            andthen (gets (pair_balance_ok e)) (\<lambda>paired.
              if paired then submit_event w e else fail_event w (me_id e) ''fok never submitted'')
          else reconcile_fok_order w e
      | (READY, PAIR) \<Rightarrow>
          andthen (gets (pair_balance_ok e)) (\<lambda>paired.
            if paired then submit_event w e else fail_event w (me_id e) ''pair gone'')
      | (SUBMITTED, _) \<Rightarrow> poll_merge w e
      | _ \<Rightarrow> ret ())"

definition active_events :: "string \<Rightarrow> mstore \<Rightarrow> mevent list" where
  "active_events wallet st =
     fst (list_merge_events wallet [READY] None None 100 0 st) @
     fst (list_merge_events wallet [SUBMITTED] None None 100 0 st)"

definition reconcile_events :: "world \<Rightarrow> unit rm" where
  "reconcile_events w = andthen (gets (\<lambda>s. active_events (w_wallet w) (r_store s)))
     (\<lambda>evs. for_each evs (\<lambda>e. catch (reconcile_event w e) (ret ())))"

section \<open>Managed sells, status, start of a tick\<close>

definition size_of_asset :: "string \<Rightarrow> router \<Rightarrow> rat" where
  "size_of_asset asset s = fold (\<lambda>p acc. if ps_asset p = asset then num (ps_size p) else acc) (r_positions s) 0"

definition cid_of :: "string \<Rightarrow> router \<Rightarrow> string" where
  "cid_of asset s = (case find (\<lambda>p. ps_asset p = asset) (r_positions s) of Some p \<Rightarrow> ps_cid p | None \<Rightarrow> '''')"

definition reconcile_managed_sells :: "world \<Rightarrow> unit rm" where
  "reconcile_managed_sells w =
     seq (andthen (gets r_managed) (\<lambda>ms. for_each ms (\<lambda>(asset, m).
       andthen (gets (\<lambda>s. s)) (\<lambda>s.
         if order_open (mg_order m) s then ret ()
         else seq (if size_of_asset asset s \<le> 0
             then emit (Act ''exit_maker_filled'' (cid_of asset s) (mg_price m)
               (case map_of (r_last s) asset of Some q \<Rightarrow> q | None \<Rightarrow> 0))
             else ret ())
           (change (\<lambda>s. s\<lparr>r_managed := AList.delete asset (r_managed s)\<rparr>))))))
     (change (\<lambda>s. s\<lparr>r_last := fold (\<lambda>p. AList.update (ps_asset p) (num (ps_size p))) (r_positions s) (r_last s)\<rparr>))"

definition publish_status :: "world \<Rightarrow> unit rm" where
  "publish_status w = change (\<lambda>s.
     let held = filter (\<lambda>p. 0 < num (ps_size p)) (r_positions s);
         fill = (\<lambda>keys m. fold (\<lambda>k m. case m k of None \<Rightarrow> m(k \<mapsto> X_dash) | Some _ \<Rightarrow> m) keys m);
         assets = fill (map ps_asset held) (r_assets s); conds = fill (map ps_cid held) (r_conditions s)
     in s\<lparr>r_assets := assets, r_conditions := conds,
       r_published := Some \<lparr>sn_assets = assets, sn_conditions = conds,
         sn_active = count_active_merge_events (w_wallet w) (r_store s) + length (r_managed s),
         sn_ts = r_tick s\<rparr>\<rparr>)"

definition reconcile_pending :: "world \<Rightarrow> position list \<Rightarrow> order list \<Rightarrow> unit rm" where
  "reconcile_pending w positions orders =
     seq (change (\<lambda>s. s\<lparr>r_tick := w_now w, r_positions := positions, r_open := orders,
       r_assets := Map.empty, r_conditions := Map.empty\<rparr>))
     (seq (catch (reconcile_managed_sells w) (ret ()))
     (seq (catch (reconcile_events w) (ret ()))
       (catch (publish_status w) (ret ()))))"

section \<open>Routing one position\<close>

definition protected_fak :: "world \<Rightarrow> position \<Rightarrow> rat \<Rightarrow> fak_plan \<Rightarrow> unit rm" where
  "protected_fak w p sz direct =
     (let asset = ps_asset p; cid = ps_cid p; price = fak_worst direct in
      seq (cancel_sells w asset cid sz)
      (seq (emit (Fak_sell asset price sz))
      (case w_fak_sell w asset price sz of
         Rejected \<Rightarrow> mark_note asset cid N_fak_rejected
       | Raised \<Rightarrow> mark_note asset cid N_fak_failed
       | Placed st oid \<Rightarrow>
           let matched = (if oid = '''' then None
                 else case w_order w oid of None \<Rightarrow> None | Some (_, m) \<Rightarrow> Some (num m));
               full = (case matched of None \<Rightarrow> fak_full direct | Some m \<Rightarrow> sz - eps \<le> m)
           in seq (emit (Act (if full then ''exit_protected_fak'' else ''exit_protected_fak_partial'') cid price sz))
             (mark_note asset cid (if full then N_fak_full else N_fak_partial)))))"

definition start_fok_merge :: "world \<Rightarrow> string \<Rightarrow> string \<Rightarrow> string \<Rightarrow> rat \<Rightarrow> rat \<Rightarrow> unit rm" where
  "start_fok_merge w cid asset ctok sz worst =
     (case w_cost_lots w asset sz cid of
        None \<Rightarrow> mark_note asset cid N_merge_active
      | Some (_, lots) \<Rightarrow>
      andthen (gets r_store) (\<lambda>st.
      (case create_merge_event (w_now w) (w_wallet w) cid FOK_MERGE sz asset ctok (fifo_cost lots sz) 0 '''' st of
         None \<Rightarrow> mark_note asset cid N_merge_active
       | Some (i, st') \<Rightarrow>
           seq (change (\<lambda>s. s\<lparr>r_store := st'\<rparr>))
           (seq (emit (Act ''merge_fok_submit'' cid worst sz))
           (seq (mark_note asset cid N_fok)
           (seq (emit (Fok_buy cid ctok worst sz))
           (case w_fok_buy w ctok worst sz of
              Rejected \<Rightarrow> fail_event w i ''fok rejected''
            | Raised \<Rightarrow> throw
            | Placed st0 oid \<Rightarrow>
                seq (if oid \<noteq> '''' then db_update w i [Set_order oid] else ret ())
                (if lower st0 = ''matched'' then
                   seq (db_update w i [Set_cstatus ''matched'']) (emit (Act ''merge_fok_matched'' cid worst sz))
                 else if lower st0 = ''delayed'' then
                   seq (db_update w i [Set_cstatus ''delayed'']) (emit (Act ''merge_fok_submit'' cid worst sz))
                 else fail_event w i ''fok status''))))))))"

definition complement_token :: "world \<Rightarrow> string \<Rightarrow> string \<Rightarrow> router \<Rightarrow> string option" where
  "complement_token w cid asset s =
     (case pair_for cid asset s of
        Some (a, _) \<Rightarrow> Some a
      | None \<Rightarrow> (case w_eligible w of None \<Rightarrow> None
          | Some rows \<Rightarrow> map_option snd (find (\<lambda>(m, t). m = cid \<and> t \<noteq> asset) rows)))"

definition sorted_bids :: "row list \<Rightarrow> row list" where
  "sorted_bids bs = sort_desc (\<lambda>b. num (row_price b)) bs"

definition sorted_asks :: "row list \<Rightarrow> row list" where
  "sorted_asks bs = sort_key (\<lambda>b. num (row_price b)) bs"

definition route_compare :: "world \<Rightarrow> position \<Rightarrow> rat \<Rightarrow> bool rm" where
  "route_compare w p sz =
     (let asset = ps_asset p; cid = ps_cid p; t = w_tmpl w in
      case w_orderbook w asset of
        None \<Rightarrow> seq (mark_note asset cid N_no_book) (ret True)
      | Some (bids, _) \<Rightarrow>
      (case quote_direct_exit (sorted_bids bids) sz of
         None \<Rightarrow> seq (mark_note asset cid N_no_bids) (ret True)
       | Some direct \<Rightarrow>
       andthen (gets (complement_token w cid asset)) (\<lambda>ctok.
         let quote = (if tm_merge_enabled t \<and> w_relayer_env w then
               (case ctok of None \<Rightarrow> Some None
                | Some tok \<Rightarrow> if tok = '''' then Some None
                    else (case w_orderbook w tok of None \<Rightarrow> Some None
                      | Some (_, asks) \<Rightarrow>
                          map_option (\<lambda>q. Some (tok, q)) (quote_merge_route (sorted_asks asks) (Some sz)
                            (Some (fak_recovery direct)) (Some (tmpl_num (tm_merge_min_adv t) (1 / 100)))
                            (Some (tmpl_num (tm_merge_min_shares t) 1)))))
               else Some None)
         in case quote of
              None \<Rightarrow> throw
            | Some (Some (tok, q)) \<Rightarrow>
                (case (mq_feasible q, mq_worst q) of
                   (True, Some worst) \<Rightarrow>
                     seq (mark_note asset cid N_fok_merge)
                     (seq (start_fok_merge w cid asset tok sz worst) (ret True))
                 | _ \<Rightarrow> seq (protected_fak w p sz direct) (ret True))
            | Some None \<Rightarrow> seq (protected_fak w p sz direct) (ret True))))"

definition maker_route ::
    "world \<Rightarrow> position \<Rightarrow> rat \<Rightarrow> lot list \<Rightarrow> rat option \<Rightarrow> rat \<Rightarrow> bool rm" where
  "maker_route w p sz lots best_ask exit_wait =
     (let asset = ps_asset p; cid = ps_cid p in
      andthen (gets (\<lambda>s. s)) (\<lambda>s.
      let oldest = (case oldest_lot_ts lots of Some t \<Rightarrow> t | None \<Rightarrow> r_tick s);
          left = oldest + exit_wait - w_now w;
          open_managed = (case map_of (r_managed s) asset of
            Some m \<Rightarrow> order_open (mg_order m) s | None \<Rightarrow> False)
      in if open_managed then
           if 0 < left then seq (mark_asset asset cid (maker_wait_text (Some left))) (ret True)
           else seq (mark_asset asset cid X_maker_due)
             (seq (cancel_sells w asset cid sz)
             (seq (change (\<lambda>s. s\<lparr>r_managed := AList.delete asset (r_managed s)\<rparr>))
               (route_compare w p sz)))
         else if left \<le> 0 then route_compare w p sz
         else (case maker_sell_price [] best_ask of
           None \<Rightarrow> seq (mark_asset asset cid X_maker_no_ask) (ret True)
         | Some price \<Rightarrow>
             seq (cancel_sells w asset cid sz)
             (seq (emit (Limit_sell asset price sz))
             (case w_limit_sell w asset price sz of
                Rejected \<Rightarrow> seq (mark_asset asset cid X_maker_book_moved) (ret True)
              | Raised \<Rightarrow> seq (mark_asset asset cid X_maker_failed) (ret True)
              | Placed st oid \<Rightarrow>
                  seq (if oid \<noteq> '''' then change (\<lambda>s. s\<lparr>r_managed := AList.update asset
                      \<lparr>mg_order = oid, mg_price = price, mg_size = sz, mg_placed = w_now w\<rparr> (r_managed s)\<rparr>)
                    else ret ())
                  (seq (emit (Act ''exit_maker'' cid price sz))
                  (seq (mark_asset asset cid (maker_wait_text (Some left))) (ret True))))))))"

definition pair_merge_route ::
    "world \<Rightarrow> position \<Rightarrow> string \<times> rat \<Rightarrow> rat \<Rightarrow> lot list \<Rightarrow> bool rm" where
  "pair_merge_route w p other sz lots =
     (let asset = ps_asset p; cid = ps_cid p; (other_asset, other_size) = other;
          q = pair_amount (Some sz) (Some other_size)
      in if q < tmpl_num (tm_merge_min_shares (w_tmpl w)) 1
         then seq (mark_note asset cid N_pair_below_min) (ret False)
         else if \<not> w_relayer_env w then seq (mark_note asset cid N_no_relayer) (ret False)
         else
           let other_lots = (case w_cost_lots w other_asset other_size cid of Some (_, ls) \<Rightarrow> ls | None \<Rightarrow> [])
           in andthen (gets r_store) (\<lambda>st.
             (case create_merge_event (w_now w) (w_wallet w) cid PAIR q asset other_asset
                 (fifo_cost lots q) (fifo_cost other_lots q) '''' st of
                None \<Rightarrow> seq (mark_note asset cid N_merge_active) (ret True)
              | Some (i, st') \<Rightarrow>
                  seq (change (\<lambda>s. s\<lparr>r_store := st'\<rparr>))
                  (seq (emit (Act ''merge_pair_ready'' cid (-1) q))
                  (seq (mark_note asset cid N_pair_ready)
                  (seq (submit_merge w i cid asset other_asset q) (ret True)))))))"

text \<open>The pair merge comes first when it is enabled; the single side follows.\<close>

definition pair_first :: "world \<Rightarrow> position \<Rightarrow> rat \<Rightarrow> lot list \<Rightarrow> bool rm" where
  "pair_first w p sz lots =
     (if tm_merge_enabled (w_tmpl w) then
        andthen (gets (pair_for (ps_cid p) (ps_asset p))) (\<lambda>pr. case pr of
          None \<Rightarrow> ret False | Some other \<Rightarrow> pair_merge_route w p other sz lots)
      else ret False)"

definition single_side ::
    "world \<Rightarrow> position \<Rightarrow> rat \<Rightarrow> rat \<Rightarrow> lot list \<Rightarrow> rat option \<Rightarrow> rat option \<Rightarrow> rat \<Rightarrow> bool rm" where
  "single_side w p sz cost lots best_bid best_ask exit_wait =
     (if stop_hit_now w cost best_bid then route_compare w p sz
      else if exit_wait \<le> 0 then route_compare w p sz
      else maker_route w p sz lots best_ask exit_wait)"

definition route_body :: "world \<Rightarrow> position \<Rightarrow> bool rm" where
  "route_body w p =
     (let asset = ps_asset p; sz = num (ps_size p); cid = ps_cid p; t = w_tmpl w;
          exit_wait = tmpl_num (tm_exit_wait t) 60
      in if sz \<le> 0 \<or> cid = '''' then ret False
         else if exit_wait \<le> 0 \<and> \<not> tm_merge_enabled t then ret False
         else andthen (gets (\<lambda>s. get_active_merge_event (w_wallet w) cid (r_store s))) (\<lambda>active.
           case active of
             Some e \<Rightarrow> seq (mark_asset asset cid (merge_status_text (me_route e) (me_status e) (me_cstatus e))) (ret True)
           | None \<Rightarrow>
           (case w_cost_lots w asset sz cid of
              None \<Rightarrow> throw
            | Some (None, _) \<Rightarrow> ret False
            | Some (Some cost, lots) \<Rightarrow>
              if cost \<le> 0 then ret False
              else (case w_sell_book w asset of
                None \<Rightarrow> throw
              | Some (tick, tick_str, best_bid, best_ask) \<Rightarrow>
                andthen (pair_first w p sz lots) (\<lambda>handled.
                  if handled then ret True
                  else single_side w p sz cost lots best_bid best_ask exit_wait)))))"

text \<open>\<open>open_orders or self._open_orders\<close>; any exception ends in False.\<close>

definition route_position :: "world \<Rightarrow> position \<Rightarrow> order list \<Rightarrow> bool rm" where
  "route_position w p orders =
     catch (andthen (seq (change (\<lambda>s. s\<lparr>r_open := (if orders = [] then r_open s else orders)\<rparr>)) (route_body w p))
       (\<lambda>handled. seq (catch (publish_status w) (ret ())) (ret handled)))
     (ret False)"

end
