(* ===== verification/Worker_Loop.thy ===== *)
theory Worker_Loop
  imports Exit_Router Store
begin

text \<open>
  The loop of a worker (\<open>_run\<close> and the frame of \<open>_tick\<close> in \<open>engine/manager.py\<close>) with its exceptions, what is done on a
  best-effort basis (records, statuses, look-ups with a default in \<open>engine/monitor.py\<close>, \<open>engine/manager.py\<close> and
  \<open>engine/exit_router.py\<close>), and the rows of the password and the wallets (\<open>models/database.py\<close>). A piece of code is a function on the
  state of the world whose first result says whether an exception left it.
\<close>

section \<open>Code that may raise\<close>

type_synonym 'w code = "'w \<Rightarrow> bool \<times> 'w"

text \<open>\<open>try: ... except Exception: log\<close>.\<close>

definition swallow :: "'w code \<Rightarrow> 'w code" where
  "swallow c w = (False, snd (c w))"

text \<open>Statements one after the other; an exception skips the rest.\<close>

fun in_turn :: "'w code list \<Rightarrow> 'w code" where
  "in_turn [] w = (False, w)"
| "in_turn (c # cs) w = (let (raised, w') = c w in if raised then (True, w') else in_turn cs w')"

lemma swallow_never_raises [simp]: "fst (swallow c w) = False"
  by (simp add: swallow_def)

section \<open>One tick\<close>

text \<open>
  The frame of \<open>_tick\<close>: the ledger may be started, the statuses of the tick are emptied, the open orders are read (a
  failure is kept as None), the five steps run one after the other, and only if none of them raised the statuses are
  published. \<open>marks\<close> records the steps begun, with those that raised among them.
\<close>

datatype tick_step = Fills_step | Resolution_step | Low_balance_step | Exit_step | Compliance_step

definition tick_steps :: "tick_step list" where
  "tick_steps = [Fills_step, Resolution_step, Low_balance_step, Exit_step, Compliance_step]"

record 'w clockwork =
  cw_world :: 'w
  cw_marks :: "tick_step list"
  cw_published :: nat

definition mark_step :: "(tick_step \<Rightarrow> 'w code) \<Rightarrow> tick_step \<Rightarrow> 'w clockwork code" where
  "mark_step work s c =
     (let (raised, w) = work s (cw_world c) in (raised, c\<lparr>cw_world := w, cw_marks := cw_marks c @ [s]\<rparr>))"

definition publish_status :: "'w clockwork code" where
  "publish_status = swallow (\<lambda>c. (False, c\<lparr>cw_published := cw_published c + 1\<rparr>))"

definition tick_frame :: "'w code \<Rightarrow> (tick_step \<Rightarrow> 'w code) \<Rightarrow> 'w clockwork code" where
  "tick_frame prepare work c =
     (let c = c\<lparr>cw_marks := [], cw_world := snd (prepare (cw_world c))\<rparr>
      in in_turn (map (mark_step work) tick_steps @ [publish_status]) c)"

section \<open>The loop\<close>

text \<open>\<open>_run\<close>: \<open>stops\<close> are the answers of the tests of the stop event, \<open>ticks i\<close> the \<open>i\<close>-th tick. A tick that raises is logged.\<close>

fun run_loop :: "(nat \<Rightarrow> 'c code) \<Rightarrow> nat \<Rightarrow> bool list \<Rightarrow> 'c \<Rightarrow> nat list \<times> 'c" where
  "run_loop ticks i [] c = ([], c)"
| "run_loop ticks i (stop # stops) c =
     (if stop then ([], c)
      else let (went, c') = run_loop ticks (i + 1) stops (snd (swallow (ticks i) c)) in (i # went, c'))"

section \<open>Best effort\<close>

text \<open>\<open>_status_add\<close>, \<open>_record_action\<close>, \<open>_notify_reward_update\<close>, \<open>_touch_active\<close>, \<open>_record_place_buy_tier\<close>, \<open>_action\<close>: the write, whose
  failure is logged.\<close>

definition best_effort :: "'w code \<Rightarrow> 'w code" where
  "best_effort write = swallow write"

definition notify_reward_update :: "'w code option \<Rightarrow> 'w code" where
  "notify_reward_update callback w = (case callback of None \<Rightarrow> (False, w) | Some write \<Rightarrow> best_effort write w)"

text \<open>\<open>_template\<close> and \<open>_funder\<close> of the router: read once and kept, the template also as empty after a failure.\<close>

definition cached_template :: "'t option \<Rightarrow> 't \<Rightarrow> 't option \<Rightarrow> 't \<times> 't option" where
  "cached_template answer blank kept = (case kept of Some t \<Rightarrow> (t, kept) | None \<Rightarrow> (let t = (case answer of None \<Rightarrow> blank | Some t \<Rightarrow> t) in (t, Some t)))"

text \<open>The tick size of a merge operation, by the first of its tokens that has a book.\<close>

fun tick_str_of :: "(string \<Rightarrow> string option) \<Rightarrow> string list \<Rightarrow> string" where
  "tick_str_of tick_of [] = ''0.01''"
| "tick_str_of tick_of (t # ts) = (if t = [] then tick_str_of tick_of ts else case tick_of t of Some s \<Rightarrow> s | None \<Rightarrow> tick_str_of tick_of ts)"

section \<open>Password and wallets\<close>

text \<open>The table of the password has one row.\<close>

definition save_password :: "'h \<Rightarrow> 's \<Rightarrow> ('h \<times> 's) option \<Rightarrow> ('h \<times> 's) option" where
  "save_password h salt row = Some (h, salt)"

definition get_password :: "('h \<times> 's) option \<Rightarrow> ('h \<times> 's) option" where
  "get_password row = row"

definition list_wallets :: "db \<Rightarrow> wallet_row list" where
  "list_wallets d = db_wallets d"

section \<open>What an exception costs\<close>

lemma run_loop_spec:
  "run_loop ticks i stops c = (went, c') \<Longrightarrow>
     went = [i..<i + length (takeWhile Not stops)] \<and> c' = fold (\<lambda>j c. snd (ticks j c)) went c"
proof (induction ticks i stops c arbitrary: went c' rule: run_loop.induct)
  case (2 ticks i stop stops c)
  show ?case
  proof (cases stop)
    case False
    obtain r d where rec: "run_loop ticks (i + 1) stops (snd (swallow (ticks i) c)) = (r, d)" by fastforce
    have IH: "r = [i + 1..<i + 1 + length (takeWhile Not stops)]" "d = fold (\<lambda>j c. snd (ticks j c)) r (snd (swallow (ticks i) c))"
      using 2(1) [OF False rec] by blast+
    have "[i..<i + length (takeWhile Not (stop # stops))] = i # r"
      using False by (simp add: IH(1) upt_conv_Cons del: upt_Suc)
    moreover have "went = i # r" "c' = d" using 2(2) False rec by simp_all
    ultimately show ?thesis using IH(2) by (simp add: swallow_def)
  qed (use 2 in auto)
qed auto

lemma in_turn_append: "in_turn (xs @ ys) w = (let (raised, w') = in_turn xs w in if raised then (True, w') else in_turn ys w')"
  by (induction xs arbitrary: w) (auto simp: split_beta Let_def)

lemma steps_marked:
  "in_turn (map (mark_step work) ss) c = (raised, c') \<Longrightarrow>
     \<exists>n \<le> length ss. cw_marks c' = cw_marks c @ take n ss \<and> cw_published c' = cw_published c \<and> (raised \<or> n = length ss) \<and>
       (raised \<longrightarrow> 0 < n \<and> (\<exists>w. fst (work (ss ! (n - 1)) w)))"
proof (induction ss arbitrary: c)
  case (Cons s ss)
  obtain r w where s: "work s (cw_world c) = (r, w)" by fastforce
  let ?c = "c\<lparr>cw_world := w, cw_marks := cw_marks c @ [s]\<rparr>"
  have m: "mark_step work s c = (r, ?c)" by (simp add: mark_step_def s)
  show ?case
  proof (cases r)
    case True
    with Cons.prems m have "raised" "c' = ?c" by simp_all
    then show ?thesis using True s by (intro exI [of _ 1]) (auto intro!: exI [of _ "cw_world c"])
  next
    case False
    with Cons.prems m have "in_turn (map (mark_step work) ss) ?c = (raised, c')" by simp
    from Cons.IH [OF this] obtain n where n: "n \<le> length ss" "cw_marks c' = cw_marks ?c @ take n ss" "cw_published c' = cw_published ?c"
      "raised \<or> n = length ss" "raised \<longrightarrow> 0 < n \<and> (\<exists>w. fst (work (ss ! (n - 1)) w))" by blast
    then show ?thesis by (intro exI [of _ "Suc n"]) (auto simp: nth_Cons' )
  qed
qed auto

text \<open>A tick that is left by an exception has begun its steps in order up to the one that raised and publishes no status; any other
  does all five and publishes once. The loop goes on with the next tick in either case, from the state the last one
  left, until a test finds the event set.\<close>

lemma tick_frame_spec:
  assumes "tick_frame prepare work c = (raised, c')"
  shows "\<exists>n \<le> length tick_steps. cw_marks c' = take n tick_steps \<and> (raised \<longleftrightarrow> cw_published c' = cw_published c) \<and>
    cw_published c' = cw_published c + (if raised then 0 else 1) \<and> (raised \<or> n = length tick_steps) \<and>
    (raised \<longrightarrow> 0 < n \<and> (\<exists>w. fst (work (tick_steps ! (n - 1)) w)))"
proof -
  let ?c = "c\<lparr>cw_marks := [], cw_world := snd (prepare (cw_world c))\<rparr>"
  obtain r d where s: "in_turn (map (mark_step work) tick_steps) ?c = (r, d)" by fastforce
  from steps_marked [OF s] obtain n where n: "n \<le> length tick_steps" "cw_marks d = take n tick_steps" "cw_published d = cw_published c"
    "r \<or> n = length tick_steps" "r \<longrightarrow> 0 < n \<and> (\<exists>w. fst (work (tick_steps ! (n - 1)) w))" by auto
  have "(raised, c') = (if r then (True, d) else (False, d\<lparr>cw_published := cw_published d + 1\<rparr>))"
    using assms by (cases r) (auto simp: tick_frame_def Let_def in_turn_append s publish_status_def swallow_def)
  with n show ?thesis by (intro exI [of _ n]) (auto split: if_splits)
qed

end
