(* ===== verification/Scanner_Loop.thy ===== *)
theory Scanner_Loop
  imports Prelude
begin

text \<open>
  The threads of the scanner loop (\<open>_scanner_loop\<close>, \<open>start_all\<close>, \<open>stop_all\<close> in \<open>engine/manager.py\<close>). All loops test the
  same stop event; a start clears it and makes a new thread, a stop sets it and waits at most
  30 seconds for the thread started last. A step is a stretch of code of one thread between two
  points at which another one can be seen to interleave.
\<close>

section \<open>Steps\<close>

datatype loop_phase = At_test | In_round | Waiting

record loops =
  lp_stop :: bool
  lp_threads :: "nat \<Rightarrow> loop_phase option"
  lp_current :: "nat option"
  lp_joining :: "nat option"
  lp_next :: nat

definition no_loops :: loops where
  "no_loops = \<lparr>lp_stop = False, lp_threads = Map.empty, lp_current = None, lp_joining = None, lp_next = 0\<rparr>"

datatype loop_event =
    Start_loop
  | Stop_loop
  | Joined
  | Join_timeout
  | Test nat bool
  | Round_over nat
  | Woken nat

definition start_loop :: "loops \<Rightarrow> loops" where
  "start_loop s = s\<lparr>lp_stop := False, lp_threads := (lp_threads s)(lp_next s \<mapsto> At_test), lp_current := Some (lp_next s), lp_next := lp_next s + 1\<rparr>"

definition stop_loop :: "loops \<Rightarrow> loops" where
  "stop_loop s = s\<lparr>lp_stop := True, lp_joining := lp_current s\<rparr>"

definition end_join :: "loops \<Rightarrow> loops" where
  "end_join s = s\<lparr>lp_current := None, lp_joining := None\<rparr>"

text \<open>The head of the loop: it ends when the event is set, else a round follows if there are an account and workers.\<close>

definition test_loop :: "nat \<Rightarrow> bool \<Rightarrow> loops \<Rightarrow> loops" where
  "test_loop i ready s = s\<lparr>lp_threads := (lp_threads s)(i := if lp_stop s then None else Some (if ready then In_round else Waiting))\<rparr>"

inductive loop_step :: "loops \<Rightarrow> loop_event \<Rightarrow> loops \<Rightarrow> bool" where
  start: "loop_step s Start_loop (start_loop s)"
| stop: "lp_joining s = None \<Longrightarrow> loop_step s Stop_loop (stop_loop s)"
| joined: "lp_joining s = Some i \<Longrightarrow> lp_threads s i = None \<Longrightarrow> loop_step s Joined (end_join s)"
| timeout: "lp_joining s = Some i \<Longrightarrow> loop_step s Join_timeout (end_join s)"
| test: "lp_threads s i = Some At_test \<Longrightarrow> loop_step s (Test i ready) (test_loop i ready s)"
| over: "lp_threads s i = Some In_round \<Longrightarrow> loop_step s (Round_over i) (s\<lparr>lp_threads := (lp_threads s)(i \<mapsto> Waiting)\<rparr>)"
| woken: "lp_threads s i = Some Waiting \<Longrightarrow> loop_step s (Woken i) (s\<lparr>lp_threads := (lp_threads s)(i \<mapsto> At_test)\<rparr>)"

inductive_cases loop_stepE: "loop_step s e s'"

inductive loop_run :: "loop_event list \<Rightarrow> loops \<Rightarrow> bool" where
  idle: "loop_run [] no_loops"
| more: "loop_run es s \<Longrightarrow> loop_step s e s' \<Longrightarrow> loop_run (es @ [e]) s'"

text \<open>A run in which the engine is started only when it was not started or its stop is complete, and every stop
  sees the thread end within its 30 seconds.\<close>

inductive orderly_run :: "loop_event list \<Rightarrow> loops \<Rightarrow> bool" where
  idle: "orderly_run [] no_loops"
| more: "orderly_run es s \<Longrightarrow> loop_step s e s' \<Longrightarrow> e \<noteq> Join_timeout \<Longrightarrow> (e = Start_loop \<longrightarrow> lp_current s = None) \<Longrightarrow> orderly_run (es @ [e]) s'"

section \<open>How many loops run\<close>

definition one_loop :: "loops \<Rightarrow> bool" where
  "one_loop s \<longleftrightarrow> (\<forall>i. lp_threads s i \<noteq> None \<longrightarrow> lp_current s = Some i) \<and> (\<forall>i. lp_joining s = Some i \<longrightarrow> lp_current s = Some i \<and> lp_stop s)"

lemma one_loop_step:
  assumes "one_loop s" and "loop_step s e s'" and "e \<noteq> Join_timeout" and "e = Start_loop \<longrightarrow> lp_current s = None"
  shows "one_loop s'"
  using assms(2,1,3,4)
  by cases (auto simp: one_loop_def start_loop_def stop_loop_def end_join_def test_loop_def split: if_splits)

lemma orderly_one_loop: "orderly_run es s \<Longrightarrow> one_loop s"
proof (induction rule: orderly_run.induct)
  case idle
  show ?case by (simp add: one_loop_def no_loops_def)
next
  case (more es s e s')
  then show ?case using one_loop_step by blast
qed

lemma more_loops: "loop_run es s \<Longrightarrow> loop_step s e s' \<Longrightarrow> loop_run (es @ [e]) s'"
  by (rule loop_run.more)

lemma two_starts:
  "\<exists>s. loop_run [Start_loop, Start_loop, Test 0 True, Test 1 True] s \<and> lp_threads s 0 = Some In_round \<and> lp_threads s 1 = Some In_round"
proof -
  let ?s1 = "start_loop no_loops" let ?s2 = "start_loop ?s1" let ?s3 = "test_loop 0 True ?s2" let ?s4 = "test_loop 1 True ?s3"
  have "loop_run [Start_loop] ?s1"
    using loop_run.more [OF loop_run.idle loop_step.start] by simp
  then have "loop_run [Start_loop, Start_loop] ?s2"
    using loop_run.more [OF _ loop_step.start] by fastforce
  then have "loop_run [Start_loop, Start_loop, Test 0 True] ?s3"
    using loop_run.more [OF _ loop_step.test [of ?s2 0 True]] by (fastforce simp: start_loop_def no_loops_def)
  then have "loop_run [Start_loop, Start_loop, Test 0 True, Test 1 True] ?s4"
    using loop_run.more [OF _ loop_step.test [of ?s3 1 True]] by (fastforce simp: start_loop_def no_loops_def test_loop_def)
  then show ?thesis
    by (intro exI [of _ ?s4]) (simp add: start_loop_def no_loops_def test_loop_def)
qed

lemma slow_stop:
  "\<exists>s. loop_run [Start_loop, Test 0 True, Stop_loop, Join_timeout, Start_loop, Round_over 0, Woken 0, Test 0 True, Test 1 True] s \<and>
     lp_threads s 0 = Some In_round \<and> lp_threads s 1 = Some In_round"
proof -
  let ?s1 = "start_loop no_loops" let ?s2 = "test_loop 0 True ?s1" let ?s3 = "stop_loop ?s2" let ?s4 = "end_join ?s3" let ?s5 = "start_loop ?s4"
  let ?s6 = "?s5\<lparr>lp_threads := (lp_threads ?s5)(0 \<mapsto> Waiting)\<rparr>" let ?s7 = "?s6\<lparr>lp_threads := (lp_threads ?s6)(0 \<mapsto> At_test)\<rparr>"
  let ?s8 = "test_loop 0 True ?s7" let ?s9 = "test_loop 1 True ?s8"
  note defs = start_loop_def no_loops_def test_loop_def stop_loop_def end_join_def
  have "loop_run [Start_loop] ?s1"
    using loop_run.more [OF loop_run.idle loop_step.start] by simp
  from loop_run.more [OF this loop_step.test [of ?s1 0 True]] have "loop_run [Start_loop, Test 0 True] ?s2"
    by (simp add: defs)
  from loop_run.more [OF this loop_step.stop] have "loop_run [Start_loop, Test 0 True, Stop_loop] ?s3"
    by (simp add: defs)
  from loop_run.more [OF this loop_step.timeout [of ?s3 0]] have "loop_run [Start_loop, Test 0 True, Stop_loop, Join_timeout] ?s4"
    by (simp add: defs)
  from loop_run.more [OF this loop_step.start] have "loop_run [Start_loop, Test 0 True, Stop_loop, Join_timeout, Start_loop] ?s5"
    by (simp add: defs)
  from loop_run.more [OF this loop_step.over [of ?s5 0]] have
    "loop_run [Start_loop, Test 0 True, Stop_loop, Join_timeout, Start_loop, Round_over 0] ?s6"
    by (simp add: defs)
  from loop_run.more [OF this loop_step.woken [of ?s6 0]] have
    "loop_run [Start_loop, Test 0 True, Stop_loop, Join_timeout, Start_loop, Round_over 0, Woken 0] ?s7"
    by (simp add: defs)
  from loop_run.more [OF this loop_step.test [of ?s7 0 True]] have
    "loop_run [Start_loop, Test 0 True, Stop_loop, Join_timeout, Start_loop, Round_over 0, Woken 0, Test 0 True] ?s8"
    by (simp add: defs)
  from loop_run.more [OF this loop_step.test [of ?s8 1 True]] have
    "loop_run [Start_loop, Test 0 True, Stop_loop, Join_timeout, Start_loop, Round_over 0, Woken 0, Test 0 True, Test 1 True] ?s9"
    by (simp add: defs)
  then show ?thesis
    by (intro exI [of _ ?s9]) (simp add: defs)
qed

text \<open>C6: One scanner loop, if starts and stops are orderly. As long as the engine is started only when it is stopped, and
  every stop sees its thread end in time, at most one loop runs, it is the one the next stop will wait for, and once
  the stop event is set it ends at its next test. Nothing in the code enforces either: after two starts in a row,
  and after a restart whose stop gave up waiting for a long round, two loops are in a
  round at the same time, the second because the start clears the event the first one was to see.\<close>

theorem one_scanner_loop:
  "(orderly_run es s \<and> lp_threads s i = Some p \<longrightarrow>
      lp_current s = Some i \<and> (\<forall>j q. lp_threads s j = Some q \<longrightarrow> j = i) \<and> (lp_stop s \<longrightarrow> lp_threads (test_loop i ready s) = Map.empty)) \<and>
   (\<exists>s. loop_run [Start_loop, Start_loop, Test 0 True, Test 1 True] s \<and> lp_threads s 0 = Some In_round \<and> lp_threads s 1 = Some In_round) \<and>
   (\<exists>s. loop_run [Start_loop, Test 0 True, Stop_loop, Join_timeout, Start_loop, Round_over 0, Woken 0, Test 0 True, Test 1 True] s \<and>
      lp_threads s 0 = Some In_round \<and> lp_threads s 1 = Some In_round)"
proof (intro conjI impI)
  assume run: "orderly_run es s \<and> lp_threads s i = Some p"
  then have one: "lp_threads s j = Some q \<Longrightarrow> lp_current s = Some j" for j q
    using orderly_one_loop by (fastforce simp: one_loop_def)
  show "lp_current s = Some i"
    using run one by blast
  then show "\<forall>j q. lp_threads s j = Some q \<longrightarrow> j = i"
    using one by fastforce
  show "lp_threads (test_loop i ready s) = Map.empty" if "lp_stop s"
  proof
    fix j
    show "lp_threads (test_loop i ready s) j = None"
      using run one [of j] one [of i] that by (cases "lp_threads s j") (auto simp: test_loop_def)
  qed
qed (rule two_starts, rule slow_stop)

lemma one_scanner_loop_witness:
  "\<exists>s. orderly_run [Start_loop, Test 0 True] s \<and> lp_threads s 0 = Some In_round \<and> lp_current s = Some 0"
proof -
  let ?s1 = "start_loop no_loops" let ?s2 = "test_loop 0 True ?s1"
  have "orderly_run [Start_loop] ?s1"
    using orderly_run.more [OF orderly_run.idle loop_step.start] by (simp add: no_loops_def)
  from orderly_run.more [OF this loop_step.test [of ?s1 0 True]] have run: "orderly_run [Start_loop, Test 0 True] ?s2"
    by (simp add: start_loop_def no_loops_def)
  have "lp_threads ?s2 0 = Some In_round"
    by (simp add: start_loop_def no_loops_def test_loop_def)
  with run one_scanner_loop [of "[Start_loop, Test 0 True]" ?s2 0 In_round] show ?thesis by blast
qed

end
