(* ===== verification/Exit_Safety.thy ===== *)
theory Exit_Safety
  imports Exit_Router
begin

text \<open>
  What the quick-exit router guarantees over whole runs: the table of operations moves only
  by legal steps (an operation never leaves CONFIRMED or FAILED), reconciliation never buys
  the complement, routing buys it at most once and only with a reservation in the table,
  and a market with an active operation is left alone.
\<close>

section \<open>Relations kept by programs\<close>

definition keeps :: "(router \<Rightarrow> router \<Rightarrow> bool) \<Rightarrow> 'a rm \<Rightarrow> bool" where
  "keeps R m \<longleftrightarrow> (\<forall>s. R s (snd (m s)))"

locale state_rel =
  fixes R :: "router \<Rightarrow> router \<Rightarrow> bool"
  assumes refl_R: "R s s"
    and trans_R: "R s t \<Longrightarrow> R t u \<Longrightarrow> R s u"
begin

lemma keeps_ret: "keeps R (ret x)"
  by (simp add: keeps_def ret_def refl_R)

lemma keeps_throw: "keeps R throw"
  by (simp add: keeps_def throw_def refl_R)

lemma keeps_gets: "keeps R (gets f)"
  by (simp add: keeps_def gets_def refl_R)

lemma keeps_andthen:
  assumes "keeps R m" "\<And>x. keeps R (f x)"
  shows "keeps R (andthen m f)"
  unfolding keeps_def
proof
  fix s
  show "R s (snd (andthen m f s))"
  proof (cases "m s")
    case (Pair r t)
    with assms(1) have "R s t" unfolding keeps_def by (metis snd_conv)
    moreover have "R t (snd (f x t))" for x using assms(2) by (simp add: keeps_def)
    ultimately show ?thesis using Pair by (auto simp: andthen_def split: option.split intro: trans_R)
  qed
qed

lemma keeps_seq: "keeps R m \<Longrightarrow> keeps R n \<Longrightarrow> keeps R (seq m n)"
  unfolding seq_def by (rule keeps_andthen)

lemma keeps_catch:
  assumes "keeps R m" "keeps R h"
  shows "keeps R (catch m h)"
  unfolding keeps_def
proof
  fix s
  show "R s (snd (catch m h s))"
  proof (cases "m s")
    case (Pair r t)
    with assms(1) have "R s t" unfolding keeps_def by (metis snd_conv)
    moreover have "R t (snd (h t))" using assms(2) by (simp add: keeps_def)
    ultimately show ?thesis using Pair by (auto simp: catch_def split: option.split intro: trans_R)
  qed
qed

lemma keeps_for_each: "(\<And>x. x \<in> set xs \<Longrightarrow> keeps R (f x)) \<Longrightarrow> keeps R (for_each xs f)"
  by (induction xs) (auto intro: keeps_ret keeps_seq)

lemma keeps_if: "keeps R m \<Longrightarrow> keeps R n \<Longrightarrow> keeps R (if b then m else n)"
  by simp

lemmas keeps_rules = keeps_ret keeps_throw keeps_gets keeps_andthen keeps_seq keeps_catch keeps_for_each keeps_if

end

section \<open>Purchases of the complement\<close>

fun is_fok :: "effect \<Rightarrow> bool" where
  "is_fok (Fok_buy a b c d) = True"
| "is_fok _ = False"

definition foks :: "router \<Rightarrow> effect list" where
  "foks s = filter is_fok (r_log s)"

definition same_foks :: "router \<Rightarrow> router \<Rightarrow> bool" where
  "same_foks s t \<longleftrightarrow> foks t = foks s"

interpretation fok: state_rel same_foks
  by unfold_locales (simp_all add: same_foks_def)

lemma keeps_change_fok: "(\<And>s. r_log (f s) = r_log s) \<Longrightarrow> keeps same_foks (change f)"
  by (simp add: keeps_def change_def same_foks_def foks_def)

lemma keeps_emit_fok: "\<not> is_fok e \<Longrightarrow> keeps same_foks (emit e)"
  by (simp add: keeps_def emit_def change_def same_foks_def foks_def)

lemma keeps_db_fok: "keeps same_foks (db_update w i fs)"
  by (simp add: keeps_def db_update_def same_foks_def foks_def split: option.split)

lemma keeps_poll_fok: "keeps same_foks (set_poll i v)"
  unfolding set_poll_def by (rule keeps_change_fok) simp

lemma keeps_mark_fok: "keeps same_foks (mark_asset a c t)" "keeps same_foks (mark_note a c n)"
  unfolding mark_note_def mark_asset_def by (rule keeps_change_fok, simp)+

lemmas fok_basic = fok.keeps_rules keeps_emit_fok keeps_db_fok keeps_poll_fok keeps_mark_fok keeps_change_fok

lemma cancel_fok: "keeps same_foks (cancel_sells w a c q)"
  unfolding cancel_sells_def by (intro fok_basic) simp_all

lemma fail_fok: "keeps same_foks (fail_event w i r)"
  unfolding fail_event_def by (intro fok_basic) (auto split: option.split intro!: fok_basic)

lemma finalize_fok: "keeps same_foks (finalize_confirmed w i)"
  unfolding finalize_confirmed_def Let_def by (intro fok_basic) (auto split: option.split intro!: fok_basic)

lemma submit_fok: "keeps same_foks (submit_merge w i c y n q)"
  unfolding submit_merge_def Let_def
  by (intro fok_basic cancel_fok) (auto split: sum.split intro!: fok_basic fail_fok)

lemma reconcile_event_fok: "keeps same_foks (reconcile_event w e)"
proof -
  have order: "keeps same_foks (reconcile_fok_order w e)"
    unfolding reconcile_fok_order_def Let_def submit_event_def
    by (auto split: option.split intro!: fok_basic submit_fok fail_fok)
  have "keeps same_foks (poll_merge w e)"
    unfolding poll_merge_def Let_def by (auto split: option.split intro!: fok_basic finalize_fok fail_fok)
  with order show ?thesis
    unfolding reconcile_event_def submit_event_def
    by (auto split: status.split route.split intro!: fok_basic submit_fok fail_fok)
qed

lemma reconcile_pending_fok: "keeps same_foks (reconcile_pending w ps os)"
proof -
  have "keeps same_foks (reconcile_managed_sells w)"
    unfolding reconcile_managed_sells_def by (auto intro!: fok_basic)
  moreover have "keeps same_foks (reconcile_events w)"
    unfolding reconcile_events_def by (auto intro!: fok_basic reconcile_event_fok)
  moreover have "keeps same_foks (publish_status w)"
    unfolding publish_status_def by (rule keeps_change_fok) (simp add: Let_def)
  ultimately show ?thesis unfolding reconcile_pending_def by (intro fok_basic) simp_all
qed


section \<open>Rows are never lost\<close>

definition keys_kept :: "router \<Rightarrow> router \<Rightarrow> bool" where
  "keys_kept s t \<longleftrightarrow> (\<forall>e \<in> set (ms_rows (r_store s)). \<exists>f \<in> set (ms_rows (r_store t)).
     me_id f = me_id e \<and> me_wallet f = me_wallet e \<and> me_cid f = me_cid e)"

interpretation keys: state_rel keys_kept
  by unfold_locales (force simp: keys_kept_def)+

lemma keeps_change_keys: "(\<And>s. r_store (f s) = r_store s) \<Longrightarrow> keeps keys_kept (change f)"
  by (force simp: keeps_def change_def keys_kept_def)

lemma keeps_emit_keys: "keeps keys_kept (emit e)"
  unfolding emit_def by (rule keeps_change_keys) simp

lemma update_keys:
  "update_merge_event now i fs st = Some (n, st') \<Longrightarrow> e \<in> set (ms_rows st) \<Longrightarrow>
   \<exists>f \<in> set (ms_rows st'). me_id f = me_id e \<and> me_wallet f = me_wallet e \<and> me_cid f = me_cid e"
  by (rule bexI [of _ "if st' = st then e else if me_id e = i then apply_fields now fs e else e"])
    (auto simp: update_merge_event_def Let_def split: if_splits)

lemma keeps_db_keys: "keeps keys_kept (db_update w i fs)"
  by (auto simp: keeps_def db_update_def keys_kept_def dest: update_keys split: option.split)

lemma keeps_poll_keys: "keeps keys_kept (set_poll i v)"
  unfolding set_poll_def by (rule keeps_change_keys) simp

lemmas keys_basic = keys.keeps_rules keeps_emit_keys keeps_db_keys keeps_poll_keys

lemma fail_keys: "keeps keys_kept (fail_event w i r)"
  unfolding fail_event_def by (intro keys_basic) (auto split: option.split intro!: keys_basic)

section \<open>Programs that leave table and purchases alone\<close>

definition quiet :: "router \<Rightarrow> router \<Rightarrow> bool" where
  "quiet s t \<longleftrightarrow> foks t = foks s \<and> r_store t = r_store s"

interpretation quiet: state_rel quiet
  by unfold_locales (simp_all add: quiet_def)

lemma keeps_change_quiet: "(\<And>s. r_log (f s) = r_log s \<and> r_store (f s) = r_store s) \<Longrightarrow> keeps quiet (change f)"
  by (simp add: keeps_def change_def quiet_def foks_def)

lemma keeps_emit_quiet: "\<not> is_fok e \<Longrightarrow> keeps quiet (emit e)"
  by (simp add: keeps_def emit_def change_def quiet_def foks_def)

lemma keeps_mark_quiet: "keeps quiet (mark_asset a c t)" "keeps quiet (mark_note a c n)"
  unfolding mark_note_def mark_asset_def by (rule keeps_change_quiet, simp)+

lemmas quiet_basic = quiet.keeps_rules keeps_emit_quiet keeps_mark_quiet keeps_change_quiet

lemma cancel_quiet: "keeps quiet (cancel_sells w a c q)"
  unfolding cancel_sells_def by (intro quiet_basic) simp_all

lemma publish_quiet: "keeps quiet (publish_status w)"
  unfolding publish_status_def by (rule keeps_change_quiet) (simp add: Let_def)

lemma protected_fak_quiet: "keeps quiet (protected_fak w p q d)"
  unfolding protected_fak_def Let_def
  by (intro quiet_basic cancel_quiet) (auto split: placed.split intro!: quiet_basic)

section \<open>At most one purchase per routed position, and only behind a reservation\<close>

definition one_fok :: "world \<Rightarrow> router \<Rightarrow> router \<Rightarrow> bool" where
  "one_fok w s t \<longleftrightarrow> foks t = foks s \<or>
     (\<exists>cid tok p q. foks t = foks s @ [Fok_buy cid tok p q] \<and>
        get_active_merge_event (w_wallet w) cid (r_store s) = None \<and>
        (\<exists>e \<in> set (ms_rows (r_store t)). me_id e = ms_next (r_store s) \<and> me_wallet e = w_wallet w \<and> me_cid e = cid))"

lemma one_fok_refl: "same_foks s t \<Longrightarrow> one_fok w s t"
  by (simp add: one_fok_def same_foks_def)

lemma one_fok_before: "quiet s t \<Longrightarrow> one_fok w t u \<Longrightarrow> one_fok w s u"
  by (auto simp: one_fok_def quiet_def)

lemma one_fok_after: "one_fok w s t \<Longrightarrow> quiet t u \<Longrightarrow> one_fok w s u"
  by (auto simp: one_fok_def quiet_def)

lemma seq_change [simp]: "seq (change f) m s = m (f s)"
  by (simp add: seq_def andthen_def change_def)

lemma seq_emit [simp]: "seq (emit e) m s = m (s\<lparr>r_log := r_log s @ [e]\<rparr>)"
  by (simp add: emit_def)

lemma keeps_andthen_quiet:
  assumes "keeps quiet m" "\<And>x. keeps (one_fok w) (f x)"
  shows "keeps (one_fok w) (andthen m f)"
  unfolding keeps_def
proof
  fix s
  show "one_fok w s (snd (andthen m f s))"
  proof (cases "m s")
    case (Pair r t)
    with assms(1) have q: "quiet s t" unfolding keeps_def by (metis snd_conv)
    have "one_fok w t (snd (f x t))" for x using assms(2) by (simp add: keeps_def)
    with q Pair show ?thesis
      by (auto simp: andthen_def split: option.split intro: one_fok_before)
        (simp add: one_fok_def quiet_def)
  qed
qed

lemma keeps_seq_quiet: "keeps quiet m \<Longrightarrow> keeps (one_fok w) n \<Longrightarrow> keeps (one_fok w) (seq m n)"
  unfolding seq_def by (rule keeps_andthen_quiet)

lemma keeps_quiet_one: "keeps quiet m \<Longrightarrow> keeps (one_fok w) m"
  by (auto simp: keeps_def quiet_def one_fok_def)

lemma keeps_seq_ret: "keeps (one_fok w) m \<Longrightarrow> keeps (one_fok w) (seq m (ret x))"
  unfolding keeps_def
proof
  fix s assume a: "\<forall>s. one_fok w s (snd (m s))"
  obtain r t where m: "m s = (r, t)" by fastforce
  then have "snd (seq m (ret x) s) = t" by (simp add: seq_def andthen_def ret_def split: option.split)
  then show "one_fok w s (snd (seq m (ret x) s))" using a m by (metis snd_conv)
qed

lemma start_fok_one: "keeps (one_fok w) (start_fok_merge w cid asset tok sz worst)"
  unfolding keeps_def
proof
  fix s
  show "one_fok w s (snd (start_fok_merge w cid asset tok sz worst s))"
  proof (cases "w_cost_lots w asset sz cid")
    case None
    then show ?thesis
      using keeps_mark_quiet(2) [of asset cid N_merge_active]
      by (simp add: start_fok_merge_def keeps_def one_fok_def quiet_def)
  next
    case (Some cl)
    obtain c lots where cl: "cl = (c, lots)" by fastforce
    let ?create = "create_merge_event (w_now w) (w_wallet w) cid FOK_MERGE sz asset tok (fifo_cost lots sz) 0 [] (r_store s)"
    show ?thesis
    proof (cases ?create)
      case None
      with Some cl show ?thesis
        using keeps_mark_quiet(2) [of asset cid N_merge_active]
        by (simp add: start_fok_merge_def keeps_def one_fok_def quiet_def andthen_def gets_def)
    next
      case (Some created)
      obtain i st' where c: "created = (i, st')" by fastforce
      note new = create_Some [OF Some [unfolded c]]
      let ?tail = "case w_fok_buy w tok worst sz of Rejected \<Rightarrow> fail_event w i ''fok rejected'' | Raised \<Rightarrow> throw
        | Placed st0 oid \<Rightarrow> seq (if oid \<noteq> '''' then db_update w i [Set_order oid] else ret ())
            (if lower st0 = ''matched'' then
               seq (db_update w i [Set_cstatus ''matched'']) (emit (Act ''merge_fok_matched'' cid worst sz))
             else if lower st0 = ''delayed'' then
               seq (db_update w i [Set_cstatus ''delayed'']) (emit (Act ''merge_fok_submit'' cid worst sz))
             else fail_event w i ''fok status'')"
      obtain u where run: "start_fok_merge w cid asset tok sz worst s = ?tail u"
        and u: "r_store u = st'" "foks u = foks s @ [Fok_buy cid tok worst sz]"
      proof
        let ?u = "snd (seq (change (\<lambda>s. s\<lparr>r_store := st'\<rparr>)) (seq (emit (Act ''merge_fok_submit'' cid worst sz))
          (seq (mark_note asset cid N_fok) (emit (Fok_buy cid tok worst sz)))) s)"
        show "start_fok_merge w cid asset tok sz worst s = ?tail ?u"
          unfolding start_fok_merge_def \<open>w_cost_lots w asset sz cid = Some cl\<close> cl option.case prod.case
            andthen_def [of "gets r_store"] gets_def Some c
          unfolding mark_note_def mark_asset_def seq_change seq_emit emit_def change_def by simp
        show "r_store ?u = st'" "foks ?u = foks s @ [Fok_buy cid tok worst sz]"
          by (simp_all add: mark_note_def mark_asset_def emit_def change_def foks_def)
      qed
      have "keeps same_foks ?tail" "keeps keys_kept ?tail"
        by (auto split: placed.split intro!: fok_basic fail_fok keys_basic fail_keys)
      then have "same_foks u (snd (?tail u))" "keys_kept u (snd (?tail u))"
        unfolding keeps_def by blast+
      then show ?thesis
        unfolding run one_fok_def
        using new u by (auto simp: same_foks_def keys_kept_def get_active_iff)
    qed
  qed
qed


lemma route_compare_one: "keeps (one_fok w) (route_compare w p sz)"
proof -
  have fak: "keeps (one_fok w) (seq (protected_fak w p sz d) (ret True))" for d
    by (rule keeps_quiet_one) (intro quiet_basic protected_fak_quiet)
  have mark: "keeps (one_fok w) (seq (mark_note a c n) (ret True))" for a c n
    by (rule keeps_quiet_one) (intro quiet_basic)
  have fok: "keeps (one_fok w) (seq (mark_note a c N_fok_merge) (seq (start_fok_merge w c a tok sz worst) (ret True)))"
    for a c tok worst by (intro keeps_seq_quiet quiet_basic keeps_seq_ret start_fok_one)
  have thr: "keeps (one_fok w) throw" by (intro keeps_quiet_one quiet_basic)
  show ?thesis
    unfolding route_compare_def Let_def
    by (auto split: option.split prod.split bool.split
      intro!: keeps_andthen_quiet quiet_basic fak mark fok thr)
qed

lemma keeps_ret_one: "keeps (one_fok w) (ret x)"
  by (rule keeps_quiet_one) (rule quiet.keeps_ret)

lemma maker_route_one: "keeps (one_fok w) (maker_route w p sz lots ask wait)"
  unfolding maker_route_def Let_def
  by (auto split: option.split placed.split
    intro!: keeps_andthen_quiet keeps_seq_quiet keeps_ret_one route_compare_one quiet_basic cancel_quiet)


lemma pair_route_fok: "keeps same_foks (pair_merge_route w p other sz lots)"
  unfolding pair_merge_route_def Let_def
  by (auto split: option.split prod.split intro!: fok_basic submit_fok)

lemma andthen_Some: "m s = (Some x, t) \<Longrightarrow> andthen m f s = f x t"
  by (simp add: andthen_def)

lemma andthen_None: "m s = (None, t) \<Longrightarrow> andthen m f s = (None, t)"
  by (simp add: andthen_def)

lemma catch_None: "m s = (None, t) \<Longrightarrow> catch m h s = h t"
  by (simp add: catch_def)

lemma catch_Some: "m s = (Some x, t) \<Longrightarrow> catch m h s = (Some x, t)"
  by (simp add: catch_def)

definition never_False :: "bool rm \<Rightarrow> bool" where
  "never_False m \<longleftrightarrow> (\<forall>s. fst (m s) \<noteq> Some False)"

lemma never_False_seq: "never_False n \<Longrightarrow> never_False (seq m n)"
  by (auto simp: never_False_def seq_def andthen_def split: option.splits prod.splits)

lemma never_False_andthen: "(\<And>x. never_False (f x)) \<Longrightarrow> never_False (andthen m f)"
  by (auto simp: never_False_def andthen_def split: option.splits prod.splits)

lemma never_False_ret: "never_False (ret True)"
  by (simp add: never_False_def ret_def)

lemma pair_route_False:
  assumes "fst (pair_merge_route w p other sz lots s) = Some False"
  shows "quiet s (snd (pair_merge_route w p other sz lots s))"
proof -
  obtain a b where other: "other = (a, b)" by fastforce
  let ?q = "pair_amount (Some sz) (Some b)"
  have mark: "quiet s (snd (seq (mark_note (ps_asset p) (ps_cid p) n) (ret False) s))" for n
    using quiet.keeps_seq [OF keeps_mark_quiet(2) [of "ps_asset p" "ps_cid p" n] quiet.keeps_ret [of False]]
    unfolding keeps_def by blast
  consider "?q < tmpl_num (tm_merge_min_shares (w_tmpl w)) 1"
    | "\<not> ?q < tmpl_num (tm_merge_min_shares (w_tmpl w)) 1" "\<not> w_relayer_env w"
    | "\<not> ?q < tmpl_num (tm_merge_min_shares (w_tmpl w)) 1" "w_relayer_env w" by blast
  then show ?thesis
  proof cases
    case 3
    then have "never_False (pair_merge_route w p other sz lots)"
      unfolding pair_merge_route_def Let_def other prod.case if_not_P [OF 3(1)]
      by (auto split: option.split intro!: never_False_andthen never_False_seq never_False_ret)
    with assms show ?thesis by (simp add: never_False_def)
  qed (use mark in \<open>simp_all add: pair_merge_route_def other\<close>)
qed

lemma handled_one:
  assumes "keeps same_foks m" "\<And>s. fst (m s) = Some False \<Longrightarrow> quiet s (snd (m s))" "keeps (one_fok w) n"
  shows "keeps (one_fok w) (andthen m (\<lambda>handled. if handled then ret True else n))"
  unfolding keeps_def
proof
  fix s
  obtain r t where m: "m s = (r, t)" by fastforce
  have sf: "same_foks s t" using assms(1) m unfolding keeps_def by (metis snd_conv)
  show "one_fok w s (snd (andthen m (\<lambda>handled. if handled then ret True else n) s))"
  proof (cases "r = Some False")
    case True
    then have "quiet s t" using assms(2) [of s] m by simp
    moreover have "one_fok w t (snd (n t))" using assms(3) by (simp add: keeps_def)
    ultimately show ?thesis using m True by (simp add: andthen_def one_fok_before)
  next
    case False
    then have "snd (andthen m (\<lambda>handled. if handled then ret True else n) s) = t"
      using m by (auto simp: andthen_def ret_def split: option.split)
    then show ?thesis using sf by (simp add: one_fok_refl)
  qed
qed

lemma pair_first_fok: "keeps same_foks (pair_first w p sz lots)"
  unfolding pair_first_def by (auto split: option.split intro!: fok_basic pair_route_fok)

lemma pair_first_False: "fst (pair_first w p sz lots s) = Some False \<Longrightarrow> quiet s (snd (pair_first w p sz lots s))"
  using pair_route_False [of w p _ sz lots s] quiet.refl_R [of s]
  by (auto simp: pair_first_def andthen_def gets_def ret_def split: option.splits if_splits)

lemma single_side_one: "keeps (one_fok w) (single_side w p sz cost lots bid ask ew)"
  by (simp add: single_side_def route_compare_one maker_route_one)

lemma route_body_one: "keeps (one_fok w) (route_body w p)"
proof -
  have thr: "keeps (one_fok w) throw" by (intro keeps_quiet_one quiet_basic)
  have rest: "keeps (one_fok w) (andthen (pair_first w p sz lots)
      (\<lambda>handled. if handled then ret True else single_side w p sz cost lots bid ask ew))" for sz cost lots bid ask ew
    by (rule handled_one [OF pair_first_fok pair_first_False single_side_one])
  show ?thesis
    unfolding route_body_def Let_def
    by (auto split: option.split prod.split
      intro!: rest keeps_andthen_quiet keeps_seq_quiet keeps_ret_one keeps_mark_quiet quiet.keeps_gets thr)
qed

text \<open>C8: routing one position buys the complement at most once, and only when the market had
no active operation, after reserving a row for it in the table (so that a restart finds
the operation); the start-of-tick reconciliation never buys it.\<close>

theorem route_buys_once_behind_reservation:
  "foks (snd (reconcile_pending w ps os s)) = foks s \<and>
   (foks (snd (route_position w p orders s)) = foks s \<or>
    (\<exists>cid tok price q. foks (snd (route_position w p orders s)) = foks s @ [Fok_buy cid tok price q] \<and>
       get_active_merge_event (w_wallet w) cid (r_store s) = None \<and>
       (\<exists>e \<in> set (ms_rows (r_store (snd (route_position w p orders s)))).
          me_id e = ms_next (r_store s) \<and> me_wallet e = w_wallet w \<and> me_cid e = cid)))"
proof -
  let ?start = "change (\<lambda>s. s\<lparr>r_open := (if orders = [] then r_open s else orders)\<rparr>)"
  have body: "keeps (one_fok w) (seq ?start (route_body w p))"
    by (intro keeps_seq_quiet route_body_one keeps_change_quiet) simp
  have pub: "keeps quiet (seq (catch (publish_status w) (ret ())) (ret h))" for h
    by (intro quiet_basic publish_quiet)
  have "one_fok w s (snd (route_position w p orders s))"
  proof -
    obtain r t where m: "seq ?start (route_body w p) s = (r, t)" by fastforce
    have "one_fok w s (snd (seq ?start (route_body w p) s))" using body unfolding keeps_def by blast
    then have one: "one_fok w s t" unfolding m snd_conv .
    show ?thesis
    proof (cases r)
      case None
      then have "route_position w p orders s = (Some False, t)"
        unfolding route_position_def using m by (simp add: andthen_None catch_None ret_def del: seq_change)
      with one show ?thesis by simp
    next
      case (Some h)
      obtain r' u where f: "seq (catch (publish_status w) (ret ())) (ret h) t = (r', u)" by fastforce
      have "quiet t (snd (seq (catch (publish_status w) (ret ())) (ret h) t))" using pub [of h] unfolding keeps_def by blast
      then have "quiet t u" unfolding f snd_conv .
      with one have "one_fok w s u" by (rule one_fok_after)
      moreover have "andthen (seq ?start (route_body w p)) (\<lambda>h. seq (catch (publish_status w) (ret ())) (ret h)) s = (r', u)"
        using m Some f by (simp add: andthen_Some del: seq_change)
      then have "snd (route_position w p orders s) = u"
        unfolding route_position_def by (cases r') (simp_all add: catch_None catch_Some ret_def)
      ultimately show ?thesis by simp
    qed
  qed
  moreover have "same_foks s (snd (reconcile_pending w ps os s))"
    using reconcile_pending_fok by (simp add: keeps_def)
  ultimately show ?thesis by (simp add: one_fok_def same_foks_def)
qed

text \<open>While a market has an active operation the router takes over its positions and does
nothing to the exchange: no order, no cancellation, no merge, and the table is unchanged.\<close>

theorem active_operation_is_left_alone:
  assumes "get_active_merge_event (w_wallet w) (ps_cid p) (r_store s) = Some e"
    and "0 < num (ps_size p)" "ps_cid p \<noteq> ''''"
    and "0 < tmpl_num (tm_exit_wait (w_tmpl w)) 60 \<or> tm_merge_enabled (w_tmpl w)"
  shows "fst (route_position w p orders s) = Some True \<and>
    r_log (snd (route_position w p orders s)) = r_log s \<and>
    r_store (snd (route_position w p orders s)) = r_store s \<and>
    r_managed (snd (route_position w p orders s)) = r_managed s"
proof -
  let ?s = "s\<lparr>r_open := (if orders = [] then r_open s else orders)\<rparr>"
  have "get_active_merge_event (w_wallet w) (ps_cid p) (r_store ?s) = Some e" using assms(1) by simp
  then have body: "route_body w p ?s = seq (mark_asset (ps_asset p) (ps_cid p)
      (merge_status_text (me_route e) (me_status e) (me_cstatus e))) (ret True) ?s"
    using assms(2-4) unfolding route_body_def Let_def
    by (subst if_not_P, simp, subst if_not_P, force, subst andthen_Some [of _ _ "Some e"]) (simp_all add: gets_def)
  let ?t = "?s\<lparr>r_assets := (r_assets ?s)(ps_asset p \<mapsto> merge_status_text (me_route e) (me_status e) (me_cstatus e)),
    r_conditions := (r_conditions ?s)(ps_cid p \<mapsto> merge_status_text (me_route e) (me_status e) (me_cstatus e))\<rparr>"
  have "seq (change (\<lambda>s. s\<lparr>r_open := (if orders = [] then r_open s else orders)\<rparr>)) (route_body w p) s = (Some True, ?t)"
    using body assms(3) by (simp add: mark_asset_def ret_def)
  then have "andthen (seq (change (\<lambda>s. s\<lparr>r_open := (if orders = [] then r_open s else orders)\<rparr>))
      (route_body w p)) (\<lambda>h. seq (catch (publish_status w) (ret ())) (ret h)) s
    = seq (catch (publish_status w) (ret ())) (ret True) ?t"
    by (rule andthen_Some)
  moreover obtain u where "seq (catch (publish_status w) (ret ())) (ret True) ?t = (Some True, u)"
    "r_log u = r_log s" "r_store u = r_store s" "r_managed u = r_managed s"
    by (simp add: seq_def andthen_def catch_def publish_status_def change_def ret_def Let_def)
  ultimately show ?thesis unfolding route_position_def by (simp add: catch_Some)
qed

end
