(* ===== verification/Exit_Lifecycle.thy ===== *)
theory Exit_Lifecycle
  imports Exit_Safety
begin

text \<open>
  The life of a merge operation through whatever the router does: READY, then SUBMITTED,
  then CONFIRMED or FAILED, never back, and a confirmed row carries the profit the code
  computes from it. Runs are sequences of ticks, routed positions and restarts.
\<close>

section \<open>Legal steps of the table\<close>

definition terminal :: "mevent \<Rightarrow> bool" where
  "terminal e \<longleftrightarrow> me_status e = CONFIRMED \<or> me_status e = FAILED"

definition status_le :: "status \<Rightarrow> status \<Rightarrow> bool" where
  "status_le a b \<longleftrightarrow> a = b \<or> a = READY \<or> (a = SUBMITTED \<and> b \<noteq> READY)"

definition booked :: "mevent \<Rightarrow> bool" where
  "booked e \<longleftrightarrow> (me_status e = CONFIRMED \<longrightarrow> me_recovered e = me_amount e \<and> me_confirmed e \<noteq> None \<and>
     me_pnl e = me_amount e - me_yes_cost e - me_no_cost e)"

text \<open>What a row carries from its creation on, and the fields an update may not change it by.\<close>

definition money :: "mevent \<Rightarrow> route \<times> rat \<times> rat \<times> rat" where
  "money e = (me_route e, me_amount e, me_yes_cost e, me_no_cost e)"

definition plain_field :: "mfield \<Rightarrow> bool" where
  "plain_field f \<longleftrightarrow> (\<forall>e. me_status (set_field f e) = me_status e \<and> money (set_field f e) = money e)"

lemma plain_fields [simp]: "plain_field (Set_cstatus c)" "plain_field (Set_order c)" "plain_field (Set_error c)"
  by (simp_all add: plain_field_def money_def)

definition fok_costs :: "mevent \<Rightarrow> bool" where
  "fok_costs e \<longleftrightarrow> (me_route e = FOK_MERGE \<longrightarrow> me_no_cost e = 0)"

definition legal_change :: "rat \<Rightarrow> mfield list \<Rightarrow> mevent \<Rightarrow> bool" where
  "legal_change now fs e \<longleftrightarrow> \<not> terminal e \<and> status_le (me_status e) (me_status (apply_fields now fs e)) \<and>
     booked (apply_fields now fs e) \<and> money (apply_fields now fs e) = money e"

inductive legal_step :: "mstore \<Rightarrow> mstore \<Rightarrow> bool" where
  create: "create_merge_event now w c rt q yes no yc nc ord st = Some (i, st') \<Longrightarrow>
    (rt = FOK_MERGE \<Longrightarrow> nc = 0) \<Longrightarrow> legal_step st st'"
| update: "update_merge_event now i fs st = Some (n, st') \<Longrightarrow>
    (\<And>e. e \<in> set (ms_rows st) \<Longrightarrow> me_id e = i \<Longrightarrow> legal_change now fs e) \<Longrightarrow> legal_step st st'"

inductive_cases legal_stepE: "legal_step st st'"

definition progress :: "mstore \<Rightarrow> mstore \<Rightarrow> bool" where
  "progress st st' \<longleftrightarrow> (\<forall>e \<in> set (ms_rows st). \<exists>f \<in> set (ms_rows st'). me_id f = me_id e \<and>
     status_le (me_status e) (me_status f) \<and> money f = money e \<and> (terminal e \<longrightarrow> f = e))"

definition books_ok :: "mstore \<Rightarrow> bool" where
  "books_ok st \<longleftrightarrow> (\<forall>e \<in> set (ms_rows st). booked e \<and> fok_costs e)"

lemma status_le_simps [simp]: "status_le a a" "status_le READY b"
    "status_le SUBMITTED b \<longleftrightarrow> b \<noteq> READY"
  by (auto simp: status_le_def)

lemma status_le_trans: "status_le a b \<Longrightarrow> status_le b c \<Longrightarrow> status_le a c"
  by (auto simp: status_le_def)

lemma progress_trans: "progress a b \<Longrightarrow> progress b c \<Longrightarrow> progress a c"
  unfolding progress_def by (metis status_le_trans)

lemma legal_step_keeps:
  assumes "legal_step st st'" "store_inv st" "books_ok st"
  shows "store_inv st' \<and> books_ok st' \<and> progress st st'"
proof -
  from assms(1) consider
    (create) now w c rt q yes no yc nc ord i where
      "create_merge_event now w c rt q yes no yc nc ord st = Some (i, st')" "rt = FOK_MERGE \<Longrightarrow> nc = 0"
  | (update) now i fs n where "update_merge_event now i fs st = Some (n, st')"
      "\<And>e. e \<in> set (ms_rows st) \<Longrightarrow> me_id e = i \<Longrightarrow> legal_change now fs e"
    by (elim legal_stepE) blast+
  then show ?thesis
  proof cases
  case create
  then show ?thesis
    using create_inv [OF create(1) assms(2)] create_Some [OF create(1)] create(2) assms(3)
    by (auto simp: books_ok_def booked_def fok_costs_def new_event_def progress_def)
next
  case 2: update
  let ?f = "\<lambda>e. if me_id e = i then apply_fields now fs e else e"
  from 2(1) consider "st' = st" | "ms_rows st' = map ?f (ms_rows st)"
    by (auto simp: update_merge_event_def Let_def split: if_splits)
  then show ?thesis
  proof cases
    case 1
    then show ?thesis using assms by (auto simp: progress_def)
  next
    case rows: 2
    have "books_ok st'" using rows 2(2) assms(3) by (auto simp: books_ok_def legal_change_def fok_costs_def money_def)
    moreover have "\<exists>f \<in> set (ms_rows st'). me_id f = me_id e \<and> status_le (me_status e) (me_status f) \<and> money f = money e \<and>
        (terminal e \<longrightarrow> f = e)" if "e \<in> set (ms_rows st)" for e
      using that 2(2) [OF that] rows by (intro bexI [of _ "?f e"]) (auto simp: legal_change_def)
    ultimately show ?thesis using update_inv [OF 2(1) assms(2)] by (auto simp: progress_def)
  qed
  qed
qed

lemma legal_steps_keep:
  "legal_step\<^sup>*\<^sup>* st st' \<Longrightarrow> store_inv st \<Longrightarrow> books_ok st \<Longrightarrow> store_inv st' \<and> books_ok st' \<and> progress st st'"
proof (induction rule: rtranclp_induct)
  case base
  then show ?case by (auto simp: progress_def)
next
  case (step t u)
  then show ?case using legal_step_keeps [of t u] progress_trans by blast
qed

lemma legal_steps_inv: "legal_step\<^sup>*\<^sup>* st st' \<Longrightarrow> store_inv st \<Longrightarrow> store_inv st'"
  by (induction rule: rtranclp_induct) (auto elim!: legal_stepE dest: create_inv update_inv)

section \<open>Programs that take legal steps only\<close>

definition lawful :: "(mstore \<Rightarrow> bool) \<Rightarrow> 'a rm \<Rightarrow> bool" where
  "lawful P m \<longleftrightarrow> (\<forall>s. store_inv (r_store s) \<longrightarrow> P (r_store s) \<longrightarrow>
     legal_step\<^sup>*\<^sup>* (r_store s) (r_store (snd (m s))))"

definition leads :: "(mstore \<Rightarrow> bool) \<Rightarrow> 'a rm \<Rightarrow> (mstore \<Rightarrow> bool) \<Rightarrow> bool" where
  "leads P m Q \<longleftrightarrow> (\<forall>s. store_inv (r_store s) \<longrightarrow> P (r_store s) \<longrightarrow> Q (r_store (snd (m s))))"

lemma lawful_quiet: "keeps quiet m \<Longrightarrow> lawful P m"
  by (simp add: lawful_def keeps_def quiet_def)

lemma leads_quiet: "keeps quiet m \<Longrightarrow> leads P m P"
  by (simp add: leads_def keeps_def quiet_def)

lemma lawful_andthen:
  assumes "lawful P m" "leads P m Q" "\<And>x. lawful Q (f x)"
  shows "lawful P (andthen m f)"
  unfolding lawful_def
proof (intro allI impI)
  fix s :: router assume inv: "store_inv (r_store s)" and P: "P (r_store s)"
  obtain r t where m: "m s = (r, t)" by fastforce
  have a: "legal_step\<^sup>*\<^sup>* (r_store s) (r_store t)" "Q (r_store t)"
    using assms(1,2) inv P m unfolding lawful_def leads_def by (metis snd_conv)+
  then have "legal_step\<^sup>*\<^sup>* (r_store t) (r_store (snd (f x t)))" for x
    using assms(3) [of x] legal_steps_inv [OF a(1) inv] unfolding lawful_def by blast
  with a m show "legal_step\<^sup>*\<^sup>* (r_store s) (r_store (snd (andthen m f s)))"
    by (auto simp: andthen_def split: option.split intro: rtranclp_trans)
qed

lemma lawful_seq: "lawful P m \<Longrightarrow> leads P m Q \<Longrightarrow> lawful Q n \<Longrightarrow> lawful P (seq m n)"
  unfolding seq_def by (rule lawful_andthen)

lemma lawful_after_quiet: "keeps quiet m \<Longrightarrow> lawful P n \<Longrightarrow> lawful P (seq m n)"
  by (rule lawful_seq [OF lawful_quiet leads_quiet])

lemma lawful_andthen_quiet: "keeps quiet m \<Longrightarrow> (\<And>x. lawful P (f x)) \<Longrightarrow> lawful P (andthen m f)"
  by (rule lawful_andthen [OF lawful_quiet leads_quiet])

lemma lawful_ret: "lawful P (ret x)" "lawful P throw" "lawful P (set_poll i v)"
  by (simp_all add: lawful_def ret_def throw_def set_poll_def change_def)

lemma lawful_then_quiet: "lawful P m \<Longrightarrow> keeps quiet n \<Longrightarrow> lawful P (seq m n)"
  by (rule lawful_seq [where Q = "\<lambda>_. True"]) (auto simp: leads_def intro: lawful_quiet)

lemma lawful_weaken: "lawful Q m \<Longrightarrow> (\<And>st. P st \<Longrightarrow> Q st) \<Longrightarrow> lawful P m"
  by (auto simp: lawful_def)

lemma lawful_catch:
  assumes "lawful P m" "\<And>s. r_store (snd (h s)) = r_store s"
  shows "lawful P (catch m h)"
  using assms by (auto simp: lawful_def catch_def split: prod.split option.split)

text \<open>The status of the row with a given id, if there is one.\<close>

definition at_status :: "int \<Rightarrow> (status \<Rightarrow> bool) \<Rightarrow> mstore \<Rightarrow> bool" where
  "at_status i Q st \<longleftrightarrow> (\<forall>e \<in> set (ms_rows st). me_id e = i \<longrightarrow> Q (me_status e))"

lemma set_poll_quiet: "keeps quiet (set_poll i v)"
  unfolding set_poll_def by (rule keeps_change_quiet) simp

lemma db_lawful:
  assumes "\<And>e st. P st \<Longrightarrow> e \<in> set (ms_rows st) \<Longrightarrow> me_id e = i \<Longrightarrow> legal_change (w_now w) fs e"
  shows "lawful P (db_update w i fs)"
  using assms
  by (auto simp: lawful_def db_update_def split: option.split intro!: r_into_rtranclp legal_step.update)

lemma fold_no_status:
  "\<forall>f \<in> set fs. plain_field f \<Longrightarrow> me_status (fold set_field fs e) = me_status e \<and> money (fold set_field fs e) = money e"
  by (induction fs arbitrary: e) (auto simp: plain_field_def)


lemma db_leads_status:
  assumes "\<forall>f \<in> set fs. plain_field f"
  shows "leads (at_status i Q) (db_update w j fs) (at_status i Q)"
  using fold_no_status [OF assms]
  by (auto simp: leads_def db_update_def at_status_def update_merge_event_def Let_def apply_fields_def
    split: option.splits if_splits)

definition not_final :: "status \<Rightarrow> bool" where
  "not_final s \<longleftrightarrow> s \<noteq> CONFIRMED \<and> s \<noteq> FAILED"

lemma change_cstatus: "at_status i ((=) READY) st \<Longrightarrow> e \<in> set (ms_rows st) \<Longrightarrow> me_id e = i \<Longrightarrow>
    \<forall>f \<in> set fs. plain_field f \<Longrightarrow> legal_change now fs e"
  using fold_no_status [of fs e]
  by (auto simp: at_status_def legal_change_def terminal_def booked_def apply_fields_def money_def)

lemma legal_change_fail: "not_final (me_status e) \<Longrightarrow> legal_change now [Set_status FAILED, Set_error x] e"
  by (cases "me_status e") (simp_all add: legal_change_def not_final_def terminal_def apply_fields_def booked_def money_def)

lemma legal_change_confirm: "not_final (me_status e) \<Longrightarrow>
    legal_change now [Set_status CONFIRMED, Set_recovered (merge_recovery_usd (Some (me_amount e))),
      Set_pnl (merge_realized_pnl (Some (me_amount e)) (Some (me_yes_cost e)) (Some (me_no_cost e)) (Some 0)),
      Set_confirmed (Some t), Set_error x] e"
  by (cases "me_status e") (simp_all add: legal_change_def not_final_def terminal_def apply_fields_def booked_def money_def
    merge_realized_pnl_def merge_recovery_usd_def)

lemma fail_lawful: "lawful (at_status i (\<lambda>s. s \<noteq> CONFIRMED)) (fail_event w i r)"
  unfolding lawful_def
proof (intro allI impI)
  fix s :: router
  assume inv: "store_inv (r_store s)" and st: "at_status i (\<lambda>s. s \<noteq> CONFIRMED) (r_store s)"
  let ?m = "db_update w i [Set_status FAILED, Set_error (take 300 r)]"
  show "legal_step\<^sup>*\<^sup>* (r_store s) (r_store (snd (fail_event w i r s)))"
  proof (cases "get_merge_event i (r_store s)")
    case None
    then show ?thesis by (simp add: fail_event_def andthen_def gets_def ret_def)
  next
    case (Some e)
    then have e: "e \<in> set (ms_rows (r_store s))" "me_id e = i"
      unfolding get_merge_event_def by (auto dest: find_SomeD)
    show ?thesis
    proof (cases "me_status e = FAILED")
      case True
      with Some show ?thesis by (simp add: fail_event_def andthen_def gets_def ret_def)
    next
      case False
      let ?P = "\<lambda>st. \<forall>f \<in> set (ms_rows st). me_id f = i \<longrightarrow> not_final (me_status f)"
      have one: "f = e" if "f \<in> set (ms_rows (r_store s))" "me_id f = i" for f
        using inv that e unfolding store_inv_def distinct_map inj_on_def by metis
      have P: "?P (r_store s)" using False st one unfolding not_final_def at_status_def by metis
      have "lawful ?P ?m"
        by (rule db_lawful) (simp add: legal_change_fail)
      then have "lawful ?P (seq ?m (seq (emit (Act ''merge_failed'' (me_cid e) (-1) (me_amount e))) (set_poll i None)))"
        by (rule lawful_then_quiet) (intro quiet_basic set_poll_quiet, simp)
      with P inv Some False show ?thesis
        by (simp add: lawful_def fail_event_def andthen_def [of "gets _"] gets_def)
    qed
  qed
qed

lemma finalize_lawful: "lawful (at_status i (\<lambda>s. s \<noteq> FAILED)) (finalize_confirmed w i)"
  unfolding lawful_def
proof (intro allI impI)
  fix s :: router
  assume inv: "store_inv (r_store s)" and st: "at_status i (\<lambda>s. s \<noteq> FAILED) (r_store s)"
  show "legal_step\<^sup>*\<^sup>* (r_store s) (r_store (snd (finalize_confirmed w i s)))"
  proof (cases "get_merge_event i (r_store s)")
    case None
    then show ?thesis by (simp add: finalize_confirmed_def andthen_def gets_def ret_def)
  next
    case (Some e)
    then have e: "e \<in> set (ms_rows (r_store s))" "me_id e = i"
      unfolding get_merge_event_def by (auto dest: find_SomeD)
    show ?thesis
    proof (cases "me_status e = CONFIRMED")
      case True
      with Some show ?thesis by (simp add: finalize_confirmed_def andthen_def gets_def ret_def)
    next
      case False
      let ?m = "db_update w i [Set_status CONFIRMED, Set_recovered (merge_recovery_usd (Some (me_amount e))),
        Set_pnl (merge_realized_pnl (Some (me_amount e)) (Some (me_yes_cost e)) (Some (me_no_cost e)) (Some 0)),
        Set_confirmed (Some (w_now w)), Set_error '''']"
      let ?P = "\<lambda>st. \<forall>f \<in> set (ms_rows st). me_id f = i \<longrightarrow> f = e"
      have P: "?P (r_store s)"
        using inv e unfolding store_inv_def distinct_map inj_on_def by metis
      have "not_final (me_status e)" using False st e unfolding not_final_def at_status_def by metis
      then have "lawful ?P ?m"
        by (intro db_lawful) (metis legal_change_confirm)
      then have "lawful ?P (seq ?m (emit (Act ''merge_confirmed'' (me_cid e) (-1) (me_amount e))))"
        by (rule lawful_then_quiet) (intro quiet_basic, simp)
      with P inv Some False show ?thesis
        by (simp add: lawful_def finalize_confirmed_def andthen_def [of "gets _"] gets_def Let_def)
    qed
  qed
qed

lemma submit_lawful: "lawful (at_status i ((=) READY)) (submit_merge w i cid yes no q)"
proof -
  let ?R = "at_status i ((=) READY)"
  have upd: "lawful ?R (db_update w i fs)" if "\<forall>f \<in> set fs. plain_field f" for fs
    by (rule db_lawful) (rule change_cstatus [OF _ _ _ that])
  have sub: "lawful ?R (db_update w i [Set_status SUBMITTED, Set_tx tx, Set_cstatus c])" for tx c
    by (rule db_lawful) (auto simp: at_status_def legal_change_def terminal_def booked_def apply_fields_def money_def)
  have fail: "lawful ?R (fail_event w i r)" for r
    by (rule lawful_weaken [OF fail_lawful]) (auto simp: at_status_def)
  show ?thesis
    unfolding submit_merge_def Let_def
    by (intro lawful_after_quiet cancel_quiet quiet_basic)
      (auto split: sum.split intro!: lawful_then_quiet upd sub fail quiet_basic set_poll_quiet)
qed

section \<open>Reconciling touches the row of its operation only\<close>

definition others :: "int \<Rightarrow> router \<Rightarrow> router \<Rightarrow> bool" where
  "others i s t \<longleftrightarrow> filter (\<lambda>e. me_id e \<noteq> i) (ms_rows (r_store t)) = filter (\<lambda>e. me_id e \<noteq> i) (ms_rows (r_store s))"

interpretation others: state_rel "others i" for i
  by unfold_locales (simp_all add: others_def)

lemma others_quiet: "keeps quiet m \<Longrightarrow> keeps (others i) m"
  by (simp add: keeps_def quiet_def others_def)

lemma update_others:
  "filter (\<lambda>e. me_id e \<noteq> i) (map (\<lambda>e. if me_id e = i then apply_fields now fs e else e) rows) =
   filter (\<lambda>e. me_id e \<noteq> i) rows"
  by (induction rows) auto

lemma db_others: "keeps (others i) (db_update w i fs)"
  using update_others
  by (auto simp: keeps_def others_def db_update_def update_merge_event_def Let_def
    simp del: filter_map split: option.splits if_splits)

lemmas others_basic = others.keeps_rules db_others

lemma emit_others: "keeps (others i) (emit e)"
  by (simp add: keeps_def emit_def change_def others_def)

lemma poll_others: "keeps (others i) (set_poll j v)"
  by (rule others_quiet) (rule set_poll_quiet)

lemma fail_others: "keeps (others i) (fail_event w i r)"
  unfolding fail_event_def by (auto split: option.split intro!: others_basic emit_others poll_others)

lemma finalize_others: "keeps (others i) (finalize_confirmed w i)"
  unfolding finalize_confirmed_def Let_def by (auto split: option.split intro!: others_basic emit_others)

lemma submit_others: "keeps (others i) (submit_merge w i c y n q)"
  unfolding submit_merge_def Let_def
  by (auto split: sum.split intro!: others_basic emit_others poll_others fail_others others_quiet [OF cancel_quiet])

lemma reconcile_event_others: "keeps (others (me_id e)) (reconcile_event w e)"
proof -
  let ?i = "me_id e"
  have order: "keeps (others ?i) (reconcile_fok_order w e)"
    unfolding reconcile_fok_order_def Let_def submit_event_def
    by (auto split: option.split intro!: others_basic emit_others poll_others submit_others fail_others)
  have "keeps (others ?i) (poll_merge w e)"
    unfolding poll_merge_def Let_def
    by (auto split: option.split intro!: others_basic poll_others finalize_others fail_others)
  with order show ?thesis
    unfolding reconcile_event_def submit_event_def
    by (auto split: status.split route.split intro!: others_basic submit_others fail_others)
qed

lemma others_status: "others i s t \<Longrightarrow> j \<noteq> i \<Longrightarrow> at_status j Q (r_store s) \<Longrightarrow> at_status j Q (r_store t)"
proof -
  assume o: "others i s t" and j: "j \<noteq> i" and a: "at_status j Q (r_store s)"
  have "e \<in> set (ms_rows (r_store s))" if "e \<in> set (ms_rows (r_store t))" "me_id e = j" for e
  proof -
    have "e \<in> set (filter (\<lambda>e. me_id e \<noteq> i) (ms_rows (r_store t)))" using that j by simp
    then show ?thesis using o unfolding others_def by simp
  qed
  with a show ?thesis by (simp add: at_status_def)
qed

section \<open>Every operation of the router is lawful\<close>

lemma reconcile_event_lawful: "lawful (at_status (me_id e) ((=) (me_status e))) (reconcile_event w e)"
proof -
  let ?i = "me_id e"
  have weak: "lawful (at_status ?i ((=) READY)) m" if "lawful (at_status ?i (\<lambda>s. s \<noteq> CONFIRMED)) m" for m :: "unit rm"
    by (rule lawful_weaken [OF that]) (auto simp: at_status_def)
  have fail: "lawful (at_status ?i ((=) READY)) (fail_event w ?i r)" for r by (rule weak [OF fail_lawful])
  have sub: "lawful (at_status ?i ((=) READY)) (submit_event w e)"
    unfolding submit_event_def by (rule submit_lawful)
  have upd: "lawful (at_status ?i ((=) READY)) (db_update w ?i [Set_cstatus c])" for c
    by (rule db_lawful) (rule change_cstatus, simp_all)
  have then_sub: "lawful (at_status ?i ((=) READY)) (seq (db_update w ?i [Set_cstatus c]) (seq (emit a) (submit_event w e)))"
    if "\<not> is_fok a" for c a
    by (rule lawful_seq [OF upd db_leads_status]) (simp, intro lawful_after_quiet quiet_basic sub, rule that)
  have order: "lawful (at_status ?i ((=) READY)) (reconcile_fok_order w e)"
    unfolding reconcile_fok_order_def Let_def
    by (auto split: option.split intro!: lawful_andthen_quiet lawful_after_quiet set_poll_quiet quiet_basic
      then_sub sub fail upd lawful_ret)
  have sfail: "lawful (at_status ?i ((=) SUBMITTED)) (fail_event w ?i r)" for r
    by (rule lawful_weaken [OF fail_lawful]) (auto simp: at_status_def)
  have sfin: "lawful (at_status ?i ((=) SUBMITTED)) (finalize_confirmed w ?i)"
    by (rule lawful_weaken [OF finalize_lawful]) (auto simp: at_status_def)
  have poll: "lawful (at_status ?i ((=) SUBMITTED)) (poll_merge w e)"
    unfolding poll_merge_def Let_def
    by (auto split: option.split intro!: lawful_andthen_quiet set_poll_quiet quiet_basic sfail sfin lawful_ret)
  show ?thesis
    using order poll
    by (cases "me_status e"; cases "me_route e")
      (auto simp: reconcile_event_def intro!: lawful_andthen_quiet quiet_basic sub fail lawful_ret)
qed

lemma for_each_lawful:
  assumes "distinct (map me_id evs)"
  shows "lawful (\<lambda>st. \<forall>e \<in> set evs. at_status (me_id e) ((=) (me_status e)) st)
    (for_each evs (\<lambda>e. catch (reconcile_event w e) (ret ())))"
  using assms
proof (induction evs)
  case Nil
  then show ?case by (simp add: lawful_quiet quiet_basic)
next
  case (Cons e evs)
  let ?Q = "\<lambda>st. \<forall>f \<in> set evs. at_status (me_id f) ((=) (me_status f)) st"
  let ?m = "catch (reconcile_event w e) (ret ())"
  have "keeps (others (me_id e)) ?m" by (intro others_basic reconcile_event_others)
  then have "leads (\<lambda>st. \<forall>f \<in> set (e # evs). at_status (me_id f) ((=) (me_status f)) st) ?m ?Q"
    using Cons.prems others_status unfolding leads_def keeps_def
    by (auto, metis image_eqI)
  moreover have "lawful (\<lambda>st. \<forall>f \<in> set (e # evs). at_status (me_id f) ((=) (me_status f)) st) ?m"
    by (rule lawful_weaken [OF lawful_catch [OF reconcile_event_lawful]]) (simp_all add: ret_def)
  ultimately show ?case using Cons by (auto intro: lawful_seq)
qed

lemma active_events_rows:
  assumes "store_inv st"
  shows "distinct (map me_id (active_events wl st))"
    and "e \<in> set (active_events wl st) \<Longrightarrow> at_status (me_id e) ((=) (me_status e)) st"
proof -
  have dist: "distinct (map me_id (fst (list_merge_events wl ss f u n k st)))" for ss f u n k
  proof -
    let ?xs = "filter (list_filter wl ss f u) (ms_rows st)"
    have "distinct (map me_id (rev ?xs))"
      using assms by (simp add: store_inv_def distinct_map_filter rev_map [symmetric])
    then have "distinct (map me_id (sort_desc me_created (rev ?xs)))"
      by (simp add: sort_desc_def distinct_map distinct_sort)
    then show ?thesis
      by (simp add: list_merge_events_def Let_def take_map [symmetric] drop_map [symmetric])
  qed
  have rows: "e \<in> set (ms_rows st)" "me_status e \<in> set ss"
    if "e \<in> set (fst (list_merge_events wl ss f u n k st))" "ss \<noteq> []" for e ss f u n k
    using that by (auto simp: list_merge_events_def Let_def list_filter_def dest!: in_set_takeD in_set_dropD)
  have id: "e = f" if "e \<in> set (ms_rows st)" "f \<in> set (ms_rows st)" "me_id e = me_id f" for e f
    using assms that unfolding store_inv_def distinct_map inj_on_def by metis
  have ne: "me_id e \<noteq> me_id f" if "e \<in> set (fst (list_merge_events wl [READY] None None 100 0 st))"
    "f \<in> set (fst (list_merge_events wl [SUBMITTED] None None 100 0 st))" for e f
  proof -
    have "me_status e = READY" "me_status f = SUBMITTED" using rows(2) [OF that(1)] rows(2) [OF that(2)] by simp_all
    then show ?thesis using id [OF rows(1) [OF that(1)] rows(1) [OF that(2)]] by fastforce
  qed
  have "me_id ` set (fst (list_merge_events wl [READY] None None 100 0 st)) \<inter>
      me_id ` set (fst (list_merge_events wl [SUBMITTED] None None 100 0 st)) = {}"
    by (rule equals0I) (elim IntE imageE, use ne in blast)
  then show "distinct (map me_id (active_events wl st))"
    unfolding active_events_def map_append distinct_append set_map using dist by blast
  show "at_status (me_id e) ((=) (me_status e)) st" if "e \<in> set (active_events wl st)"
  proof -
    from that have "e \<in> set (ms_rows st)" using rows(1) [of e "[READY]"] rows(1) [of e "[SUBMITTED]"]
      unfolding active_events_def by fastforce
    then show ?thesis using id unfolding at_status_def by metis
  qed
qed

lemma reconcile_events_lawful: "lawful P (reconcile_events w)"
  unfolding lawful_def
proof (intro allI impI)
  fix s :: router assume inv: "store_inv (r_store s)"
  let ?evs = "active_events (w_wallet w) (r_store s)"
  note rows = active_events_rows [OF inv]
  have "legal_step\<^sup>*\<^sup>* (r_store s) (r_store (snd (for_each ?evs (\<lambda>e. catch (reconcile_event w e) (ret ())) s)))"
    using for_each_lawful [OF rows(1)] inv rows(2) unfolding lawful_def by blast
  then show "legal_step\<^sup>*\<^sup>* (r_store s) (r_store (snd (reconcile_events w s)))"
    by (simp add: reconcile_events_def andthen_def gets_def)
qed

lemma managed_quiet: "keeps quiet (reconcile_managed_sells w)"
  unfolding reconcile_managed_sells_def by (auto intro!: quiet_basic)

lemma reconcile_pending_lawful: "lawful P (reconcile_pending w ps os)"
proof -
  have ev: "lawful P (seq (catch (reconcile_events w) (ret ())) (catch (publish_status w) (ret ())))"
    by (intro lawful_then_quiet lawful_catch reconcile_events_lawful quiet_basic publish_quiet) (simp add: ret_def)
  show ?thesis
    unfolding reconcile_pending_def
    by (intro lawful_after_quiet ev quiet_basic managed_quiet) simp
qed

lemma create_then_lawful:
  assumes "keeps quiet m" "\<And>i. lawful (at_status i ((=) READY)) (body i)" "rt = FOK_MERGE \<Longrightarrow> nc = 0"
  shows "lawful P (andthen (gets r_store) (\<lambda>st. case create_merge_event now wl c rt q yes no yc nc ord st of
    None \<Rightarrow> m | Some (i, st') \<Rightarrow> seq (change (\<lambda>s. s\<lparr>r_store := st'\<rparr>)) (body i)))"
  unfolding lawful_def
proof (intro allI impI)
  fix s :: router assume inv: "store_inv (r_store s)"
  let ?c = "create_merge_event now wl c rt q yes no yc nc ord (r_store s)"
  let ?run = "\<lambda>r. case r of None \<Rightarrow> m | Some (i, st') \<Rightarrow> seq (change (\<lambda>s. s\<lparr>r_store := st'\<rparr>)) (body i)"
  have "legal_step\<^sup>*\<^sup>* (r_store s) (r_store (snd (?run ?c s)))"
  proof (cases ?c)
    case None
    then show ?thesis using lawful_quiet [OF assms(1), of "\<lambda>_. True"] inv by (simp add: lawful_def)
  next
    case (Some r)
    obtain i st' where r: "r = (i, st')" by fastforce
    note c = Some [unfolded r]
    have inv': "store_inv st'" by (rule create_inv [OF c inv])
    have "me_id e \<noteq> i" if "e \<in> set (ms_rows (r_store s))" for e
      using inv that create_Some(1) [OF c] unfolding store_inv_def by force
    then have "at_status i ((=) READY) st'" using create_Some(3) [OF c] by (auto simp: at_status_def)
    then have "legal_step\<^sup>*\<^sup>* st' (r_store (snd (body i (s\<lparr>r_store := st'\<rparr>))))"
      using assms(2) [of i] inv' unfolding lawful_def by (metis router.select_convs(1) router.update_convs(1) router.surjective)
    moreover have "legal_step (r_store s) st'" using c assms(3) by (rule legal_step.create)
    ultimately show ?thesis using Some r by (simp add: converse_rtranclp_into_rtranclp)
  qed
  then show "legal_step\<^sup>*\<^sup>* (r_store s) (r_store (snd (andthen (gets r_store) (\<lambda>st. ?run (create_merge_event now wl c rt q yes no yc nc ord st)) s)))"
    by (simp add: andthen_def gets_def)
qed

lemma start_fok_lawful: "lawful P (start_fok_merge w cid asset tok sz worst)"
proof -
  have mark: "keeps quiet (mark_note a c n)" for a c n by (rule keeps_mark_quiet)
  have upd: "lawful (at_status i ((=) READY)) (db_update w i [f])"
    if "plain_field f" for i f
    by (rule db_lawful) (rule change_cstatus, use that in simp_all)
  have fail: "lawful (at_status i ((=) READY)) (fail_event w i r)" for i r
    by (rule lawful_weaken [OF fail_lawful]) (auto simp: at_status_def)
  have upd_emit: "lawful (at_status i ((=) READY)) (seq (db_update w i [Set_cstatus c]) (emit a))"
    if "\<not> is_fok a" for i c a
    by (rule lawful_then_quiet [OF upd keeps_emit_quiet]) (use that in simp_all)
  have tail: "lawful (at_status i ((=) READY)) (seq (db_update w i [Set_order oid]) m)"
      "lawful (at_status i ((=) READY)) (seq (ret ()) m)"
    if "lawful (at_status i ((=) READY)) m" for i oid and m :: "unit rm"
    by (rule lawful_seq [OF upd db_leads_status that], simp_all)
      (rule lawful_after_quiet [OF quiet.keeps_ret that])
  have marked: "lawful Q (seq (mark_note a c n) m)" if "lawful Q m" for Q a c n and m :: "unit rm"
    by (rule lawful_after_quiet [OF mark that])
  have fok: "lawful Q (seq (emit e) m)" if "lawful Q m" for Q e and m :: "unit rm"
    by (rule lawful_seq [OF _ _ that]) (simp_all add: lawful_def leads_def emit_def change_def)
  show ?thesis
    unfolding start_fok_merge_def
    by (auto split: option.split prod.split placed.split
      intro!: create_then_lawful mark lawful_quiet [OF mark] fok marked tail upd_emit fail lawful_ret)
qed

lemma pair_route_lawful: "lawful P (pair_merge_route w p other sz lots)"
proof -
  have body: "lawful (at_status i ((=) READY)) (seq (emit (Act a cid x q)) (seq (mark_note ai cid n) (seq (submit_merge w i cid ai oa q) (ret True))))"
    for i a cid x q ai n oa
    by (intro lawful_after_quiet lawful_then_quiet submit_lawful quiet_basic) simp
  show ?thesis
    unfolding pair_merge_route_def Let_def
    by (auto split: prod.split intro!: create_then_lawful body lawful_after_quiet lawful_ret quiet_basic)
qed

lemma route_compare_lawful: "lawful P (route_compare w p sz)"
proof -
  have st: "lawful Q (seq (start_fok_merge w cid asset tok sz worst) (ret True))" for Q cid asset tok worst
    by (intro lawful_then_quiet start_fok_lawful quiet_basic)
  show ?thesis
    unfolding route_compare_def Let_def
    by (auto split: option.split prod.split bool.split
      intro!: lawful_andthen_quiet lawful_after_quiet lawful_ret st quiet_basic protected_fak_quiet)
qed

lemma maker_route_lawful: "lawful P (maker_route w p sz lots ask wait)"
  unfolding maker_route_def Let_def
  by (auto split: option.split placed.split
    intro!: lawful_andthen_quiet lawful_after_quiet lawful_ret route_compare_lawful quiet_basic cancel_quiet)

lemma route_body_lawful: "lawful P (route_body w p)"
proof -
  have first: "lawful Q (pair_first w p sz lots)" for Q sz lots
    unfolding pair_first_def
    by (auto split: option.split intro!: lawful_andthen_quiet lawful_ret pair_route_lawful quiet_basic)
  have rest: "lawful Q (single_side w p sz cost lots bid ask ew)" for Q sz cost lots bid ask ew
    by (simp add: single_side_def route_compare_lawful maker_route_lawful)
  have both: "lawful Q (andthen (pair_first w p sz lots)
      (\<lambda>handled. if handled then ret True else single_side w p sz cost lots bid ask ew))" for Q sz cost lots bid ask ew
    by (rule lawful_andthen [where Q = "\<lambda>_. True", OF first])
      (auto simp: leads_def intro: lawful_ret rest)
  show ?thesis
    unfolding route_body_def Let_def
    by (auto split: option.split prod.split
      intro!: lawful_andthen_quiet lawful_after_quiet lawful_ret both quiet_basic)
qed

lemma route_position_lawful: "lawful P (route_position w p orders)"
proof -
  have body: "lawful P (andthen (seq (change (\<lambda>s. s\<lparr>r_open := (if orders = [] then r_open s else orders)\<rparr>)) (route_body w p))
      (\<lambda>h. seq (catch (publish_status w) (ret ())) (ret h)))"
    by (rule lawful_andthen [where Q = "\<lambda>_. True"], rule lawful_after_quiet, rule keeps_change_quiet, simp,
      rule route_body_lawful, simp add: leads_def, intro lawful_quiet quiet_basic publish_quiet)
  show ?thesis
    unfolding route_position_def by (rule lawful_catch [OF body]) (simp add: ret_def)
qed

section \<open>Runs\<close>

text \<open>A call of one of the two public methods, or a restart of the process: a new router on the
same table (\<open>QuickExitRouter.__init__\<close>).\<close>

datatype call = Tick world "position list" "order list" | Route world position "order list" | Restart

definition new_router :: "mstore \<Rightarrow> router" where
  "new_router st = \<lparr>r_store = st, r_managed = [], r_last = [], r_poll = (\<lambda>_. None), r_positions = [], r_open = [],
     r_tick = 0, r_assets = Map.empty, r_conditions = Map.empty, r_published = None, r_log = []\<rparr>"

fun run_call :: "call \<Rightarrow> router \<Rightarrow> router" where
  "run_call (Tick w ps os) s = snd (reconcile_pending w ps os s)"
| "run_call (Route w p os) s = snd (route_position w p os s)"
| "run_call Restart s = new_router (r_store s)"

definition run_calls :: "call list \<Rightarrow> router \<Rightarrow> router" where
  "run_calls cs s = fold run_call cs s"

lemma run_call_legal: "store_inv (r_store s) \<Longrightarrow> legal_step\<^sup>*\<^sup>* (r_store s) (r_store (run_call c s))"
  using reconcile_pending_lawful [of "\<lambda>_. True"] route_position_lawful [of "\<lambda>_. True"]
  by (cases c) (auto simp: lawful_def new_router_def)

lemma run_calls_legal: "store_inv (r_store s) \<Longrightarrow> legal_step\<^sup>*\<^sup>* (r_store s) (r_store (run_calls cs s))"
proof (induction cs arbitrary: s)
  case Nil
  then show ?case by (simp add: run_calls_def)
next
  case (Cons c cs)
  note one = run_call_legal [OF Cons.prems, of c]
  have "legal_step\<^sup>*\<^sup>* (r_store (run_call c s)) (r_store (run_calls cs (run_call c s)))"
    using Cons.IH legal_steps_inv [OF one Cons.prems] by blast
  with one show ?case by (simp add: run_calls_def)
qed

section \<open>Properties\<close>

text \<open>C1: through any sequence of ticks, routed positions and restarts, under any answers of the
exchange, the relayer and the template, every merge operation only moves forward (READY,
SUBMITTED, then CONFIRMED or FAILED for ever), no row is lost, route, amount
and costs stay as reserved, a wallet keeps at most one active operation per market, and a confirmed operation carries one dollar per pair as
recovered and exactly that minus both costs as its profit.\<close>

theorem merge_lifecycle:
  assumes "store_inv (r_store s)" "books_ok (r_store s)"
  shows "(\<forall>e \<in> set (ms_rows (r_store (run_calls cs s))). me_status e = CONFIRMED \<longrightarrow>
      me_recovered e = me_amount e \<and> me_confirmed e \<noteq> None \<and>
      me_pnl e = me_amount e - me_yes_cost e - me_no_cost e) \<and>
    length (filter (active_for w c) (ms_rows (r_store (run_calls cs s)))) \<le> 1 \<and>
    (\<forall>e \<in> set (ms_rows (r_store s)). \<exists>f \<in> set (ms_rows (r_store (run_calls cs s))).
      me_id f = me_id e \<and> status_le (me_status e) (me_status f) \<and> me_route f = me_route e \<and>
      me_amount f = me_amount e \<and> me_yes_cost f = me_yes_cost e \<and> me_no_cost f = me_no_cost e \<and>
      (terminal e \<longrightarrow> f = e))"
proof -
  let ?t = "r_store (run_calls cs s)"
  have "store_inv ?t \<and> books_ok ?t \<and> progress (r_store s) ?t"
    using legal_steps_keep [OF run_calls_legal] assms by blast
  moreover from this have "length (filter (active_for w c) (ms_rows ?t)) \<le> 1"
    using merge_log.one_active by blast
  ultimately show ?thesis unfolding books_ok_def booked_def progress_def money_def prod.inject by blast
qed

text \<open>Whatever the fill-or-kill purchase of the complement cost, the profit booked for a
confirmed merge of that route is the amount minus the cost of the shares held: the other
side is reserved at cost 0 and no call ever sets it.\<close>

theorem fok_profit_ignores_purchase:
  assumes "store_inv (r_store s)" "books_ok (r_store s)"
    and "e \<in> set (ms_rows (r_store (run_calls cs s)))" "me_route e = FOK_MERGE" "me_status e = CONFIRMED"
  shows "me_pnl e = me_amount e - me_yes_cost e"
  using legal_steps_keep [OF run_calls_legal [OF assms(1)] assms(1,2)] assms(3-5)
  by (auto simp: books_ok_def booked_def fok_costs_def)

definition sample_world :: world where
  "sample_world = \<lparr>w_now = 1000, w_wallet = ''w'',
     w_tmpl = \<lparr>tm_exit_wait = Some (JNum 60), tm_merge_enabled = True, tm_merge_min_shares = None,
       tm_merge_min_adv = None, tm_confirm_timeout = None, tm_stop_mode = ''percent'',
       tm_stop_percent = None, tm_theta_cents = None\<rparr>,
     w_cost_lots = (\<lambda>_ _ _. None), w_sell_book = (\<lambda>_. None), w_orderbook = (\<lambda>_. None), w_cancel = (\<lambda>_. True),
     w_limit_sell = (\<lambda>_ _ _. Rejected), w_fok_buy = (\<lambda>_ _ _. Rejected), w_fak_sell = (\<lambda>_ _ _. Rejected),
     w_order = (\<lambda>_. None), w_neg_risk = (\<lambda>_. Some False), w_approved = (\<lambda>_. Some True),
     w_merge = (\<lambda>_ _ _ _. Inr ''tx''), w_tx_state = (\<lambda>_. Some ''STATE_CONFIRMED''),
     w_eligible = None, w_relayer_env = True\<rparr>"

text \<open>One operation, submitted before a restart.\<close>

definition sample_event :: mevent where
  "sample_event = (new_event 900 1 ''w'' ''m'' PAIR 10 ''y'' ''n'' 4 5 '''')\<lparr>me_status := SUBMITTED, me_tx := ''tx''\<rparr>"

lemmas sample_defs = sample_world_def sample_event_def new_router_def new_event_def

lemma sample_ok: "store_inv (r_store (new_router \<lparr>ms_rows = [sample_event], ms_next = 2\<rparr>))"
    "books_ok (r_store (new_router \<lparr>ms_rows = [sample_event], ms_next = 2\<rparr>))"
  by (simp_all add: sample_defs store_inv_def index_ok_def books_ok_def booked_def fok_costs_def)

lemma merge_lifecycle_witness:
  "map me_status (ms_rows (r_store (run_calls [Tick sample_world [] []] (new_router \<lparr>ms_rows = [sample_event], ms_next = 2\<rparr>)))) = [CONFIRMED] \<and>
   map me_pnl (ms_rows (r_store (run_calls [Tick sample_world [] []] (new_router \<lparr>ms_rows = [sample_event], ms_next = 2\<rparr>)))) = [1]"
proof -
  let ?rows = "ms_rows (r_store (run_calls [Tick sample_world [] []] (new_router \<lparr>ms_rows = [sample_event], ms_next = 2\<rparr>)))"
  have run: "map me_status ?rows = [CONFIRMED] \<and> map me_amount ?rows = [10] \<and> map me_yes_cost ?rows = [4] \<and> map me_no_cost ?rows = [5]"
    by code_simp
  then obtain e where "?rows = [e]" by (cases ?rows) auto
  with run merge_lifecycle [OF sample_ok, of "[Tick sample_world [] []]"] show ?thesis by simp
qed

lemma left_alone_witness:
  "fst (route_position sample_world \<lparr>ps_asset = ''y'', ps_cid = ''m'', ps_size = JNum 10\<rparr> []
     (new_router \<lparr>ms_rows = [sample_event], ms_next = 2\<rparr>)) = Some True"
  using active_operation_is_left_alone [where w = sample_world and p = "\<lparr>ps_asset = ''y'', ps_cid = ''m'', ps_size = JNum 10\<rparr>"
      and s = "new_router \<lparr>ms_rows = [sample_event], ms_next = 2\<rparr>" and e = sample_event and orders = "[]"]
  by (simp add: sample_defs get_active_merge_event_def active_for_def is_active_def tmpl_num_def num_default_def)

text \<open>Ten pairs, the held side bought for 4; whatever was paid for the other side, the profit is 6.\<close>

definition sample_fok :: mevent where
  "sample_fok = (new_event 900 1 ''w'' ''m'' FOK_MERGE 10 ''y'' ''n'' 4 0 ''o'')\<lparr>me_status := SUBMITTED, me_tx := ''tx''\<rparr>"

lemma fok_profit_witness:
  "map me_pnl (ms_rows (r_store (run_calls [Tick sample_world [] []] (new_router \<lparr>ms_rows = [sample_fok], ms_next = 2\<rparr>)))) = [6]"
proof -
  let ?s = "new_router \<lparr>ms_rows = [sample_fok], ms_next = 2\<rparr>"
  let ?rows = "ms_rows (r_store (run_calls [Tick sample_world [] []] ?s))"
  have run: "map me_status ?rows = [CONFIRMED] \<and> map me_route ?rows = [FOK_MERGE] \<and>
      map me_amount ?rows = [10] \<and> map me_yes_cost ?rows = [4]"
    by code_simp
  then obtain e where e: "?rows = [e]" by (cases ?rows) auto
  have "store_inv (r_store ?s)" "books_ok (r_store ?s)"
    by (simp_all add: sample_defs sample_fok_def store_inv_def index_ok_def books_ok_def booked_def fok_costs_def)
  then show ?thesis using fok_profit_ignores_purchase [of ?s e "[Tick sample_world [] []]"] run e by simp
qed

section \<open>Polling a submitted operation\<close>

lemma index_ok_finish:
  assumes "index_ok rows" "\<And>e. \<not> is_active (apply_fields now fs e)"
  shows "index_ok (map (\<lambda>e. if me_id e = i then apply_fields now fs e else e) rows)"
  using assms unfolding index_ok_def by (auto split: if_splits)

lemma find_map_id:
  "find (\<lambda>e. me_id e = i) (map (\<lambda>e. if me_id e = j then apply_fields now fs e else e) rows) =
   map_option (\<lambda>e. if me_id e = j then apply_fields now fs e else e) (find (\<lambda>e. me_id e = i) rows)"
  by (induction rows) auto

lemma finish_event:
  assumes "store_inv st" "get_merge_event i st = Some e" "list_all allowed fs" "fs \<noteq> []"
    and "\<And>e. \<not> is_active (apply_fields now fs e)"
  obtains n st' where "update_merge_event now i fs st = Some (n, st')"
    "get_merge_event i st' = Some (apply_fields now fs e)"
proof
  let ?st = "st\<lparr>ms_rows := map (\<lambda>e. if me_id e = i then apply_fields now fs e else e) (ms_rows st)\<rparr>"
  have i: "me_id e = i" using assms(2) unfolding get_merge_event_def by (auto dest: find_SomeD)
  show "update_merge_event now i fs st = Some (length (filter (\<lambda>e. me_id e = i) (ms_rows st)), ?st)"
    using assms index_ok_finish [of "ms_rows st" now fs i] by (simp add: update_merge_event_def store_inv_def)
  show "get_merge_event i ?st = Some (apply_fields now fs e)"
    using assms(2) i find_map_id [of i i now fs "ms_rows st"] by (simp add: get_merge_event_def)
qed

definition status_of :: "int \<Rightarrow> router \<Rightarrow> status option" where
  "status_of i s = map_option me_status (get_merge_event i (r_store s))"

lemma fail_event_status:
  assumes "store_inv (r_store s)" "get_merge_event i (r_store s) = Some e"
  shows "status_of i (snd (fail_event w i r s)) = Some FAILED"
proof (cases "me_status e = FAILED")
  case False
  let ?fs = "[Set_status FAILED, Set_error (take 300 r)]"
  obtain n st' where "update_merge_event (w_now w) i ?fs (r_store s) = Some (n, st')"
    "get_merge_event i st' = Some (apply_fields (w_now w) ?fs e)"
    by (rule finish_event [OF assms, of ?fs "w_now w"]) (auto simp: allowed_def apply_fields_def is_active_def)
  then show ?thesis using assms False
    by (simp add: fail_event_def andthen_def gets_def db_update_def seq_def emit_def change_def set_poll_def
      status_of_def apply_fields_def)
qed (use assms in \<open>simp add: fail_event_def andthen_def gets_def ret_def status_of_def\<close>)

lemma finalize_status:
  assumes "store_inv (r_store s)" "get_merge_event i (r_store s) = Some e"
  shows "status_of i (snd (finalize_confirmed w i s)) = Some CONFIRMED"
proof (cases "me_status e = CONFIRMED")
  case False
  let ?fs = "[Set_status CONFIRMED, Set_recovered (merge_recovery_usd (Some (me_amount e))),
    Set_pnl (merge_realized_pnl (Some (me_amount e)) (Some (me_yes_cost e)) (Some (me_no_cost e)) (Some 0)),
    Set_confirmed (Some (w_now w)), Set_error '''']"
  obtain n st' where "update_merge_event (w_now w) i ?fs (r_store s) = Some (n, st')"
    "get_merge_event i st' = Some (apply_fields (w_now w) ?fs e)"
    by (rule finish_event [OF assms, of ?fs "w_now w"]) (auto simp: allowed_def apply_fields_def is_active_def)
  then show ?thesis using assms False
    by (simp add: finalize_confirmed_def Let_def andthen_def gets_def db_update_def seq_def emit_def change_def
      status_of_def apply_fields_def)
qed (use assms in \<open>simp add: finalize_confirmed_def andthen_def gets_def ret_def status_of_def\<close>)

lemma andthen_gets: "andthen (gets g) f s = f (g s) s"
  by (simp add: andthen_def gets_def)

text \<open>What polling a submitted operation does, once the back-off has passed and a transaction is
known: an executed transaction confirms it, a failed one fails it only while the pair is
still held and confirms it otherwise, and a pending one past the time-out confirms it when
the pair is gone; in every other case it stays submitted.\<close>

theorem poll_merge_outcome:
  assumes "\<not> backing_off w (me_id e) s" "me_tx e \<noteq> ''''" "w_tx_state w (me_tx e) = Some state"
    and "store_inv (r_store s)" "e \<in> set (ms_rows (r_store s))" "me_status e = SUBMITTED"
  shows "status_of (me_id e) (snd (poll_merge w e s)) = Some
    (if tx_done state then CONFIRMED
     else if tx_failed state then (if pair_balance_ok e s then FAILED else CONFIRMED)
     else if tmpl_num (tm_confirm_timeout (w_tmpl w)) 120 < w_now w - me_updated e \<and> \<not> pair_balance_ok e s
       then CONFIRMED else SUBMITTED)"
proof -
  have cur: "get_merge_event (me_id e) (r_store s) = Some e" using assms(4,5) by (rule get_event_Some)
  note ends = fail_event_status [OF assms(4) cur] finalize_status [OF assms(4) cur]
  have "status_of (me_id e) (snd (set_poll i v s)) = Some SUBMITTED" for i v
    using cur assms(6) by (simp add: status_of_def set_poll_def change_def)
  then show ?thesis
    unfolding poll_merge_def Let_def andthen_gets using assms(1-3) ends by (simp add: andthen_gets)
qed

text \<open>A relayer failure with the pair gone is booked as a confirmed merge.\<close>

lemma poll_merge_witness:
  "status_of 1 (snd (poll_merge (sample_world\<lparr>w_tx_state := (\<lambda>_. Some ''STATE_FAILED'')\<rparr>) sample_event
     (new_router \<lparr>ms_rows = [sample_event], ms_next = 2\<rparr>))) = Some CONFIRMED"
proof -
  let ?w = "sample_world\<lparr>w_tx_state := (\<lambda>_. Some ''STATE_FAILED'')\<rparr>"
  let ?s = "new_router \<lparr>ms_rows = [sample_event], ms_next = 2\<rparr>"
  have "\<not> pair_balance_ok sample_event ?s" by code_simp
  moreover have "\<not> backing_off ?w (me_id sample_event) ?s" by (simp add: backing_off_def sample_defs)
  moreover have "me_id sample_event = 1" "me_tx sample_event \<noteq> ''''" "w_tx_state ?w (me_tx sample_event) = Some ''STATE_FAILED''"
    "sample_event \<in> set (ms_rows (r_store ?s))" "me_status sample_event = SUBMITTED"
    by (simp_all add: sample_defs)
  moreover note sample_ok(1)
  ultimately show ?thesis
    using poll_merge_outcome [of ?w sample_event ?s "''STATE_FAILED''"] by (simp add: tx_done_def tx_failed_def)
qed

end
