(* ===== verification/Router_Sales.thy ===== *)
theory Router_Sales
  imports Exit_Lifecycle
begin

text \<open>
  The sales of the quick-exit router (\<open>engine/exit_router.py\<close>): the resting sale of the maker route and the protected FAK sale.
  Routing a position sells at most once, for a reason, and then takes the position over; reconciliation
  sells nothing. The router knows no lowest price: what it sells for is the best ask or the worst bid
  it has to walk to, whatever the position cost.
\<close>

section \<open>Sales in the log\<close>

fun is_rsale :: "effect \<Rightarrow> bool" where
  "is_rsale (Limit_sell a p q) = True"
| "is_rsale (Fak_sell a p q) = True"
| "is_rsale _ = False"

definition rsales :: "router \<Rightarrow> effect list" where
  "rsales s = filter is_rsale (r_log s)"

definition same_sales :: "router \<Rightarrow> router \<Rightarrow> bool" where
  "same_sales s t \<longleftrightarrow> rsales t = rsales s"

interpretation sale: state_rel same_sales
  by unfold_locales (simp_all add: same_sales_def)

lemma keeps_change_sale: "(\<And>s. r_log (f s) = r_log s) \<Longrightarrow> keeps same_sales (change f)"
  by (simp add: keeps_def change_def same_sales_def rsales_def)

lemma keeps_emit_sale: "\<not> is_rsale e \<Longrightarrow> keeps same_sales (emit e)"
  by (simp add: keeps_def emit_def change_def same_sales_def rsales_def)

lemma keeps_db_sale: "keeps same_sales (db_update w i fs)"
  by (simp add: keeps_def db_update_def same_sales_def rsales_def split: option.split)

lemma keeps_poll_sale: "keeps same_sales (set_poll i v)"
  unfolding set_poll_def by (rule keeps_change_sale) simp

lemma keeps_mark_sale: "keeps same_sales (mark_asset a c t)" "keeps same_sales (mark_note a c n)"
  unfolding mark_note_def mark_asset_def by (rule keeps_change_sale, simp)+

lemmas sale_basic = sale.keeps_rules keeps_emit_sale keeps_db_sale keeps_poll_sale keeps_mark_sale keeps_change_sale

lemma cancel_sale: "keeps same_sales (cancel_sells w a c q)"
  unfolding cancel_sells_def by (intro sale_basic) simp_all

lemma fail_sale: "keeps same_sales (fail_event w i r)"
  unfolding fail_event_def by (intro sale_basic) (auto split: option.split intro!: sale_basic)

lemma finalize_sale: "keeps same_sales (finalize_confirmed w i)"
  unfolding finalize_confirmed_def Let_def by (intro sale_basic) (auto split: option.split intro!: sale_basic)

lemma submit_sale: "keeps same_sales (submit_merge w i c y n q)"
  unfolding submit_merge_def Let_def
  by (intro sale_basic cancel_sale) (auto split: sum.split intro!: sale_basic fail_sale)

lemma reconcile_event_sale: "keeps same_sales (reconcile_event w e)"
proof -
  have order: "keeps same_sales (reconcile_fok_order w e)"
    unfolding reconcile_fok_order_def Let_def submit_event_def
    by (auto split: option.split intro!: sale_basic submit_sale fail_sale)
  have "keeps same_sales (poll_merge w e)"
    unfolding poll_merge_def Let_def by (auto split: option.split intro!: sale_basic finalize_sale fail_sale)
  with order show ?thesis
    unfolding reconcile_event_def submit_event_def
    by (auto split: status.split route.split intro!: sale_basic submit_sale fail_sale)
qed

lemma publish_sale: "keeps same_sales (publish_status w)"
  unfolding publish_status_def by (rule keeps_change_sale) (simp add: Let_def)

text \<open>Reconciliation sells nothing.\<close>

lemma reconcile_pending_sale: "keeps same_sales (reconcile_pending w ps os)"
proof -
  have "keeps same_sales (reconcile_managed_sells w)"
    unfolding reconcile_managed_sells_def by (auto intro!: sale_basic)
  moreover have "keeps same_sales (reconcile_events w)"
    unfolding reconcile_events_def by (auto intro!: sale_basic reconcile_event_sale)
  ultimately show ?thesis unfolding reconcile_pending_def by (intro sale_basic publish_sale) simp_all
qed

section \<open>Programs that sell at most once\<close>

text \<open>The program sells nothing, or once, and then reports the position as handled.\<close>

definition sells :: "(effect \<Rightarrow> bool) \<Rightarrow> bool rm \<Rightarrow> bool" where
  "sells P m \<longleftrightarrow> (\<forall>s. same_sales s (snd (m s)) \<or>
     fst (m s) = Some True \<and> (\<exists>e. rsales (snd (m s)) = rsales s @ [e] \<and> is_rsale e \<and> P e))"

lemma sells_nothing: "keeps same_sales m \<Longrightarrow> sells P m"
  by (simp add: sells_def keeps_def)

lemma sells_andthen:
  assumes "keeps same_sales m" and "\<And>x. sells P (f x)"
  shows "sells P (andthen m f)"
  unfolding sells_def
proof
  fix s
  obtain r t where m: "m s = (r, t)" by fastforce
  with assms(1) have st: "rsales t = rsales s" unfolding keeps_def same_sales_def by (metis snd_conv)
  show "same_sales s (snd (andthen m f s)) \<or>
     fst (andthen m f s) = Some True \<and> (\<exists>e. rsales (snd (andthen m f s)) = rsales s @ [e] \<and> is_rsale e \<and> P e)"
  proof (cases r)
    case None
    with m st show ?thesis by (simp add: andthen_def same_sales_def)
  next
    case (Some x)
    then have "andthen m f s = f x t" using m by (simp add: andthen_def)
    with assms(2) [of x] st show ?thesis unfolding sells_def same_sales_def by metis
  qed
qed

lemma sells_seq: "keeps same_sales m \<Longrightarrow> sells P n \<Longrightarrow> sells P (seq m n)"
  unfolding seq_def by (rule sells_andthen)

lemma sells_emit:
  assumes "is_rsale e" and "P e" and "keeps same_sales m" and "\<And>s. fst (m s) = Some True"
  shows "sells P (seq (emit e) m)"
proof -
  have "rsales (snd (m t)) = rsales t" for t
    using assms(3) by (simp add: keeps_def same_sales_def)
  moreover have "rsales (s\<lparr>r_log := r_log s @ [e]\<rparr>) = rsales s @ [e]" for s
    using assms(1) by (simp add: rsales_def)
  ultimately show ?thesis unfolding sells_def using assms(1,2,4) by (metis seq_emit)
qed

lemma sells_if: "(b \<Longrightarrow> sells P m) \<Longrightarrow> (\<not> b \<Longrightarrow> sells P n) \<Longrightarrow> sells P (if b then m else n)"
  by simp

lemma sells_option: "(x = None \<Longrightarrow> sells P m) \<Longrightarrow> (\<And>y. x = Some y \<Longrightarrow> sells P (f y)) \<Longrightarrow> sells P (case x of None \<Rightarrow> m | Some y \<Rightarrow> f y)"
  by (cases x) simp_all

section \<open>Routing a position\<close>

definition exit_wait_of :: "world \<Rightarrow> rat" where
  "exit_wait_of w = tmpl_num (tm_exit_wait (w_tmpl w)) 60"

text \<open>The protected sale: the whole position, at the worst bid of the quote for it.\<close>

definition fak_sale :: "world \<Rightarrow> string \<Rightarrow> rat \<Rightarrow> effect \<Rightarrow> bool" where
  "fak_sale w asset sz e \<longleftrightarrow> (\<exists>bids asks direct. w_orderbook w asset = Some (bids, asks) \<and>
     quote_direct_exit (sorted_bids bids) sz = Some direct \<and> e = Fak_sell asset (fak_worst direct) sz)"

text \<open>The sale of a position: its cost is known; at the best ask while there is time left to wait, else protected,
  once the stop is reached or the time is over.\<close>

definition router_sale :: "world \<Rightarrow> position \<Rightarrow> effect \<Rightarrow> bool" where
  "router_sale w p e \<longleftrightarrow>
     (\<exists>cost lots tick tick_str bid ask.
        w_cost_lots w (ps_asset p) (num (ps_size p)) (ps_cid p) = Some (Some cost, lots) \<and> 0 < cost \<and> 0 < num (ps_size p) \<and>
        w_sell_book w (ps_asset p) = Some (tick, tick_str, bid, ask) \<and>
        ((\<exists>price. ask = Some price \<and> 0 < price \<and> e = Limit_sell (ps_asset p) price (num (ps_size p)) \<and>
            \<not> stop_hit_now w cost bid \<and> 0 < exit_wait_of w \<and>
            (\<forall>t. oldest_lot_ts lots = Some t \<longrightarrow> w_now w < t + exit_wait_of w)) \<or>
         fak_sale w (ps_asset p) (num (ps_size p)) e \<and>
         (stop_hit_now w cost bid \<or> exit_wait_of w \<le> 0 \<or>
          (\<forall>t. oldest_lot_ts lots = Some t \<longrightarrow> t + exit_wait_of w \<le> w_now w))))"

lemma start_fok_sale: "keeps same_sales (start_fok_merge w cid asset tok sz worst)"
  unfolding start_fok_merge_def Let_def
  by (auto split: option.split placed.split intro!: sale_basic fail_sale)

lemma protected_fak_sells:
  assumes "P (Fak_sell (ps_asset p) (fak_worst d) sz)"
  shows "sells P (seq (protected_fak w p sz d) (ret True))"
proof -
  let ?rest = "case w_fak_sell w (ps_asset p) (fak_worst d) sz of
       Rejected \<Rightarrow> mark_note (ps_asset p) (ps_cid p) N_fak_rejected
     | Raised \<Rightarrow> mark_note (ps_asset p) (ps_cid p) N_fak_failed
     | Placed st oid \<Rightarrow>
         let matched = (if oid = '''' then None else case w_order w oid of None \<Rightarrow> None | Some (_, m) \<Rightarrow> Some (num m));
             full = (case matched of None \<Rightarrow> fak_full d | Some m \<Rightarrow> sz - eps \<le> m)
         in seq (emit (Act (if full then ''exit_protected_fak'' else ''exit_protected_fak_partial'') (ps_cid p) (fak_worst d) sz))
           (mark_note (ps_asset p) (ps_cid p) (if full then N_fak_full else N_fak_partial))"
  let ?cancel = "cancel_sells w (ps_asset p) (ps_cid p) sz"
  have assoc: "seq (protected_fak w p sz d) (ret True) = seq ?cancel (seq (emit (Fak_sell (ps_asset p) (fak_worst d) sz)) (seq ?rest (ret True)))"
    by (simp add: protected_fak_def Let_def seq_def andthen_def fun_eq_iff split: option.split prod.split)
  have "keeps same_sales ?rest" unfolding Let_def by (auto split: placed.split intro!: sale_basic)
  moreover have "fst (seq ?rest (ret True) s) = Some True" for s
    by (simp add: seq_def andthen_def mark_note_def mark_asset_def emit_def change_def ret_def Let_def split: placed.split)
  ultimately show ?thesis
    unfolding assoc using assms by (intro sells_seq cancel_sale sells_emit sale_basic) simp_all
qed

lemma route_compare_sells:
  assumes "\<And>e. fak_sale w (ps_asset p) sz e \<Longrightarrow> P e"
  shows "sells P (route_compare w p sz)"
proof -
  have fak: "sells P (seq (protected_fak w p sz d) (ret True))"
    if "w_orderbook w (ps_asset p) = Some (bids, asks)" "quote_direct_exit (sorted_bids bids) sz = Some d" for bids asks d
    by (rule protected_fak_sells, rule assms) (use that in \<open>simp add: fak_sale_def\<close>)
  have mark: "sells P (seq (mark_note a c n) (ret True))" for a c n
    by (intro sells_nothing sale_basic)
  have fok: "sells P (seq (mark_note a c N_fok_merge) (seq (start_fok_merge w c a tok sz worst) (ret True)))" for a c tok worst
    by (intro sells_nothing sale_basic start_fok_sale)
  have thr: "sells P throw" by (intro sells_nothing sale_basic)
  show ?thesis
    unfolding route_compare_def Let_def
    by (auto split: option.split prod.split bool.split intro!: sells_andthen sale_basic fak mark fok thr)
qed

lemma maker_route_sells:
  assumes "\<And>e. fak_sale w (ps_asset p) sz e \<Longrightarrow> \<forall>t. oldest_lot_ts lots = Some t \<longrightarrow> t + wait \<le> w_now w \<Longrightarrow> P e"
    and "\<And>price. ask = Some price \<Longrightarrow> 0 < price \<Longrightarrow> \<forall>t. oldest_lot_ts lots = Some t \<longrightarrow> w_now w < t + wait \<Longrightarrow>
      P (Limit_sell (ps_asset p) price sz)"
  shows "sells P (maker_route w p sz lots ask wait)"
proof -
  let ?left = "\<lambda>s. (case oldest_lot_ts lots of Some t \<Rightarrow> t | None \<Rightarrow> r_tick s) + wait - w_now w"
  let ?over = "\<forall>t. oldest_lot_ts lots = Some t \<longrightarrow> t + wait \<le> w_now w"
  have late: "sells P (route_compare w p sz)" if "\<not> 0 < ?left s" for s
  proof -
    from that have "?over" by auto
    with assms(1) show ?thesis by (intro route_compare_sells) blast
  qed
  have rest: "sells P (seq (emit (Limit_sell (ps_asset p) price sz))
       (case w_limit_sell w (ps_asset p) price sz of
          Rejected \<Rightarrow> seq (mark_asset (ps_asset p) (ps_cid p) X_maker_book_moved) (ret True)
        | Raised \<Rightarrow> seq (mark_asset (ps_asset p) (ps_cid p) X_maker_failed) (ret True)
        | Placed st oid \<Rightarrow>
            seq (if oid \<noteq> '''' then change (\<lambda>s. s\<lparr>r_managed := AList.update (ps_asset p)
                \<lparr>mg_order = oid, mg_price = price, mg_size = sz, mg_placed = w_now w\<rparr> (r_managed s)\<rparr>) else ret ())
            (seq (emit (Act ''exit_maker'' (ps_cid p) price sz))
            (seq (mark_asset (ps_asset p) (ps_cid p) (maker_wait_text (Some (?left s)))) (ret True)))))"
    if "maker_sell_price [] ask = Some price" "0 < ?left s" for price s
  proof (rule sells_emit)
    have "ask = Some price" "0 < price" using that(1) by (auto simp: maker_sell_price_def split: option.splits if_splits)
    moreover have "\<forall>t. oldest_lot_ts lots = Some t \<longrightarrow> w_now w < t + wait" using that(2) by auto
    ultimately show "P (Limit_sell (ps_asset p) price sz)" by (rule assms(2))
  next
    show "fst ((case w_limit_sell w (ps_asset p) price sz of
          Rejected \<Rightarrow> seq (mark_asset (ps_asset p) (ps_cid p) X_maker_book_moved) (ret True)
        | Raised \<Rightarrow> seq (mark_asset (ps_asset p) (ps_cid p) X_maker_failed) (ret True)
        | Placed st oid \<Rightarrow>
            seq (if oid \<noteq> '''' then change (\<lambda>s. s\<lparr>r_managed := AList.update (ps_asset p)
                \<lparr>mg_order = oid, mg_price = price, mg_size = sz, mg_placed = w_now w\<rparr> (r_managed s)\<rparr>) else ret ())
            (seq (emit (Act ''exit_maker'' (ps_cid p) price sz))
            (seq (mark_asset (ps_asset p) (ps_cid p) (maker_wait_text (Some (?left s)))) (ret True)))) u) = Some True" for u
      by (auto simp: seq_def andthen_def mark_asset_def emit_def change_def ret_def split: placed.split)
  qed (auto split: placed.split intro!: sale_basic)
  have mark: "sells P (seq (mark_asset a c x) (ret True))" for a c x by (intro sells_nothing sale_basic)
  show ?thesis
    unfolding maker_route_def Let_def
  proof (intro sells_andthen sale_basic, goal_cases)
    case (1 s)
    show ?case
      by (intro sells_if sells_option mark late [of s] sells_seq sale_basic cancel_sale rest [of _ s]) simp_all
  qed
qed

lemma pair_first_sale: "keeps same_sales (pair_first w p sz lots)"
  unfolding pair_first_def pair_merge_route_def Let_def
  by (auto split: option.split prod.split intro!: sale_basic submit_sale)

lemma route_body_sells: "sells (router_sale w p) (route_body w p)"
proof -
  let ?a = "ps_asset p" and ?q = "num (ps_size p)"
  have no: "sells P (ret b)" "sells P (seq (mark_asset a c x) (ret b))" "sells P throw" for P b a c x
    by (intro sells_nothing sale_basic)+
  have side: "sells (router_sale w p) (single_side w p ?q cost lots bid ask (exit_wait_of w))"
    if k: "w_cost_lots w ?a ?q (ps_cid p) = Some (Some cost, lots)" "0 < cost" "0 < ?q" "w_sell_book w ?a = Some (tick, ts, bid, ask)"
    for cost lots tick ts bid ask
  proof -
    have fak: "router_sale w p e"
      if "fak_sale w ?a ?q e" "stop_hit_now w cost bid \<or> exit_wait_of w \<le> 0 \<or> (\<forall>t. oldest_lot_ts lots = Some t \<longrightarrow> t + exit_wait_of w \<le> w_now w)" for e
      unfolding router_sale_def using k that by blast
    have maker: "router_sale w p (Limit_sell ?a price ?q)"
      if "ask = Some price" "0 < price" "\<forall>t. oldest_lot_ts lots = Some t \<longrightarrow> w_now w < t + exit_wait_of w"
        "\<not> stop_hit_now w cost bid" "0 < exit_wait_of w" for price
      unfolding router_sale_def using k that by blast
    show ?thesis
      unfolding single_side_def by (auto intro!: route_compare_sells maker_route_sells intro: fak maker)
  qed
  show ?thesis
  proof (cases "\<exists>cost lots tick ts bid ask. w_cost_lots w ?a ?q (ps_cid p) = Some (Some cost, lots) \<and> 0 < cost \<and> 0 < ?q \<and>
      w_sell_book w ?a = Some (tick, ts, bid, ask)")
    case True
    then obtain cost lots tick ts bid ask where k: "w_cost_lots w ?a ?q (ps_cid p) = Some (Some cost, lots)" "0 < cost" "0 < ?q"
      "w_sell_book w ?a = Some (tick, ts, bid, ask)" by blast
    show ?thesis
      unfolding route_body_def Let_def exit_wait_of_def [symmetric] k(1,4) option.case prod.case
      using k(2,3) by (auto split: option.split intro!: no side [OF k] sells_andthen sale_basic pair_first_sale)
  next
    case False
    then show ?thesis
      unfolding route_body_def Let_def exit_wait_of_def [symmetric]
      by (auto simp: not_le split: option.split prod.split intro!: no sells_andthen sale_basic)
  qed
qed

lemma catch_returns: "fst (catch m (ret ()) s) = Some ()"
  by (auto simp: catch_def ret_def split: option.split prod.split)

text \<open>Routing a position sells nothing, or makes one sale of it, which is sound, and takes the position over.\<close>

lemma publishing:
  assumes "sells P m"
  shows "sells P (catch (andthen m (\<lambda>handled. seq (catch (publish_status w) (ret ())) (ret handled))) (ret False))"
  unfolding sells_def
proof
  fix s
  let ?n = "catch (andthen m (\<lambda>handled. seq (catch (publish_status w) (ret ())) (ret handled))) (ret False)"
  obtain r t where run: "m s = (r, t)" by fastforce
  have one: "same_sales s t \<or> r = Some True \<and> (\<exists>e. rsales t = rsales s @ [e] \<and> is_rsale e \<and> P e)"
    using assms run unfolding sells_def by (metis fst_conv snd_conv)
  obtain u where u: "catch (publish_status w) (ret ()) t = (Some (), u)"
    using catch_returns [of "publish_status w" t] by (metis prod.collapse)
  have "keeps same_sales (catch (publish_status w) (ret ()))" by (intro sale_basic publish_sale)
  then have "rsales u = rsales t" using u unfolding keeps_def same_sales_def by (metis snd_conv)
  moreover have "?n s = (case r of None \<Rightarrow> (Some False, t) | Some b \<Rightarrow> (Some b, u))"
    using run u by (simp add: catch_def [of "andthen m _"] andthen_def seq_def ret_def split: option.split)
  ultimately show "same_sales s (snd (?n s)) \<or> fst (?n s) = Some True \<and> (\<exists>e. rsales (snd (?n s)) = rsales s @ [e] \<and> is_rsale e \<and> P e)"
    using one by (cases r) (auto simp: same_sales_def)
qed

lemma route_position_sells: "sells (router_sale w p) (route_position w p orders)"
  unfolding route_position_def by (intro publishing sells_seq route_body_sells keeps_change_sale) simp

text \<open>The token a sale is of.\<close>

fun rsale_of :: "effect \<Rightarrow> string option" where
  "rsale_of (Limit_sell a p q) = Some a"
| "rsale_of (Fak_sell a p q) = Some a"
| "rsale_of _ = None"

lemma router_sale_of: "router_sale w p e \<Longrightarrow> rsale_of e = Some (ps_asset p)"
  by (auto simp: router_sale_def fak_sale_def)

end
