(* ===== verification/Fill_Watch.thy ===== *)
theory Fill_Watch
  imports Fills
begin

text \<open>
  Step 1 of the order monitor (\<open>engine/monitor.py\<close>): new buy fills are found in the trades,
  put the market on cooldown and cancel what is left of the order, when it is still open.
  The set of handled keys lives in memory and is primed with the whole history at start;
  until that has succeeded no fill is handled. The answers of the exchange and of the
  database are fields of the record \<open>answers\<close>.
\<close>

datatype wevent =
    Cooldown string
  | Cancel_remainder string string rat
  | Remainder_kept string
  | Fill_status string rat rat
  | Fill_error

record watcher =
  wa_seen :: "(string \<times> string) set"
  wa_after :: rat
  wa_pending :: bool
  wa_log :: "wevent list"

text \<open>All trades (for priming), the trades after a second, the ids of the open orders, whether a
cancellation succeeds, and whether the cooldown can be stored.\<close>

record answers =
  an_history :: "trade list option"
  an_trades :: "int option \<Rightarrow> trade list option"
  an_open :: "string set option"
  an_cancel :: "string \<Rightarrow> bool"
  an_cooldown :: "string \<Rightarrow> bool"

section \<open>Priming\<close>

definition mark_seen :: "buy_event \<Rightarrow> watcher \<Rightarrow> watcher" where
  "mark_seen e s = s\<lparr>wa_seen := insert (event_key e) (wa_seen s), wa_after := max (wa_after s) (be_ts e)\<rparr>"

definition prime_seen_keys :: "string \<Rightarrow> answers \<Rightarrow> watcher \<Rightarrow> bool \<times> watcher" where
  "prime_seen_keys funder an s =
     (case an_history an of
        None \<Rightarrow> (False, s)
      | Some trs \<Rightarrow> (True, (fold mark_seen (select_new_buy_fills trs funder {}) s)\<lparr>wa_pending := False\<rparr>))"

text \<open>\<open>init_watermark\<close>, given the times of the stored trades and actions.\<close>

definition init_watermark :: "string \<Rightarrow> answers \<Rightarrow> rat list \<Rightarrow> watcher \<Rightarrow> watcher" where
  "init_watermark funder an ts s =
     (let s1 = s\<lparr>wa_after := (if ts = [] then 0 else Max (set ts))\<rparr>;
          (ok, s2) = prime_seen_keys funder an s1
      in if ok then s2 else s2\<lparr>wa_pending := True\<rparr>)"

section \<open>One round\<close>

text \<open>\<open>_handle_fill\<close> on the orders cancelled so far in this round and the log.\<close>

definition handle_fill ::
    "answers \<Rightarrow> string set \<Rightarrow> buy_event \<Rightarrow> string set \<times> wevent list \<Rightarrow> string set \<times> wevent list" where
  "handle_fill an open_ids e acc =
     (let (cancelled, lg) = acc; oid = be_order e in
      if be_size e \<le> 0 then acc
      else if \<not> an_cooldown an (be_market e) then (cancelled, lg @ [Fill_error])
      else
        let lg1 = lg @ [Cooldown (be_market e)]; shown = Fill_status (be_market e) (be_price e) (be_size e) in
        if oid \<noteq> '''' \<and> oid \<in> open_ids \<and> oid \<notin> cancelled then
          if an_cancel an oid
          then (insert oid cancelled, lg1 @ [Cancel_remainder oid (be_market e) (be_size e), shown])
          else (cancelled, lg1 @ [Remainder_kept oid, shown])
        else (cancelled, lg1 @ [shown]))"

fun handle_fills ::
    "answers \<Rightarrow> string set \<Rightarrow> buy_event list \<Rightarrow> string set \<Rightarrow> watcher \<Rightarrow> watcher" where
  "handle_fills an open_ids [] cancelled s = s"
| "handle_fills an open_ids (e # es) cancelled s =
     (let (cancelled', lg) = handle_fill an open_ids e (cancelled, wa_log s)
      in handle_fills an open_ids es cancelled' (mark_seen e (s\<lparr>wa_log := lg\<rparr>)))"

text \<open>\<open>str(int(self._after_ts)) if self._after_ts else None\<close>.\<close>

definition since :: "rat \<Rightarrow> int option" where
  "since t = (if t \<noteq> 0 then Some (int_trunc t) else None)"

text \<open>\<open>check_buy_orders\<close>; the handled fills are returned with the new state.\<close>

definition check_buy_orders :: "string \<Rightarrow> answers \<Rightarrow> watcher \<Rightarrow> buy_event list \<times> watcher" where
  "check_buy_orders funder an s =
     (let (ready, s1) = (if wa_pending s then prime_seen_keys funder an s else (True, s)) in
      if \<not> ready then ([], s1)
      else (case an_trades an (since (wa_after s1)) of
          None \<Rightarrow> ([], s1)
        | Some trs \<Rightarrow>
            let fills = select_new_buy_fills trs funder (wa_seen s1);
                open_ids = (if fills = [] then {} else case an_open an of None \<Rightarrow> {} | Some ids \<Rightarrow> ids)
            in (fills, handle_fills an open_ids fills {} s1)))"

fun watch_rounds :: "string \<Rightarrow> answers list \<Rightarrow> watcher \<Rightarrow> buy_event list list \<times> watcher" where
  "watch_rounds funder [] s = ([], s)"
| "watch_rounds funder (an # ans) s =
     (let (fills, s1) = check_buy_orders funder an s; (rest, s2) = watch_rounds funder ans s1
      in (fills # rest, s2))"

section \<open>Lemmas\<close>

lemma mark_seen_simps [simp]:
  "wa_seen (mark_seen e s) = insert (event_key e) (wa_seen s)" "wa_log (mark_seen e s) = wa_log s"
  "wa_pending (mark_seen e s) = wa_pending s" "wa_after (mark_seen e s) = max (wa_after s) (be_ts e)"
  by (simp_all add: mark_seen_def)

lemma fold_mark_seen:
  "wa_seen (fold mark_seen es s) = event_key ` set es \<union> wa_seen s \<and> wa_log (fold mark_seen es s) = wa_log s \<and>
   wa_after s \<le> wa_after (fold mark_seen es s) \<and> (\<forall>e \<in> set es. be_ts e \<le> wa_after (fold mark_seen es s))"
proof (induction es arbitrary: s)
  case (Cons e es)
  from Cons [of "mark_seen e s"] show ?case by auto
qed simp

lemma handle_fills_seen:
  "wa_seen (handle_fills an ids es c s) = event_key ` set es \<union> wa_seen s \<and>
   wa_pending (handle_fills an ids es c s) = wa_pending s \<and> wa_after s \<le> wa_after (handle_fills an ids es c s)"
proof (induction es arbitrary: c s)
  case (Cons e es)
  obtain c' lg where h: "handle_fill an ids e (c, wa_log s) = (c', lg)" by fastforce
  from Cons [of c' "mark_seen e (s\<lparr>wa_log := lg\<rparr>)"] h show ?case by auto
qed simp

lemma prime_seen: "prime_seen_keys funder an s = (ok, s1) \<Longrightarrow> wa_seen s \<subseteq> wa_seen s1 \<and> wa_after s \<le> wa_after s1 \<and>
    (\<not> ok \<longrightarrow> s1 = s) \<and> (ok \<longrightarrow> \<not> wa_pending s1)"
  using fold_mark_seen by (auto simp: prime_seen_keys_def split: option.splits)

lemma select_unseen: "e \<in> set (select_new_buy_fills trs funder seen) \<Longrightarrow> event_key e \<notin> seen"
  by (auto simp: select_new_buy_fills_def event_key_def buy_event_of_def)

lemma check_active:
  assumes "(if wa_pending s then prime_seen_keys funder an s else (True, s)) = (True, s1)"
    and "an_trades an (since (wa_after s1)) = Some trs" "f = select_new_buy_fills trs funder (wa_seen s1)"
  shows "check_buy_orders funder an s =
    (f, handle_fills an (if f = [] then {} else case an_open an of None \<Rightarrow> {} | Some ids \<Rightarrow> ids) f {} s1)"
  using assms by (simp add: check_buy_orders_def Let_def)

lemma check_buy_orders_seen:
  assumes "check_buy_orders funder an s = (fills, s')"
  shows "wa_seen s \<subseteq> wa_seen s' \<and> event_key ` set fills \<subseteq> wa_seen s' \<and> event_key ` set fills \<inter> wa_seen s = {} \<and>
    wa_after s \<le> wa_after s'"
proof -
  obtain ready s1 where r: "(if wa_pending s then prime_seen_keys funder an s else (True, s)) = (ready, s1)" by fastforce
  then have s1: "wa_seen s \<subseteq> wa_seen s1" "wa_after s \<le> wa_after s1"
    using prime_seen [of funder an s ready s1] by (auto split: if_splits)
  have unseen: "event_key ` set (select_new_buy_fills trs funder (wa_seen s1)) \<inter> wa_seen s = {}" for trs
    using select_unseen s1(1) by fastforce
  show ?thesis
  proof (cases "\<not> ready \<or> an_trades an (since (wa_after s1)) = None")
    case True
    then have "fills = [] \<and> s' = s1"
      using assms by (cases ready) (simp_all add: check_buy_orders_def r del: if_split_asm)
    then show ?thesis using s1 by simp
  next
    case False
    then obtain trs where trs: "ready" "an_trades an (since (wa_after s1)) = Some trs"
      by blast
    let ?f = "select_new_buy_fills trs funder (wa_seen s1)"
    have "fills = ?f \<and> s' = handle_fills an (if ?f = [] then {} else case an_open an of None \<Rightarrow> {} | Some ids \<Rightarrow> ids) ?f {} s1"
      using check_active [OF r [unfolded eq_True [THEN iffD2, OF trs(1)]] trs(2) refl] assms(1) by simp
    then show ?thesis
      using s1 unseen [of trs] handle_fills_seen [of an _ ?f "{}" s1] by (auto intro: order_trans)
  qed
qed

lemma watch_rounds_seen:
  "watch_rounds funder ans s = (fs, s') \<Longrightarrow> wa_seen s \<subseteq> wa_seen s' \<and>
   (\<forall>f \<in> set fs. event_key ` set f \<inter> wa_seen s = {})"
proof (induction ans arbitrary: s fs s')
  case (Cons an ans)
  obtain f s1 where one: "check_buy_orders funder an s = (f, s1)" by fastforce
  obtain rest s2 where more: "watch_rounds funder ans s1 = (rest, s2)" by fastforce
  have fs: "fs = f # rest" "s' = s2" using Cons.prems one more by auto
  show ?case
  proof (intro conjI ballI)
    show "wa_seen s \<subseteq> wa_seen s'" using Cons.IH [OF more] check_buy_orders_seen [OF one] fs(2) by fast
    fix g assume "g \<in> set fs"
    then consider "g = f" | "g \<in> set rest" using fs(1) by auto
    then show "event_key ` set g \<inter> wa_seen s = {}"
    proof cases
      case 2
      then have "event_key ` set g \<inter> wa_seen s1 = {}" using Cons.IH [OF more] by blast
      then show ?thesis using check_buy_orders_seen [OF one] by fast
    qed (use check_buy_orders_seen [OF one] in fast)
  qed
qed auto

section \<open>Properties\<close>

lemma pending_round: "wa_pending s \<Longrightarrow> an_history an = None \<Longrightarrow> check_buy_orders funder an s = ([], s)"
  by (simp add: check_buy_orders_def prime_seen_keys_def Let_def)

text \<open>A round in which the outstanding priming succeeds marks the history before it looks for fills.\<close>

lemma primed_round:
  assumes "wa_pending s" and "an_history an = Some trs" and "check_buy_orders funder an s = (fills, s')"
  shows "event_key ` set (select_new_buy_fills trs funder {}) \<inter> event_key ` set fills = {} \<and>
    event_key ` set (select_new_buy_fills trs funder {}) \<subseteq> wa_seen s'"
proof -
  let ?s1 = "(fold mark_seen (select_new_buy_fills trs funder {}) s)\<lparr>wa_pending := False\<rparr>"
  have "check_buy_orders funder an s = check_buy_orders funder an ?s1"
    using assms(1,2) by (simp add: check_buy_orders_def prime_seen_keys_def)
  then have "check_buy_orders funder an ?s1 = (fills, s')" using assms(3) by simp
  note seen = check_buy_orders_seen [OF this]
  have "event_key ` set (select_new_buy_fills trs funder {}) \<subseteq> wa_seen ?s1"
    using fold_mark_seen [of "select_new_buy_fills trs funder {}" s] by auto
  with seen show ?thesis by blast
qed

lemma init_watermark_state:
  "wa_pending (init_watermark funder an ts s0) = (case an_history an of None \<Rightarrow> True | Some trs \<Rightarrow> False)"
  "an_history an = Some trs \<Longrightarrow> event_key ` set (select_new_buy_fills trs funder {}) \<subseteq> wa_seen (init_watermark funder an ts s0)"
  using fold_mark_seen [of "case an_history an of None \<Rightarrow> [] | Some trs \<Rightarrow> select_new_buy_fills trs funder {}"]
  by (auto simp: init_watermark_def prime_seen_keys_def Let_def split: option.split)

text \<open>While every round so far failed to read the history, a pending watcher has handled nothing and is still pending.\<close>

lemma pending_rounds:
  assumes "watch_rounds funder ans s = (fs, s')" and "wa_pending s" and "k < length ans" and "\<forall>j < k. an_history (ans ! j) = None"
  shows "(\<forall>j < k. fs ! j = []) \<and> (\<exists>s1. wa_pending s1 \<and> watch_rounds funder (drop k ans) s1 = (drop k fs, s'))"
  using assms
proof (induction k arbitrary: ans s fs)
  case (Suc k)
  then obtain an rest where ans: "ans = an # rest" by (cases ans) auto
  have "an_history an = None" using Suc.prems(4) ans by auto
  then have one: "check_buy_orders funder an s = ([], s)" using Suc.prems(2) by (simp add: pending_round)
  obtain gs s2 where more: "watch_rounds funder rest s = (gs, s2)" by fastforce
  with Suc.prems(1) ans one have fs: "fs = [] # gs" "s2 = s'" by auto
  have "k < length rest" and "\<forall>j < k. an_history (rest ! j) = None"
    using Suc.prems(3,4) unfolding ans by auto
  from Suc.IH [OF more [unfolded fs(2)] Suc.prems(2) this] show ?case
    unfolding fs ans by (auto simp: nth_Cons less_Suc_eq_0_disj)
qed auto

lemma watch_rounds_length: "watch_rounds funder ans s = (fs, s') \<Longrightarrow> length fs = length ans"
  by (induction ans arbitrary: s fs s') (auto split: prod.splits)

text \<open>From the round in which the priming succeeds on, nothing of that history is handled.\<close>

lemma primed_rounds:
  assumes "watch_rounds funder ans s = (fs, s')" and "wa_pending s" and "k < length ans"
    and "\<forall>j < k. an_history (ans ! j) = None" and "an_history (ans ! k) = Some trs" and "i < length fs"
  shows "event_key ` set (select_new_buy_fills trs funder {}) \<inter> event_key ` set (fs ! i) = {}"
proof (cases "i < k")
  case True
  then show ?thesis using pending_rounds [OF assms(1-4)] by simp
next
  case False
  let ?old = "event_key ` set (select_new_buy_fills trs funder {})"
  from pending_rounds [OF assms(1-4)] obtain s1 where s1: "wa_pending s1" "watch_rounds funder (drop k ans) s1 = (drop k fs, s')"
    by blast
  have d: "drop k ans = ans ! k # drop (Suc k) ans" using assms(3) by (simp add: Cons_nth_drop_Suc)
  obtain f s2 where one: "check_buy_orders funder (ans ! k) s1 = (f, s2)" by fastforce
  obtain rest s3 where more: "watch_rounds funder (drop (Suc k) ans) s2 = (rest, s3)" by fastforce
  have fs: "drop k fs = f # rest" using s1(2) one more unfolding d by simp
  have "fs ! i = (f # rest) ! (i - k)" using False assms(6) by (simp flip: fs)
  moreover have "?old \<inter> event_key ` set g = {}" if "g \<in> set (f # rest)" for g
  proof (cases "g = f")
    case False
    then have "g \<in> set rest" using that by simp
    then have "event_key ` set g \<inter> wa_seen s2 = {}" using watch_rounds_seen [OF more] by blast
    with primed_round [OF s1(1) assms(5) one] show ?thesis by blast
  qed (use primed_round [OF s1(1) assms(5) one] in blast)
  moreover have "(f # rest) ! (i - k) \<in> set (f # rest)"
    unfolding fs [symmetric] using False assms(6) by (auto simp: in_set_conv_nth intro!: exI [of _ "i - k"])
  ultimately show ?thesis by simp
qed

text \<open>C40: No fill is handled in two rounds, and none of the history once a priming was asked for. However often the exchange
  reports a fill, the keys handled in different rounds are disjoint, and none of them was known at the beginning. A
  watcher that went through the recovery is either primed with the history, and handles none of it, or it is
  pending; a pending watcher handles nothing in any round up to the one in which it first gets the history, and nothing of
  that history in that round or later. (A watcher that did not go through the recovery is not pending and not
  primed: see the start of a single wallet.)\<close>

theorem fills_handled_in_one_round:
  assumes "watch_rounds funder ans s = (fs, s')" and "i < length fs"
  shows "(\<forall>j < i. event_key ` set (fs ! j) \<inter> event_key ` set (fs ! i) = {}) \<and>
    event_key ` set (fs ! i) \<inter> wa_seen s = {} \<and>
    (s = init_watermark funder an ts s0 \<longrightarrow>
       (case an_history an of
          None \<Rightarrow> wa_pending s
        | Some trs \<Rightarrow> event_key ` set (select_new_buy_fills trs funder {}) \<inter> event_key ` set (fs ! i) = {})) \<and>
    (wa_pending s \<longrightarrow>
       ((\<forall>j \<le> i. an_history (ans ! j) = None) \<longrightarrow> fs ! i = []) \<and>
       (\<forall>k < length ans. \<forall>trs. (\<forall>j < k. an_history (ans ! j) = None) \<and> an_history (ans ! k) = Some trs \<longrightarrow>
          event_key ` set (select_new_buy_fills trs funder {}) \<inter> event_key ` set (fs ! i) = {}))"
proof -
  have apart: "event_key ` set (fs ! j) \<inter> event_key ` set (fs ! i) = {}" if "j < i" for j
    using assms that
  proof (induction ans arbitrary: s fs i j)
    case (Cons an ans)
    obtain f s1 where one: "check_buy_orders funder an s = (f, s1)" by fastforce
    obtain rest s2 where more: "watch_rounds funder ans s1 = (rest, s2)" by fastforce
    have fs: "fs = f # rest" "s' = s2" using Cons.prems one more by auto
    show ?case
    proof (cases j)
      case 0
      then obtain k where k: "i = Suc k" "k < length rest" using Cons.prems fs by (cases i) auto
      then have "event_key ` set (rest ! k) \<inter> wa_seen s1 = {}" using watch_rounds_seen [OF more] by auto
      then show ?thesis using check_buy_orders_seen [OF one] 0 k fs by auto
    next
      case (Suc j')
      then show ?thesis using Cons.IH [OF more [folded fs(2)], of "i - 1" j'] Cons.prems fs by (cases i) auto
    qed
  qed auto
  have known: "event_key ` set (fs ! i) \<inter> wa_seen s = {}"
    using watch_rounds_seen [OF assms(1)] assms(2) by simp
  have silent: "fs ! i = []" if "wa_pending s" "\<forall>j \<le> i. an_history (ans ! j) = None"
  proof -
    have i: "i < length ans" using assms watch_rounds_length by metis
    with pending_rounds [OF assms(1) that(1)] that(2) obtain s1 where
      s1: "wa_pending s1" "watch_rounds funder (drop i ans) s1 = (drop i fs, s')" by (meson less_imp_le)
    moreover have "check_buy_orders funder (ans ! i) s1 = ([], s1)" using s1(1) that(2) by (simp add: pending_round)
    ultimately show ?thesis using i assms(2) by (auto simp flip: Cons_nth_drop_Suc split: prod.splits)
  qed
  have "case an_history an of None \<Rightarrow> wa_pending s
      | Some trs \<Rightarrow> event_key ` set (select_new_buy_fills trs funder {}) \<inter> event_key ` set (fs ! i) = {}"
    if "s = init_watermark funder an ts s0"
    using that known init_watermark_state [where funder = funder and an = an and ts = ts and ?s0.0 = s0] by (fastforce split: option.split)
  with apart known silent primed_rounds [OF assms(1)] assms(2) show ?thesis by blast
qed

definition demo_trade :: trade where
  "demo_trade = \<lparr>tr_id = ''t1'', tr_market = ''m'', tr_time = Some 7, tr_makers =
     [\<lparr>mo_address = ''me'', mo_order_id = ''o1'', mo_asset = ''a'', mo_side = ''BUY'', mo_price = Some (2/5),
       mo_matched = Some 10, mo_fee = None\<rparr>],
     tr_trader_side = ''MAKER'', tr_asset = ''a'', tr_side = ''SELL'', tr_price = None, tr_size = None, tr_fee = None\<rparr>"

definition demo_answers :: answers where
  "demo_answers = \<lparr>an_history = Some [], an_trades = (\<lambda>_. Some [demo_trade]), an_open = Some {''o1''},
     an_cancel = (\<lambda>_. True), an_cooldown = (\<lambda>_. True)\<rparr>"

definition fresh_watcher :: watcher where
  "fresh_watcher = \<lparr>wa_seen = {}, wa_after = 0, wa_pending = False, wa_log = []\<rparr>"

text \<open>The exchange reports the same trade twice; the second round handles nothing.\<close>

lemma fills_witness:
  "\<exists>fs s'. watch_rounds ''me'' [demo_answers, demo_answers] fresh_watcher = (fs, s') \<and>
     event_key ` set (fs ! 0) = {(''t1'', ''o1'')} \<and> event_key ` set (fs ! 0) \<inter> event_key ` set (fs ! 1) = {}"
proof -
  obtain fs s' where run: "watch_rounds ''me'' [demo_answers, demo_answers] fresh_watcher = (fs, s')" by fastforce
  then have fs: "fs ! 0 = fst (check_buy_orders ''me'' demo_answers fresh_watcher)" "1 < length fs"
    by (auto split: prod.splits)
  moreover have "event_key ` set (fst (check_buy_orders ''me'' demo_answers fresh_watcher)) = {(''t1'', ''o1'')}"
    by (simp add: check_buy_orders_def fresh_watcher_def demo_answers_def since_def select_new_buy_fills_def ours_def
      demo_trade_def buy_event_of_def event_key_def upper_def upper_char_def)
  ultimately show ?thesis
    using run fills_handled_in_one_round [OF run fs(2)] by (intro exI [of _ fs]) auto
qed

text \<open>The orders cancelled by a log.\<close>

fun cancelled_ids :: "wevent list \<Rightarrow> string list" where
  "cancelled_ids [] = []"
| "cancelled_ids (Cancel_remainder i m q # l) = i # cancelled_ids l"
| "cancelled_ids (_ # l) = cancelled_ids l"

lemma cancelled_ids_append [simp]: "cancelled_ids (a @ b) = cancelled_ids a @ cancelled_ids b"
  by (induction a rule: cancelled_ids.induct) simp_all

lemma handle_fill_log:
  assumes "handle_fill an ids e (c, lg) = (c', lg')"
  shows "\<exists>new. lg' = lg @ new \<and> c' = c \<union> set (cancelled_ids new) \<and> distinct (cancelled_ids new) \<and>
    set (cancelled_ids new) \<subseteq> ids \<inter> {be_order e} - c"
  using assms by (auto simp: handle_fill_def Let_def split: if_splits)

lemma handle_fills_log:
  "\<exists>new. wa_log (handle_fills an ids es c s) = wa_log s @ new \<and> distinct (cancelled_ids new) \<and>
     set (cancelled_ids new) \<subseteq> ids \<inter> be_order ` set es - c"
proof (induction es arbitrary: c s)
  case Nil
  then show ?case by simp
next
  case (Cons e es)
  obtain c' lg where h: "handle_fill an ids e (c, wa_log s) = (c', lg)" by fastforce
  obtain new where new: "lg = wa_log s @ new" "c' = c \<union> set (cancelled_ids new)" "distinct (cancelled_ids new)"
    "set (cancelled_ids new) \<subseteq> ids \<inter> {be_order e} - c" using handle_fill_log [OF h] by blast
  obtain rest where rest: "wa_log (handle_fills an ids es c' (mark_seen e (s\<lparr>wa_log := lg\<rparr>))) = lg @ rest"
    "distinct (cancelled_ids rest)" "set (cancelled_ids rest) \<subseteq> ids \<inter> be_order ` set es - c'"
    using Cons [of c' "mark_seen e (s\<lparr>wa_log := lg\<rparr>)"] by auto
  show ?case
    by (rule exI [of _ "new @ rest"]) (use h new rest in auto)
qed

text \<open>A round cancels only orders that are open according to the exchange at that moment and
were filled in this round, and each at most once, even when an order has several fills.\<close>

theorem round_cancels_open_filled_orders:
  assumes "check_buy_orders funder an s = (fills, s')" "wa_log s = []"
  shows "distinct (cancelled_ids (wa_log s')) \<and> set (cancelled_ids (wa_log s')) \<subseteq> be_order ` set fills \<and>
    (case an_open an of None \<Rightarrow> cancelled_ids (wa_log s') = [] | Some ids \<Rightarrow> set (cancelled_ids (wa_log s')) \<subseteq> ids)"
proof -
  obtain ready s1 where r: "(if wa_pending s then prime_seen_keys funder an s else (True, s)) = (ready, s1)" by fastforce
  have lg: "wa_log s1 = []"
    using r fold_mark_seen assms(2) by (auto simp: prime_seen_keys_def split: if_splits option.splits)
  show ?thesis
  proof (cases "\<not> ready \<or> an_trades an (since (wa_after s1)) = None")
    case True
    then have "s' = s1" using assms(1) by (cases ready) (simp_all add: check_buy_orders_def r del: if_split_asm)
    then show ?thesis using lg by (simp split: option.split)
  next
    case False
    then obtain trs where trs: "ready" "an_trades an (since (wa_after s1)) = Some trs" by blast
    let ?f = "select_new_buy_fills trs funder (wa_seen s1)"
    let ?ids = "if ?f = [] then {} else case an_open an of None \<Rightarrow> {} | Some ids \<Rightarrow> ids"
    have "fills = ?f \<and> s' = handle_fills an ?ids ?f {} s1"
      using check_active [OF r [unfolded eq_True [THEN iffD2, OF trs(1)]] trs(2) refl] assms(1) by simp
    then show ?thesis
      using handle_fills_log [of an ?ids ?f "{}" s1] lg by (auto split: option.splits if_splits)
  qed
qed

lemma round_cancels_witness:
  "cancelled_ids (wa_log (snd (check_buy_orders ''me'' demo_answers fresh_watcher))) = [''o1''] \<and> {''o1''} \<subseteq> {''o1''}"
proof -
  obtain fills s' where run: "check_buy_orders ''me'' demo_answers fresh_watcher = (fills, s')" by fastforce
  moreover have "cancelled_ids (wa_log (snd (check_buy_orders ''me'' demo_answers fresh_watcher))) = [''o1'']"
    by (simp add: check_buy_orders_def fresh_watcher_def demo_answers_def since_def select_new_buy_fills_def ours_def
      demo_trade_def buy_event_of_def event_key_def upper_def upper_char_def handle_fill_def mark_seen_def Let_def)
  ultimately show ?thesis
    using round_cancels_open_filled_orders [OF run] by (simp add: fresh_watcher_def demo_answers_def)
qed

end
