(* ===== verification/Liquidation.thy ===== *)
theory Liquidation
  imports Prelude "HOL-Library.Multiset" "HOL-Library.Product_Lexorder"
begin

text \<open>
  The order in which positions are sold when the balance is low (\<open>engine/liquidation.py\<close>):
  low-reward markets, small positions, the rest, each tier by increasing loss.
\<close>

record candidate =
  cd_asset :: string
  cd_size :: "rat option"
  cd_reward :: "rat option"
  cd_loss :: "rat option"

text \<open>The tier of a candidate: 1, 2 or 3.\<close>

definition tier_of :: "rat \<Rightarrow> rat \<Rightarrow> candidate \<Rightarrow> nat" where
  "tier_of low small c =
     (if (case cd_reward c of None \<Rightarrow> False | Some r \<Rightarrow> r < low) then 1
      else if or0 (cd_size c) < small then 2 else 3)"

text \<open>\<open>_key\<close>: an unknown loss counts as infinite.\<close>

definition loss_key :: "candidate \<Rightarrow> bool \<times> rat" where
  "loss_key c = (case cd_loss c of None \<Rightarrow> (True, 0) | Some l \<Rightarrow> (False, l))"

definition plan_liquidation :: "candidate list \<Rightarrow> rat \<Rightarrow> rat \<Rightarrow> string list" where
  "plan_liquidation cs low small =
     concat (map (\<lambda>t. map cd_asset (sort_key loss_key (filter (\<lambda>c. tier_of low small c = t) cs))) [1, 2, 3])"

text \<open>The plan as a list of candidates.\<close>

definition liquidation_order :: "candidate list \<Rightarrow> rat \<Rightarrow> rat \<Rightarrow> candidate list" where
  "liquidation_order cs low small =
     concat (map (\<lambda>t. sort_key loss_key (filter (\<lambda>c. tier_of low small c = t) cs)) [1, 2, 3])"

lemma plan_is_order: "plan_liquidation cs low small = map cd_asset (liquidation_order cs low small)"
  by (simp add: plan_liquidation_def liquidation_order_def)

lemma tier_values: "tier_of low small c = 1 \<or> tier_of low small c = 2 \<or> tier_of low small c = 3"
  by (simp add: tier_of_def)

lemma set_liquidation_order [simp]: "set (liquidation_order cs low small) = set cs"
  using tier_values by (auto simp: liquidation_order_def)

lemma mset_liquidation_order: "mset (liquidation_order cs low small) = mset cs"
proof -
  have "mset cs = mset (filter (\<lambda>c. tier_of low small c = 1) cs) + mset (filter (\<lambda>c. tier_of low small c = 2) cs) +
      mset (filter (\<lambda>c. tier_of low small c = 3) cs)"
    using tier_values by (induction cs) fastforce+
  then show ?thesis by (simp add: liquidation_order_def add.assoc)
qed

definition before :: "rat \<Rightarrow> rat \<Rightarrow> candidate \<Rightarrow> candidate \<Rightarrow> bool" where
  "before low small c d \<longleftrightarrow> tier_of low small c < tier_of low small d \<or>
     (tier_of low small c = tier_of low small d \<and> loss_key c \<le> loss_key d)"

lemma sorted_liquidation_order: "sorted_wrt (before low small) (liquidation_order cs low small)"
proof -
  have one: "sorted_wrt (before low small) (sort_key loss_key (filter (\<lambda>c. tier_of low small c = t) cs))" for t
  proof (rule sorted_wrt_mono_rel [of _ "\<lambda>c d. loss_key c \<le> loss_key d"])
    show "sorted_wrt (\<lambda>c d. loss_key c \<le> loss_key d) (sort_key loss_key (filter (\<lambda>c. tier_of low small c = t) cs))"
      using sorted_sort_key [of loss_key "filter (\<lambda>c. tier_of low small c = t) cs"] by (simp add: sorted_map)
  qed (auto simp: before_def)
  have "before low small c d" if "tier_of low small c = i" "tier_of low small d = j" "i < j" for c d i j
    using that by (simp add: before_def)
  with one show ?thesis by (auto simp: liquidation_order_def sorted_wrt_append)
qed

text \<open>The liquidation plan is a permutation of the candidates, and of two of them the one sold
first lies in a lower tier or in the same tier with no larger loss; unknown losses come
last in their tier.\<close>

theorem plan_liquidation_order:
  "mset (plan_liquidation cs low small) = mset (map cd_asset cs) \<and>
   (\<exists>order. mset order = mset cs \<and> plan_liquidation cs low small = map cd_asset order \<and>
     sorted_wrt (\<lambda>c d. tier_of low small c < tier_of low small d \<or>
       (tier_of low small c = tier_of low small d \<and>
         (case cd_loss d of None \<Rightarrow> True | Some l \<Rightarrow> \<exists>k. cd_loss c = Some k \<and> k \<le> l))) order)"
proof -
  let ?o = "liquidation_order cs low small"
  have eq: "before low small c d \<longleftrightarrow> tier_of low small c < tier_of low small d \<or>
      (tier_of low small c = tier_of low small d \<and>
        (case cd_loss d of None \<Rightarrow> True | Some l \<Rightarrow> \<exists>k. cd_loss c = Some k \<and> k \<le> l))" for c d
    by (auto simp: before_def loss_key_def less_eq_prod_def split: option.split)
  have "sorted_wrt (\<lambda>c d. tier_of low small c < tier_of low small d \<or>
       (tier_of low small c = tier_of low small d \<and>
         (case cd_loss d of None \<Rightarrow> True | Some l \<Rightarrow> \<exists>k. cd_loss c = Some k \<and> k \<le> l))) ?o"
    using sorted_liquidation_order [of low small cs] unfolding eq [abs_def] .
  moreover have "mset (plan_liquidation cs low small) = mset (map cd_asset cs)"
    by (simp add: plan_is_order mset_liquidation_order)
  ultimately show ?thesis using mset_liquidation_order [of cs low small] plan_is_order by blast
qed

end
