(* ===== verification/Monitor.thy ===== *)
theory Monitor
  imports Holdings Router_Sales Compliance Fill_Watch Liquidation "HOL-Library.Sublist"
begin

text \<open>
  The position side of the order monitor (\<open>engine/monitor.py\<close>): the two-stage exit of every
  position, the market sale used for resolved markets and for a low balance, and the guard
  that withdraws buy orders of markets in resolution. The monitor hands a position to the
  quick-exit router first when there is one; the router's cost and book callbacks are
  answered by the monitor's own; its sales are those of \<open>Router_Sales\<close>. The exchange, the data API, Gamma and the settings answer
  through the record \<open>outside\<close>; the order of the calls is the order of the log. Texts of
  status rows are short ASCII strings here.
\<close>

section \<open>Data\<close>

definition to_position :: "holding \<Rightarrow> position" where
  "to_position h = \<lparr>ps_asset = hd_asset h, ps_cid = hd_cid h,
     ps_size = (case hd_size h of None \<Rightarrow> JNull | Some q \<Rightarrow> JNum q)\<rparr>"

record sell_book =
  sb_tick :: rat
  sb_tick_str :: string
  sb_book :: book

datatype dact =
    D_cancel "string option list" bool
  | D_limit_sell string rat rat bool
  | D_market_sell string rat bool
  | D_trade string rat rat rat
  | D_action string string rat rat
  | D_status string string

text \<open>Settings as \<open>tmpl.get(key, d)\<close> finds them: missing, stored null, or a value; and
\<open>float(tmpl.get(key, d) or z)\<close>.\<close>

definition setting :: "rat option option \<Rightarrow> rat \<Rightarrow> rat \<Rightarrow> rat" where
  "setting v d z = (let x = (case v of None \<Rightarrow> d | Some y \<Rightarrow> or0 y) in if x = 0 then z else x)"

record exit_cfg =
  xc_stop_mode :: string
  xc_stop_percent :: jnum
  xc_stop_cents :: jnum
  xc_mode :: string
  xc_threshold :: "rat option option"
  xc_low_reward :: "rat option option"
  xc_small :: "rat option option"
  xc_next_order :: bool
  xc_target :: "rat option option"

record outside =
  ou_world :: world
  ou_funder :: string
  ou_positions :: "holding list option"
  ou_orders :: "order list option"
  ou_trades :: "string \<Rightarrow> trade list option"
  ou_pre_trades :: "string \<Rightarrow> trade list option"
  ou_book :: "string \<Rightarrow> sell_book option"
  ou_books :: "string list \<Rightarrow> (string \<Rightarrow> sell_book option) option"
  ou_cancel :: "string option list \<Rightarrow> bool"
  ou_limit :: "string \<Rightarrow> rat \<Rightarrow> rat \<Rightarrow> bool"
  ou_market :: "string \<Rightarrow> rat \<Rightarrow> (jnum \<times> jnum) option option"
  ou_resolution :: "string \<Rightarrow> string option"
  ou_balance :: "rat option"
  ou_reward :: "string \<Rightarrow> rat option"
  ou_min_order_cost :: "rat option"
  ou_cfg :: exit_cfg

record monitor =
  mn_quick :: bool
  mn_router :: router
  mn_trades :: "string \<Rightarrow> trade list option option"
  mn_books :: "string \<Rightarrow> sell_book option option"
  mn_costs :: "string \<Rightarrow> (rat option \<times> lot list) option"
  mn_merges :: "string \<Rightarrow> rat list option"
  mn_cancelled :: "string option set"
  mn_dumped :: "string set"
  mn_cooldown :: rat
  mn_log :: "dact list"

text \<open>\<open>begin_status_tick\<close>.\<close>

definition begin_tick :: "monitor \<Rightarrow> monitor" where
  "begin_tick m = m\<lparr>mn_trades := Map.empty, mn_books := Map.empty, mn_costs := Map.empty, mn_merges := Map.empty, mn_cancelled := {}, mn_dumped := {}\<rparr>"

definition log_all :: "dact list \<Rightarrow> monitor \<Rightarrow> monitor" where
  "log_all ds m = m\<lparr>mn_log := mn_log m @ ds\<rparr>"

section \<open>Cost and book of a position\<close>

text \<open>\<open>_merge_events_for\<close>: confirmed merges of the market, of every wallet in the table, read once a tick.\<close>

definition confirmed_merges :: "string \<Rightarrow> mstore \<Rightarrow> rat list" where
  "confirmed_merges cid st =
     map me_amount (sort_key (\<lambda>e. or0 (me_confirmed e))
       (filter (\<lambda>e. me_cid e = cid) (get_confirmed_merge_events None None '''' st)))"

definition merge_events_for :: "string \<Rightarrow> monitor \<Rightarrow> rat list" where
  "merge_events_for cid m =
     (case mn_merges m cid of Some es \<Rightarrow> es | None \<Rightarrow> confirmed_merges cid (r_store (mn_router m)))"

definition trades_for :: "outside \<Rightarrow> monitor \<Rightarrow> string \<Rightarrow> trade list option" where
  "trades_for ou m cid = (case mn_trades m cid of Some (Some trs) \<Rightarrow> Some trs | _ \<Rightarrow> ou_trades ou cid)"

definition cost_of :: "outside \<Rightarrow> monitor \<Rightarrow> string \<Rightarrow> rat \<Rightarrow> string \<Rightarrow> rat option \<times> lot list" where
  "cost_of ou m asset sz cid =
     (case trades_for ou m cid of
        None \<Rightarrow> (None, [])
      | Some trs \<Rightarrow> position_cost_with_lots (extract_fills trs (ou_funder ou) asset) sz (merge_events_for cid m))"

definition cost_lots ::
    "outside \<Rightarrow> string \<Rightarrow> rat \<Rightarrow> string \<Rightarrow> monitor \<Rightarrow> (rat option \<times> lot list) \<times> monitor" where
  "cost_lots ou asset sz cid m =
     (case mn_costs m asset of
        Some r \<Rightarrow> (r, m)
      | None \<Rightarrow>
          let r = cost_of ou m asset sz cid;
              m1 = (if trades_for ou m cid = None then m
                else m\<lparr>mn_merges := (mn_merges m)(cid \<mapsto> merge_events_for cid m)\<rparr>)
          in (r, m1\<lparr>mn_costs := (mn_costs m)(asset \<mapsto> r)\<rparr>))"

definition sell_book_of :: "outside \<Rightarrow> monitor \<Rightarrow> string \<Rightarrow> rat \<times> string \<times> rat option \<times> rat option" where
  "sell_book_of ou m asset =
     (case (case mn_books m asset of None \<Rightarrow> ou_book ou asset | Some b \<Rightarrow> b) of
        None \<Rightarrow> (1 / 100, ''0.01'', None, None)
      | Some b \<Rightarrow> (sb_tick b, sb_tick_str b, best_bid (sb_book b), best_ask (sb_book b)))"

text \<open>\<open>_exit_prefetch\<close>: markets and tokens not in the tables yet; when the batch of books
raises, its table stays as it is.\<close>

definition exit_prefetch :: "outside \<Rightarrow> holding list \<Rightarrow> monitor \<Rightarrow> monitor" where
  "exit_prefetch ou ps m =
     (let cids = filter (\<lambda>c. c \<noteq> '''' \<and> mn_trades m c = None) (remdups (map hd_cid ps));
          assets = filter (\<lambda>a. a \<noteq> '''' \<and> mn_books m a = None) (remdups (map hd_asset ps));
          m1 = m\<lparr>mn_trades := (\<lambda>c. if c \<in> set cids then Some (ou_pre_trades ou c) else mn_trades m c)\<rparr>
      in if assets = [] then m1
         else (case ou_books ou assets of
             None \<Rightarrow> m1
           | Some bs \<Rightarrow> m1\<lparr>mn_books := (\<lambda>a. if a \<in> set assets then Some (bs a) else mn_books m a)\<rparr>))"

section \<open>Selling a position at the market\<close>

definition sells_of :: "string \<Rightarrow> order list \<Rightarrow> monitor \<Rightarrow> order list" where
  "sells_of asset orders m =
     filter (\<lambda>x. o_asset x = asset \<and> o_side x = ''SELL'' \<and> o_id x \<notin> mn_cancelled m) orders"

definition market_dump ::
    "outside \<Rightarrow> string \<Rightarrow> string \<Rightarrow> rat \<Rightarrow> rat \<Rightarrow> rat \<Rightarrow> rat option \<Rightarrow> order list \<Rightarrow> bool \<Rightarrow> monitor \<Rightarrow>
     rat option \<times> monitor" where
  "market_dump ou cid asset sz cur bid cost orders expose m =
     (let ids = map o_id (sells_of asset orders m);
          m1 = (if ids = [] then m
            else if ou_cancel ou ids
            then log_all [D_cancel ids True, D_action ''exit_cancel_sell'' cid (-1) sz]
              (m\<lparr>mn_cancelled := mn_cancelled m \<union> set ids\<rparr>)
            else log_all [D_cancel ids False] m)
      in case ou_market ou asset sz of
           None \<Rightarrow> (None, log_all [D_market_sell asset sz False,
             D_status cid (if expose then ''dump failed, exposed'' else ''dump failed'')] m1)
         | Some resp \<Rightarrow>
             let fill = market_fill_price resp (Some bid) cur;
                 trade = (case cost of Some c \<Rightarrow> if 0 < c then [D_trade cid fill sz ((fill - c) * sz)] else []
                   | None \<Rightarrow> [])
             in (Some fill, log_all ([D_market_sell asset sz True] @ trade @
                  [D_action ''exit_market'' cid fill sz, D_status cid ''dumped'']) m1))"

definition resolution_dump ::
    "outside \<Rightarrow> string \<Rightarrow> string \<Rightarrow> rat \<Rightarrow> rat \<Rightarrow> rat option \<Rightarrow> order list \<Rightarrow> monitor \<Rightarrow> monitor" where
  "resolution_dump ou cid asset sz cur cost orders m =
     (let (tick, tick_str, bid, ask) = sell_book_of ou m asset in
      case bid of
        None \<Rightarrow> log_all [D_status cid ''resolution, no bids''] m
      | Some b \<Rightarrow>
          if b \<le> 0 then log_all [D_status cid ''resolution, no bids''] m
          else snd (market_dump ou cid asset sz cur b cost orders True m))"

section \<open>The two-stage exit\<close>

text \<open>The router sees the monitor's costs and books.\<close>

definition router_world :: "outside \<Rightarrow> monitor \<Rightarrow> world" where
  "router_world ou m = (ou_world ou)\<lparr>w_cost_lots := (\<lambda>a q c. Some (fst (cost_lots ou a q c m))),
     w_sell_book := (\<lambda>a. Some (sell_book_of ou m a))\<rparr>"

definition route_first :: "outside \<Rightarrow> holding \<Rightarrow> order list \<Rightarrow> monitor \<Rightarrow> bool \<times> monitor" where
  "route_first ou h orders m =
     (if mn_quick m then
        let (r, s) = route_position (router_world ou m) (to_position h) orders (mn_router m)
        in (r = Some True, m\<lparr>mn_router := s\<rparr>)
      else (False, m))"

definition rest_sell ::
    "outside \<Rightarrow> string \<Rightarrow> string \<Rightarrow> rat \<Rightarrow> rat \<Rightarrow> rat \<Rightarrow> rat \<Rightarrow> order list \<Rightarrow> monitor \<Rightarrow> monitor" where
  "rest_sell ou cid asset sz cost tick price orders m =
     (let cost_floor = ceil_to_tick cost tick;
          want = (if price < cost_floor - eps then cost_floor else price);
          p = plan_take_profit sz (Some want) tick (sells_of asset orders m);
          place = (\<lambda>m1. if ou_limit ou asset want sz
            then log_all [D_limit_sell asset want sz True, D_action ''exit_rest'' cid want sz, D_status cid ''resting''] m1
            else log_all [D_limit_sell asset want sz False, D_status cid ''rest failed, unprotected''] m1)
      in if tp_action p \<noteq> TP_replace then log_all [D_status cid ''kept''] m
         else if tp_cancel p = [] then place m
         else if ou_cancel ou (tp_cancel p)
         then place (log_all [D_cancel (tp_cancel p) True, D_action ''exit_recancel'' cid (-1) sz] m)
         else log_all [D_cancel (tp_cancel p) False] m)"

definition market_exit ::
    "outside \<Rightarrow> string \<Rightarrow> string \<Rightarrow> rat \<Rightarrow> rat \<Rightarrow> rat \<Rightarrow> rat option \<Rightarrow> tier \<Rightarrow> order list \<Rightarrow> monitor \<Rightarrow> monitor" where
  "market_exit ou cid asset sz cur cost bid tr orders m =
     (let ids = map o_id (sells_of asset orders m);
          m1 = (if ids = [] then m
            else if ou_cancel ou ids then log_all [D_cancel ids True, D_action ''exit_cancel_sell'' cid (-1) sz] m
            else log_all [D_cancel ids False] m)
      in case ou_market ou asset sz of
           None \<Rightarrow> log_all [D_market_sell asset sz False, D_status cid ''stop failed, unprotected''] m1
         | Some resp \<Rightarrow>
             let fill = market_fill_price resp bid cur;
                 trade = (if tr = Tier_B0 then [D_trade cid fill sz ((fill - cost) * sz)] else [])
             in log_all ([D_market_sell asset sz True] @ trade @
                  [D_action ''exit_market'' cid fill sz, D_status cid ''sold at market'']) m1)"

definition exit_decision :: "outside \<Rightarrow> monitor \<Rightarrow> string \<Rightarrow> rat \<Rightarrow> rat \<Rightarrow> exit_plan" where
  "exit_decision ou m asset sz cost =
     (let (tick, tick_str, bid, ask) = sell_book_of ou m asset; cfg = ou_cfg ou;
          theta = effective_theta_stop (JNum cost) (xc_stop_mode cfg) (xc_stop_percent cfg) (xc_stop_cents cfg)
      in plan_exit cost bid ask tick theta sz (xc_mode cfg))"

definition own_exit ::
    "outside \<Rightarrow> holding \<Rightarrow> rat option \<Rightarrow> order list \<Rightarrow> monitor \<Rightarrow> monitor" where
  "own_exit ou h cost orders m =
     (let asset = hd_asset h; cid = hd_cid h; sz = or0 (hd_size h); cur = or0 (hd_cur h) in
      case cost of
        None \<Rightarrow> log_all [D_status cid ''unprotected''] m
      | Some c \<Rightarrow>
          if c \<le> 0 then log_all [D_status cid ''unprotected''] m
          else
            let (tick, tick_str, bid, ask) = sell_book_of ou m asset; pl = exit_decision ou m asset sz c
            in case ep_action pl of
                 Exit_noop \<Rightarrow> log_all [D_status cid ''no book''] m
               | Rest price \<Rightarrow> rest_sell ou cid asset sz c tick price orders m
               | Market \<Rightarrow> market_exit ou cid asset sz cur c bid (ep_tier pl) orders m)"

definition exit_position ::
    "outside \<Rightarrow> holding \<Rightarrow> order list \<Rightarrow> bool \<Rightarrow> monitor \<Rightarrow> monitor" where
  "exit_position ou h orders resolving m =
     (let asset = hd_asset h; cid = hd_cid h; sz = or0 (hd_size h) in
      if sz \<le> 0 then m
      else
        let ((cost, lots), m1) = cost_lots ou asset sz cid m in
        if resolving then resolution_dump ou cid asset sz (or0 (hd_cur h)) cost orders m1
        else
          let (handled, m2) = route_first ou h orders m1
          in if handled then m2 else own_exit ou h cost orders m2)"

section \<open>All positions\<close>

fun exit_positions :: "outside \<Rightarrow> string list \<Rightarrow> order list \<Rightarrow> holding list \<Rightarrow> monitor \<Rightarrow> monitor" where
  "exit_positions ou resolving orders [] m = m"
| "exit_positions ou resolving orders (h # hs) m =
     exit_positions ou resolving orders hs
       (if hd_asset h \<in> mn_dumped m then m
        else exit_position ou h orders (hd_cid h \<in> set resolving) m)"

definition check_exit :: "outside \<Rightarrow> order list option \<Rightarrow> monitor \<Rightarrow> monitor" where
  "check_exit ou open_orders m =
     (case ou_positions ou of
        None \<Rightarrow> m
      | Some ps \<Rightarrow>
      (case (case open_orders of Some xs \<Rightarrow> Some xs | None \<Rightarrow> ou_orders ou) of
        None \<Rightarrow> m
      | Some orders \<Rightarrow>
          let cids = map hd_cid (filter held ps);
              resolving = filter (\<lambda>c. in_resolution (ou_resolution ou c)) cids;
              m1 = exit_prefetch ou (filter (\<lambda>h. held h \<and> hd_asset h \<notin> mn_dumped m) ps) m;
              m2 = (if mn_quick m1 then m1\<lparr>mn_router :=
                  snd (reconcile_pending (router_world ou m1) (map to_position ps) orders (mn_router m1))\<rparr> else m1)
          in exit_positions ou resolving orders ps m2))"

section \<open>Selling when the balance is low\<close>

record dump_info =
  di_cid :: string
  di_size :: rat
  di_cur :: rat
  di_bid :: "rat option"
  di_cost :: rat

text \<open>The loop that collects the candidates; positions without a cost are left out.\<close>

fun dump_candidates ::
    "outside \<Rightarrow> holding list \<Rightarrow> monitor \<Rightarrow> (string \<Rightarrow> dump_info option) \<Rightarrow> candidate list \<Rightarrow>
     (string \<Rightarrow> dump_info option) \<times> candidate list \<times> monitor" where
  "dump_candidates ou [] m meta cs = (meta, cs, m)"
| "dump_candidates ou (h # hs) m meta cs =
     (let asset = hd_asset h; cid = hd_cid h; sz = or0 (hd_size h) in
      if sz \<le> 0 then dump_candidates ou hs m meta cs
      else
        let ((cost, lots), m1) = cost_lots ou asset sz cid m in
        case cost of
          None \<Rightarrow> dump_candidates ou hs m1 meta cs
        | Some c \<Rightarrow>
            let (tick, tick_str, bid, ask) = sell_book_of ou m1 asset
            in dump_candidates ou hs m1
                 (meta(asset \<mapsto> \<lparr>di_cid = cid, di_size = sz, di_cur = or0 (hd_cur h), di_bid = bid, di_cost = c\<rparr>))
                 (cs @ [\<lparr>cd_asset = asset, cd_size = Some sz, cd_reward = ou_reward ou cid,
                   cd_loss = map_option (\<lambda>b. (c - b) * sz) bid\<rparr>]))"

text \<open>The selling loop: stop as soon as the estimated balance reaches the target.\<close>

fun dump_loop ::
    "outside \<Rightarrow> order list \<Rightarrow> rat \<Rightarrow> (string \<Rightarrow> dump_info option) \<Rightarrow> string list \<Rightarrow> rat \<Rightarrow> bool \<Rightarrow> monitor \<Rightarrow>
     rat \<times> bool \<times> monitor" where
  "dump_loop ou orders target meta [] est dumped m = (est, dumped, m)"
| "dump_loop ou orders target meta (a # as) est dumped m =
     (if target \<le> est then (est, dumped, m)
      else case meta a of
        None \<Rightarrow> dump_loop ou orders target meta as est dumped m
      | Some i \<Rightarrow>
          (case di_bid i of
             None \<Rightarrow> dump_loop ou orders target meta as est dumped m
           | Some b \<Rightarrow>
               if b \<le> 0 then dump_loop ou orders target meta as est dumped m
               else
                 let (fill, m1) = market_dump ou (di_cid i) a (di_size i) (di_cur i) b (Some (di_cost i)) orders False m
                 in case fill of
                      None \<Rightarrow> dump_loop ou orders target meta as est dumped m1
                    | Some f \<Rightarrow> dump_loop ou orders target meta as (est + b * di_size i) True
                        (m1\<lparr>mn_dumped := insert a (mn_dumped m1)\<rparr>)))"

definition dump_target :: "exit_cfg \<Rightarrow> rat \<Rightarrow> rat option \<Rightarrow> rat" where
  "dump_target cfg threshold min_cost =
     (if xc_next_order cfg then (if or0 min_cost \<noteq> 0 then or0 min_cost else threshold)
      else setting (xc_target cfg) 4 4)"

definition liquidate_cooldown :: rat where
  "liquidate_cooldown = 60"

definition check_low_balance :: "outside \<Rightarrow> order list option \<Rightarrow> monitor \<Rightarrow> monitor" where
  "check_low_balance ou open_orders m =
     (let cfg = ou_cfg ou; now = w_now (ou_world ou); threshold = setting (xc_threshold cfg) 4 0 in
      if threshold \<le> 0 then m
      else if now < mn_cooldown m then m
      else case ou_balance ou of
        None \<Rightarrow> m
      | Some balance \<Rightarrow>
          let target = dump_target cfg threshold (ou_min_order_cost ou) in
          if threshold \<le> balance then m
          else if target \<le> balance then m
          else (case (ou_positions ou, case open_orders of Some xs \<Rightarrow> Some xs | None \<Rightarrow> ou_orders ou) of
              (Some ps, Some orders) \<Rightarrow>
                let m1 = exit_prefetch ou (filter held ps) m;
                    (meta, cs, m2) = dump_candidates ou ps m1 Map.empty [];
                    plan = plan_liquidation cs (setting (xc_low_reward cfg) 30 30) (setting (xc_small cfg) 20 20);
                    (est, dumped, m3) = dump_loop ou orders target meta plan balance False m2
                in if dumped then m3\<lparr>mn_cooldown := now + liquidate_cooldown\<rparr> else m3
            | _ \<Rightarrow> m))"

section \<open>Buy orders of markets in resolution\<close>

text \<open>The buys of each market, markets in order of their first order.\<close>

definition buys_of :: "string \<Rightarrow> order list \<Rightarrow> order list" where
  "buys_of cid orders = filter (\<lambda>x. o_side x = ''BUY'' \<and> o_market x = cid) orders"

definition buy_markets :: "order list \<Rightarrow> string list" where
  "buy_markets orders = rev (remdups (rev (filter (\<lambda>c. c \<noteq> '''') (map o_market (filter is_buy orders)))))"

definition check_resolution :: "outside \<Rightarrow> order list option \<Rightarrow> monitor \<Rightarrow> monitor" where
  "check_resolution ou open_orders m =
     (case (case open_orders of Some xs \<Rightarrow> Some xs | None \<Rightarrow> ou_orders ou) of
        None \<Rightarrow> m
      | Some orders \<Rightarrow>
          log_all (concat (map (\<lambda>cid.
            if \<not> in_resolution (ou_resolution ou cid) then []
            else
              let ids = map o_id (buys_of cid orders)
              in if ou_cancel ou ids
                 then [D_cancel ids True, D_action ''uma_resolution_cancel'' cid (-1) 0, D_status cid ''resolution, buys cancelled'']
                 else [D_cancel ids False, D_status cid ''resolution, cancel failed''])
            (buy_markets orders))) m)"

section \<open>Lemmas\<close>

lemma log_all_simps [simp]:
  "mn_log (log_all ds m) = mn_log m @ ds" "mn_quick (log_all ds m) = mn_quick m" "mn_router (log_all ds m) = mn_router m"
  "mn_trades (log_all ds m) = mn_trades m" "mn_merges (log_all ds m) = mn_merges m" "mn_books (log_all ds m) = mn_books m" "mn_costs (log_all ds m) = mn_costs m"
  "mn_cancelled (log_all ds m) = mn_cancelled m" "mn_dumped (log_all ds m) = mn_dumped m" "mn_cooldown (log_all ds m) = mn_cooldown m"
  by (simp_all add: log_all_def)

lemma log_all_append [simp]: "log_all a (log_all b m) = log_all (b @ a) m"
  by (simp add: log_all_def)

lemma cost_lots_other [simp]:
  "mn_log (snd (cost_lots ou a q c m)) = mn_log m" "mn_books (snd (cost_lots ou a q c m)) = mn_books m"
  "mn_dumped (snd (cost_lots ou a q c m)) = mn_dumped m" "mn_quick (snd (cost_lots ou a q c m)) = mn_quick m"
  "mn_cancelled (snd (cost_lots ou a q c m)) = mn_cancelled m" "mn_router (snd (cost_lots ou a q c m)) = mn_router m" "mn_cooldown (snd (cost_lots ou a q c m)) = mn_cooldown m"
  by (auto simp: cost_lots_def Let_def split: option.split)

lemma route_first_other [simp]:
  "mn_log (snd (route_first ou h orders m)) = mn_log m" "mn_books (snd (route_first ou h orders m)) = mn_books m"
  "mn_dumped (snd (route_first ou h orders m)) = mn_dumped m"
  by (auto simp: route_first_def split: prod.split)

lemma sell_book_cong: "mn_books m = mn_books m' \<Longrightarrow> sell_book_of ou m a = sell_book_of ou m' a"
  by (simp add: sell_book_of_def)

text \<open>What an exit step may add to the log: sales of the whole position only, a resting one never
below the rounded cost, one at the market only for a reason.\<close>

definition sound_exit ::
    "outside \<Rightarrow> string \<Rightarrow> rat \<Rightarrow> rat option \<Rightarrow> rat \<Rightarrow> rat option \<Rightarrow> bool \<Rightarrow> dact \<Rightarrow> bool" where
  "sound_exit ou asset sz cost tick bid resolving d \<longleftrightarrow>
     (case d of
        D_limit_sell a p q ok \<Rightarrow> a = asset \<and> q = sz \<and> \<not> resolving \<and>
          (\<exists>c. cost = Some c \<and> 0 < c \<and> ceil_to_tick c tick \<le> p)
      | D_market_sell a q ok \<Rightarrow> a = asset \<and> q = sz \<and> (\<exists>b. bid = Some b \<and>
          (resolving \<and> 0 < b \<or>
           (\<exists>c. cost = Some c \<and> 0 < c \<and>
             (xc_mode (ou_cfg ou) = ''market'' \<and> c < b \<or>
              (\<exists>t. effective_theta_stop (JNum c) (xc_stop_mode (ou_cfg ou)) (xc_stop_percent (ou_cfg ou))
                 (xc_stop_cents (ou_cfg ou)) = Some t \<and> t \<le> c - b)))))
      | _ \<Rightarrow> True)"

definition is_sale :: "dact \<Rightarrow> bool" where
  "is_sale d = (case d of D_limit_sell a p q ok \<Rightarrow> True | D_market_sell a q ok \<Rightarrow> True | _ \<Rightarrow> False)"

lemma sound_simps [simp]:
  "sound_exit ou a q c t b r (D_cancel ids ok)" "sound_exit ou a q c t b r (D_trade x f q' v)"
  "sound_exit ou a q c t b r (D_action k x p q')" "sound_exit ou a q c t b r (D_status x y)"
  "\<not> is_sale (D_cancel ids ok)" "\<not> is_sale (D_trade x f q' v)" "\<not> is_sale (D_action k x p q')" "\<not> is_sale (D_status x y)"
  "is_sale (D_limit_sell x p q' ok)" "is_sale (D_market_sell x q' ok)"
  by (simp_all add: sound_exit_def is_sale_def)

definition adds :: "(dact \<Rightarrow> bool) \<Rightarrow> monitor \<Rightarrow> monitor \<Rightarrow> bool" where
  "adds P m m' \<longleftrightarrow> (\<exists>new. mn_log m' = mn_log m @ new \<and> list_all P new \<and> length (filter is_sale new) \<le> 1)"

lemma adds_log_all: "list_all P ds \<Longrightarrow> length (filter is_sale ds) \<le> 1 \<Longrightarrow> adds P m (log_all ds m)"
  by (simp add: adds_def)

lemma rest_sell_adds:
  assumes "0 < c" "ceil_to_tick c tick \<le> price"
  shows "adds (sound_exit ou a q (Some c) tick bid False) m (rest_sell ou cid a q c tick price orders m)"
proof -
  let ?want = "if price < ceil_to_tick c tick - eps then ceil_to_tick c tick else price"
  have "sound_exit ou a q (Some c) tick bid False (D_limit_sell a ?want q ok)" for ok
    using assms by (simp add: sound_exit_def)
  then show ?thesis unfolding rest_sell_def Let_def by (auto intro: adds_log_all)
qed

lemma market_exit_adds:
  assumes "sound_exit ou a q (Some c) tick bid False (D_market_sell a q True)"
    "sound_exit ou a q (Some c) tick bid False (D_market_sell a q False)"
  shows "adds (sound_exit ou a q (Some c) tick bid False) m (market_exit ou cid a q cur c bd tr orders m)"
  using assms unfolding market_exit_def Let_def by (auto split: option.split intro!: adds_log_all)

lemma market_dump_adds:
  "adds (\<lambda>d. is_sale d \<longrightarrow> (\<exists>ok. d = D_market_sell a q ok)) m (snd (market_dump ou cid a q cur b cost orders ex m))"
  unfolding market_dump_def Let_def adds_def by (auto split: option.split)

lemma own_exit_adds:
  assumes "sell_book_of ou m (hd_asset h) = (tick, ts, bid, ask)"
  shows "adds (sound_exit ou (hd_asset h) (or0 (hd_size h)) cost tick bid False) m (own_exit ou h cost orders m)"
proof (cases "\<exists>c. cost = Some c \<and> 0 < c")
  case False
  then show ?thesis by (auto simp: own_exit_def Let_def not_less split: option.split intro!: adds_log_all)
next
  case True
  then obtain c where c: "cost = Some c" "0 < c" by blast
  let ?pl = "exit_decision ou m (hd_asset h) (or0 (hd_size h)) c"
  let ?theta = "effective_theta_stop (JNum c) (xc_stop_mode (ou_cfg ou)) (xc_stop_percent (ou_cfg ou)) (xc_stop_cents (ou_cfg ou))"
  have pl: "?pl = plan_exit c bid ask tick ?theta (or0 (hd_size h)) (xc_mode (ou_cfg ou))"
    by (simp add: exit_decision_def assms Let_def)
  have market: "sound_exit ou a q (Some c) tick bid False (D_market_sell a q ok)" if "ep_action ?pl = Market" for a q ok
    using that c(2) unfolding pl
    by (cases bid; cases ask; cases ?theta)
      (auto simp: sound_exit_def plan_exit_def Let_def stop_hit_def no_book_def split: if_splits)
  have rest: "ceil_to_tick c tick \<le> price" if "ep_action ?pl = Rest price" for price
    using that unfolding pl
    by (cases bid; cases ask; cases ?theta)
      (auto simp: plan_exit_def Let_def stop_hit_def no_book_def split: if_splits)
  show ?thesis
    unfolding own_exit_def Let_def assms prod.case c(1) option.case
    using c(2) market rest by (auto split: exit_action.split intro!: rest_sell_adds market_exit_adds adds_log_all)
qed

lemma adds_cong: "adds P m m' \<Longrightarrow> mn_log m = mn_log n \<Longrightarrow> adds P n m'"
  by (simp add: adds_def)

lemma adds_mono: "adds P m m' \<Longrightarrow> (\<And>d. P d \<Longrightarrow> Q d) \<Longrightarrow> adds Q m m'"
  unfolding adds_def by (metis list.pred_mono_strong)

lemma adds_refl: "mn_log m' = mn_log m \<Longrightarrow> adds P m m'"
  by (simp add: adds_def)

lemma resolution_dump_adds:
  assumes "sell_book_of ou m a = (tick, ts, bid, ask)"
  shows "adds (sound_exit ou a q cost tick bid True) m (resolution_dump ou cid a q cur c orders m)"
proof (cases "\<exists>b. bid = Some b \<and> 0 < b")
  case True
  then obtain b where b: "bid = Some b" "0 < b" by blast
  have "adds (sound_exit ou a q cost tick bid True) m (snd (market_dump ou cid a q cur b c orders True m))"
    by (rule adds_mono [OF market_dump_adds]) (use b in \<open>auto simp: sound_exit_def is_sale_def split: dact.splits\<close>)
  then show ?thesis using b by (simp add: resolution_dump_def assms)
next
  case False
  then show ?thesis
    by (auto simp: resolution_dump_def assms not_less split: option.split intro!: adds_log_all)
qed

lemma exit_position_adds:
  assumes "sell_book_of ou m (hd_asset h) = (tick, ts, bid, ask)"
  shows "adds (sound_exit ou (hd_asset h) (or0 (hd_size h))
      (fst (fst (cost_lots ou (hd_asset h) (or0 (hd_size h)) (hd_cid h) m))) tick bid resolving)
      m (exit_position ou h orders resolving m)"
    and "\<not> resolving \<Longrightarrow>
      fst (route_first ou h orders (snd (cost_lots ou (hd_asset h) (or0 (hd_size h)) (hd_cid h) m))) \<Longrightarrow>
      mn_log (exit_position ou h orders resolving m) = mn_log m"
proof -
  let ?a = "hd_asset h" and ?q = "or0 (hd_size h)"
  obtain cost lots m1 where c: "cost_lots ou ?a ?q (hd_cid h) m = ((cost, lots), m1)" using prod_cases3 by (metis surj_pair)
  have m1: "mn_log m1 = mn_log m" "mn_books m1 = mn_books m" using cost_lots_other [of ou ?a ?q "hd_cid h" m] c by simp_all
  obtain handled m2 where r: "route_first ou h orders m1 = (handled, m2)" by fastforce
  have m2: "mn_log m2 = mn_log m" "mn_books m2 = mn_books m" using route_first_other [of ou h orders m1] r m1 by simp_all
  have own: "adds (sound_exit ou ?a ?q cost tick bid False) m (own_exit ou h cost orders m2)"
    by (rule adds_cong [OF own_exit_adds m2(1)]) (simp add: sell_book_cong [OF m2(2)] assms)
  have res: "adds (sound_exit ou ?a ?q cost tick bid True) m (resolution_dump ou (hd_cid h) ?a ?q cur cost orders m1)" for cur
    by (rule adds_cong [OF resolution_dump_adds m1(1)]) (simp add: sell_book_cong [OF m1(2)] assms)
  show "adds (sound_exit ou ?a ?q (fst (fst (cost_lots ou ?a ?q (hd_cid h) m))) tick bid resolving)
      m (exit_position ou h orders resolving m)"
    unfolding exit_position_def Let_def c prod.case r fst_conv snd_conv
    using own res m2(1) by (auto intro: adds_refl)
  show "mn_log (exit_position ou h orders resolving m) = mn_log m"
    if "\<not> resolving" "fst (route_first ou h orders (snd (cost_lots ou ?a ?q (hd_cid h) m)))"
    using that unfolding exit_position_def Let_def c prod.case r fst_conv snd_conv
    using m2(1) by simp
qed

text \<open>The router's part of a step.\<close>

lemma own_exit_router [simp]: "mn_router (own_exit ou h cost orders m) = mn_router m"
proof -
  have "mn_router (rest_sell ou c a q k tick price orders m) = mn_router m" for c a q k tick price
    by (simp add: rest_sell_def Let_def)
  moreover have "mn_router (market_exit ou c a q cur k bid tr orders m) = mn_router m" for c a q cur k bid tr
    by (simp add: market_exit_def Let_def split: option.split)
  ultimately show ?thesis
    by (simp add: own_exit_def Let_def split: option.split exit_action.split prod.split)
qed

lemma market_dump_router [simp]: "mn_router (snd (market_dump ou cid a q cur b cost orders ex m)) = mn_router m"
  by (auto simp: market_dump_def Let_def split: option.split)

lemma resolution_dump_router [simp]: "mn_router (resolution_dump ou cid a q cur cost orders m) = mn_router m"
  by (simp add: resolution_dump_def split: prod.split option.split)

lemma route_first_sells:
  fixes ou :: outside and m :: monitor and h :: holding and orders :: "order list" and resolving :: bool
  defines "w \<equiv> router_world ou m" and "r \<equiv> route_first ou h orders m"
  shows "rsales (mn_router (snd r)) = rsales (mn_router m) \<or>
    mn_quick m \<and> fst r \<and> (\<exists>e. rsales (mn_router (snd r)) = rsales (mn_router m) @ [e] \<and> is_rsale e \<and> router_sale w (to_position h) e)"
proof (cases "mn_quick m")
  case True
  obtain x s where run: "route_position w (to_position h) orders (mn_router m) = (x, s)" by fastforce
  then have "r = (x = Some True, m\<lparr>mn_router := s\<rparr>)"
    using True by (simp add: r_def route_first_def w_def)
  moreover have "rsales s = rsales (mn_router m) \<or>
      x = Some True \<and> (\<exists>e. rsales s = rsales (mn_router m) @ [e] \<and> is_rsale e \<and> router_sale w (to_position h) e)"
    using route_position_sells [of w "to_position h" orders] run unfolding sells_def same_sales_def by (metis fst_conv snd_conv)
  ultimately show ?thesis using True by auto
qed (simp add: r_def route_first_def)

text \<open>A step either leaves the router's sales as they are, or is the router's alone.\<close>

lemma exit_position_router:
  fixes ou :: outside and m :: monitor and h :: holding and orders :: "order list" and resolving :: bool
  defines "m1 \<equiv> snd (cost_lots ou (hd_asset h) (or0 (hd_size h)) (hd_cid h) m)" and "m' \<equiv> exit_position ou h orders resolving m"
  shows "rsales (mn_router m') = rsales (mn_router m) \<or>
    0 < or0 (hd_size h) \<and> mn_quick m \<and> \<not> resolving \<and> mn_log m' = mn_log m \<and>
      (\<exists>e. rsales (mn_router m') = rsales (mn_router m) @ [e] \<and> is_rsale e \<and> router_sale (router_world ou m1) (to_position h) e)"
proof -
  let ?a = "hd_asset h" and ?q = "or0 (hd_size h)"
  obtain cost lots where c: "cost_lots ou ?a ?q (hd_cid h) m = ((cost, lots), m1)"
    unfolding m1_def by (metis surj_pair prod.collapse)
  have m1: "mn_router m1 = mn_router m" "mn_quick m1 = mn_quick m" "mn_log m1 = mn_log m"
    using cost_lots_other [of ou ?a ?q "hd_cid h" m] unfolding m1_def by simp_all
  obtain handled m2 where r: "route_first ou h orders m1 = (handled, m2)" by fastforce
  have "rsales (mn_router m2) = rsales (mn_router m) \<or> mn_quick m \<and> handled \<and>
      (\<exists>e. rsales (mn_router m2) = rsales (mn_router m) @ [e] \<and> is_rsale e \<and> router_sale (router_world ou m1) (to_position h) e)"
    using route_first_sells [where ou = ou and m = m1 and h = h and orders = orders] r m1 by simp
  moreover have "mn_log m2 = mn_log m" using route_first_other(1) [of ou h orders m1] r m1 by simp
  ultimately show ?thesis
    unfolding m'_def exit_position_def Let_def c prod.case r fst_conv snd_conv using m1 by auto
qed

text \<open>C16: One exit step of a position sells at most once, either by the monitor itself or through the router. The monitor's
  own sale is of this token and the whole position: a resting sale never below the cost rounded to the
  tick, a sale at the market only into a known bid and only when the market is in resolution, or the bid is
  above the cost in market mode, or the configured stop is reached; a position without a cost is never
  sold except in resolution. A sale of the router is made only outside resolution and for a position with a known
  cost, also of the whole position: a resting sale at the best ask, without regard to the cost, while the
  stop is not reached and time is left to wait; or a FAK sale at the worst bid its quote needs, once the
  stop is reached or the time is over. When the router took the position over, the monitor does nothing.\<close>

theorem exit_position_safe:
  assumes "sell_book_of ou m (hd_asset h) = (tick, ts, bid, ask)"
  shows "let ((cost, lots), m1) = cost_lots ou (hd_asset h) (or0 (hd_size h)) (hd_cid h) m;
             m' = exit_position ou h orders resolving m; old = rsales (mn_router m)
    in (rsales (mn_router m') = old \<and> adds (sound_exit ou (hd_asset h) (or0 (hd_size h)) cost tick bid resolving) m m' \<or>
        mn_log m' = mn_log m \<and> mn_quick m \<and> \<not> resolving \<and>
          (\<exists>e. rsales (mn_router m') = old @ [e] \<and> router_sale (router_world ou m1) (to_position h) e)) \<and>
       (\<not> resolving \<and> fst (route_first ou h orders m1) \<longrightarrow> mn_log m' = mn_log m)"
proof -
  obtain cost lots m1 where c: "cost_lots ou (hd_asset h) (or0 (hd_size h)) (hd_cid h) m = ((cost, lots), m1)"
    by (metis surj_pair)
  show ?thesis
    using exit_position_adds [OF assms, of resolving orders] exit_position_router [where ou = ou and m = m and h = h and orders = orders and resolving = resolving]
    unfolding Let_def c prod.case fst_conv snd_conv by blast
qed

definition idle_outside :: outside where
  "idle_outside = \<lparr>ou_world = sample_world, ou_funder = ''me'', ou_positions = None, ou_orders = None,
     ou_trades = (\<lambda>_. None), ou_pre_trades = (\<lambda>_. None), ou_book = (\<lambda>_. None), ou_books = (\<lambda>_. None),
     ou_cancel = (\<lambda>_. True), ou_limit = (\<lambda>_ _ _. True), ou_market = (\<lambda>_ _. Some None),
     ou_resolution = (\<lambda>_. None), ou_balance = Some 1, ou_reward = (\<lambda>_. None), ou_min_order_cost = None,
     ou_cfg = \<lparr>xc_stop_mode = ''off'', xc_stop_percent = JNull, xc_stop_cents = JNull, xc_mode = ''maker'',
       xc_threshold = None, xc_low_reward = None, xc_small = None, xc_next_order = False, xc_target = None\<rparr>\<rparr>"

definition demo_sell_book :: sell_book where
  "demo_sell_book = \<lparr>sb_tick = 1/100, sb_tick_str = ''0.01'', sb_book = demo_book\<rparr>"

definition demo_monitor :: monitor where
  "demo_monitor = \<lparr>mn_quick = False, mn_router = new_router \<lparr>ms_rows = [], ms_next = 1\<rparr>, mn_trades = Map.empty,
     mn_books = [''y'' \<mapsto> Some demo_sell_book], mn_costs = [''y'' \<mapsto> (Some (43/100), [])], mn_merges = Map.empty, mn_cancelled = {}, mn_dumped = {},
     mn_cooldown = 0, mn_log = []\<rparr>"

definition demo_holding :: holding where
  "demo_holding = \<lparr>hd_asset = ''y'', hd_cid = ''m'', hd_size = Some 10, hd_cur = Some (2/5)\<rparr>"

lemma demo_sell_book_of: "sell_book_of idle_outside demo_monitor ''y'' = (1/100, ''0.01'', Some (2/5), Some (43/100))"
  by (simp add: sell_book_of_def demo_monitor_def demo_sell_book_def demo_prices)

text \<open>Bought at 43 cents, the bid is at 40 and the stop is off: the position rests, not lower than 43.\<close>

lemma exit_position_witness:
  "adds (sound_exit idle_outside ''y'' 10 (Some (43/100)) (1/100) (Some (2/5)) False) demo_monitor
     (exit_position idle_outside demo_holding [] False demo_monitor)"
proof -
  have "sell_book_of idle_outside demo_monitor (hd_asset demo_holding) = (1/100, ''0.01'', Some (2/5), Some (43/100))"
    by (simp add: demo_sell_book_of demo_holding_def)
  note step = exit_position_safe [OF this, of "[]" False, unfolded Let_def]
  have "cost_lots idle_outside (hd_asset demo_holding) (or0 (hd_size demo_holding)) (hd_cid demo_holding) demo_monitor = ((Some (43/100), []), demo_monitor)"
    by (simp add: demo_holding_def cost_lots_def demo_monitor_def)
  moreover have "\<not> mn_quick demo_monitor" by (simp add: demo_monitor_def)
  ultimately show ?thesis using step by (simp add: demo_holding_def)
qed

section \<open>The low-balance sale\<close>

fun sold_assets :: "dact list \<Rightarrow> string list" where
  "sold_assets [] = []"
| "sold_assets (D_market_sell a q True # ds) = a # sold_assets ds"
| "sold_assets (_ # ds) = sold_assets ds"

lemma sold_assets_append [simp]: "sold_assets (xs @ ys) = sold_assets xs @ sold_assets ys"
  by (induction xs rule: sold_assets.induct) simp_all

text \<open>A sale at the market of this token and this size.\<close>

definition sells_only :: "string \<Rightarrow> rat \<Rightarrow> dact \<Rightarrow> bool" where
  "sells_only a q d = (case d of D_limit_sell _ _ _ _ \<Rightarrow> False | D_market_sell a' q' ok \<Rightarrow> a' = a \<and> q' = q | _ \<Rightarrow> True)"

lemma market_dump_result:
  assumes "market_dump ou cid a q cur b cost orders ex m = (fill, m')"
  shows "\<exists>new. mn_log m' = mn_log m @ new \<and> sold_assets new = (if ou_market ou a q = None then [] else [a]) \<and> list_all (sells_only a q) new"
    "fill = None \<longleftrightarrow> ou_market ou a q = None"
    "mn_dumped m' = mn_dumped m" "mn_cooldown m' = mn_cooldown m" "mn_books m' = mn_books m"
  using assms by (auto simp: market_dump_def Let_def sells_only_def split: option.splits if_splits)

definition dump_value :: "(string \<Rightarrow> dump_info option) \<Rightarrow> string \<Rightarrow> rat" where
  "dump_value meta a = (case meta a of None \<Rightarrow> 0 | Some i \<Rightarrow> or0 (di_bid i) * di_size i)"

definition no_limits :: "dact list \<Rightarrow> bool" where
  "no_limits = list_all (\<lambda>d. case d of D_limit_sell _ _ _ _ \<Rightarrow> False | _ \<Rightarrow> True)"

text \<open>What is sold going down a plan: what can be sold, until the target is reached.\<close>

fun sold_along :: "(string \<Rightarrow> bool) \<Rightarrow> (string \<Rightarrow> rat) \<Rightarrow> rat \<Rightarrow> string list \<Rightarrow> rat \<Rightarrow> string list" where
  "sold_along ok value target [] est = []"
| "sold_along ok value target (a # as) est =
     (if target \<le> est then []
      else if ok a then a # sold_along ok value target as (est + value a)
      else sold_along ok value target as est)"

lemma sold_along_below:
  "k < length (sold_along ok value target as est) \<Longrightarrow> est + sum_list (map value (take k (sold_along ok value target as est))) < target"
proof (induction as arbitrary: est k)
  case (Cons a as)
  show ?case
  proof (cases "est < target \<and> ok a")
    case True
    with Cons show ?thesis
      using Cons.IH [of "k - 1" "est + value a"] by (cases k) (auto simp: add.assoc not_le)
  next
    case False
    with Cons show ?thesis by (auto split: if_splits)
  qed
qed simp

lemma sold_along_subseq: "subseq (sold_along ok value target as est) as"
  by (induction as arbitrary: est) auto

lemma subseq_distinct: "subseq xs ys \<Longrightarrow> distinct ys \<Longrightarrow> distinct xs"
  by (metis distinct_nthsI subseq_conv_nths)

text \<open>There is a positive bid, and the exchange takes the sale.\<close>

definition sellable :: "outside \<Rightarrow> (string \<Rightarrow> dump_info option) \<Rightarrow> string \<Rightarrow> bool" where
  "sellable ou meta a =
     (case meta a of None \<Rightarrow> False
      | Some i \<Rightarrow> (case di_bid i of None \<Rightarrow> False | Some b \<Rightarrow> 0 < b \<and> ou_market ou a (di_size i) \<noteq> None))"

lemma dump_loop_spec:
  "dump_loop ou orders target meta plan est d m = (est', d', m') \<Longrightarrow>
   \<exists>new. mn_log m' = mn_log m @ new \<and> sold_assets new = sold_along (sellable ou meta) (dump_value meta) target plan est \<and>
     mn_dumped m' = mn_dumped m \<union> set (sold_assets new) \<and> (d' \<longleftrightarrow> d \<or> sold_assets new \<noteq> []) \<and>
     mn_cooldown m' = mn_cooldown m \<and>
     (\<forall>x \<in> set new. \<exists>a i b. meta a = Some i \<and> di_bid i = Some b \<and> 0 < b \<and> sells_only a (di_size i) x)"
proof (induction plan arbitrary: est d m)
  case Nil
  then show ?case by auto
next
  case (Cons a as)
  consider "target \<le> est" | "est < target" "\<not> (\<exists>i b. meta a = Some i \<and> di_bid i = Some b \<and> 0 < b)"
    | i b where "est < target" "meta a = Some i" "di_bid i = Some b" "0 < b" by force
  then show ?case
  proof cases
    case 1
    then show ?thesis using Cons.prems by auto
  next
    case 2
    then have "dump_loop ou orders target meta as est d m = (est', d', m')"
      using Cons.prems by (auto split: option.splits if_splits)
    moreover have "\<not> sellable ou meta a" using 2(2) by (auto simp: sellable_def split: option.split)
    ultimately show ?thesis using Cons.IH [of est d m] 2(1) by simp
  next
    case 3
    obtain fill m1 where dump: "market_dump ou (di_cid i) a (di_size i) (di_cur i) b (Some (di_cost i)) orders False m = (fill, m1)"
      by fastforce
    obtain new where new: "mn_log m1 = mn_log m @ new" "sold_assets new = (if ou_market ou a (di_size i) = None then [] else [a])"
      "\<forall>x \<in> set new. sells_only a (di_size i) x"
      using market_dump_result(1) [OF dump] by (auto simp: list_all_iff)
    note keep = market_dump_result(2-4) [OF dump]
    have ok: "sellable ou meta a \<longleftrightarrow> fill \<noteq> None" "dump_value meta a = b * di_size i"
      using 3 keep(1) by (simp_all add: sellable_def dump_value_def)
    have here: "\<exists>a i b. meta a = Some i \<and> di_bid i = Some b \<and> 0 < b \<and> sells_only a (di_size i) x" if "x \<in> set new" for x
      using that new(3) 3(2-4) by blast
    show ?thesis
    proof (cases fill)
      case None
      then have "dump_loop ou orders target meta as est d m1 = (est', d', m')" using Cons.prems 3 dump by simp
      from Cons.IH [OF this] obtain rest where "mn_log m' = mn_log m1 @ rest"
        "sold_assets rest = sold_along (sellable ou meta) (dump_value meta) target as est"
        "mn_dumped m' = mn_dumped m1 \<union> set (sold_assets rest)" "d' \<longleftrightarrow> d \<or> sold_assets rest \<noteq> []" "mn_cooldown m' = mn_cooldown m1"
        "\<forall>x \<in> set rest. \<exists>a i b. meta a = Some i \<and> di_bid i = Some b \<and> 0 < b \<and> sells_only a (di_size i) x" by blast
      then show ?thesis
        using new(1,2) keep None ok(1) here 3(1) by (intro exI [of _ "new @ rest"]) auto
    next
      case (Some f)
      have "dump_loop ou orders target meta as (est + b * di_size i) True (m1\<lparr>mn_dumped := insert a (mn_dumped m1)\<rparr>) = (est', d', m')"
        using Cons.prems 3 dump Some by simp
      from Cons.IH [OF this] obtain rest where "mn_log m' = mn_log m1 @ rest"
        "sold_assets rest = sold_along (sellable ou meta) (dump_value meta) target as (est + b * di_size i)"
        "mn_dumped m' = insert a (mn_dumped m1) \<union> set (sold_assets rest)" "d'" "mn_cooldown m' = mn_cooldown m1"
        "\<forall>x \<in> set rest. \<exists>a i b. meta a = Some i \<and> di_bid i = Some b \<and> 0 < b \<and> sells_only a (di_size i) x" by auto
      then show ?thesis
        using new(1,2) keep Some ok here 3(1) by (intro exI [of _ "new @ rest"]) auto
    qed
  qed
qed

lemma dump_candidates_spec:
  "dump_candidates ou hs m meta cs = (meta', cs', m') \<Longrightarrow>
   mn_log m' = mn_log m \<and> mn_books m' = mn_books m \<and> mn_dumped m' = mn_dumped m \<and> mn_cooldown m' = mn_cooldown m \<and>
   (\<forall>a i. meta' a = Some i \<longrightarrow> meta a = Some i \<or>
     (\<exists>h \<in> set hs. hd_asset h = a \<and> held h \<and> di_size i = or0 (hd_size h) \<and> di_bid i = fst (snd (snd (sell_book_of ou m a)))))"
proof (induction hs arbitrary: m meta cs)
  case Nil
  then show ?case by simp
next
  case (Cons h hs)
  let ?a = "hd_asset h" and ?q = "or0 (hd_size h)"
  obtain cost lots m1 where c: "cost_lots ou ?a ?q (hd_cid h) m = ((cost, lots), m1)" using prod_cases3 by (metis surj_pair)
  have m1: "mn_log m1 = mn_log m" "mn_books m1 = mn_books m" "mn_dumped m1 = mn_dumped m" "mn_cooldown m1 = mn_cooldown m"
    using cost_lots_other [of ou ?a ?q "hd_cid h" m] c by simp_all
  obtain tick ts bid ask where b: "sell_book_of ou m ?a = (tick, ts, bid, ask)" using prod_cases4 by blast
  have books: "sell_book_of ou m1 a = sell_book_of ou m a" for a by (rule sell_book_cong [OF m1(2)])
  consider "?q \<le> 0" | "0 < ?q" "cost = None" | x where "0 < ?q" "cost = Some x" by fastforce
  then show ?case
  proof cases
    case 1
    then show ?thesis using Cons.prems Cons.IH [of m meta cs] by auto
  next
    case 2
    then show ?thesis using Cons.prems Cons.IH [of m1 meta cs] c m1 books by auto
  next
    case 3
    let ?i = "\<lparr>di_cid = hd_cid h, di_size = ?q, di_cur = or0 (hd_cur h), di_bid = bid, di_cost = x\<rparr>"
    let ?cs = "cs @ [\<lparr>cd_asset = ?a, cd_size = Some ?q, cd_reward = ou_reward ou (hd_cid h),
      cd_loss = map_option (\<lambda>b. (x - b) * ?q) bid\<rparr>]"
    have "dump_candidates ou hs m1 (meta(?a \<mapsto> ?i)) ?cs = (meta', cs', m')"
      using Cons.prems 3 c b by (simp add: books Let_def)
    note ih = Cons.IH [OF this]
    have "meta a = Some i \<or> (\<exists>g \<in> set (h # hs). hd_asset g = a \<and> held g \<and> di_size i = or0 (hd_size g) \<and>
        di_bid i = fst (snd (snd (sell_book_of ou m a))))" if "meta' a = Some i" for a i
    proof -
      from ih that consider "(meta(?a \<mapsto> ?i)) a = Some i"
        | "\<exists>g \<in> set hs. hd_asset g = a \<and> held g \<and> di_size i = or0 (hd_size g) \<and>
            di_bid i = fst (snd (snd (sell_book_of ou m a)))" unfolding books by blast
      then show ?thesis
      proof cases
        case 1
        then show ?thesis using b 3(1) by (cases "a = ?a") (auto simp: held_def)
      qed simp
    qed
    then show ?thesis using ih m1 by simp
  qed
qed

lemma dump_candidates_router: "mn_router (snd (snd (dump_candidates ou hs m meta cs))) = mn_router m"
proof (induction hs arbitrary: m meta cs)
  case (Cons h hs)
  obtain cost lots m1 where c: "cost_lots ou (hd_asset h) (or0 (hd_size h)) (hd_cid h) m = ((cost, lots), m1)" by (metis surj_pair)
  with cost_lots_other [of ou "hd_asset h" "or0 (hd_size h)" "hd_cid h" m] have "mn_router m1 = mn_router m" by simp
  with Cons c show ?case by (simp add: Let_def split: option.split prod.split)
qed simp

lemma dump_loop_router: "mn_router (snd (snd (dump_loop ou orders target meta as est d m))) = mn_router m"
proof (induction as arbitrary: est d m)
  case (Cons a as)
  have dump: "market_dump ou c a q cur b cost os ex m = (f, m1) \<Longrightarrow> mn_router m1 = mn_router m" for c q cur b cost os ex f m1
    using market_dump_router [of ou c a q cur b cost os ex m] by simp
  from Cons show ?case by (auto dest!: dump split: option.split prod.split)
qed simp

lemma dump_candidates_assets:
  "dump_candidates ou hs m meta cs = (meta', cs', m') \<Longrightarrow>
   \<exists>more. cs' = cs @ more \<and> subseq (map cd_asset more) (map hd_asset (filter held hs))"
proof (induction hs arbitrary: m meta cs)
  case (Cons h hs)
  let ?a = "hd_asset h" and ?q = "or0 (hd_size h)"
  obtain cost lots m1 where c: "cost_lots ou ?a ?q (hd_cid h) m = ((cost, lots), m1)" by (metis surj_pair)
  obtain tick ts bid ask where b: "sell_book_of ou m1 ?a = (tick, ts, bid, ask)" using prod_cases4 by blast
  consider "?q \<le> 0" | "0 < ?q" "cost = None" | x where "0 < ?q" "cost = Some x" by fastforce
  then show ?case
  proof cases
    case 1
    then show ?thesis using Cons.prems Cons.IH [of m meta cs] by (auto simp: held_def)
  next
    case 2
    then show ?thesis using Cons.prems Cons.IH [of m1 meta cs] c by (auto simp: held_def)
  next
    case 3
    let ?i = "\<lparr>di_cid = hd_cid h, di_size = ?q, di_cur = or0 (hd_cur h), di_bid = bid, di_cost = x\<rparr>"
    let ?c = "\<lparr>cd_asset = ?a, cd_size = Some ?q, cd_reward = ou_reward ou (hd_cid h), cd_loss = map_option (\<lambda>b. (x - b) * ?q) bid\<rparr>"
    have "dump_candidates ou hs m1 (meta(?a \<mapsto> ?i)) (cs @ [?c]) = (meta', cs', m')"
      using Cons.prems 3 c b by (simp add: Let_def)
    from Cons.IH [OF this] obtain more where "cs' = (cs @ [?c]) @ more" "subseq (map cd_asset more) (map hd_asset (filter held hs))" by blast
    moreover have "held h" using 3(1) by (simp add: held_def)
    ultimately show ?thesis by (intro exI [of _ "?c # more"]) simp
  qed
qed simp

lemma prefetch_other [simp]:
  "mn_log (exit_prefetch ou ps m) = mn_log m" "mn_dumped (exit_prefetch ou ps m) = mn_dumped m"
  "mn_cooldown (exit_prefetch ou ps m) = mn_cooldown m" "mn_router (exit_prefetch ou ps m) = mn_router m"
  by (simp_all add: exit_prefetch_def Let_def split: option.split)

text \<open>The sale is made: the balance is known and below the threshold and the target, outside the cooldown, and the
  positions and the open orders can be read.\<close>

definition dump_goal :: "outside \<Rightarrow> rat" where
  "dump_goal ou = dump_target (ou_cfg ou) (setting (xc_threshold (ou_cfg ou)) 4 0) (ou_min_order_cost ou)"

definition must_sell :: "outside \<Rightarrow> order list option \<Rightarrow> monitor \<Rightarrow> (rat \<times> holding list) option" where
  "must_sell ou open_orders m =
     (case (ou_balance ou, ou_positions ou, case open_orders of Some xs \<Rightarrow> Some xs | None \<Rightarrow> ou_orders ou) of
        (Some balance, Some ps, Some orders) \<Rightarrow>
          (if mn_cooldown m \<le> w_now (ou_world ou) \<and> 0 < setting (xc_threshold (ou_cfg ou)) 4 0 \<and>
             balance < setting (xc_threshold (ou_cfg ou)) 4 0 \<and> balance < dump_goal ou
           then Some (balance, ps) else None)
      | _ \<Rightarrow> None)"

text \<open>The plan over the positions with a known cost, and the information the sales use.\<close>

definition dump_plan :: "outside \<Rightarrow> holding list \<Rightarrow> monitor \<Rightarrow> (string \<Rightarrow> dump_info option) \<times> candidate list" where
  "dump_plan ou ps m =
     (let (meta, cs, m1) = dump_candidates ou ps (exit_prefetch ou (filter held ps) m) Map.empty []
      in (meta, liquidation_order cs (setting (xc_low_reward (ou_cfg ou)) 30 30) (setting (xc_small (ou_cfg ou)) 20 20)))"

lemma low_balance_plan:
  fixes ou :: outside and open_orders :: "order list option" and m :: monitor
  defines "m' \<equiv> check_low_balance ou open_orders m"
  shows "\<exists>new. mn_log m' = mn_log m @ new \<and> mn_dumped m' = mn_dumped m \<union> set (sold_assets new) \<and> mn_router m' = mn_router m \<and>
    mn_cooldown m' = (if sold_assets new = [] then mn_cooldown m else w_now (ou_world ou) + 60) \<and>
    (case must_sell ou open_orders m of
       None \<Rightarrow> new = []
     | Some (balance, ps) \<Rightarrow>
         sold_assets new = sold_along (sellable ou (fst (dump_plan ou ps m))) (dump_value (fst (dump_plan ou ps m))) (dump_goal ou)
           (map cd_asset (snd (dump_plan ou ps m))) balance \<and>
         (\<forall>x \<in> set new. \<exists>a i b. fst (dump_plan ou ps m) a = Some i \<and> di_bid i = Some b \<and> 0 < b \<and> sells_only a (di_size i) x))"
proof (cases "must_sell ou open_orders m")
  case None
  then have "m' = m"
    by (auto simp: m'_def check_low_balance_def must_sell_def dump_goal_def Let_def not_less not_le split: option.splits if_splits)
  with None show ?thesis by auto
next
  case (Some x)
  let ?cfg = "ou_cfg ou" and ?now = "w_now (ou_world ou)"
  let ?th = "setting (xc_threshold ?cfg) 4 0"
  from Some obtain balance ps orders where go: "x = (balance, ps)" "0 < ?th" "mn_cooldown m \<le> ?now" "ou_balance ou = Some balance" "balance < ?th"
    "balance < dump_goal ou" "ou_positions ou = Some ps" "(case open_orders of Some xs \<Rightarrow> Some xs | None \<Rightarrow> ou_orders ou) = Some orders"
    by (auto simp: must_sell_def split: option.splits if_splits)
  let ?m1 = "exit_prefetch ou (filter held ps) m"
  obtain meta cs m2 where cand: "dump_candidates ou ps ?m1 Map.empty [] = (meta, cs, m2)" using prod_cases3 by blast
  let ?order = "liquidation_order cs (setting (xc_low_reward ?cfg) 30 30) (setting (xc_small ?cfg) 20 20)"
  obtain est d m3 where loop: "dump_loop ou orders (dump_goal ou) meta (map cd_asset ?order) balance False m2 = (est, d, m3)" using prod_cases3 by blast
  have m': "m' = (if d then m3\<lparr>mn_cooldown := ?now + 60\<rparr> else m3)"
    using go cand loop by (simp add: m'_def check_low_balance_def dump_goal_def Let_def liquidate_cooldown_def plan_is_order not_less not_le)
  have plan: "dump_plan ou ps m = (meta, ?order)" by (simp add: dump_plan_def cand)
  have spec: "mn_log m2 = mn_log m" "mn_dumped m2 = mn_dumped m" "mn_cooldown m2 = mn_cooldown m" "mn_router m2 = mn_router m"
    using dump_candidates_spec [OF cand] dump_candidates_router [of ou ps ?m1 Map.empty "[]"] cand by simp_all
  have "mn_router m3 = mn_router m2"
    using dump_loop_router [of ou orders "dump_goal ou" meta "map cd_asset ?order" balance False m2] loop by simp
  with dump_loop_spec [OF loop] spec show ?thesis
    unfolding Some go(1) option.case prod.case plan fst_conv snd_conv m' by auto
qed

text \<open>What the information says of a token, and the order of the plan.\<close>

lemma dump_plan_spec:
  assumes "fst (dump_plan ou ps m) a = Some i"
  shows "\<exists>h \<in> set ps. hd_asset h = a \<and> held h \<and> di_size i = or0 (hd_size h) \<and>
    di_bid i = fst (snd (snd (sell_book_of ou (exit_prefetch ou (filter held ps) m) a)))"
proof -
  obtain meta cs m2 where cand: "dump_candidates ou ps (exit_prefetch ou (filter held ps) m) Map.empty [] = (meta, cs, m2)" using prod_cases3 by blast
  with assms have "meta a = Some i" by (simp add: dump_plan_def)
  with dump_candidates_spec [OF cand] show ?thesis by auto
qed

lemma dump_plan_order:
  "sorted_wrt (before (setting (xc_low_reward (ou_cfg ou)) 30 30) (setting (xc_small (ou_cfg ou)) 20 20)) (snd (dump_plan ou ps m))"
  "distinct (map hd_asset (filter held ps)) \<Longrightarrow> distinct (map cd_asset (snd (dump_plan ou ps m)))"
proof -
  obtain meta cs m2 where cand: "dump_candidates ou ps (exit_prefetch ou (filter held ps) m) Map.empty [] = (meta, cs, m2)" using prod_cases3 by blast
  let ?o = "liquidation_order cs (setting (xc_low_reward (ou_cfg ou)) 30 30) (setting (xc_small (ou_cfg ou)) 20 20)"
  have plan: "snd (dump_plan ou ps m) = ?o" by (simp add: dump_plan_def cand)
  show "sorted_wrt (before (setting (xc_low_reward (ou_cfg ou)) 30 30) (setting (xc_small (ou_cfg ou)) 20 20)) (snd (dump_plan ou ps m))"
    unfolding plan by (rule sorted_liquidation_order)
  show "distinct (map cd_asset (snd (dump_plan ou ps m)))" if "distinct (map hd_asset (filter held ps))"
  proof -
    have "subseq (map cd_asset cs) (map hd_asset (filter held ps))"
      using dump_candidates_assets [OF cand] by auto
    then have "distinct (map cd_asset cs)" using that by (rule subseq_distinct)
    moreover have "mset (map cd_asset ?o) = mset (map cd_asset cs)"
      by (simp add: mset_liquidation_order)
    ultimately show ?thesis unfolding plan by (metis mset_eq_imp_distinct_iff)
  qed
qed

lemma low_balance_no_limits:
  "\<exists>new. mn_log (check_low_balance ou open_orders m) = mn_log m @ new \<and> no_limits new \<and>
    mn_dumped (check_low_balance ou open_orders m) = mn_dumped m \<union> set (sold_assets new) \<and>
    mn_router (check_low_balance ou open_orders m) = mn_router m"
  using low_balance_plan [of ou open_orders m]
proof (elim exE conjE, goal_cases)
  case (1 new)
  then have "no_limits new"
    by (fastforce simp: no_limits_def list_all_iff sells_only_def split: option.splits dact.splits prod.splits)
  with 1 show ?case by blast
qed

text \<open>C37: A low-balance sale happens only below the threshold and the target and outside the cooldown, and sets the
  cooldown. It goes down the liquidation plan, lower tiers and smaller losses first, and sells
  what has a positive bid and is accepted by the exchange, the whole position, at the market and never at a limit,
  until the target is reached: before every sale the balance plus the value at the bid of what was sold so far is
  below it. A token held in one position is sold at most once.\<close>

theorem low_balance_stops_at_target:
  "\<exists>new. mn_log (check_low_balance ou open_orders m) = mn_log m @ new \<and>
    mn_dumped (check_low_balance ou open_orders m) = mn_dumped m \<union> set (sold_assets new) \<and>
    mn_cooldown (check_low_balance ou open_orders m) = (if sold_assets new = [] then mn_cooldown m else w_now (ou_world ou) + 60) \<and>
    (case must_sell ou open_orders m of
       None \<Rightarrow> new = []
     | Some (balance, ps) \<Rightarrow>
         let (info, order) = dump_plan ou ps m; sold = sold_assets new in
         sold = sold_along (sellable ou info) (dump_value info) (dump_goal ou) (map cd_asset order) balance \<and>
         sorted_wrt (before (setting (xc_low_reward (ou_cfg ou)) 30 30) (setting (xc_small (ou_cfg ou)) 20 20)) order \<and>
         (\<forall>k < length sold. balance + sum_list (map (dump_value info) (take k sold)) < dump_goal ou) \<and>
         (distinct (map hd_asset (filter held ps)) \<longrightarrow> distinct sold) \<and>
         (\<forall>x \<in> set new. \<exists>h \<in> set ps. \<exists>b. held h \<and> 0 < b \<and> sells_only (hd_asset h) (or0 (hd_size h)) x \<and>
            fst (snd (snd (sell_book_of ou (exit_prefetch ou (filter held ps) m) (hd_asset h)))) = Some b \<and>
            dump_value info (hd_asset h) = b * or0 (hd_size h)))"
proof -
  obtain new where new: "mn_log (check_low_balance ou open_orders m) = mn_log m @ new"
    "mn_dumped (check_low_balance ou open_orders m) = mn_dumped m \<union> set (sold_assets new)"
    "mn_cooldown (check_low_balance ou open_orders m) = (if sold_assets new = [] then mn_cooldown m else w_now (ou_world ou) + 60)"
    "case must_sell ou open_orders m of None \<Rightarrow> new = []
     | Some (balance, ps) \<Rightarrow>
         sold_assets new = sold_along (sellable ou (fst (dump_plan ou ps m))) (dump_value (fst (dump_plan ou ps m))) (dump_goal ou)
           (map cd_asset (snd (dump_plan ou ps m))) balance \<and>
         (\<forall>x \<in> set new. \<exists>a i b. fst (dump_plan ou ps m) a = Some i \<and> di_bid i = Some b \<and> 0 < b \<and> sells_only a (di_size i) x)"
    using low_balance_plan [of ou open_orders m] by blast
  show ?thesis
  proof (cases "must_sell ou open_orders m")
    case None
    with new show ?thesis by (intro exI [of _ new]) simp
  next
    case (Some x)
    obtain balance ps where x: "x = (balance, ps)" by fastforce
    obtain info order where plan: "dump_plan ou ps m = (info, order)" by fastforce
    let ?sold = "sold_along (sellable ou info) (dump_value info) (dump_goal ou) (map cd_asset order) balance"
    have sold: "sold_assets new = ?sold" using new(4) by (simp add: Some x plan)
    have each: "\<exists>h \<in> set ps. \<exists>b. held h \<and> 0 < b \<and> sells_only (hd_asset h) (or0 (hd_size h)) y \<and>
        fst (snd (snd (sell_book_of ou (exit_prefetch ou (filter held ps) m) (hd_asset h)))) = Some b \<and>
        dump_value info (hd_asset h) = b * or0 (hd_size h)" if "y \<in> set new" for y
    proof -
      from that new(4) obtain a i b where i: "info a = Some i" "di_bid i = Some b" "0 < b" "sells_only a (di_size i) y"
        by (auto simp: Some x plan)
      from dump_plan_spec [of ou ps m a i] i(1) plan obtain h where "h \<in> set ps" "hd_asset h = a" "held h" "di_size i = or0 (hd_size h)"
        "di_bid i = fst (snd (snd (sell_book_of ou (exit_prefetch ou (filter held ps) m) a)))" by auto
      with i show ?thesis by (intro bexI [of _ h] exI [of _ b]) (simp_all add: dump_value_def)
    qed
    have "distinct ?sold" if "distinct (map hd_asset (filter held ps))"
      using dump_plan_order(2) [OF that, of ou m] sold_along_subseq subseq_distinct unfolding plan snd_conv by blast
    then show ?thesis
      using new(1-3) sold each sold_along_below [of _ "sellable ou info" "dump_value info" "dump_goal ou" "map cd_asset order" balance]
        dump_plan_order(1) [of ou ps m]
      by (intro exI [of _ new]) (simp add: Some x plan)
  qed
qed

text \<open>One dollar left and ten shares at 40 cents: they are sold, and the monitor waits a minute.\<close>

definition poor_outside :: outside where
  "poor_outside = idle_outside\<lparr>ou_positions := Some [demo_holding]\<rparr>"

lemma low_balance_witness:
  "mn_cooldown (check_low_balance poor_outside (Some []) demo_monitor) = w_now sample_world + 60 \<and>
   mn_dumped (check_low_balance poor_outside (Some []) demo_monitor) = {''y''}"
proof -
  have sold: "sold_assets (mn_log (check_low_balance poor_outside (Some []) demo_monitor)) = [''y'']" by code_simp
  have "mn_log demo_monitor = []" "mn_dumped demo_monitor = {}" "w_now (ou_world poor_outside) = w_now sample_world"
    by (simp_all add: demo_monitor_def poor_outside_def idle_outside_def)
  with sold low_balance_stops_at_target [of poor_outside "Some []" demo_monitor] show ?thesis by auto
qed

section \<open>A whole round\<close>

definition sale_of :: "dact \<Rightarrow> string option" where
  "sale_of d = (case d of D_limit_sell a p q ok \<Rightarrow> Some a | D_market_sell a q ok \<Rightarrow> Some a | _ \<Rightarrow> None)"

definition sales :: "string \<Rightarrow> dact list \<Rightarrow> nat" where
  "sales a ds = length (filter (\<lambda>d. sale_of d = Some a) ds)"

lemma sales_append [simp]: "sales a (xs @ ys) = sales a xs + sales a ys"
  by (simp add: sales_def)

lemma sales_bound:
  assumes "list_all (sound_exit ou b q c t bid r) new" "length (filter is_sale new) \<le> 1"
  shows "sales a new \<le> (if a = b then 1 else 0)"
proof -
  have one: "sale_of d = Some a \<longleftrightarrow> is_sale d \<and> a = b" if "sound_exit ou b q c t bid r d" for d
    using that by (cases d) (auto simp: sale_of_def is_sale_def sound_exit_def)
  have eq: "filter (\<lambda>d. sale_of d = Some a) new = (if a = b then filter is_sale new else [])"
    using assms(1) by (induction new) (auto simp: one)
  show ?thesis using assms(2) by (simp add: sales_def eq)
qed

lemma exit_position_dumped [simp]: "mn_dumped (exit_position ou h orders r m) = mn_dumped m"
proof -
  have res: "mn_dumped (resolution_dump ou c a q cur cost orders m1) = mn_dumped m1" for c a q cur cost m1
    using market_dump_result(3) [OF prod.collapse [symmetric], of ou c a q cur _ cost orders True m1]
    by (simp add: resolution_dump_def split: prod.split option.split)
  have own: "mn_dumped (own_exit ou h cost orders m1) = mn_dumped m1" for cost m1
    by (auto simp: own_exit_def rest_sell_def market_exit_def Let_def split: option.split exit_action.split prod.split)
  show ?thesis
    using cost_lots_other(3) [of ou "hd_asset h" "or0 (hd_size h)" "hd_cid h" m]
      route_first_other(3) [of ou h orders "snd (cost_lots ou (hd_asset h) (or0 (hd_size h)) (hd_cid h) m)"]
    by (simp add: exit_position_def Let_def res own split_beta)
qed

text \<open>The sales of a token through the router.\<close>

definition router_sales :: "string \<Rightarrow> effect list \<Rightarrow> nat" where
  "router_sales a es = length (filter (\<lambda>e. rsale_of e = Some a) es)"

lemma router_sales_simps [simp]:
  "router_sales a [] = 0" "router_sales a (xs @ ys) = router_sales a xs + router_sales a ys"
  "router_sales a [e] = (if rsale_of e = Some a then 1 else 0)"
  by (simp_all add: router_sales_def)

text \<open>One step sells its token at most once, in either way.\<close>

lemma exit_position_sales:
  obtains new more where "mn_log (exit_position ou h orders r m) = mn_log m @ new"
    and "rsales (mn_router (exit_position ou h orders r m)) = rsales (mn_router m) @ more"
    and "\<And>a. sales a new + router_sales a more \<le> (if a = hd_asset h then 1 else 0)"
proof -
  let ?m' = "exit_position ou h orders r m"
  obtain tick ts bid ask where b: "sell_book_of ou m (hd_asset h) = (tick, ts, bid, ask)" using prod_cases4 by blast
  obtain new where new: "mn_log ?m' = mn_log m @ new" "sales a new \<le> (if a = hd_asset h then 1 else 0)" for a
    using exit_position_adds(1) [OF b, of r orders] sales_bound unfolding adds_def by meson
  from exit_position_router [where ou = ou and m = m and h = h and orders = orders and resolving = r] show ?thesis
  proof
    assume "rsales (mn_router ?m') = rsales (mn_router m)"
    then show ?thesis using new by (intro that [of new "[]"]) simp_all
  next
    assume "0 < or0 (hd_size h) \<and> mn_quick m \<and> \<not> r \<and> mn_log ?m' = mn_log m \<and>
      (\<exists>e. rsales (mn_router ?m') = rsales (mn_router m) @ [e] \<and> is_rsale e \<and>
        router_sale (router_world ou (snd (cost_lots ou (hd_asset h) (or0 (hd_size h)) (hd_cid h) m))) (to_position h) e)"
    then obtain e where "mn_log ?m' = mn_log m" "rsales (mn_router ?m') = rsales (mn_router m) @ [e]" "rsale_of e = Some (hd_asset h)"
      by (auto dest: router_sale_of simp: to_position_def)
    then show ?thesis by (intro that [of "[]" "[e]"]) (simp_all add: sales_def)
  qed
qed

lemma exit_positions_sales:
  "\<exists>new more. mn_log (exit_positions ou rs orders hs m) = mn_log m @ new \<and>
     rsales (mn_router (exit_positions ou rs orders hs m)) = rsales (mn_router m) @ more \<and>
     mn_dumped (exit_positions ou rs orders hs m) = mn_dumped m \<and>
     (\<forall>a. sales a new + router_sales a more \<le> length (filter (\<lambda>h. hd_asset h = a \<and> held h \<and> a \<notin> mn_dumped m) hs))"
proof (induction hs arbitrary: m)
  case Nil
  then show ?case by (simp add: sales_def)
next
  case (Cons h hs)
  show ?case
  proof (cases "hd_asset h \<in> mn_dumped m \<or> \<not> held h")
    case True
    then have "exit_positions ou rs orders (h # hs) m = exit_positions ou rs orders hs m"
      by (auto simp: exit_position_def held_def Let_def)
    then show ?thesis using Cons [of m] True by auto
  next
    case False
    let ?m1 = "exit_position ou h orders (hd_cid h \<in> set rs) m"
    obtain new1 more1 where one: "mn_log ?m1 = mn_log m @ new1" "rsales (mn_router ?m1) = rsales (mn_router m) @ more1"
      "sales a new1 + router_sales a more1 \<le> (if a = hd_asset h then 1 else 0)" for a
      using exit_position_sales [of ou h orders "hd_cid h \<in> set rs" m] by blast
    obtain new2 more2 where two: "mn_log (exit_positions ou rs orders hs ?m1) = mn_log ?m1 @ new2"
      "rsales (mn_router (exit_positions ou rs orders hs ?m1)) = rsales (mn_router ?m1) @ more2"
      "mn_dumped (exit_positions ou rs orders hs ?m1) = mn_dumped ?m1"
      "\<forall>a. sales a new2 + router_sales a more2 \<le> length (filter (\<lambda>h. hd_asset h = a \<and> held h \<and> a \<notin> mn_dumped ?m1) hs)"
      using Cons [of ?m1] by blast
    have "sales a (new1 @ new2) + router_sales a (more1 @ more2) \<le>
        length (filter (\<lambda>h. hd_asset h = a \<and> held h \<and> a \<notin> mn_dumped m) (h # hs))" for a
      using one(3) [of a] two(4) [rule_format, of a] False by (cases "a = hd_asset h") auto
    then show ?thesis using one(1,2) two(1-3) False by (intro exI [of _ "new1 @ new2"] exI [of _ "more1 @ more2"]) simp
  qed
qed

text \<open>A whole exit round sells no token more often than it is held as a position, the sales of the router included, and
never one that the low-balance sale of the same tick has already sold; without the list of positions
or of open orders it does nothing.\<close>

theorem exit_round_sells_once:
  "\<exists>new more. mn_log (check_exit ou open_orders m) = mn_log m @ new \<and>
    rsales (mn_router (check_exit ou open_orders m)) = rsales (mn_router m) @ more \<and>
    mn_dumped (check_exit ou open_orders m) = mn_dumped m \<and>
    (case (ou_positions ou, case open_orders of Some xs \<Rightarrow> Some xs | None \<Rightarrow> ou_orders ou) of
       (Some ps, Some orders) \<Rightarrow>
         (\<forall>a. sales a new + router_sales a more \<le> length (filter (\<lambda>h. hd_asset h = a \<and> held h \<and> a \<notin> mn_dumped m) ps))
     | _ \<Rightarrow> new = [] \<and> more = [] \<and> check_exit ou open_orders m = m)"
proof -
  let ?orders = "case open_orders of Some xs \<Rightarrow> Some xs | None \<Rightarrow> ou_orders ou"
  consider "ou_positions ou = None \<or> ?orders = None"
    | ps orders where "ou_positions ou = Some ps" "?orders = Some orders" by fastforce
  then show ?thesis
  proof cases
    case 1
    then have "check_exit ou open_orders m = m" by (auto simp: check_exit_def split: option.splits)
    with 1 show ?thesis by (intro exI [of _ "[]"]) (auto split: option.splits)
  next
    case 2
    let ?m1 = "exit_prefetch ou (filter (\<lambda>h. held h \<and> hd_asset h \<notin> mn_dumped m) ps) m"
    let ?m2 = "if mn_quick ?m1 then ?m1\<lparr>mn_router :=
        snd (reconcile_pending (router_world ou ?m1) (map to_position ps) orders (mn_router ?m1))\<rparr> else ?m1"
    let ?rs = "filter (\<lambda>c. in_resolution (ou_resolution ou c)) (map hd_cid (filter held ps))"
    have run: "check_exit ou open_orders m = exit_positions ou ?rs orders ps ?m2"
      using 2 by (simp add: check_exit_def Let_def)
    have "rsales (snd (reconcile_pending w qs os s)) = rsales s" for w qs os s
      using reconcile_pending_sale by (simp add: keeps_def same_sales_def)
    then have "mn_log ?m2 = mn_log m" "mn_dumped ?m2 = mn_dumped m" "rsales (mn_router ?m2) = rsales (mn_router m)" by simp_all
    with exit_positions_sales [of ou ?rs orders ps ?m2] show ?thesis unfolding run using 2 by simp
  qed
qed

text \<open>The resolution guard cancels, market by market, all buy orders of exactly the markets that
have a resolution status, in one call each, and records it only when that call succeeded;
sell orders and everything else stay as they are.\<close>

theorem resolution_guard_spec:
  assumes "(case open_orders of Some xs \<Rightarrow> Some xs | None \<Rightarrow> ou_orders ou) = Some orders"
  shows "\<exists>new. check_resolution ou open_orders m = log_all new m \<and> filter is_sale new = [] \<and>
    (\<forall>ids ok. D_cancel ids ok \<in> set new \<longleftrightarrow>
       (\<exists>cid. cid \<noteq> '''' \<and> in_resolution (ou_resolution ou cid) \<and> ids = map o_id (buys_of cid orders) \<and>
          buys_of cid orders \<noteq> [] \<and> ok = ou_cancel ou ids)) \<and>
    (\<forall>k cid p q. D_action k cid p q \<in> set new \<longrightarrow> ou_cancel ou (map o_id (buys_of cid orders)))"
proof -
  let ?f = "\<lambda>cid. if \<not> in_resolution (ou_resolution ou cid) then []
      else let ids = map o_id (buys_of cid orders)
        in if ou_cancel ou ids
           then [D_cancel ids True, D_action ''uma_resolution_cancel'' cid (-1) 0, D_status cid ''resolution, buys cancelled'']
           else [D_cancel ids False, D_status cid ''resolution, cancel failed'']"
  have markets: "cid \<in> set (buy_markets orders) \<longleftrightarrow> cid \<noteq> '''' \<and> buys_of cid orders \<noteq> []" for cid
    by (auto simp: buy_markets_def buys_of_def filter_empty_conv is_buy_def)
  have "check_resolution ou open_orders m = log_all (concat (map ?f (buy_markets orders))) m"
    using assms by (simp add: check_resolution_def)
  moreover have "filter is_sale (concat (map ?f (buy_markets orders))) = []"
    by (auto simp: filter_empty_conv Let_def split: if_splits)
  moreover have "D_cancel ids ok \<in> set (concat (map ?f (buy_markets orders))) \<longleftrightarrow>
       (\<exists>cid. cid \<noteq> '''' \<and> in_resolution (ou_resolution ou cid) \<and> ids = map o_id (buys_of cid orders) \<and>
          buys_of cid orders \<noteq> [] \<and> ok = ou_cancel ou ids)" for ids ok
    using markets by (auto simp: Let_def split: if_splits)
  moreover have "D_action k cid p q \<in> set (concat (map ?f (buy_markets orders))) \<Longrightarrow>
      ou_cancel ou (map o_id (buys_of cid orders))" for k cid p q
    by (auto simp: Let_def split: if_splits)
  ultimately show ?thesis by blast
qed

lemma resolution_guard_witness:
  "D_cancel [Some ''o1''] True \<in> set (mn_log (check_resolution (idle_outside\<lparr>ou_resolution := (\<lambda>_. Some ''proposed'')\<rparr>)
     (Some [demo_buy]) demo_monitor))"
proof -
  let ?ou = "idle_outside\<lparr>ou_resolution := (\<lambda>_. Some ''proposed'')\<rparr>"
  obtain new where new: "check_resolution ?ou (Some [demo_buy]) demo_monitor = log_all new demo_monitor"
    "D_cancel ids ok \<in> set new \<longleftrightarrow> (\<exists>cid. cid \<noteq> '''' \<and> in_resolution (ou_resolution ?ou cid) \<and>
       ids = map o_id (buys_of cid [demo_buy]) \<and> buys_of cid [demo_buy] \<noteq> [] \<and> ok = ou_cancel ?ou ids)" for ids ok
    using resolution_guard_spec [where open_orders = "Some [demo_buy]" and ou = ?ou and orders = "[demo_buy]" and m = demo_monitor] by auto
  have "in_resolution (Some ''proposed'')" by (simp add: in_resolution_def strip_def is_space_def)
  then have "D_cancel [Some ''o1''] True \<in> set new"
    unfolding new(2) by (intro exI [of _ "''m''"]) (simp add: buys_of_def demo_buy_def idle_outside_def)
  then show ?thesis by (simp add: new(1))
qed

section \<open>Confirmed merges of other wallets\<close>

text \<open>\<open>_merge_events_for\<close> does not say whose operations it wants: ten shares bought at 40 cents, and a
confirmed merge of ten pairs by another wallet in the same market, make the cost unknown
and leave the position unprotected.\<close>

lemma foreign_merge_blinds_cost:
  "let foreign = (new_event 900 1 ''other'' ''m'' PAIR 10 ''y'' ''n'' 4 5 '''')\<lparr>me_status := CONFIRMED, me_confirmed := Some 950\<rparr>;
       own = demo_trade\<lparr>tr_market := ''m'', tr_makers := [(hd (tr_makers demo_trade))\<lparr>mo_asset := ''y''\<rparr>]\<rparr>;
       ou = idle_outside\<lparr>ou_trades := (\<lambda>_. Some [own])\<rparr>;
       m = (\<lambda>rows. demo_monitor\<lparr>mn_router := new_router \<lparr>ms_rows = rows, ms_next = 2\<rparr>\<rparr>)
   in fst (cost_of ou (m []) ''y'' 10 ''m'') = Some (2/5) \<and> fst (cost_of ou (m [foreign]) ''y'' 10 ''m'') = None"
  by code_simp

end
