(* ===== verification/Rounds.thy ===== *)
theory Rounds
  imports Scanner "HOL-Library.Multiset"
begin

text \<open>
  How the engine manager turns the candidate pool into placement rounds (\<open>EngineManager\<close> in
  \<open>engine/manager.py\<close>): the templates discovery works for, the fast round that refreshes only
  the books it needs, the manual placements, and the write-back of a reward found too low.
  A wallet carries its template and the answers its placement will see.
\<close>

record wallet =
  wl_address :: string
  wl_enabled :: bool
  wl_running :: bool
  wl_criteria :: criteria
  wl_template :: template
  wl_venue :: venue
  wl_skips :: "string \<Rightarrow> string option"

section \<open>Active templates\<close>

text \<open>The dictionary key of \<open>_active_templates\<close>; a sorted tuple is a multiset.\<close>

definition criteria_key ::
    "criteria \<Rightarrow> (string multiset \<times> bool \<times> rat \<times> rat option \<times> rat option) \<times> int set \<times> bool \<times> jnum \<times> string multiset \<times> bool" where
  "criteria_key c =
     ((mset (cr_included c), cr_other c, cr_min_reward c, cr_min_days c, cr_max_days c), cr_sizes c, cr_skip_new c,
      cr_hours c, mset (cr_skip_cats c), cr_skip_other c)"

text \<open>\<open>seen[key] = tmpl\<close>: a key keeps its place, its template is the last one.\<close>

fun put_template :: "criteria \<Rightarrow> criteria list \<Rightarrow> criteria list" where
  "put_template c [] = [c]"
| "put_template c (x # xs) = (if criteria_key x = criteria_key c then c # xs else x # put_template c xs)"

definition active_templates :: "wallet list \<Rightarrow> criteria \<Rightarrow> criteria list" where
  "active_templates ws fallback =
     (case fold put_template (map wl_criteria (filter wl_enabled ws)) [] of [] \<Rightarrow> [fallback] | cs \<Rightarrow> cs)"

section \<open>The fast round\<close>

definition wallet_prefilter :: "clock \<Rightarrow> market list \<Rightarrow> wallet \<Rightarrow> market list" where
  "wallet_prefilter ck pool w = prefilter_for_template ck (vn_cooldown (wl_venue w)) (wl_criteria w) pool"

text \<open>\<open>needed.setdefault(cid, market)\<close>.\<close>

fun first_per_cid :: "string set \<Rightarrow> market list \<Rightarrow> market list" where
  "first_per_cid seen [] = []"
| "first_per_cid seen (m # ms) =
     (if mk_cid m \<in> seen then first_per_cid seen ms else m # first_per_cid (insert (mk_cid m) seen) ms)"

definition needed_markets :: "clock \<Rightarrow> market list \<Rightarrow> wallet list \<Rightarrow> market list" where
  "needed_markets ck pool ws = first_per_cid {} (concat (map (wallet_prefilter ck pool) (filter wl_running ws)))"

text \<open>The markets are shared objects: the refreshed one is found under its identifier.\<close>

definition refreshed :: "market list \<Rightarrow> market \<Rightarrow> market" where
  "refreshed fresh m = (case find (\<lambda>n. mk_cid n = mk_cid m) fresh of None \<Rightarrow> m | Some n \<Rightarrow> n)"

definition by_competition :: "eligible list \<Rightarrow> eligible list" where
  "by_competition es = sort_key el_competition es"

definition round_eligible ::
    "clock \<Rightarrow> (string set \<Rightarrow> (string \<Rightarrow> quote_book option) option) \<Rightarrow> market list \<Rightarrow> wallet list \<Rightarrow> wallet \<Rightarrow> eligible list" where
  "round_eligible ck fetch pool ws w =
     (let fresh = refresh_orderbooks fetch (needed_markets ck pool ws)
      in by_competition (concat (map (\<lambda>m. book_eligible (wl_criteria w) (refreshed fresh m)) (wallet_prefilter ck pool w))))"

definition wallet_placement :: "wallet \<Rightarrow> eligible list \<Rightarrow> nat option \<Rightarrow> bool \<Rightarrow> flow \<times> round_state" where
  "wallet_placement w es cap cancel_dropouts =
     place_orders (wl_venue w) (wl_template w) (map entry.truncate es) cap cancel_dropouts (wl_skips w)"

text \<open>\<open>_place_round\<close>: a wallet whose placement raises (\<open>Crash\<close>) does not keep the next one from its turn.\<close>

definition place_round ::
    "clock \<Rightarrow> (string set \<Rightarrow> (string \<Rightarrow> quote_book option) option) \<Rightarrow> market list \<Rightarrow> wallet list \<Rightarrow>
     (string \<times> flow \<times> round_state) list" where
  "place_round ck fetch pool ws =
     (if pool = [] then []
      else map (\<lambda>w. (wl_address w, wallet_placement w (round_eligible ck fetch pool ws w) None True)) (filter wl_running ws))"

section \<open>Manual placement\<close>

definition place_all_orders :: "clock \<Rightarrow> market list \<Rightarrow> wallet list \<Rightarrow> (string \<times> flow \<times> round_state) list" where
  "place_all_orders ck pool ws =
     (if pool = [] then []
      else map (\<lambda>w. (wl_address w, wallet_placement w
          (by_competition (filter_for_template ck (vn_cooldown (wl_venue w)) (wl_criteria w) pool)) None True))
        (filter wl_running ws))"

datatype test_result = Scan_first | No_wallet | Test_failed | Submitted round_state

text \<open>\<open>test_place_orders\<close>: up to three buys on the first enabled wallet; \<open>api\<close> says whether a client can be
built when the wallet has no running worker.\<close>

definition test_place_orders :: "clock \<Rightarrow> market list \<Rightarrow> wallet list \<Rightarrow> bool \<Rightarrow> test_result" where
  "test_place_orders ck pool ws api =
     (if pool = [] then Scan_first
      else case find wl_enabled ws of
        None \<Rightarrow> No_wallet
      | Some w \<Rightarrow>
          if \<not> wl_running w \<and> \<not> api then Test_failed
          else
            let (f, r) = wallet_placement w
              (by_competition (filter_for_template ck (vn_cooldown (wl_venue w)) (wl_criteria w) pool)) (Some 3) False
            in if f = Crash then Test_failed else Submitted r)"

section \<open>Reward write-back\<close>

definition update_market_reward :: "string \<Rightarrow> rat \<Rightarrow> market list \<Rightarrow> market list" where
  "update_market_reward cid reward pool =
     map (\<lambda>m. if mk_cid m = cid then m\<lparr>mk_reward := Some reward\<rparr> else m) pool"

section \<open>Refreshing only what is needed\<close>

lemma batch_rate_books [simp]: "batch_rate (m\<lparr>mk_books := b\<rparr>) = batch_rate m"
  by (simp add: batch_rate_def)

lemma prefilter_books [simp]: "prefilter ck cooling c (m\<lparr>mk_books := b\<rparr>) = prefilter ck cooling c m"
  by (simp add: prefilter_def in_window_def too_new_def tokens_in_price_band_def cong: option.case_cong)

lemma first_per_cid_find:
  "mk_cid m \<notin> seen \<Longrightarrow> find (\<lambda>n. mk_cid n = mk_cid m) (first_per_cid seen ms) = find (\<lambda>n. mk_cid n = mk_cid m) ms"
  by (induction ms arbitrary: seen) auto

lemma find_unique:
  "distinct (map mk_cid pool) \<Longrightarrow> set ms \<subseteq> set pool \<Longrightarrow> m \<in> set ms \<Longrightarrow> find (\<lambda>n. mk_cid n = mk_cid m) ms = Some m"
proof (induction ms)
  case (Cons x ms)
  then show ?case by (auto simp: distinct_map inj_on_def)
qed simp

lemma find_map_same:
  "(\<And>x. k (f x) = k x) \<Longrightarrow> find (\<lambda>n. k n = c) (map f xs) = map_option f (find (\<lambda>n. k n = c) xs)"
  by (induction xs) auto

text \<open>An answer that tells of every token asked for what \<open>quotes\<close> says.\<close>

definition answers_tokens :: "(string set \<Rightarrow> (string \<Rightarrow> quote_book option) option) \<Rightarrow> (string \<Rightarrow> quote_book option) \<Rightarrow> bool" where
  "answers_tokens fetch quotes \<longleftrightarrow> (\<forall>S. fetch S = Some (\<lambda>t. if t \<in> S then quotes t else None))"

lemma build_restricted:
  assumes "m \<in> set pool"
  shows "build_orderbooks m (\<lambda>t. if t \<in> pool_tokens pool then quotes t else None) = build_orderbooks m quotes"
  using assms by (auto simp: build_orderbooks_def pool_tokens_def fun_eq_iff)

lemma refresh_answered:
  assumes "answers_tokens fetch quotes"
  shows "refresh_orderbooks fetch pool = map (\<lambda>m. m\<lparr>mk_books := build_orderbooks m quotes\<rparr>) pool"
proof -
  have "fetch (pool_tokens pool) = Some (\<lambda>t. if t \<in> pool_tokens pool then quotes t else None)"
    using assms by (simp add: answers_tokens_def)
  then have "refresh_orderbooks fetch pool =
      map (\<lambda>m. m\<lparr>mk_books := build_orderbooks m (\<lambda>t. if t \<in> pool_tokens pool then quotes t else None)\<rparr>) pool"
    unfolding refresh_orderbooks_def by simp
  then show ?thesis by (simp add: build_restricted cong: map_cong)
qed

lemma refreshed_survivor:
  assumes "answers_tokens fetch quotes" "distinct (map mk_cid pool)" "w \<in> set ws" "wl_running w" "m \<in> set (wallet_prefilter ck pool w)"
  shows "refreshed (refresh_orderbooks fetch (needed_markets ck pool ws)) m = m\<lparr>mk_books := build_orderbooks m quotes\<rparr>"
proof -
  let ?all = "concat (map (wallet_prefilter ck pool) (filter wl_running ws))"
  have "set ?all \<subseteq> set pool" by (auto simp: wallet_prefilter_def prefilter_for_template_def)
  moreover have "m \<in> set ?all" using assms(3-5) by auto
  ultimately have "find (\<lambda>n. mk_cid n = mk_cid m) ?all = Some m" using find_unique [OF assms(2)] by blast
  then have "find (\<lambda>n. mk_cid n = mk_cid m) (needed_markets ck pool ws) = Some m"
    by (simp add: needed_markets_def first_per_cid_find)
  then show ?thesis
    by (simp add: refreshed_def refresh_answered [OF assms(1)] find_map_same)
qed

lemma round_eligible_eq:
  assumes "answers_tokens fetch quotes" "distinct (map mk_cid pool)" "w \<in> set ws" "wl_running w"
  shows "round_eligible ck fetch pool ws w =
    by_competition (concat (map (\<lambda>m. book_eligible (wl_criteria w) (m\<lparr>mk_books := build_orderbooks m quotes\<rparr>)) (wallet_prefilter ck pool w)))"
proof -
  have eq: "map (\<lambda>m. book_eligible (wl_criteria w) (refreshed (refresh_orderbooks fetch (needed_markets ck pool ws)) m))
      (wallet_prefilter ck pool w) =
    map (\<lambda>m. book_eligible (wl_criteria w) (m\<lparr>mk_books := build_orderbooks m quotes\<rparr>)) (wallet_prefilter ck pool w)"
    using refreshed_survivor [OF assms] by (intro map_cong refl) simp
  show ?thesis unfolding round_eligible_def Let_def eq ..
qed

text \<open>C36: the fast round, which refreshes only the books of the markets that pass the filters without books, hands each
running wallet exactly the eligible list it would get if every book of the pool were
refreshed first and the whole template filter were run on it.\<close>

theorem place_round_is_full_filter:
  assumes "answers_tokens fetch quotes" "distinct (map mk_cid pool)" "w \<in> set ws" "wl_running w"
  shows "round_eligible ck fetch pool ws w =
    by_competition (filter_for_template ck (vn_cooldown (wl_venue w)) (wl_criteria w) (refresh_orderbooks fetch pool))"
  unfolding round_eligible_eq [OF assms] filter_for_template_def prefilter_for_template_def wallet_prefilter_def
    refresh_answered [OF assms(1)] by (simp add: filter_map comp_def)

section \<open>Templates with the same key\<close>

text \<open>What discovery reads of a template.\<close>

definition signature_of :: "criteria \<Rightarrow> (string set \<times> bool \<times> rat \<times> rat option \<times> rat option) \<times> int set \<times> bool \<times> jnum \<times> string set \<times> bool" where
  "signature_of c =
     ((set (cr_included c), cr_other c, cr_min_reward c, cr_min_days c, cr_max_days c), cr_sizes c, cr_skip_new c,
      cr_hours c, set (cr_skip_cats c), cr_skip_other c)"

lemma key_signature: "criteria_key c = criteria_key d \<Longrightarrow> signature_of c = signature_of d"
  unfolding criteria_key_def signature_of_def by (auto dest: mset_eq_setD)

lemma put_template_signatures:
  "signature_of ` set (put_template c cs) = insert (signature_of c) (signature_of ` set cs)"
  by (induction cs) (auto dest: key_signature)

lemma fold_put_signatures:
  "signature_of ` set (fold put_template cs acc) = signature_of ` set cs \<union> signature_of ` set acc"
proof (induction cs arbitrary: acc)
  case (Cons c cs)
  show ?case using Cons.IH [of "put_template c acc"] put_template_signatures [of c acc] by auto
qed simp

text \<open>A function of the templates that only looks at the set of images under a function of the signature.\<close>

lemma image_same:
  assumes "signature_of ` set cs = signature_of ` set ds" "\<And>c d. signature_of c = signature_of d \<Longrightarrow> g c = g d"
  shows "g ` set cs = g ` set ds"
proof -
  have "g ` set cs \<subseteq> g ` set ds" if s: "signature_of ` set cs = signature_of ` set ds" for cs ds :: "criteria list"
  proof
    fix x assume "x \<in> g ` set cs"
    then obtain c where c: "c \<in> set cs" "x = g c" by blast
    have "signature_of c \<in> signature_of ` set ds" unfolding s [symmetric] using c(1) by (rule imageI)
    then obtain d where d: "signature_of c = signature_of d" "d \<in> set ds" by (rule imageE)
    from assms(2) [OF d(1)] c d(2) show "x \<in> g ` set ds" by simp
  qed
  from this [OF assms(1)] this [OF assms(1) [symmetric]] show ?thesis by blast
qed

lemma loosest_hours_iff:
  "loosest_hours crs tags = (if list_all (\<lambda>c. cr_skip_new c \<and> protects c tags) crs then Some (map new_market_hours crs) else None)"
  by (induction crs) auto

lemma discovery_signature:
  assumes "signature_of ` set cs = signature_of ` set ds"
  shows "included_union cs = included_union ds" "any_include_other cs = any_include_other ds"
    "min_floor cs = min_floor ds" "should_price ck cs m = should_price ck ds m"
    "loosest_new_market_hours cs tags = loosest_new_market_hours ds tags"
proof -
  note im = image_same [OF assms]
  show "included_union cs = included_union ds"
    using im [of "\<lambda>c. set (cr_included c)"] by (simp add: included_union_def signature_of_def)
  show "any_include_other cs = any_include_other ds"
    using im [of cr_other] by (auto simp: any_include_other_def list_ex_iff signature_of_def image_iff; metis)
  have empty: "cs = [] \<longleftrightarrow> ds = []" using assms by auto
  have min: "(case map g cs of [] \<Rightarrow> 0 | r # rs \<Rightarrow> Min (set (r # rs))) = (case map g ds of [] \<Rightarrow> 0 | r # rs \<Rightarrow> Min (set (r # rs)))"
    if "g ` set cs = g ` set ds" for g :: "criteria \<Rightarrow> rat"
    using that empty by (cases cs; cases ds) (auto simp del: Min_insert)
  show "min_floor cs = min_floor ds" unfolding min_floor_def
    by (rule min, rule im) (simp add: signature_of_def)
  have "cr_sizes ` set cs = cr_sizes ` set ds" by (rule im) (simp add: signature_of_def)
  moreover have "in_window ck m ` set cs = in_window ck m ` set ds"
    by (rule im) (simp add: signature_of_def in_window_def split: option.split)
  then have "list_ex (in_window ck m) cs = list_ex (in_window ck m) ds" by (auto simp: list_ex_iff image_iff; metis)
  ultimately show "should_price ck cs m = should_price ck ds m" by (simp add: should_price_def)
  have "(\<lambda>c. cr_skip_new c \<and> protects c tags) ` set cs = (\<lambda>c. cr_skip_new c \<and> protects c tags) ` set ds"
    by (rule im) (simp add: signature_of_def protects_def)
  then have all: "list_all (\<lambda>c. cr_skip_new c \<and> protects c tags) cs = list_all (\<lambda>c. cr_skip_new c \<and> protects c tags) ds"
    by (auto simp: list_all_iff image_iff; metis)
  have "new_market_hours ` set cs = new_market_hours ` set ds"
    by (rule im) (simp add: signature_of_def new_market_hours_def)
  from min [OF this] show "loosest_new_market_hours cs tags = loosest_new_market_hours ds tags"
    unfolding loosest_new_market_hours_def loosest_hours_iff all by simp
qed

text \<open>Keeping one template per key does not change discovery: the candidate pool, its rewards and the way the
run ends are those of a discovery over the templates of all enabled wallets.\<close>

theorem active_templates_suffice:
  assumes "filter wl_enabled ws \<noteq> []"
  shows "discover_candidates fd catalog (active_templates ws fallback) cancel =
    discover_candidates fd catalog (map wl_criteria (filter wl_enabled ws)) cancel"
proof -
  let ?all = "map wl_criteria (filter wl_enabled ws)"
  have s: "signature_of ` set (fold put_template ?all []) = signature_of ` set ?all"
    using fold_put_signatures [of ?all "[]"] by simp
  then have "fold put_template ?all [] \<noteq> []" using assms by auto
  then have "active_templates ws fallback = fold put_template ?all []"
    by (simp add: active_templates_def split: list.split)
  with s have sig: "signature_of ` set (active_templates ws fallback) = signature_of ` set ?all" by simp
  show ?thesis
    unfolding discover_candidates_def discovered_def tagged_pool_def needed_slugs_def discovery_signature [OF sig] ..
qed

section \<open>What a round can buy\<close>

lemma eligible_tokenD:
  assumes "eligible_token c m t = Some el"
  shows "en_market el = mk_cid m \<and> en_token el = tk_id t \<and> en_min_size el = mk_min_size m \<and> in_band c t"
  using assms by (auto simp: eligible_token_def Let_def split_beta split: if_splits option.splits list.splits)

lemma truncate_simps [simp]:
  "en_market (entry.truncate el) = en_market el" "en_token (entry.truncate el) = en_token el"
  "en_min_size (entry.truncate el) = en_min_size el"
  by (simp_all add: entry.truncate_def)

text \<open>A survivor is refreshed in its books only.\<close>

lemma refreshed_shape:
  assumes "distinct (map mk_cid pool)" "w \<in> set ws" "wl_running w" "m \<in> set (wallet_prefilter ck pool w)"
  shows "\<exists>b. refreshed (refresh_orderbooks fetch (needed_markets ck pool ws)) m = m\<lparr>mk_books := b\<rparr>"
proof -
  let ?all = "concat (map (wallet_prefilter ck pool) (filter wl_running ws))"
  have "set ?all \<subseteq> set pool" by (auto simp: wallet_prefilter_def prefilter_for_template_def)
  moreover have "m \<in> set ?all" using assms(2-4) by auto
  ultimately have "find (\<lambda>n. mk_cid n = mk_cid m) ?all = Some m" using find_unique [OF assms(1)] by blast
  then have "find (\<lambda>n. mk_cid n = mk_cid m) (needed_markets ck pool ws) = Some m"
    by (simp add: needed_markets_def first_per_cid_find)
  then show ?thesis by (auto simp: refreshed_def refresh_orderbooks_def Let_def find_map_same)
qed

text \<open>A buy of a placement comes from an entry of its list.\<close>

lemma bought_from_entry:
  assumes "wallet_placement w es cap cd = (f, r)" "(mid, token, p, n) \<in> set (bought (rd_log r))"
  shows "\<exists>el \<in> set es. en_market el = mid \<and> en_token el = token \<and> en_min_size el \<le> n"
proof -
  let ?v = "wl_venue w" and ?es = "map entry.truncate es"
  have run: "place_orders ?v (wl_template w) ?es cap cd (wl_skips w) = (f, r)" using assms(1) by (simp add: wallet_placement_def)
  obtain orders ps where v: "vn_orders ?v = Some orders" "vn_positions ?v = Some ps"
    using run assms(2) by (cases "vn_orders ?v"; cases "vn_positions ?v") (auto simp: place_orders_def Let_def)
  obtain helds val shares where hold: "held_side_info ps = (helds, val, shares)" using prod_cases3 by blast
  have "(mid, token, p, n) \<in> set (of_market mid (bought (rd_log r)))" using assms(2) by (simp add: of_market_def)
  with place_orders_sound(1) [OF run v] obtain sd where sd: "(token, sd) \<in> set (sides_of ?v ?es mid)" "fits_side sd p n"
    unfolding sound_buys_def by blast
  from sd(1) obtain el where e: "el \<in> set es" "en_market el = mid" "build_side ?v (entry.truncate el) = Some (token, sd)"
    by (auto simp: map_filter_def)
  from e(3) have "en_token el = token" "sd_min_size sd = of_int (en_min_size el)"
    by (auto simp: build_side_def Let_def split_beta split: option.splits list.splits)
  with e sd(2) show ?thesis by (auto simp: fits_side_def)
qed

lemma place_round_buy:
  assumes "distinct (map mk_cid pool)" "(addr, f, r) \<in> set (place_round ck fetch pool ws)"
    "(mid, token, p, n) \<in> set (bought (rd_log r))"
  shows "\<exists>w m t el. w \<in> set ws \<and> wl_running w \<and> wl_address w = addr \<and> m \<in> set (wallet_prefilter ck pool w) \<and> mk_cid m = mid \<and>
    t \<in> set (mk_tokens m) \<and> tk_id t = token \<and> mk_min_size m \<le> n \<and>
    eligible_token (wl_criteria w) (refreshed (refresh_orderbooks fetch (needed_markets ck pool ws)) m) t = Some el"
proof -
  from assms(2) obtain w where w: "w \<in> set ws" "wl_running w" "wl_address w = addr"
    "wallet_placement w (round_eligible ck fetch pool ws w) None True = (f, r)"
    by (auto simp: place_round_def split: if_splits)
  from bought_from_entry [OF w(4) assms(3)] obtain el where el: "el \<in> set (round_eligible ck fetch pool ws w)"
    "en_market el = mid" "en_token el = token" "en_min_size el \<le> n" by blast
  then obtain m where m: "m \<in> set (wallet_prefilter ck pool w)"
    "el \<in> set (book_eligible (wl_criteria w) (refreshed (refresh_orderbooks fetch (needed_markets ck pool ws)) m))"
    by (auto simp: round_eligible_def by_competition_def Let_def)
  from refreshed_shape [OF assms(1) w(1,2) m(1)] obtain b where
    s: "refreshed (refresh_orderbooks fetch (needed_markets ck pool ws)) m = m\<lparr>mk_books := b\<rparr>" by blast
  with m(2) obtain t where t: "t \<in> set (mk_tokens m)" "eligible_token (wl_criteria w) (m\<lparr>mk_books := b\<rparr>) t = Some el"
    by (auto simp: book_eligible_def map_filter_def)
  have "en_market el = mk_cid m" "en_token el = tk_id t" "en_min_size el = mk_min_size m"
    using eligible_tokenD [OF t(2)] by simp_all
  with t el w m(1) s show ?thesis
    by (intro exI [of _ w] exI [of _ m] exI [of _ t] exI [of _ el]) simp
qed

text \<open>The book the round read for a token, its best bid and its width.\<close>

definition round_book :: "clock \<Rightarrow> (string set \<Rightarrow> (string \<Rightarrow> quote_book option) option) \<Rightarrow> market list \<Rightarrow> wallet list \<Rightarrow>
    market \<Rightarrow> token \<Rightarrow> snapshot option" where
  "round_book ck fetch pool ws m t = mk_books (refreshed (refresh_orderbooks fetch (needed_markets ck pool ws)) m) (tk_id t)"

lemma round_book_spread: "m \<in> set (wallet_prefilter ck pool w) \<Longrightarrow> distinct (map mk_cid pool) \<Longrightarrow> w \<in> set ws \<Longrightarrow> wl_running w \<Longrightarrow>
   round_book ck fetch pool ws m t = Some b \<Longrightarrow> sn_spread b = book_spread (bk_bids b) (bk_asks b)"
proof -
  assume a: "m \<in> set (wallet_prefilter ck pool w)" "distinct (map mk_cid pool)" "w \<in> set ws" "wl_running w"
    "round_book ck fetch pool ws m t = Some b"
  let ?all = "concat (map (wallet_prefilter ck pool) (filter wl_running ws))"
  have "set ?all \<subseteq> set pool" by (auto simp: wallet_prefilter_def prefilter_for_template_def)
  moreover have "m \<in> set ?all" using a by auto
  ultimately have "find (\<lambda>n. mk_cid n = mk_cid m) ?all = Some m" using find_unique [OF a(2)] by blast
  then have "find (\<lambda>n. mk_cid n = mk_cid m) (needed_markets ck pool ws) = Some m"
    by (simp add: needed_markets_def first_per_cid_find)
  with a(5) show ?thesis
    by (auto simp: round_book_def refreshed_def refresh_orderbooks_def Let_def find_map_same build_orderbooks_def split: if_splits)
qed

lemma eligible_token_book:
  assumes "eligible_token c m t = Some el"
  shows "\<exists>b. mk_books m (tk_id t) = Some b \<and> 0 \<le> sn_spread b \<and> sn_spread b * 100 < cr_max_spread c \<and> bk_bids b \<noteq> [] \<and> bk_asks b \<noteq> [] \<and>
    cr_min_price c \<le> Max (lv_price ` set (bk_bids b)) * 100 \<and> Max (lv_price ` set (bk_bids b)) * 100 \<le> cr_max_price c"
proof -
  from assms obtain b bid bids ask asks where b: "mk_books m (tk_id t) = Some b" "\<not> sn_spread b < 0" "\<not> cr_max_spread c \<le> sn_spread b * 100"
    "sort_desc lv_price (bk_bids b) = bid # bids" "sort_key lv_price (bk_asks b) = ask # asks"
    "\<not> lv_price bid * 100 < cr_min_price c" "\<not> cr_max_price c < lv_price bid * 100"
    by (auto simp: eligible_token_def Let_def split_beta split: if_splits option.splits list.splits)
  have s: "set (bk_bids b) = set (bid # bids)" using b(4) by (metis set_sort_desc)
  have "lv_price l \<le> lv_price bid" if "l \<in> set (bk_bids b)" for l
    using that sorted_sort_desc [of lv_price "bk_bids b"] unfolding s b(4) by (auto simp: sorted_wrt_append)
  then have "Max (lv_price ` set (bk_bids b)) = lv_price bid" unfolding s by (intro Max_eqI) auto
  moreover have "bk_asks b \<noteq> []" using b(5) by auto
  moreover have "bk_bids b \<noteq> []" using s by auto
  ultimately show ?thesis using b by (intro exI [of _ b]) simp
qed

text \<open>C15: Whatever a fast round buys passed every threshold of the wallet's own template: the market is in the pool, its category
  is wanted, both its batch and its found reward reach the minimum, its settlement lies in the window, it is not too new where
  the template protects against new markets, its size has an enabled module, the wallet is not cooling
  down there, the token's price lies in the band, and the book read in this very round has both sides, a spread below the
  largest one and its best bid in the band; and the order has the minimal size.\<close>

theorem round_buys_pass_the_filters:
  assumes "distinct (map mk_cid pool)" "(addr, f, r) \<in> set (place_round ck fetch pool ws)"
    "(mid, token, p, n) \<in> set (bought (rd_log r))"
  shows "\<exists>w m t b. w \<in> set ws \<and> wl_running w \<and> wl_address w = addr \<and> m \<in> set pool \<and> mk_cid m = mid \<and>
    market_wanted (mk_tags m) (set (cr_included (wl_criteria w))) (cr_other (wl_criteria w)) \<and>
    cr_min_reward (wl_criteria w) \<le> batch_rate m \<and>
    cr_min_reward (wl_criteria w) \<le> (case mk_reward m of None \<Rightarrow> batch_rate m | Some x \<Rightarrow> x) \<and>
    in_window ck m (wl_criteria w) \<and>
    (cr_skip_new (wl_criteria w) \<and> protects (wl_criteria w) (mk_tags m) \<and> new_market_hours (wl_criteria w) \<noteq> 0 \<longrightarrow>
      \<not> too_new ck m (new_market_hours (wl_criteria w))) \<and>
    mk_min_size m \<in> cr_sizes (wl_criteria w) \<and> \<not> vn_cooldown (wl_venue w) mid \<and>
    t \<in> set (mk_tokens m) \<and> tk_id t = token \<and> in_band (wl_criteria w) t \<and>
    round_book ck fetch pool ws m t = Some b \<and> bk_bids b \<noteq> [] \<and> bk_asks b \<noteq> [] \<and>
    book_spread (bk_bids b) (bk_asks b) * 100 < cr_max_spread (wl_criteria w) \<and>
    cr_min_price (wl_criteria w) \<le> Max (lv_price ` set (bk_bids b)) * 100 \<and>
    Max (lv_price ` set (bk_bids b)) * 100 \<le> cr_max_price (wl_criteria w) \<and>
    mk_min_size m \<le> n"
proof -
  from place_round_buy [OF assms] obtain w m t el where w: "w \<in> set ws" "wl_running w" "wl_address w = addr"
    "m \<in> set (wallet_prefilter ck pool w)" "mk_cid m = mid" "t \<in> set (mk_tokens m)" "tk_id t = token" "mk_min_size m \<le> n"
    "eligible_token (wl_criteria w) (refreshed (refresh_orderbooks fetch (needed_markets ck pool ws)) m) t = Some el"
    by blast
  from w(4) have m: "m \<in> set pool" "prefilter ck (vn_cooldown (wl_venue w)) (wl_criteria w) m"
    by (auto simp: wallet_prefilter_def prefilter_for_template_def)
  from eligible_token_book [OF w(9)] obtain b where b: "round_book ck fetch pool ws m t = Some b"
    "sn_spread b * 100 < cr_max_spread (wl_criteria w)" "bk_bids b \<noteq> []" "bk_asks b \<noteq> []"
    "cr_min_price (wl_criteria w) \<le> Max (lv_price ` set (bk_bids b)) * 100"
    "Max (lv_price ` set (bk_bids b)) * 100 \<le> cr_max_price (wl_criteria w)"
    unfolding round_book_def by blast
  have "in_band (wl_criteria w) t" using eligible_tokenD [OF w(9)] by blast
  moreover note round_book_spread [OF w(4) assms(1) w(1,2) b(1)]
  ultimately show ?thesis
    using m(2) b w(1-3,5-8) m(1) unfolding prefilter_def not_less de_Morgan_disj
    by (intro exI [of _ w] exI [of _ m] exI [of _ t] exI [of _ b]) auto
qed

text \<open>No quarrel between the monitor and the placement: once the compliance check has found the reward of a market
below the minimum and the manager has written it into the pool, no round on that pool buys
in this market for a wallet with that minimum.\<close>

theorem low_reward_is_not_bought_again:
  assumes "reward_low (Some reward) pl" "\<And>w. w \<in> set ws \<Longrightarrow> wl_address w = addr \<Longrightarrow> pl_min_reward pl = Some (cr_min_reward (wl_criteria w))"
    and "distinct (map mk_cid pool)" "(addr, f, r) \<in> set (place_round ck fetch (update_market_reward cid reward pool) ws)"
  shows "of_market cid (bought (rd_log r)) = []"
proof (rule ccontr)
  assume "of_market cid (bought (rd_log r)) \<noteq> []"
  then obtain b where b: "b \<in> set (of_market cid (bought (rd_log r)))" by (meson list.set_sel(1))
  obtain m' token p n where "b = (m', token, p, n)" by (cases b)
  with b have buy: "(cid, token, p, n) \<in> set (bought (rd_log r))" by (auto simp: of_market_def)
  have "map mk_cid (update_market_reward cid reward pool) = map mk_cid pool" by (simp add: update_market_reward_def)
  then have d: "distinct (map mk_cid (update_market_reward cid reward pool))" using assms(3) by simp
  from place_round_buy [OF d assms(4) buy] obtain w m where w: "w \<in> set ws" "wl_address w = addr"
    "m \<in> set (update_market_reward cid reward pool)" "mk_cid m = cid"
    "prefilter ck (vn_cooldown (wl_venue w)) (wl_criteria w) m"
    by (auto simp: wallet_prefilter_def prefilter_for_template_def)
  from w(3) obtain m1 where m1: "m = (if mk_cid m1 = cid then m1\<lparr>mk_reward := Some reward\<rparr> else m1)"
    unfolding update_market_reward_def set_map by (rule imageE)
  have "mk_reward m = Some reward"
  proof (cases "mk_cid m1 = cid")
    case False
    with m1 w(4) show ?thesis by simp
  qed (simp add: m1)
  with w(5) have "cr_min_reward (wl_criteria w) \<le> reward" by (simp add: prefilter_def)
  with assms(1) assms(2) [OF w(1,2)] show False by (simp add: reward_low_def)
qed

section \<open>At the edge of the configured cents\<close>

text \<open>A market whose best bid is just at the lowest price the template allows is eligible; the gap engine prices below the
  best bid; and the compliance check cancels the order it just placed, in every round anew.\<close>

definition edge_criteria :: criteria where
  "edge_criteria = \<lparr>cr_included = [''ai''], cr_other = False, cr_min_reward = 100, cr_min_price = 40, cr_max_price = 50,
     cr_max_spread = 5, cr_min_days = Some 4, cr_max_days = None, cr_sizes = {20}, cr_skip_new = True, cr_hours = JNum 24,
     cr_skip_cats = [''ai''], cr_skip_other = False\<rparr>"

definition edge_policy :: policy where
  "edge_policy = demo_policy\<lparr>pl_min_price := Some (cr_min_price edge_criteria)\<rparr>"

definition edge_market :: market where
  "edge_market = demo_market\<lparr>mk_max_spread := 7/2, mk_books := (\<lambda>_. Some \<lparr>bk_bids = demo_bids, bk_asks = bk_asks demo_book,
     sn_tick = 1/100, sn_spread = 3/100\<rparr>)\<rparr>"

lemma edge_order_is_cancelled:
  "(\<exists>el. eligible_token edge_criteria edge_market \<lparr>tk_id = ''y'', tk_price = Some (2/5)\<rparr> = Some el \<and> el_rmin el = 19/50 \<and> el_rmax el = 9/20) \<and>
   plan_gap_single_order demo_cfg demo_bids (19/50) (9/20) 50 = Some (39/100, 50) \<and>
   check_compliance (\<lambda>_. True) {} edge_policy (\<lambda>_. Some demo_book) (\<lambda>_. Some (Some (7/2), None)) (demo_buy\<lparr>o_price := Some (39/100)\<rparr>) =
     cancel_and_record (\<lambda>_. True) (demo_buy\<lparr>o_price := Some (39/100)\<rparr>) A_price_band []"
proof (intro conjI)
  show "\<exists>el. eligible_token edge_criteria edge_market \<lparr>tk_id = ''y'', tk_price = Some (2/5)\<rparr> = Some el \<and> el_rmin el = 19/50 \<and> el_rmax el = 9/20"
    by (simp add: eligible_token_def edge_criteria_def edge_market_def in_band_def price_cents_def demo_bids_def demo_book_def
      sort_desc_def reward_price_range_def)
  show "plan_gap_single_order demo_cfg demo_bids (19/50) (9/20) 50 = Some (39/100, 50)"
    by (rule demo_plan(1)) simp
  show "check_compliance (\<lambda>_. True) {} edge_policy (\<lambda>_. Some demo_book) (\<lambda>_. Some (Some (7/2), None)) (demo_buy\<lparr>o_price := Some (39/100)\<rparr>) =
     cancel_and_record (\<lambda>_. True) (demo_buy\<lparr>o_price := Some (39/100)\<rparr>) A_price_band []"
    using demo_prices
    by (simp add: check_compliance_def blacklist_stage_def spread_stage_def reward_stage_def band_stage_def band_verdict_def
      edge_policy_def edge_criteria_def demo_policy_def demo_buy_def recheck_resting_buy_def reward_low_def price_band_hit_def
      reward_price_range_def)
qed

section \<open>A round of one wallet\<close>

definition demo_wallet :: wallet where
  "demo_wallet = \<lparr>wl_address = ''w'', wl_enabled = True, wl_running = True, wl_criteria = demo_criteria,
     wl_template = demo_template, wl_venue = demo_venue, wl_skips = Map.empty\<rparr>"

definition demo_pool :: "market list" where
  "demo_pool = [finalize 130 (demo_market\<lparr>mk_tags := [''ai'']\<rparr>)]"

definition demo_fetch :: "string set \<Rightarrow> (string \<Rightarrow> quote_book option) option" where
  "demo_fetch S = Some (\<lambda>t. if t \<in> S then Some demo_quotes else None)"

lemma demo_answers: "answers_tokens demo_fetch (\<lambda>_. Some demo_quotes)"
  by (simp add: answers_tokens_def demo_fetch_def)

lemma demo_distinct: "distinct (map mk_cid demo_pool)"
  by (simp add: demo_pool_def)

lemma demo_survives: "wallet_prefilter (fd_clock demo_feed) demo_pool demo_wallet = demo_pool"
  by (simp add: wallet_prefilter_def prefilter_for_template_def demo_pool_def demo_wallet_def demo_venue_def demo_prefilter)

lemma demo_eligible:
  "\<exists>el. round_eligible (fd_clock demo_feed) demo_fetch demo_pool [demo_wallet] demo_wallet = [el] \<and>
     entry.truncate el = \<lparr>en_market = ''m'', en_token = ''y'', en_spread = 3, en_min_size = 20\<rparr>"
proof -
  have "wl_running demo_wallet" "wl_criteria demo_wallet = demo_criteria" by (simp_all add: demo_wallet_def)
  then show ?thesis
    by (simp add: round_eligible_eq [OF demo_answers demo_distinct] demo_survives)
      (simp add: demo_pool_def finalize_def demo_market_def book_eligible_def map_filter_simps eligible_token_def in_band_def
        price_cents_def demo_criteria_def build_orderbooks_def demo_quotes_def book_spread_def round_to_def py_round_def
        sort_desc_def reward_price_range_def by_competition_def entry.truncate_def)
qed

lemma demo_single_round:
  "\<exists>f r. place_round (fd_clock demo_feed) demo_fetch demo_pool [demo_wallet] = [(''w'', f, r)] \<and>
     bought (rd_log r) = [(''m'', ''y'', 2/5, 32)]"
proof -
  obtain el where el: "round_eligible (fd_clock demo_feed) demo_fetch demo_pool [demo_wallet] demo_wallet = [el]"
    "entry.truncate el = \<lparr>en_market = ''m'', en_token = ''y'', en_spread = 3, en_min_size = 20\<rparr>"
    using demo_eligible by blast
  have "[entry.truncate el] = [hd demo_entries]" by (simp add: el demo_entries_def)
  then obtain r where r: "place_orders demo_venue demo_template [entry.truncate el] None True Map.empty = (Go, r)"
    "bought (rd_log r) = [(''m'', ''y'', 2/5, 32)]" using demo_round_of [of _ None None] by metis
  have w: "wl_running demo_wallet" "wl_address demo_wallet = ''w''" "wl_venue demo_wallet = demo_venue"
    "wl_template demo_wallet = demo_template" "wl_skips demo_wallet = Map.empty" by (simp_all add: demo_wallet_def)
  have "demo_pool \<noteq> []" by (simp add: demo_pool_def)
  then show ?thesis using r by (simp add: place_round_def w el(1) wallet_placement_def)
qed

lemma full_filter_witness:
  "round_eligible (fd_clock demo_feed) demo_fetch demo_pool [demo_wallet] demo_wallet =
     by_competition (filter_for_template (fd_clock demo_feed) (vn_cooldown demo_venue) demo_criteria (refresh_orderbooks demo_fetch demo_pool))"
  using place_round_is_full_filter [OF demo_answers demo_distinct, of demo_wallet "[demo_wallet]" "fd_clock demo_feed"]
  by (simp add: demo_wallet_def)

lemma round_buys_witness:
  "\<exists>f r (b :: snapshot). place_round (fd_clock demo_feed) demo_fetch demo_pool [demo_wallet] = [(''w'', f, r)] \<and>
     bought (rd_log r) = [(''m'', ''y'', 2/5, 32)] \<and> \<not> vn_cooldown demo_venue ''m'' \<and>
     book_spread (bk_bids b) (bk_asks b) * 100 < cr_max_spread demo_criteria"
proof -
  obtain f and r :: round_state where r: "place_round (fd_clock demo_feed) demo_fetch demo_pool [demo_wallet] = [(''w'', f, r)]"
    "bought (rd_log r) = [(''m'', ''y'', 2/5, 32)]" using demo_single_round by blast
  have "(''w'', f, r) \<in> set (place_round (fd_clock demo_feed) demo_fetch demo_pool [demo_wallet])" by (simp add: r)
  moreover have "(''m'', ''y'', 2/5, 32) \<in> set (bought (rd_log r))" by (simp add: r)
  ultimately obtain w m t b where "w \<in> set [demo_wallet]" "\<not> vn_cooldown (wl_venue w) ''m''"
    "round_book (fd_clock demo_feed) demo_fetch demo_pool [demo_wallet] m t = Some b"
    "book_spread (bk_bids b) (bk_asks b) * 100 < cr_max_spread (wl_criteria w)"
    using round_buys_pass_the_filters [OF demo_distinct, of "''w''" f r "fd_clock demo_feed" demo_fetch "[demo_wallet]" "''m''" "''y''" "2/5" 32]
    by meson
  with r show ?thesis by (intro exI [of _ f] exI [of _ r] exI [of _ b]) (simp add: demo_wallet_def)
qed

lemma low_reward_witness:
  "\<exists>f r. place_round (fd_clock demo_feed) demo_fetch (update_market_reward ''m'' 90 demo_pool) [demo_wallet] = [(''w'', f, r)] \<and>
     of_market ''m'' (bought (rd_log r)) = []"
proof -
  let ?pl = "demo_policy\<lparr>pl_min_reward := Some 100\<rparr>"
  obtain f r where r: "place_round (fd_clock demo_feed) demo_fetch (update_market_reward ''m'' 90 demo_pool) [demo_wallet] = [(''w'', f, r)]"
    by (simp add: place_round_def demo_wallet_def update_market_reward_def demo_pool_def)
      (metis surj_pair)
  have "(''w'', f, r) \<in> set (place_round (fd_clock demo_feed) demo_fetch (update_market_reward ''m'' 90 demo_pool) [demo_wallet])"
    by (simp add: r)
  moreover have "reward_low (Some 90) ?pl" by (simp add: reward_low_def)
  moreover have "pl_min_reward ?pl = Some (cr_min_reward (wl_criteria w))" if "w \<in> set [demo_wallet]" for w
    using that by (simp add: demo_wallet_def demo_criteria_def)
  ultimately have "of_market ''m'' (bought (rd_log r)) = []"
    using low_reward_is_not_bought_again [where reward = 90 and pl = ?pl and ws = "[demo_wallet]" and addr = "''w''" and cid = "''m''",
      OF _ _ demo_distinct] by blast
  with r show ?thesis by blast
qed

lemma active_templates_witness:
  "discover_candidates demo_feed [''ai''] (active_templates [demo_wallet, demo_wallet] demo_criteria) (\<lambda>_. False) =
   discover_candidates demo_feed [''ai''] [demo_criteria, demo_criteria] (\<lambda>_. False)"
  using active_templates_suffice [of "[demo_wallet, demo_wallet]" demo_feed "[''ai'']" demo_criteria "\<lambda>_. False"]
  by (simp add: demo_wallet_def)

end
