(* ===== verification/Scan_State.thy ===== *)
theory Scan_State
  imports Rounds
begin

text \<open>
  Manual and automatic scans side by side (\<open>start_scan_async\<close>, \<open>_run_scan\<close>, \<open>scan_markets\<close>,
  \<open>_scan_with_status\<close>, \<open>_should_discover\<close> in \<open>engine/manager.py\<close>). Every manual scan has a
  generation; a newer one takes over and the older one gives way at its next checkpoint. The
  state is what the threads share, with the point each scan in flight has reached. A step
  is a stretch of code of one thread between two points at which another one can be seen to
  interleave; what a scan finds, whether it fails and when it ends is up to the event. The test of
  \<open>is_current\<close> and the write it guards are one step here. The code takes no lock, so a newer scan could start
  between the two; what a write that comes that late would do is shown by the lemma \<open>late_begin_sticks\<close>.
\<close>

section \<open>State\<close>

datatype scan_status = Idle | Scanning | Done

datatype phase = Ready | Running "market list" | Saving "market list" | Closing

record coord =
  co_gen :: nat
  co_status :: scan_status
  co_pool :: "market list"
  co_last :: rat
  co_saved :: "market list"
  co_threads :: "nat \<Rightarrow> phase option"
  co_auto :: "market list option"

definition idle_coord :: "market list \<Rightarrow> coord" where
  "idle_coord pool = \<lparr>co_gen = 0, co_status = Idle, co_pool = pool, co_last = 0, co_saved = [], co_threads = Map.empty, co_auto = None\<rparr>"

datatype sevent =
    Start bool
  | No_api nat
  | Begin nat
  | Found nat market
  | Give_way nat
  | Fail nat
  | Finish nat "market list" rat
  | Save nat
  | Close nat
  | Auto_begin
  | Auto_found market
  | Auto_fail
  | Auto_finish "market list" rat

section \<open>Operations\<close>

text \<open>\<open>start_scan_async\<close>: refused, unless forced, while a scan is on.\<close>

definition start_scan :: "bool \<Rightarrow> coord \<Rightarrow> bool \<times> coord" where
  "start_scan force s =
     (if co_status s = Scanning \<and> \<not> force then (False, s)
      else (True, s\<lparr>co_gen := co_gen s + 1, co_status := Scanning, co_threads := (co_threads s)(co_gen s + 1 \<mapsto> Ready)\<rparr>))"

definition current :: "nat option \<Rightarrow> coord \<Rightarrow> bool" where
  "current g s = (case g of None \<Rightarrow> True | Some n \<Rightarrow> n = co_gen s)"

definition to_phase :: "nat \<Rightarrow> phase \<Rightarrow> coord \<Rightarrow> coord" where
  "to_phase g p s = s\<lparr>co_threads := (co_threads s)(g \<mapsto> p)\<rparr>"

text \<open>The parts of \<open>_scan_with_status\<close>.\<close>

definition begin_scan :: "nat option \<Rightarrow> coord \<Rightarrow> coord" where
  "begin_scan g s = (if current g s then s\<lparr>co_status := Scanning, co_pool := []\<rparr> else s)"

definition on_found :: "nat option \<Rightarrow> market \<Rightarrow> coord \<Rightarrow> coord" where
  "on_found g m s = (if current g s then s\<lparr>co_pool := co_pool s @ [m]\<rparr> else s)"

definition scan_failed :: "nat option \<Rightarrow> market list \<Rightarrow> coord \<Rightarrow> coord" where
  "scan_failed g prev s = (if current g s then s\<lparr>co_pool := prev, co_status := Done\<rparr> else s)"

definition scan_finished :: "nat option \<Rightarrow> market list \<Rightarrow> rat \<Rightarrow> coord \<Rightarrow> coord" where
  "scan_finished g out now s =
     (if current g s then s\<lparr>co_pool := out, co_last := now, co_status := Done\<rparr> else s)"

text \<open>The end of \<open>scan_markets\<close> and of \<open>_run_scan\<close>.\<close>

definition save_scan :: "nat \<Rightarrow> market list \<Rightarrow> coord \<Rightarrow> coord" where
  "save_scan g out s = (if current (Some g) s then s\<lparr>co_saved := out\<rparr> else s)"

definition close_scan :: "nat \<Rightarrow> coord \<Rightarrow> coord" where
  "close_scan g s =
     (let t = s\<lparr>co_threads := (co_threads s)(g := None)\<rparr>
      in if current (Some g) s \<and> co_status s = Scanning then t\<lparr>co_status := Done\<rparr> else t)"

text \<open>One step; None when the event cannot happen now.\<close>

fun scan_step :: "sevent \<Rightarrow> coord \<Rightarrow> coord option" where
  "scan_step (Start force) s = Some (snd (start_scan force s))"
| "scan_step (No_api g) s = (if co_threads s g = Some Ready then Some (to_phase g Closing s) else None)"
| "scan_step (Begin g) s =
     (if co_threads s g = Some Ready then Some (to_phase g (Running (co_pool s)) (begin_scan (Some g) s)) else None)"
| "scan_step (Found g m) s =
     (case co_threads s g of Some (Running prev) \<Rightarrow> Some (on_found (Some g) m s) | _ \<Rightarrow> None)"
| "scan_step (Give_way g) s =
     (case co_threads s g of
        Some (Running prev) \<Rightarrow> if g \<noteq> co_gen s then Some (to_phase g Closing s) else None
      | _ \<Rightarrow> None)"
| "scan_step (Fail g) s =
     (case co_threads s g of Some (Running prev) \<Rightarrow> Some (to_phase g Closing (scan_failed (Some g) prev s)) | _ \<Rightarrow> None)"
| "scan_step (Finish g out now) s =
     (case co_threads s g of Some (Running prev) \<Rightarrow> Some (to_phase g (Saving out) (scan_finished (Some g) out now s)) | _ \<Rightarrow> None)"
| "scan_step (Save g) s =
     (case co_threads s g of Some (Saving out) \<Rightarrow> Some (to_phase g Closing (save_scan g out s)) | _ \<Rightarrow> None)"
| "scan_step (Close g) s = (if co_threads s g = Some Closing then Some (close_scan g s) else None)"
| "scan_step Auto_begin s =
     (if co_auto s = None then Some ((begin_scan None s)\<lparr>co_auto := Some (co_pool s)\<rparr>) else None)"
| "scan_step (Auto_found m) s = (if co_auto s = None then None else Some (on_found None m s))"
| "scan_step Auto_fail s =
     (case co_auto s of None \<Rightarrow> None | Some prev \<Rightarrow> Some ((scan_failed None prev s)\<lparr>co_auto := None\<rparr>))"
| "scan_step (Auto_finish out now) s =
     (if co_auto s = None then None else Some ((scan_finished None out now s)\<lparr>co_auto := None\<rparr>))"

fun scan_run :: "sevent list \<Rightarrow> coord \<Rightarrow> coord option" where
  "scan_run [] s = Some s"
| "scan_run (e # es) s = (case scan_step e s of None \<Rightarrow> None | Some s' \<Rightarrow> scan_run es s')"


text \<open>\<open>_should_discover\<close>.\<close>

definition should_discover :: "rat \<Rightarrow> rat \<Rightarrow> coord \<Rightarrow> bool" where
  "should_discover interval now s = (co_pool s = [] \<or> interval \<le> now - co_last s)"

section \<open>Invariant\<close>


lemmas op_defs = start_scan_def begin_scan_def on_found_def scan_failed_def scan_finished_def save_scan_def close_scan_def
  to_phase_def current_def



lemma co_threads_ops [simp]:
  "co_threads (begin_scan h s) = co_threads s" "co_threads (on_found h m s) = co_threads s"
  "co_threads (scan_failed h prev s) = co_threads s" "co_threads (scan_finished h out now s) = co_threads s"
  "co_threads (save_scan g out s) = co_threads s" "co_threads (to_phase g p s) = (co_threads s)(g \<mapsto> p)"
  "co_threads (close_scan g s) = (co_threads s)(g := None)"
  by (simp_all add: op_defs Let_def)

lemma co_auto_ops [simp]:
  "co_auto (begin_scan h s) = co_auto s" "co_auto (on_found h m s) = co_auto s"
  "co_auto (scan_failed h prev s) = co_auto s" "co_auto (scan_finished h out now s) = co_auto s"
  "co_auto (save_scan g out s) = co_auto s" "co_auto (to_phase g p s) = co_auto s"
  "co_auto (close_scan g s) = co_auto s"
  by (simp_all add: op_defs Let_def)



section \<open>Giving way\<close>

text \<open>The manual scan an event belongs to.\<close>

fun scan_of :: "sevent \<Rightarrow> nat option" where
  "scan_of (No_api g) = Some g"
| "scan_of (Begin g) = Some g"
| "scan_of (Found g m) = Some g"
| "scan_of (Give_way g) = Some g"
| "scan_of (Fail g) = Some g"
| "scan_of (Finish g out now) = Some g"
| "scan_of (Save g) = Some g"
| "scan_of (Close g) = Some g"
| "scan_of _ = None"

definition results :: "coord \<Rightarrow> scan_status \<times> market list \<times> rat \<times> market list \<times> nat" where
  "results s = (co_status s, co_pool s, co_last s, co_saved s, co_gen s)"

definition of_older_scan :: "coord \<Rightarrow> sevent \<Rightarrow> bool" where
  "of_older_scan s e = (case scan_of e of None \<Rightarrow> False | Some g \<Rightarrow> g \<noteq> co_gen s)"

lemma older_scan_step: "scan_step e s = Some t \<Longrightarrow> of_older_scan s e \<Longrightarrow> results t = results s"
  by (cases e) (auto simp: results_def of_older_scan_def op_defs Let_def split: if_splits option.splits phase.splits)

text \<open>A scan that was taken over changes nothing that is shared any more. Whatever the scans of
  older generations still do (begin, find markets, fail, finish, save, end), the status, the pool, the
  time of the last scan, what is saved and the generation stay as they are.\<close>

theorem taken_over_scan_writes_nothing:
  "scan_run es s = Some t \<Longrightarrow> list_all (of_older_scan s) es \<Longrightarrow> results t = results s"
proof (induction es arbitrary: s)
  case (Cons e es)
  then obtain u where u: "scan_step e s = Some u" "scan_run es u = Some t"
    by (auto split: option.splits)
  then have same: "results u = results s"
    using Cons.prems by (simp add: older_scan_step)
  then have "of_older_scan u = of_older_scan s"
    by (simp add: fun_eq_iff of_older_scan_def results_def split: option.split)
  then show ?case
    using Cons u(2) same by simp
qed simp

text \<open>The window between the test and the write. The first scan passes the test; before it writes, a second one is started by
  force, runs and ends; then the first writes, gives way and ends: the status stays at "scanning" with no scan in
  flight, and the pool is gone.\<close>

definition late_begin :: "nat \<Rightarrow> coord \<Rightarrow> coord" where
  "late_begin g s = to_phase g (Running (co_pool s)) (s\<lparr>co_status := Scanning, co_pool := []\<rparr>)"

lemma late_begin_sticks:
  "\<exists>s t. scan_run [Start False, Start True, Begin 2, Finish 2 out now, Save 2, Close 2] (idle_coord pool) = Some s \<and> co_status s = Done \<and> co_pool s = out \<and>
     scan_run [Give_way 1, Close 1] (late_begin 1 s) = Some t \<and> co_status t = Scanning \<and> co_pool t = [] \<and>
     co_threads t = Map.empty \<and> co_auto t = None"
  by (simp add: late_begin_def idle_coord_def op_defs Let_def fun_eq_iff)

section \<open>Failures\<close>

lemma scan_run_append: "scan_run (es @ fs) s = (case scan_run es s of None \<Rightarrow> None | Some u \<Rightarrow> scan_run fs u)"
  by (induction es arbitrary: s) (auto split: option.splits)

lemma finding_run:
  assumes "co_threads s g = Some (Running prev)" and "g = co_gen s"
  shows "scan_run (map (Found g) ms) s = Some (s\<lparr>co_pool := co_pool s @ ms\<rparr>)"
  using assms
proof (induction ms arbitrary: s)
  case (Cons m ms)
  then show ?case
    using Cons.IH [of "s\<lparr>co_pool := co_pool s @ [m]\<rparr>"] by (simp add: on_found_def current_def)
qed simp

text \<open>What a failed scan leaves. A scan of the newest generation that begins, finds some markets and
  fails leaves the pool and the time of the last scan as they were and the status at "done". But when it
  was started by force over a scan that had already begun, what it puts back is the unfinished
  list of that scan: after a restart and a failure the pool is empty, whatever it held.\<close>

theorem failed_scan_pool:
  "(co_threads s (co_gen s) = Some Ready \<longrightarrow>
     (\<exists>t. scan_run (Begin (co_gen s) # map (Found (co_gen s)) ms @ [Fail (co_gen s)]) s = Some t \<and>
       co_pool t = co_pool s \<and> co_last t = co_last s \<and> co_status t = Done)) \<and>
   (\<exists>t. scan_run [Start False, Begin 1, Start True, Begin 2, Give_way 1, Fail 2] (idle_coord pool) = Some t \<and>
       co_pool t = [] \<and> co_status t = Done)"
proof (intro conjI impI)
  assume ready: "co_threads s (co_gen s) = Some Ready"
  show "\<exists>t. scan_run (Begin (co_gen s) # map (Found (co_gen s)) ms @ [Fail (co_gen s)]) s = Some t \<and>
       co_pool t = co_pool s \<and> co_last t = co_last s \<and> co_status t = Done"
    using ready
    by (simp add: scan_run_append finding_run [where prev = "co_pool s"] to_phase_def begin_scan_def current_def scan_failed_def)
next
  show "\<exists>t. scan_run [Start False, Begin 1, Start True, Begin 2, Give_way 1, Fail 2] (idle_coord pool) = Some t \<and>
       co_pool t = [] \<and> co_status t = Done"
    by (simp add: start_scan_def idle_coord_def to_phase_def begin_scan_def current_def scan_failed_def)
qed

section \<open>Witnesses\<close>

definition busy_coord :: coord where
  "busy_coord = snd (start_scan False (idle_coord []))"



definition restarted_coord :: coord where
  "restarted_coord = the (scan_run [Start False, Begin 1, Start True] (idle_coord []))"

lemma taken_over_scan_writes_nothing_witness:
  "\<exists>t. scan_run [Finish 1 [] 9, Save 1, Close 1] restarted_coord = Some t \<and> results t = results restarted_coord"
proof -
  obtain t where t: "scan_run [Finish 1 [] 9, Save 1, Close 1] restarted_coord = Some t"
    by (simp add: restarted_coord_def start_scan_def idle_coord_def op_defs Let_def)
  have "list_all (of_older_scan restarted_coord) [Finish 1 [] 9, Save 1, Close 1]"
    by (simp add: restarted_coord_def start_scan_def idle_coord_def op_defs of_older_scan_def)
  with t show ?thesis
    using taken_over_scan_writes_nothing [OF t] by blast
qed

lemma failed_scan_pool_witness:
  "co_threads busy_coord (co_gen busy_coord) = Some Ready \<and>
   (\<exists>t. scan_run [Begin (co_gen busy_coord), Fail (co_gen busy_coord)] busy_coord = Some t \<and> co_status t = Done)"
proof -
  have "co_threads busy_coord (co_gen busy_coord) = Some Ready"
    by (simp add: busy_coord_def start_scan_def idle_coord_def)
  then show ?thesis
    using failed_scan_pool [of busy_coord "[]"] by auto
qed

end
