(* ===== verification/Engine.thy ===== *)
theory Engine
  imports Accounts Monitor Scan_State
begin

text \<open>
  The workers of the wallets and the manager that starts and stops them (\<open>WalletWorker\<close> and
  \<open>EngineManager\<close> in \<open>engine/manager.py\<close>): the tick of a worker composed of the steps of the monitor,
  the start of a wallet, the recovery, the whole engine, and the account used for scanning. What the services answer during a tick is the record \<open>feed\<close>. A worker ticks from its
  start on, also before its recovery; within one recovery, start or stop of a worker no tick of it is interleaved.
\<close>

section \<open>The tick of a worker\<close>

text \<open>The guard of the nightly rebuild of the ledger: the day of the last success and whether one is running.\<close>

record pnl_guard =
  pg_last :: "int option"
  pg_running :: bool

definition maybe_rebuild_pnl :: "int \<Rightarrow> pnl_guard \<Rightarrow> bool \<times> pnl_guard" where
  "maybe_rebuild_pnl today g =
     (if pg_last g = Some today \<or> pg_running g then (False, g) else (True, g\<lparr>pg_running := True\<rparr>))"

text \<open>The end of the thread that was started for a day.\<close>

definition rebuild_done :: "int \<Rightarrow> bool \<Rightarrow> pnl_guard \<Rightarrow> pnl_guard" where
  "rebuild_done today ok g = \<lparr>pg_last = (if ok then Some today else pg_last g), pg_running = False\<rparr>"

text \<open>The state of a worker between ticks: the watch on fills, the monitor of positions, the cached rewards,
  what the compliance steps did, the guard.\<close>

record ticker =
  tk_watch :: watcher
  tk_mon :: monitor
  tk_cache :: reward_cache
  tk_events :: "cevent list"
  tk_guard :: pnl_guard

text \<open>
  The answers during one tick: those of step 1, the snapshot of the open orders at the beginning (None:
  the request failed), those of each of the steps 2 to 4, and those of the compliance step, which fetches
  the open orders again.
\<close>

record feed =
  fd_today :: int
  fd_answers :: answers
  fd_snapshot :: "order list option"
  fd_resolution :: outside
  fd_low :: outside
  fd_exit :: outside
  fd_cancel :: "string option \<Rightarrow> bool"
  fd_now :: rat
  fd_ttl :: rat
  fd_rewards :: "string \<Rightarrow> reward_item option list option"
  fd_books :: "string list \<Rightarrow> string \<Rightarrow> book option"
  fd_blacklist :: "string set"
  fd_policy :: policy
  fd_orders :: "order list option"

definition tick :: "string \<Rightarrow> feed \<Rightarrow> ticker \<Rightarrow> buy_event list \<times> ticker" where
  "tick funder fd s =
     (let (spawn, g) = maybe_rebuild_pnl (fd_today fd) (tk_guard s);
          m0 = begin_tick (tk_mon s);
          (fills, w) = check_buy_orders funder (fd_answers fd) (tk_watch s);
          m1 = check_resolution (fd_resolution fd) (fd_snapshot fd) m0;
          m2 = check_low_balance (fd_low fd) (fd_snapshot fd) m1;
          m3 = check_exit (fd_exit fd) (fd_snapshot fd) m2;
          (events, cache) = check_sell_orders (fd_cancel fd) (fd_now fd) (fd_ttl fd) (fd_rewards fd) (fd_books fd)
             (fd_blacklist fd) (fd_policy fd) (fd_orders fd) (tk_cache s)
      in (fills, \<lparr>tk_watch = w, tk_mon = m3, tk_cache = cache, tk_events = tk_events s @ events, tk_guard = g\<rparr>))"

section \<open>Workers\<close>

record worker =
  wk_api :: api
  wk_tick :: ticker
  wk_running :: bool

text \<open>A new worker: nothing seen, the merge operations of the database, the quick exit in place.\<close>

definition fresh_ticker :: "mstore \<Rightarrow> ticker" where
  "fresh_ticker store = \<lparr>tk_watch = fresh_watcher,
     tk_mon = \<lparr>mn_quick = True, mn_router = new_router store, mn_trades = Map.empty, mn_books = Map.empty, mn_costs = Map.empty, mn_merges = Map.empty,
       mn_cancelled = {}, mn_dumped = {}, mn_cooldown = 0, mn_log = []\<rparr>,
     tk_cache = Map.empty, tk_events = [], tk_guard = \<lparr>pg_last = None, pg_running = False\<rparr>\<rparr>"

text \<open>\<open>_cancel_buy_orders\<close>: the ids sent in one request, none after an error; an order without an id is one.\<close>

definition cancel_buy_orders :: "order list option \<Rightarrow> string list" where
  "cancel_buy_orders orders =
     (case orders of
        None \<Rightarrow> []
      | Some xs \<Rightarrow> (let buys = filter is_buy xs in if list_all (\<lambda>x. o_id x \<noteq> None) buys then map (\<lambda>x. the (o_id x)) buys else []))"

section \<open>The manager\<close>

text \<open>What the manager does to the outside, in order.\<close>

datatype mevent =
    Worker_started string api
  | Worker_stopped string "string list"
  | Scanner_started
  | Scanner_stopped
  | Buys_cancelled string "string list"

record manager =
  mg_db :: db
  mg_store :: mstore
  mg_engines :: "(string \<times> worker) list"
  mg_scan_api :: "api option"
  mg_pool :: "market list"
  mg_log :: "mevent list"

definition engine :: "string \<Rightarrow> manager \<Rightarrow> worker option" where
  "engine a m = map_of (mg_engines m) a"

definition running_engine :: "string \<Rightarrow> manager \<Rightarrow> bool" where
  "running_engine a m \<longleftrightarrow> (case engine a m of None \<Rightarrow> False | Some w \<Rightarrow> wk_running w)"

text \<open>\<open>start_wallet\<close>; False is the exception of a key that cannot be decrypted or an account that cannot be opened.\<close>

definition start_wallet :: "services \<Rightarrow> string \<Rightarrow> manager \<Rightarrow> bool \<times> manager" where
  "start_wallet sv a m =
     (if running_engine a m then (True, m)
      else (case find_wallet a (mg_db m) of
          None \<Rightarrow> (True, m)
        | Some row \<Rightarrow>
            (case open_wallet sv row of
               None \<Rightarrow> (False, m)
             | Some api \<Rightarrow>
                 (let w = \<lparr>wk_api = api, wk_tick = fresh_ticker (mg_store m), wk_running = True\<rparr> in
                  (True, m\<lparr>mg_engines := AList.update a w (mg_engines m),
                           mg_scan_api := (case mg_scan_api m of None \<Rightarrow> Some api | s \<Rightarrow> s),
                           mg_log := mg_log m @ [Worker_started a api]\<rparr>)))))"

text \<open>\<open>stop_wallet\<close>; \<open>orders a\<close> are the open orders of the wallet when its worker has ended.\<close>

definition stop_wallet :: "(string \<Rightarrow> order list option) \<Rightarrow> string \<Rightarrow> manager \<Rightarrow> manager" where
  "stop_wallet orders a m =
     (case engine a m of
        None \<Rightarrow> m
      | Some w \<Rightarrow> m\<lparr>mg_engines := AList.delete a (mg_engines m),
                    mg_log := mg_log m @ [Worker_stopped a (cancel_buy_orders (orders a))]\<rparr>)"

text \<open>Starting the enabled wallets in the order of the table; the first exception ends the loop.\<close>

fun start_wallets :: "services \<Rightarrow> wallet_row list \<Rightarrow> manager \<Rightarrow> bool \<times> manager" where
  "start_wallets sv [] m = (True, m)"
| "start_wallets sv (w # ws) m =
     (if wa_enabled w then
        (case start_wallet sv (wa_address w) m of
           (True, m') \<Rightarrow> start_wallets sv ws m'
         | (False, m') \<Rightarrow> (False, m'))
      else start_wallets sv ws m)"

text \<open>The recovery of one worker: its history is marked as seen, then its merge operations are reconciled if
  positions and orders can be read. The thread of the worker runs from its start on: \<open>hs_early\<close> are the ticks it makes before its
  recovery, or before the start is given up.\<close>

record history =
  hs_early :: "feed list"
  hs_answers :: answers
  hs_times :: "rat list"
  hs_outside :: outside

definition recover_worker :: "history \<Rightarrow> worker \<Rightarrow> worker" where
  "recover_worker h w =
     (let t = wk_tick w; ou = hs_outside h; mon = tk_mon t;
          watch = init_watermark (ap_funder (wk_api w)) (hs_answers h) (hs_times h) (tk_watch t);
          mon = (case (ou_positions ou, ou_orders ou) of
              (Some ps, Some orders) \<Rightarrow> mon\<lparr>mn_router := snd (reconcile_pending (router_world ou mon) (map to_position ps) orders (mn_router mon))\<rparr>
            | _ \<Rightarrow> mon)
      in w\<lparr>wk_tick := t\<lparr>tk_watch := watch, tk_mon := mon\<rparr>\<rparr>)"

definition startup_recovery :: "(string \<Rightarrow> history) \<Rightarrow> manager \<Rightarrow> manager" where
  "startup_recovery hist m = m\<lparr>mg_engines := map (\<lambda>(a, w). (a, recover_worker (hist a) w)) (mg_engines m)\<rparr>"

definition tick_early :: "history \<Rightarrow> worker \<Rightarrow> worker" where
  "tick_early h w = w\<lparr>wk_tick := fold (\<lambda>fd t. snd (tick (ap_funder (wk_api w)) fd t)) (hs_early h) (wk_tick w)\<rparr>"

definition workers_tick :: "(string \<Rightarrow> history) \<Rightarrow> manager \<Rightarrow> manager" where
  "workers_tick hist m = m\<lparr>mg_engines := map (\<lambda>(a, w). (a, tick_early (hist a) w)) (mg_engines m)\<rparr>"

definition start_monitors :: "services \<Rightarrow> (string \<Rightarrow> history) \<Rightarrow> manager \<Rightarrow> bool \<times> manager" where
  "start_monitors sv hist m =
     (case start_wallets sv (db_wallets (mg_db m)) m of
        (True, m') \<Rightarrow> (True, startup_recovery hist (workers_tick hist m'))
      | (False, m') \<Rightarrow> (False, workers_tick hist m'))"

definition log_event :: "mevent \<Rightarrow> manager \<Rightarrow> manager" where
  "log_event e m = m\<lparr>mg_log := mg_log m @ [e]\<rparr>"

definition start_all :: "services \<Rightarrow> (string \<Rightarrow> history) \<Rightarrow> manager \<Rightarrow> bool \<times> manager" where
  "start_all sv hist m =
     (case start_monitors sv hist (m\<lparr>mg_pool := []\<rparr>) of
        (True, m') \<Rightarrow> (True, log_event Scanner_started m')
      | (False, m') \<Rightarrow> (False, m'))"

definition stop_all :: "(string \<Rightarrow> order list option) \<Rightarrow> manager \<Rightarrow> manager" where
  "stop_all orders m = fold (stop_wallet orders) (map fst (mg_engines m)) (log_event Scanner_stopped m)"

definition restart_all :: "services \<Rightarrow> (string \<Rightarrow> history) \<Rightarrow> (string \<Rightarrow> order list option) \<Rightarrow> manager \<Rightarrow> bool \<times> manager" where
  "restart_all sv hist orders m = start_all sv hist (stop_all orders m)"

definition cancel_all_buy_orders :: "(string \<Rightarrow> order list option) \<Rightarrow> manager \<Rightarrow> manager" where
  "cancel_all_buy_orders orders m =
     m\<lparr>mg_log := mg_log m @ map (\<lambda>(a, w). Buys_cancelled a (cancel_buy_orders (orders a))) (filter (\<lambda>(a, w). wk_running w) (mg_engines m))\<rparr>"

text \<open>\<open>_ensure_scanner_api\<close>; False is the exception of an account that cannot be opened.\<close>

definition ensure_scanner_api :: "services \<Rightarrow> manager \<Rightarrow> bool \<times> manager" where
  "ensure_scanner_api sv m =
     (if mg_scan_api m \<noteq> None then (True, m)
      else case mg_engines m of
          (a, w) # rest \<Rightarrow> (True, m\<lparr>mg_scan_api := Some (wk_api w)\<rparr>)
        | [] \<Rightarrow>
          (case filter wa_enabled (db_wallets (mg_db m)) of
             [] \<Rightarrow> (True, m)
           | row # rows \<Rightarrow>
               (case open_wallet sv row of
                  None \<Rightarrow> (False, m)
                | Some api \<Rightarrow> (True, m\<lparr>mg_scan_api := Some api\<rparr>))))"

section \<open>One tick\<close>

lemma tick_monitor:
  "tk_mon (snd (tick funder fd s)) =
     check_exit (fd_exit fd) (fd_snapshot fd) (check_low_balance (fd_low fd) (fd_snapshot fd)
       (check_resolution (fd_resolution fd) (fd_snapshot fd) (begin_tick (tk_mon s))))"
  "tk_watch (snd (tick funder fd s)) = snd (check_buy_orders funder (fd_answers fd) (tk_watch s))"
  "fst (tick funder fd s) = fst (check_buy_orders funder (fd_answers fd) (tk_watch s))"
  by (simp_all add: tick_def Let_def split: prod.split)

lemma begin_tick_simps [simp]: "mn_log (begin_tick m) = mn_log m" "mn_dumped (begin_tick m) = {}" "mn_router (begin_tick m) = mn_router m"
  by (simp_all add: begin_tick_def)

lemma resolution_sells_nothing:
  "\<exists>new. check_resolution ou open_orders m = log_all new m \<and> filter is_sale new = []"
proof (cases "case open_orders of Some xs \<Rightarrow> Some xs | None \<Rightarrow> ou_orders ou")
  case None
  then show ?thesis by (intro exI [of _ "[]"]) (auto simp: check_resolution_def log_all_def split: option.splits)
next
  case (Some orders)
  from resolution_guard_spec [OF this] show ?thesis by blast
qed

text \<open>C3: A tick sells nothing twice. What a tick adds to the monitor's log falls into the part of the resolution guard, which
  sells nothing, the part of the low-balance sale, and the part of the exits; and the exits may sell through the quick-exit
  router as well. No token sold for the low balance is offered again by the exits, neither by the monitor
  nor by the router, and together the two offer no token more often than the positions they read hold it, nothing at
  all when positions or open orders could not be read. Each of the three reads for itself what it
  needs; only the open orders may be the snapshot from the beginning of the tick.\<close>

theorem tick_sells_once:
  "\<exists>guard dump exits routed. mn_log (tk_mon (snd (tick funder fd s))) = mn_log (tk_mon s) @ guard @ dump @ exits \<and>
     rsales (mn_router (tk_mon (snd (tick funder fd s)))) = rsales (mn_router (tk_mon s)) @ routed \<and>
     mn_dumped (tk_mon (snd (tick funder fd s))) = set (sold_assets dump) \<and>
     filter is_sale guard = [] \<and> no_limits dump \<and>
     (\<forall>a \<in> set (sold_assets dump). sales a exits = 0 \<and> router_sales a routed = 0) \<and>
     (case (ou_positions (fd_exit fd), case fd_snapshot fd of Some xs \<Rightarrow> Some xs | None \<Rightarrow> ou_orders (fd_exit fd)) of
        (Some ps, Some orders) \<Rightarrow> \<forall>a. sales a exits + router_sales a routed \<le> length (filter (\<lambda>h. hd_asset h = a \<and> held h) ps)
      | _ \<Rightarrow> exits = [] \<and> routed = [])"
proof -
  let ?m0 = "begin_tick (tk_mon s)"
  obtain guard where g: "check_resolution (fd_resolution fd) (fd_snapshot fd) ?m0 = log_all guard ?m0" "filter is_sale guard = []"
    using resolution_sells_nothing by blast
  let ?m1 = "log_all guard ?m0"
  let ?m2 = "check_low_balance (fd_low fd) (fd_snapshot fd) ?m1"
  obtain dump where d: "mn_log ?m2 = mn_log ?m1 @ dump" "no_limits dump" "mn_dumped ?m2 = mn_dumped ?m1 \<union> set (sold_assets dump)"
      "mn_router ?m2 = mn_router ?m1"
    using low_balance_no_limits [of "fd_low fd" "fd_snapshot fd" ?m1] by blast
  let ?ou = "fd_exit fd"
  let ?orders = "case fd_snapshot fd of Some xs \<Rightarrow> Some xs | None \<Rightarrow> ou_orders ?ou"
  obtain exits routed where e: "mn_log (check_exit ?ou (fd_snapshot fd) ?m2) = mn_log ?m2 @ exits"
      "rsales (mn_router (check_exit ?ou (fd_snapshot fd) ?m2)) = rsales (mn_router ?m2) @ routed"
      "mn_dumped (check_exit ?ou (fd_snapshot fd) ?m2) = mn_dumped ?m2"
      "case (ou_positions ?ou, ?orders) of
         (Some ps, Some orders) \<Rightarrow> \<forall>a. sales a exits + router_sales a routed \<le> length (filter (\<lambda>h. hd_asset h = a \<and> held h \<and> a \<notin> mn_dumped ?m2) ps)
       | _ \<Rightarrow> exits = [] \<and> routed = []"
    using exit_round_sells_once [of ?ou "fd_snapshot fd" ?m2] by (fastforce split: option.splits)
  have sold: "sales a exits = 0 \<and> router_sales a routed = 0" if "a \<in> set (sold_assets dump)" for a
    using e(4) that d(3) by (auto simp: sales_def [of a "[]"] split: option.splits dest!: spec [of _ a])
  have "length (filter (\<lambda>h. hd_asset h = a \<and> held h \<and> a \<notin> mn_dumped ?m2) ps) \<le> length (filter (\<lambda>h. hd_asset h = a \<and> held h) ps)" for a ps
    by (induction ps) auto
  with e(4) have "case (ou_positions ?ou, ?orders) of
      (Some ps, Some orders) \<Rightarrow> \<forall>a. sales a exits + router_sales a routed \<le> length (filter (\<lambda>h. hd_asset h = a \<and> held h) ps)
    | _ \<Rightarrow> exits = [] \<and> routed = []"
    by (auto split: option.splits intro: order_trans)
  with g d e(1-3) sold show ?thesis
    by (intro exI [of _ guard] exI [of _ dump] exI [of _ exits] exI [of _ routed]) (simp add: tick_monitor)
qed

section \<open>Starting one wallet\<close>

lemma select_monotone:
  assumes "set trs' \<subseteq> set trs" and "e \<in> set (select_new_buy_fills trs' funder seen)"
  shows "event_key e \<in> event_key ` set (select_new_buy_fills trs funder {})"
  using assms by (auto simp: select_new_buy_fills_def)

lemma nothing_new:
  assumes "set trs' \<subseteq> set trs" and "event_key ` set (select_new_buy_fills trs funder {}) \<subseteq> seen"
  shows "select_new_buy_fills trs' funder seen = []"
proof -
  have "e \<notin> set (select_new_buy_fills trs' funder seen)" for e
    using assms select_monotone [OF assms(1), of e funder seen] select_unseen [of e trs' funder seen] by blast
  then show ?thesis by (cases "select_new_buy_fills trs' funder seen") fastforce+
qed

lemma primed_watcher:
  assumes "an_history an = Some trs"
  shows "event_key ` set (select_new_buy_fills trs funder {}) \<subseteq> wa_seen (init_watermark funder an ts s) \<and>
    \<not> wa_pending (init_watermark funder an ts s)"
  using assms fold_mark_seen [of "select_new_buy_fills trs funder {}"] by (auto simp: init_watermark_def prime_seen_keys_def Let_def)

lemma fresh_watch [simp]: "tk_watch (fresh_ticker store) = fresh_watcher"
  by (simp add: fresh_ticker_def)

lemma start_wallet_worker:
  assumes "start_wallet sv a m = (True, m')" and "\<not> running_engine a m" and "find_wallet a (mg_db m) = Some row"
  obtains api where "open_wallet sv row = Some api" and
    "engine a m' = Some \<lparr>wk_api = api, wk_tick = fresh_ticker (mg_store m), wk_running = True\<rparr>"
  using assms by (auto simp: start_wallet_def engine_def Let_def update_conv split: option.splits)

lemma handle_fills_cooldown:
  "e \<in> set es \<Longrightarrow> 0 < be_size e \<Longrightarrow> an_cooldown an (be_market e) \<Longrightarrow> Cooldown (be_market e) \<in> set (wa_log (handle_fills an ids es c s))"
proof -
  have keep: "set (wa_log s) \<subseteq> set (wa_log (handle_fills an ids es c s))" for es c s
  proof (induction es arbitrary: c s)
    case (Cons x es)
    obtain c' lg where h: "handle_fill an ids x (c, wa_log s) = (c', lg)" by fastforce
    then have "set (wa_log s) \<subseteq> set lg"
      by (auto simp: handle_fill_def Let_def split: if_splits)
    with Cons.IH [of "mark_seen x (s\<lparr>wa_log := lg\<rparr>)" c'] h show ?case by auto
  qed simp
  show "e \<in> set es \<Longrightarrow> 0 < be_size e \<Longrightarrow> an_cooldown an (be_market e) \<Longrightarrow> Cooldown (be_market e) \<in> set (wa_log (handle_fills an ids es c s))"
  proof (induction es arbitrary: c s)
    case (Cons x es)
    obtain c' lg where h: "handle_fill an ids x (c, wa_log s) = (c', lg)" by fastforce
    show ?case
    proof (cases "e = x")
      case True
      with Cons.prems h have "Cooldown (be_market e) \<in> set lg"
        by (auto simp: handle_fill_def Let_def split: if_splits)
      with keep [where s = "mark_seen x (s\<lparr>wa_log := lg\<rparr>)" and es = es and c = c'] h show ?thesis by auto
    next
      case False
      with Cons h show ?thesis by simp
    qed
  qed simp
qed

text \<open>C4: Starting a single wallet replays its whole history. The page that starts one wallet calls only the start;
  the first tick of the new worker then handles every buy fill the exchange still reports as a new one,
  and puts the market of each on cooldown, so nothing is bought there. After the recovery,
  which the start of all wallets runs but this page does not, the same tick on the same or a part
  of the trades handles none.\<close>

theorem single_start_replays_history:
  assumes "start_wallet sv a m = (True, m')" and "\<not> running_engine a m" and "find_wallet a (mg_db m) = Some row"
    and "\<And>t. an_trades (fd_answers fd) t = Some (news t)" and "\<And>t. set (news t) \<subseteq> set (news None)"
    and "an_history (hs_answers h) = Some (news None)"
  shows "\<exists>w. engine a m' = Some w \<and>
    fst (tick (ap_funder (wk_api w)) fd (wk_tick w)) = select_new_buy_fills (news None) (ap_funder (wk_api w)) {} \<and>
    (\<forall>e \<in> set (select_new_buy_fills (news None) (ap_funder (wk_api w)) {}). 0 < be_size e \<and> an_cooldown (fd_answers fd) (be_market e) \<longrightarrow>
       Cooldown (be_market e) \<in> set (wa_log (tk_watch (snd (tick (ap_funder (wk_api w)) fd (wk_tick w)))))) \<and>
    fst (tick (ap_funder (wk_api w)) fd (wk_tick (recover_worker h w))) = []"
proof -
  obtain api where w: "engine a m' = Some \<lparr>wk_api = api, wk_tick = fresh_ticker (mg_store m), wk_running = True\<rparr>" (is "_ = Some ?w")
    using assms(1-3) by (rule start_wallet_worker)
  let ?f = "ap_funder api"
  let ?fills = "select_new_buy_fills (news None) ?f {}"
  have fresh: "(if wa_pending fresh_watcher then prime_seen_keys ?f (fd_answers fd) fresh_watcher else (True, fresh_watcher)) = (True, fresh_watcher)"
    "an_trades (fd_answers fd) (since (wa_after fresh_watcher)) = Some (news None)" "wa_seen fresh_watcher = {}"
    using assms(4) by (simp_all add: fresh_watcher_def since_def)
  note first = check_active [OF fresh(1,2), unfolded fresh(3), OF refl]
  let ?r = "init_watermark ?f (hs_answers h) (hs_times h) fresh_watcher"
  have primed: "\<not> wa_pending ?r" "event_key ` set ?fills \<subseteq> wa_seen ?r"
    using primed_watcher [OF assms(6), of ?f "hs_times h" fresh_watcher] by blast+
  have second: "fst (check_buy_orders ?f (fd_answers fd) ?r) = []"
  proof -
    have "(if wa_pending ?r then prime_seen_keys ?f (fd_answers fd) ?r else (True, ?r)) = (True, ?r)"
      using primed(1) by simp
    from check_active [OF this assms(4) refl] nothing_new [OF assms(5) primed(2)] show ?thesis by simp
  qed
  have "tk_watch (wk_tick (recover_worker h ?w)) = ?r"
    by (simp add: recover_worker_def Let_def)
  moreover have "Cooldown (be_market e) \<in> set (wa_log (snd (check_buy_orders ?f (fd_answers fd) fresh_watcher)))"
    if "e \<in> set ?fills" "0 < be_size e" "an_cooldown (fd_answers fd) (be_market e)" for e
    using that unfolding first by (simp add: handle_fills_cooldown)
  ultimately show ?thesis
    using w by (intro exI [of _ ?w] conjI ballI impI) (simp_all add: tick_monitor second, simp_all add: first)
qed

section \<open>Starting and stopping all\<close>

lemma update_absent: "a \<notin> fst ` set xs \<Longrightarrow> AList.update a v xs = xs @ [(a, v)]"
  by (induction xs) auto

lemma find_own: "distinct (map f xs) \<Longrightarrow> x \<in> set xs \<Longrightarrow> find (\<lambda>y. f y = f x) xs = Some x"
  by (induction xs) (auto dest: map_of_eq_None_iff [THEN iffD1])

lemma find_own_row:
  "distinct (map wa_address (db_wallets d)) \<Longrightarrow> row \<in> set (db_wallets d) \<Longrightarrow> find_wallet (wa_address row) d = Some row"
  unfolding find_wallet_def by (rule find_own)

definition new_worker :: "services \<Rightarrow> manager \<Rightarrow> wallet_row \<Rightarrow> worker" where
  "new_worker sv m row = \<lparr>wk_api = the (open_wallet sv row), wk_tick = fresh_ticker (mg_store m), wk_running = True\<rparr>"

definition with_started :: "services \<Rightarrow> wallet_row list \<Rightarrow> api option \<Rightarrow> manager \<Rightarrow> manager" where
  "with_started sv ws api m = m\<lparr>mg_engines := mg_engines m @ map (\<lambda>w. (wa_address w, new_worker sv m w)) ws, mg_scan_api := api,
     mg_log := mg_log m @ map (\<lambda>w. Worker_started (wa_address w) (the (open_wallet sv w))) ws\<rparr>"

lemma with_started_none: "with_started sv [] (mg_scan_api m) m = m"
  by (simp add: with_started_def)

lemma with_started_more: "with_started sv ws api (with_started sv [w] api' m) = with_started sv (w # ws) api m"
  by (simp add: with_started_def new_worker_def)

lemma with_started_simps [simp]:
  "mg_db (with_started sv ws api m) = mg_db m" "mg_store (with_started sv ws api m) = mg_store m"
  "map fst (mg_engines (with_started sv ws api m)) = map fst (mg_engines m) @ map wa_address ws"
  by (simp_all add: with_started_def o_def)

lemma start_new:
  assumes "wa_address row \<notin> fst ` set (mg_engines m)" and "find_wallet (wa_address row) (mg_db m) = Some row" and "open_wallet sv row \<noteq> None"
  shows "\<exists>api. start_wallet sv (wa_address row) m = (True, with_started sv [row] api m)"
proof -
  have "engine (wa_address row) m = None"
    using assms(1) by (simp add: engine_def map_of_eq_None_iff)
  with assms show ?thesis
    by (auto simp: start_wallet_def running_engine_def new_worker_def update_absent Let_def with_started_def)
qed

lemma start_refused:
  assumes "wa_address row \<notin> fst ` set (mg_engines m)" and "find_wallet (wa_address row) (mg_db m) = Some row" and "open_wallet sv row = None"
  shows "start_wallet sv (wa_address row) m = (False, m)"
proof -
  have "engine (wa_address row) m = None"
    using assms(1) by (simp add: engine_def map_of_eq_None_iff)
  with assms show ?thesis
    by (simp add: start_wallet_def running_engine_def)
qed

text \<open>The loop over the rows up to the first enabled wallet that cannot be opened.\<close>

fun openable :: "services \<Rightarrow> wallet_row list \<Rightarrow> wallet_row list" where
  "openable sv [] = []"
| "openable sv (w # ws) = (if wa_enabled w then if open_wallet sv w = None then [] else w # openable sv ws else openable sv ws)"

lemma start_wallets_run:
  assumes "distinct (map wa_address ws)" and "\<forall>w\<in>set ws. find_wallet (wa_address w) (mg_db m) = Some w \<and> wa_address w \<notin> set (map fst (mg_engines m))"
  shows "\<exists>api. start_wallets sv ws m = (\<forall>w\<in>set ws. wa_enabled w \<longrightarrow> open_wallet sv w \<noteq> None, with_started sv (openable sv ws) api m)"
  using assms
proof (induction ws arbitrary: m)
  case Nil
  show ?case by (intro exI [of _ "mg_scan_api m"]) (simp add: with_started_none)
next
  case (Cons w ws)
  have w: "find_wallet (wa_address w) (mg_db m) = Some w" "wa_address w \<notin> fst ` set (mg_engines m)"
    using Cons.prems(2) by simp_all
  have rest: "distinct (map wa_address ws)" "\<forall>x\<in>set ws. find_wallet (wa_address x) (mg_db m) = Some x \<and> wa_address x \<notin> set (map fst (mg_engines m))"
    and apart: "\<forall>x\<in>set ws. wa_address x \<noteq> wa_address w"
    using Cons.prems by (simp_all add: image_iff) (metis)+
  consider (off) "\<not> wa_enabled w" | (bad) "wa_enabled w" "open_wallet sv w = None" | (ok) "wa_enabled w" "open_wallet sv w \<noteq> None" by blast
  then show ?case
  proof cases
    case off
    then have same: "start_wallets sv (w # ws) m = start_wallets sv ws m" "openable sv (w # ws) = openable sv ws"
      "(\<forall>x\<in>set (w # ws). wa_enabled x \<longrightarrow> open_wallet sv x \<noteq> None) = (\<forall>x\<in>set ws. wa_enabled x \<longrightarrow> open_wallet sv x \<noteq> None)"
      by simp_all
    from Cons.IH [OF rest] show ?thesis unfolding same .
  next
    case bad
    then have "start_wallets sv (w # ws) m = (False, m)" "openable sv (w # ws) = []"
      using start_refused [OF w(2,1) bad(2)] by simp_all
    moreover have "(\<forall>x\<in>set (w # ws). wa_enabled x \<longrightarrow> open_wallet sv x \<noteq> None) = False"
      using bad by simp
    ultimately show ?thesis
      by (intro exI [of _ "mg_scan_api m"]) (simp only: with_started_none)
  next
    case ok
    then obtain api where step: "start_wallet sv (wa_address w) m = (True, with_started sv [w] api m)"
      using start_new [OF w(2,1)] by blast
    have "\<forall>x\<in>set ws. find_wallet (wa_address x) (mg_db (with_started sv [w] api m)) = Some x \<and>
        wa_address x \<notin> set (map fst (mg_engines (with_started sv [w] api m)))"
      using rest(2) apart unfolding with_started_simps set_append by fastforce
    from Cons.IH [OF rest(1) this] obtain api' where "start_wallets sv ws (with_started sv [w] api m) =
        (\<forall>w\<in>set ws. wa_enabled w \<longrightarrow> open_wallet sv w \<noteq> None, with_started sv (openable sv ws) api' (with_started sv [w] api m))"
      by (elim exE)
    moreover have "start_wallets sv (w # ws) m = start_wallets sv ws (with_started sv [w] api m)"
      using ok(1) step by simp
    moreover have "openable sv (w # ws) = w # openable sv ws"
      using ok by simp
    moreover have "(\<forall>x\<in>set (w # ws). wa_enabled x \<longrightarrow> open_wallet sv x \<noteq> None) = (\<forall>x\<in>set ws. wa_enabled x \<longrightarrow> open_wallet sv x \<noteq> None)"
      using ok(2) by simp
    ultimately show ?thesis
      by (intro exI [of _ api']) (simp only: with_started_more)
  qed
qed

text \<open>The watch on fills after the ticks before the recovery, none of its history marked as seen.\<close>

definition early_watch :: "history \<Rightarrow> string \<Rightarrow> watcher" where
  "early_watch h funder = fold (\<lambda>fd w. snd (check_buy_orders funder (fd_answers fd) w)) (hs_early h) fresh_watcher"

lemma tick_early_watch:
  "tk_watch (wk_tick (tick_early h w)) = fold (\<lambda>fd s. snd (check_buy_orders (ap_funder (wk_api w)) (fd_answers fd) s)) (hs_early h) (tk_watch (wk_tick w))"
  "wk_api (tick_early h w) = wk_api w" "wk_running (tick_early h w) = wk_running w"
proof -
  have "tk_watch (fold (\<lambda>fd t. snd (tick f fd t)) fds t) = fold (\<lambda>fd s. snd (check_buy_orders f (fd_answers fd) s)) fds (tk_watch t)" for f fds t
    by (induction fds arbitrary: t) (simp_all add: tick_monitor(2))
  then show "tk_watch (wk_tick (tick_early h w)) =
      fold (\<lambda>fd s. snd (check_buy_orders (ap_funder (wk_api w)) (fd_answers fd) s)) (hs_early h) (tk_watch (wk_tick w))"
    by (simp add: tick_early_def)
qed (simp_all add: tick_early_def)

text \<open>C5: The engine starts only as a whole. Started with no worker there, it opens the enabled wallets in the
  order of the table. If all can be opened, each has a running worker on its own account, whose history has been marked
  as seen, on top of what its ticks before that moment have handled, and the scanner runs. But the first
  wallet that cannot be opened, for example because its proxy is down, ends the start: the wallets after it
  are not started, the scanner is not, and the workers already running are left without the recovery,
  their watch on fills as empty as at first but for the ticks they made since.\<close>

theorem engine_starts_as_a_whole:
  assumes "distinct (map wa_address (db_wallets (mg_db m)))" and "mg_engines m = []" and "mg_log m = []"
    and "start_all sv hist m = (ok, m')"
  shows "ok = (\<forall>w\<in>set (db_wallets (mg_db m)). wa_enabled w \<longrightarrow> open_wallet sv w \<noteq> None) \<and>
    map fst (mg_engines m') = map wa_address (openable sv (db_wallets (mg_db m))) \<and>
    map (\<lambda>(a, w). Some (wk_api w)) (mg_engines m') = map (open_wallet sv) (openable sv (db_wallets (mg_db m))) \<and>
    (\<forall>(a, w) \<in> set (mg_engines m'). wk_running w \<and> (let watch = early_watch (hist a) (ap_funder (wk_api w)) in
       tk_watch (wk_tick w) =
         (if ok then init_watermark (ap_funder (wk_api w)) (hs_answers (hist a)) (hs_times (hist a)) watch else watch))) \<and>
    (Scanner_started \<in> set (mg_log m') \<longleftrightarrow> ok)"
proof -
  let ?rows = "db_wallets (mg_db m)" and ?m0 = "m\<lparr>mg_pool := []\<rparr>"
  let ?all = "\<forall>w\<in>set ?rows. wa_enabled w \<longrightarrow> open_wallet sv w \<noteq> None"
  have "\<forall>w\<in>set ?rows. find_wallet (wa_address w) (mg_db ?m0) = Some w \<and> wa_address w \<notin> set (map fst (mg_engines ?m0))"
    using find_own_row [OF assms(1)] assms(2) by simp
  from start_wallets_run [OF assms(1) this, of sv] obtain api where
    run: "start_wallets sv ?rows ?m0 = (?all, with_started sv (openable sv ?rows) api ?m0)" (is "_ = (_, ?m1)")
    by (elim exE) simp
  have m1: "mg_engines (workers_tick hist ?m1) = map (\<lambda>w. (wa_address w, tick_early (hist (wa_address w)) (new_worker sv ?m0 w))) (openable sv ?rows)"
    "Scanner_started \<notin> set (mg_log (workers_tick hist ?m1))"
    using assms(2,3) by (auto simp: with_started_def workers_tick_def)
  have opened: "open_wallet sv w \<noteq> None" if "w \<in> set (openable sv ws)" for w ws
    using that by (induction ws) (auto split: if_splits)
  have accounts: "map (\<lambda>w. Some (wk_api (new_worker sv ?m0 w))) (openable sv ?rows) = map (open_wallet sv) (openable sv ?rows)"
    using opened by (intro map_cong) (auto simp: new_worker_def)
  have recovered: "wk_api (recover_worker h w) = wk_api w" "wk_running (recover_worker h w) = wk_running w"
    "tk_watch (wk_tick (recover_worker h w)) = init_watermark (ap_funder (wk_api w)) (hs_answers h) (hs_times h) (tk_watch (wk_tick w))" for h w
    by (simp_all add: recover_worker_def Let_def)
  have fresh: "tk_watch (wk_tick (new_worker sv ?m0 w)) = fresh_watcher" "wk_running (new_worker sv ?m0 w)" for w
    by (simp_all add: new_worker_def)
  note watch = tick_early_watch fresh early_watch_def
  show ?thesis
  proof (cases ?all)
    case True
    have "start_wallets sv ?rows ?m0 = (True, ?m1)"
      using run eqTrueI [OF True] by (simp only:)
    with assms(4) have ok: "ok" "m' = log_event Scanner_started (startup_recovery hist (workers_tick hist ?m1))"
      by (simp_all add: start_all_def start_monitors_def)
    have eng: "mg_engines m' =
        map (\<lambda>w. (wa_address w, recover_worker (hist (wa_address w)) (tick_early (hist (wa_address w)) (new_worker sv ?m0 w)))) (openable sv ?rows)"
      unfolding ok(2) log_event_def startup_recovery_def by (simp add: m1(1))
    have "Scanner_started \<in> set (mg_log m')"
      unfolding ok(2) log_event_def by simp
    with True ok(1) accounts show ?thesis
      unfolding eng by (auto simp: o_def recovered watch Let_def)
  next
    case False
    have "start_wallets sv ?rows ?m0 = (False, ?m1)"
      using run iffD2 [OF eq_False False] by (simp only:)
    with assms(4) have ok: "\<not> ok" "m' = workers_tick hist ?m1"
      by (simp_all add: start_all_def start_monitors_def)
    from ok(1) False accounts m1(2) show ?thesis
      unfolding ok(2) m1(1) by (auto simp: o_def watch Let_def)
  qed
qed

section \<open>The account used for scanning\<close>

text \<open>What can happen to the manager, with what the services answer at that time.\<close>

datatype mop =
    Op_start_wallet services string
  | Op_stop_wallet "string \<Rightarrow> order list option" string
  | Op_start_monitors services "string \<Rightarrow> history"
  | Op_start_all services "string \<Rightarrow> history"
  | Op_stop_all "string \<Rightarrow> order list option"
  | Op_restart services "string \<Rightarrow> history" "string \<Rightarrow> order list option"
  | Op_cancel_all "string \<Rightarrow> order list option"
  | Op_ensure services
  | Op_edit "db \<Rightarrow> db"

fun run_op :: "mop \<Rightarrow> manager \<Rightarrow> manager" where
  "run_op (Op_start_wallet sv a) m = snd (start_wallet sv a m)"
| "run_op (Op_stop_wallet orders a) m = stop_wallet orders a m"
| "run_op (Op_start_monitors sv hist) m = snd (start_monitors sv hist m)"
| "run_op (Op_start_all sv hist) m = snd (start_all sv hist m)"
| "run_op (Op_stop_all orders) m = stop_all orders m"
| "run_op (Op_restart sv hist orders) m = snd (restart_all sv hist orders m)"
| "run_op (Op_cancel_all orders) m = cancel_all_buy_orders orders m"
| "run_op (Op_ensure sv) m = snd (ensure_scanner_api sv m)"
| "run_op (Op_edit f) m = m\<lparr>mg_db := f (mg_db m)\<rparr>"

lemma start_wallet_scan_api: "mg_scan_api m = Some p \<Longrightarrow> mg_scan_api (snd (start_wallet sv a m)) = Some p"
  by (auto simp: start_wallet_def Let_def split: option.split)

lemma start_wallets_scan_api: "mg_scan_api m = Some p \<Longrightarrow> mg_scan_api (snd (start_wallets sv ws m)) = Some p"
proof (induction ws arbitrary: m)
  case (Cons w ws)
  obtain ok m1 where step: "start_wallet sv (wa_address w) m = (ok, m1)" by fastforce
  then have "mg_scan_api m1 = Some p"
    using start_wallet_scan_api [OF Cons.prems, of sv "wa_address w"] by simp
  with step Cons.IH [of m1] Cons.IH [of m] Cons.prems show ?case
    by (cases ok) simp_all
qed simp

lemma start_monitors_scan_api: "mg_scan_api m = Some p \<Longrightarrow> mg_scan_api (snd (start_monitors sv hist m)) = Some p"
  using start_wallets_scan_api [of m p sv "db_wallets (mg_db m)"]
  by (auto simp: start_monitors_def startup_recovery_def workers_tick_def split: prod.split bool.split)

lemma start_all_scan_api: "mg_scan_api m = Some p \<Longrightarrow> mg_scan_api (snd (start_all sv hist m)) = Some p"
  using start_monitors_scan_api [of "m\<lparr>mg_pool := []\<rparr>" p sv hist]
  by (auto simp: start_all_def log_event_def split: prod.split bool.split)

lemma stop_wallets_scan_api [simp]: "mg_scan_api (fold (stop_wallet orders) as m) = mg_scan_api m"
  by (induction as arbitrary: m) (auto simp: stop_wallet_def split: option.split)

lemma stop_all_scan_api [simp]: "mg_scan_api (stop_all orders m) = mg_scan_api m"
  by (simp add: stop_all_def log_event_def)

text \<open>The account used for scanning is never given back. Once set, at the first start of a wallet or the first scan, it stays
  the same account with the same proxy through every start, stop and restart, also when the wallet
  gets another proxy, is disabled or removed.\<close>

theorem scan_account_never_changes:
  assumes "mg_scan_api m = Some p"
  shows "mg_scan_api (fold run_op ops m) = Some p"
  using assms
proof (induction ops arbitrary: m)
  case (Cons x ops)
  have "mg_scan_api (run_op x m) = Some p"
    using Cons.prems
    by (cases x) (simp_all add: start_wallet_scan_api start_monitors_scan_api start_all_scan_api restart_all_def
      cancel_all_buy_orders_def ensure_scanner_api_def stop_wallet_def split: option.split)
  with Cons.IH show ?case by simp
qed simp

section \<open>Stopping\<close>

lemma delete_first: "a \<notin> fst ` set xs \<Longrightarrow> AList.delete a ((a, v) # xs) = xs"
  by simp

lemma stop_wallets_run:
  "distinct (map fst (mg_engines m)) \<Longrightarrow> fold (stop_wallet orders) (map fst (mg_engines m)) m =
     m\<lparr>mg_engines := [], mg_log := mg_log m @ map (\<lambda>(a, w). Worker_stopped a (cancel_buy_orders (orders a))) (mg_engines m)\<rparr>"
proof (induction "mg_engines m" arbitrary: m)
  case (Cons e es)
  obtain a w where e: "e = (a, w)" by (cases e)
  let ?m1 = "m\<lparr>mg_engines := es, mg_log := mg_log m @ [Worker_stopped a (cancel_buy_orders (orders a))]\<rparr>"
  have es: "mg_engines m = (a, w) # es" "a \<notin> fst ` set es"
    using Cons.hyps(2) Cons.prems e by (auto simp flip: Cons.hyps(2))
  have step: "stop_wallet orders a m = ?m1"
    using es delete_first [OF es(2), of w] by (simp add: stop_wallet_def engine_def)
  have "distinct (map fst (mg_engines ?m1))"
    using Cons.prems es by simp
  from Cons.hyps(1) [OF _ this] show ?case
    using es step by simp
qed simp

text \<open>Stopping the engine withdraws every resting buy order of every worker, in one request for each wallet
  whose open orders can be read, and leaves no worker.\<close>

theorem stop_all_withdraws:
  assumes "distinct (map fst (mg_engines m))"
  shows "mg_engines (stop_all orders m) = [] \<and>
    mg_log (stop_all orders m) = mg_log m @ Scanner_stopped # map (\<lambda>(a, w). Worker_stopped a (cancel_buy_orders (orders a))) (mg_engines m)"
  using stop_wallets_run [of "log_event Scanner_stopped m" orders] assms by (simp add: stop_all_def log_event_def)

section \<open>Witnesses\<close>

definition demo_wallet_row :: "string \<Rightarrow> string \<Rightarrow> wallet_row" where
  "demo_wallet_row a key = \<lparr>wa_address = a, wa_key = key, wa_funder = ''me'', wa_sig = 2, wa_proxy = [], wa_remark = [],
     wa_enabled = True, wa_active = 0, wa_template = None\<rparr>"

definition demo_manager :: "wallet_row list \<Rightarrow> manager" where
  "demo_manager rows = \<lparr>mg_db = demo_empty\<lparr>db_wallets := rows\<rparr>, mg_store = \<lparr>ms_rows = [], ms_next = 1\<rparr>, mg_engines = [], mg_scan_api = None,
     mg_pool = [], mg_log = []\<rparr>"

definition demo_api :: api where
  "demo_api = \<lparr>ap_key = ''k'', ap_address = ''0xeoa'', ap_sig = 2, ap_funder = ''me'', ap_proxy = None\<rparr>"

text \<open>A key that does not decrypt.\<close>

definition picky_services :: services where
  "picky_services = demo_services\<lparr>sv_decrypt := (\<lambda>k. if k = ''bad'' then None else Some k)\<rparr>"

lemma demo_open:
  "open_wallet demo_services (demo_wallet_row a ''k'') = Some demo_api" "open_wallet picky_services (demo_wallet_row a ''k'') = Some demo_api"
  "open_wallet picky_services (demo_wallet_row a ''bad'') = None"
  by (simp_all add: open_wallet_def demo_wallet_row_def demo_services_def picky_services_def new_api_def parse_proxy_def strip_def demo_api_def)

definition demo_feed :: feed where
  "demo_feed = \<lparr>fd_today = 1, fd_answers = demo_answers, fd_snapshot = Some [], fd_resolution = idle_outside, fd_low = poor_outside,
     fd_exit = idle_outside\<lparr>ou_positions := Some []\<rparr>, fd_cancel = (\<lambda>_. True), fd_now = 1, fd_ttl = 1, fd_rewards = (\<lambda>_. None),
     fd_books = (\<lambda>_ _. None), fd_blacklist = {}, fd_policy = demo_policy, fd_orders = Some []\<rparr>"

definition demo_history :: history where
  "demo_history = \<lparr>hs_early = [], hs_answers = demo_answers\<lparr>an_history := Some [demo_trade]\<rparr>, hs_times = [], hs_outside = idle_outside\<rparr>"

text \<open>Ten shares of ''y'' are sold for the low balance; the exit sees them still, and ten shares of ''z'' in another market: only these
  are put up for sale, by the router.\<close>

definition bought :: "string \<Rightarrow> string \<Rightarrow> trade" where
  "bought cid asset = demo_trade\<lparr>tr_market := cid, tr_makers := [(hd (tr_makers demo_trade))\<lparr>mo_asset := asset\<rparr>]\<rparr>"

definition selling :: "holding list \<Rightarrow> outside" where
  "selling ps = idle_outside\<lparr>ou_positions := Some ps, ou_trades := (\<lambda>c. Some [bought c (if c = ''m'' then ''y'' else ''z'')]),
     ou_book := (\<lambda>_. Some demo_sell_book), ou_world := sample_world\<lparr>w_now := 20\<rparr>\<rparr>"

definition selling_feed :: feed where
  "selling_feed = demo_feed\<lparr>fd_low := selling [demo_holding],
     fd_exit := selling [demo_holding, demo_holding\<lparr>hd_asset := ''z'', hd_cid := ''m2''\<rparr>]\<rparr>"

lemma selling_dumped: "mn_dumped (tk_mon (snd (tick ''me'' selling_feed (fresh_ticker \<lparr>ms_rows = [], ms_next = 1\<rparr>)))) = {''y''}"
  by code_simp

lemma selling_routed:
  "rsales (mn_router (tk_mon (snd (tick ''me'' selling_feed (fresh_ticker \<lparr>ms_rows = [], ms_next = 1\<rparr>))))) = [Limit_sell ''z'' (43/100) 10]"
  by code_simp

lemma tick_witness:
  "\<exists>guard dump exits routed. mn_log (tk_mon (snd (tick ''me'' selling_feed (fresh_ticker \<lparr>ms_rows = [], ms_next = 1\<rparr>)))) = guard @ dump @ exits \<and>
     set (sold_assets dump) = {''y''} \<and> sales ''y'' exits = 0 \<and> router_sales ''y'' routed = 0 \<and> router_sales ''z'' routed = 1"
proof -
  let ?s = "fresh_ticker \<lparr>ms_rows = [], ms_next = 1\<rparr>"
  have old: "mn_log (tk_mon ?s) = []" "rsales (mn_router (tk_mon ?s)) = []"
    by (simp_all add: fresh_ticker_def new_router_def rsales_def)
  obtain guard dump exits routed where log: "mn_log (tk_mon (snd (tick ''me'' selling_feed ?s))) = guard @ dump @ exits"
    and routed: "[Limit_sell ''z'' (43/100) 10] = routed" and dump: "{''y''} = set (sold_assets dump)"
    and none: "\<forall>a \<in> set (sold_assets dump). sales a exits = 0 \<and> router_sales a routed = 0"
    using tick_sells_once [of "''me''" selling_feed ?s, unfolded selling_dumped selling_routed old append_Nil] by (elim exE conjE)
  show ?thesis
  proof (rule exI [of _ guard], rule exI [of _ dump], rule exI [of _ exits], rule exI [of _ routed], intro conjI)
    show "mn_log (tk_mon (snd (tick ''me'' selling_feed ?s))) = guard @ dump @ exits" by (rule log)
    show "set (sold_assets dump) = {''y''}" by (rule dump [symmetric])
    show "sales ''y'' exits = 0" "router_sales ''y'' routed = 0" using none by (simp_all flip: dump)
    show "router_sales ''z'' routed = 1" by (simp flip: routed)
  qed
qed

lemma single_start_witness:
  "\<exists>m' w. start_wallet demo_services ''0xeoa'' (demo_manager [demo_wallet_row ''0xeoa'' ''k'']) = (True, m') \<and> engine ''0xeoa'' m' = Some w \<and>
     map event_key (fst (tick ''me'' demo_feed (wk_tick w))) = [(''t1'', ''o1'')] \<and>
     fst (tick ''me'' demo_feed (wk_tick (recover_worker demo_history w))) = []"
proof -
  let ?row = "demo_wallet_row ''0xeoa'' ''k''" let ?m = "demo_manager [?row]"
  have f: "find_wallet ''0xeoa'' (mg_db ?m) = Some ?row"
    by (simp add: find_wallet_def demo_manager_def demo_wallet_row_def)
  have idle: "\<not> running_engine ''0xeoa'' ?m"
    by (simp add: running_engine_def engine_def demo_manager_def)
  obtain m' where s: "start_wallet demo_services ''0xeoa'' ?m = (True, m')"
    using f idle by (simp add: start_wallet_def demo_open Let_def)
  have t: "an_trades (fd_answers demo_feed) t = Some ((\<lambda>t. [demo_trade]) t)" "set ((\<lambda>t. [demo_trade]) t) \<subseteq> set ((\<lambda>t. [demo_trade]) None)" for t
    by (simp_all add: demo_feed_def demo_answers_def)
  have h: "an_history (hs_answers demo_history) = Some ((\<lambda>t. [demo_trade]) None)"
    by (simp add: demo_history_def)
  from single_start_replays_history [where news = "\<lambda>t. [demo_trade]", OF s idle f t h] obtain w where w: "engine ''0xeoa'' m' = Some w"
      "fst (tick (ap_funder (wk_api w)) demo_feed (wk_tick w)) = select_new_buy_fills [demo_trade] (ap_funder (wk_api w)) {}"
      "fst (tick (ap_funder (wk_api w)) demo_feed (wk_tick (recover_worker demo_history w))) = []"
    by (elim exE conjE)
  obtain api where "open_wallet demo_services ?row = Some api"
      "engine ''0xeoa'' m' = Some \<lparr>wk_api = api, wk_tick = fresh_ticker (mg_store ?m), wk_running = True\<rparr>"
    using s idle f by (rule start_wallet_worker)
  with w(1) have "ap_funder (wk_api w) = ''me''"
    by (auto simp: demo_open demo_api_def)
  moreover have "map event_key (select_new_buy_fills [demo_trade] ''me'' {}) = [(''t1'', ''o1'')]"
    by (simp add: select_new_buy_fills_def ours_def demo_trade_def buy_event_of_def event_key_def upper_def upper_char_def)
  ultimately show ?thesis
    using w by (intro exI [of _ m'] exI [of _ w]) (simp add: s)
qed

lemma engine_start_witness:
  "\<exists>m'. start_all picky_services (\<lambda>a. demo_history)
      (demo_manager [demo_wallet_row ''0x1'' ''k'', demo_wallet_row ''0x2'' ''bad'', demo_wallet_row ''0x3'' ''k'']) = (False, m') \<and>
     map fst (mg_engines m') = [''0x1''] \<and> Scanner_started \<notin> set (mg_log m')"
proof -
  let ?rows = "[demo_wallet_row ''0x1'' ''k'', demo_wallet_row ''0x2'' ''bad'', demo_wallet_row ''0x3'' ''k'']" let ?m = "demo_manager ?rows"
  obtain ok m' where s: "start_all picky_services (\<lambda>a. demo_history) ?m = (ok, m')" by fastforce
  have "db_wallets (mg_db ?m) = ?rows" "mg_engines ?m = []" "mg_log ?m = []" "distinct (map wa_address (db_wallets (mg_db ?m)))"
    by (simp_all add: demo_manager_def demo_wallet_row_def)
  moreover have "openable picky_services ?rows = [demo_wallet_row ''0x1'' ''k'']"
    by (simp add: demo_open) (simp add: demo_wallet_row_def)
  ultimately show ?thesis
    using engine_starts_as_a_whole [OF _ _ _ s] s by (simp add: demo_open) (simp add: demo_wallet_row_def)
qed

text \<open>The wallet gets a proxy and the engine is restarted: scanning goes on without it.\<close>

lemma scan_account_witness:
  "mg_scan_api (fold run_op [Op_edit (set_wallet_proxy ''0xeoa'' ''host:1''), Op_restart demo_services (\<lambda>a. demo_history) (\<lambda>a. None)]
     (demo_manager [demo_wallet_row ''0xeoa'' ''k'']\<lparr>mg_scan_api := Some demo_api\<rparr>)) = Some demo_api"
  by (rule scan_account_never_changes) simp

end
