(* ===== verification/Wallet_Threads.thy ===== *)
theory Wallet_Threads
  imports Engine Rounds
begin

text \<open>
  The threads that work for one wallet (\<open>start_wallet\<close>, \<open>stop_wallet\<close>, \<open>place_all_orders\<close>, \<open>_place_round\<close> and
  \<open>test_place_orders\<close> in \<open>engine/manager.py\<close>, \<open>start\<close>, \<open>stop\<close> and \<open>_run\<close> of \<open>WalletWorker\<close>): requests of the
  pages that start and stop it, the monitors of its workers, and the threads that place orders for it, the
  loop of the scanner or another request. Nothing in the code holds a lock. A step is a stretch
  of one thread between two points at which another one can be seen to interleave; the requests to the
  exchange are such points, so a round acts one request at a time on what it read at its beginning.
\<close>

section \<open>State\<close>

text \<open>A round between the test whether the wallet runs and the reading of its orders, and what it still has to do.\<close>

datatype round_phase = Checked | Acting "pevent list"

text \<open>The wallet in the table of the manager, the number of starts past their test, the monitors alive, those
  whose event is set, those a stop is waiting for, the rounds under way, and the open buys at the exchange.\<close>

record desk =
  dk_worker :: "nat option"
  dk_next :: nat
  dk_starts :: nat
  dk_monitors :: "nat set"
  dk_told :: "nat set"
  dk_stops :: "nat set"
  dk_rounds :: "nat \<Rightarrow> round_phase option"
  dk_book :: "order list"

definition closed_desk :: desk where
  "closed_desk = \<lparr>dk_worker = None, dk_next = 0, dk_starts = 0, dk_monitors = {}, dk_told = {}, dk_stops = {},
     dk_rounds = Map.empty, dk_book = []\<rparr>"

text \<open>What a round is called with, beside the open orders it reads: the answers, the template, the entries, the limit,
  whether markets that dropped out are withdrawn, and the skips recorded before.\<close>

record order_call =
  oc_venue :: venue
  oc_template :: template
  oc_entries :: "entry list"
  oc_cap :: "nat option"
  oc_dropouts :: bool
  oc_skips :: "string \<Rightarrow> string option"

definition round_acts :: "order_call \<Rightarrow> order list \<Rightarrow> pevent list" where
  "round_acts c orders =
     rd_log (snd (place_orders ((oc_venue c)\<lparr>vn_orders := Some orders\<rparr>) (oc_template c) (oc_entries c) (oc_cap c) (oc_dropouts c) (oc_skips c)))"

section \<open>Steps\<close>

datatype desk_event =
    Start_asked
  | Start_failed
  | Installed
  | Stop_asked
  | Monitor_cancels nat "string list"
  | Monitor_ends nat
  | Stop_over nat bool bool
  | Round_asked nat
  | Test_asked nat
  | Round_reads nat order_call
  | Round_acts nat string
  | Round_over nat
  | Filled string

definition withdraw :: "string list \<Rightarrow> order list \<Rightarrow> order list" where
  "withdraw ids orders = filter (\<lambda>x. case o_id x of None \<Rightarrow> True | Some i \<Rightarrow> i \<notin> set ids) orders"

definition resting_buy :: "string \<Rightarrow> string \<Rightarrow> string \<Rightarrow> rat \<Rightarrow> int \<Rightarrow> order" where
  "resting_buy i mid token price n = \<lparr>o_id = Some i, o_market = mid, o_asset = token, o_side = ''BUY'', o_price = Some price,
     o_original = Some (of_int n), o_size = None, o_matched = None\<rparr>"

text \<open>One act of a round at the exchange; an accepted order gets the id \<open>i\<close>.\<close>

fun do_act :: "string \<Rightarrow> pevent \<Rightarrow> order list \<Rightarrow> order list" where
  "do_act i (P_cancel ids True) orders = withdraw ids orders"
| "do_act i (P_buy mid token price n True) orders = orders @ [resting_buy i mid token price n]"
| "do_act i _ orders = orders"

text \<open>
  None: the step is not possible. \<open>Stop_over w late answered\<close> ends a stop: its monitor has ended, or the 30 seconds
  are over (\<open>late\<close>); then the open buys are withdrawn, if the exchange answers.
\<close>

fun desk_step :: "desk_event \<Rightarrow> desk \<Rightarrow> desk option" where
  "desk_step Start_asked s = (if dk_worker s = None then Some (s\<lparr>dk_starts := dk_starts s + 1\<rparr>) else None)"
| "desk_step Start_failed s = (if 0 < dk_starts s then Some (s\<lparr>dk_starts := dk_starts s - 1\<rparr>) else None)"
| "desk_step Installed s =
     (if 0 < dk_starts s
      then Some (s\<lparr>dk_starts := dk_starts s - 1, dk_worker := Some (dk_next s), dk_monitors := insert (dk_next s) (dk_monitors s),
        dk_next := dk_next s + 1\<rparr>)
      else None)"
| "desk_step Stop_asked s =
     (case dk_worker s of
        None \<Rightarrow> None
      | Some w \<Rightarrow> Some (s\<lparr>dk_worker := None, dk_told := insert w (dk_told s), dk_stops := insert w (dk_stops s)\<rparr>))"
| "desk_step (Monitor_cancels w ids) s = (if w \<in> dk_monitors s then Some (s\<lparr>dk_book := withdraw ids (dk_book s)\<rparr>) else None)"
| "desk_step (Monitor_ends w) s =
     (if w \<in> dk_monitors s \<and> w \<in> dk_told s then Some (s\<lparr>dk_monitors := dk_monitors s - {w}\<rparr>) else None)"
| "desk_step (Stop_over w late answered) s =
     (if w \<in> dk_stops s \<and> (late \<or> w \<notin> dk_monitors s)
      then Some (s\<lparr>dk_stops := dk_stops s - {w},
        dk_book := if answered then withdraw (cancel_buy_orders (Some (dk_book s))) (dk_book s) else dk_book s\<rparr>)
      else None)"
| "desk_step (Round_asked t) s =
     (if dk_worker s \<noteq> None \<and> dk_rounds s t = None then Some (s\<lparr>dk_rounds := (dk_rounds s)(t \<mapsto> Checked)\<rparr>) else None)"
| "desk_step (Test_asked t) s = (if dk_rounds s t = None then Some (s\<lparr>dk_rounds := (dk_rounds s)(t \<mapsto> Checked)\<rparr>) else None)"
| "desk_step (Round_reads t c) s =
     (if dk_rounds s t = Some Checked then Some (s\<lparr>dk_rounds := (dk_rounds s)(t \<mapsto> Acting (round_acts c (dk_book s)))\<rparr>) else None)"
| "desk_step (Round_acts t i) s =
     (case dk_rounds s t of
        Some (Acting (e # es)) \<Rightarrow> Some (s\<lparr>dk_rounds := (dk_rounds s)(t \<mapsto> Acting es), dk_book := do_act i e (dk_book s)\<rparr>)
      | _ \<Rightarrow> None)"
| "desk_step (Round_over t) s =
     (case dk_rounds s t of Some (Acting []) \<Rightarrow> Some (s\<lparr>dk_rounds := (dk_rounds s)(t := None)\<rparr>) | _ \<Rightarrow> None)"
| "desk_step (Filled i) s = Some (s\<lparr>dk_book := withdraw [i] (dk_book s)\<rparr>)"

inductive desk_run :: "desk \<Rightarrow> desk_event list \<Rightarrow> desk \<Rightarrow> bool" where
  still: "desk_run s [] s"
| onward: "desk_run s es s' \<Longrightarrow> desk_step e s' = Some s'' \<Longrightarrow> desk_run s (es @ [e]) s''"

fun play :: "desk_event list \<Rightarrow> desk \<Rightarrow> desk option" where
  "play [] s = Some s"
| "play (e # es) s = (case desk_step e s of None \<Rightarrow> None | Some s' \<Rightarrow> play es s')"

lemma desk_run_step: "desk_run s1 es s2 \<Longrightarrow> desk_step e s0 = Some s1 \<Longrightarrow> desk_run s0 (e # es) s2"
proof (induction s1 es s2 rule: desk_run.induct)
  case (still s)
  then show ?case using desk_run.onward [OF desk_run.still still] by simp
next
  case (onward s es s' e' s'')
  then show ?case using desk_run.onward [of s0 "e # es" s' e' s''] by simp
qed

lemma play_run: "play es s = Some s' \<Longrightarrow> desk_run s es s'"
  by (induction es arbitrary: s) (auto intro: desk_run.still desk_run_step split: option.splits)

section \<open>Orderly use\<close>

text \<open>
  One thing at a time: a start only when none is under way and no stop either, a stop only when no start and no
  round is under way, a round only when no other one is; no test orders; every stop sees its monitor end and the
  exchange answers it.
\<close>

fun in_order :: "desk_event \<Rightarrow> desk \<Rightarrow> bool" where
  "in_order Start_asked s = (dk_starts s = 0 \<and> dk_stops s = {})"
| "in_order Stop_asked s = (dk_starts s = 0 \<and> dk_rounds s = Map.empty)"
| "in_order (Stop_over w late answered) s = (\<not> late \<and> answered)"
| "in_order (Round_asked t) s = (dk_rounds s = Map.empty)"
| "in_order (Test_asked t) s = False"
| "in_order e s = True"

inductive in_order_run :: "desk_event list \<Rightarrow> desk \<Rightarrow> bool" where
  closed: "in_order_run [] closed_desk"
| onward: "in_order_run es s \<Longrightarrow> in_order e s \<Longrightarrow> desk_step e s = Some s' \<Longrightarrow> in_order_run (es @ [e]) s'"

text \<open>One monitor, the one in the table; buys rest and rounds run only while there is a worker in the table or, the
  buys, a stop that will still withdraw them.\<close>

definition one_monitor :: "desk \<Rightarrow> bool" where
  "one_monitor s \<longleftrightarrow>
     dk_monitors s - dk_told s = (case dk_worker s of None \<Rightarrow> {} | Some w \<Rightarrow> {w}) \<and>
     dk_monitors s \<inter> dk_told s \<subseteq> dk_stops s \<and>
     dk_stops s \<subseteq> dk_told s \<and>
     (\<forall>w \<in> dk_monitors s \<union> dk_told s. w < dk_next s) \<and>
     (dk_worker s \<noteq> None \<longrightarrow> dk_starts s = 0 \<and> dk_stops s = {}) \<and>
     (dk_starts s \<le> 1 \<and> (0 < dk_starts s \<longrightarrow> dk_stops s = {}))"

definition attended :: "desk \<Rightarrow> bool" where
  "attended s \<longleftrightarrow>
     one_monitor s \<and>
     (dk_rounds s \<noteq> Map.empty \<longrightarrow> dk_worker s \<noteq> None) \<and>
     (dk_book s \<noteq> [] \<longrightarrow> dk_worker s \<noteq> None \<or> dk_stops s \<noteq> {}) \<and>
     (\<forall>x \<in> set (dk_book s). is_buy x \<and> o_id x \<noteq> None)"

lemma withdraw_subset: "set (withdraw ids orders) \<subseteq> set orders"
  by (auto simp: withdraw_def)

lemma withdraw_nil [simp]: "withdraw ids [] = []"
  by (simp add: withdraw_def)

lemma withdraw_buys:
  assumes "\<forall>x \<in> set orders. is_buy x \<and> o_id x \<noteq> None"
  shows "withdraw (cancel_buy_orders (Some orders)) orders = []"
proof -
  have "filter is_buy orders = orders" using assms by (simp add: filter_id_conv)
  moreover have "list_all (\<lambda>x. o_id x \<noteq> None) orders" using assms by (simp add: list_all_iff)
  ultimately have "cancel_buy_orders (Some orders) = map (\<lambda>x. the (o_id x)) orders"
    by (simp add: cancel_buy_orders_def)
  then show ?thesis
    using assms by (auto simp: withdraw_def filter_empty_conv image_iff split: option.splits dest!: bspec) force
qed

lemma resting_buy_is [simp]: "is_buy (resting_buy i mid token price n)" "o_id (resting_buy i mid token price n) = Some i"
  by (simp_all add: resting_buy_def is_buy_def)

lemma do_act_buys: "x \<in> set (do_act i e orders) \<Longrightarrow> x \<in> set orders \<or> is_buy x \<and> o_id x \<noteq> None"
  by (cases "(i, e, orders)" rule: do_act.cases) (auto simp: withdraw_def)

lemma desk_step_round_acts:
  "desk_step (Round_acts t i) s = Some s' \<longleftrightarrow>
     (\<exists>e es. dk_rounds s t = Some (Acting (e # es)) \<and> s' = s\<lparr>dk_rounds := (dk_rounds s)(t \<mapsto> Acting es), dk_book := do_act i e (dk_book s)\<rparr>)"
  by (auto split: option.splits round_phase.splits list.splits)

lemma desk_step_round_over:
  "desk_step (Round_over t) s = Some s' \<longleftrightarrow> dk_rounds s t = Some (Acting []) \<and> s' = s\<lparr>dk_rounds := (dk_rounds s)(t := None)\<rparr>"
  by (auto split: option.splits round_phase.splits list.splits)

lemma one_monitor_unchanged [simp]:
  "one_monitor (s\<lparr>dk_book := b\<rparr>) = one_monitor s" "one_monitor (s\<lparr>dk_rounds := r\<rparr>) = one_monitor s"
  by (simp_all add: one_monitor_def)

lemma one_monitor_stop:
  "one_monitor s \<Longrightarrow> dk_worker s = Some w \<Longrightarrow>
     one_monitor (s\<lparr>dk_worker := None, dk_told := insert w (dk_told s), dk_stops := insert w (dk_stops s)\<rparr>)"
  by (auto simp: one_monitor_def)

lemma one_monitor_stopped:
  "one_monitor s \<Longrightarrow> w \<notin> dk_monitors s \<Longrightarrow> one_monitor (s\<lparr>dk_stops := dk_stops s - {w}\<rparr>)"
  by (auto simp: one_monitor_def)

lemma one_monitor_ends:
  "one_monitor s \<Longrightarrow> w \<in> dk_told s \<Longrightarrow> one_monitor (s\<lparr>dk_monitors := dk_monitors s - {w}\<rparr>)"
proof -
  assume "w \<in> dk_told s"
  then have "dk_monitors s - {w} - dk_told s = dk_monitors s - dk_told s" by blast
  then show "one_monitor s \<Longrightarrow> one_monitor (s\<lparr>dk_monitors := dk_monitors s - {w}\<rparr>)"
    by (auto simp: one_monitor_def)
qed

lemma one_monitor_start:
  assumes "one_monitor s" and "0 < dk_starts s"
  shows "one_monitor (s\<lparr>dk_starts := dk_starts s - 1, dk_worker := Some (dk_next s), dk_monitors := insert (dk_next s) (dk_monitors s),
    dk_next := dk_next s + 1\<rparr>)"
proof -
  have w: "dk_worker s = None" "dk_stops s = {}" "dk_starts s = 1" using assms by (auto simp: one_monitor_def)
  have n: "dk_next s \<notin> dk_monitors s \<union> dk_told s" using assms(1) by (auto simp: one_monitor_def)
  have m: "dk_monitors s - dk_told s = {}" "dk_monitors s \<inter> dk_told s \<subseteq> dk_stops s" "dk_stops s \<subseteq> dk_told s"
    "\<forall>w \<in> dk_monitors s \<union> dk_told s. w < dk_next s" using assms(1) w by (simp_all add: one_monitor_def)
  then have "insert (dk_next s) (dk_monitors s) - dk_told s = {dk_next s}" using n by blast
  moreover have "insert (dk_next s) (dk_monitors s) \<inter> dk_told s \<subseteq> dk_stops s" using m n by blast
  ultimately show ?thesis using m w by (simp add: one_monitor_def less_Suc_eq)
qed

lemma attended_book: "attended s \<Longrightarrow> set b \<subseteq> set (dk_book s) \<Longrightarrow> attended (s\<lparr>dk_book := b\<rparr>)"
  by (auto simp: attended_def subset_iff)

lemma attended_act:
  assumes "attended s" and "dk_rounds s t = Some p"
  shows "attended (s\<lparr>dk_rounds := (dk_rounds s)(t := q), dk_book := do_act i a (dk_book s)\<rparr>)"
proof -
  have w: "dk_worker s \<noteq> None" using assms by (auto simp: attended_def)
  have "is_buy x \<and> o_id x \<noteq> None" if "x \<in> set (do_act i a (dk_book s))" for x
    using do_act_buys [OF that] assms(1) by (auto simp: attended_def)
  with assms(1) w show ?thesis by (simp add: attended_def)
qed

lemma attended_rounds:
  assumes "attended s" and "dk_worker s \<noteq> None \<or> r = Map.empty"
  shows "attended (s\<lparr>dk_rounds := r\<rparr>)"
  using assms by (auto simp: attended_def)

lemma attended_stop_over:
  assumes "attended s" and "w \<notin> dk_monitors s"
  shows "attended (s\<lparr>dk_stops := dk_stops s - {w}, dk_book := withdraw (cancel_buy_orders (Some (dk_book s))) (dk_book s)\<rparr>)"
proof -
  have b: "withdraw (cancel_buy_orders (Some (dk_book s))) (dk_book s) = []"
    using assms(1) by (intro withdraw_buys) (simp add: attended_def)
  show ?thesis using assms by (simp add: attended_def b one_monitor_stopped)
qed

lemma attended_step:
  assumes "attended s" and "in_order e s" and "desk_step e s = Some s'"
  shows "attended s'"
proof (cases e)
  case (Round_acts t i)
  with assms(3) show ?thesis by (auto simp only: desk_step_round_acts intro: attended_act [OF assms(1)])
next
  case (Round_over t)
  with assms(3) have a: "dk_rounds s t = Some (Acting [])" and s': "s' = s\<lparr>dk_rounds := (dk_rounds s)(t := None)\<rparr>"
    by (simp_all only: desk_step_round_over)
  have "dk_worker s \<noteq> None" using a assms(1) by (auto simp: attended_def)
  then show ?thesis unfolding s' by (intro attended_rounds assms(1) disjI1)
next
  case (Round_reads t c)
  with assms(3) have a: "dk_rounds s t = Some Checked"
    and s': "s' = s\<lparr>dk_rounds := (dk_rounds s)(t \<mapsto> Acting (round_acts c (dk_book s)))\<rparr>" by (simp_all split: if_splits)
  have "dk_worker s \<noteq> None" using a assms(1) by (auto simp: attended_def)
  then show ?thesis unfolding s' by (intro attended_rounds assms(1) disjI1)
next
  case (Round_asked t)
  with assms have "dk_worker s \<noteq> None" and s': "s' = s\<lparr>dk_rounds := (dk_rounds s)(t \<mapsto> Checked)\<rparr>" by (simp_all split: if_splits)
  then show ?thesis unfolding s' by (intro attended_rounds assms(1) disjI1)
next
  case (Stop_over w late answered)
  with assms have o: "w \<notin> dk_monitors s"
    and s': "s' = s\<lparr>dk_stops := dk_stops s - {w}, dk_book := withdraw (cancel_buy_orders (Some (dk_book s))) (dk_book s)\<rparr>"
    by (simp_all split: if_splits)
  show ?thesis unfolding s' by (rule attended_stop_over [OF assms(1) o])
next
  case Stop_asked
  with assms obtain w where w: "dk_worker s = Some w" "dk_rounds s = Map.empty"
    and s': "s' = s\<lparr>dk_worker := None, dk_told := insert w (dk_told s), dk_stops := insert w (dk_stops s)\<rparr>"
    by (auto split: option.splits)
  from assms(1) w one_monitor_stop [OF _ w(1)] show ?thesis unfolding s' by (simp add: attended_def)
next
  case Installed
  with assms have i: "0 < dk_starts s" and
    s': "s' = s\<lparr>dk_starts := dk_starts s - 1, dk_worker := Some (dk_next s), dk_monitors := insert (dk_next s) (dk_monitors s), dk_next := dk_next s + 1\<rparr>"
    by (simp_all split: if_splits)
  from assms(1) one_monitor_start [OF _ i] show ?thesis unfolding s' by (simp add: attended_def)
next
  case (Monitor_cancels w ids)
  with assms have s': "s' = s\<lparr>dk_book := withdraw ids (dk_book s)\<rparr>" by (simp split: if_splits)
  show ?thesis unfolding s' by (rule attended_book [OF assms(1) withdraw_subset])
next
  case (Filled i)
  with assms have s': "s' = s\<lparr>dk_book := withdraw [i] (dk_book s)\<rparr>" by simp
  show ?thesis unfolding s' by (rule attended_book [OF assms(1) withdraw_subset])
next
  case (Monitor_ends w)
  with assms have w: "w \<in> dk_told s" and s': "s' = s\<lparr>dk_monitors := dk_monitors s - {w}\<rparr>" by (simp_all split: if_splits)
  from assms(1) one_monitor_ends [OF _ w] show ?thesis unfolding s' by (simp add: attended_def)
next
  case Start_asked
  with assms have s': "s' = s\<lparr>dk_starts := dk_starts s + 1\<rparr>" "dk_worker s = None" "dk_starts s = 0" "dk_stops s = {}" by (simp_all split: if_splits)
  from assms(1) s'(2-) show ?thesis unfolding s'(1) by (simp add: attended_def one_monitor_def)
next
  case Start_failed
  with assms have s': "s' = s\<lparr>dk_starts := dk_starts s - 1\<rparr>" "0 < dk_starts s" by (simp_all split: if_splits)
  from assms(1) s'(2) show ?thesis unfolding s'(1) by (auto simp: attended_def one_monitor_def)
qed (use assms in simp)

lemma closed_attended: "attended closed_desk"
  by (simp add: attended_def one_monitor_def closed_desk_def)

lemma in_order_attended: "in_order_run es s \<Longrightarrow> attended s"
proof (induction rule: in_order_run.induct)
  case (onward es s e s')
  then show ?case using attended_step by blast
qed (rule closed_attended)

section \<open>A monitor nobody can stop\<close>

text \<open>A monitor whose worker is not in the table and whose event is not set.\<close>

definition orphaned :: "nat \<Rightarrow> desk \<Rightarrow> bool" where
  "orphaned w s \<longleftrightarrow> w \<in> dk_monitors s \<and> w \<notin> dk_told s \<and> dk_worker s \<noteq> Some w \<and> w < dk_next s"

lemma orphaned_step: "desk_step e s = Some s' \<Longrightarrow> orphaned w s \<Longrightarrow> orphaned w s'"
  by (cases "(e, s)" rule: desk_step.cases)
    (auto simp: orphaned_def split: if_splits option.splits round_phase.splits list.splits)

lemma orphaned_stays: "desk_run s es s' \<Longrightarrow> orphaned w s \<Longrightarrow> orphaned w s'"
  by (induction rule: desk_run.induct) (auto intro: orphaned_step)

text \<open>A monitor that no continuation ends or even tells to end.\<close>

definition never_stops :: "nat \<Rightarrow> desk \<Rightarrow> bool" where
  "never_stops w s \<longleftrightarrow> (\<forall>es s'. desk_run s es s' \<longrightarrow> w \<in> dk_monitors s' \<and> w \<notin> dk_told s')"

lemma orphaned_never_stops: "orphaned w s \<Longrightarrow> never_stops w s"
  using orphaned_stays by (auto simp: never_stops_def orphaned_def)

definition two_start_requests :: "desk_event list" where
  "two_start_requests = [Start_asked, Start_asked, Installed, Installed]"

lemma two_starts_orphan: "\<exists>s. play two_start_requests closed_desk = Some s \<and> orphaned 0 s \<and> dk_worker s = Some 1 \<and> dk_monitors s = {0, 1}"
  by (auto simp: two_start_requests_def closed_desk_def orphaned_def)

text \<open>A round that has read does all it planned, whatever else goes on: these are its remaining steps.\<close>

definition rest_of_round :: "nat \<Rightarrow> string \<Rightarrow> pevent list \<Rightarrow> desk_event list" where
  "rest_of_round t i es = replicate (length es) (Round_acts t i) @ [Round_over t]"

lemma acts_play:
  "dk_rounds s t = Some (Acting es) \<Longrightarrow>
     play (rest_of_round t i es) s = Some (s\<lparr>dk_rounds := (dk_rounds s)(t := None), dk_book := fold (do_act i) es (dk_book s)\<rparr>)"
proof (induction es arbitrary: s)
  case Nil
  then show ?case by (cases s) (simp add: rest_of_round_def fun_upd_def)
next
  case (Cons e es)
  let ?s = "s\<lparr>dk_rounds := (dk_rounds s)(t \<mapsto> Acting es), dk_book := do_act i e (dk_book s)\<rparr>"
  have "dk_rounds ?s t = Some (Acting es)" by simp
  from Cons.IH [OF this] Cons.prems show ?case
    by (cases s) (simp add: rest_of_round_def fun_eq_iff)
qed

lemma play_append: "play (es @ fs) s = (case play es s of None \<Rightarrow> None | Some u \<Rightarrow> play fs u)"
  by (induction es arbitrary: s) (auto split: option.splits)

definition demo_call :: order_call where
  "demo_call = \<lparr>oc_venue = demo_venue, oc_template = demo_template, oc_entries = demo_entries, oc_cap = None, oc_dropouts = True,
     oc_skips = Map.empty\<rparr>"

lemma demo_acts: "fold (do_act i) (round_acts demo_call []) orders = orders @ [resting_buy i ''m'' ''y'' (2/5) 32]"
proof -
  have "demo_venue\<lparr>vn_orders := Some []\<rparr> = demo_venue" by (simp add: demo_venue_def)
  moreover obtain r where "place_orders demo_venue demo_template demo_entries None True Map.empty = (Go, r)" "demo_logged (rd_log r)"
    using demo_round_log [of demo_entries "Some (''n'', demo_side)" None] by blast
  ultimately obtain rest where acts: "round_acts demo_call [] = P_buy ''m'' ''y'' (2/5) 32 True # rest"
    "\<forall>e \<in> set rest. \<exists>a b c d. e = P_placed a b c d"
    by (auto simp: round_acts_def demo_call_def demo_logged_def)
  have "fold (do_act i) rest xs = xs" for xs
    using acts(2) by (induction rest) auto
  with acts(1) show ?thesis by simp
qed

text \<open>A stop while a round is between its test and its reading: the monitor of the wallet ends, the stop withdraws the buys that
  rest and is over, and then the round reads and does what it planned.\<close>

definition stop_in_a_round :: "nat \<Rightarrow> nat \<Rightarrow> order_call \<Rightarrow> desk_event list" where
  "stop_in_a_round w t c = [Stop_asked, Monitor_ends w, Stop_over w False True, Round_reads t c]"

lemma stopped_in_a_round:
  assumes "dk_worker s = Some w" and "dk_monitors s = {w}" and "dk_rounds s = [t \<mapsto> Checked]" and "dk_stops s = {}"
  defines "left \<equiv> withdraw (cancel_buy_orders (Some (dk_book s))) (dk_book s)"
  shows "play (stop_in_a_round w t c @ rest_of_round t i (round_acts c left)) s =
    Some (s\<lparr>dk_worker := None, dk_told := insert w (dk_told s), dk_monitors := {}, dk_rounds := Map.empty,
      dk_book := fold (do_act i) (round_acts c left) left\<rparr>)"
proof -
  let ?u = "s\<lparr>dk_worker := None, dk_told := insert w (dk_told s), dk_monitors := {}, dk_stops := {},
      dk_rounds := [t \<mapsto> Acting (round_acts c left)], dk_book := left\<rparr>"
  have "play (stop_in_a_round w t c) s = Some ?u"
    using assms by (cases s) (simp add: stop_in_a_round_def left_def)
  moreover have "play (rest_of_round t i (round_acts c left)) ?u =
      Some (?u\<lparr>dk_rounds := (dk_rounds ?u)(t := None), dk_book := fold (do_act i) (round_acts c left) (dk_book ?u)\<rparr>)"
    by (rule acts_play) simp
  ultimately show ?thesis using assms(4) by (cases s) (simp add: play_append)
qed

text \<open>Two rounds that both read before either of them acts.\<close>

definition two_rounds :: "order_call \<Rightarrow> order list \<Rightarrow> string \<Rightarrow> string \<Rightarrow> desk_event list" where
  "two_rounds c book i j = [Round_asked 0, Round_asked 1, Round_reads 0 c, Round_reads 1 c] @
     rest_of_round 0 i (round_acts c book) @ rest_of_round 1 j (round_acts c book)"

lemma two_rounds_at_once:
  assumes "dk_worker s \<noteq> None" and "dk_rounds s = Map.empty"
  shows "play (two_rounds c (dk_book s) i j) s =
    Some (s\<lparr>dk_book := fold (do_act j) (round_acts c (dk_book s)) (fold (do_act i) (round_acts c (dk_book s)) (dk_book s))\<rparr>)"
proof -
  let ?a = "round_acts c (dk_book s)"
  let ?u = "s\<lparr>dk_rounds := [0 \<mapsto> Acting ?a, 1 \<mapsto> Acting ?a]\<rparr>"
  let ?v = "s\<lparr>dk_rounds := [1 \<mapsto> Acting ?a], dk_book := fold (do_act i) ?a (dk_book s)\<rparr>"
  have "play [Round_asked 0, Round_asked 1, Round_reads 0 c, Round_reads 1 c] s = Some ?u"
    using assms by (cases s) (auto simp: fun_eq_iff)
  moreover have "play (rest_of_round 0 i ?a) ?u = Some ?v"
    using acts_play [of ?u 0 ?a i] by (cases s) (simp add: fun_upd_twist)
  moreover have "play (rest_of_round 1 j ?a) ?v = Some (s\<lparr>dk_book := fold (do_act j) ?a (fold (do_act i) ?a (dk_book s))\<rparr>)"
    using acts_play [of ?v 1 ?a j] assms(2) by (cases s) simp
  ultimately show ?thesis unfolding two_rounds_def play_append by simp
qed

section \<open>The wallet and its threads\<close>

text \<open>C24: One monitor a wallet, and no buy without it, if nothing overlaps. In runs where starts, stops and rounds of a wallet
  never overlap, stops see their monitor end and are answered, and no test orders are placed, a wallet in the table has exactly one
  monitor, its own; and once it is out of the table and the stop is over, no monitor lives, no round is under
  way and no buy of it rests at the exchange.\<close>

theorem attended_wallet:
  assumes "in_order_run es s"
  shows "case dk_worker s of
      Some w \<Rightarrow> dk_monitors s = {w} \<and> w \<notin> dk_told s
    | None \<Rightarrow> dk_stops s = {} \<longrightarrow> dk_monitors s = {} \<and> dk_rounds s = Map.empty \<and> dk_book s = []"
proof (cases "dk_worker s")
  case None
  with in_order_attended [OF assms] show ?thesis by (auto simp: attended_def one_monitor_def)
next
  case (Some w)
  have "one_monitor s" using in_order_attended [OF assms] by (simp add: attended_def)
  then have "dk_monitors s \<inter> dk_told s \<subseteq> dk_stops s" and "dk_worker s \<noteq> None \<longrightarrow> dk_stops s = {}"
    and "dk_monitors s - dk_told s = (case dk_worker s of None \<Rightarrow> {} | Some w \<Rightarrow> {w})"
    unfolding one_monitor_def by blast+
  with Some have "dk_monitors s - dk_told s = {w}" "dk_monitors s \<inter> dk_told s \<subseteq> {}" by auto
  then have "dk_monitors s = {w}" "w \<notin> dk_told s" by blast+
  with Some show ?thesis by simp
qed

text \<open>C27: Nothing in the code keeps the threads of a wallet apart. Two requests that start a wallet at the same time leave two
  monitors, and from then on, whatever is started, stopped or placed, the first keeps running: no stop reaches it any more. When a
  wallet with one monitor is stopped while a round is past its test, the stop ends the monitor, withdraws the resting
  buys and is over, and then the round does all that it plans on what is left: these buys rest with no
  monitor and no worker (the call of the example buys 32 shares). And two rounds that read before either acts both do all they
  planned on the same reading: the call of the example, on a wallet without orders, buys the same token twice.\<close>

theorem threads_of_a_wallet_race:
  "(\<exists>s. play [Start_asked, Start_asked, Installed, Installed] closed_desk = Some s \<and> dk_worker s = Some 1 \<and> never_stops 0 s) \<and>
   (\<forall>s w t c. dk_worker s = Some w \<and> dk_monitors s = {w} \<and> dk_rounds s = [t \<mapsto> Checked] \<and> dk_stops s = {} \<longrightarrow>
      (let left = withdraw (cancel_buy_orders (Some (dk_book s))) (dk_book s); acts = round_acts c left in
       \<exists>s'. play ([Stop_asked, Monitor_ends w, Stop_over w False True, Round_reads t c] @ replicate (length acts) (Round_acts t i) @ [Round_over t]) s =
           Some s' \<and> dk_worker s' = None \<and> dk_stops s' = {} \<and> dk_monitors s' = {} \<and> dk_rounds s' = Map.empty \<and>
         dk_book s' = fold (do_act i) acts left)) \<and>
   (\<forall>s c. dk_worker s \<noteq> None \<and> dk_rounds s = Map.empty \<longrightarrow>
      (\<exists>s'. play (two_rounds c (dk_book s) i j) s = Some s' \<and>
         dk_book s' = fold (do_act j) (round_acts c (dk_book s)) (fold (do_act i) (round_acts c (dk_book s)) (dk_book s)))) \<and>
   fold (do_act i) (round_acts demo_call []) [] = [resting_buy i ''m'' ''y'' (2/5) 32] \<and>
   fold (do_act j) (round_acts demo_call []) (fold (do_act i) (round_acts demo_call []) []) =
     [resting_buy i ''m'' ''y'' (2/5) 32, resting_buy j ''m'' ''y'' (2/5) 32]"
proof (intro conjI)
  obtain s where s: "play two_start_requests closed_desk = Some s" "orphaned 0 s" "dk_worker s = Some 1"
    using two_starts_orphan by blast
  from orphaned_never_stops [OF s(2)] s(1,3)
  show "\<exists>s. play [Start_asked, Start_asked, Installed, Installed] closed_desk = Some s \<and> dk_worker s = Some 1 \<and> never_stops 0 s"
    unfolding two_start_requests_def by blast
  show "\<forall>s w t c. dk_worker s = Some w \<and> dk_monitors s = {w} \<and> dk_rounds s = [t \<mapsto> Checked] \<and> dk_stops s = {} \<longrightarrow>
      (let left = withdraw (cancel_buy_orders (Some (dk_book s))) (dk_book s); acts = round_acts c left in
       \<exists>s'. play ([Stop_asked, Monitor_ends w, Stop_over w False True, Round_reads t c] @ replicate (length acts) (Round_acts t i) @ [Round_over t]) s =
           Some s' \<and> dk_worker s' = None \<and> dk_stops s' = {} \<and> dk_monitors s' = {} \<and> dk_rounds s' = Map.empty \<and>
         dk_book s' = fold (do_act i) acts left)"
    using stopped_in_a_round unfolding stop_in_a_round_def rest_of_round_def Let_def by (intro allI impI) (elim conjE, simp del: play.simps)
  show "\<forall>s c. dk_worker s \<noteq> None \<and> dk_rounds s = Map.empty \<longrightarrow>
      (\<exists>s'. play (two_rounds c (dk_book s) i j) s = Some s' \<and>
         dk_book s' = fold (do_act j) (round_acts c (dk_book s)) (fold (do_act i) (round_acts c (dk_book s)) (dk_book s)))"
    using two_rounds_at_once by (intro allI impI) (elim conjE, simp)
qed (simp_all add: demo_acts)

lemma threads_race_witness:
  "\<exists>s s'. play [Start_asked, Installed, Round_asked 0] closed_desk = Some s \<and>
     play ([Stop_asked, Monitor_ends 0, Stop_over 0 False True, Round_reads 0 demo_call] @
       replicate (length (round_acts demo_call [])) (Round_acts 0 ''a'') @ [Round_over 0]) s = Some s' \<and>
     dk_monitors s' = {} \<and> dk_book s' = [resting_buy ''a'' ''m'' ''y'' (2/5) 32]"
proof -
  obtain s where s: "play [Start_asked, Installed, Round_asked 0] closed_desk = Some s" "dk_worker s = Some 0" "dk_monitors s = {0}"
    "dk_rounds s = [0 \<mapsto> Checked]" "dk_stops s = {}" "dk_book s = []" by (simp add: closed_desk_def)
  from threads_of_a_wallet_race [of "''a''" "''b''"] s(2-5) obtain s' where
    "play ([Stop_asked, Monitor_ends 0, Stop_over 0 False True, Round_reads 0 demo_call] @
       replicate (length (round_acts demo_call [])) (Round_acts 0 ''a'') @ [Round_over 0]) s = Some s'"
    "dk_monitors s' = {}" "dk_book s' = fold (do_act ''a'') (round_acts demo_call []) []"
    unfolding Let_def s(6) [symmetric] by (metis (no_types, lifting) s(6) withdraw_nil)
  with s(1) show ?thesis by (auto simp: demo_acts)
qed

section \<open>A run\<close>

lemma play_in_order:
  "in_order_run es s \<Longrightarrow> in_order e s \<Longrightarrow> desk_step e s = Some s' \<Longrightarrow> \<exists>es'. in_order_run es' s'"
  using in_order_run.onward by blast

lemma attended_wallet_witness:
  "\<exists>es s. in_order_run es s \<and> dk_worker s = None \<and> dk_told s = {0} \<and> dk_monitors s = {} \<and> dk_book s = []"
proof -
  let ?s = "\<lparr>dk_worker = None, dk_next = 1, dk_starts = 0, dk_monitors = {}, dk_told = {0}, dk_stops = {}, dk_rounds = Map.empty, dk_book = []\<rparr>"
  have "\<exists>es. in_order_run es \<lparr>dk_worker = None, dk_next = 0, dk_starts = 1, dk_monitors = {}, dk_told = {}, dk_stops = {}, dk_rounds = Map.empty, dk_book = []\<rparr>"
    by (rule play_in_order [OF in_order_run.closed, of Start_asked]) (simp_all add: closed_desk_def)
  then have "\<exists>es. in_order_run es \<lparr>dk_worker = Some 0, dk_next = 1, dk_starts = 0, dk_monitors = {0}, dk_told = {}, dk_stops = {}, dk_rounds = Map.empty, dk_book = []\<rparr>"
    by (elim exE) (erule play_in_order [of _ _ Installed], simp_all)
  then have "\<exists>es. in_order_run es \<lparr>dk_worker = None, dk_next = 1, dk_starts = 0, dk_monitors = {0}, dk_told = {0}, dk_stops = {0}, dk_rounds = Map.empty, dk_book = []\<rparr>"
    by (elim exE) (erule play_in_order [of _ _ Stop_asked], simp_all)
  then have "\<exists>es. in_order_run es \<lparr>dk_worker = None, dk_next = 1, dk_starts = 0, dk_monitors = {}, dk_told = {0}, dk_stops = {0}, dk_rounds = Map.empty, dk_book = []\<rparr>"
    by (elim exE) (erule play_in_order [of _ _ "Monitor_ends 0"], simp_all)
  then have "\<exists>es. in_order_run es ?s"
    by (elim exE) (erule play_in_order [of _ _ "Stop_over 0 False True"], simp_all)
  then obtain es where r: "in_order_run es ?s" by blast
  have "dk_monitors ?s = {} \<and> dk_book ?s = []" using attended_wallet [OF r] by simp
  then show ?thesis using r by (intro exI [of _ es] exI [of _ ?s]) simp
qed

end
