(* ===== verification/Context.thy ===== *)
theory Context
  imports Client
begin

text \<open>
  The mutable "current proxy" (\<open>current_proxy\<close>, \<open>use_proxy\<close>, \<open>parallel_map\<close>, \<open>_ProxiedClient\<close>, \<open>install_clob_proxy\<close> in
  \<open>api/proxy.py\<close>, \<open>_proxied\<close> in \<open>api/polymarket_api.py\<close>, \<open>_worker_proxied\<close> in \<open>engine/manager.py\<close>). The other theories read
  it as an argument of a network action; here it is the variable of the code, set on entry and reset on exit,
  also by an exception, and each thread has its own. The main result is that the two agree.
\<close>

section \<open>Code that uses the network\<close>

text \<open>
  What runs in one context: a request, going on with its outcome (which may be to raise), sequence, \<open>try\<close>/\<open>except\<close>, \<open>with
  use_proxy(url)\<close>, and \<open>parallel_map\<close> over items, each with its task.
\<close>

datatype ('q, 'a) action =
    Done
  | Raise
  | Ask 'q "'a attempt \<Rightarrow> ('q, 'a) action"
  | Then "('q, 'a) action" "('q, 'a) action"
  | Try "('q, 'a) action" "('q, 'a) action"
  | With_proxy "string option" "('q, 'a) action"
  | Tasks "('q, 'a) action list"

text \<open>A run: whether an exception leaves it, the variable afterwards, and the requests with their way out.\<close>

type_synonym 'q ran = "bool \<times> string option \<times> (string option \<times> 'q) list"

definition after :: "'q ran \<Rightarrow> (string option \<Rightarrow> 'q ran) \<Rightarrow> 'q ran" where
  "after r next = (case r of (raised, v, sent) \<Rightarrow> let (raised', v', sent') = next v in (raised', v', sent @ sent'))"

text \<open>\<open>token = set(url)\<close>, the body, and \<open>finally: reset(token)\<close>; the token holds the value before.\<close>

definition scoped :: "string option \<Rightarrow> (string option \<Rightarrow> 'q ran) \<Rightarrow> string option \<Rightarrow> 'q ran" where
  "scoped url body v = (let token = v; (raised, v', sent) = body url in (raised, token, sent))"

text \<open>
  A pool of workers: each has a context of its own, in which the variable is None; it is set to the value of the
  caller for the task. The first exception of a task is raised when the results are collected. (Tasks that were not
  begun by then are dropped; their requests are counted all the same.)
\<close>

definition pooled :: "(string option \<Rightarrow> 'q ran) list \<Rightarrow> string option \<Rightarrow> 'q ran" where
  "pooled tasks v =
     (let rs = map (\<lambda>task. scoped v task None) tasks
      in (list_ex fst rs, v, concat (map (\<lambda>r. snd (snd r)) rs)))"

primrec exec :: "(string option \<Rightarrow> 'q \<Rightarrow> nat \<Rightarrow> 'a attempt) \<Rightarrow> ('q, 'a) action \<Rightarrow> string option \<Rightarrow> 'q ran" where
  "exec answer Done = (\<lambda>v. (False, v, []))"
| "exec answer Raise = (\<lambda>v. (True, v, []))"
| "exec answer (Ask q k) = (\<lambda>v. let (r, sent) = http_request answer q v in after (False, v, sent) (exec answer (k r)))"
| "exec answer (Then a b) = (\<lambda>v. let r = exec answer a v in if fst r then r else after r (exec answer b))"
| "exec answer (Try a b) = (\<lambda>v. let r = exec answer a v in if fst r then after r (exec answer b) else r)"
| "exec answer (With_proxy url a) = scoped url (exec answer a)"
| "exec answer (Tasks as) = pooled (map (exec answer) as)"

section \<open>The proxy as an argument\<close>

primrec reads :: "(string option \<Rightarrow> 'q \<Rightarrow> nat \<Rightarrow> 'a attempt) \<Rightarrow> ('q, 'a) action \<Rightarrow> ('q, bool) net" where
  "reads answer Done = ret False"
| "reads answer Raise = ret True"
| "reads answer (Ask q k) = chain (http_request answer q) (\<lambda>r. reads answer (k r))"
| "reads answer (Then a b) = chain (reads answer a) (\<lambda>raised. if raised then ret True else reads answer b)"
| "reads answer (Try a b) = chain (reads answer a) (\<lambda>raised. if raised then reads answer b else ret False)"
| "reads answer (With_proxy url a) = use_proxy url (reads answer a)"
| "reads answer (Tasks as) = chain (parallel_map (\<lambda>m. m) (map (reads answer) as)) (\<lambda>rs. ret (list_ex (\<lambda>x. x) rs))"

definition implements :: "(string option \<Rightarrow> 'q ran) \<Rightarrow> ('q, bool) net \<Rightarrow> bool" where
  "implements m n \<longleftrightarrow> (\<forall>v. m v = (fst (n v), v, snd (n v)))"

lemma implementsD: "implements m n \<Longrightarrow> m v = (fst (n v), v, snd (n v))"
  by (simp add: implements_def)

lemma implements_scoped: "implements m n \<Longrightarrow> implements (scoped url m) (use_proxy url n)"
  by (simp add: implements_def scoped_def Proxy.use_proxy_def)

lemma implements_pooled:
  assumes "\<And>i. i < length ms \<Longrightarrow> implements (ms ! i) (ns ! i)" and "length ms = length ns"
  shows "implements (pooled ms) (chain (parallel_map (\<lambda>m. m) ns) (\<lambda>rs. ret (list_ex (\<lambda>x. x) rs)))"
proof -
  have tasks: "map (\<lambda>task. scoped v task None) ms = map (\<lambda>n. (fst (n v), None, snd (n v))) ns" for v
    using assms(2) by (intro nth_equalityI) (simp_all add: scoped_def implementsD [OF assms(1)])
  show ?thesis
    by (simp add: implements_def pooled_def tasks Let_def chain_def ret_def Proxy.parallel_map_def Proxy.use_proxy_def list_ex_iff o_def)
qed

lemma exec_implements: "implements (exec answer a) (reads answer a)"
proof (induction a)
  case (Ask q k)
  then have "exec answer (k r) v = (fst (reads answer (k r) v), v, snd (reads answer (k r) v))" for r v
    by (auto intro: implementsD)
  then show ?case by (simp add: implements_def after_def chain_def split_beta)
next
  case (Then a b)
  then show ?case by (simp add: implements_def after_def chain_def ret_def split_beta)
next
  case (Try a b)
  then show ?case by (auto simp: implements_def after_def chain_def ret_def split_beta)
next
  case (With_proxy url a)
  then show ?case by (simp add: implements_scoped)
next
  case (Tasks as)
  then show ?case by (auto intro: implements_pooled)
qed (simp_all add: implements_def ret_def)

section \<open>Who sets it\<close>

text \<open>The network methods of \<open>PolymarketAPI\<close> that run with the proxy of the instance; all others, the static ones, run in the
  context of the caller.\<close>

definition proxied_methods :: "string list" where
  "proxied_methods = [''get_orderbook'', ''get_orderbooks'', ''get_spread'', ''get_last_trade_price'', ''get_balance'',
     ''balance_by_sig_types'', ''place_limit_buy'', ''place_limit_sell'', ''place_market_sell'', ''place_marketable_limit_sell'',
     ''cancel_order'', ''cancel_orders'', ''cancel_all_orders'', ''get_order'', ''get_open_orders'', ''get_trades'',
     ''are_orders_scoring'', ''get_user_positions'', ''get_activity'', ''place_fok_buy'', ''get_neg_risk'',
     ''is_merge_adapter_approved'', ''merge_positions'', ''get_merge_transaction_state'', ''_rpc_eth_call'']"

definition call_method :: "string option \<Rightarrow> string \<Rightarrow> ('q, 'a) action \<Rightarrow> ('q, 'a) action" where
  "call_method proxy name body = (if name \<in> set proxied_methods then With_proxy proxy body else body)"

text \<open>\<open>_worker_proxied\<close>: the tick and the placement round of a worker.\<close>

definition worker_entry :: "string option \<Rightarrow> ('q, 'a) action \<Rightarrow> ('q, 'a) action" where
  "worker_entry proxy body = With_proxy proxy body"

text \<open>\<open>_ProxiedClient\<close>: the attributes of the wrapped object, methods wrapped and the others passed on.\<close>

datatype ('q, 'a, 'v) attribute = Method "('q, 'a) action" | Value 'v

fun proxied_client :: "string option \<Rightarrow> ('q, 'a, 'v) attribute \<Rightarrow> ('q, 'a, 'v) attribute" where
  "proxied_client proxy (Method body) = Method (With_proxy proxy body)"
| "proxied_client proxy (Value x) = Value x"

text \<open>
  \<open>install_clob_proxy\<close>: the client of the exchange library is put into a dispatcher once. A thread looks at the flag,
  takes the lock, looks again; what it does under the lock is one step.
\<close>

datatype http_client = Library_client | Dispatcher http_client

record library =
  lb_installed :: bool
  lb_client :: http_client
  lb_passed :: "nat set"

definition new_library :: library where
  "new_library = \<lparr>lb_installed = False, lb_client = Library_client, lb_passed = {}\<rparr>"

datatype install_event = Looks nat | Locks nat

fun install_clob_proxy :: "install_event \<Rightarrow> library \<Rightarrow> library" where
  "install_clob_proxy (Looks t) s = (if lb_installed s then s else s\<lparr>lb_passed := insert t (lb_passed s)\<rparr>)"
| "install_clob_proxy (Locks t) s =
     (if t \<notin> lb_passed s then s
      else if lb_installed s then s\<lparr>lb_passed := lb_passed s - {t}\<rparr>
      else \<lparr>lb_installed = True, lb_client = Dispatcher (lb_client s), lb_passed = lb_passed s - {t}\<rparr>)"

text \<open>The way a request of the library takes: the library's own client knows no proxy.\<close>

fun library_way :: "http_client \<Rightarrow> string option \<Rightarrow> string option" where
  "library_way Library_client v = None"
| "library_way (Dispatcher c) v = client_way (fst (client_for v new_dispatcher))"

lemma installed_once:
  "lb_client (fold install_clob_proxy es new_library) = (if lb_installed (fold install_clob_proxy es new_library) then Dispatcher Library_client else Library_client)"
proof -
  have step: "lb_client (install_clob_proxy e s) = (if lb_installed (install_clob_proxy e s) then Dispatcher Library_client else Library_client)"
    if "lb_client s = (if lb_installed s then Dispatcher Library_client else Library_client)" for e s
    using that by (cases e) auto
  have "lb_client (fold install_clob_proxy es s) = (if lb_installed (fold install_clob_proxy es s) then Dispatcher Library_client else Library_client)"
    if "lb_client s = (if lb_installed s then Dispatcher Library_client else Library_client)" for s
    using that by (induction es arbitrary: s) (simp_all only: fold_simps comp_apply id_apply step)
  then show ?thesis by (simp add: new_library_def)
qed

lemma installed_way: "lb_installed (fold install_clob_proxy es new_library) \<Longrightarrow> library_way (lb_client (fold install_clob_proxy es new_library)) v = v"
  by (simp add: installed_once client_for_def new_dispatcher_def Let_def split: option.split)

section \<open>Ways out\<close>

primrec mentions :: "('q, 'a) action \<Rightarrow> string option set" where
  "mentions Done = {}"
| "mentions Raise = {}"
| "mentions (Ask q k) = (\<Union>r. mentions (k r))"
| "mentions (Then a b) = mentions a \<union> mentions b"
| "mentions (Try a b) = mentions a \<union> mentions b"
| "mentions (With_proxy url a) = insert url (mentions a)"
| "mentions (Tasks as) = \<Union> (set (map mentions as))"

lemma reads_ways: "fst ` set (snd (reads answer a v)) \<subseteq> insert v (mentions a)"
proof (induction a arbitrary: v)
  case (Ask q k)
  have "fst ` set (snd (http_request answer q v)) \<subseteq> {v}"
    by (auto simp: http_request_def split_beta)
  with Ask [of _ v] show ?case
    by (fastforce simp: chain_def split_beta)
next
  case (Then a b)
  from Then.IH(1) [of v] Then.IH(2) [of v] show ?case by (auto simp: chain_def ret_def split_beta)
next
  case (Try a b)
  from Try.IH(1) [of v] Try.IH(2) [of v] show ?case by (auto simp: chain_def ret_def split_beta)
next
  case (With_proxy url a)
  from With_proxy [of url] show ?case by (auto simp: Proxy.use_proxy_def)
next
  case (Tasks as)
  have "fst x \<in> insert v (mentions a)" if "a \<in> set as" "x \<in> set (snd (reads answer a v))" for a x
    using Tasks [OF that(1), of v] that(2) by auto
  moreover have "snd (reads answer (Tasks as) v) = concat (map (\<lambda>a. snd (reads answer a v)) as)"
    by (simp add: chain_def ret_def Proxy.parallel_map_def Proxy.use_proxy_def o_def)
  ultimately show ?case by fastforce
qed (simp_all add: ret_def)

text \<open>C28: The current proxy of the code is an argument. Whatever the code does in one context, requests with retries, exceptions caught or
  not, nested scopes and pools of worker threads, leaves the variable as it was, and sends the same requests by the same ways, as
  if the proxy were handed down as an argument. The requests of a method of a wallet leave by its proxy or by one set inside,
  whatever the caller had set; those of a static method by the one of the caller, directly when it had set none.\<close>

theorem context_is_an_argument:
  "exec answer a v = (fst (reads answer a v), v, snd (reads answer a v)) \<and>
   fst ` set (snd (snd (exec answer (call_method proxy name body) v))) \<subseteq> insert (if name \<in> set proxied_methods then proxy else v) (mentions body)"
proof (intro conjI)
  show run: "exec answer a v = (fst (reads answer a v), v, snd (reads answer a v))" for a v
    using exec_implements by (rule implementsD)
  show "fst ` set (snd (snd (exec answer (call_method proxy name body) v))) \<subseteq> insert (if name \<in> set proxied_methods then proxy else v) (mentions body)"
    using reads_ways [of answer body] by (auto simp: run call_method_def Proxy.use_proxy_def simp del: exec.simps)
qed

end
