(* ===== verification/Crypto.thy ===== *)
theory Crypto
  imports Accounts
begin

text \<open>
  The encryption of private keys (\<open>utils/crypto.py\<close>). Base64 is the code of the standard library, as the
  interpreter has it: a decoder that refuses a str with characters beyond ASCII, skips the ASCII characters that are not in its
  alphabet and ends at complete padding. AES-GCM and PBKDF2 are
  arguments; a str is the list of its UTF-8 bytes, so encoding it is the identity. None is an exception.
\<close>

section \<open>Base64\<close>

text \<open>The alphabet: \<open>A-Z a-z 0-9 + /\<close>.\<close>

definition sextet :: "nat \<Rightarrow> char" where
  "sextet n = char_of (if n < 26 then n + 65 else if n < 52 then n + 71 else if n < 62 then n - 4 else if n = 62 then 43 else 47)"

text \<open>The table of the decoder: None for a byte that is not in the alphabet.\<close>

definition sextet_value :: "char \<Rightarrow> nat option" where
  "sextet_value c = (let n = of_char c :: nat in
     if 65 \<le> n \<and> n \<le> 90 then Some (n - 65)
     else if 97 \<le> n \<and> n \<le> 122 then Some (n - 71)
     else if 48 \<le> n \<and> n \<le> 57 then Some (n + 4)
     else if n = 43 then Some 62
     else if n = 47 then Some 63
     else None)"

fun b64encode :: "string \<Rightarrow> string" where
  "b64encode [] = []"
| "b64encode [a] = (let x = of_char a :: nat in [sextet (x div 4), sextet (x mod 4 * 16), CHR ''='', CHR ''=''])"
| "b64encode [a, b] = (let x = of_char a :: nat; y = of_char b :: nat in
     [sextet (x div 4), sextet (x mod 4 * 16 + y div 16), sextet (y mod 16 * 4), CHR ''=''])"
| "b64encode (a # b # c # s) = (let x = of_char a :: nat; y = of_char b :: nat; z = of_char c :: nat in
     [sextet (x div 4), sextet (x mod 4 * 16 + y div 16), sextet (y mod 16 * 4 + z div 64), sextet (z mod 64)] @ b64encode s)"

text \<open>\<open>binascii.a2b_base64\<close>: the position in the group of four, the bits left over, the padding seen since the last
  character, and what is left to read. It raises when the text ends inside a group.\<close>

fun a2b :: "nat \<Rightarrow> nat \<Rightarrow> nat \<Rightarrow> string \<Rightarrow> string option" where
  "a2b quad left pads [] = (if quad = 0 then Some [] else None)"
| "a2b quad left pads (c # s) =
     (if c = CHR ''=''
      then (if 2 \<le> quad \<and> 4 \<le> quad + pads + 1 then Some [] else a2b quad left (if 2 \<le> quad then pads + 1 else pads) s)
      else case sextet_value c of
        None \<Rightarrow> a2b quad left pads s
      | Some v \<Rightarrow>
          if quad = 0 then a2b 1 v 0 s
          else if quad = 1 then map_option (Cons (char_of (left * 4 + v div 16))) (a2b 2 (v mod 16) 0 s)
          else if quad = 2 then map_option (Cons (char_of (left * 16 + v div 4))) (a2b 3 (v mod 4) 0 s)
          else map_option (Cons (char_of (left * 64 + v))) (a2b 0 0 0 s))"

text \<open>A str is encoded as ASCII first: a byte of 128 or more belongs to a character that has no ASCII code, and the call
  raises a \<open>ValueError\<close>.\<close>

definition ascii_char :: "char \<Rightarrow> bool" where
  "ascii_char c \<longleftrightarrow> (of_char c :: nat) < 128"

definition b64decode :: "string \<Rightarrow> string option" where
  "b64decode s = (if list_all ascii_char s then a2b 0 0 0 s else None)"

lemma sextet_code: "n < 64 \<Longrightarrow> (of_char (sextet n) :: nat) =
    (if n < 26 then n + 65 else if n < 52 then n + 71 else if n < 62 then n - 4 else if n = 62 then 43 else 47)"
  by (simp add: sextet_def)

lemma sextet_back:
  assumes "n < 64"
  shows "sextet_value (sextet n) = Some n" and "sextet n \<noteq> CHR ''=''"
proof -
  show "sextet_value (sextet n) = Some n" using assms by (auto simp: sextet_value_def sextet_code Let_def)
  have "(of_char (CHR ''='') :: nat) = 61" by simp
  moreover have "(of_char (sextet n) :: nat) \<noteq> 61" using assms by (auto simp: sextet_code)
  ultimately show "sextet n \<noteq> CHR ''=''" by metis
qed

lemma a2b_sextet:
  "n < 64 \<Longrightarrow> a2b 0 l p (sextet n # s) = a2b 1 n 0 s"
  "n < 64 \<Longrightarrow> a2b 1 l p (sextet n # s) = map_option (Cons (char_of (l * 4 + n div 16))) (a2b 2 (n mod 16) 0 s)"
  "n < 64 \<Longrightarrow> a2b 2 l p (sextet n # s) = map_option (Cons (char_of (l * 16 + n div 4))) (a2b 3 (n mod 4) 0 s)"
  "n < 64 \<Longrightarrow> a2b 3 l p (sextet n # s) = map_option (Cons (char_of (l * 64 + n))) (a2b 0 0 0 s)"
  by (simp_all add: sextet_back)

lemma digits:
  fixes a b k :: nat
  assumes "b < k"
  shows "(a * k + b) div k = a" and "(a * k + b) mod k = b"
  using assms by simp_all

lemma small_digit: "a < m \<Longrightarrow> b < k \<Longrightarrow> a * k + b < m * (k :: nat)"
proof -
  assume "a < m" "b < k"
  then have "a * k + b < Suc a * k" by simp
  also have "\<dots> \<le> m * k" using \<open>a < m\<close> by (intro mult_le_mono1) simp
  finally show ?thesis .
qed

lemma byte_parts:
  fixes x y :: nat
  assumes "x < 256" and "y < 256"
  shows "x div 4 < 64" "x mod 4 * 16 < 64" "x mod 16 * 4 < 64" "x mod 64 < 64" "x mod 4 * 16 + y div 16 < 64" "x mod 16 * 4 + y div 64 < 64"
proof -
  have d: "y div 16 < 16" "y div 64 < 4" "x mod 4 < 4" "x mod 16 < 16" using assms(2) by simp_all
  show "x div 4 < 64" "x mod 64 < 64" using assms(1) by simp_all
  show "x mod 4 * 16 < 64" "x mod 16 * 4 < 64" using d(3,4) by linarith+
  show "x mod 4 * 16 + y div 16 < 64" using small_digit [OF d(3,1)] by simp
  show "x mod 16 * 4 + y div 64 < 64" using small_digit [OF d(4,2)] by simp
qed

lemma byte_joined:
  fixes x y z :: nat
  assumes "x < 256" "y < 256" "z < 256"
  shows "x div 4 * 4 + (x mod 4 * 16 + y div 16) div 16 = x" "x div 4 * 4 + x mod 4 = x"
    "(x mod 4 * 16 + y div 16) mod 16 * 16 + (y mod 16 * 4 + z div 64) div 4 = y"
    "(x mod 4 * 16 + y div 16) mod 16 * 16 + y mod 16 = y"
    "(y mod 16 * 4 + z div 64) mod 4 * 64 + z mod 64 = z"
proof -
  have d: "y div 16 < 16" "z div 64 < 4" using assms by simp_all
  show "x div 4 * 4 + (x mod 4 * 16 + y div 16) div 16 = x" "x div 4 * 4 + x mod 4 = x"
    unfolding digits [OF d(1)] by simp_all
  show "(x mod 4 * 16 + y div 16) mod 16 * 16 + (y mod 16 * 4 + z div 64) div 4 = y"
    "(x mod 4 * 16 + y div 16) mod 16 * 16 + y mod 16 = y"
    unfolding digits [OF d(1)] digits [OF d(2)] by simp_all
  show "(y mod 16 * 4 + z div 64) mod 4 * 64 + z mod 64 = z"
    unfolding digits [OF d(2)] by simp
qed

lemma quad_decodes:
  assumes "x < 256" "y < 256" "z < 256"
  shows "a2b 0 0 0 (sextet (x div 4) # sextet (x mod 4 * 16 + y div 16) # sextet (y mod 16 * 4 + z div 64) # sextet (z mod 64) # s) =
      map_option (\<lambda>r. char_of x # char_of y # char_of z # r) (a2b 0 0 0 s)"
    "a2b 0 0 0 [sextet (x div 4), sextet (x mod 4 * 16 + y div 16), sextet (y mod 16 * 4), CHR ''=''] = Some [char_of x, char_of y]"
    "a2b 0 0 0 [sextet (x div 4), sextet (x mod 4 * 16), CHR ''='', CHR ''=''] = Some [char_of x]"
proof -
  note parts = byte_parts [OF assms(1,2)] byte_parts [OF assms(2,3)] byte_parts [OF assms(3,3)]
  note joined = byte_joined [OF assms]
  show "a2b 0 0 0 (sextet (x div 4) # sextet (x mod 4 * 16 + y div 16) # sextet (y mod 16 * 4 + z div 64) # sextet (z mod 64) # s) =
      map_option (\<lambda>r. char_of x # char_of y # char_of z # r) (a2b 0 0 0 s)"
    unfolding a2b_sextet(1) [OF parts(1)] a2b_sextet(2) [OF parts(5)] a2b_sextet(3) [OF parts(12)] a2b_sextet(4) [OF parts(16)] joined
    by (simp add: option.map_comp o_def)
  have e: "a2b 3 l 0 [CHR ''=''] = Some []" "a2b 2 l 0 [CHR ''='', CHR ''=''] = Some []" for l by simp_all
  have m: "y mod 16 * 4 div 4 = y mod 16" "x mod 4 * 16 div 16 = x mod 4" by simp_all
  show "a2b 0 0 0 [sextet (x div 4), sextet (x mod 4 * 16 + y div 16), sextet (y mod 16 * 4), CHR ''=''] = Some [char_of x, char_of y]"
    unfolding a2b_sextet(1) [OF parts(1)] a2b_sextet(2) [OF parts(5)] a2b_sextet(3) [OF parts(9)] e joined m by simp
  show "a2b 0 0 0 [sextet (x div 4), sextet (x mod 4 * 16), CHR ''='', CHR ''=''] = Some [char_of x]"
    unfolding a2b_sextet(1) [OF parts(1)] a2b_sextet(2) [OF parts(2)] e m joined by simp
qed

lemma sextet_ascii: "n < 64 \<Longrightarrow> ascii_char (sextet n)"
  by (auto simp: ascii_char_def sextet_code)

lemma b64encode_ascii: "list_all ascii_char (b64encode s)"
proof (induction s rule: b64encode.induct)
  case (2 a)
  have "(of_char a :: nat) < 256" by (rule nat_of_char_less_256)
  from byte_parts [OF this this] show ?case by (simp add: Let_def sextet_ascii) (simp add: ascii_char_def)
next
  case (3 a b)
  have "(of_char a :: nat) < 256" "(of_char b :: nat) < 256" by (rule nat_of_char_less_256)+
  from byte_parts [OF this] byte_parts [OF this(2,2)] show ?case by (simp add: Let_def sextet_ascii) (simp add: ascii_char_def)
next
  case (4 a b c s)
  have l: "(of_char a :: nat) < 256" "(of_char b :: nat) < 256" "(of_char c :: nat) < 256" by (rule nat_of_char_less_256)+
  from byte_parts [OF l(1,2)] byte_parts [OF l(2,3)] byte_parts [OF l(3,3)] 4 show ?case by (simp add: Let_def sextet_ascii)
qed simp

lemma a2b_b64encode: "a2b 0 0 0 (b64encode s) = Some s"
proof (induction s rule: b64encode.induct)
  case (2 a)
  show ?case
    unfolding b64encode.simps Let_def quad_decodes(3) [OF nat_of_char_less_256 nat_of_char_less_256 [of a] nat_of_char_less_256 [of a]] by simp
next
  case (3 a b)
  show ?case
    unfolding b64encode.simps Let_def quad_decodes(2) [OF nat_of_char_less_256 nat_of_char_less_256 nat_of_char_less_256 [of a]] by simp
next
  case (4 a b c s)
  then show ?case
    unfolding b64encode.simps Let_def append_Cons append_Nil quad_decodes(1) [OF nat_of_char_less_256 nat_of_char_less_256 nat_of_char_less_256] by simp
qed simp

lemma b64_roundtrip: "b64decode (b64encode s) = Some s"
  by (simp add: b64decode_def b64encode_ascii a2b_b64encode)

text \<open>ASCII characters outside the alphabet, line breaks for instance, are skipped.\<close>

definition in_alphabet :: "char \<Rightarrow> bool" where
  "in_alphabet c \<longleftrightarrow> c = CHR ''='' \<or> sextet_value c \<noteq> None"

lemma a2b_skips: "a2b quad left pads (filter in_alphabet s) = a2b quad left pads s"
proof (induction quad left pads s rule: a2b.induct)
  case (2 quad left pads c s)
  show ?case
  proof (cases "c = CHR ''=''")
    case True
    with 2 show ?thesis by (simp add: in_alphabet_def)
  next
    case False
    with 2 show ?thesis by (cases "sextet_value c") (auto simp: in_alphabet_def)
  qed
qed simp

lemma alphabet_ascii: "in_alphabet c \<Longrightarrow> ascii_char c"
  by (auto simp: in_alphabet_def sextet_value_def ascii_char_def Let_def split: if_splits)

lemma b64decode_skips: "list_all ascii_char s \<Longrightarrow> b64decode s = b64decode (filter in_alphabet s)"
  using alphabet_ascii by (simp add: b64decode_def a2b_skips list_all_iff)

section \<open>Keys\<close>

text \<open>\<open>kdf hash length salt iterations\<close> is PBKDF2 over HMAC, on the bytes of the password.\<close>

definition derive_key :: "(string \<Rightarrow> nat \<Rightarrow> string \<Rightarrow> nat \<Rightarrow> string \<Rightarrow> string) \<Rightarrow> string \<Rightarrow> string \<Rightarrow> string" where
  "derive_key kdf password salt = kdf ''SHA256'' 32 salt 600000 password"

text \<open>\<open>seal key nonce text\<close> and \<open>unseal key nonce sealed\<close> are AES-GCM; the nonce of 12 bytes is drawn anew for every text.\<close>

definition encrypt :: "(string \<Rightarrow> string \<Rightarrow> string \<Rightarrow> string) \<Rightarrow> string \<Rightarrow> string \<Rightarrow> string \<Rightarrow> string" where
  "encrypt seal nonce plaintext key = b64encode (nonce @ seal key nonce plaintext)"

definition decrypt :: "(string \<Rightarrow> string \<Rightarrow> string \<Rightarrow> string option) \<Rightarrow> string \<Rightarrow> string \<Rightarrow> string option" where
  "decrypt unseal encrypted key =
     (case b64decode encrypted of None \<Rightarrow> None | Some raw \<Rightarrow> unseal key (take 12 raw) (drop 12 raw))"

text \<open>The services of an import with this cipher, under the key of the session.\<close>

definition with_cipher :: "(string \<Rightarrow> string \<Rightarrow> string \<Rightarrow> string) \<Rightarrow> (string \<Rightarrow> string \<Rightarrow> string \<Rightarrow> string option) \<Rightarrow> (string \<Rightarrow> string) \<Rightarrow>
    string \<Rightarrow> services \<Rightarrow> services" where
  "with_cipher seal unseal nonces key sv =
     sv\<lparr>sv_encrypt := (\<lambda>pk. encrypt seal (nonces pk) pk key), sv_decrypt := (\<lambda>e. decrypt unseal e key)\<rparr>"

lemma decrypt_raw: "length nonce = 12 \<Longrightarrow> b64decode e = Some (nonce @ sealed) \<Longrightarrow> decrypt unseal e key = unseal key nonce sealed"
  by (simp add: decrypt_def)

text \<open>C23: A stored private key can be decrypted. With an authenticated cipher that opens what it sealed under the same key and
  nonce, decrypting the stored text gives back the private key, whatever its bytes and its length modulo
  three; line breaks, spaces or other ASCII characters outside the alphabet that got into the stored text do no harm, one
  character beyond ASCII makes it an exception. And the cipher of the program meets what the import of wallets relies on.\<close>

theorem stored_key_decrypts:
  assumes "\<And>key nonce text. length nonce = 12 \<Longrightarrow> unseal key nonce (seal key nonce text) = Some text"
    and "length nonce = 12" and "filter in_alphabet stored = filter in_alphabet (encrypt seal nonce plaintext key)"
    and "\<And>pk. length (nonces pk) = 12"
  shows "decrypt unseal stored key = (if list_all ascii_char stored then Some plaintext else None) \<and>
    sv_decrypt (with_cipher seal unseal nonces key sv) (sv_encrypt (with_cipher seal unseal nonces key sv) pk) = Some pk"
proof -
  have opens: "decrypt unseal stored key = Some plaintext"
    if "length nonce = 12" "filter in_alphabet stored = filter in_alphabet (encrypt seal nonce plaintext key)" "list_all ascii_char stored"
    for nonce stored plaintext
  proof -
    have "b64decode stored = b64decode (encrypt seal nonce plaintext key)"
      using that(2) b64decode_skips [OF that(3)] b64decode_skips [OF b64encode_ascii] unfolding encrypt_def by simp
    then have "b64decode stored = Some (nonce @ seal key nonce plaintext)" by (simp add: encrypt_def b64_roundtrip)
    then show ?thesis using assms(1) that(1) decrypt_raw by metis
  qed
  have "decrypt unseal stored key = None" if "\<not> list_all ascii_char stored"
    using that by (simp add: decrypt_def b64decode_def)
  moreover have "list_all ascii_char (encrypt seal (nonces pk) pk key)" by (simp add: encrypt_def b64encode_ascii)
  ultimately show ?thesis
    using opens [OF assms(2,3)] by (simp add: with_cipher_def opens [OF assms(4) refl])
qed

section \<open>A key\<close>

text \<open>A cipher of the shape of AES-GCM: the text, then a tag of the key and the nonce.\<close>

definition demo_seal :: "string \<Rightarrow> string \<Rightarrow> string \<Rightarrow> string" where
  "demo_seal key nonce text = nonce @ key @ text"

definition demo_unseal :: "string \<Rightarrow> string \<Rightarrow> string \<Rightarrow> string option" where
  "demo_unseal key nonce sealed = (if take (length (nonce @ key)) sealed = nonce @ key then Some (drop (length (nonce @ key)) sealed) else None)"

lemma stored_key_witness:
  "decrypt demo_unseal (''MDEyMzQ1Njc4OTAx'' @ [CHR 0x0A] @ ''MDEyMzQ1Njc4OTAxa2V5MHhhYg=='') ''key'' = Some ''0xab''"
proof -
  have seal: "demo_unseal key nonce (demo_seal key nonce msg) = Some msg" for key nonce msg
    by (simp add: demo_unseal_def demo_seal_def)
  have ascii: "list_all ascii_char (''MDEyMzQ1Njc4OTAx'' @ [CHR 0x0A] @ ''MDEyMzQ1Njc4OTAxa2V5MHhhYg=='')"
    by (simp add: ascii_char_def)
  have enc: "filter in_alphabet (''MDEyMzQ1Njc4OTAx'' @ [CHR 0x0A] @ ''MDEyMzQ1Njc4OTAxa2V5MHhhYg=='') =
      filter in_alphabet (encrypt demo_seal ''012345678901'' ''0xab'' ''key'')"
    by (simp add: encrypt_def demo_seal_def Let_def sextet_def in_alphabet_def sextet_value_def char_of_def, simp add: bit_0)
  have "decrypt demo_unseal (''MDEyMzQ1Njc4OTAx'' @ [CHR 0x0A] @ ''MDEyMzQ1Njc4OTAxa2V5MHhhYg=='') ''key'' =
      (if list_all ascii_char (''MDEyMzQ1Njc4OTAx'' @ [CHR 0x0A] @ ''MDEyMzQ1Njc4OTAxa2V5MHhhYg=='') then Some ''0xab'' else None)"
    by (rule stored_key_decrypts [where unseal = demo_unseal and seal = demo_seal and nonces = "\<lambda>k. ''012345678901''", OF seal _ enc, THEN conjunct1]) simp_all
  with ascii show ?thesis by (simp only: if_True)
qed

end
