(* ===== verification/Records.thy ===== *)
theory Records
  imports Prelude "HOL-Library.Multiset" "HOL-Library.Product_Lexorder"
begin

text \<open>
  The journal tables of the database (\<open>models/database.py\<close>) and the pages that read them
  (\<open>web/routes.py\<close>): orders, positions, trades and actions, cooldowns, the list of eligible markets,
  market names, the blacklist, and the daily ledger. A table is the list of its rows in the order
  of insertion, or a map from its primary key; a query keeps that order among rows its ORDER BY does
  not tell apart, which SQL leaves open.
\<close>

section \<open>Orders, positions and trades\<close>

record order_row =
  od_id :: string
  od_wallet :: string
  od_market :: string
  od_token :: string
  od_side :: string
  od_price :: rat
  od_size :: int
  od_status :: string
  od_updated :: rat

text \<open>\<open>record_order\<close>; None when the id exists.\<close>

definition record_order :: "order_row \<Rightarrow> order_row list \<Rightarrow> order_row list option" where
  "record_order r rows = (if od_id r \<in> od_id ` set rows then None else Some (rows @ [r]))"

definition update_order_status :: "string \<Rightarrow> string \<Rightarrow> rat \<Rightarrow> order_row list \<Rightarrow> order_row list" where
  "update_order_status i st now rows = map (\<lambda>r. if od_id r = i then r\<lparr>od_status := st, od_updated := now\<rparr> else r) rows"

text \<open>An optional text filter: absent or empty text does not filter.\<close>

definition of_wallet :: "string option \<Rightarrow> string \<Rightarrow> bool" where
  "of_wallet w x = (case w of None \<Rightarrow> True | Some a \<Rightarrow> a = [] \<or> a = x)"

definition get_open_orders :: "string option \<Rightarrow> order_row list \<Rightarrow> order_row list" where
  "get_open_orders w rows = filter (\<lambda>r. od_status r = ''open'' \<and> of_wallet w (od_wallet r)) rows"

definition get_open_buy_orders :: "string option \<Rightarrow> order_row list \<Rightarrow> order_row list" where
  "get_open_buy_orders w rows = filter (\<lambda>r. od_status r = ''open'' \<and> od_side r = ''buy'' \<and> of_wallet w (od_wallet r)) rows"

record position_row =
  po_id :: nat
  po_wallet :: string
  po_market :: string
  po_token :: string
  po_price :: rat
  po_size :: int
  po_open :: bool

definition record_position :: "nat \<Rightarrow> string \<Rightarrow> string \<Rightarrow> string \<Rightarrow> rat \<Rightarrow> int \<Rightarrow> position_row list \<Rightarrow> position_row list" where
  "record_position next w m t price n rows =
     rows @ [\<lparr>po_id = next, po_wallet = w, po_market = m, po_token = t, po_price = price, po_size = n, po_open = True\<rparr>]"

definition get_positions :: "string option \<Rightarrow> position_row list \<Rightarrow> position_row list" where
  "get_positions w rows = filter (\<lambda>r. po_open r \<and> of_wallet w (po_wallet r)) rows"

definition close_position :: "nat \<Rightarrow> position_row list \<Rightarrow> position_row list" where
  "close_position i rows = map (\<lambda>r. if po_id r = i then r\<lparr>po_open := False\<rparr> else r) rows"

text \<open>An optional bound: None and 0 do not filter.\<close>

definition from_time :: "rat option \<Rightarrow> rat \<Rightarrow> bool" where
  "from_time b t = (case b of None \<Rightarrow> True | Some s \<Rightarrow> s = 0 \<or> s \<le> t)"

definition to_time :: "rat option \<Rightarrow> rat \<Rightarrow> bool" where
  "to_time b t = (case b of None \<Rightarrow> True | Some s \<Rightarrow> s = 0 \<or> t \<le> s)"

record trade_row =
  tr_wallet :: string
  tr_market :: string
  tr_side :: string
  tr_price :: rat
  tr_size :: int
  tr_pnl :: rat
  tr_at :: rat

definition record_trade :: "trade_row \<Rightarrow> trade_row list \<Rightarrow> trade_row list" where
  "record_trade r rows = rows @ [r]"

definition get_trade_history :: "string option \<Rightarrow> rat option \<Rightarrow> rat option \<Rightarrow> trade_row list \<Rightarrow> trade_row list" where
  "get_trade_history w a b rows =
     sort_desc tr_at (filter (\<lambda>r. of_wallet w (tr_wallet r) \<and> from_time a (tr_at r) \<and> to_time b (tr_at r)) rows)"

section \<open>Actions\<close>

record action_row =
  ac_id :: nat
  ac_wallet :: string
  ac_market :: string
  ac_type :: string
  ac_side :: string
  ac_price :: rat
  ac_size :: rat
  ac_reason :: string
  ac_basis :: string
  ac_at :: rat

definition record_action ::
    "nat \<Rightarrow> rat \<Rightarrow> string \<Rightarrow> string \<Rightarrow> string \<Rightarrow> string \<Rightarrow> rat \<Rightarrow> rat \<Rightarrow> string \<Rightarrow> string \<Rightarrow> action_row list \<Rightarrow> action_row list" where
  "record_action next now w m kind side price n reason basis rows =
     rows @ [\<lparr>ac_id = next, ac_wallet = w, ac_market = m, ac_type = kind, ac_side = side, ac_price = price, ac_size = n,
       ac_reason = reason, ac_basis = basis, ac_at = now\<rparr>]"

definition action_filter :: "string option \<Rightarrow> rat option \<Rightarrow> rat option \<Rightarrow> string list option \<Rightarrow> action_row \<Rightarrow> bool" where
  "action_filter w a b types r \<longleftrightarrow> of_wallet w (ac_wallet r) \<and> from_time a (ac_at r) \<and> to_time b (ac_at r) \<and>
     (case types of None \<Rightarrow> True | Some ts \<Rightarrow> ts = [] \<or> ac_type r \<in> set ts)"

text \<open>Newest first, the higher id first at the same time; \<open>LIMIT\<close> and \<open>OFFSET\<close> when there is a limit.\<close>

definition newest_first :: "action_row list \<Rightarrow> action_row list" where
  "newest_first rows = sort_key (\<lambda>r. (- ac_at r, - int (ac_id r))) rows"

definition get_actions ::
    "string option \<Rightarrow> rat option \<Rightarrow> rat option \<Rightarrow> string list option \<Rightarrow> (nat \<times> nat) option \<Rightarrow> action_row list \<Rightarrow> action_row list" where
  "get_actions w a b types page rows =
     (let all = newest_first (filter (action_filter w a b types) rows) in
      case page of None \<Rightarrow> all | Some (limit, offset) \<Rightarrow> take limit (drop offset all))"

definition count_actions :: "string option \<Rightarrow> rat option \<Rightarrow> rat option \<Rightarrow> string list option \<Rightarrow> action_row list \<Rightarrow> nat" where
  "count_actions w a b types rows = length (filter (action_filter w a b types) rows)"

text \<open>
  The page of actions: a page number below 1 or missing is 1, a page size that is 0 or missing is 100,
  and sizes are held between 1 and 500. The answer is the rows, the total, and the page and size used.
\<close>

definition clamp_page :: "int option \<Rightarrow> nat" where
  "clamp_page p = nat (max 1 (case p of None \<Rightarrow> 1 | Some n \<Rightarrow> if n = 0 then 1 else n))"

definition clamp_size :: "nat \<Rightarrow> nat \<Rightarrow> int option \<Rightarrow> nat" where
  "clamp_size dflt largest s = nat (min (int largest) (max 1 (case s of None \<Rightarrow> int dflt | Some n \<Rightarrow> if n = 0 then int dflt else n)))"

definition api_get_actions :: "string option \<Rightarrow> rat option \<Rightarrow> rat option \<Rightarrow> string list option \<Rightarrow> int option \<Rightarrow> int option \<Rightarrow> action_row list \<Rightarrow>
    action_row list \<times> nat \<times> nat \<times> nat" where
  "api_get_actions w a b types p s rows =
     (let page = clamp_page p; n = clamp_size 100 500 s in
      (get_actions w a b types (Some (n, (page - 1) * n)) rows, count_actions w a b types rows, page, n))"

section \<open>Cooldowns\<close>

type_synonym cooldowns = "string \<times> string \<rightharpoonup> rat"

definition set_cooldown :: "rat \<Rightarrow> string \<Rightarrow> string \<Rightarrow> int option \<Rightarrow> cooldowns \<Rightarrow> cooldowns" where
  "set_cooldown now w m minutes cs =
     cs((w, m) \<mapsto> now + of_int ((case minutes of None \<Rightarrow> 0 | Some k \<Rightarrow> k) * 60))"

definition is_in_cooldown :: "rat \<Rightarrow> string \<Rightarrow> string \<Rightarrow> cooldowns \<Rightarrow> bool" where
  "is_in_cooldown now w m cs = (case cs (w, m) of None \<Rightarrow> False | Some e \<Rightarrow> now < e)"

section \<open>Eligible markets, names and the blacklist\<close>

record eligible_row =
  el_market :: string
  el_token :: string
  el_competition :: rat
  el_reward :: rat
  el_min_cost :: rat

definition save_eligible_markets :: "eligible_row list \<Rightarrow> eligible_row list \<Rightarrow> eligible_row list" where
  "save_eligible_markets markets rows = markets"

definition get_eligible_markets :: "eligible_row list \<Rightarrow> eligible_row list" where
  "get_eligible_markets rows = sort_desc el_competition rows"

definition update_eligible_reward :: "string \<Rightarrow> rat \<Rightarrow> eligible_row list \<Rightarrow> eligible_row list" where
  "update_eligible_reward cid reward rows =
     (if cid = [] then rows else map (\<lambda>r. if el_market r = cid then r\<lparr>el_reward := reward\<rparr> else r) rows)"

definition get_market_daily_reward :: "string \<Rightarrow> eligible_row list \<Rightarrow> rat option" where
  "get_market_daily_reward cid rows = map_option el_reward (find (\<lambda>r. el_market r = cid) rows)"

definition get_min_order_cost :: "eligible_row list \<Rightarrow> rat option" where
  "get_min_order_cost rows = (if rows = [] then None else Some (Min (el_min_cost ` set rows)))"

record meta =
  me_name :: string
  me_market_slug :: string
  me_event_slug :: string

type_synonym metas = "string \<rightharpoonup> meta"

definition upsert_market_meta :: "string \<Rightarrow> meta \<Rightarrow> metas \<Rightarrow> metas" where
  "upsert_market_meta cid m ms = (if cid = [] then ms else ms(cid \<mapsto> m))"

type_synonym blacklist = "(string \<times> string \<times> rat) list"

text \<open>\<open>INSERT OR REPLACE\<close> takes the old row out and adds the new one.\<close>

definition add_to_blacklist :: "rat \<Rightarrow> string \<Rightarrow> string \<Rightarrow> blacklist \<Rightarrow> blacklist" where
  "add_to_blacklist now cid note bl = (if cid = [] then bl else filter (\<lambda>(c, n, t). c \<noteq> cid) bl @ [(cid, note, now)])"

definition remove_from_blacklist :: "string \<Rightarrow> blacklist \<Rightarrow> blacklist" where
  "remove_from_blacklist cid bl = filter (\<lambda>(c, n, t). c \<noteq> cid) bl"

definition get_blacklist :: "blacklist \<Rightarrow> blacklist" where
  "get_blacklist bl = sort_desc (\<lambda>(c, n, t). t) bl"

definition get_blacklist_ids :: "blacklist \<Rightarrow> string set" where
  "get_blacklist_ids bl = fst ` set bl"

section \<open>The daily ledger\<close>

record pnl_row =
  dp_reward :: rat
  dp_rebate :: rat
  dp_sell :: rat
  dp_loss :: rat
  dp_fee :: rat
  dp_merge :: rat
  dp_net :: rat

text \<open>Rows by wallet and date, one per key; dates are ISO texts that order as days do.\<close>

type_synonym ledger = "((string \<times> int) \<times> pnl_row) list"

definition net_row :: "rat \<Rightarrow> rat \<Rightarrow> rat \<Rightarrow> rat \<Rightarrow> rat \<Rightarrow> rat \<Rightarrow> pnl_row" where
  "net_row reward rebate sell loss fee merge =
     \<lparr>dp_reward = reward, dp_rebate = rebate, dp_sell = sell, dp_loss = loss, dp_fee = fee, dp_merge = merge,
      dp_net = reward + rebate + sell + merge - loss - fee\<rparr>"

definition upsert_daily_pnl :: "string \<Rightarrow> int \<Rightarrow> rat \<Rightarrow> rat \<Rightarrow> rat \<Rightarrow> rat \<Rightarrow> rat \<Rightarrow> rat \<Rightarrow> ledger \<Rightarrow> ledger" where
  "upsert_daily_pnl w date reward rebate sell loss fee merge l =
     (let row = net_row reward rebate sell loss fee merge in
      if (w, date) \<in> fst ` set l then map (\<lambda>(k, r). (k, if k = (w, date) then row else r)) l else l @ [((w, date), row)])"

definition get_daily_pnl :: "string \<Rightarrow> int \<Rightarrow> int \<Rightarrow> ledger \<Rightarrow> (int \<times> pnl_row) list" where
  "get_daily_pnl w a b l =
     sort_key fst (map (\<lambda>((x, date), r). (date, r)) (filter (\<lambda>((x, date), r). x = w \<and> a \<le> date \<and> date \<le> b) l))"

definition add_rows :: "pnl_row list \<Rightarrow> pnl_row" where
  "add_rows rs = \<lparr>dp_reward = sum_list (map dp_reward rs), dp_rebate = sum_list (map dp_rebate rs), dp_sell = sum_list (map dp_sell rs),
     dp_loss = sum_list (map dp_loss rs), dp_fee = sum_list (map dp_fee rs), dp_merge = sum_list (map dp_merge rs), dp_net = sum_list (map dp_net rs)\<rparr>"

definition get_daily_pnl_all :: "int \<Rightarrow> int \<Rightarrow> ledger \<Rightarrow> (int \<times> pnl_row) list" where
  "get_daily_pnl_all a b l =
     map (\<lambda>date. (date, add_rows (map snd (filter (\<lambda>x. snd (fst x) = date) l))))
       (sorted_list_of_set {d \<in> (\<lambda>x. snd (fst x)) ` set l. a \<le> d \<and> d \<le> b})"

text \<open>\<open>api_pnl\<close>: the series, the rounded totals and the rounded running sums of the net.\<close>

fun running :: "rat \<Rightarrow> rat list \<Rightarrow> rat list" where
  "running c [] = []"
| "running c (x # xs) = round_to 6 (c + x) # running (c + x) xs"

definition pnl_totals :: "(int \<times> pnl_row) list \<Rightarrow> pnl_row" where
  "pnl_totals series = (let t = add_rows (map snd series) in
     \<lparr>dp_reward = round_to 6 (dp_reward t), dp_rebate = round_to 6 (dp_rebate t), dp_sell = round_to 6 (dp_sell t),
      dp_loss = round_to 6 (dp_loss t), dp_fee = round_to 6 (dp_fee t), dp_merge = round_to 6 (dp_merge t), dp_net = round_to 6 (dp_net t)\<rparr>)"

definition api_pnl :: "string \<Rightarrow> int \<Rightarrow> int \<Rightarrow> ledger \<Rightarrow> (int \<times> pnl_row) list \<times> pnl_row \<times> rat list" where
  "api_pnl w a b l =
     (let series = (if w = ''all'' then get_daily_pnl_all a b l else get_daily_pnl w a b l)
      in (series, pnl_totals series, running 0 (map (dp_net \<circ> snd) series)))"

section \<open>Pages of actions\<close>

lemma take_drop_pages: "concat (map (\<lambda>p. take n (drop (p * n) xs)) [0..<k]) = take (k * n) xs"
proof (induction k)
  case (Suc k)
  have "take (k * n) xs @ take n (drop (k * n) xs) = take (k * n + n) xs"
    by (simp add: take_add)
  with Suc show ?case by (simp add: add.commute)
qed simp

lemma newest_first_facts: "mset (newest_first rows) = mset rows"
  "sorted (map (\<lambda>r. (- ac_at r, - int (ac_id r))) (newest_first rows))"
  by (simp_all add: newest_first_def)

lemma clamp_size_pos: "0 < largest \<Longrightarrow> 0 < dflt \<Longrightarrow> 0 < clamp_size dflt largest s \<and> clamp_size dflt largest s \<le> largest"
  by (auto simp: clamp_size_def)

text \<open>The pages of the action journal show every action once. With one page size, the pages from the
  first on put together are the whole filtered list, newest first; the total is its length; no page
  is larger than 500 rows; and no page past the last has a row.\<close>

theorem action_pages_cover:
  fixes size w a b types rows
  defines "page \<equiv> \<lambda>p. api_get_actions w a b types (Some (int p)) size rows"
    and "all \<equiv> newest_first (filter (action_filter w a b types) rows)"
    and "n \<equiv> clamp_size 100 500 size"
  shows "concat (map (\<lambda>p. fst (page (p + 1))) [0..<k]) = take (k * n) all \<and>
    fst (snd (page p)) = length all \<and> length (fst (page p)) \<le> 500 \<and>
    (length all \<le> k * n \<longrightarrow> concat (map (\<lambda>p. fst (page (p + 1))) [0..<k]) = all \<and> (k \<le> p \<longrightarrow> fst (page (p + 1)) = []))"
proof -
  have rows: "fst (page (q + 1)) = take n (drop (q * n) all)" for q
    by (simp add: page_def api_get_actions_def Let_def get_actions_def clamp_page_def n_def all_def nat_add_distrib)
  have pages: "concat (map (\<lambda>p. fst (page (p + 1))) [0..<k]) = take (k * n) all"
    unfolding rows by (rule take_drop_pages)
  have "n \<le> 500" using clamp_size_pos [of 500 100 size] by (simp add: n_def)
  then have small: "length (fst (page p)) \<le> 500"
    by (simp add: page_def api_get_actions_def Let_def get_actions_def n_def)
  have total: "fst (snd (page p)) = length all"
    using newest_first_facts(1) [of "filter (action_filter w a b types) rows"]
    by (simp add: page_def api_get_actions_def Let_def count_actions_def all_def flip: size_mset)
  have "fst (page (p + 1)) = []" if "length all \<le> k * n" "k \<le> p"
  proof -
    have "length all \<le> p * n"
      using that(1) mult_le_mono1 [OF that(2), of n] by (rule order.trans)
    then show ?thesis unfolding rows by simp
  qed
  with pages small total show ?thesis by simp
qed

section \<open>Cooldowns and rewards\<close>

text \<open>A cooldown lasts exactly as long as it was set for. After it is set for a wallet and a market at
  some time, the market is in cooldown for this wallet until that many minutes later and not a moment
  longer, and no other wallet or market is touched; a missing number of minutes is no cooldown.\<close>

theorem cooldown_spec:
  "is_in_cooldown later w m (set_cooldown now w m minutes cs) = (later < now + of_int (case minutes of None \<Rightarrow> 0 | Some k \<Rightarrow> k * 60)) \<and>
   (now \<le> later \<and> minutes = None \<longrightarrow> \<not> is_in_cooldown later w m (set_cooldown now w m minutes cs)) \<and>
   ((w', m') \<noteq> (w, m) \<longrightarrow> is_in_cooldown later w' m' (set_cooldown now w m minutes cs) = is_in_cooldown later w' m' cs)"
  by (auto simp: is_in_cooldown_def set_cooldown_def split: option.split)

lemma update_eligible_reward_read:
  "cid \<noteq> [] \<Longrightarrow> get_market_daily_reward c (update_eligible_reward cid reward rows) =
     (if c = cid \<and> cid \<in> el_market ` set rows then Some reward else get_market_daily_reward c rows)"
  by (induction rows) (auto simp: update_eligible_reward_def get_market_daily_reward_def)

lemma blacklist_read:
  "get_blacklist_ids (add_to_blacklist now cid note bl) = (if cid = [] then id else insert cid) (get_blacklist_ids bl)"
  "get_blacklist_ids (remove_from_blacklist cid bl) = get_blacklist_ids bl - {cid}"
  by (force simp: get_blacklist_ids_def add_to_blacklist_def remove_from_blacklist_def)+

section \<open>The ledger balances\<close>

definition balanced :: "pnl_row \<Rightarrow> bool" where
  "balanced r \<longleftrightarrow> dp_net r = dp_reward r + dp_rebate r + dp_sell r + dp_merge r - dp_loss r - dp_fee r"

definition ledger_ok :: "ledger \<Rightarrow> bool" where
  "ledger_ok l \<longleftrightarrow> distinct (map fst l) \<and> (\<forall>(k, r)\<in>set l. balanced r)"

lemma ledger_ok_upsert:
  assumes "ledger_ok l"
  shows "ledger_ok (upsert_daily_pnl w date reward rebate sell loss fee merge l)"
proof -
  let ?row = "net_row reward rebate sell loss fee merge"
  have row: "balanced ?row" by (simp add: balanced_def net_row_def)
  have keys: "map (fst \<circ> (\<lambda>(k, r). (k, if k = (w, date) then ?row else r))) l = map fst l" by (simp add: split_beta)
  show ?thesis
    using assms row by (auto simp: ledger_ok_def upsert_daily_pnl_def Let_def keys split: if_splits)
qed

lemma balanced_add_rows: "\<forall>r\<in>set rs. balanced r \<Longrightarrow> balanced (add_rows rs)"
  by (induction rs) (simp_all add: balanced_def add_rows_def)

lemma series_balanced:
  assumes "ledger_ok l"
  shows "\<forall>(d, r)\<in>set (get_daily_pnl w a b l). balanced r" "\<forall>(d, r)\<in>set (get_daily_pnl_all a b l). balanced r"
proof -
  show "\<forall>(d, r)\<in>set (get_daily_pnl w a b l). balanced r"
    using assms by (fastforce simp: get_daily_pnl_def ledger_ok_def)
  have "balanced (add_rows (map snd (filter (\<lambda>x. snd (fst x) = date) l)))" for date
    using assms by (intro balanced_add_rows) (auto simp: ledger_ok_def)
  then show "\<forall>(d, r)\<in>set (get_daily_pnl_all a b l). balanced r"
    by (auto simp: get_daily_pnl_all_def)
qed

lemma running_last: "xs \<noteq> [] \<Longrightarrow> last (running c xs) = round_to 6 (c + sum_list xs)"
proof (induction xs arbitrary: c)
  case (Cons x xs)
  show ?case
  proof (cases "xs = []")
    case False
    then have "running (c + x) xs \<noteq> []" by (cases xs) simp_all
    with Cons.IH [OF False, of "c + x"] show ?thesis by (simp add: add.assoc)
  qed simp
qed simp

fun upserts :: "(string \<times> int \<times> rat \<times> rat \<times> rat \<times> rat \<times> rat \<times> rat) list \<Rightarrow> ledger \<Rightarrow> ledger" where
  "upserts [] l = l"
| "upserts ((w, date, reward, rebate, sell, loss, fee, merge) # us) l =
     upserts us (upsert_daily_pnl w date reward rebate sell loss fee merge l)"

lemma ledger_ok_upserts: "ledger_ok l \<Longrightarrow> ledger_ok (upserts us l)"
  by (induction us l rule: upserts.induct) (simp_all add: ledger_ok_upsert)

lemma sum_by_date:
  assumes "finite D" and "\<forall>x\<in>set l. f x \<in> D"
  shows "(\<Sum>d\<in>D. sum_list (map g (filter (\<lambda>x. f x = d) l))) = (sum_list (map g l) :: rat)"
  using assms(2)
proof (induction l)
  case (Cons x l)
  have "(\<Sum>d\<in>D. sum_list (map g (filter (\<lambda>y. f y = d) (x # l)))) =
      (\<Sum>d\<in>D. (if d = f x then g x else 0) + sum_list (map g (filter (\<lambda>y. f y = d) l)))"
    by (intro sum.cong) auto
  also have "\<dots> = (\<Sum>d\<in>D. if d = f x then g x else 0) + sum_list (map g l)"
    using Cons.IH Cons.prems by (simp only: sum.distrib) simp
  also have "(\<Sum>d\<in>D. if d = f x then g x else 0) = g x"
    using assms(1) Cons.prems by (simp add: sum.delta)
  finally show ?case by simp
qed simp

definition in_range :: "int \<Rightarrow> int \<Rightarrow> (string \<times> int) \<times> pnl_row \<Rightarrow> bool" where
  "in_range a b = (\<lambda>((x, d), r). a \<le> d \<and> d \<le> b)"

lemma all_series_net:
  "sum_list (map (dp_net \<circ> snd) (get_daily_pnl_all a b l)) = sum_list (map (dp_net \<circ> snd) (filter (in_range a b) l))"
proof -
  let ?day = "\<lambda>x :: (string \<times> int) \<times> pnl_row. snd (fst x)" and ?l = "filter (in_range a b) l"
  let ?D = "{d \<in> ?day ` set l. a \<le> d \<and> d \<le> b}"
  have "map (dp_net \<circ> snd) (get_daily_pnl_all a b l) =
      map (\<lambda>date. sum_list (map (dp_net \<circ> snd) (filter (\<lambda>x. ?day x = date) l))) (sorted_list_of_set ?D)"
    by (simp add: get_daily_pnl_all_def add_rows_def o_def)
  then have "sum_list (map (dp_net \<circ> snd) (get_daily_pnl_all a b l)) = (\<Sum>d\<in>?D. sum_list (map (dp_net \<circ> snd) (filter (\<lambda>x. ?day x = d) l)))"
    by (simp add: sum_list_distinct_conv_sum_set)
  also have "\<dots> = (\<Sum>d\<in>?D. sum_list (map (dp_net \<circ> snd) (filter (\<lambda>x. ?day x = d) ?l)))"
  proof (rule sum.cong [OF refl])
    fix d
    assume "d \<in> ?D"
    then have "filter (\<lambda>x. ?day x = d) ?l = filter (\<lambda>x. ?day x = d) l"
      by (auto simp: in_range_def split_beta intro!: filter_cong)
    then show "sum_list (map (dp_net \<circ> snd) (filter (\<lambda>x. ?day x = d) l)) = sum_list (map (dp_net \<circ> snd) (filter (\<lambda>x. ?day x = d) ?l))"
      by simp
  qed
  also have "\<dots> = sum_list (map (dp_net \<circ> snd) ?l)"
    by (rule sum_by_date) (auto simp: in_range_def)
  finally show ?thesis .
qed

text \<open>The profit page balances. Over any ledger written by upserts, every row shown has a net that is reward,
  rebate, sale profit and merge profit less loss and fee, for one wallet and for all wallets
  together; the last running sum is the total net; and the total over all wallets is the sum of the rows of
  every wallet in the range of days.\<close>

theorem profit_page_balances:
  fixes us w a b
  defines "l \<equiv> upserts us []" and "series \<equiv> fst (api_pnl w a b (upserts us []))"
  shows "list_all (balanced \<circ> snd) series \<and>
    (series \<noteq> [] \<longrightarrow> last (snd (snd (api_pnl w a b l))) = dp_net (fst (snd (api_pnl w a b l)))) \<and>
    sum_list (map (dp_net \<circ> snd) (fst (api_pnl ''all'' a b l))) = sum_list (map (dp_net \<circ> snd) (filter (in_range a b) l))"
proof (intro conjI impI)
  have ok: "ledger_ok l"
    unfolding l_def by (rule ledger_ok_upserts) (simp add: ledger_ok_def)
  show "list_all (balanced \<circ> snd) series"
    using series_balanced [OF ok] by (auto simp: series_def l_def api_pnl_def Let_def list_all_iff split_beta)
  show "last (snd (snd (api_pnl w a b l))) = dp_net (fst (snd (api_pnl w a b l)))" if "series \<noteq> []"
    using that running_last by (simp add: series_def l_def api_pnl_def Let_def pnl_totals_def add_rows_def o_def)
  show "sum_list (map (dp_net \<circ> snd) (fst (api_pnl ''all'' a b l))) = sum_list (map (dp_net \<circ> snd) (filter (in_range a b) l))"
    by (simp add: api_pnl_def Let_def all_series_net)
qed

section \<open>Witnesses\<close>

definition demo_actions :: "action_row list" where
  "demo_actions = record_action 2 5 ''a'' ''m'' ''x'' [] 0 0 [] [] (record_action 1 5 ''a'' ''m'' ''x'' [] 0 0 [] [] [])"

lemma action_pages_witness:
  "fst (api_get_actions None None None None (Some 1) (Some 1) demo_actions) @ fst (api_get_actions None None None None (Some 2) (Some 1) demo_actions)
     = newest_first demo_actions"
proof -
  have all: "filter (action_filter None None None None) demo_actions = demo_actions"
    by (simp add: demo_actions_def record_action_def action_filter_def of_wallet_def from_time_def to_time_def)
  have "length (newest_first demo_actions) = 2"
    using arg_cong [OF newest_first_facts(1), of size demo_actions] by (simp add: demo_actions_def record_action_def)
  with action_pages_cover [where size = "Some 1" and k = 2 and w = None and a = None and b = None and types = None and rows = demo_actions] all
  show ?thesis by (simp add: clamp_size_def eval_nat_numeral)
qed

lemma cooldown_witness: "is_in_cooldown 100 ''a'' ''m'' (set_cooldown 0 ''a'' ''m'' (Some 2) Map.empty) \<and> \<not> is_in_cooldown 5 ''a'' ''m'' (set_cooldown 5 ''a'' ''m'' None Map.empty)"
  using cooldown_spec [of 100 "''a''" "''m''" 0 "Some 2"] cooldown_spec [of 5 "''a''" "''m''" 5 None] by simp

lemma profit_page_witness:
  "last (snd (snd (api_pnl ''a'' 1 3 (upserts [(''a'', 1, 1, 0, 0, 0, 0, 0), (''a'', 2, 2, 0, 0, 0, 0, 0)] [])))) =
   dp_net (fst (snd (api_pnl ''a'' 1 3 (upserts [(''a'', 1, 1, 0, 0, 0, 0, 0), (''a'', 2, 2, 0, 0, 0, 0, 0)] []))))"
proof -
  have "fst (api_pnl ''a'' 1 3 (upserts [(''a'', 1, 1, 0, 0, 0, 0, 0), (''a'', 2, 2, 0, 0, 0, 0, 0)] [])) \<noteq> []"
    by (simp add: api_pnl_def Let_def get_daily_pnl_def upsert_daily_pnl_def)
  with profit_page_balances show ?thesis by blast
qed

end
