(* ===== verification/Pages.thy ===== *)
theory Pages
  imports Engine Records
begin

text \<open>
  The pages of \<open>web/routes.py\<close> that act on wallets, orders and the blacklist: which account each of them uses,
  what they cancel and what they change. The state is the manager with its database, whether it exists
  yet, whether the key is in memory, and the clients kept for balance queries. What the services
  answer are parameters, by address of the wallet.
\<close>

section \<open>Accounts\<close>

record site =
  si_manager :: manager
  si_ready :: bool
  si_key :: bool
  si_cache :: api_cache

definition rows :: "site \<Rightarrow> wallet_row list" where
  "rows s = db_wallets (mg_db (si_manager s))"

definition running_worker :: "string \<Rightarrow> site \<Rightarrow> worker option" where
  "running_worker a s =
     (if \<not> si_ready s then None
      else case engine a (si_manager s) of None \<Rightarrow> None | Some w \<Rightarrow> if wk_running w then Some w else None)"

text \<open>\<open>_get_cached_api\<close>; None is an exception.\<close>

definition get_cached_api :: "services \<Rightarrow> wallet_row \<Rightarrow> string \<Rightarrow> api_cache \<Rightarrow> api option \<times> api_cache" where
  "get_cached_api sv w proxy cache =
     (case cache (wa_address w) of
        Some a \<Rightarrow> (Some a, cache)
      | None \<Rightarrow>
          (case open_wallet sv (w\<lparr>wa_proxy := proxy\<rparr>) of
             None \<Rightarrow> (None, cache)
           | Some a \<Rightarrow> (Some a, cache(wa_address w \<mapsto> a))))"

text \<open>\<open>_wallet_apis\<close>: the running worker's account or a new one for each enabled wallet, or for the one asked for;
  wallets that cannot be opened are left out.\<close>

definition wallet_api :: "services \<Rightarrow> site \<Rightarrow> wallet_row \<Rightarrow> (string \<times> api) option" where
  "wallet_api sv s w =
     (case running_worker (wa_address w) s of
        Some wk \<Rightarrow> Some (wa_address w, wk_api wk)
      | None \<Rightarrow> map_option (Pair (wa_address w)) (open_wallet sv w))"

definition wallet_apis :: "services \<Rightarrow> string option \<Rightarrow> site \<Rightarrow> (string \<times> api) list" where
  "wallet_apis sv only s = List.map_filter (wallet_api sv s) (filter (\<lambda>w. wa_enabled w \<and> of_wallet only (wa_address w)) (rows s))"

section \<open>The list of wallets and the dashboard\<close>

text \<open>A row of the list: whether the worker runs and the account asked for the balance.\<close>

record wallet_line =
  ln_address :: string
  ln_running :: bool
  ln_asked :: "api option"

text \<open>The account a page asks for the balance of a wallet, given the proxy it passes on.\<close>

definition ask_balance :: "services \<Rightarrow> site \<Rightarrow> wallet_row \<Rightarrow> string \<Rightarrow> api_cache \<Rightarrow> wallet_line \<times> api_cache" where
  "ask_balance sv s w proxy cache =
     (case running_worker (wa_address w) s of
        Some wk \<Rightarrow> (\<lparr>ln_address = wa_address w, ln_running = True, ln_asked = Some (wk_api wk)\<rparr>, cache)
      | None \<Rightarrow>
          if si_ready s \<and> si_key s
          then (let (a, cache) = get_cached_api sv w proxy cache in (\<lparr>ln_address = wa_address w, ln_running = False, ln_asked = a\<rparr>, cache))
          else (\<lparr>ln_address = wa_address w, ln_running = False, ln_asked = None\<rparr>, cache))"

fun ask_balances :: "services \<Rightarrow> site \<Rightarrow> (wallet_row \<Rightarrow> string) \<Rightarrow> wallet_row list \<Rightarrow> api_cache \<Rightarrow> wallet_line list \<times> api_cache" where
  "ask_balances sv s proxy [] cache = ([], cache)"
| "ask_balances sv s proxy (w # ws) cache =
     (let (l, cache) = ask_balance sv s w (proxy w) cache; (ls, cache) = ask_balances sv s proxy ws cache in (l # ls, cache))"

definition api_list_wallets :: "services \<Rightarrow> site \<Rightarrow> wallet_line list \<times> site" where
  "api_list_wallets sv s =
     (let (lines, cache) = ask_balances sv s wa_proxy (rows s) (si_cache s) in (lines, s\<lparr>si_cache := cache\<rparr>))"

text \<open>The names of the templates without an enabled size module; none when reading one of them fails.\<close>

definition template_sizes :: "db \<Rightarrow> nat \<Rightarrow> bool option" where
  "template_sizes d i =
     (case get_template i d ''size_tiers'' of
        Some (J_list ts) \<Rightarrow> (case enabled_sizes ts of Inl e \<Rightarrow> None | Inr ns \<Rightarrow> Some (ns \<noteq> {}))
      | Some (J_str t) \<Rightarrow> Some False
      | Some (J_obj kvs) \<Rightarrow> Some False
      | Some v \<Rightarrow> if truthy v then None else Some False
      | None \<Rightarrow> Some False)"

definition templates_without_tiers :: "db \<Rightarrow> string list" where
  "templates_without_tiers d =
     (if \<exists>(i, n) \<in> set (db_templates d). template_sizes d i = None then []
      else map snd (filter (\<lambda>(i, n). template_sizes d i = Some False) (list_templates d)))"

record dashboard =
  da_orders :: nat
  da_positions :: nat
  da_pnl :: rat
  da_lines :: "(wallet_line \<times> nat option \<times> nat option) list"
  da_without_tiers :: "string list"

definition count_of :: "nat option list \<Rightarrow> nat" where
  "count_of ns = sum_list (map (\<lambda>n. case n of None \<Rightarrow> 0 | Some k \<Rightarrow> k) ns)"

text \<open>\<open>orders a\<close> and \<open>positions a\<close>: how many open orders and positions the account of a wallet has, None when the request fails.\<close>

definition api_dashboard ::
    "services \<Rightarrow> (string \<Rightarrow> nat option) \<Rightarrow> (string \<Rightarrow> nat option) \<Rightarrow> trade_row list \<Rightarrow> site \<Rightarrow> dashboard \<times> site" where
  "api_dashboard sv orders positions trades s =
     (let apis = wallet_apis sv None s;
          known = (\<lambda>a. a \<in> fst ` set apis);
          os = (\<lambda>a. if known a then orders a else None); ps = (\<lambda>a. if known a then positions a else None);
          (lines, cache) = ask_balances sv s (\<lambda>w. []) (rows s) (si_cache s);
          d = mg_db (si_manager s)
      in (\<lparr>da_orders = count_of (map (os \<circ> ln_address) lines), da_positions = count_of (map (ps \<circ> ln_address) lines),
           da_pnl = sum_list (map tr_pnl (get_trade_history None None None trades)),
           da_lines = map (\<lambda>l. (l, os (ln_address l), ps (ln_address l))) lines, da_without_tiers = templates_without_tiers d\<rparr>,
          s\<lparr>si_cache := cache\<rparr>))"

section \<open>Editing wallets\<close>

definition edit_db :: "(db \<Rightarrow> db) \<Rightarrow> site \<Rightarrow> site" where
  "edit_db f s = s\<lparr>si_manager := (si_manager s)\<lparr>mg_db := f (mg_db (si_manager s))\<rparr>\<rparr>"

definition forget_api :: "string \<Rightarrow> site \<Rightarrow> site" where
  "forget_api a s = s\<lparr>si_cache := (si_cache s)(a := None)\<rparr>"

definition api_remove_wallet :: "(string \<Rightarrow> order list option) \<Rightarrow> string \<Rightarrow> site \<Rightarrow> site" where
  "api_remove_wallet orders a s =
     (let s = (if si_ready s then s\<lparr>si_manager := stop_wallet orders a (si_manager s)\<rparr> else s)
      in forget_api a (edit_db (remove_wallet a) s))"

text \<open>The answer is the protocol shown, or the error of the probe.\<close>

definition api_set_wallet_proxy :: "services \<Rightarrow> string \<Rightarrow> string \<Rightarrow> site \<Rightarrow> (probe_error + string \<times> string option) \<times> site" where
  "api_set_wallet_proxy sv raw a s =
     (let raw = strip raw in
      case (if raw = [] then Inr ([], None) else probe_proxy (sv_reach sv) (sv_ip sv) raw) of
        Inl e \<Rightarrow> (Inl e, s)
      | Inr (proxy, ip) \<Rightarrow> (Inr (proxy_protocol proxy, ip), forget_api a (edit_db (set_wallet_proxy a proxy) s)))"

definition api_set_wallet_remark :: "string \<Rightarrow> string \<Rightarrow> site \<Rightarrow> site" where
  "api_set_wallet_remark raw a = edit_db (set_wallet_remark a (clean_remark raw))"

definition api_toggle_wallet :: "bool \<Rightarrow> string \<Rightarrow> site \<Rightarrow> site" where
  "api_toggle_wallet on a = edit_db (toggle_wallet a on)"

definition api_set_wallet_template :: "nat \<Rightarrow> string \<Rightarrow> site \<Rightarrow> site" where
  "api_set_wallet_template i a = edit_db (set_wallet_template a i)"

definition api_delete_template :: "nat \<Rightarrow> site \<Rightarrow> bool \<times> site" where
  "api_delete_template i s =
     (case delete_template i (mg_db (si_manager s)) of None \<Rightarrow> (False, s) | Some d \<Rightarrow> (True, edit_db (\<lambda>x. d) s))"

section \<open>Orders\<close>

text \<open>A row of the page of open orders: the order with the address of its wallet and, for a buy, whether it earns rewards.\<close>

record order_line =
  ol_wallet :: string
  ol_order :: order
  ol_scoring :: "bool option"

definition buys :: "order list \<Rightarrow> order list" where
  "buys xs = filter is_buy xs"

text \<open>\<open>open_of a\<close> are the open orders of the account, \<open>scoring a ids\<close> the answer about its buys; a buy without an id, which
  the code would not survive, does not occur.\<close>

definition wallet_order_lines :: "order list \<Rightarrow> (string list \<Rightarrow> (string \<rightharpoonup> bool) option) \<Rightarrow> string \<Rightarrow> order_line list" where
  "wallet_order_lines xs ask a =
     (let known = (case are_orders_scoring ask (List.map_filter o_id (buys xs)) of None \<Rightarrow> Map.empty | Some m \<Rightarrow> m)
      in map (\<lambda>x. \<lparr>ol_wallet = a, ol_order = x, ol_scoring = (if is_buy x then case o_id x of None \<Rightarrow> None | Some i \<Rightarrow> known i else None)\<rparr>) xs)"

definition api_get_orders ::
    "(string \<Rightarrow> order list option) \<Rightarrow> (string \<Rightarrow> string list \<Rightarrow> (string \<rightharpoonup> bool) option) \<Rightarrow> (string \<times> api) list \<Rightarrow> order_line list \<times> string list" where
  "api_get_orders open_of scoring apis =
     (concat (map (\<lambda>(a, api). case open_of a of None \<Rightarrow> [] | Some xs \<Rightarrow> wallet_order_lines xs (scoring a) a) apis),
      map fst (filter (\<lambda>(a, api). open_of a = None) apis))"

text \<open>A request to cancel: the address of the wallet, its account and the ids. \<open>by_wallet\<close> groups the selected orders
  by wallet in the order of the first of each; an order without a wallet or an id is left out.\<close>

type_synonym cancel_request = "string \<times> api \<times> string list"

definition by_wallet :: "(string \<times> string) list \<Rightarrow> (string \<times> string list) list" where
  "by_wallet items =
     (let items = filter (\<lambda>(w, i). w \<noteq> [] \<and> i \<noteq> []) items;
          wallets = rev (remdups (rev (map fst items)))
      in map (\<lambda>w. (w, map snd (filter (\<lambda>x. fst x = w) items))) wallets)"

definition api_cancel_batch :: "(string \<times> string) list \<Rightarrow> (string \<times> api) list \<Rightarrow> cancel_request list" where
  "api_cancel_batch items apis =
     List.map_filter (\<lambda>(w, ids). map_option (\<lambda>api. (w, api, ids)) (map_of apis w)) (by_wallet items)"

datatype cancel_answer = Cancelled_ok | No_wallet | Cancel_error

text \<open>Cancelling one order: in the wallet named, or in every enabled one. \<open>ok a\<close> is whether the account accepts the request.\<close>

definition api_cancel_order :: "(string \<Rightarrow> bool) \<Rightarrow> string option \<Rightarrow> string \<Rightarrow> (string \<times> api) list \<Rightarrow> cancel_answer \<times> cancel_request list" where
  "api_cancel_order ok wallet i apis =
     (case wallet of
        Some (c # a) \<Rightarrow>
          (case map_of apis (c # a) of
             None \<Rightarrow> (No_wallet, [])
           | Some api \<Rightarrow> (if ok (c # a) then Cancelled_ok else Cancel_error, [(c # a, api, [i])]))
      | _ \<Rightarrow> (Cancelled_ok, map (\<lambda>(a, api). (a, api, [i])) apis))"

definition cancel_request_of :: "string \<times> api \<Rightarrow> string list \<Rightarrow> cancel_request list" where
  "cancel_request_of = (\<lambda>(a, api) ids. if ids = [] then [] else [(a, api, ids)])"

definition api_cancel_all_buys :: "(string \<Rightarrow> order list option) \<Rightarrow> (string \<times> api) list \<Rightarrow> cancel_request list" where
  "api_cancel_all_buys open_of apis =
     concat (map (\<lambda>x. cancel_request_of x (cancel_buy_orders (open_of (fst x)))) apis)"

section \<open>The blacklist\<close>

text \<open>\<open>engine/blacklist_ops.py\<close>.\<close>

definition buy_order_ids_for_condition :: "order list \<Rightarrow> string \<Rightarrow> string list" where
  "buy_order_ids_for_condition orders cid =
     filter (\<lambda>i. i \<noteq> []) (List.map_filter o_id (filter (\<lambda>x. is_buy x \<and> o_market x = cid) orders))"

text \<open>Adding a market: the new blacklist, the requests, and the number of orders whose cancellation was accepted; None is the
  refusal of an empty id.\<close>

definition api_add_blacklist ::
    "(string \<Rightarrow> order list option) \<Rightarrow> (string \<Rightarrow> bool) \<Rightarrow> rat \<Rightarrow> string \<Rightarrow> string \<Rightarrow> (string \<times> api) list \<Rightarrow> blacklist \<Rightarrow>
     (blacklist \<times> cancel_request list \<times> nat) option" where
  "api_add_blacklist open_of ok now raw note apis bl =
     (let cid = strip raw in
      if cid = [] then None
      else
        let requests = concat (map (\<lambda>x. case open_of (fst x) of None \<Rightarrow> [] | Some xs \<Rightarrow> cancel_request_of x (buy_order_ids_for_condition xs cid)) apis)
        in Some (add_to_blacklist now cid (strip note) bl, requests,
             sum_list (map (\<lambda>(a, api, ids). if ok a then length ids else 0) requests)))"

section \<open>Positions\<close>

text \<open>A row of the page of positions: the average price, the current one, the size, the stop price and the profit if sold now.\<close>

record position_line =
  pl_wallet :: string
  pl_avg :: rat
  pl_cur :: rat
  pl_size :: rat
  pl_stop :: "rat option"
  pl_gain :: rat

definition position_line :: "string \<Rightarrow> string \<Rightarrow> jnum \<Rightarrow> jnum \<Rightarrow> rat \<Rightarrow> rat \<Rightarrow> rat \<Rightarrow> position_line" where
  "position_line a mode percent cents avg cur sz =
     \<lparr>pl_wallet = a, pl_avg = avg, pl_cur = cur, pl_size = sz,
      pl_stop = map_option (\<lambda>eff. max 0 (avg - eff)) (effective_theta_stop (JNum avg) mode percent cents), pl_gain = (cur - avg) * sz\<rparr>"

definition api_get_positions ::
    "(string \<Rightarrow> (rat \<times> rat \<times> rat) list option) \<Rightarrow> (string \<Rightarrow> string \<times> jnum \<times> jnum) \<Rightarrow> (string \<times> api) list \<Rightarrow> position_line list" where
  "api_get_positions positions stop_of apis =
     concat (map (\<lambda>(a, api). case positions a of
        None \<Rightarrow> []
      | Some ps \<Rightarrow> (let (mode, percent, cents) = stop_of a in map (\<lambda>(avg, cur, sz). position_line a mode percent cents avg cur sz) ps)) apis)"

section \<open>Engine control\<close>

text \<open>The pages that control the engine do nothing without a manager.\<close>

definition engine_page :: "mop \<Rightarrow> site \<Rightarrow> site" where
  "engine_page x s = (if si_ready s then s\<lparr>si_manager := run_op x (si_manager s)\<rparr> else s)"

definition api_start_all :: "services \<Rightarrow> (string \<Rightarrow> history) \<Rightarrow> site \<Rightarrow> site" where
  "api_start_all sv hist = engine_page (Op_start_all sv hist)"

definition api_stop_all :: "(string \<Rightarrow> order list option) \<Rightarrow> site \<Rightarrow> site" where
  "api_stop_all orders = engine_page (Op_stop_all orders)"

definition api_restart :: "services \<Rightarrow> (string \<Rightarrow> history) \<Rightarrow> (string \<Rightarrow> order list option) \<Rightarrow> site \<Rightarrow> site" where
  "api_restart sv hist orders = engine_page (Op_restart sv hist orders)"

definition api_start_monitors :: "services \<Rightarrow> (string \<Rightarrow> history) \<Rightarrow> site \<Rightarrow> site" where
  "api_start_monitors sv hist = engine_page (Op_start_monitors sv hist)"

definition api_cancel_all_buy :: "(string \<Rightarrow> order list option) \<Rightarrow> site \<Rightarrow> site" where
  "api_cancel_all_buy orders = engine_page (Op_cancel_all orders)"

definition api_start_wallet :: "services \<Rightarrow> string \<Rightarrow> site \<Rightarrow> site" where
  "api_start_wallet sv a = engine_page (Op_start_wallet sv a)"

definition api_stop_wallet :: "(string \<Rightarrow> order list option) \<Rightarrow> string \<Rightarrow> site \<Rightarrow> site" where
  "api_stop_wallet orders a = engine_page (Op_stop_wallet orders a)"

text \<open>Starting a scan: whether the page says started and scanning; None without a manager.\<close>

definition api_scan_markets :: "bool \<Rightarrow> coord option \<Rightarrow> (bool \<times> bool \<times> bool) \<times> coord option" where
  "api_scan_markets force c =
     (case c of
        None \<Rightarrow> ((False, False, False), None)
      | Some s \<Rightarrow> (let (started, s') = start_scan force s in ((True, started, \<not> started), Some s')))"

definition api_scan_status :: "coord option \<Rightarrow> scan_status \<times> nat" where
  "api_scan_status c = (case c of None \<Rightarrow> (Idle, 0) | Some s \<Rightarrow> (co_status s, length (co_pool s)))"

section \<open>The balance of a stopped wallet\<close>

lemma ask_balance_other: "b \<noteq> wa_address w \<Longrightarrow> snd (ask_balance sv s w proxy cache) b = cache b"
  by (auto simp: ask_balance_def get_cached_api_def Let_def split: option.split)

lemma ask_balance_local:
  assumes "cache' (wa_address w) = cache (wa_address w)"
  shows "fst (ask_balance sv s w proxy cache') = fst (ask_balance sv s w proxy cache) \<and>
    snd (ask_balance sv s w proxy cache') (wa_address w) = snd (ask_balance sv s w proxy cache) (wa_address w)"
  using assms by (auto simp: ask_balance_def get_cached_api_def Let_def split: option.split)

lemma ask_balances_other: "b \<notin> wa_address ` set ws \<Longrightarrow> snd (ask_balances sv s proxy ws cache) b = cache b"
proof (induction ws arbitrary: cache)
  case (Cons w ws)
  obtain l c where "ask_balance sv s w (proxy w) cache = (l, c)" by fastforce
  with Cons.IH [of c] Cons.prems ask_balance_other [of b w sv s "proxy w" cache] show ?case
    by (auto split: prod.splits)
qed simp

lemma ask_balances_line:
  assumes "distinct (map wa_address ws)" and "w \<in> set ws"
  shows "fst (ask_balance sv s w (proxy w) cache) \<in> set (fst (ask_balances sv s proxy ws cache)) \<and>
    snd (ask_balances sv s proxy ws cache) (wa_address w) = snd (ask_balance sv s w (proxy w) cache) (wa_address w)"
  using assms
proof (induction ws arbitrary: cache)
  case (Cons x ws)
  obtain l c where step: "ask_balance sv s x (proxy x) cache = (l, c)" by fastforce
  obtain ls c' where rest: "ask_balances sv s proxy ws c = (ls, c')" by fastforce
  show ?case
  proof (cases "w = x")
    case True
    with Cons.prems have "wa_address w \<notin> wa_address ` set ws" by auto
    from ask_balances_other [OF this, of sv s proxy c] True step rest show ?thesis by simp
  next
    case False
    with Cons.prems have "w \<in> set ws" "distinct (map wa_address ws)" and new: "wa_address x \<notin> wa_address ` set ws" by auto
    moreover from this(1) have "wa_address w \<in> wa_address ` set ws" by (rule imageI)
    ultimately have w: "w \<in> set ws" "distinct (map wa_address ws)" "wa_address w \<noteq> wa_address x" by metis+
    have "c (wa_address w) = cache (wa_address w)"
      using ask_balance_other [OF w(3), of sv s "proxy x" cache] step by simp
    from ask_balance_local [of c w cache, OF this, of sv s "proxy w"] Cons.IH [OF w(2,1), of c] step rest show ?thesis by simp
  qed
qed simp

lemma ask_opened:
  assumes "running_worker (wa_address w) s = None" and "si_ready s" and "si_key s" and "cache (wa_address w) = None"
    and "open_wallet sv (w\<lparr>wa_proxy := proxy\<rparr>) = Some a"
  shows "ask_balance sv s w proxy cache = (\<lparr>ln_address = wa_address w, ln_running = False, ln_asked = Some a\<rparr>, cache(wa_address w \<mapsto> a))"
  using assms by (simp add: ask_balance_def get_cached_api_def)

lemma ask_cached:
  assumes "running_worker (wa_address w) s = None" and "si_ready s" and "si_key s" and "cache (wa_address w) = Some a"
  shows "ask_balance sv s w proxy cache = (\<lparr>ln_address = wa_address w, ln_running = False, ln_asked = Some a\<rparr>, cache)"
  using assms by (simp add: ask_balance_def get_cached_api_def)

text \<open>C18: The dashboard asks for the balance of a stopped wallet past its proxy. For a wallet without a running worker
  and without a kept client, the list of wallets asks an account opened on the wallet's own proxy; but the
  dashboard opens it without one, asks directly, and keeps this client, so that from then on the list
  of wallets asks directly too, whatever proxy the wallet has.\<close>

theorem dashboard_leaves_the_proxy:
  assumes "w \<in> set (rows s)" and "distinct (map wa_address (rows s))" and "running_worker (wa_address w) s = None"
    and "si_ready s" and "si_key s" and "si_cache s (wa_address w) = None"
    and "open_wallet sv w = Some own" and "open_wallet sv (w\<lparr>wa_proxy := []\<rparr>) = Some direct"
    and "api_dashboard sv orders positions trades s = (board, s')"
  shows "ap_proxy own = parse_proxy (wa_proxy w) \<and> ap_proxy direct = None \<and>
    \<lparr>ln_address = wa_address w, ln_running = False, ln_asked = Some own\<rparr> \<in> set (fst (api_list_wallets sv s)) \<and>
    \<lparr>ln_address = wa_address w, ln_running = False, ln_asked = Some direct\<rparr> \<in> fst ` set (da_lines board) \<and>
    \<lparr>ln_address = wa_address w, ln_running = False, ln_asked = Some direct\<rparr> \<in> set (fst (api_list_wallets sv s'))"
proof -
  obtain lines cache where l: "ask_balances sv s (\<lambda>w. []) (rows s) (si_cache s) = (lines, cache)" by fastforce
  have s': "s' = s\<lparr>si_cache := cache\<rparr>" and board: "fst ` set (da_lines board) = set lines"
    using assms(9) l by (auto simp: api_dashboard_def Let_def image_image)
  have empty: "parse_proxy [] = None" by (simp add: parse_proxy_def strip_def)
  have ways: "ap_proxy own = parse_proxy (wa_proxy w)" "ap_proxy direct = None"
    using assms(7,8) empty by (auto simp: open_wallet_def new_api_def Let_def split: option.splits if_splits)
  have own: "w\<lparr>wa_proxy := wa_proxy w\<rparr> = w" by simp
  have listed: "\<lparr>ln_address = wa_address w, ln_running = False, ln_asked = Some own\<rparr> \<in> set (fst (api_list_wallets sv s))"
    using ask_balances_line [OF assms(2,1), of sv s wa_proxy "si_cache s"] ask_opened [where w = w and s = s and cache = "si_cache s" and proxy = "wa_proxy w", OF assms(3-6), unfolded own, OF assms(7)]
    by (simp add: api_list_wallets_def split_beta)
  have shown: "\<lparr>ln_address = wa_address w, ln_running = False, ln_asked = Some direct\<rparr> \<in> set lines" "cache (wa_address w) = Some direct"
    using ask_balances_line [OF assms(2,1), of sv s "\<lambda>w. []" "si_cache s"] ask_opened [where w = w and s = s and cache = "si_cache s" and proxy = "[]", OF assms(3-6,8)] l by simp_all
  have same: "rows s' = rows s" "running_worker (wa_address w) s' = None" "si_ready s'" "si_key s'" "si_cache s' (wa_address w) = Some direct"
    using assms(3-5) shown(2) unfolding s' by (simp_all add: rows_def running_worker_def)
  have "\<lparr>ln_address = wa_address w, ln_running = False, ln_asked = Some direct\<rparr> \<in> set (fst (api_list_wallets sv s'))"
    using ask_balances_line [OF assms(2,1), of sv s' wa_proxy "si_cache s'"] ask_cached [where w = w and s = s' and cache = "si_cache s'" and sv = sv and proxy = "wa_proxy w", OF same(2-5)] same(1)
    by (simp add: api_list_wallets_def split_beta)
  with ways listed shown(1) show ?thesis unfolding board by blast
qed

section \<open>What is cancelled\<close>

lemma map_filter_in: "y \<in> set (List.map_filter f xs) \<longleftrightarrow> (\<exists>x\<in>set xs. f x = Some y)"
  by (induction xs) (auto simp: List.map_filter_simps split: option.split)

lemma condition_ids:
  "set (buy_order_ids_for_condition xs cid) = {i. i \<noteq> [] \<and> (\<exists>x\<in>set xs. is_buy x \<and> o_market x = cid \<and> o_id x = Some i)}"
  by (auto simp: buy_order_ids_for_condition_def map_filter_in)

text \<open>C26: Blacklisting a market withdraws its buy orders and nothing else. The market is on the list afterwards, its old entry
  replaced; in every wallet whose open orders could be read, one request holds all its buy orders on this market, and no request
  holds anything else: no sale, no order of another market, no order of another wallet. The number
  reported counts the accepted requests only.\<close>

theorem blacklisting_withdraws:
  assumes "api_add_blacklist open_of ok now raw note apis bl = Some (bl', requests, n)"
  shows "get_blacklist_ids bl' = insert (strip raw) (get_blacklist_ids bl) \<and> length (filter (\<lambda>e. fst e = strip raw) bl') = 1 \<and>
    (\<forall>(a, api, ids) \<in> set requests. (a, api) \<in> set apis \<and> ids \<noteq> [] \<and> (\<exists>xs. open_of a = Some xs \<and>
       set ids = {i. i \<noteq> [] \<and> (\<exists>x\<in>set xs. is_buy x \<and> o_market x = strip raw \<and> o_id x = Some i)})) \<and>
    (\<forall>a api xs x i. (a, api) \<in> set apis \<longrightarrow> open_of a = Some xs \<longrightarrow> x \<in> set xs \<longrightarrow> is_buy x \<longrightarrow> o_market x = strip raw \<longrightarrow>
       o_id x = Some i \<longrightarrow> i \<noteq> [] \<longrightarrow> (\<exists>ids. (a, api, ids) \<in> set requests \<and> i \<in> set ids)) \<and>
    n = sum_list (map (\<lambda>(a, api, ids). if ok a then length ids else 0) requests)"
proof -
  have r: "strip raw \<noteq> []" "bl' = add_to_blacklist now (strip raw) (strip note) bl"
    "requests = concat (map (\<lambda>x. case open_of (fst x) of None \<Rightarrow> [] | Some xs \<Rightarrow> cancel_request_of x (buy_order_ids_for_condition xs (strip raw))) apis)"
    "n = sum_list (map (\<lambda>(a, api, ids). if ok a then length ids else 0) requests)"
    using assms by (auto simp: api_add_blacklist_def Let_def split: if_splits)
  have req: "(a, api, ids) \<in> set requests \<longleftrightarrow> (a, api) \<in> set apis \<and> ids \<noteq> [] \<and>
      (\<exists>xs. open_of a = Some xs \<and> ids = buy_order_ids_for_condition xs (strip raw))" for a api ids
    unfolding r(3) by (force simp: cancel_request_of_def split: option.splits if_splits)
  have "get_blacklist_ids bl' = insert (strip raw) (get_blacklist_ids bl)"
    using r(1) unfolding r(2) by (force simp: add_to_blacklist_def get_blacklist_ids_def)
  moreover have "filter (\<lambda>e. fst e = strip raw) (filter (\<lambda>(c, n, t). c \<noteq> strip raw) bl) = []"
    by (induction bl) auto
  then have "length (filter (\<lambda>e. fst e = strip raw) bl') = 1"
    using r(1) unfolding r(2) by (simp add: add_to_blacklist_def)
  moreover have "(a, api) \<in> set apis \<and> ids \<noteq> [] \<and> (\<exists>xs. open_of a = Some xs \<and>
      set ids = {i. i \<noteq> [] \<and> (\<exists>x\<in>set xs. is_buy x \<and> o_market x = strip raw \<and> o_id x = Some i)})"
    if "(a, api, ids) \<in> set requests" for a api ids
    using that condition_ids unfolding req by blast
  moreover have "\<exists>ids. (a, api, ids) \<in> set requests \<and> i \<in> set ids"
    if "(a, api) \<in> set apis" "open_of a = Some xs" "x \<in> set xs" "is_buy x" "o_market x = strip raw" "o_id x = Some i" "i \<noteq> []" for a api xs x i
  proof -
    have "i \<in> set (buy_order_ids_for_condition xs (strip raw))"
      using that unfolding condition_ids by blast
    with that(1,2) show ?thesis unfolding req by (metis empty_iff empty_set)
  qed
  ultimately show ?thesis using r(4) by blast
qed

text \<open>Cancelling selected orders: one request for each wallet that is available, with exactly the ids selected for it in their
  order.\<close>

theorem cancel_batch_by_wallet:
  "(a, api, ids) \<in> set (api_cancel_batch items apis) \<longleftrightarrow>
     map_of apis a = Some api \<and> ids \<noteq> [] \<and> a \<noteq> [] \<and> ids = map snd (filter (\<lambda>x. fst x = a \<and> snd x \<noteq> []) items)"
proof -
  have "(a, is) \<in> set (by_wallet items) \<longleftrightarrow> is \<noteq> [] \<and> a \<noteq> [] \<and> is = map snd (filter (\<lambda>x. fst x = a \<and> snd x \<noteq> []) items)" for "is"
  proof -
    let ?sel = "\<lambda>a. filter (\<lambda>x. fst x = a) (filter (\<lambda>(w, i). w \<noteq> [] \<and> i \<noteq> []) items)"
    have sel: "?sel a = (if a = [] then [] else filter (\<lambda>x. fst x = a \<and> snd x \<noteq> []) items)"
      by (induction items) auto
    have "(a, is) \<in> set (by_wallet items) \<longleftrightarrow> ?sel a \<noteq> [] \<and> is = map snd (?sel a)"
      by (force simp: by_wallet_def Let_def filter_empty_conv)
    then show ?thesis unfolding sel by auto
  qed
  moreover have "(a, api, ids) \<in> set (api_cancel_batch items apis) \<longleftrightarrow> map_of apis a = Some api \<and> (a, ids) \<in> set (by_wallet items)"
    by (force simp: api_cancel_batch_def map_filter_in)
  ultimately show ?thesis by blast
qed

section \<open>Witnesses\<close>

definition proxied_row :: wallet_row where
  "proxied_row = demo_wallet_row ''0xeoa'' ''k''\<lparr>wa_proxy := ''http://h:1''\<rparr>"

definition demo_site :: site where
  "demo_site = \<lparr>si_manager = demo_manager [proxied_row], si_ready = True, si_key = True, si_cache = Map.empty\<rparr>"

lemma dashboard_witness:
  "\<exists>board s' direct. api_dashboard demo_services (\<lambda>a. Some 0) (\<lambda>a. None) [] demo_site = (board, s') \<and> ap_proxy direct = None \<and>
     \<lparr>ln_address = ''0xeoa'', ln_running = False, ln_asked = Some direct\<rparr> \<in> fst ` set (da_lines board) \<and> parse_proxy (wa_proxy proxied_row) \<noteq> None"
proof -
  have row: "wa_address proxied_row = ''0xeoa''" "rows demo_site = [proxied_row]"
    by (simp_all add: proxied_row_def demo_wallet_row_def rows_def demo_site_def demo_manager_def)
  have idle: "running_worker (wa_address proxied_row) demo_site = None" "si_ready demo_site" "si_key demo_site" "si_cache demo_site (wa_address proxied_row) = None"
    by (simp_all add: running_worker_def engine_def demo_site_def demo_manager_def)
  obtain own where own: "open_wallet demo_services proxied_row = Some own"
    by (simp add: open_wallet_def new_api_def demo_services_def)
  obtain direct where direct: "open_wallet demo_services (proxied_row\<lparr>wa_proxy := []\<rparr>) = Some direct"
    by (simp add: open_wallet_def new_api_def demo_services_def)
  obtain board s' where d: "api_dashboard demo_services (\<lambda>a. Some 0) (\<lambda>a. None) [] demo_site = (board, s')" by fastforce
  have "proxied_row \<in> set (rows demo_site)" "distinct (map wa_address (rows demo_site))"
    by (simp_all add: row)
  note facts = dashboard_leaves_the_proxy [OF this idle own direct d]
  have "parse_proxy (wa_proxy proxied_row) \<noteq> None"
    by (simp add: proxied_row_def parse_proxy_def strip_def is_space_def starts_with_def lower_def lower_char_def Let_def)
  with facts d row(1) show ?thesis by auto
qed

definition resting_order :: "string \<Rightarrow> string \<Rightarrow> string \<Rightarrow> order" where
  "resting_order i m side = \<lparr>o_id = Some i, o_market = m, o_asset = ''t'', o_side = side, o_price = Some (2/5),
     o_original = Some 60, o_size = None, o_matched = None\<rparr>"

lemma blacklisting_witness:
  "\<exists>bl requests. api_add_blacklist (\<lambda>a. Some [resting_order ''1'' ''m'' ''BUY'', resting_order ''2'' ''m'' ''SELL'']) (\<lambda>a. True) 5 '' m'' [] [(''w'', demo_api)] [] = Some (bl, requests, 1) \<and>
     (\<exists>ids. (''w'', demo_api, ids) \<in> set requests \<and> ''1'' \<in> set ids)"
proof -
  let ?open = "\<lambda>a :: string. Some [resting_order ''1'' ''m'' ''BUY'', resting_order ''2'' ''m'' ''SELL'']"
  have run: "api_add_blacklist ?open (\<lambda>a. True) 5 '' m'' [] [(''w'', demo_api)] [] = Some ([(''m'', [], 5)], [(''w'', demo_api, [''1''])], 1)"
    by (simp add: api_add_blacklist_def strip_def is_space_def buy_order_ids_for_condition_def List.map_filter_simps resting_order_def is_buy_def
      cancel_request_of_def add_to_blacklist_def)
  have m: "strip '' m'' = ''m''" by (simp add: strip_def is_space_def)
  have "\<exists>ids. (''w'', demo_api, ids) \<in> set [(''w'', demo_api, [''1''])] \<and> ''1'' \<in> set ids"
    using blacklisting_withdraws [OF run] unfolding m by (simp add: resting_order_def is_buy_def)
  with run show ?thesis by blast
qed

end
