(* ===== verification/Displays.thy ===== *)
theory Displays
  imports Client Records Exit_Status
begin

text \<open>
  Small parts behind the pages: names and links of markets (\<open>engine/market_links.py\<close>), the snapshot of the
  monitors (\<open>engine/monitor_status.py\<close>), the category counts kept by the manager (\<open>engine/manager.py\<close>), the
  pages of merge operations (\<open>web/routes.py\<close>), the text on the cost of a position (\<open>engine/take_profit.py\<close>), the statuses
  of the quick exit (\<open>engine/exit_status.py\<close>) and the port the server listens on (\<open>utils/net.py\<close>).
\<close>

section \<open>Names and links of markets\<close>

definition market_url :: "meta option \<Rightarrow> string" where
  "market_url e =
     (case e of
        None \<Rightarrow> []
      | Some m \<Rightarrow>
          (let ms = strip (me_market_slug m); es = strip (me_event_slug m) in
           if ms \<noteq> [] then ''https://polymarket.com/market/'' @ ms
           else if es \<noteq> [] then ''https://polymarket.com/event/'' @ es
           else []))"

record named_row =
  nr_id :: string
  nr_name :: string
  nr_url :: string

definition enrich_with_market_meta :: "metas \<Rightarrow> named_row list \<Rightarrow> named_row list" where
  "enrich_with_market_meta ms = map (\<lambda>r. let e = ms (nr_id r) in
     r\<lparr>nr_url := market_url e, nr_name := (if nr_name r = [] then case e of None \<Rightarrow> [] | Some m \<Rightarrow> me_name m else nr_name r)\<rparr>)"

definition missing_ids :: "string list \<Rightarrow> metas \<Rightarrow> string list" where
  "missing_ids ids ms = filter (\<lambda>c. c \<notin> dom ms) (unique_ids {} ids)"

definition no_meta :: meta where
  "no_meta = \<lparr>me_name = [], me_market_slug = [], me_event_slug = []\<rparr>"

text \<open>\<open>fetch\<close> is what Gamma answers, None when the request raises. A market Gamma does not know gets an empty entry.\<close>

definition ensure_market_meta :: "(string list \<Rightarrow> (string \<rightharpoonup> meta) option) \<Rightarrow> nat \<Rightarrow> string list \<Rightarrow> metas \<Rightarrow> string list option \<times> metas" where
  "ensure_market_meta fetch largest ids ms =
     (let missing = take largest (missing_ids ids ms) in
      if missing = [] then (None, ms)
      else (Some missing,
        case fetch missing of
          None \<Rightarrow> ms
        | Some found \<Rightarrow> fold (\<lambda>c. upsert_market_meta c (case found c of None \<Rightarrow> no_meta | Some m \<Rightarrow> m)) missing ms))"

section \<open>The snapshot of the monitors\<close>

type_synonym 'r snapshots = "(string \<times> rat \<times> 'r list) list"

definition set_snapshot :: "string \<Rightarrow> 'r list \<Rightarrow> rat \<Rightarrow> 'r snapshots \<Rightarrow> 'r snapshots" where
  "set_snapshot w rows ts snaps = (if w \<in> fst ` set snaps then map (\<lambda>(v, x). (v, if v = w then (ts, rows) else x)) snaps else snaps @ [(w, ts, rows)])"

definition get_snapshot :: "'r snapshots \<Rightarrow> rat \<times> 'r list" where
  "get_snapshot snaps =
     (let sorted = sort_key (fst \<circ> snd) snaps in (fold (\<lambda>(w, ts, rows) m. max m ts) sorted 0, concat (map (snd \<circ> snd) sorted)))"

definition clear_snapshot :: "'r snapshots \<Rightarrow> 'r snapshots" where
  "clear_snapshot snaps = []"

section \<open>Category counts\<close>

text \<open>The counts in memory with their time, and the stored ones; \<open>counted\<close> is the result of counting on the network, None without
  an account.\<close>

record 'c catalogs =
  ct_memory :: "('c \<times> rat) option"
  ct_stored :: "'c option"

datatype 'c catalog_answer = Static_list | Counts 'c

definition persist_catalog :: "rat \<Rightarrow> 'c \<Rightarrow> 'c catalogs \<Rightarrow> 'c catalogs" where
  "persist_catalog now c s = \<lparr>ct_memory = Some (c, now), ct_stored = Some c\<rparr>"

definition compute_category_catalog :: "rat \<Rightarrow> 'c option \<Rightarrow> 'c catalogs \<Rightarrow> 'c catalog_answer \<times> 'c catalogs" where
  "compute_category_catalog now counted s =
     (case counted of None \<Rightarrow> (Static_list, s) | Some c \<Rightarrow> (Counts c, persist_catalog now c s))"

definition category_catalog :: "bool \<Rightarrow> rat \<Rightarrow> 'c option \<Rightarrow> 'c catalogs \<Rightarrow> 'c catalog_answer \<times> 'c catalogs" where
  "category_catalog refresh now counted s =
     (if refresh then compute_category_catalog now counted s
      else case ct_memory s of
          Some (c, t) \<Rightarrow>
            if now - t < 600 then (Counts c, s)
            else (case ct_stored s of None \<Rightarrow> (Static_list, s) | Some d \<Rightarrow> (Counts d, s\<lparr>ct_memory := Some (d, now)\<rparr>))
        | None \<Rightarrow> (case ct_stored s of None \<Rightarrow> (Static_list, s) | Some d \<Rightarrow> (Counts d, s\<lparr>ct_memory := Some (d, now)\<rparr>)))"

section \<open>Pages of merge operations\<close>

text \<open>\<open>api_get_merge_events\<close>: the rows, their number without paging, the page and its size. The statuses asked for are known ones.\<close>

definition api_get_merge_events ::
    "string \<Rightarrow> status list \<Rightarrow> rat option \<Rightarrow> rat option \<Rightarrow> int option \<Rightarrow> int option \<Rightarrow> mstore \<Rightarrow> mevent list \<times> nat \<times> nat \<times> nat" where
  "api_get_merge_events wallet statuses from_t to_t p s st =
     (let page = clamp_page p; n = clamp_size 50 200 s;
          (rows, total) = list_merge_events (strip wallet) statuses from_t to_t n ((page - 1) * n) st
      in (rows, total, page, n))"

section \<open>The port\<close>

text \<open>\<open>binding p\<close> is the port obtained by binding \<open>p\<close> (0: any), None when it fails.\<close>

definition pick_port :: "(nat \<Rightarrow> nat option) \<Rightarrow> nat \<Rightarrow> nat option" where
  "pick_port binding preferred = (case binding preferred of Some p \<Rightarrow> Some p | None \<Rightarrow> binding 0)"

definition resolve_port :: "(nat \<Rightarrow> nat option) \<Rightarrow> nat \<Rightarrow> bool \<Rightarrow> nat option" where
  "resolve_port binding preferred server = (if server then Some preferred else pick_port binding preferred)"

section \<open>Properties\<close>

lemma upserts_other: "c \<notin> set cs \<Longrightarrow> fold (\<lambda>c. upsert_market_meta c (f c)) cs ms c = ms c"
  by (induction cs arbitrary: ms) (auto simp: upsert_market_meta_def)

lemma upserts_found: "c \<in> set cs \<Longrightarrow> c \<noteq> [] \<Longrightarrow> fold (\<lambda>c. upsert_market_meta c (f c)) cs ms c = Some (f c)"
proof (induction cs arbitrary: ms)
  case (Cons d cs)
  then show ?case
    using upserts_other [of c cs f "upsert_market_meta d (f d) ms"] by (cases "c \<in> set cs") (auto simp: upsert_market_meta_def [of d])
qed simp

lemma unique_ids_facts: "distinct (unique_ids seen ids) \<and> set (unique_ids seen ids) = set ids - insert [] seen"
  by (induction seen ids rule: unique_ids.induct) auto

lemma missing_facts: "distinct (missing_ids ids ms)" "c \<in> set (missing_ids ids ms) \<longleftrightarrow> c \<in> set ids \<and> c \<noteq> [] \<and> c \<notin> dom ms"
  using unique_ids_facts [of "{}" ids] by (auto simp: missing_ids_def)

lemma filter_drop_taken:
  assumes "distinct xs"
  shows "filter (\<lambda>x. x \<notin> set (take n xs)) xs = drop n xs"
proof -
  have "filter (\<lambda>x. x \<notin> set (take n xs)) (take n xs @ drop n xs) = drop n xs"
    using assms set_take_disj_set_drop_if_distinct [OF assms, of n n] by (subst filter_append) (auto simp: filter_id_conv filter_empty_conv)
  then show ?thesis by simp
qed

text \<open>Every market is asked for once. A name that is known is never asked for again nor changed; a failed request
  changes nothing; and an answered one settles exactly the markets asked for, the unknown ones with an empty
  name, so that of the missing ones the first 50 are gone and the others come next, and nothing is asked
  when none is missing.\<close>

theorem names_asked_once:
  assumes "ensure_market_meta fetch (Suc k) ids ms = (asked, ms')"
  shows "(\<forall>c \<in> dom ms. ms' c = ms c) \<and>
    (case asked of
       None \<Rightarrow> missing_ids ids ms = [] \<and> ms' = ms
     | Some cs \<Rightarrow> cs = take (Suc k) (missing_ids ids ms) \<and> distinct cs \<and> set cs \<inter> dom ms = {} \<and>
         (case fetch cs of
            None \<Rightarrow> ms' = ms
          | Some found \<Rightarrow> (\<forall>c \<in> set cs. ms' c = Some (case found c of None \<Rightarrow> no_meta | Some m \<Rightarrow> m)) \<and>
              missing_ids ids ms' = drop (Suc k) (missing_ids ids ms)))"
proof (cases "missing_ids ids ms = []")
  case True
  with assms show ?thesis by (auto simp: ensure_market_meta_def)
next
  case False
  let ?cs = "take (Suc k) (missing_ids ids ms)"
  have asked: "asked = Some ?cs"
    and ms': "ms' = (case fetch ?cs of None \<Rightarrow> ms | Some found \<Rightarrow> fold (\<lambda>c. upsert_market_meta c (case found c of None \<Rightarrow> no_meta | Some m \<Rightarrow> m)) ?cs ms)"
    using assms False by (simp_all add: ensure_market_meta_def Let_def)
  have new: "c \<in> set ?cs \<Longrightarrow> c \<noteq> [] \<and> c \<notin> dom ms" for c
    using missing_facts(2) [of c ids ms] by (meson in_set_takeD)
  show ?thesis
  proof (cases "fetch ?cs")
    case None
    with asked ms' new missing_facts(1) [of ids ms] show ?thesis by auto
  next
    case (Some found)
    let ?f = "\<lambda>c. case found c of None \<Rightarrow> no_meta | Some m \<Rightarrow> m"
    have m: "ms' = fold (\<lambda>c. upsert_market_meta c (?f c)) ?cs ms"
      using ms' Some by simp
    have old: "ms' c = ms c" if "c \<notin> set ?cs" for c
      using that unfolding m by (rule upserts_other)
    have found: "ms' c = Some (?f c)" if "c \<in> set ?cs" for c
      using that new [OF that] unfolding m by (intro upserts_found) auto
    have "missing_ids ids ms' = filter (\<lambda>c. c \<notin> set ?cs) (missing_ids ids ms)"
    proof -
      have "c \<notin> dom ms' \<longleftrightarrow> c \<notin> set ?cs \<and> c \<notin> dom ms" for c
        using old [of c] found [of c] by (cases "c \<in> set ?cs") (auto simp: domIff)
      then show ?thesis
        unfolding missing_ids_def [of ids ms'] by (simp add: missing_ids_def [of ids ms] conj_commute)
    qed
    also have "\<dots> = drop (Suc k) (missing_ids ids ms)"
      by (rule filter_drop_taken) (rule missing_facts(1))
    finally have "missing_ids ids ms' = drop (Suc k) (missing_ids ids ms)" .
    moreover have "\<forall>c \<in> dom ms. ms' c = ms c"
      using old new by blast
    ultimately show ?thesis
      using asked Some found new missing_facts(1) [of ids ms] by auto
  qed
qed

text \<open>A restart of the process shows the stored counts at once, and counts on the network are shown only after they were stored.\<close>

lemma catalog_answers:
  assumes "category_catalog refresh now counted s = (Counts c, s')"
  shows "(if refresh then counted = Some c \<and> ct_stored s' = Some c else ct_stored s' = ct_stored s \<and>
     ((\<exists>t. ct_memory s = Some (c, t) \<and> now - t < 600) \<or> ct_stored s = Some c \<and> ct_memory s' = Some (c, now)))"
  using assms by (auto simp: category_catalog_def compute_category_catalog_def persist_catalog_def split: option.splits if_splits)

section \<open>Witnesses\<close>

definition some_meta :: meta where
  "some_meta = \<lparr>me_name = ''Name'', me_market_slug = ''slug'', me_event_slug = []\<rparr>"

lemma names_asked_once_witness:
  "\<exists>ms'. ensure_market_meta (\<lambda>cs. Some [''b'' \<mapsto> some_meta]) (Suc 49) [''a'', ''b'', ''a'', ''c''] [''a'' \<mapsto> some_meta] = (Some [''b'', ''c''], ms') \<and>
     ms' ''c'' = Some no_meta \<and> ms' ''b'' = Some some_meta"
proof -
  let ?fetch = "\<lambda>cs :: string list. Some [''b'' \<mapsto> some_meta]"
  obtain ms' where e: "ensure_market_meta ?fetch (Suc 49) [''a'', ''b'', ''a'', ''c''] [''a'' \<mapsto> some_meta] = (Some [''b'', ''c''], ms')"
    by (simp add: ensure_market_meta_def missing_ids_def)
  from names_asked_once [OF e] e show ?thesis by simp
qed


section \<open>The cost of a position in words\<close>

text \<open>\<open>_fmt_share\<close>: an integer, or two decimals.\<close>

datatype share_text = Whole int | Decimals rat

definition fmt_share :: "rat \<Rightarrow> share_text" where
  "fmt_share x = (if \<bar>x - of_int (py_round x)\<bar> < eps then Whole (py_round x) else Decimals (round_to 2 x))"

definition short_tid :: "string \<Rightarrow> string" where
  "short_tid tid = (if length tid \<le> 12 then tid else take 6 tid @ ''..'' @ drop (length tid - 4) tid)"

text \<open>One purchase of the text: its number, time, price with four decimals, shares and abbreviated trade.\<close>

record basis_item =
  bi_number :: nat
  bi_time :: rat
  bi_price :: rat
  bi_shares :: share_text
  bi_trade :: string

datatype basis = No_basis | Basis rat nat "basis_item list" bool share_text

text \<open>\<open>describe_cost_basis\<close>: cost, number of purchases, the oldest ones, whether there are more, shares in total.\<close>

definition basis_items :: "lot list \<Rightarrow> basis_item list" where
  "basis_items lots = map (\<lambda>(i, l). \<lparr>bi_number = i + 1, bi_time = lot_ts l, bi_price = round_to 4 (lot_price l),
     bi_shares = fmt_share (lot_qty l), bi_trade = short_tid (lot_tid l)\<rparr>) (enumerate 0 lots)"

definition describe_cost_basis :: "nat \<Rightarrow> rat option \<Rightarrow> lot list \<Rightarrow> basis" where
  "describe_cost_basis largest cost lots =
     (case cost of
        None \<Rightarrow> No_basis
      | Some c \<Rightarrow>
          if lots = [] then No_basis
          else let sorted = sort_key lot_ts lots in
            Basis (round_to 4 c) (length lots) (basis_items (take largest sorted)) (largest < length lots) (fmt_share (sum_list (map lot_qty sorted))))"

text \<open>The text names the oldest purchases, and its total does not depend on the order of the lots.\<close>

lemma describe_oldest:
  assumes "describe_cost_basis k (Some c) lots = Basis c' n items rest shares"
  shows "n = length lots \<and> length items = min k n \<and> rest = (k < n) \<and> sorted (map bi_time items) \<and>
    shares = fmt_share (sum_list (map lot_qty lots)) \<and>
    (\<forall>i \<in> set items. \<forall>l \<in> set (drop k (sort_key lot_ts lots)). bi_time i \<le> lot_ts l)"
proof -
  let ?s = "sort_key lot_ts lots"
  have items: "items = basis_items (take k ?s)" "n = length lots" "rest = (k < n)" "shares = fmt_share (sum_list (map lot_qty ?s))"
    using assms by (auto simp: describe_cost_basis_def Let_def split: if_splits)
  have "map lot_ts (map snd (enumerate 0 xs)) = map lot_ts xs" for xs :: "lot list" by simp
  then have times: "map bi_time (basis_items xs) = map lot_ts xs" for xs
    unfolding map_map by (simp add: basis_items_def o_def split_beta)
  have "sum_list (map lot_qty ?s) = sum_list (map lot_qty lots)"
    by (metis mset_map mset_sort sum_mset_sum_list)
  moreover have "sorted (map lot_ts (take k ?s) @ map lot_ts (drop k ?s))"
    by (simp flip: map_append)
  then have "sorted (map lot_ts (take k ?s))" "\<forall>x \<in> set (take k ?s). \<forall>l \<in> set (drop k ?s). lot_ts x \<le> lot_ts l"
    unfolding sorted_append by auto
  moreover have "bi_time ` set items = lot_ts ` set (take k ?s)"
    using arg_cong [OF times [of "take k ?s"], of set] unfolding items(1) by simp
  moreover have "length items = min k n"
    unfolding items(1,2) by (simp add: basis_items_def min.commute)
  moreover from calculation have "\<forall>i \<in> set items. \<forall>l \<in> set (drop k ?s). bi_time i \<le> lot_ts l"
    by (metis imageE imageI)
  ultimately show ?thesis
    using items times [of "take k ?s"] by simp
qed

section \<open>Statuses that outlive their wallet\<close>

definition clear_statuses :: "Exit_Status.snapshots \<Rightarrow> Exit_Status.snapshots" where
  "clear_statuses snaps = []"

text \<open>A snapshot is only ever replaced by one of its own wallet: what a stopped wallet last published stays in the sums
  and on the pages, whatever the other wallets publish.\<close>

lemma stale_status:
  assumes "map_of snaps v = Some x" and "v \<noteq> w"
  shows "map_of (Exit_Status.set_snapshot w sn snaps) v = Some x"
  using assms by (induction w sn snaps rule: Exit_Status.set_snapshot.induct) auto

end
