(* ===== verification/Wallet_Import.thy ===== *)
theory Wallet_Import
  imports Accounts
begin

text \<open>
  Importing many wallets at once (\<open>web/wallet_import.py\<close> and \<open>_run_import\<close> of \<open>web/routes.py\<close>): reading
  the pasted text, one wallet a line, and the job that imports row after row. The pasted text is a list
  of code points; a field is handed on in UTF-8.
\<close>

section \<open>Code points\<close>

definition unicode_space :: "nat \<Rightarrow> bool" where
  "unicode_space n \<longleftrightarrow> (9 \<le> n \<and> n \<le> 13) \<or> (28 \<le> n \<and> n \<le> 32) \<or> n \<in> {133, 160, 5760, 8232, 8233, 8239, 8287, 12288} \<or> (8192 \<le> n \<and> n \<le> 8202)"

definition strip_points :: "nat list \<Rightarrow> nat list" where
  "strip_points s = rev (dropWhile unicode_space (rev (dropWhile unicode_space s)))"

definition utf8_point :: "nat \<Rightarrow> string" where
  "utf8_point n =
     (if n < 128 then [char_of n]
      else if n < 2048 then [char_of (192 + n div 64), char_of (128 + n mod 64)]
      else if n < 65536 then [char_of (224 + n div 4096), char_of (128 + n div 64 mod 64), char_of (128 + n mod 64)]
      else [char_of (240 + n div 262144), char_of (128 + n div 4096 mod 64), char_of (128 + n div 64 mod 64), char_of (128 + n mod 64)])"

definition utf8 :: "nat list \<Rightarrow> string" where
  "utf8 s = concat (map utf8_point s)"

section \<open>Reading the pasted text\<close>

definition line_break :: "nat \<Rightarrow> bool" where
  "line_break n \<longleftrightarrow> (10 \<le> n \<and> n \<le> 13) \<or> (28 \<le> n \<and> n \<le> 30) \<or> n \<in> {133, 8232, 8233}"

text \<open>\<open>splitlines\<close>: a carriage return and the line feed after it are one break; no empty line follows the last break.\<close>

function (sequential) split_lines :: "nat list \<Rightarrow> nat list list" where
  "split_lines [] = []"
| "split_lines (c # s) =
     (if line_break c then [] # split_lines (if c = 13 \<and> s \<noteq> [] \<and> hd s = 10 then tl s else s)
      else case split_lines s of [] \<Rightarrow> [[c]] | l # ls \<Rightarrow> (c # l) # ls)"
  by pat_completeness auto
termination by (relation "measure length") (auto simp: less_Suc_eq_le)

text \<open>\<open>s.split(",")\<close>.\<close>

fun split_commas :: "nat list \<Rightarrow> nat list list" where
  "split_commas [] = [[]]"
| "split_commas (c # s) = (if c = 44 then [] # split_commas s else (c # hd (split_commas s)) # tl (split_commas s))"

datatype row_error = Too_many_fields | No_key

record import_row =
  ir_line :: nat
  ir_key :: string
  ir_proxy :: string
  ir_remark :: string
  ir_error :: "row_error option"

definition error_row :: "nat \<Rightarrow> row_error \<Rightarrow> import_row" where
  "error_row i e = \<lparr>ir_line = i, ir_key = [], ir_proxy = [], ir_remark = [], ir_error = Some e\<rparr>"

definition max_fields :: nat where
  "max_fields = 3"

text \<open>One line: no row for a blank one. The fullwidth comma counts as a comma.\<close>

definition parse_line :: "nat \<Rightarrow> nat list \<Rightarrow> import_row option" where
  "parse_line i raw =
     (let line = strip_points (map (\<lambda>c. if c = 65292 then 44 else c) raw) in
      if line = [] then None
      else
        let parts = map strip_points (split_commas line) in
        if max_fields < length parts then Some (error_row i Too_many_fields)
        else
          let parts = parts @ replicate (max_fields - length parts) [] in
          if parts ! 0 = [] then Some (error_row i No_key)
          else Some \<lparr>ir_line = i, ir_key = utf8 (parts ! 0), ir_proxy = utf8 (parts ! 1), ir_remark = utf8 (parts ! 2), ir_error = None\<rparr>)"

fun parse_lines_from :: "nat \<Rightarrow> nat list list \<Rightarrow> import_row list" where
  "parse_lines_from i [] = []"
| "parse_lines_from i (l # ls) =
     (case parse_line i l of None \<Rightarrow> parse_lines_from (i + 1) ls | Some r \<Rightarrow> r # parse_lines_from (i + 1) ls)"

definition parse_import_lines :: "nat list \<Rightarrow> import_row list" where
  "parse_import_lines text = parse_lines_from 1 (split_lines text)"

section \<open>The job\<close>

datatype row_result = Row_error row_error | Import_error import_error | Row_ok imported

record report =
  rp_line :: nat
  rp_remark :: string
  rp_result :: row_result

record import_job =
  jb_running :: bool
  jb_total :: nat
  jb_done :: nat
  jb_results :: "report list"

definition new_job :: import_job where
  "new_job = \<lparr>jb_running = False, jb_total = 0, jb_done = 0, jb_results = []\<rparr>"

definition job_start :: "nat \<Rightarrow> import_job \<Rightarrow> bool \<times> import_job" where
  "job_start n j =
     (if jb_running j then (False, j)
      else (True, \<lparr>jb_running = True, jb_total = n, jb_done = 0, jb_results = []\<rparr>))"

definition job_add :: "report \<Rightarrow> import_job \<Rightarrow> import_job" where
  "job_add r j = j\<lparr>jb_results := jb_results j @ [r], jb_done := jb_done j + 1\<rparr>"

definition job_finish :: "import_job \<Rightarrow> import_job" where
  "job_finish j = j\<lparr>jb_running := False\<rparr>"

text \<open>The body of the thread for one row; the services may answer differently for each row.\<close>

definition import_one :: "services \<Rightarrow> import_row \<Rightarrow> db \<times> api_cache \<Rightarrow> row_result \<times> db \<times> api_cache" where
  "import_one sv r st =
     (case ir_error r of
        Some e \<Rightarrow> (Row_error e, st)
      | None \<Rightarrow> (case import_wallet sv (ir_key r) [] (ir_proxy r) (ir_remark r) st of
            (Inl e, st') \<Rightarrow> (Import_error e, st')
          | (Inr im, st') \<Rightarrow> (Row_ok im, st')))"

fun import_rows :: "(nat \<Rightarrow> services) \<Rightarrow> import_row list \<Rightarrow> import_job \<Rightarrow> db \<times> api_cache \<Rightarrow> import_job \<times> db \<times> api_cache" where
  "import_rows sv [] j st = (j, st)"
| "import_rows sv (r # rs) j st =
     (let (res, st') = import_one (sv (ir_line r)) r st
      in import_rows sv rs (job_add \<lparr>rp_line = ir_line r, rp_remark = ir_remark r, rp_result = res\<rparr> j) st')"

definition run_import :: "(nat \<Rightarrow> services) \<Rightarrow> import_row list \<Rightarrow> import_job \<Rightarrow> db \<times> api_cache \<Rightarrow> import_job \<times> db \<times> api_cache" where
  "run_import sv rows j st = (let (j', st') = import_rows sv rows j st in (job_finish j', st'))"

datatype import_answer = Nothing_to_import | Import_running | Import_started nat

text \<open>The page that starts a job: the answer, the job and, when one was started, the rows its thread works off.\<close>

definition api_import_wallets :: "nat list \<Rightarrow> import_job \<Rightarrow> import_answer \<times> import_job \<times> import_row list option" where
  "api_import_wallets text j =
     (let rows = parse_import_lines text in
      if rows = [] then (Nothing_to_import, j, None)
      else (let (ok, j') = job_start (length rows) j in
        if \<not> ok then (Import_running, j', None) else (Import_started (length rows), j', Some rows)))"

section \<open>Reading back what was written\<close>

lemma split_line: "\<forall>c\<in>set l. \<not> line_break c \<Longrightarrow> split_lines (l @ 10 # s) = l # split_lines s"
  by (induction l) (auto simp: line_break_def)

lemma split_comma: "44 \<notin> set f \<Longrightarrow> split_commas (f @ 44 # s) = f # split_commas s"
  by (induction f) auto

lemma split_no_comma: "44 \<notin> set f \<Longrightarrow> split_commas f = [f]"
  by (induction f) auto

lemma strip_points_id: "s = [] \<or> \<not> unicode_space (hd s) \<and> \<not> unicode_space (last s) \<Longrightarrow> strip_points s = s"
proof -
  assume a: "s = [] \<or> \<not> unicode_space (hd s) \<and> \<not> unicode_space (last s)"
  then have "dropWhile unicode_space s = s" "dropWhile unicode_space (rev s) = rev s"
    by (auto simp: dropWhile_eq_self_iff hd_rev)
  then show ?thesis by (simp add: strip_points_def)
qed

text \<open>A wallet as its owner would write it: the three fields in code points.\<close>

definition plain_field :: "nat list \<Rightarrow> bool" where
  "plain_field f \<longleftrightarrow> 44 \<notin> set f \<and> 65292 \<notin> set f \<and> (\<forall>c\<in>set f. \<not> line_break c) \<and>
     (f = [] \<or> \<not> unicode_space (hd f) \<and> \<not> unicode_space (last f))"

definition write_line :: "nat list \<times> nat list \<times> nat list \<Rightarrow> nat list" where
  "write_line = (\<lambda>(k, p, r). k @ [44] @ p @ [44] @ r)"

definition row_of :: "nat \<Rightarrow> nat list \<times> nat list \<times> nat list \<Rightarrow> import_row" where
  "row_of i = (\<lambda>(k, p, r). \<lparr>ir_line = i, ir_key = utf8 k, ir_proxy = utf8 p, ir_remark = utf8 r, ir_error = None\<rparr>)"

definition plain_wallet :: "nat list \<times> nat list \<times> nat list \<Rightarrow> bool" where
  "plain_wallet = (\<lambda>(k, p, r). k \<noteq> [] \<and> plain_field k \<and> plain_field p \<and> plain_field r)"

text \<open>Lines with wallets and blank lines.\<close>

definition write_text :: "(nat list \<times> nat list \<times> nat list) option list \<Rightarrow> nat list" where
  "write_text ws = concat (map (\<lambda>w. (case w of None \<Rightarrow> [32] | Some x \<Rightarrow> write_line x) @ [10]) ws)"

fun rows_from :: "nat \<Rightarrow> (nat list \<times> nat list \<times> nat list) option list \<Rightarrow> import_row list" where
  "rows_from i [] = []"
| "rows_from i (None # ws) = rows_from (i + 1) ws"
| "rows_from i (Some w # ws) = row_of i w # rows_from (i + 1) ws"

lemma read_line:
  assumes "plain_wallet (k, p, r)"
  shows "parse_line i (write_line (k, p, r)) = Some (row_of i (k, p, r))" and "\<forall>c\<in>set (write_line (k, p, r)). \<not> line_break c"
proof -
  have f: "k \<noteq> []" "plain_field k" "plain_field p" "plain_field r"
    using assms by (simp_all add: plain_wallet_def)
  let ?l = "k @ 44 # p @ 44 # r"
  have same: "map (\<lambda>c. if c = 65292 then 44 else c) x = x" if "plain_field x" for x
    using that by (intro map_idI) (auto simp: plain_field_def)
  have "hd ?l = hd k" "last ?l = (if r = [] then 44 else last r)" "\<not> unicode_space 44"
    using f(1) by (auto simp: unicode_space_def)
  then have strip: "strip_points ?l = ?l"
    using f(1,2,4) by (intro strip_points_id) (auto simp: plain_field_def)
  have parts: "split_commas ?l = [k, p, r]" "strip_points k = k" "strip_points p = p" "strip_points r = r"
    using f by (simp_all add: plain_field_def split_comma split_no_comma strip_points_id)
  show "parse_line i (write_line (k, p, r)) = Some (row_of i (k, p, r))"
    unfolding parse_line_def write_line_def row_of_def using f
    by (simp add: same strip parts Let_def max_fields_def)
  show "\<forall>c\<in>set (write_line (k, p, r)). \<not> line_break c"
    using f by (auto simp: write_line_def plain_field_def line_break_def)
qed

lemma read_lines:
  "(\<And>w. Some w \<in> set ws \<Longrightarrow> plain_wallet w) \<Longrightarrow> parse_lines_from i (split_lines (write_text ws)) = rows_from i ws"
proof (induction ws arbitrary: i)
  case (Cons w ws)
  then have IH: "parse_lines_from (i + 1) (split_lines (write_text ws)) = rows_from (i + 1) ws"
    by simp
  show ?case
  proof (cases w)
    case None
    have "parse_line i [32] = None"
      by (simp add: parse_line_def strip_points_def unicode_space_def)
    with None IH show ?thesis
      using split_line [of "[32]" "write_text ws"] by (simp add: write_text_def line_break_def)
  next
    case (Some x)
    obtain k p r where x: "x = (k, p, r)" by (cases x)
    have "plain_wallet (k, p, r)"
      using Cons.prems [of x] Some x by simp
    from read_line [OF this] Some x IH show ?thesis
      using split_line [of "write_line (k, p, r)" "write_text ws"] by (simp add: write_text_def)
  qed
qed (simp add: write_text_def)

text \<open>Reading back a list of wallets. Wallets written one a line as key, proxy and remark with commas
  between, blank lines among them, are read as exactly these wallets, without an error, each with the
  number its line has in the text; the fields may hold anything but commas, line breaks and blanks
  at their ends, and proxy and remark may be empty.\<close>

theorem import_lines_roundtrip:
  assumes "\<And>w. Some w \<in> set ws \<Longrightarrow> plain_wallet w"
  shows "parse_import_lines (write_text ws) = rows_from 1 ws"
  unfolding parse_import_lines_def using assms by (rule read_lines)

section \<open>The job isolates its rows\<close>

lemma import_row_effect:
  assumes "import_one sv r (d, c) = (res, d', c')"
  shows "map wa_address (db_wallets d') = map wa_address (db_wallets d) @ (case res of Row_ok im \<Rightarrow> [im_address im] | _ \<Rightarrow> []) \<and>
    ((\<nexists>im. res = Row_ok im) \<longrightarrow> (d', c') = (d, c))"
proof -
  consider (bad) e where "ir_error r = Some e" "res = Row_error e" "(d', c') = (d, c)"
    | (failed) e where "import_wallet sv (ir_key r) [] (ir_proxy r) (ir_remark r) (d, c) = (Inl e, d', c')" "res = Import_error e"
    | (ok) im where "import_wallet sv (ir_key r) [] (ir_proxy r) (ir_remark r) (d, c) = (Inr im, d', c')" "res = Row_ok im"
    using assms by (auto simp: import_one_def split: option.splits prod.splits sum.splits)
  then show ?thesis
  proof cases
    case bad
    then show ?thesis by simp
  next
    case failed
    then show ?thesis using import_failed by fastforce
  next
    case ok
    from ok(1) obtain key proxy where
      "add_wallet (im_address im) (sv_encrypt sv key) (im_funder im) (im_sig im) proxy (im_remark im) d = Some d'"
      by (rule import_result)
    with ok(2) show ?thesis
      by (auto simp: add_wallet_def split: if_splits)
  qed
qed

fun ok_addresses :: "report list \<Rightarrow> string list" where
  "ok_addresses [] = []"
| "ok_addresses (r # rs) = (case rp_result r of Row_ok im \<Rightarrow> im_address im # ok_addresses rs | _ \<Rightarrow> ok_addresses rs)"

lemma ok_addresses_append [simp]: "ok_addresses (a @ b) = ok_addresses a @ ok_addresses b"
  by (induction a) (auto split: row_result.split)

definition failing :: "(nat \<Rightarrow> services) \<Rightarrow> import_row \<Rightarrow> db \<times> api_cache \<Rightarrow> bool" where
  "failing sv r st \<longleftrightarrow> (case fst (import_one (sv (ir_line r)) r st) of Row_ok im \<Rightarrow> False | _ \<Rightarrow> True)"

lemma import_rows_effect:
  assumes "import_rows sv rows j (d, c) = (j', d', c')"
  shows "\<exists>rs. jb_results j' = jb_results j @ rs \<and> jb_done j' = jb_done j + length rows \<and> jb_running j' = jb_running j \<and> jb_total j' = jb_total j \<and>
    map rp_line rs = map ir_line rows \<and> map rp_remark rs = map ir_remark rows \<and>
    map wa_address (db_wallets d') = map wa_address (db_wallets d) @ ok_addresses rs"
  using assms
proof (induction rows arbitrary: j d c)
  case (Cons r rows)
  obtain res d1 c1 where step: "import_one (sv (ir_line r)) r (d, c) = (res, d1, c1)" by (cases "import_one (sv (ir_line r)) r (d, c)")
  let ?rp = "\<lparr>rp_line = ir_line r, rp_remark = ir_remark r, rp_result = res\<rparr>"
  have "import_rows sv rows (job_add ?rp j) (d1, c1) = (j', d', c')"
    using Cons.prems step by simp
  from Cons.IH [OF this] obtain rs where
    "jb_results j' = (jb_results j @ [?rp]) @ rs \<and> jb_done j' = jb_done j + 1 + length rows \<and> jb_running j' = jb_running j \<and> jb_total j' = jb_total j \<and>
     map rp_line rs = map ir_line rows \<and> map rp_remark rs = map ir_remark rows \<and>
     map wa_address (db_wallets d') = map wa_address (db_wallets d1) @ ok_addresses rs"
    by (auto simp: job_add_def)
  with import_row_effect [OF step] show ?case
    by (intro exI [of _ "?rp # rs"]) (auto split: row_result.splits)
qed simp

lemma failing_row: "failing sv r st \<Longrightarrow> snd (import_one (sv (ir_line r)) r st) = st"
  using import_row_effect [of "sv (ir_line r)" r "fst st" "snd st"]
  by (cases "import_one (sv (ir_line r)) r st"; cases st) (auto simp: failing_def split: row_result.splits)

text \<open>Rows that fail where they stand can be left out without a difference to the wallets.\<close>

fun importing :: "(nat \<Rightarrow> services) \<Rightarrow> import_row list \<Rightarrow> db \<times> api_cache \<Rightarrow> import_row list" where
  "importing sv [] st = []"
| "importing sv (r # rows) st =
     (let rest = importing sv rows (snd (import_one (sv (ir_line r)) r st)) in if failing sv r st then rest else r # rest)"

lemma only_importing: "snd (import_rows sv (importing sv rows st) j st) = snd (import_rows sv rows j' st)"
proof (induction rows arbitrary: st j j')
  case (Cons r rows)
  show ?case
    using Cons.IH failing_row [of sv r st]
    by (auto simp: Let_def split: prod.split)
qed simp

text \<open>One bad line does not spoil the rest. When a batch has run, the job is no longer running, every row has
  exactly one report, in the order and with the line number of the text, and the count of
  the rows done is their number; the wallets added are exactly those reported as imported, in this
  order; and the database is the one a batch without the failing rows would have left. While a batch runs, no
  second one is started.\<close>

theorem import_batch_isolated:
  assumes "job_start (length rows) j0 = (True, j)" and "run_import sv rows j (d, c) = (j', d', c')"
  shows "\<not> jb_running j' \<and> jb_done j' = jb_total j' \<and> map rp_line (jb_results j') = map ir_line rows \<and>
    map wa_address (db_wallets d') = map wa_address (db_wallets d) @ ok_addresses (jb_results j') \<and>
    snd (run_import sv (importing sv rows (d, c)) j (d, c)) = (d', c') \<and>
    api_import_wallets text j = (if parse_import_lines text = [] then Nothing_to_import else Import_running, j, None)"
proof -
  obtain j1 where run: "import_rows sv rows j (d, c) = (j1, d', c')" and j': "j' = job_finish j1"
    using assms(2) by (auto simp: run_import_def split: prod.splits)
  have j: "jb_running j" "jb_total j = length rows" "jb_done j = 0" "jb_results j = []"
    using assms(1) by (auto simp: job_start_def split: if_splits)
  obtain rs where "jb_results j1 = rs \<and> jb_done j1 = length rows \<and> jb_total j1 = length rows \<and> map rp_line rs = map ir_line rows \<and>
      map wa_address (db_wallets d') = map wa_address (db_wallets d) @ ok_addresses rs"
    using import_rows_effect [OF run] j by auto
  moreover have "snd (run_import sv (importing sv rows (d, c)) j (d, c)) = (d', c')"
    using only_importing [of sv rows "(d, c)" j j] run by (auto simp: run_import_def split: prod.splits)
  ultimately show ?thesis
    using j by (auto simp: j' job_finish_def api_import_wallets_def job_start_def Let_def)
qed

section \<open>Witnesses\<close>

definition demo_row :: "nat list \<times> nat list \<times> nat list" where
  "demo_row = (replicate 64 97, [], [109, 101])"

lemma import_lines_witness: "parse_import_lines (write_text [None, Some demo_row]) = [row_of 2 demo_row]"
proof -
  have "plain_wallet w" if "Some w \<in> set [None, Some demo_row]" for w
    using that by (simp add: demo_row_def plain_wallet_def plain_field_def line_break_def unicode_space_def)
  from import_lines_roundtrip [of "[None, Some demo_row]", OF this] show ?thesis by (simp add: numeral_2_eq_2)
qed

definition keyless_row :: import_row where
  "keyless_row = error_row 1 No_key"

lemma import_batch_witness:
  "\<exists>j'. run_import (\<lambda>i. demo_services) [keyless_row] (snd (job_start 1 new_job)) (demo_empty, Map.empty) = (j', demo_empty, Map.empty) \<and>
     \<not> jb_running j' \<and> map rp_line (jb_results j') = [1]"
proof -
  have s: "job_start (length [keyless_row]) new_job = (True, snd (job_start 1 new_job))"
    by (simp add: job_start_def new_job_def)
  obtain j' where run: "run_import (\<lambda>i. demo_services) [keyless_row] (snd (job_start 1 new_job)) (demo_empty, Map.empty) = (j', demo_empty, Map.empty)"
    by (simp add: run_import_def import_one_def keyless_row_def error_row_def)
  from import_batch_isolated [OF s run] run show ?thesis
    by (auto simp: keyless_row_def error_row_def)
qed

end
