(* ===== verification/Pnl.thy ===== *)
theory Pnl
  imports Fills Merge
begin

text \<open>
  The daily profit ledger: Beijing days, rewards and rebates per day, realised profit per
  day by first-in first-out matching (\<open>engine/pnl.py\<close>), and the rows that
  \<open>rebuild_wallet_pnl\<close> (\<open>engine/pnl_ledger.py\<close>) writes. A calendar date is the number of
  days since 1970-01-01 (the code writes it as a date string, which is the same order and
  the same arithmetic); dictionaries keyed by date are maps.
\<close>

section \<open>Days\<close>

definition beijing_day :: "rat option \<Rightarrow> int" where
  "beijing_day ts = \<lfloor>(or0 ts + 8 * 3600) / 86400\<rfloor>"

definition beijing_hour :: "rat option \<Rightarrow> int" where
  "beijing_hour ts = \<lfloor>(or0 ts + 8 * 3600) / 3600\<rfloor> mod 24"

text \<open>\<open>datetime.weekday\<close>: Monday is 0; day 0 of the epoch was a Thursday.\<close>

definition weekday :: "int \<Rightarrow> int" where
  "weekday d = (d + 3) mod 7"

definition weekly_window :: "int \<Rightarrow> int \<times> int \<times> int" where
  "weekly_window d =
     (let monday = d - weekday d; yesterday = d - 1; start = yesterday - 6
      in (monday, start, yesterday))"

definition prev_day :: "int \<Rightarrow> int" where
  "prev_day d = d - 1"

section \<open>Fees, rewards and realised profit\<close>

definition fee_from_fill :: "fill \<Rightarrow> rat" where
  "fee_from_fill f =
     (if fill_fee_bps f \<le> 0 then 0 else fill_fee_bps f / 10000 * fill_price f * fill_size f)"

record activity =
  ac_type :: string
  ac_usdc :: "rat option"
  ac_ts :: "rat option"

record reward_day =
  rd_reward :: "rat option"
  rd_rebate :: "rat option"

definition no_reward :: reward_day where
  "no_reward = \<lparr>rd_reward = None, rd_rebate = None\<rparr>"

definition reward_step :: "(int \<Rightarrow> reward_day option) \<Rightarrow> activity \<Rightarrow> int \<Rightarrow> reward_day option" where
  "reward_step out a =
     (let t = upper (ac_type a); amt = or0 (ac_usdc a);
          get = (\<lambda>d. case out d of Some r \<Rightarrow> r | None \<Rightarrow> no_reward)
      in if t = ''REWARD'' then
           let d = prev_day (beijing_day (ac_ts a)); r = get d
           in out (d \<mapsto> r\<lparr>rd_reward := Some (or0 (rd_reward r) + amt)\<rparr>)
         else if t = ''MAKER_REBATE'' then
           let d = beijing_day (ac_ts a); r = get d
           in out (d \<mapsto> r\<lparr>rd_rebate := Some (or0 (rd_rebate r) + amt)\<rparr>)
         else out)"

definition reward_rebate_by_day :: "activity list \<Rightarrow> int \<Rightarrow> reward_day option" where
  "reward_rebate_by_day acts = foldl reward_step Map.empty acts"

record pnl_day =
  pd_profit :: rat
  pd_loss :: rat
  pd_fee :: rat

definition zero_pnl :: pnl_day where
  "zero_pnl = \<lparr>pd_profit = 0, pd_loss = 0, pd_fee = 0\<rparr>"

definition bucket :: "(int \<Rightarrow> pnl_day option) \<Rightarrow> int \<Rightarrow> pnl_day" where
  "bucket out d = (case out d of Some v \<Rightarrow> v | None \<Rightarrow> zero_pnl)"

text \<open>One round of the replay: \<open>matched_any\<close> is true when the inner loop runs at least
once.\<close>

definition pnl_step ::
    "lot list \<times> (int \<Rightarrow> pnl_day option) \<Rightarrow> fill \<Rightarrow> lot list \<times> (int \<Rightarrow> pnl_day option)" where
  "pnl_step st f =
     (let (lots, out) = st; d = beijing_day (Some (fill_ts f)); fee = fee_from_fill f;
          out1 = (if fee \<noteq> 0 then out (d \<mapsto> (bucket out d)\<lparr>pd_fee := pd_fee (bucket out d) + fee\<rparr>)
                  else out)
      in if fill_size f \<le> 0 then (lots, out1)
         else if upper (fill_side f) = ''BUY'' then (lots @ [lot_of_fill f], out1)
         else if upper (fill_side f) = ''SELL'' then
           let (lots', realized) = drain_pnl (fill_price f) (fill_size f) lots 0;
               matched_any = (eps < fill_size f \<and> lots \<noteq> []);
               b = bucket out1 d
           in if \<not> matched_any then (lots', out1)
              else if 0 \<le> realized
              then (lots', out1 (d \<mapsto> b\<lparr>pd_profit := pd_profit b + realized\<rparr>))
              else (lots', out1 (d \<mapsto> b\<lparr>pd_loss := pd_loss b - realized\<rparr>))
         else (lots, out1))"

definition realized_pnl_by_day :: "fill list \<Rightarrow> int \<Rightarrow> pnl_day option" where
  "realized_pnl_by_day fills =
     (let out = snd (foldl pnl_step ([], Map.empty) (sort_key fill_ts fills)) in
      (\<lambda>d. case out d of None \<Rightarrow> None
         | Some v \<Rightarrow> if pd_profit v \<noteq> 0 \<or> pd_loss v \<noteq> 0 \<or> pd_fee v \<noteq> 0 then Some v else None))"

section \<open>The ledger rows\<close>

text \<open>\<open>_date_range\<close>.\<close>

definition date_range :: "int \<Rightarrow> int \<Rightarrow> int list" where
  "date_range from_d to_d = [from_d..to_d]"

record ledger_row =
  lr_wallet :: string
  lr_date :: int
  lr_reward :: rat
  lr_rebate :: rat
  lr_profit :: rat
  lr_loss :: rat
  lr_fee :: rat
  lr_merge :: rat

definition add_pnl :: "pnl_day \<Rightarrow> pnl_day \<Rightarrow> pnl_day" where
  "add_pnl a b = \<lparr>pd_profit = pd_profit a + pd_profit b, pd_loss = pd_loss a + pd_loss b,
     pd_fee = pd_fee a + pd_fee b\<rparr>"

text \<open>The aggregation over the assets, one day at a time: every asset's day is added.\<close>

definition aggregate :: "trade list \<Rightarrow> string \<Rightarrow> int \<Rightarrow> pnl_day option" where
  "aggregate trs funder =
     foldl (\<lambda>agg asset d. case realized_pnl_by_day (extract_fills trs funder asset) d of
         None \<Rightarrow> agg d
       | Some v \<Rightarrow> Some (add_pnl (bucket agg d) v))
       Map.empty (our_traded_assets trs funder)"

definition rebuild_wallet_pnl ::
    "string \<Rightarrow> activity list \<Rightarrow> trade list \<Rightarrow> (rat option \<times> rat option) list \<Rightarrow>
     string \<Rightarrow> int \<Rightarrow> int \<Rightarrow> ledger_row list" where
  "rebuild_wallet_pnl funder acts trs merges wallet from_d to_d =
     (let rr = reward_rebate_by_day acts; realized = aggregate trs funder;
          mbd = merge_pnl_by_day merges (\<lambda>ts. beijing_day (Some ts))
      in map (\<lambda>d.
           let r = (case rr d of Some r \<Rightarrow> r | None \<Rightarrow> no_reward); z = bucket realized d
           in \<lparr>lr_wallet = wallet, lr_date = d, lr_reward = or0 (rd_reward r),
               lr_rebate = or0 (rd_rebate r), lr_profit = pd_profit z, lr_loss = pd_loss z,
               lr_fee = pd_fee z, lr_merge = or0 (mbd d)\<rparr>)
         (date_range from_d to_d))"

section \<open>Realised profit, unit by unit\<close>

text \<open>The specification walks the queue of share units.\<close>

fun spec_net :: "rat list \<Rightarrow> fill list \<Rightarrow> int \<Rightarrow> rat" where
  "spec_net us [] d = 0"
| "spec_net us (f # fs) d =
     (if upper (fill_side f) = ''SELL'' \<and> beijing_day (Some (fill_ts f)) = d
      then sum_list (map (\<lambda>c. fill_price f - c) (take (n_units (fill_size f)) us)) * share_unit
      else 0) + spec_net (spec_fill us f) fs d"

definition day_net :: "(int \<Rightarrow> pnl_day option) \<Rightarrow> int \<Rightarrow> rat" where
  "day_net out d = pd_profit (bucket out d) - pd_loss (bucket out d)"

definition day_fee :: "fill list \<Rightarrow> int \<Rightarrow> rat" where
  "day_fee fs d = sum_list (map fee_from_fill (filter (\<lambda>f. beijing_day (Some (fill_ts f)) = d) fs))"

lemma pnl_step_lots: "fst (pnl_step (lots, out) f) = replay_fill lots f"
  using drain_pnl_fst [of "fill_price f" "fill_size f" lots 0]
  by (auto simp: pnl_step_def replay_fill_def Let_def split: prod.splits)

lemma bucket_upd [simp]: "bucket (out(d \<mapsto> v)) e = (if e = d then v else bucket out e)"
  by (simp add: bucket_def)

lemma pnl_step_net:
  assumes "good_lots lots" "grid_fill f"
  shows "day_net (snd (pnl_step (lots, out) f)) d = day_net out d +
    (if upper (fill_side f) = ''SELL'' \<and> beijing_day (Some (fill_ts f)) = d
     then sum_list (map (\<lambda>c. fill_price f - c) (take (n_units (fill_size f)) (units lots))) * share_unit
     else 0)"
proof (cases "0 < fill_size f \<and> upper (fill_side f) = ''SELL''")
  case False
  then show ?thesis
    by (auto simp: pnl_step_def Let_def day_net_def n_units_nonpos not_less)
next
  case True
  then have q: "good_qty (fill_size f)" using assms by (simp add: good_qty_def grid_fill_def)
  have eps: "eps < fill_size f" using good_qty_simps [OF q] True by simp
  have u: "units [] = []" by simp
  from True drain_pnl_units [OF assms(1) q, of "fill_price f" 0] eps show ?thesis
    by (auto simp: pnl_step_def Let_def day_net_def split: prod.splits)
qed

lemma pnl_step_fee:
  "pd_fee (bucket (snd (pnl_step (lots, out) f)) d) = pd_fee (bucket out d) +
    (if beijing_day (Some (fill_ts f)) = d then fee_from_fill f else 0)"
  by (auto simp: pnl_step_def Let_def split: prod.splits)

lemma pnl_step_nonneg:
  assumes "\<forall>d. 0 \<le> pd_profit (bucket out d) \<and> 0 \<le> pd_loss (bucket out d)"
  shows "0 \<le> pd_profit (bucket (snd (pnl_step (lots, out) f)) d) \<and>
    0 \<le> pd_loss (bucket (snd (pnl_step (lots, out) f)) d)"
  using assms by (auto simp: pnl_step_def Let_def not_le split: prod.splits
    intro: order_trans [OF less_imp_le, where y = 0])

lemma pnl_replay:
  assumes "list_all grid_fill fs" "good_lots lots"
    "\<forall>d. 0 \<le> pd_profit (bucket out d) \<and> 0 \<le> pd_loss (bucket out d)"
  shows "(let out' = snd (foldl pnl_step (lots, out) fs) in
    day_net out' d = day_net out d + spec_net (units lots) fs d \<and>
    pd_fee (bucket out' d) = pd_fee (bucket out d) + day_fee fs d \<and>
    0 \<le> pd_profit (bucket out' d) \<and> 0 \<le> pd_loss (bucket out' d))"
  using assms
proof (induction fs arbitrary: lots out)
  case Nil
  then show ?case by (simp add: day_fee_def)
next
  case (Cons f fs)
  obtain lots' out' where s: "pnl_step (lots, out) f = (lots', out')" by fastforce
  have lots': "lots' = replay_fill lots f" using pnl_step_lots [of lots out f] s by simp
  have g: "good_lots lots'" "units lots' = spec_fill (units lots) f"
    using replay_fill_step [of f lots] Cons.prems lots' by simp_all
  have nn: "\<forall>d. 0 \<le> pd_profit (bucket out' d) \<and> 0 \<le> pd_loss (bucket out' d)"
    using pnl_step_nonneg [OF Cons.prems(3), of lots f] s by simp
  from Cons.IH [OF _ g(1) nn] Cons.prems(1) pnl_step_net [OF Cons.prems(2), of f out d]
    pnl_step_fee [of lots out f d] g(2)
  show ?case by (auto simp: s Let_def day_fee_def)
qed

lemma realized_bucket:
  "bucket (realized_pnl_by_day fills) d = bucket (snd (foldl pnl_step ([], Map.empty) (sort_key fill_ts fills))) d"
  by (auto simp: realized_pnl_by_day_def bucket_def Let_def zero_pnl_def split: option.splits)

lemma realized_pnl_unitwise_aux:
  "list_all grid_fill fills \<Longrightarrow>
    day_net (realized_pnl_by_day fills) d = spec_net [] (sort_key fill_ts fills) d"
  using pnl_replay [of "sort_key fill_ts fills" "[]" Map.empty d]
  by (simp add: day_net_def realized_bucket Let_def) (simp add: bucket_def zero_pnl_def)

text \<open>C38: the realised profit of a day is, unit by unit, the sale price minus the price of
the oldest units still held at that sale, summed over that day's sales in time order;
the day's fee is the sum of that day's fees, and profit and loss are both non-negative.\<close>

theorem realized_pnl_unitwise:
  assumes "list_all grid_fill fills"
  shows "day_net (realized_pnl_by_day fills) d = spec_net [] (sort_key fill_ts fills) d \<and>
    pd_fee (bucket (realized_pnl_by_day fills) d) = day_fee (sort_key fill_ts fills) d \<and>
    0 \<le> pd_profit (bucket (realized_pnl_by_day fills) d) \<and>
    0 \<le> pd_loss (bucket (realized_pnl_by_day fills) d)"
  using pnl_replay [of "sort_key fill_ts fills" "[]" Map.empty d] assms
  by (simp add: day_net_def realized_bucket Let_def) (simp add: bucket_def zero_pnl_def)


lemma realized_pnl_witness:
  "let b = demo_fill ''BUY'' (2/5) (3/1000000) 1; s = demo_fill ''SELL'' (1/2) (2/1000000) 3
   in list_all grid_fill [s, b] \<and> day_net (realized_pnl_by_day [s, b]) 0 = (1/5) / 10 ^ 6"
proof -
  define b s where bs: "b = demo_fill ''BUY'' (2/5) (3/1000000) 1"
    "s = demo_fill ''SELL'' (1/2) (2/1000000) 3"
  have g: "list_all grid_fill [s, b]"
    by (simp add: bs demo_fill_def grid_fill_def on_grid_def)
  have "spec_net [] (sort_key fill_ts [s, b]) 0 = (1/5) / 10 ^ 6"
    by (simp add: bs demo_fill_def sort_key_def spec_fill_def upper_def upper_char_def n_units_def
      beijing_day_def share_unit_def numeral_3_eq_3 numeral_2_eq_2)
  with realized_pnl_unitwise [OF g, of 0] g show ?thesis unfolding Let_def bs by simp
qed

text \<open>The weekly window of a day is keyed by the Monday of its week and spans exactly the
seven days that end yesterday.\<close>

theorem weekly_window_spec:
  "let (monday, start, last_d) = weekly_window d in
     weekday monday = 0 \<and> monday \<le> d \<and> d < monday + 7 \<and> last_d = d - 1 \<and>
     length (date_range start last_d) = 7 \<and> weekly_window monday = (monday, monday - 7, monday - 1)"
proof -
  have "(d - (d + 3) mod 7 + 3) mod 7 = 0" by presburger
  then show ?thesis by (simp add: weekly_window_def weekday_def date_range_def Let_def)
qed

lemma aggregate_sum:
  "day_net (foldl (\<lambda>agg asset d. case h asset d of None \<Rightarrow> agg d
       | Some v \<Rightarrow> Some (add_pnl (bucket agg d) v)) m assets) d
     = day_net m d + sum_list (map (\<lambda>a. day_net (h a) d) assets)"
proof (induction assets arbitrary: m)
  case (Cons a as)
  have "day_net (\<lambda>d. case h a d of None \<Rightarrow> m d | Some v \<Rightarrow> Some (add_pnl (bucket m d) v)) d
    = day_net m d + day_net (h a) d"
    by (simp add: day_net_def bucket_def add_pnl_def zero_pnl_def split: option.split)
  with Cons show ?case by simp
qed simp

lemma sum_rewards:
  "or0 (rd_reward (case reward_rebate_by_day acts d of Some r \<Rightarrow> r | None \<Rightarrow> no_reward)) =
     sum_list (map (\<lambda>a. or0 (ac_usdc a))
       (filter (\<lambda>a. upper (ac_type a) = ''REWARD'' \<and> beijing_day (ac_ts a) = d + 1) acts)) \<and>
   or0 (rd_rebate (case reward_rebate_by_day acts d of Some r \<Rightarrow> r | None \<Rightarrow> no_reward)) =
     sum_list (map (\<lambda>a. or0 (ac_usdc a))
       (filter (\<lambda>a. upper (ac_type a) = ''MAKER_REBATE'' \<and> beijing_day (ac_ts a) = d) acts))"
proof (induction acts rule: rev_induct)
  case (snoc a acts)
  then show ?case
    by (auto simp: reward_rebate_by_day_def reward_step_def Let_def prev_day_def no_reward_def)
qed (simp add: reward_rebate_by_day_def no_reward_def)

text \<open>A rebuild writes one row per day of the range, in order; the row's reward is what
was paid the day after, its rebate what was paid on the day, its net realised result the
sum over all traded assets of the unit-wise matched profit of that day, and its merge
profit the sum of the merges confirmed that day.\<close>

theorem rebuild_wallet_pnl_rows:
  assumes "\<forall>tr \<in> set trs. on_grid (or0 (tr_size tr)) \<and> (\<forall>mo \<in> set (tr_makers tr). on_grid (or0 (mo_matched mo)))"
  shows "map lr_date (rebuild_wallet_pnl funder acts trs merges w a b) = [a..b] \<and>
    (\<forall>r \<in> set (rebuild_wallet_pnl funder acts trs merges w a b).
       lr_wallet r = w \<and>
       lr_reward r = sum_list (map (\<lambda>x. or0 (ac_usdc x)) (filter (\<lambda>x. upper (ac_type x) = ''REWARD''
           \<and> beijing_day (ac_ts x) = lr_date r + 1) acts)) \<and>
       lr_rebate r = sum_list (map (\<lambda>x. or0 (ac_usdc x)) (filter (\<lambda>x. upper (ac_type x) = ''MAKER_REBATE''
           \<and> beijing_day (ac_ts x) = lr_date r) acts)) \<and>
       lr_profit r - lr_loss r = sum_list (map (\<lambda>asset.
           spec_net [] (sort_key fill_ts (extract_fills trs funder asset)) (lr_date r))
           (our_traded_assets trs funder)) \<and>
       lr_merge r = sum_list (map (\<lambda>(tm, pnl). or0 pnl)
           (filter (\<lambda>(tm, pnl). beijing_day (Some (or0 tm)) = lr_date r) merges)))"
proof -
  have grid: "list_all grid_fill (extract_fills trs funder asset)" for asset
    using assms by (auto simp: list_all_iff extract_fills_def trade_fills_def grid_fill_def
      maker_fill_def taker_fill_def)
  have "day_net (aggregate trs funder) d = sum_list (map (\<lambda>asset.
      spec_net [] (sort_key fill_ts (extract_fills trs funder asset)) d) (our_traded_assets trs funder))" for d
    unfolding aggregate_def aggregate_sum
    by (simp add: realized_pnl_unitwise_aux [OF grid]) (simp add: day_net_def bucket_def zero_pnl_def)
  moreover have "or0 (merge_pnl_by_day merges (\<lambda>ts. beijing_day (Some ts)) d) = sum_list (map (\<lambda>(tm, pnl). or0 pnl)
      (filter (\<lambda>(tm, pnl). beijing_day (Some (or0 tm)) = d) merges))" for d
    by (simp add: merge_pnl_by_day_aux Let_def)
  ultimately show ?thesis
    by (auto simp: rebuild_wallet_pnl_def Let_def date_range_def sum_rewards day_net_def comp_def)
qed


lemma rebuild_wallet_pnl_witness:
  "let tr = \<lparr>tr_id = ''t'', tr_market = ''m'', tr_time = Some 5, tr_makers = [], tr_trader_side = ''TAKER'',
      tr_asset = ''a'', tr_side = ''BUY'', tr_price = Some (1/2), tr_size = Some 3, tr_fee = None\<rparr>;
       rows = rebuild_wallet_pnl ''0xA'' [\<lparr>ac_type = ''REWARD'', ac_usdc = Some 4, ac_ts = Some 500000\<rparr>] [tr]
         [(Some 400000, Some 2)] ''w'' 4 5
   in map lr_date rows = [4, 5] \<and> lr_merge (rows ! 0) = 2 \<and> lr_reward (rows ! 1) = 4"
proof -
  define tr where "tr = \<lparr>tr_id = ''t'', tr_market = ''m'', tr_time = Some (5::rat), tr_makers = [],
      tr_trader_side = ''TAKER'', tr_asset = ''a'', tr_side = ''BUY'', tr_price = Some (1/2), tr_size = Some 3,
      tr_fee = None\<rparr>"
  have g: "\<forall>t \<in> set [tr]. on_grid (or0 (tr_size t)) \<and> (\<forall>mo \<in> set (tr_makers t). on_grid (or0 (mo_matched mo)))"
    by (simp add: tr_def on_grid_def)
  have up: "[4..5] = [4, 5 :: int]" by (simp add: upto.simps)
  have day: "beijing_day (Some 500000) = 6" "beijing_day (Some 400000) = 4"
    by (simp_all add: beijing_day_def)
  define rows where "rows = rebuild_wallet_pnl ''0xA''
    [\<lparr>ac_type = ''REWARD'', ac_usdc = Some 4, ac_ts = Some 500000\<rparr>] [tr] [(Some 400000, Some 2)] ''w'' 4 5"
  note spec = rebuild_wallet_pnl_rows [OF g, where funder = "''0xA''" and w = "''w''" and a = 4 and b = 5
      and acts = "[\<lparr>ac_type = ''REWARD'', ac_usdc = Some 4, ac_ts = Some 500000\<rparr>]"
      and merges = "[(Some 400000, Some 2)]", folded rows_def, unfolded up]
  then have len: "length rows = 2" by (metis length_map length_Cons list.size(3) numeral_2_eq_2 One_nat_def)
  then have dates: "lr_date (rows ! 0) = 4" "lr_date (rows ! 1) = 5"
    using spec nth_map [of 0 rows lr_date] nth_map [of 1 rows lr_date] by simp_all
  have "lr_merge (rows ! 0) = 2" "lr_reward (rows ! 1) = 4"
    using spec [THEN conjunct2, THEN bspec, of "rows ! 0"] spec [THEN conjunct2, THEN bspec, of "rows ! 1"]
      len dates day by (simp_all add: upper_def upper_char_def)
  with spec show ?thesis unfolding Let_def tr_def [symmetric] rows_def [symmetric] by simp
qed

end
