(* ===== verification/App.thy ===== *)
theory App
  imports Pages Displays Wallet_Import Rounds Pnl
begin

text \<open>
  The start and the end of the process (\<open>app.py\<close>, the data directory of \<open>config.py\<close>) and the pages of \<open>web/routes.py\<close> that only hand
  on to the manager, the tables or the snapshots.
\<close>

section \<open>The process\<close>

text \<open>The variable \<open>manager\<close> of \<open>app.py\<close> (whether it is bound to a manager), the globals of \<open>web/routes.py\<close>, and whether the
  connections to the database are open.\<close>

record process =
  pr_bound :: bool
  pr_site :: site
  pr_open :: bool

text \<open>After \<open>db.init\<close> and \<open>init_app\<close>: no manager anywhere, no key.\<close>

definition booted :: "manager \<Rightarrow> process" where
  "booted fresh = \<lparr>pr_bound = False, pr_site = \<lparr>si_manager = fresh, si_ready = False, si_key = False, si_cache = Map.empty\<rparr>, pr_open = True\<rparr>"

text \<open>What the pages do to the process: a successful setup or login makes the manager and hands it to \<open>init_manager\<close> of
  \<open>web/routes.py\<close>, a logout forgets the key, the others act on the manager.\<close>

datatype request = Log_in | Log_out | Act mop

fun serve :: "request \<Rightarrow> process \<Rightarrow> process" where
  "serve Log_in p = p\<lparr>pr_site := (pr_site p)\<lparr>si_ready := True, si_key := True\<rparr>\<rparr>"
| "serve Log_out p = p\<lparr>pr_site := (pr_site p)\<lparr>si_key := False, si_cache := Map.empty\<rparr>\<rparr>"
| "serve (Act x) p = p\<lparr>pr_site := engine_page x (pr_site p)\<rparr>"

text \<open>The handler of SIGINT and SIGTERM.\<close>

definition on_shutdown :: "(string \<Rightarrow> order list option) \<Rightarrow> process \<Rightarrow> process" where
  "on_shutdown orders p =
     (let site = (if pr_bound p then (pr_site p)\<lparr>si_manager := stop_all orders (si_manager (pr_site p))\<rparr> else pr_site p)
      in p\<lparr>pr_site := site, pr_open := False\<rparr>)"

section \<open>The start\<close>

definition host :: string where
  "host = ''127.0.0.1''"

definition port :: nat where
  "port = 8765"

datatype server = Waitress nat | Flask

record launch =
  la_port :: nat
  la_server :: server
  la_browser :: "string option"

text \<open>\<open>main\<close>: the port, the server, and the address the browser opens, none in server mode. \<open>str n\<close> is the number in decimal. None:
  no port can be bound.\<close>

definition main :: "(nat \<Rightarrow> string) \<Rightarrow> (nat \<Rightarrow> nat option) \<Rightarrow> bool \<Rightarrow> bool \<Rightarrow> launch option" where
  "main str binding server password_set =
     (case resolve_port binding port server of
        None \<Rightarrow> None
      | Some p \<Rightarrow> Some \<lparr>la_port = p, la_server = (if server then Waitress 8 else Flask),
          la_browser = (if server then None else Some (''http://'' @ host @ '':'' @ str p @ (if password_set then [] else ''/setup'')))\<rparr>)"

text \<open>\<open>_data_dir\<close>; \<open>home p\<close> is \<open>expanduser\<close>, \<open>local\<close> the variable \<open>LOCALAPPDATA\<close>, \<open>join\<close> the joining of paths.\<close>

definition data_dir :: "bool \<Rightarrow> bool \<Rightarrow> string option \<Rightarrow> (string \<Rightarrow> string) \<Rightarrow> (string \<Rightarrow> string \<Rightarrow> string) \<Rightarrow> string \<Rightarrow> string" where
  "data_dir frozen darwin local home join project =
     (if frozen
      then join (if darwin then home ''~/Library/Application Support''
                 else case local of Some d \<Rightarrow> if d = [] then home ''~'' else d | None \<Rightarrow> home ''~'') ''PolymarketMarketMaker''
      else project)"

section \<open>Pages that hand on\<close>

text \<open>\<open>_enrich_rows\<close>: the names of the markets, asked from Gamma where they are not known. At most 50 are asked for at once.\<close>

definition enrich_rows :: "(string list \<Rightarrow> (string \<rightharpoonup> meta) option) \<Rightarrow> named_row list \<Rightarrow> metas \<Rightarrow> named_row list \<times> metas" where
  "enrich_rows fetch rs ms = (let ms' = snd (ensure_market_meta fetch 50 (map nr_id rs) ms) in (enrich_with_market_meta ms' rs, ms'))"

definition api_monitor_status :: "(string list \<Rightarrow> (string \<rightharpoonup> meta) option) \<Rightarrow> named_row snapshots \<Rightarrow> metas \<Rightarrow> (rat \<times> named_row list) \<times> metas" where
  "api_monitor_status fetch snaps ms =
     (let (updated, rs) = get_snapshot snaps; (named, ms') = enrich_rows fetch rs ms in ((updated, named), ms'))"

definition api_categories :: "bool \<Rightarrow> bool \<Rightarrow> rat \<Rightarrow> 'c option \<Rightarrow> 'c catalogs \<Rightarrow> 'c catalog_answer option \<times> 'c catalogs" where
  "api_categories ready refresh now counted s =
     (if \<not> ready then (None, s) else let (answer, s') = category_catalog refresh now counted s in (Some answer, s'))"

definition api_get_template :: "nat \<Rightarrow> db \<Rightarrow> string \<rightharpoonup> json" where
  "api_get_template i d = get_template i d"

definition api_add_wallet :: "services \<Rightarrow> string \<Rightarrow> string \<Rightarrow> string \<Rightarrow> string \<Rightarrow> db \<times> api_cache \<Rightarrow> (import_error + imported) \<times> db \<times> api_cache" where
  "api_add_wallet sv key funder proxy remark st = import_wallet sv key funder proxy remark st"

definition api_import_status :: "import_job \<Rightarrow> bool \<times> nat \<times> nat \<times> report list" where
  "api_import_status j = (jb_running j, jb_total j, jb_done j, jb_results j)"

definition api_debug_balance_sigs :: "services \<Rightarrow> site \<Rightarrow> (string \<times> string \<times> string \<times> (int \<times> json) list) list" where
  "api_debug_balance_sigs sv s =
     map (\<lambda>(a, api). (a, ap_address api, ap_funder api,
       fst (balance_by_sig_types (sv_str sv) (sv_ask sv (ap_proxy api) (ap_key api)) (ap_sig api)))) (wallet_apis sv None s)"

definition api_place_orders :: "bool \<Rightarrow> clock \<Rightarrow> Scanner.market list \<Rightarrow> Rounds.wallet list \<Rightarrow> (string \<times> flow \<times> round_state) list" where
  "api_place_orders ready ck pool ws = (if ready then place_all_orders ck pool ws else [])"

definition api_test_place_orders :: "bool \<Rightarrow> clock \<Rightarrow> Scanner.market list \<Rightarrow> Rounds.wallet list \<Rightarrow> bool \<Rightarrow> test_result option" where
  "api_test_place_orders ready ck pool ws api = (if ready then Some (test_place_orders ck pool ws api) else None)"

definition api_get_history :: "string option \<Rightarrow> rat option \<Rightarrow> rat option \<Rightarrow> trade_row list \<Rightarrow> trade_row list" where
  "api_get_history wallet a b trades = get_trade_history wallet a b trades"

definition api_get_blacklist :: "(string list \<Rightarrow> (string \<rightharpoonup> meta) option) \<Rightarrow> blacklist \<Rightarrow> metas \<Rightarrow> (named_row \<times> string \<times> rat) list \<times> metas" where
  "api_get_blacklist fetch bl ms =
     (let bl = get_blacklist bl; (named, ms') = enrich_rows fetch (map (\<lambda>(c, n, t). \<lparr>nr_id = c, nr_name = [], nr_url = []\<rparr>) bl) ms
      in (zip named (map snd bl), ms'))"

definition api_remove_blacklist :: "string \<Rightarrow> blacklist \<Rightarrow> blacklist" where
  "api_remove_blacklist cid bl = remove_from_blacklist cid bl"

text \<open>\<open>api_pnl\<close>: the days asked for (None: missing or unreadable) up to today; None without a wallet.\<close>

definition pnl_page :: "string \<Rightarrow> int option \<Rightarrow> rat \<Rightarrow> ledger \<Rightarrow> ((int \<times> pnl_row) list \<times> pnl_row \<times> rat list) option" where
  "pnl_page wallet days now l =
     (let w = strip wallet; n = (case days of None \<Rightarrow> 90 | Some n \<Rightarrow> n) in
      if w = [] then None else Some (api_pnl w (beijing_day (Some (now - of_int n * 86400))) (beijing_day (Some now)) l))"

definition api_relayer_status :: "string option \<Rightarrow> string option \<Rightarrow> string option \<Rightarrow> bool" where
  "api_relayer_status key secret passphrase = list_all (\<lambda>v. v \<noteq> None \<and> v \<noteq> Some []) [key, secret, passphrase]"

section \<open>The end of the process\<close>

lemma serve_bound: "pr_bound (fold serve rs p) = pr_bound p"
proof (induction rs arbitrary: p)
  case (Cons r rs)
  then show ?case by (cases r) simp_all
qed simp

definition running_day :: "request list" where
  "running_day = [Log_in, Act (Op_start_wallet demo_services ''0xeoa'')]"

definition resting_day :: "string \<Rightarrow> order list option" where
  "resting_day a = Some [resting_order ''1'' ''m'' ''BUY'']"

lemma day_engines:
  "\<exists>w. mg_engines (si_manager (pr_site (fold serve running_day (booted (demo_manager [demo_wallet_row ''0xeoa'' ''k'']))))) = [(''0xeoa'', w)] \<and>
     wk_running w"
proof -
  let ?m = "demo_manager [demo_wallet_row ''0xeoa'' ''k'']"
  have "find_wallet ''0xeoa'' (mg_db ?m) = Some (demo_wallet_row ''0xeoa'' ''k'')" "mg_engines ?m = []"
    by (simp_all add: find_wallet_def demo_manager_def demo_wallet_row_def)
  moreover have "\<not> running_engine ''0xeoa'' ?m" by (simp add: running_engine_def engine_def demo_manager_def)
  ultimately show ?thesis
    by (simp add: running_day_def booted_def engine_page_def start_wallet_def demo_open Let_def)
qed

text \<open>C7: The end of the process does not stop the engine. After whatever was done on the pages since the start, the handler of the
  signals closes the database and changes nothing else: no worker is stopped and no buy is withdrawn, since
  the variable it looks at is never bound. There are uses of the pages after which workers run at that moment; had
  the variable been bound, the handler would have stopped them and withdrawn the buys of their wallets.\<close>

theorem shutdown_leaves_the_engine:
  "on_shutdown orders (fold serve rs (booted fresh)) = (fold serve rs (booted fresh))\<lparr>pr_open := False\<rparr> \<and>
   (\<exists>fresh day a w ids. let p = fold serve day (booted fresh) in
      (a, w) \<in> set (mg_engines (si_manager (pr_site (on_shutdown resting_day p)))) \<and> wk_running w \<and> ids \<noteq> [] \<and>
      mg_engines (si_manager (pr_site (on_shutdown resting_day (p\<lparr>pr_bound := True\<rparr>)))) = [] \<and>
      Worker_stopped a ids \<in> set (mg_log (si_manager (pr_site (on_shutdown resting_day (p\<lparr>pr_bound := True\<rparr>))))))"
proof (intro conjI)
  have bound: "\<not> pr_bound (fold serve rs (booted fresh))" for rs fresh
    unfolding serve_bound by (simp add: booted_def)
  then show "on_shutdown orders (fold serve rs (booted fresh)) = (fold serve rs (booted fresh))\<lparr>pr_open := False\<rparr>"
    by (simp add: on_shutdown_def)
  let ?p = "fold serve running_day (booted (demo_manager [demo_wallet_row ''0xeoa'' ''k'']))"
  obtain w where w: "mg_engines (si_manager (pr_site ?p)) = [(''0xeoa'', w)]" "wk_running w"
    using day_engines by blast
  have ids: "cancel_buy_orders (resting_day ''0xeoa'') = [''1'']"
    by (simp add: resting_day_def cancel_buy_orders_def resting_order_def is_buy_def)
  have d: "distinct (map fst (mg_engines (si_manager (pr_site ?p))))" by (simp add: w)
  have stopped: "mg_engines (stop_all resting_day (si_manager (pr_site ?p))) = []"
    "mg_log (stop_all resting_day (si_manager (pr_site ?p))) =
       mg_log (si_manager (pr_site ?p)) @ [Scanner_stopped, Worker_stopped ''0xeoa'' [''1'']]"
    using stop_all_withdraws [OF d, of resting_day] w(1) ids by simp_all
  show "\<exists>fresh day a w ids. let p = fold serve day (booted fresh) in
      (a, w) \<in> set (mg_engines (si_manager (pr_site (on_shutdown resting_day p)))) \<and> wk_running w \<and> ids \<noteq> [] \<and>
      mg_engines (si_manager (pr_site (on_shutdown resting_day (p\<lparr>pr_bound := True\<rparr>)))) = [] \<and>
      Worker_stopped a ids \<in> set (mg_log (si_manager (pr_site (on_shutdown resting_day (p\<lparr>pr_bound := True\<rparr>)))))"
    by (intro exI [of _ "demo_manager [demo_wallet_row ''0xeoa'' ''k'']"] exI [of _ running_day] exI [of _ "''0xeoa''"] exI [of _ w] exI [of _ "[''1'']"])
      (simp add: Let_def on_shutdown_def bound w stopped)
qed

end
