(* ===== verification/Relayer.thy ===== *)
theory Relayer
  imports Client Exit_Lifecycle
begin

text \<open>
  Requests that may be cut off. The library of the exchange goes through \<open>httpx\<close>, everything else through
  \<open>requests\<close> (\<open>api/proxy.py\<close>), and the two report a connection that breaks after the request was sent
  differently; \<open>http_post\<close> documents how. Here: which requests can arrive twice, the relayer's part of the client
  (\<open>api/polymarket_api.py\<close>), what the quick exit router does when the answer to a submission is lost, and
  when it ends a submitted merge.
\<close>

section \<open>Connections that break\<close>

text \<open>What one try of a request came to: an answer, no connection, a connection cut after the request was sent, no
  answer in time.\<close>

datatype 'a fate = Answered 'a | Unreached | Cut | Unheard

text \<open>\<open>_CONNECT_ERRORS\<close> for either library: a cut connection is a \<open>ConnectionError\<close> of \<open>requests\<close>, but not a \<open>ConnectError\<close>
  of \<open>httpx\<close>.\<close>

fun seen_by_requests :: "'a fate \<Rightarrow> 'a attempt" where
  "seen_by_requests (Answered x) = Reply x"
| "seen_by_requests Unreached = No_connection"
| "seen_by_requests Cut = No_connection"
| "seen_by_requests Unheard = Failure"

fun seen_by_httpx :: "'a fate \<Rightarrow> 'a attempt" where
  "seen_by_httpx (Answered x) = Reply x"
| "seen_by_httpx Unreached = No_connection"
| "seen_by_httpx Cut = Failure"
| "seen_by_httpx Unheard = Failure"

definition dispatched_request :: "(string option \<Rightarrow> 'q \<Rightarrow> nat \<Rightarrow> 'a fate) \<Rightarrow> 'q \<Rightarrow> ('q, 'a attempt) net" where
  "dispatched_request fate q =
     (\<lambda>p. let (r, calls, pauses) = retry_connect (\<lambda>i. seen_by_httpx (fate p q i)) 3 0 in (r, replicate calls (p, q)))"

section \<open>The relayer\<close>

text \<open>The patch of the relayer library: whether it was tried and whether it took.\<close>

record patch =
  pt_tried :: bool
  pt_routed :: bool

definition install_relayer_proxy :: "bool \<Rightarrow> patch \<Rightarrow> patch" where
  "install_relayer_proxy importable p = (if pt_tried p then p else \<lparr>pt_tried = True, pt_routed = importable\<rparr>)"

definition relayer_request :: "(string option \<Rightarrow> 'q \<Rightarrow> nat \<Rightarrow> 'a fate) \<Rightarrow> 'q \<Rightarrow> ('q, 'a attempt) net" where
  "relayer_request fate q =
     (\<lambda>p. let (r, calls, pauses) = retry_connect (\<lambda>i. seen_by_requests (fate p q i)) 2 0 in (r, replicate calls (p, q)))"

text \<open>The environment variables of the relayer.\<close>

record relayer_env =
  re_url :: "string option"
  re_key :: "string option"
  re_secret :: "string option"
  re_passphrase :: "string option"

definition set_var :: "string option \<Rightarrow> string option" where
  "set_var v = (case v of None \<Rightarrow> None | Some x \<Rightarrow> if x = [] then None else Some x)"

text \<open>\<open>_relayer_client\<close>: the end point and the credentials, None is \<open>RelayerNotConfigured\<close>.\<close>

definition relayer_client :: "relayer_env \<Rightarrow> (string \<times> string \<times> string \<times> string) option" where
  "relayer_client e =
     (case (set_var (re_key e), set_var (re_secret e), set_var (re_passphrase e)) of
        (Some k, Some s, Some p) \<Rightarrow>
          Some (case set_var (re_url e) of None \<Rightarrow> ''https://relayer-v2.polymarket.com'' | Some u \<Rightarrow> u, k, s, p)
      | _ \<Rightarrow> None)"

text \<open>\<open>_relayer_credentials_ok\<close> of the router and \<open>api_relayer_status\<close> of the pages.\<close>

definition relayer_credentials_ok :: "relayer_env \<Rightarrow> bool" where
  "relayer_credentials_ok e \<longleftrightarrow> \<not> (set_var (re_key e) = None \<or> set_var (re_secret e) = None \<or> set_var (re_passphrase e) = None)"

text \<open>\<open>rows\<close> is what the relayer answers, None an exception.\<close>

definition get_merge_transaction_state :: "relayer_env \<Rightarrow> json option \<Rightarrow> json list option" where
  "get_merge_transaction_state e rows =
     (case (relayer_client e, rows) of
        (Some c, Some (J_list xs)) \<Rightarrow> Some xs
      | (Some c, Some _) \<Rightarrow> Some []
      | _ \<Rightarrow> None)"

section \<open>Reads of the chain and single prices\<close>

text \<open>\<open>_rpc_eth_call\<close>: the body of a good response, None when it is not JSON; the result None is an exception.\<close>

definition rpc_result :: "json option attempt \<Rightarrow> json option" where
  "rpc_result r =
     (case r of
        Reply (Some (J_obj kvs)) \<Rightarrow> if truthy (field kvs ''error'') then None else Some (case map_of kvs ''result'' of None \<Rightarrow> J_str [] | Some v \<Rightarrow> v)
      | _ \<Rightarrow> None)"

definition rpc_eth_call :: "(string option \<Rightarrow> string \<times> string \<Rightarrow> nat \<Rightarrow> json option attempt) \<Rightarrow> string \<Rightarrow> string \<Rightarrow> (string \<times> string, json option) net" where
  "rpc_eth_call answer to data = chain (http_request answer (to, data)) (\<lambda>r. Proxy.ret (rpc_result r))"

text \<open>Only a string of hexadecimal digits can be an approval; None is an exception.\<close>

definition is_merge_adapter_approved ::
    "(abi_args \<Rightarrow> string) \<Rightarrow> (string option \<Rightarrow> string \<times> string \<Rightarrow> nat \<Rightarrow> json option attempt) \<Rightarrow> string \<Rightarrow> bool \<Rightarrow> (string \<times> string, bool option) net" where
  "is_merge_adapter_approved abi answer funder neg_risk =
     chain (rpc_eth_call answer ctf_address (is_approved_for_all_calldata abi funder neg_risk))
       (\<lambda>r. Proxy.ret (map_option (\<lambda>v. case v of J_str s \<Rightarrow> parse_is_approved_result s | _ \<Rightarrow> False) r))"

text \<open>A response: its status code and its body, None when it is not JSON.\<close>

type_synonym response = "int \<times> json option"

definition json_of_good :: "response attempt \<Rightarrow> json option" where
  "json_of_good r = (case r of Reply (st, b) \<Rightarrow> if 400 \<le> st \<and> st < 600 then None else b | _ \<Rightarrow> None)"

definition get_spread :: "(string option \<Rightarrow> string \<Rightarrow> nat \<Rightarrow> response attempt) \<Rightarrow> string \<Rightarrow> (string, flt) net" where
  "get_spread answer token =
     chain (http_request answer token) (\<lambda>r. Proxy.ret
       (case json_of_good r of
          None \<Rightarrow> Fin (-1)
        | Some b \<Rightarrow> (case Json.bind (Json.get b ''spread'' (J_str ''0'')) Json.py_float of Inl e \<Rightarrow> Fin (-1) | Inr x \<Rightarrow> x)))"

definition get_last_trade_price :: "json option \<Rightarrow> (pyerr + flt) option" where
  "get_last_trade_price ans = map_option (\<lambda>b. Json.bind (Json.get b ''price'' (J_int 0)) Json.py_float) ans"

definition get_market_by_id :: "(string option \<Rightarrow> string \<Rightarrow> nat \<Rightarrow> response attempt) \<Rightarrow> string \<Rightarrow> (string, json) net" where
  "get_market_by_id answer i =
     chain (http_request answer i) (\<lambda>r. Proxy.ret (case json_of_good r of None \<Rightarrow> J_obj [] | Some b \<Rightarrow> b))"

definition list_markets :: "(string option \<Rightarrow> 'f \<Rightarrow> nat \<Rightarrow> response attempt) \<Rightarrow> 'f \<Rightarrow> ('f, json) net" where
  "list_markets answer filters =
     chain (http_request answer filters) (\<lambda>r. Proxy.ret (case json_of_good r of None \<Rightarrow> J_list [] | Some b \<Rightarrow> b))"

section \<open>Arriving twice\<close>

fun reached :: "'a fate \<Rightarrow> bool" where
  "reached Unreached = False"
| "reached _ = True"

definition arrivals :: "(nat \<Rightarrow> 'a fate) \<Rightarrow> nat \<Rightarrow> nat" where
  "arrivals f n = length (filter (\<lambda>i. reached (f i)) [0..<n])"

lemma httpx_retry: "seen_by_httpx x = No_connection \<longleftrightarrow> x = Unreached"
  by (cases x) auto

lemma arrivals_upto: "\<forall>i < n. f i = Unreached \<Longrightarrow> arrivals f n = 0"
  by (auto simp: arrivals_def filter_empty_conv)

lemma arrivals_Suc: "arrivals f (Suc n) = arrivals f n + (if reached (f n) then 1 else 0)"
  by (simp add: arrivals_def)

lemma arrivals_0: "arrivals f 0 = 0"
  by (simp add: arrivals_def)

lemma relayer_run:
  "relayer_request fate q p =
     (if seen_by_requests (fate p q 0) = No_connection then (seen_by_requests (fate p q 1), replicate (Suc (Suc 0)) (p, q))
      else (seen_by_requests (fate p q 0), replicate (Suc 0) (p, q)))"
  by (auto simp: relayer_request_def numeral_2_eq_2 split: attempt.split)

lemma dispatched_once:
  obtains n where "snd (dispatched_request fate q p) = replicate n (p, q)" and "arrivals (fate p q) n \<le> 1"
    and "\<And>x. fst (dispatched_request fate q p) = Reply x \<Longrightarrow> arrivals (fate p q) n = 1"
proof -
  let ?fn = "\<lambda>i. seen_by_httpx (fate p q i)"
  obtain r n k where run: "retry_connect ?fn 3 0 = (r, n, k)" by (metis prod_cases3)
  have "(0::nat) < 3" by simp
  note spec = retry_connect_spec [where fn = ?fn, OF run this]
  from spec have "0 < n" by (rule conjunct1)
  then obtain m where m: "n = Suc m" by (cases n) simp_all
  from spec have "r = seen_by_httpx (fate p q (0 + n - 1))" and before: "\<forall>j < n - 1. ?fn (0 + j) = No_connection" by blast+
  then have r: "r = seen_by_httpx (fate p q m)" by (simp add: m)
  have "fate p q i = Unreached" if "i < m" for i
  proof -
    have "i < n - 1" using that by (simp add: m)
    with before have "?fn (0 + i) = No_connection" by blast
    then show ?thesis unfolding httpx_retry by simp
  qed
  then have none: "arrivals (fate p q) m = 0" by (intro arrivals_upto) blast
  have "reached (fate p q m)" if "r = Reply x" for x
    using that r by (cases "fate p q m") simp_all
  then have one: "arrivals (fate p q) n = 1" if "r = Reply x" for x
    using that unfolding m arrivals_Suc none by simp
  have run': "dispatched_request fate q p = (r, replicate n (p, q))"
    by (simp add: dispatched_request_def run)
  show ?thesis
  proof (rule that [of n])
    show "snd (dispatched_request fate q p) = replicate n (p, q)" by (simp add: run')
    show "arrivals (fate p q) n \<le> 1" unfolding m arrivals_Suc none by simp
    show "arrivals (fate p q) n = 1" if "fst (dispatched_request fate q p) = Reply x" for x
      using that one by (simp add: run')
  qed
qed

lemma relayer_twice:
  obtains n where "snd (relayer_request fate q p) = replicate n (p, q)" and "arrivals (fate p q) n \<le> 2"
    and "arrivals (fate p q) n = 2 \<longleftrightarrow> fate p q 0 = Cut \<and> reached (fate p q 1)"
    and "fate p q 0 = Cut \<Longrightarrow> fst (relayer_request fate q p) = seen_by_requests (fate p q 1)"
proof (cases "seen_by_requests (fate p q 0) = No_connection")
  case True
  then have "fate p q 0 = Unreached \<or> fate p q 0 = Cut"
    by (cases "fate p q 0") auto
  with True show ?thesis
    by (intro that [of "Suc (Suc 0)"]) (auto simp: relayer_run arrivals_Suc arrivals_0)
next
  case False
  then have "fate p q 0 \<noteq> Cut" by auto
  with False show ?thesis
    by (intro that [of "Suc 0"]) (auto simp: relayer_run arrivals_Suc arrivals_0)
qed

text \<open>C9: An order arrives at most once, a merge may arrive twice. Every request leaves through the current proxy. Through the
  dispatcher of the exchange library at most one try arrives, and exactly one when there is an answer. Through
  the patched relayer library both tries arrive exactly when the first was cut off after sending and the second
  is not without connection; the caller only sees what the second came to.\<close>

theorem merge_may_arrive_twice:
  "(\<exists>n. snd (dispatched_request fate q p) = replicate n (p, q) \<and> arrivals (fate p q) n \<le> 1 \<and>
      (\<forall>x. fst (dispatched_request fate q p) = Reply x \<longrightarrow> arrivals (fate p q) n = 1)) \<and>
   (\<exists>n. snd (relayer_request fate q p) = replicate n (p, q) \<and> arrivals (fate p q) n \<le> 2 \<and>
      (arrivals (fate p q) n = 2 \<longleftrightarrow> fate p q 0 = Cut \<and> reached (fate p q 1)) \<and>
      (fate p q 0 = Cut \<longrightarrow> fst (relayer_request fate q p) = seen_by_requests (fate p q 1)))"
proof
  show "\<exists>n. snd (dispatched_request fate q p) = replicate n (p, q) \<and> arrivals (fate p q) n \<le> 1 \<and>
      (\<forall>x. fst (dispatched_request fate q p) = Reply x \<longrightarrow> arrivals (fate p q) n = 1)"
    by (rule dispatched_once [of fate q p]) blast
  show "\<exists>n. snd (relayer_request fate q p) = replicate n (p, q) \<and> arrivals (fate p q) n \<le> 2 \<and>
      (arrivals (fate p q) n = 2 \<longleftrightarrow> fate p q 0 = Cut \<and> reached (fate p q 1)) \<and>
      (fate p q 0 = Cut \<longrightarrow> fst (relayer_request fate q p) = seen_by_requests (fate p q 1))"
    by (rule relayer_twice [of fate q p]) blast
qed

text \<open>The status page, the router and the client agree on whether the relayer is configured; installing twice is
  installing once.\<close>

lemma relayer_configured: "relayer_credentials_ok e \<longleftrightarrow> relayer_client e \<noteq> None"
  by (auto simp: relayer_credentials_ok_def relayer_client_def split: option.splits)

lemma install_once: "install_relayer_proxy b (install_relayer_proxy a p) = install_relayer_proxy a p"
  by (simp add: install_relayer_proxy_def)

lemma approval_traffic: "x \<in> set (snd (use_proxy u (is_merge_adapter_approved abi answer funder neg) p)) \<Longrightarrow> fst x = u"
  by (rule use_proxy_sends) (auto simp: is_merge_adapter_approved_def rpc_eth_call_def)


section \<open>When the answer to a submission is lost\<close>

fun is_submission :: "effect \<Rightarrow> bool" where
  "is_submission (Merge_tx cid amount neg approval) = True"
| "is_submission _ = False"

definition submissions :: "router \<Rightarrow> nat" where
  "submissions s = length (filter is_submission (r_log s))"

text \<open>The operation \<open>i\<close> of the table, reconciled as a tick does it.\<close>

definition reconcile_row :: "int \<Rightarrow> world \<Rightarrow> router \<Rightarrow> router" where
  "reconcile_row i w s = (case get_merge_event i (r_store s) of None \<Rightarrow> s | Some e \<Rightarrow> snd (reconcile_event w e s))"

text \<open>Submitting ends in an exception, whether or not the relayer got the transactions.\<close>

definition answer_lost :: "world \<Rightarrow> bool" where
  "answer_lost w \<longleftrightarrow> (\<forall>cid amount neg approval. \<exists>err. w_merge w cid amount neg approval = Inl err)"

definition same_pair :: "mevent \<Rightarrow> mevent \<Rightarrow> bool" where
  "same_pair e f \<longleftrightarrow> me_id f = me_id e \<and> me_cid f = me_cid e \<and> me_yes f = me_yes e \<and> me_no f = me_no e \<and> me_amount f = me_amount e \<and>
     me_route f = me_route e \<and> me_order f = me_order e \<and> me_status f = me_status e"

lemma cancel_sells_frame:
  "fst (cancel_sells w a c q s) = Some ()" "r_store (snd (cancel_sells w a c q s)) = r_store s"
  "r_positions (snd (cancel_sells w a c q s)) = r_positions s" "submissions (snd (cancel_sells w a c q s)) = submissions s"
  by (auto simp: cancel_sells_def andthen_def gets_def seq_def emit_def change_def ret_def submissions_def)

lemma store_inv_plain:
  assumes "store_inv st" and "\<And>e. is_active (apply_fields now fs e) \<Longrightarrow> is_active e" and "list_all allowed fs" and "fs \<noteq> []"
  shows "\<exists>n. update_merge_event now i fs st =
     Some (n, st\<lparr>ms_rows := map (\<lambda>e. if me_id e = i then apply_fields now fs e else e) (ms_rows st)\<rparr>)"
proof -
  have "index_ok (map (\<lambda>e. if me_id e = i then apply_fields now fs e else e) (ms_rows st))"
    using assms(1,2) unfolding store_inv_def index_ok_def by (fastforce split: if_splits)
  then show ?thesis using assms(3,4) by (simp add: update_merge_event_def)
qed

lemma submit_lost:
  assumes inv: "store_inv (r_store s)" and e: "get_merge_event i (r_store s) = Some e" and lost: "answer_lost w"
  defines "t \<equiv> snd (submit_merge w i (me_cid e) (me_yes e) (me_no e) (me_amount e) s)"
  shows "store_inv (r_store t)" and "\<exists>f. get_merge_event i (r_store t) = Some f \<and> same_pair e f"
    and "r_positions t = r_positions s" and "submissions t = Suc (submissions s)" and "r_poll t i = Some (w_now w + 120)"
proof -
  obtain s1 where s1: "cancel_sells w (me_yes e) (me_cid e) (me_amount e) s = (Some (), s1)"
    using cancel_sells_frame(1) by (metis prod.collapse)
  obtain s2 where s2: "cancel_sells w (me_no e) (me_cid e) (me_amount e) s1 = (Some (), s2)"
    using cancel_sells_frame(1) by (metis prod.collapse)
  define neg where "neg = (case w_neg_risk w (if me_yes e \<noteq> '''' then me_yes e else me_no e) of Some b \<Rightarrow> b | None \<Rightarrow> False)"
  define ap where "ap = (case w_approved w neg of Some b \<Rightarrow> b | None \<Rightarrow> False)"
  have "\<exists>err. w_merge w (me_cid e) (me_amount e) neg (\<not> ap) = Inl err"
    using lost unfolding answer_lost_def by blast
  then obtain err where err: "w_merge w (me_cid e) (me_amount e) neg (\<not> ap) = Inl err" ..
  let ?fs = "[Set_error (take 300 err), Set_cstatus ''submit-failed'']"
  let ?st = "r_store s\<lparr>ms_rows := map (\<lambda>e. if me_id e = i then apply_fields (w_now w) ?fs e else e) (ms_rows (r_store s))\<rparr>"
  obtain n where upd: "update_merge_event (w_now w) i ?fs (r_store s) = Some (n, ?st)"
    using store_inv_plain [OF inv, of "w_now w" ?fs i] by (auto simp: allowed_def apply_fields_def is_active_def)
  have frame: "r_store s2 = r_store s" "r_positions s2 = r_positions s" "submissions s2 = submissions s"
    using cancel_sells_frame(2-4) [of w "me_yes e" "me_cid e" "me_amount e" s] cancel_sells_frame(2-4) [of w "me_no e" "me_cid e" "me_amount e" s1] s1 s2
    by simp_all
  have t: "t = s2\<lparr>r_store := ?st, r_poll := (r_poll s2)(i := Some (w_now w + 120)),
      r_log := r_log s2 @ [Merge_tx (me_cid e) (me_amount e) neg (\<not> ap), Act ''merge_failed'' (me_cid e) (-1) (me_amount e)]\<rparr>"
    using s1 s2 upd err frame(1) unfolding t_def submit_merge_def neg_def ap_def
    by (simp add: seq_def andthen_def emit_def change_def db_update_def set_poll_def poll_fail_backoff_def Let_def)
  show "r_positions t = r_positions s" "submissions t = Suc (submissions s)" "r_poll t i = Some (w_now w + 120)"
    using frame unfolding t submissions_def by simp_all
  show "store_inv (r_store t)"
    using update_inv [OF upd inv] unfolding t by simp
  have "me_id e = i" using e by (auto simp: get_merge_event_def dest: find_SomeD)
  then show "\<exists>f. get_merge_event i (r_store t) = Some f \<and> same_pair e f"
    using e unfolding t get_merge_event_def by (simp add: find_map_id same_pair_def apply_fields_def)
qed

lemma same_pair_balance: "same_pair e f \<Longrightarrow> r_positions t = r_positions s \<Longrightarrow> pair_balance_ok f t = pair_balance_ok e s"
  by (simp add: same_pair_def pair_balance_ok_def position_size_def)

lemma same_pair_trans: "same_pair e f \<Longrightarrow> same_pair f g \<Longrightarrow> same_pair e g"
  by (simp add: same_pair_def)

text \<open>The one READY branch that looks at the back-off: the FOK purchase has an order id. It submits when the order is filled, whether
  or not the pair is held.\<close>

definition keeps_back_off :: "mevent \<Rightarrow> bool" where
  "keeps_back_off e \<longleftrightarrow> me_route e = FOK_MERGE \<and> me_order e \<noteq> ''''"

definition order_filled :: "world \<Rightarrow> mevent \<Rightarrow> bool" where
  "order_filled w e \<longleftrightarrow> (case w_order w (me_order e) of None \<Rightarrow> False | Some (st, mt) \<Rightarrow> me_amount e - eps \<le> num mt)"

lemma order_filled_same: "same_pair e f \<Longrightarrow> order_filled w f = order_filled w e"
  by (auto simp: order_filled_def same_pair_def split: option.split)

definition submits :: "mevent \<Rightarrow> router \<Rightarrow> world list \<Rightarrow> bool" where
  "submits e s ws \<longleftrightarrow> (if keeps_back_off e then \<forall>w \<in> set ws. order_filled w e else pair_balance_ok e s)"

text \<open>The times at which an operation is submitted, out of the times of the ticks; each failure sets the back-off to 120 seconds.\<close>

fun ask_times :: "bool \<Rightarrow> rat \<Rightarrow> rat list \<Rightarrow> rat list" where
  "ask_times b until [] = []"
| "ask_times b until (t # ts) = (if b \<and> t < until then ask_times b until ts else t # ask_times b (t + 120) ts)"

definition due_of :: "int \<Rightarrow> router \<Rightarrow> rat" where
  "due_of i s = (case r_poll s i of Some t \<Rightarrow> t | None \<Rightarrow> 0)"

lemma ask_times_all: "ask_times False until ts = ts"
  by (induction ts arbitrary: until) simp_all

lemma ask_times_apart: "sorted_wrt (\<lambda>x y. x + 120 \<le> y) (ask_times True until ts) \<and> (\<forall>x \<in> set (ask_times True until ts). until \<le> x)"
proof (induction ts arbitrary: until)
  case (Cons t ts)
  have "until \<le> x" if "\<not> t < until" "t + 120 \<le> x" for x using that by linarith
  with Cons [of until] Cons [of "t + 120"] show ?case by auto
qed simp

lemma reconcile_lost:
  assumes "get_merge_event i (r_store s) = Some e" and "me_status e = READY" and "\<not> keeps_back_off e" and "pair_balance_ok e s"
  shows "reconcile_row i w s = snd (submit_merge w i (me_cid e) (me_yes e) (me_no e) (me_amount e) s)"
proof -
  have "me_id e = i" using assms(1) by (auto simp: get_merge_event_def dest: find_SomeD)
  then show ?thesis
    using assms by (cases "me_route e") (simp_all add: reconcile_row_def reconcile_event_def submit_event_def andthen_gets keeps_back_off_def)
qed

lemma reconcile_gone:
  assumes "get_merge_event i (r_store s) = Some e" and "me_status e = READY" and "\<not> keeps_back_off e" and "\<not> pair_balance_ok e s"
  obtains reason where "reconcile_row i w s = snd (fail_event w i reason s)"
proof -
  have "me_id e = i" using assms(1) by (auto simp: get_merge_event_def dest: find_SomeD)
  with that show ?thesis
    using assms by (cases "me_route e") (auto simp: reconcile_row_def reconcile_event_def andthen_gets keeps_back_off_def)
qed

lemma reconcile_filled:
  assumes inv: "store_inv (r_store s)" and e: "get_merge_event i (r_store s) = Some e" and ready: "me_status e = READY" and ob: "keeps_back_off e"
    and fill: "order_filled w e"
  obtains "w_now w < due_of i s" and "reconcile_row i w s = s"
  | u f where "\<not> w_now w < due_of i s" and "reconcile_row i w s = snd (submit_merge w i (me_cid f) (me_yes f) (me_no f) (me_amount f) u)"
      and "store_inv (r_store u)" and "get_merge_event i (r_store u) = Some f" and "same_pair e f" and "submissions u = submissions s"
proof -
  have i: "me_id e = i" using e by (auto simp: get_merge_event_def dest: find_SomeD)
  have row: "reconcile_row i w s = snd (reconcile_fok_order w e s)" and o: "me_order e \<noteq> ''''"
    using e ready ob by (simp_all add: reconcile_row_def reconcile_event_def keeps_back_off_def)
  have off: "backing_off w i s \<longleftrightarrow> w_now w < due_of i s" by (simp add: backing_off_def due_of_def)
  show ?thesis
  proof (cases "backing_off w i s")
    case True
    with row o i off show ?thesis by (intro that(1)) (simp_all add: reconcile_fok_order_def andthen_gets ret_def)
  next
    case False
    let ?fs = "[Set_cstatus ''matched'']"
    let ?st = "r_store s\<lparr>ms_rows := map (\<lambda>e. if me_id e = i then apply_fields (w_now w) ?fs e else e) (ms_rows (r_store s))\<rparr>"
    let ?u = "s\<lparr>r_poll := (r_poll s)(i := Some (w_now w + poll_interval)), r_store := ?st,
      r_log := r_log s @ [Act ''merge_fok_matched'' (me_cid e) (-1) (me_amount e)]\<rparr>"
    let ?f = "apply_fields (w_now w) ?fs e"
    obtain n where upd: "update_merge_event (w_now w) i ?fs (r_store s) = Some (n, ?st)"
      using store_inv_plain [OF inv, of "w_now w" ?fs i] by (auto simp: allowed_def apply_fields_def is_active_def)
    obtain st mt where ans: "w_order w (me_order e) = Some (st, mt)" "me_amount e - eps \<le> num mt"
      using fill by (auto simp: order_filled_def split: option.splits)
    have same: "same_pair e ?f" by (simp add: same_pair_def apply_fields_def)
    have "reconcile_row i w s = snd (submit_event w e ?u)"
      using row o i False ans upd
      by (simp add: reconcile_fok_order_def Let_def andthen_gets seq_def andthen_def gets_def set_poll_def change_def emit_def db_update_def)
    then have "reconcile_row i w s = snd (submit_merge w i (me_cid ?f) (me_yes ?f) (me_no ?f) (me_amount ?f) ?u)"
      using i same by (simp add: submit_event_def same_pair_def)
    moreover have "store_inv (r_store ?u)" using update_inv [OF upd inv] by simp
    moreover have "get_merge_event i (r_store ?u) = Some ?f"
      using e i unfolding get_merge_event_def by (simp add: find_map_id)
    moreover have "submissions ?u = submissions s" by (simp add: submissions_def)
    ultimately show ?thesis using same False off by (blast intro: that(2))
  qed
qed

text \<open>One tick.\<close>

lemma tick_lost:
  assumes inv: "store_inv (r_store s)" and e: "get_merge_event i (r_store s) = Some e" and ready: "me_status e = READY"
    and sub: "submits e s (w # ws)" and lost: "answer_lost w"
  obtains f where "store_inv (r_store (reconcile_row i w s))" and "get_merge_event i (r_store (reconcile_row i w s)) = Some f"
    and "same_pair e f" and "submits f (reconcile_row i w s) ws" and "keeps_back_off e \<or> r_positions (reconcile_row i w s) = r_positions s"
    and "if keeps_back_off e \<and> w_now w < due_of i s then submissions (reconcile_row i w s) = submissions s \<and> due_of i (reconcile_row i w s) = due_of i s
         else submissions (reconcile_row i w s) = Suc (submissions s) \<and> due_of i (reconcile_row i w s) = w_now w + 120"
proof (cases "keeps_back_off e")
  case True
  then have fill: "order_filled w e" "\<forall>w \<in> set ws. order_filled w e" using sub by (simp_all add: submits_def)
  from inv e ready True fill(1) show ?thesis
  proof (cases rule: reconcile_filled)
    case 1
    with True fill e inv show ?thesis by (intro that [of e]) (simp_all add: submits_def same_pair_def)
  next
    case (2 u f)
    note step = submit_lost [OF 2(3,4) lost, folded 2(2)]
    obtain g where g: "get_merge_event i (r_store (reconcile_row i w s)) = Some g" "same_pair f g" using step(2) by blast
    have eg: "same_pair e g" using 2(5) g(2) by (rule same_pair_trans)
    then have "submits g (reconcile_row i w s) ws"
      using True fill(2) order_filled_same [OF eg] by (simp add: submits_def same_pair_def keeps_back_off_def)
    with eg show ?thesis
      using step g(1) True 2(1,6) by (intro that [of g]) (simp_all add: due_of_def)
  qed
next
  case False
  then have pair: "pair_balance_ok e s" using sub by (simp add: submits_def)
  note step = submit_lost [OF inv e lost, folded reconcile_lost [OF e ready False pair, of w]]
  obtain g where g: "get_merge_event i (r_store (reconcile_row i w s)) = Some g" "same_pair e g" using step(2) by blast
  have "submits g (reconcile_row i w s) ws"
    using False g(2) pair same_pair_balance [OF g(2) step(3)] by (auto simp: submits_def keeps_back_off_def same_pair_def)
  then show ?thesis
    using step g False by (intro that [of g]) (simp_all add: due_of_def)
qed

lemma resubmissions:
  assumes "store_inv (r_store s)" and "get_merge_event i (r_store s) = Some e" and "me_status e = READY" and "submits e s ws"
    and "\<forall>w \<in> set ws. answer_lost w"
  shows "let t = fold (reconcile_row i) ws s in store_inv (r_store t) \<and>
    (\<exists>f. get_merge_event i (r_store t) = Some f \<and> same_pair e f) \<and> (keeps_back_off e \<or> r_positions t = r_positions s) \<and>
    submissions t = submissions s + length (ask_times (keeps_back_off e) (due_of i s) (map w_now ws))"
  using assms
proof (induction ws arbitrary: s e)
  case (Cons w ws)
  obtain f where f: "store_inv (r_store (reconcile_row i w s))" "get_merge_event i (r_store (reconcile_row i w s)) = Some f" "same_pair e f"
    "submits f (reconcile_row i w s) ws" "keeps_back_off e \<or> r_positions (reconcile_row i w s) = r_positions s"
    "if keeps_back_off e \<and> w_now w < due_of i s then submissions (reconcile_row i w s) = submissions s \<and> due_of i (reconcile_row i w s) = due_of i s
     else submissions (reconcile_row i w s) = Suc (submissions s) \<and> due_of i (reconcile_row i w s) = w_now w + 120"
    using tick_lost [OF Cons.prems(1-4)] Cons.prems(5) by auto
  have fe: "me_status f = READY" "keeps_back_off f = keeps_back_off e" using f(3) Cons.prems(3) by (simp_all add: same_pair_def keeps_back_off_def)
  from Cons.IH [OF f(1,2) fe(1) f(4)] Cons.prems(5) f(3,5,6) fe(2) same_pair_trans [OF f(3)] show ?case
    by (auto simp: Let_def split: if_splits)
qed (auto simp: same_pair_def)

text \<open>C2: A submission whose answer is lost is repeated. A READY operation of the PAIR route, or
  of the FOK route without an order id, is submitted once more at every tick at which the positions
  still show the pair, whatever back-off the last failure recorded, and stays READY; once the relayer has
  carried out one of these submissions and the pair is gone, the next tick ends the operation as FAILED,
  without asking the relayer, and books nothing. A READY operation of the FOK route whose order is filled keeps the
  back-off: it is submitted at most once in 120 seconds; but it looks at the order and not at the positions, so
  that it is submitted again also when the pair is gone, and is not ended.\<close>

theorem lost_submission:
  assumes "store_inv (r_store s)" and "get_merge_event i (r_store s) = Some e" and "me_status e = READY" and "submits e s ws"
    and "\<forall>w \<in> set ws. answer_lost w"
  shows "let t = fold (reconcile_row i) ws s; times = ask_times (keeps_back_off e) (due_of i s) (map w_now ws) in
    status_of i t = Some READY \<and> submissions t = submissions s + length times \<and>
    (if keeps_back_off e
     then sorted_wrt (\<lambda>x y. x + 120 \<le> y) times \<and>
       (\<forall>w ps. order_filled w e \<and> answer_lost w \<longrightarrow>
          status_of i (reconcile_row i w (t\<lparr>r_positions := ps\<rparr>)) = Some READY \<and>
          submissions (reconcile_row i w (t\<lparr>r_positions := ps\<rparr>)) = submissions t + (if w_now w < due_of i t then 0 else 1))
     else times = map w_now ws \<and>
       (\<forall>w ps. \<not> pair_balance_ok e (s\<lparr>r_positions := ps\<rparr>) \<longrightarrow>
          status_of i (reconcile_row i w (t\<lparr>r_positions := ps\<rparr>)) = Some FAILED \<and>
          submissions (reconcile_row i w (t\<lparr>r_positions := ps\<rparr>)) = submissions t))"
proof -
  let ?t = "fold (reconcile_row i) ws s" and ?times = "ask_times (keeps_back_off e) (due_of i s) (map w_now ws)"
  obtain f where f: "get_merge_event i (r_store ?t) = Some f" "same_pair e f" and inv: "store_inv (r_store ?t)"
    and count: "submissions ?t = submissions s + length ?times"
    using resubmissions [OF assms] by (auto simp: Let_def)
  have fe: "me_status f = READY" "keeps_back_off f = keeps_back_off e" "order_filled w f = order_filled w e" for w
    using f(2) assms(3) order_filled_same [OF f(2)] by (simp_all add: same_pair_def keeps_back_off_def)
  have ready: "status_of i ?t = Some READY" using f(1) fe(1) by (simp add: status_of_def)
  have again: "status_of i (reconcile_row i w (?t\<lparr>r_positions := ps\<rparr>)) = Some READY \<and>
      submissions (reconcile_row i w (?t\<lparr>r_positions := ps\<rparr>)) = submissions ?t + (if w_now w < due_of i ?t then 0 else 1)"
    if "keeps_back_off e" "order_filled w e" "answer_lost w" for w ps
  proof -
    let ?u = "?t\<lparr>r_positions := ps\<rparr>"
    have u: "store_inv (r_store ?u)" "get_merge_event i (r_store ?u) = Some f" "submissions ?u = submissions ?t" "due_of i ?u = due_of i ?t"
      using inv f(1) by (simp_all add: submissions_def due_of_def)
    have "submits f ?u [w]" using that fe(2,3) by (simp add: submits_def)
    from tick_lost [OF u(1,2) fe(1) this that(3)] obtain g where "get_merge_event i (r_store (reconcile_row i w ?u)) = Some g" "same_pair f g"
      "if keeps_back_off f \<and> w_now w < due_of i ?u then submissions (reconcile_row i w ?u) = submissions ?u \<and> due_of i (reconcile_row i w ?u) = due_of i ?u
       else submissions (reconcile_row i w ?u) = Suc (submissions ?u) \<and> due_of i (reconcile_row i w ?u) = w_now w + 120" by blast
    then show ?thesis using fe(1,2) that(1) u(3,4) by (simp add: status_of_def same_pair_def split: if_splits)
  qed
  have over: "status_of i (reconcile_row i w (?t\<lparr>r_positions := ps\<rparr>)) = Some FAILED \<and>
      submissions (reconcile_row i w (?t\<lparr>r_positions := ps\<rparr>)) = submissions ?t"
    if "\<not> keeps_back_off e" "\<not> pair_balance_ok e (s\<lparr>r_positions := ps\<rparr>)" for w ps
  proof -
    let ?u = "?t\<lparr>r_positions := ps\<rparr>"
    have u: "store_inv (r_store ?u)" "get_merge_event i (r_store ?u) = Some f" "submissions ?u = submissions ?t"
      using inv f(1) by (simp_all add: submissions_def)
    have "\<not> pair_balance_ok f ?u" "\<not> keeps_back_off f"
      using that same_pair_balance [OF f(2), of ?u "s\<lparr>r_positions := ps\<rparr>"] fe(2) by simp_all
    then obtain r where r: "reconcile_row i w ?u = snd (fail_event w i r ?u)"
      using reconcile_gone [OF u(2) fe(1)] by blast
    have "submissions (snd (fail_event w i r ?u)) = submissions ?u"
      by (auto simp: fail_event_def andthen_def gets_def ret_def seq_def db_update_def emit_def change_def set_poll_def submissions_def split: option.split prod.split)
    with r u fail_event_status [OF u(1,2), of w r] show ?thesis by simp
  qed
  from ready count again over ask_times_apart [of "due_of i s" "map w_now ws"] show ?thesis
    by (simp add: Let_def ask_times_all)
qed

section \<open>A submitted merge comes to its end\<close>

text \<open>The operation at a tick: the positions were read, then it is polled. What the relayer says of its transaction.\<close>

definition poll_tick :: "int \<Rightarrow> world \<times> position list \<Rightarrow> router \<Rightarrow> router" where
  "poll_tick i = (\<lambda>(w, ps) s. reconcile_row i w (s\<lparr>r_positions := ps\<rparr>))"

definition tx_says :: "(string \<Rightarrow> bool) \<Rightarrow> world \<Rightarrow> mevent \<Rightarrow> bool" where
  "tx_says P w e \<longleftrightarrow> (case w_tx_state w (me_tx e) of None \<Rightarrow> False | Some state \<Rightarrow> P state)"

definition tx_overdue :: "world \<Rightarrow> mevent \<Rightarrow> bool" where
  "tx_overdue w e \<longleftrightarrow> w_tx_state w (me_tx e) \<noteq> None \<and> tmpl_num (tm_confirm_timeout (w_tmpl w)) 120 < w_now w - me_updated e"

text \<open>How the operation ends, by the tick that ends it.\<close>

definition ends_as :: "mevent \<Rightarrow> router \<Rightarrow> world \<times> position list \<Rightarrow> status \<Rightarrow> bool" where
  "ends_as e s = (\<lambda>(w, ps) st.
     (st = CONFIRMED \<and> (tx_says tx_done w e \<or> \<not> pair_balance_ok e (s\<lparr>r_positions := ps\<rparr>) \<and> (tx_says tx_failed w e \<or> tx_overdue w e)) \<or>
      st = FAILED \<and> tx_says tx_failed w e \<and> pair_balance_ok e (s\<lparr>r_positions := ps\<rparr>)))"

lemma reconcile_submitted:
  "get_merge_event i (r_store s) = Some e \<Longrightarrow> me_status e = SUBMITTED \<Longrightarrow> reconcile_row i w s = snd (poll_merge w e s)"
  by (simp add: reconcile_row_def reconcile_event_def)

lemma ended_stays:
  "status_of i s = Some CONFIRMED \<or> status_of i s = Some FAILED \<Longrightarrow> status_of i (fold (poll_tick i) ws s) = status_of i s"
proof (induction ws arbitrary: s)
  case (Cons x ws)
  obtain w ps where x: "x = (w, ps)" by fastforce
  have "status_of i (poll_tick i x s) = status_of i s"
    using Cons.prems by (auto simp: x poll_tick_def reconcile_row_def reconcile_event_def status_of_def ret_def split: option.split)
  with Cons show ?case by simp
qed simp

text \<open>A tick leaves the operation as it is, until the back-off has passed and without lengthening it by more than 300
  seconds, or ends it; it does end it when the back-off has passed and the relayer knows the outcome.\<close>

lemma poll_tick_cases:
  assumes inv: "store_inv (r_store s)" and e: "get_merge_event i (r_store s) = Some e" and sub: "me_status e = SUBMITTED" "me_tx e \<noteq> ''''"
  obtains st where "status_of i (poll_tick i (w, ps) s) = Some st" and "ends_as e s (w, ps) st"
  | "r_store (poll_tick i (w, ps) s) = r_store s"
    and "if w_now w < due_of i s then due_of i (poll_tick i (w, ps) s) = due_of i s
         else \<not> tx_says tx_done w e \<and> \<not> tx_says tx_failed w e \<and> due_of i (poll_tick i (w, ps) s) \<le> w_now w + 300"
proof -
  let ?s = "s\<lparr>r_positions := ps\<rparr>"
  have i: "me_id e = i" using e by (auto simp: get_merge_event_def dest: find_SomeD)
  have s: "store_inv (r_store ?s)" "get_merge_event i (r_store ?s) = Some e" "due_of i ?s = due_of i s"
    using inv e by (simp_all add: due_of_def)
  have row: "poll_tick i (w, ps) s = snd (poll_merge w e ?s)"
    using reconcile_submitted [OF s(2) sub(1)] by (simp add: poll_tick_def)
  have off: "backing_off w i ?s \<longleftrightarrow> w_now w < due_of i s" by (simp add: backing_off_def due_of_def)
  note ends = fail_event_status [OF s(1,2), of w] finalize_status [OF s(1,2), of w]
  show ?thesis
  proof (cases "w_now w < due_of i s")
    case True
    with row i off s(3) show ?thesis by (intro that(2)) (simp_all add: poll_merge_def andthen_gets ret_def Let_def)
  next
    case late: False
    show ?thesis
    proof (cases "w_tx_state w (me_tx e)")
      case None
      with row i off late sub(2) show ?thesis
        by (intro that(2)) (simp_all add: poll_merge_def Let_def andthen_gets set_poll_def change_def due_of_def tx_says_def poll_fail_backoff_def)
    next
      case (Some state)
      have run: "poll_tick i (w, ps) s = snd (
          if tx_done state then finalize_confirmed w i ?s
          else if tx_failed state then if pair_balance_ok e ?s then fail_event w i ''relayer transaction failed'' ?s else finalize_confirmed w i ?s
          else if tmpl_num (tm_confirm_timeout (w_tmpl w)) 120 < w_now w - me_updated e then
            if \<not> pair_balance_ok e ?s then finalize_confirmed w i ?s else set_poll i (Some (w_now w + poll_stall_backoff)) ?s
          else set_poll i (Some (w_now w + poll_interval)) ?s)"
        using row i off late sub(2) Some by (simp add: poll_merge_def andthen_gets Let_def)
      have says: "tx_says P w e = P state" "tx_overdue w e \<longleftrightarrow> tmpl_num (tm_confirm_timeout (w_tmpl w)) 120 < w_now w - me_updated e" for P
        using Some by (simp_all add: tx_says_def tx_overdue_def)
      show ?thesis
      proof (cases "tx_done state \<or> tx_failed state \<or> (tmpl_num (tm_confirm_timeout (w_tmpl w)) 120 < w_now w - me_updated e \<and> \<not> pair_balance_ok e ?s)")
        case True
        then show ?thesis
          using run ends that(1) [of "if tx_done state \<or> \<not> pair_balance_ok e ?s then CONFIRMED else FAILED"]
          by (auto simp: ends_as_def says split: if_splits)
      next
        case False
        with run late show ?thesis
          by (intro that(2)) (auto simp: says set_poll_def change_def due_of_def poll_stall_backoff_def poll_interval_def)
      qed
    qed
  qed
qed

text \<open>C19: A submitted merge comes to its end. Let the relayer know the outcome of the transaction (executed or failed) at every tick from
  a time T on, while before it may say anything or not answer. Then no later than at the first tick at which the
  back-off of the operation has passed and that is 300 seconds after T, the operation is no longer
  submitted, and stays so: it was ended by one tick, as CONFIRMED when the transaction was executed, or when the pair
  was gone at that tick and the transaction had failed or was overdue, as FAILED when the transaction failed and the pair was still held.\<close>

theorem submitted_merge_settles:
  assumes "store_inv (r_store s)" and "get_merge_event i (r_store s) = Some e" and "me_status e = SUBMITTED" and "me_tx e \<noteq> ''''"
    and "\<forall>x \<in> set ws. T \<le> w_now (fst x) \<longrightarrow> tx_says tx_done (fst x) e \<or> tx_says tx_failed (fst x) e"
    and "\<exists>x \<in> set ws. T + 300 \<le> w_now (fst x) \<and> due_of i s \<le> w_now (fst x)"
  shows "\<exists>x \<in> set ws. \<exists>st. ends_as e s x st \<and> status_of i (fold (poll_tick i) ws s) = Some st"
  using assms
proof (induction ws arbitrary: s)
  case (Cons x ws)
  obtain w ps where x: "x = (w, ps)" by fastforce
  from Cons.prems(1-4) show ?case
  proof (cases rule: poll_tick_cases [where w = w and ps = ps])
    case (1 st)
    then have "st = CONFIRMED \<or> st = FAILED" by (auto simp: ends_as_def)
    with ended_stays [of i "poll_tick i x s" ws] 1 have "status_of i (fold (poll_tick i) (x # ws) s) = Some st" by (auto simp: x)
    with 1(2) show ?thesis by (auto simp: x)
  next
    case 2
    let ?u = "poll_tick i x s"
    obtain y where y: "y \<in> set (x # ws)" "T + 300 \<le> w_now (fst y)" "due_of i s \<le> w_now (fst y)" using Cons.prems(6) by blast
    have early: "w_now w < due_of i s \<or> w_now w < T"
      using 2(2) Cons.prems(5) by (auto simp: x split: if_splits)
    then have "y \<noteq> x" using y by (auto simp: x)
    moreover have "due_of i ?u \<le> w_now (fst y)"
      using 2(2) early y by (auto simp: x split: if_splits)
    ultimately have "\<exists>x \<in> set ws. T + 300 \<le> w_now (fst x) \<and> due_of i ?u \<le> w_now (fst x)" using y(1,2) by auto
    moreover have "ends_as e ?u = ends_as e s"
      by (simp add: ends_as_def pair_balance_ok_def position_size_def fun_eq_iff)
    ultimately show ?thesis
      using Cons.IH [of ?u] Cons.prems 2(1) by (auto simp: x)
  qed
qed simp

section \<open>Witnesses\<close>

text \<open>A submission cut off after it was sent, then answered.\<close>

lemma merge_may_arrive_twice_witness:
  "\<exists>n. snd (relayer_request (\<lambda>p (q :: nat) i. if i = 0 then Cut else Answered ''tx'') 7 None) = replicate n (None, 7) \<and>
     arrivals (\<lambda>i. if i = 0 then Cut else Answered ''tx'') n = 2"
  using merge_may_arrive_twice [of "\<lambda>p (q :: nat) i. if i = 0 then Cut else Answered ''tx''" 7 None] by auto

text \<open>Ten pairs reserved; three ticks within four seconds, the answers lost; then the pair is gone.\<close>

definition ready_event :: mevent where
  "ready_event = new_event 900 1 ''w'' ''m'' PAIR 10 ''y'' ''n'' 4 5 ''''"

definition pair_router :: router where
  "pair_router = (new_router \<lparr>ms_rows = [ready_event], ms_next = 2\<rparr>)\<lparr>r_positions :=
     [\<lparr>ps_asset = ''y'', ps_cid = ''m'', ps_size = JNum 10\<rparr>, \<lparr>ps_asset = ''n'', ps_cid = ''m'', ps_size = JNum 10\<rparr>]\<rparr>"

text \<open>The same with a FOK purchase that has filled, and no position at all.\<close>

definition fok_event :: mevent where
  "fok_event = (new_event 900 1 ''w'' ''m'' FOK_MERGE 10 ''y'' ''n'' 4 0 '''')\<lparr>me_order := ''o''\<rparr>"

definition fok_router :: router where
  "fok_router = new_router \<lparr>ms_rows = [fok_event], ms_next = 2\<rparr>"

definition losing_world :: "rat \<Rightarrow> world" where
  "losing_world t = sample_world\<lparr>w_now := t, w_merge := (\<lambda>_ _ _ _. Inl ''timeout''), w_order := (\<lambda>_. Some (''matched'', JNum 10))\<rparr>"

lemma lost_submission_witness:
  "let s = fold (reconcile_row 1) [losing_world 1000, losing_world 1002, losing_world 1004] pair_router in
     submissions s = 3 \<and> status_of 1 s = Some READY \<and> status_of 1 (reconcile_row 1 (losing_world 1006) (s\<lparr>r_positions := []\<rparr>)) = Some FAILED \<and>
     submissions (fold (reconcile_row 1) [losing_world 1000, losing_world 1002, losing_world 1130] fok_router) = 2"
proof -
  let ?ws = "[losing_world 1000, losing_world 1002, losing_world 1004]" and ?ws' = "[losing_world 1000, losing_world 1002, losing_world 1130]"
  have e: "store_inv (r_store pair_router)" "get_merge_event 1 (r_store pair_router) = Some ready_event" "me_status ready_event = READY"
    "\<not> keeps_back_off ready_event" "submissions pair_router = 0"
    by (simp_all add: pair_router_def ready_event_def new_router_def new_event_def store_inv_def index_ok_def get_merge_event_def submissions_def keeps_back_off_def)
  have f: "store_inv (r_store fok_router)" "get_merge_event 1 (r_store fok_router) = Some fok_event" "me_status fok_event = READY"
    "keeps_back_off fok_event" "submissions fok_router = 0" "due_of 1 fok_router = 0"
    by (simp_all add: fok_router_def fok_event_def new_router_def new_event_def store_inv_def index_ok_def get_merge_event_def submissions_def keeps_back_off_def due_of_def)
  have "pair_balance_ok ready_event pair_router" by code_simp
  then have held: "submits ready_event pair_router ?ws" using e(4) by (simp add: submits_def)
  have gone: "\<not> pair_balance_ok ready_event (pair_router\<lparr>r_positions := []\<rparr>)" by code_simp
  have "order_filled (losing_world x) fok_event" for x
    by (simp add: order_filled_def losing_world_def fok_event_def new_event_def eps_def num_default_def)
  then have filled: "submits fok_event fok_router ?ws'" using f(4) by (simp add: submits_def)
  have lost: "\<forall>w \<in> set ?ws. answer_lost w" "\<forall>w \<in> set ?ws'. answer_lost w" by (simp_all add: answer_lost_def losing_world_def)
  have times: "map w_now ?ws = [1000, 1002, 1004]" "map w_now ?ws' = [1000, 1002, 1130]" by (simp_all add: losing_world_def)
  show ?thesis
    using lost_submission [OF e(1-3) held lost(1)] lost_submission [OF f(1-3) filled lost(2)] e(4,5) f(4,5,6) gone
    unfolding Let_def times by (simp add: ask_times_all)
qed

text \<open>The relayer does not answer at 1000 and says at 1310 that the transaction failed, with the pair still held.\<close>

definition tx_world :: "rat \<Rightarrow> string option \<Rightarrow> world" where
  "tx_world t state = sample_world\<lparr>w_now := t, w_tx_state := (\<lambda>_. state)\<rparr>"

lemma submitted_merge_settles_witness:
  "status_of 1 (fold (poll_tick 1) [(tx_world 1000 None, []), (tx_world 1310 (Some ''STATE_FAILED''), r_positions pair_router)]
     (new_router \<lparr>ms_rows = [sample_event], ms_next = 2\<rparr>)) = Some FAILED"
proof -
  let ?s = "new_router \<lparr>ms_rows = [sample_event], ms_next = 2\<rparr>"
  let ?ws = "[(tx_world 1000 None, []), (tx_world 1310 (Some ''STATE_FAILED''), r_positions pair_router)]"
  have s: "store_inv (r_store ?s)" "get_merge_event 1 (r_store ?s) = Some sample_event" "me_status sample_event = SUBMITTED" "me_tx sample_event \<noteq> ''''"
    "due_of 1 ?s = 0"
    by (simp_all add: sample_defs store_inv_def index_ok_def get_merge_event_def due_of_def)
  have says: "\<not> tx_says P (tx_world t None) e" "\<not> tx_overdue (tx_world t None) e" "tx_says P (tx_world t (Some x)) e = P x" "w_now (tx_world t y) = t" for P t x y e
    by (simp_all add: tx_says_def tx_overdue_def tx_world_def)
  have "pair_balance_ok sample_event (?s\<lparr>r_positions := r_positions pair_router\<rparr>)" by code_simp
  moreover have "\<not> tx_done ''STATE_FAILED''" "tx_failed ''STATE_FAILED''" by (simp_all add: tx_done_def tx_failed_def)
  moreover have "\<not> pair_balance_ok sample_event (?s\<lparr>r_positions := []\<rparr>)" by code_simp
  ultimately have ends: "\<not> ends_as sample_event ?s (tx_world 1000 None, []) st"
    "ends_as sample_event ?s (tx_world 1310 (Some ''STATE_FAILED''), r_positions pair_router) st \<Longrightarrow> st = FAILED" for st
    by (auto simp: ends_as_def says)
  have "\<exists>x \<in> set ?ws. \<exists>st. ends_as sample_event ?s x st \<and> status_of 1 (fold (poll_tick 1) ?ws ?s) = Some st"
  proof (rule submitted_merge_settles [OF s(1-4)])
    show "\<forall>x \<in> set ?ws. 1001 \<le> w_now (fst x) \<longrightarrow> tx_says tx_done (fst x) sample_event \<or> tx_says tx_failed (fst x) sample_event"
      by (simp add: says tx_failed_def)
    show "\<exists>x \<in> set ?ws. 1001 + 300 \<le> w_now (fst x) \<and> due_of 1 ?s \<le> w_now (fst x)"
      using s(5) by (simp add: says)
  qed
  with ends show ?thesis by auto
qed

end
