(* ===== verification/Saved_Pool.thy ===== *)
theory Saved_Pool
  imports Records Rounds Monitor
begin

text \<open>
  What the rest of the program gets to see of a scan through the database: \<open>scan_markets\<close> (\<open>engine/manager.py\<close>) hands the
  candidate pool, one entry a market, to \<open>save_eligible_markets\<close> (\<open>models/database.py\<close>), whose rows are read by the quick
  exit router (\<open>_complement_token\<close>) and by the low-balance sales (\<open>get_min_order_cost\<close>).
\<close>

text \<open>The columns of a saved candidate: an entry of the pool has neither a token id nor a minimal cost, so their defaults are stored.\<close>

definition saved_row :: "market \<Rightarrow> eligible_row" where
  "saved_row m = \<lparr>el_market = mk_cid m, el_token = [], el_competition = mk_competition m,
     el_reward = (case mk_reward m of None \<Rightarrow> 0 | Some r \<Rightarrow> r), el_min_cost = 0\<rparr>"

text \<open>\<open>scan_markets\<close> after the scan: \<open>current\<close> tells whether no newer scan has taken over.\<close>

definition save_scan :: "bool \<Rightarrow> market list \<Rightarrow> eligible_row list \<Rightarrow> eligible_row list" where
  "save_scan current pool rows = (if current then save_eligible_markets (map saved_row pool) rows else rows)"

text \<open>What the router reads: market and token of every row.\<close>

definition router_rows :: "eligible_row list \<Rightarrow> (string \<times> string) list" where
  "router_rows rows = map (\<lambda>r. (el_market r, el_token r)) (get_eligible_markets rows)"

section \<open>Routing without a relayer\<close>

abbreviation no_relayer :: "world \<Rightarrow> world" where
  "no_relayer w \<equiv> w\<lparr>w_relayer_env := False\<rparr>"

lemma router_rows_saved: "r \<in> set (router_rows (save_eligible_markets (map saved_row pool) rows)) \<Longrightarrow> snd r = []"
  by (auto simp: router_rows_def get_eligible_markets_def save_eligible_markets_def saved_row_def)

lemma complement_unknown:
  assumes "pair_for cid asset s = None" and "w_eligible w = Some rows" and "\<forall>r \<in> set rows. snd r = []"
  shows "complement_token w cid asset s \<in> {None, Some []}"
proof (cases "find (\<lambda>(m, t). m = cid \<and> t \<noteq> asset) rows")
  case (Some r)
  then have "r \<in> set rows" by (auto dest!: find_SomeD)
  with assms Some show ?thesis by (simp add: complement_token_def)
qed (use assms in \<open>simp add: complement_token_def\<close>)

lemma fields_kept:
  "w_now (no_relayer w) = w_now w" "w_wallet (no_relayer w) = w_wallet w" "w_tmpl (no_relayer w) = w_tmpl w"
  "w_cost_lots (no_relayer w) = w_cost_lots w" "w_sell_book (no_relayer w) = w_sell_book w" "w_orderbook (no_relayer w) = w_orderbook w"
  "w_cancel (no_relayer w) = w_cancel w" "w_limit_sell (no_relayer w) = w_limit_sell w" "w_fak_sell (no_relayer w) = w_fak_sell w"
  "w_order (no_relayer w) = w_order w" "w_eligible (no_relayer w) = w_eligible w" "w_relayer_env (no_relayer w) = False"
  by simp_all

lemma cancel_no_relayer: "cancel_sells (no_relayer w) = cancel_sells w"
  unfolding cancel_sells_def fields_kept ..

lemma fak_no_relayer: "protected_fak (no_relayer w) = protected_fak w"
  unfolding protected_fak_def cancel_no_relayer fields_kept ..

lemma stop_no_relayer: "stop_hit_now (no_relayer w) = stop_hit_now w"
  unfolding stop_hit_now_def fields_kept ..

lemma publish_no_relayer: "publish_status (no_relayer w) = publish_status w"
  unfolding publish_status_def fields_kept ..

lemma complement_no_relayer: "complement_token (no_relayer w) = complement_token w"
  unfolding complement_token_def fields_kept ..

lemma compare_no_relayer:
  assumes "complement_token w (ps_cid p) (ps_asset p) s \<in> {None, Some []}"
  shows "route_compare (no_relayer w) p sz s = route_compare w p sz s"
  unfolding route_compare_def fak_no_relayer complement_no_relayer fields_kept
  using assms by (auto simp: andthen_def gets_def Let_def split: option.split)

lemma pair_for_positions: "r_positions t = r_positions s \<Longrightarrow> pair_for c a t = pair_for c a s"
  by (simp add: pair_for_def)

lemma cancel_positions: "r_positions (snd (cancel_sells w a c q s)) = r_positions s" "fst (cancel_sells w a c q s) = Some ()"
  by (auto simp: cancel_sells_def andthen_def gets_def seq_def emit_def change_def ret_def)

lemma seq_done: "fst (m s) = Some () \<Longrightarrow> seq m n s = n (snd (m s))"
  by (cases "m s") (simp add: seq_def andthen_def)

lemma mark_done: "fst (mark_asset a c t s) = Some ()" "r_positions (snd (mark_asset a c t s)) = r_positions s"
  by (simp_all add: mark_asset_def change_def)

definition blind :: "world \<Rightarrow> bool" where
  "blind w \<longleftrightarrow> (\<exists>rows. w_eligible w = Some rows \<and> (\<forall>r \<in> set rows. snd r = []))"

lemma compare_blind:
  assumes "blind w" and "pair_for (ps_cid p) (ps_asset p) s = None"
  shows "route_compare (no_relayer w) p sz s = route_compare w p sz s"
  using assms complement_unknown [OF assms(2)] unfolding blind_def by (intro compare_no_relayer) blast

lemma due_blind:
  assumes "blind w" and "pair_for (ps_cid p) (ps_asset p) s = None"
  shows "seq (mark_asset a c t) (seq (cancel_sells w b d q) (seq (change (\<lambda>s. s\<lparr>r_managed := f (r_managed s)\<rparr>)) (route_compare (no_relayer w) p sz))) s =
    seq (mark_asset a c t) (seq (cancel_sells w b d q) (seq (change (\<lambda>s. s\<lparr>r_managed := f (r_managed s)\<rparr>)) (route_compare w p sz))) s"
proof -
  let ?t = "snd (cancel_sells w b d q (snd (mark_asset a c t s)))"
  have "pair_for (ps_cid p) (ps_asset p) (?t\<lparr>r_managed := f (r_managed ?t)\<rparr>) = None"
    using assms(2) pair_for_positions [of "?t\<lparr>r_managed := f (r_managed ?t)\<rparr>" s] by (simp add: cancel_positions mark_done)
  from compare_blind [OF assms(1) this] show ?thesis
    by (simp add: seq_done mark_done cancel_positions)
qed

lemma maker_blind:
  assumes "blind w" and "pair_for (ps_cid p) (ps_asset p) s = None"
  shows "maker_route (no_relayer w) p sz lots ask wait s = maker_route w p sz lots ask wait s"
  unfolding maker_route_def cancel_no_relayer fields_kept
  using due_blind [OF assms] compare_blind [OF assms] by (simp add: andthen_gets Let_def)

lemma single_side_blind:
  assumes "blind w" and "pair_for (ps_cid p) (ps_asset p) s = None"
  shows "single_side (no_relayer w) p sz cost lots bid ask wait s = single_side w p sz cost lots bid ask wait s"
  unfolding single_side_def stop_no_relayer using maker_blind [OF assms] compare_blind [OF assms] by simp

lemma pair_first_alone:
  assumes "pair_for (ps_cid p) (ps_asset p) s = None"
  shows "pair_first w p sz lots s = (Some False, s)"
  using assms by (simp add: pair_first_def andthen_gets ret_def)

lemma body_blind:
  assumes "blind w" and "pair_for (ps_cid p) (ps_asset p) s = None"
  shows "route_body (no_relayer w) p s = route_body w p s"
proof -
  have step: "andthen (pair_first v p sz lots) (\<lambda>handled. if handled then ret True else m) s = m s" for v sz lots m
    using pair_first_alone [OF assms(2)] by (simp add: andthen_def)
  show ?thesis
    unfolding route_body_def fields_kept
    by (simp add: Let_def andthen_gets step single_side_blind [OF assms] split: option.split)
qed

lemma route_blind:
  assumes "blind w" and "pair_for (ps_cid p) (ps_asset p) s = None"
  shows "route_position (no_relayer w) p orders s = route_position w p orders s"
proof -
  let ?s = "s\<lparr>r_open := (if orders = [] then r_open s else orders)\<rparr>"
  have "pair_for (ps_cid p) (ps_asset p) ?s = None"
    using assms(2) by (simp add: pair_for_def)
  from body_blind [OF assms(1) this] show ?thesis
    unfolding route_position_def publish_no_relayer by (simp add: catch_def andthen_def seq_def change_def)
qed

section \<open>What a saved pool is good for\<close>

lemma no_relayer_no_purchase:
  assumes "\<not> w_relayer_env w"
  shows "keeps same_foks (route_position w p orders)"
proof -
  have fak: "keeps same_foks (protected_fak w p sz d)" for sz d
    unfolding protected_fak_def Let_def by (intro fok_basic cancel_fok) (auto split: placed.split intro!: fok_basic)
  have compare: "keeps same_foks (route_compare w p sz)" for sz
    unfolding route_compare_def Let_def using assms by (auto split: option.split prod.split intro!: fok_basic fak)
  have maker: "keeps same_foks (maker_route w p sz lots ask wait)" for sz lots ask wait
    unfolding maker_route_def Let_def by (auto split: option.split placed.split intro!: fok_basic cancel_fok compare)
  have publish: "keeps same_foks (publish_status w)"
    unfolding publish_status_def by (rule keeps_change_fok) (simp add: Let_def)
  have "keeps same_foks (route_body w p)"
    unfolding route_body_def Let_def single_side_def
    by (auto split: option.split prod.split intro!: fok_basic pair_first_fok compare maker)
  with publish show ?thesis
    unfolding route_position_def by (auto intro!: fok_basic)
qed

lemma alone_no_purchase: "foks (snd (route_position (no_relayer w) p orders s)) = foks s"
proof -
  have "\<not> w_relayer_env (no_relayer w)" by simp
  then have "keeps same_foks (route_position (no_relayer w) p orders)" by (rule no_relayer_no_purchase)
  then show ?thesis unfolding keeps_def same_foks_def by (rule spec)
qed

lemma saved_blind: "w_eligible w = Some (router_rows (save_eligible_markets (map saved_row pool) old)) \<Longrightarrow> blind w"
  unfolding blind_def using router_rows_saved by blast

lemma saved_costs: "or0 (get_min_order_cost (save_eligible_markets (map saved_row pool) old)) = 0"
proof (cases pool)
  case (Cons m ms)
  have "el_min_cost ` set (map saved_row pool) = {0}" unfolding Cons by (force simp: saved_row_def)
  then have "Min (el_min_cost ` set (map saved_row pool)) = 0" by (simp only: Min_singleton)
  moreover have "map saved_row pool \<noteq> []" unfolding Cons by simp
  ultimately show ?thesis unfolding save_eligible_markets_def get_min_order_cost_def by (simp only: if_False or0_simps)
qed (simp add: save_eligible_markets_def get_min_order_cost_def)

text \<open>C10: A saved scan supports neither merging of single-sided positions nor the price of the next order. Whatever a scan found, with
  its saved rows the router treats a position whose other side is not held exactly as it does without a relayer, so it
  never buys the complement; and sales for the next order aim at the plain threshold.\<close>

theorem saved_scan_is_blind:
  assumes "rows = save_scan True pool old" and "w_eligible w = Some (router_rows rows)"
    and "pair_for (ps_cid p) (ps_asset p) s = None" and "xc_next_order cfg"
  shows "route_position w p orders s = route_position (no_relayer w) p orders s \<and>
    foks (snd (route_position w p orders s)) = foks s \<and>
    dump_target cfg threshold (get_min_order_cost rows) = threshold"
proof -
  have saved: "rows = save_eligible_markets (map saved_row pool) old"
    using assms(1) by (simp only: save_scan_def if_True)
  from assms(2) have "blind w" unfolding saved by (rule saved_blind)
  note same = route_blind [OF this assms(3), of orders]
  have "dump_target cfg threshold (get_min_order_cost rows) = threshold"
    using assms(4) saved_costs [of pool old] unfolding saved dump_target_def by simp
  then show ?thesis
    using alone_no_purchase [of w p orders s] unfolding same by (intro conjI refl)
qed

section \<open>Witness\<close>

text \<open>Ten shares bought at 50 cents, bid at 40, the other side offered at 45: buying it and merging brings more than selling.\<close>

definition cheap_world :: "(string \<times> string) list \<Rightarrow> world" where
  "cheap_world rows = sample_world\<lparr>
     w_tmpl := (w_tmpl sample_world)\<lparr>tm_exit_wait := Some (JNum 0)\<rparr>,
     w_cost_lots := (\<lambda>_ _ _. Some (Some (1/2), [\<lparr>lot_price = 1/2, lot_qty = 10, lot_ts = 900, lot_tid = ''t''\<rparr>])),
     w_sell_book := (\<lambda>_. Some (1/100, ''0.01'', Some (2/5), None)),
     w_orderbook := (\<lambda>a. if a = ''y'' then Some ([\<lparr>row_price = JNum (2/5), row_size = JNum 100\<rparr>], [])
       else Some ([], [\<lparr>row_price = JNum (9/20), row_size = JNum 100\<rparr>])),
     w_eligible := Some rows\<rparr>"

definition yes_position :: position where
  "yes_position = \<lparr>ps_asset = ''y'', ps_cid = ''m'', ps_size = JNum 10\<rparr>"

lemma known_complement_is_bought:
  "foks (snd (route_position (cheap_world [(''m'', ''y''), (''m'', ''n'')]) yes_position [] (new_router \<lparr>ms_rows = [], ms_next = 1\<rparr>))) =
     [Fok_buy ''m'' ''n'' (9/20) 10]"
  by code_simp

lemma saved_scan_witness:
  "foks (snd (route_position (cheap_world (router_rows (save_scan True [demo_market] []))) yes_position [] (new_router \<lparr>ms_rows = [], ms_next = 1\<rparr>))) = [] \<and>
   dump_target (ou_cfg idle_outside\<lparr>xc_next_order := True\<rparr>) 4 (get_min_order_cost (save_scan True [demo_market] [])) = 4"
proof -
  let ?w = "cheap_world (router_rows (save_scan True [demo_market] []))"
  let ?s = "new_router \<lparr>ms_rows = [], ms_next = 1\<rparr>"
  have "w_eligible ?w = Some (router_rows (save_scan True [demo_market] []))" by (simp add: cheap_world_def)
  moreover have "pair_for (ps_cid yes_position) (ps_asset yes_position) ?s = None" by (simp add: pair_for_def new_router_def)
  moreover have "xc_next_order (ou_cfg idle_outside\<lparr>xc_next_order := True\<rparr>)" by simp
  moreover have "foks ?s = []" by (simp add: foks_def new_router_def)
  ultimately show ?thesis
    using saved_scan_is_blind [OF refl, where w = ?w and p = yes_position and s = ?s and pool = "[demo_market]" and old = "[]"
      and cfg = "ou_cfg idle_outside\<lparr>xc_next_order := True\<rparr>" and threshold = 4 and orders = "[]"] by metis
qed

end
