(* ===== verification/Preview.thy ===== *)
theory Preview
  imports Rounds
begin

text \<open>
  The read-only previews of \<open>web/routes.py\<close>: what the engine would place on a market
  (\<open>_ladder_payload\<close>) and the figures shown with the list of eligible markets
  (\<open>_derive_display_metrics\<close>, \<open>api_eligible_markets\<close>). Both read the same books, templates and size modules as
  the placement round does.
\<close>

section \<open>The settings of a preview\<close>

text \<open>\<open>float(tmpl.get(key))\<close> on a template filled up with the defaults: None is the exception of a null or of a bad value.\<close>

definition strict_num :: "jnum \<Rightarrow> rat option" where
  "strict_num v = (case v of JNum x \<Rightarrow> Some x | _ \<Rightarrow> None)"

text \<open>\<open>float(tmpl.get(key) or 0)\<close>.\<close>

definition lenient_num :: "jnum \<Rightarrow> rat option" where
  "lenient_num v = (case v of JNum x \<Rightarrow> Some x | JNull \<Rightarrow> Some 0 | JBad \<Rightarrow> None)"

definition preview_gap_config :: "template \<Rightarrow> json \<Rightarrow> gap_cfg option" where
  "preview_gap_config tm t =
     (case (strict_num (tm_wide tm), strict_num (tm_mid tm), strict_num (tm_cliff tm), lenient_num (tm_veto tm), gap_config tm t) of
        (Some wide, Some mid, Some cliff, Some veto, Some cfg) \<Rightarrow>
          Some (cfg\<lparr>gc_wide := wide, gc_mid := mid, gc_cliff := Some cliff, gc_veto := Some veto\<rparr>)
      | _ \<Rightarrow> None)"

definition preview_wall_config :: "template \<Rightarrow> rat \<Rightarrow> wall_cfg option" where
  "preview_wall_config tm balance =
     (case (strict_num (tm_custom_usd tm), strict_num (tm_wall tm), strict_num (tm_cumulative tm), strict_num (tm_cliff tm)) of
        (Some custom, Some wall, Some cumulative, Some cliff) \<Rightarrow>
          Some \<lparr>wc_mode = tm_size_mode tm, wc_balance = balance, wc_custom_usd = custom, wc_wall = int_trunc wall,
            wc_cumulative = int_trunc cumulative, wc_cliff = Some cliff\<rparr>
      | _ \<Rightarrow> None)"

section \<open>The preview of a market\<close>

text \<open>A row of the pool; \<open>pr_tokens\<close> are the tokens of the market, the single one of the row when the row comes
  from the database.\<close>

record pool_row =
  pr_market :: string
  pr_tokens :: "string list"
  pr_spread :: rat
  pr_min_size :: int

definition row_side :: "pool_row \<Rightarrow> quote_book \<Rightarrow> side option" where
  "row_side m b =
     (case (sort_desc lv_price (bk_bids b), sort_key lv_price (bk_asks b)) of
        (bid # bids, ask # asks) \<Rightarrow>
          let (rmin, rmax) = reward_price_range ((lv_price bid + lv_price ask) / 2) (pr_spread m)
          in Some \<lparr>sd_bids = bid # bids, sd_rmin = rmin, sd_rmax = rmax, sd_min_size = of_int (pr_min_size m),
               sd_max_spread = pr_spread m, sd_tick = qb_tick b\<rparr>
      | _ \<Rightarrow> None)"

text \<open>The sides of the first two tokens; None when a book cannot be fetched.\<close>

fun row_sides :: "pool_row \<Rightarrow> (string \<Rightarrow> quote_book option) \<Rightarrow> string list \<Rightarrow> (string \<times> side) list option" where
  "row_sides m books [] = Some []"
| "row_sides m books (t # ts) =
     (if t = [] then row_sides m books ts
      else case books t of
          None \<Rightarrow> None
        | Some b \<Rightarrow>
            (case row_sides m books ts of
               None \<Rightarrow> None
             | Some sides \<Rightarrow> Some (case row_side m b of None \<Rightarrow> sides | Some s \<Rightarrow> (t, s) # sides)))"

datatype view = No_tier int | Gap_view decision | Wall_view wall_decision

fun wall_views :: "wall_cfg \<Rightarrow> (string \<times> side) list \<Rightarrow> (string \<times> view) list option" where
  "wall_views w [] = Some []"
| "wall_views w ((t, s) # sides) =
     (case (explain_legacy_order w (sd_bids s) (of_int (int_trunc (sd_max_spread s))) (sd_tick s) (sd_rmin s) (sd_rmax s) (sd_min_size s),
            wall_views w sides) of
        (Some d, Some vs) \<Rightarrow> Some ((t, Wall_view d) # vs)
      | _ \<Rightarrow> None)"

definition gap_views :: "gap_cfg \<Rightarrow> (string \<times> side) list \<Rightarrow> (string \<times> view) list" where
  "gap_views cfg sides =
     (let a = (case sides of [] \<Rightarrow> None | s # ss \<Rightarrow> Some s); b = (case sides of s # s' # ss \<Rightarrow> Some s' | _ \<Rightarrow> None);
          (da, db) = preview_gap_single_market cfg (map_option snd a) (map_option snd b)
      in List.map_filter (\<lambda>(s, d). case (s, d) of (Some (t, sd), Some x) \<Rightarrow> Some (t, Gap_view x) | _ \<Rightarrow> None) [(a, da), (b, db)])"

record ladder =
  ld_budget :: rat
  ld_shares :: int
  ld_views :: "(string \<times> view) list"

datatype 'a answer = Page 'a | Not_found | Server_error

text \<open>What the first account gives: positions, balance, books by token; None is an exception. \<open>row\<close> is the first pool
  row of the market.\<close>

record account_view =
  av_template :: template
  av_positions :: "holding list option"
  av_balance :: "rat option"
  av_books :: "string \<Rightarrow> quote_book option"

definition views :: "template \<Rightarrow> rat \<Rightarrow> int \<Rightarrow> (string \<times> side) list \<Rightarrow> (string \<times> view) list option" where
  "views tm balance min_size sides =
     (case tier_for (tm_tiers tm) (J_int min_size) of
        Inl e \<Rightarrow> None
      | Inr None \<Rightarrow> Some (map (\<lambda>(t, s). (t, No_tier min_size)) sides)
      | Inr (Some tier) \<Rightarrow>
          if tm_mode tm = ''legacy_wall''
          then (case preview_wall_config tm balance of None \<Rightarrow> None | Some w \<Rightarrow> wall_views w sides)
          else map_option (\<lambda>cfg. gap_views cfg sides) (preview_gap_config tm tier))"

definition ladder_payload :: "account_view option \<Rightarrow> pool_row option \<Rightarrow> ladder answer" where
  "ladder_payload account row =
     (case account of
        None \<Rightarrow> Not_found
      | Some av \<Rightarrow>
          let tm = av_template av in
          (case (strict_num (tm_max_usd tm), strict_num (tm_max_shares tm)) of
             (Some max_usd, Some max_shares) \<Rightarrow>
               (case row of
                  None \<Rightarrow> Not_found
                | Some m \<Rightarrow>
                    let (helds, val, shares) = held_side_info (case av_positions av of None \<Rightarrow> [] | Some ps \<Rightarrow> ps) in
                    (case (av_balance av, row_sides m (av_books av) (take 2 (pr_tokens m))) of
                       (Some balance, Some sides) \<Rightarrow>
                         (case views tm balance (pr_min_size m) sides of
                            None \<Rightarrow> Server_error
                          | Some vs \<Rightarrow> Page
                              \<lparr>ld_budget = max 0 (min balance max_usd - or0 (val (pr_market m))),
                               ld_shares = max 0 (int_trunc max_shares - int_trunc (or0 (shares (pr_market m)))),
                               ld_views = vs\<rparr>)
                     | _ \<Rightarrow> Server_error))
           | _ \<Rightarrow> Server_error))"

section \<open>The list of eligible markets\<close>

text \<open>The representative of a market: reward range and spread in cents of the first token with a two-sided book.\<close>

fun display_metrics :: "rat \<Rightarrow> (string \<Rightarrow> snapshot option) \<Rightarrow> token list \<Rightarrow> ((rat \<times> rat) \<times> rat) option" where
  "display_metrics spread books [] = None"
| "display_metrics spread books (t # ts) =
     (case books (tk_id t) of
        None \<Rightarrow> display_metrics spread books ts
      | Some b \<Rightarrow>
          (case (sort_desc lv_price (bk_bids b), sort_key lv_price (bk_asks b)) of
             (bid # bids, ask # asks) \<Rightarrow>
               Some (reward_price_range ((lv_price bid + lv_price ask) / 2) spread, (lv_price ask - lv_price bid) * 100)
           | _ \<Rightarrow> display_metrics spread books ts))"

definition derive_display_metrics :: "market list \<Rightarrow> (market \<times> ((rat \<times> rat) \<times> rat) option) list" where
  "derive_display_metrics ms = map (\<lambda>m. (m\<lparr>mk_books := Map.empty\<rparr>, display_metrics (mk_max_spread m) (mk_books m) (mk_tokens m))) ms"

text \<open>\<open>api_eligible_markets\<close>: the pool in memory during a scan and whenever it is not empty, else the stored
  one; without a manager the stored one.\<close>

definition eligible_source :: "(bool \<times> market list) option \<Rightarrow> market list \<Rightarrow> market list" where
  "eligible_source manager stored =
     (case manager of None \<Rightarrow> stored | Some (scanning, pool) \<Rightarrow> if scanning \<or> pool \<noteq> [] then pool else stored)"

definition api_eligible_markets :: "(bool \<times> market list) option \<Rightarrow> market list \<Rightarrow> (market \<times> ((rat \<times> rat) \<times> rat) option) list" where
  "api_eligible_markets manager stored = derive_display_metrics (eligible_source manager stored)"

section \<open>The preview is what is placed\<close>

definition readable :: "template \<Rightarrow> bool" where
  "readable tm \<longleftrightarrow> (\<forall>v \<in> {tm_wide tm, tm_mid tm, tm_cliff tm, tm_veto tm, tm_custom_usd tm, tm_wall tm, tm_cumulative tm}. \<exists>x. v = JNum x)"

lemma preview_configs:
  assumes "readable tm"
  shows "preview_gap_config tm t = gap_config tm t" and "preview_wall_config tm balance = Some (wall_config tm balance)"
  using assms
  by (auto simp: readable_def preview_gap_config_def preview_wall_config_def wall_config_def strict_num_def lenient_num_def
      gap_config_def tmpl_num_def split: option.splits)

text \<open>The sides are built alike.\<close>

lemma row_side_is_build_side:
  assumes "vn_book v (en_token e) = Some b" and "en_spread e = pr_spread m" and "en_min_size e = pr_min_size m"
  shows "build_side v e = map_option (Pair (en_token e)) (row_side m b)"
  using assms by (auto simp: build_side_def row_side_def split: list.split prod.split)

text \<open>The price and the shares a view announces.\<close>

fun announced :: "view \<Rightarrow> (rat \<times> int) option" where
  "announced (No_tier n) = None"
| "announced (Gap_view d) = (if d_place d then (case (d_price d, d_shares d) of (Some p, Some n) \<Rightarrow> Some (p, n) | _ \<Rightarrow> None) else None)"
| "announced (Wall_view d) = (if wd_place d then (case (wd_price d, wd_shares d) of (Some p, Some n) \<Rightarrow> Some (p, n) | _ \<Rightarrow> None) else None)"

lemma gap_announced: "announced (Gap_view (explain_gap_single_order cfg (sd_bids s) (sd_rmin s) (sd_rmax s) (sd_min_size s))) = gap_quote cfg s"
  by (simp add: gap_quote_def plan_gap_single_order_def Let_def)

lemma gap_views_two: "gap_views cfg [(t, s), (u, r)] = [(t, Gap_view (explain_gap_single_order cfg (sd_bids s) (sd_rmin s) (sd_rmax s) (sd_min_size s))),
    (u, Gap_view (explain_gap_single_order cfg (sd_bids r) (sd_rmin r) (sd_rmax r) (sd_min_size r)))]"
  by (simp add: gap_views_def preview_gap_single_market_def Let_def List.map_filter_simps)

lemma wall_announced:
  assumes "wall_views w sides = Some vs"
  shows "map (\<lambda>(t, v). (t, announced v)) vs = map (\<lambda>(t, s). (t, legacy_quote w s)) sides"
  using assms
proof (induction sides arbitrary: vs)
  case (Cons x sides)
  obtain t s where "x = (t, s)" by (cases x)
  with Cons show ?case
    by (auto simp: legacy_quote_def split: option.splits)
qed simp

text \<open>C11: What is placed is what the preview announced. On a template whose numbers are all readable, with the same balance and
  the same two sides, every order the placement round plans for a side, whatever money and shares are left and
  whichever side is left out as held, has exactly the price the preview announced for that side and at most
  its shares; a side for which the preview announced nothing gets no order.\<close>

theorem placement_follows_preview:
  assumes "readable tm" and "tier_for (tm_tiers tm) (J_int k) = Inr (Some tier)" and "gap_config tm tier = Some cfg"
    and "views tm balance k [(t, sa), (u, sb)] = Some vs"
    and "price_sides tm cfg balance ca cb budget left = Some ((a, ea), (b, eb))"
    and "ca \<in> {None, Some sa}" and "cb \<in> {None, Some sb}"
  shows "\<exists>va vb. vs = [(t, va), (u, vb)] \<and>
    (\<forall>p n. a = Some (p, n) \<longrightarrow> (\<exists>w. announced va = Some (p, w) \<and> n \<le> w)) \<and>
    (\<forall>p n. b = Some (p, n) \<longrightarrow> (\<exists>w. announced vb = Some (p, w) \<and> n \<le> w))"
proof (cases "tm_mode tm = ''legacy_wall''")
  case True
  let ?w = "wall_config tm balance"
  have vs: "wall_views ?w [(t, sa), (u, sb)] = Some vs"
    using assms(2,4) True preview_configs(2) [OF assms(1)] by (simp add: views_def)
  then obtain va vb where v: "vs = [(t, va), (u, vb)]"
    by (auto split: option.splits)
  with wall_announced [OF vs] have q: "announced va = legacy_quote ?w sa" "announced vb = legacy_quote ?w sb"
    by simp_all
  have "plan_market (legacy_quote ?w) ca cb budget left = (a, b)"
    using assms(5) True by (auto simp: price_sides_def compute_market_legacy_orders_def Let_def split: prod.splits option.splits)
  from legacy.every_order [OF this] assms(6,7) v q show ?thesis by auto
next
  case False
  have "vs = gap_views cfg [(t, sa), (u, sb)]"
    using assms(2,3,4) False preview_configs(1) [OF assms(1)] by (simp add: views_def)
  moreover have "plan_market (gap_quote cfg) ca cb budget left = (a, b)"
    using assms(5) False by (auto simp: price_sides_def compute_market_single_orders_def Let_def split: prod.splits)
  ultimately show ?thesis
    using gap.every_order [of cfg ca cb budget left a b] assms(6,7) gap_announced [of cfg] by (auto simp: gap_views_two)
qed

section \<open>Witness\<close>

definition readable_template :: template where
  "readable_template = demo_template\<lparr>tm_wide := JNum 10, tm_mid := JNum 5, tm_custom_usd := JNum 0, tm_wall := JNum 2000, tm_cumulative := JNum 6000\<rparr>"

lemma placement_follows_preview_witness:
  "\<exists>vs w. views readable_template 18 20 [(''y'', demo_side), (''n'', demo_side)] = Some vs \<and> announced (snd (hd vs)) = Some (2/5, w) \<and> 32 \<le> w"
proof -
  have r: "readable readable_template" "tm_tiers readable_template = [demo_tier]" "tm_mode readable_template \<noteq> ''legacy_wall''"
    by (simp_all add: readable_def readable_template_def demo_template_def)
  have cfg: "gap_config readable_template demo_tier = Some demo_gap"
    using demo_gap_config by (simp add: readable_template_def gap_config_def demo_template_def tmpl_num_def split: option.splits)
  have tier: "tier_for (tm_tiers readable_template) (J_int 20) = Inr (Some demo_tier)"
    by (simp add: r(2) demo_tier_for)
  obtain vs where v: "views readable_template 18 20 [(''y'', demo_side), (''n'', demo_side)] = Some vs"
    using tier cfg r(3) preview_configs(1) [OF r(1)] by (simp add: views_def)
  have p: "price_sides readable_template demo_gap 18 (Some demo_side) None 13 490 = Some ((Some (2/5, 32), gap_explained demo_gap (Some demo_side)), (None, None))"
    using demo_price r(3) by (simp add: price_sides_def demo_template_def gap_explained_def split: prod.splits)
  from placement_follows_preview [OF r(1) tier cfg v p] v show ?thesis by auto
qed

end
