(* ===== verification/Spec2Isabelle.thy ===== *)
theory Spec2Isabelle
  imports Legacy_Wall Login Scan_Progress Scripts Worker_Loop Scanner_Loop Wallet_Threads Context Crypto App Relayer Saved_Pool Preview Pages Displays
begin

text \<open>
  A verification development for the Polymarket market maker under \<open>src/\<close>: a Python process that keeps limit
  buy orders in reward bands, sells what gets filled, and is operated over a local or a hosted web page.

  How the parts interact. The manager (\<open>engine/manager.py\<close>) has one worker per enabled wallet and one
  scanner thread. The scanner (\<open>engine/scanner.py\<close>) discovers rewarded markets for all templates at once and
  leaves a pool of candidates; after each scan and on every round the manager filters the pool by the
  template of each wallet and lets its worker place orders. Every tick of a worker runs the monitor
  (\<open>engine/monitor.py\<close>): new fills, the exit of every position (handing it first to the quick exit router,
  \<open>engine/exit_router.py\<close>, which may merge a YES/NO pair through the relayer), the compliance check of resting buys,
  resolved markets, sales on low balance. Templates, wallets, settings, journals and merge operations are
  tables (\<open>models/database.py\<close>); all traffic of a wallet goes through \<open>api/polymarket_api.py\<close> and its proxy
  (\<open>api/proxy.py\<close>). The routes (\<open>web/routes.py\<close>) edit the tables, start and stop workers, and show what was done.

  Theories, the code they model, and what their lemmas show.

  \<^item> \<open>Prelude\<close>: numbers, Python's \<open>round\<close> and \<open>int\<close>, strings, stable sorting, association lists. \<open>Json\<close>: values of \<open>json.loads\<close> and
    their conversions, with the exceptions. \<open>Dates\<close>: the date parsers of the scanner.
  \<^item> Costs. \<open>Fifo\<close>, \<open>Fills\<close>, \<open>Pnl\<close> (\<open>engine/take_profit.py\<close>, \<open>merge_accounting.py\<close>, \<open>fills.py\<close>, \<open>pnl.py\<close>, \<open>pnl_ledger.py\<close>):
    the inventory \<open>lots\<close> of a position, its consumption by sales and merges, realised profit by day. The locale \<open>fifo_queue\<close>
    reads lots as single units; the three loops of the code are its instances, and replay of fills followed
    by merges equals the interleaved history.
  \<^item> Exits. \<open>Orders\<close>, \<open>Take_Profit\<close> (\<open>plan_exit\<close>, \<open>reconcile_tp_orders\<close>), \<open>Protected_Exit\<close> (\<open>protected_fak_plan\<close>, \<open>quote_merge_route\<close>,
    refining one specification of walking a book), \<open>Liquidation\<close> (order of sales): the monitor's own plan never sells below cost except by a stop.
  \<^item> Quick exit. \<open>Merge\<close> (transactions and profit of a merge), \<open>Merge_Store\<close> (table of operations; locale \<open>event_log\<close>), \<open>Exit_Status\<close>,
    \<open>Exit_Router\<close> (\<open>engine/exit_router.py\<close>, a method as a state function that may raise), \<open>Exit_Safety\<close> and \<open>Exit_Lifecycle\<close>
    (locale \<open>state_rel\<close>: relations every method preserves; the step relation of operations and its invariants over runs),
    \<open>Router_Sales\<close> (what the router itself sells, when and for how much).
  \<^item> Prices. \<open>Order_Plan\<close> (size, cliff, plan of a market on one budget; locale \<open>pricing\<close>), \<open>Laddering\<close> (gap engine) and \<open>Legacy_Wall\<close>
    (wall engine), the two instances of \<open>pricing\<close>: when an order is placed, at which price and size; explanations
    agree with decisions.
  \<^item> Resting buys. \<open>Compliance\<close> (step 3 of the monitor, \<open>eligibility.py\<close>, \<open>rewards.py\<close>, \<open>strategy.py\<close>): what cancels an order, and that unknown
    data never does. \<open>Fill_Watch\<close> (step 1): no fill handled twice.
  \<^item> Positions. \<open>Holdings\<close> (\<open>positions.py\<close>, \<open>resolution.py\<close>), \<open>Monitor\<close> (\<open>_exit_position\<close>, resolved markets, low balance).
  \<^item> Placement. \<open>Tiers\<close> (\<open>tiers.py\<close>), \<open>Placement\<close> (\<open>place_orders\<close>), \<open>Scanner\<close> (\<open>scanner.py\<close>, \<open>categories.py\<close>), \<open>Rounds\<close> (pool to placement):
    guards and limits of every buy; the fast round decides like the full filter.
  \<^item> Life cycle. \<open>Engine\<close> (\<open>WalletWorker\<close> and \<open>EngineManager\<close>: tick, start, stop, restart, recovery), \<open>Scan_State\<close> (manual and
    automatic scans), \<open>Scanner_Loop\<close> (its threads) and \<open>Wallet_Threads\<close> (starts, stops, monitors and rounds of one wallet) as interleaved
    steps with reachability invariants and the runs that break them, \<open>Worker_Loop\<close> (what an exception costs a tick), \<open>Scan_Progress\<close>
    (what a discovery shows while its answers come in), \<open>App\<close> (start and end of the process: the engine is not stopped).
  \<^item> Services. \<open>Proxy\<close> (parsing, probing, retries, the current proxy of a context), \<open>Client\<close> (requests, batches, pages), \<open>Relayer\<close>
    (connections cut after sending; what the router does when the answer to a submission is lost, and when it ends a submitted
    merge), \<open>Context\<close> (the current proxy as the mutable variable it is; it refines
    the argument of the other theories), \<open>Crypto\<close> (stored keys over base64 and an authenticated cipher).
  \<^item> Tables. \<open>Store\<close> (settings, templates, wallets, migration, \<open>config.py\<close>), \<open>Records\<close> (journals and their pages), \<open>Saved_Pool\<close> (what
    the readers of a saved scan see).
  \<^item> Pages. \<open>Login\<close> (posts in parallel threads), \<open>Accounts\<close> and \<open>Wallet_Import\<close> (import of wallets), \<open>Preview\<close> (what would be placed), \<open>Pages\<close> (wallets, orders, engine),
    \<open>Displays\<close> (names, snapshots, category counts, texts on costs, port), \<open>App\<close> (pages that only hand on). \<open>Scripts\<close>: what the scripts run
    by hand compute and which way they ask.

  Correspondence. Definitions carry the names of the functions and methods they model (a leading underscore
  dropped, a suffix where a name is taken). Classes are records of their fields. Python floats are exact rationals:
  every comparison, \<open>round\<close>, truncation and tolerance of the code is kept, binary rounding is not; where JSON
  can deliver infinities or NaN, \<open>flt\<close> has them. Python integers are \<open>int\<close>, strings are lists of bytes (pasted text: code points).
  An exception is None, \<open>Crash\<close>, an error value or a flag, whichever the caller distinguishes. Effects on
  the exchange, the relayer and the tables are logged in order. Everything outside \<open>src/\<close> is an argument: exchange and data
  services (\<open>venue\<close>, \<open>outside\<close>, \<open>world\<close>, \<open>feed\<close>, \<open>answers\<close>, \<open>answer\<close>), clock, cipher, hash and key derivation, ABI encoder,
  Gamma, operating system. The order in which a Python set is iterated is an argument too.

  Bounds and fuel. All loops of the code are structural or bounded by a list, except the paging loops of
  \<open>Client\<close>: those with a page limit run on that limit, which \<open>paging_ends\<close> shows to be enough; the
  unbounded one carries fuel, and returns once the service ends its pages, not otherwise. Threads and router
  runs are unbounded sequences of steps.

  Not modelled. Failures of the database other than uniqueness; binary rounding of floats; characters
  beyond ASCII in case folding and white space; the exact Chinese texts of reasons (constructors or short
  texts instead); logging and printing; the completion order of thread pools except in \<open>Scan_Progress\<close> (submission order instead);
  changes of the table of workers while it is iterated (a finding of the manifest); the window between a test and the write it
  guards in the scans (one step in \<open>Scan_State\<close>) and ticks of a worker in the middle of its recovery (those before it are in
  \<open>Engine\<close>); rendering of HTML and JSON; the tray
  icon, the browser and the HTTP servers; AES-GCM, PBKDF2, signing and the derivation of addresses (arguments); the samples and files the
  scripts write; tests, installers and templates of the pages, which hold no logic of the engine.
\<close>

end
